(* ===== verification/Prelude.thy ===== *)
theory Prelude
  imports "HOL-Library.Word" "HOL-Library.Monad_Syntax"
begin

text \<open>
  Shared vocabulary of the development: machine integers, the panic convention, and the
  parts of the Rust standard library that several components call (slicing, index
  reads, checked subtraction, \<open>partition_point\<close>, \<open>copy_within\<close>, iteration over a
  sub-range with \<open>iter_mut\<close>), together with the list lemmas the component proofs share.

  A Rust panic (failed \<open>assert!\<close>, index or slice out of range, \<open>expect\<close> on \<open>None\<close>,
  arithmetic underflow of a \<open>usize\<close>) is the value \<^const>\<open>None\<close>; a computation that
  returns is \<^const>\<open>Some\<close>. \<open>usize\<close> is \<^typ>\<open>nat\<close>: every \<open>usize\<close> of the modelled code is a
  length of, or an offset into, memory that is allocated, so it never reaches \<open>2^64\<close>;
  subtraction is checked by \<open>usub\<close>.
\<close>

type_synonym u8 = "8 word"
type_synonym u16 = "16 word"
type_synonym u32 = "32 word"
type_synonym u64 = "64 word"

named_theorems panic_simps "evaluation of the checked standard library operations"
named_theorems range_simps "lists cut into segments"

subsection \<open>Checked operations\<close>

definition nth_opt :: "'a list \<Rightarrow> nat \<Rightarrow> 'a option" where
  "nth_opt xs i = (if i < length xs then Some (xs ! i) else None)"

definition usub :: "nat \<Rightarrow> nat \<Rightarrow> nat option" where
  "usub a b = (if b \<le> a then Some (a - b) else None)"

text \<open>\<open>&xs[i..j]\<close>: a slice whose bounds are checked.\<close>

definition subslice :: "'a list \<Rightarrow> nat \<Rightarrow> nat \<Rightarrow> 'a list option" where
  "subslice xs i j = (if i \<le> j \<and> j \<le> length xs then Some (drop i (take j xs)) else None)"

definition rust_assert :: "bool \<Rightarrow> unit option" where
  "rust_assert b = (if b then Some () else None)"

text \<open>
  \<open>slice::partition_point\<close>: the length of the longest prefix that satisfies the predicate,
  which is what the library documents for a slice that is partitioned by it.
\<close>

definition partition_point :: "('a \<Rightarrow> bool) \<Rightarrow> 'a list \<Rightarrow> nat" where
  "partition_point P xs = length (takeWhile P xs)"

text \<open>\<open>for x in &mut xs[i..j] { *x = f(*x) }\<close>\<close>

definition map_range :: "('a \<Rightarrow> 'a) \<Rightarrow> nat \<Rightarrow> nat \<Rightarrow> 'a list \<Rightarrow> 'a list" where
  "map_range f i j xs = take i xs @ map f (drop i (take j xs)) @ drop (max i j) xs"

text \<open>\<open>slice::copy_within(src_from..src_to, dest)\<close>, which panics when a bound is out of range.\<close>

definition copy_within :: "'a list \<Rightarrow> nat \<Rightarrow> nat \<Rightarrow> nat \<Rightarrow> 'a list option" where
  "copy_within xs i j dest =
     (if i \<le> j \<and> j \<le> length xs \<and> dest + (j - i) \<le> length xs
      then Some (take dest xs @ drop i (take j xs) @ drop (dest + (j - i)) xs)
      else None)"

text \<open>\<open>buf[at..at + src.len()].copy_from_slice(src)\<close>\<close>

definition copy_from_slice :: "'a list \<Rightarrow> nat \<Rightarrow> 'a list \<Rightarrow> 'a list option" where
  "copy_from_slice xs i src =
     (if i + length src \<le> length xs
      then Some (take i xs @ src @ drop (i + length src) xs) else None)"

subsection \<open>Errors\<close>

text \<open>The operator \<open>?\<close>: an error is returned at once.\<close>

definition try_bind :: "('e + 'a) option \<Rightarrow> ('a \<Rightarrow> ('e + 'b) option) \<Rightarrow> ('e + 'b) option" where
  "try_bind m f =
     (case m of None \<Rightarrow> None | Some (Inl e) \<Rightarrow> Some (Inl e) | Some (Inr x) \<Rightarrow> f x)"

lemma try_bind_simps [simp]:
  "try_bind None f = None" "try_bind (Some (Inl e)) f = Some (Inl e)" "try_bind (Some (Inr x)) f = f x"
  by (simp_all add: try_bind_def)

lemma try_bind_Inr:
  "try_bind m f = Some (Inr y) \<longleftrightarrow> (\<exists>x. m = Some (Inr x) \<and> f x = Some (Inr y))"
  by (auto simp: try_bind_def split: option.splits sum.splits)

subsection \<open>Evaluation of the checked operations\<close>

lemma nth_opt_simps [panic_simps]:
  "i < length xs \<Longrightarrow> nth_opt xs i = Some (xs ! i)"
  "length xs \<le> i \<Longrightarrow> nth_opt xs i = None"
  by (auto simp: nth_opt_def)

lemma nth_opt_append [panic_simps]:
  "nth_opt (xs @ ys) (length xs + i) = nth_opt ys i"
  "nth_opt (xs @ ys) (length xs + i + k) = nth_opt ys (i + k)"
  "i < length xs \<Longrightarrow> nth_opt (xs @ ys) i = nth_opt xs i"
  "length xs \<le> i \<Longrightarrow> nth_opt (xs @ ys) i = nth_opt ys (i - length xs)"
  by (auto simp: nth_opt_def nth_append)

lemma usub_simps [panic_simps]:
  "b \<le> a \<Longrightarrow> usub a b = Some (a - b)"
  "a < b \<Longrightarrow> usub a b = None"
  by (auto simp: usub_def)

lemma usub_add [simp]: "usub (a + b) a = Some b" "usub (a + b) b = Some a"
  by (auto simp: usub_def)

lemma rust_assert_simps [simp]: "rust_assert True = Some ()" "rust_assert False = None"
  by (auto simp: rust_assert_def)

lemma rust_assert_Some [simp]: "rust_assert b = Some u \<longleftrightarrow> b"
  by (auto simp: rust_assert_def)

lemma subslice_prefix [range_simps]:
  "j \<le> length xs \<Longrightarrow> subslice (xs @ ys) i j = subslice xs i j"
  by (auto simp: subslice_def)

lemma subslice_middle [range_simps]:
  "subslice (xs @ ys @ zs) (length xs) (length xs + length ys) = Some ys"
  by (auto simp: subslice_def)

lemma subslice_suffix [range_simps]:
  "subslice (xs @ ys) (length xs + i) (length xs + j) = subslice ys i j"
  by (auto simp: subslice_def drop_take)

lemma subslice_all [range_simps]: "subslice xs 0 (length xs) = Some xs"
  by (auto simp: subslice_def)

lemma subslice_empty [range_simps]: "i \<le> length xs \<Longrightarrow> subslice xs i i = Some []"
  by (auto simp: subslice_def)

subsection \<open>Partition points\<close>

lemma partition_point_append [range_simps]:
  "list_all P xs \<Longrightarrow> list_all (\<lambda>x. \<not> P x) ys \<Longrightarrow> partition_point P (xs @ ys) = length xs"
  by (cases ys)
     (auto simp: partition_point_def list_all_iff takeWhile_append
        takeWhile_eq_all_conv[THEN iffD2])

lemma partition_point_all [range_simps]:
  "list_all P xs \<Longrightarrow> partition_point P xs = length xs"
  by (simp add: partition_point_def list_all_iff takeWhile_eq_all_conv[THEN iffD2])

lemma partition_point_none [range_simps]:
  "list_all (\<lambda>x. \<not> P x) xs \<Longrightarrow> partition_point P xs = 0"
  by (cases xs) (auto simp: partition_point_def)

lemma partition_point_le: "partition_point P xs \<le> length xs"
  by (simp add: partition_point_def length_takeWhile_le)

subsection \<open>Updates of a range\<close>

lemma map_range_middle [range_simps]:
  "map_range f (length xs) (length xs + length ys) (xs @ ys @ zs) = xs @ map f ys @ zs"
  by (simp add: map_range_def)

lemma map_range_from [range_simps]:
  "map_range f (length xs) (length xs + length ys) (xs @ ys) = xs @ map f ys"
  by (simp add: map_range_def)

lemma length_map_range: "i \<le> j \<Longrightarrow> j \<le> length xs \<Longrightarrow> length (map_range f i j xs) = length xs"
  by (simp add: map_range_def)

lemma copy_from_slice_middle [range_simps]:
  "length ys = length src \<Longrightarrow>
   copy_from_slice (xs @ ys @ zs) (length xs) src = Some (xs @ src @ zs)"
  by (simp add: copy_from_slice_def)

end
