(* ===== verification/Utf8.thy ===== *)
theory Utf8
  imports Prelude
begin

unbundle bit_operations_syntax

text \<open>
  Characters and their UTF-8 encoding. A Rust \<open>char\<close> is a Unicode scalar value, kept as a
  32-bit word that satisfies \<open>uchar_ok\<close>; a \<open>str\<close> is the list of its characters, and \<open>utf8\<close>
  is its bytes. \<open>encode_utf8\<close>, \<open>len_utf8\<close> and \<open>from_utf8\<close> model the standard library; the
  decoders are those of src/buffer/internal.rs.
\<close>

type_synonym uchar = "32 word"
type_synonym ustr = "uchar list"

subsection \<open>The standard library's encoder\<close>

definition uchar_ok :: "uchar \<Rightarrow> bool" where
  "uchar_ok c \<longleftrightarrow> c < 0xD800 \<or> (0xE000 \<le> c \<and> c < 0x110000)"

abbreviation str_ok :: "ustr \<Rightarrow> bool" where
  "str_ok s \<equiv> list_all uchar_ok s"

definition len_utf8 :: "uchar \<Rightarrow> nat" where
  "len_utf8 c = (if c < 0x80 then 1 else if c < 0x800 then 2 else if c < 0x10000 then 3 else 4)"

definition encode_utf8 :: "uchar \<Rightarrow> u8 list" where
  "encode_utf8 c =
     (if c < 0x80 then [ucast c]
      else if c < 0x800 then
        [ucast (drop_bit 6 c AND 0x1F) OR 0xC0, ucast (c AND 0x3F) OR 0x80]
      else if c < 0x10000 then
        [ucast (drop_bit 12 c AND 0x0F) OR 0xE0, ucast (drop_bit 6 c AND 0x3F) OR 0x80,
         ucast (c AND 0x3F) OR 0x80]
      else
        [ucast (drop_bit 18 c AND 0x07) OR 0xF0, ucast (drop_bit 12 c AND 0x3F) OR 0x80,
         ucast (drop_bit 6 c AND 0x3F) OR 0x80, ucast (c AND 0x3F) OR 0x80])"

definition utf8 :: "ustr \<Rightarrow> u8 list" where
  "utf8 s = concat (map encode_utf8 s)"

abbreviation blen :: "ustr \<Rightarrow> nat" where
  "blen s \<equiv> length (utf8 s)"

text \<open>Character and string literals.\<close>

definition uc :: "char \<Rightarrow> uchar" where
  "uc c = of_nat (of_char c)"

definition lit :: "string \<Rightarrow> ustr" where
  "lit s = map (\<lambda>c. of_nat (of_char c)) s"

subsection \<open>The decoders of the gap buffer\<close>

definition utf8_first_byte :: "u8 \<Rightarrow> nat \<Rightarrow> u32" where
  "utf8_first_byte byte width = ucast (byte AND drop_bit width 0x7F)"

definition utf8_acc_cont_byte :: "u32 \<Rightarrow> u8 \<Rightarrow> u32" where
  "utf8_acc_cont_byte ch byte = push_bit 6 ch OR ucast (byte AND 0x3F)"

definition utf8_is_cont_byte :: "u8 \<Rightarrow> bool" where
  "utf8_is_cont_byte byte \<longleftrightarrow> sint byte < -64"

definition decode_char_at :: "nat \<Rightarrow> u8 list \<Rightarrow> uchar option" where
  "decode_char_at start bytes = do {
     x \<leftarrow> nth_opt bytes start;
     if x < 128 then Some (ucast x)
     else do {
       let init = utf8_first_byte x 2;
       y \<leftarrow> nth_opt bytes (start + 1);
       let ch = utf8_acc_cont_byte init y;
       if 0xE0 \<le> x then do {
         z \<leftarrow> nth_opt bytes (start + 2);
         let y_z = utf8_acc_cont_byte (ucast (y AND 0x3F)) z;
         if 0xF0 \<le> x then do {
           w \<leftarrow> nth_opt bytes (start + 3);
           Some (push_bit 18 (init AND 7) OR utf8_acc_cont_byte y_z w)
         } else Some (push_bit 12 init OR y_z)
       } else Some ch
     }
   }"

definition decode_char_ending_at :: "nat \<Rightarrow> u8 list \<Rightarrow> uchar option" where
  "decode_char_ending_at fin bytes = do {
     w \<leftarrow> nth_opt bytes fin;
     if w < 128 then Some (ucast w)
     else do {
       i1 \<leftarrow> usub fin 1;
       z \<leftarrow> nth_opt bytes i1;
       if utf8_is_cont_byte z then do {
         i2 \<leftarrow> usub fin 2;
         y \<leftarrow> nth_opt bytes i2;
         if utf8_is_cont_byte y then do {
           i3 \<leftarrow> usub fin 3;
           x \<leftarrow> nth_opt bytes i3;
           let ch = utf8_acc_cont_byte (utf8_first_byte x 4) y;
           Some (utf8_acc_cont_byte (utf8_acc_cont_byte ch z) w)
         } else Some (utf8_acc_cont_byte (utf8_acc_cont_byte (utf8_first_byte y 3) z) w)
       } else Some (utf8_acc_cont_byte (utf8_first_byte z 2) w)
     }
   }"

subsection \<open>Bits of small words\<close>

lemma all_below_32:
  "(\<forall>n<32. P n) \<longleftrightarrow>
     P 0 \<and> P 1 \<and> P 2 \<and> P 3 \<and> P 4 \<and> P 5 \<and> P 6 \<and> P 7 \<and> P 8 \<and> P 9 \<and> P 10 \<and>
     P 11 \<and> P 12 \<and> P 13 \<and> P 14 \<and> P 15 \<and> P 16 \<and> P 17 \<and> P 18 \<and> P 19 \<and> P 20 \<and>
     P 21 \<and> P 22 \<and> P 23 \<and> P 24 \<and> P 25 \<and> P 26 \<and> P 27 \<and> P 28 \<and> P 29 \<and> P 30 \<and> P (31::nat)"
  by (simp add: numeral_eq_Suc All_less_Suc conj_ac)

lemma u32_eqI: "\<forall>n<32. bit a n = bit b n \<Longrightarrow> a = (b :: u32)"
  by (rule bit_word_eqI) simp

lemma bit_iff_unat: "bit (c :: 'a::len word) n \<longleftrightarrow> odd (unat c div 2 ^ n)"
proof -
  have "bit c n \<longleftrightarrow> bit (unat c) n"
    by (simp add: bit_unsigned_iff)
  then show ?thesis by (simp add: bit_iff_odd)
qed

lemma bit_beyond: "unat c < 2 ^ k \<Longrightarrow> k \<le> n \<Longrightarrow> \<not> bit (c :: 'a::len word) n"
proof -
  assume "unat c < 2 ^ k" "k \<le> n"
  then have "unat c < 2 ^ n" by (meson less_le_trans one_le_numeral power_increasing)
  then show ?thesis by (simp add: bit_iff_unat)
qed

lemma unat_u8_less: "unat (x :: u8) < 256"
  using unsigned_less[of x, where ?'a = nat] by simp

lemma u8_less_128: "x < 128 \<longleftrightarrow> \<not> bit (x :: u8) 7"
proof -
  define q where "q = unat x div 128"
  have "q < 2" using unat_u8_less[of x] by (simp add: q_def)
  then have "q = 0 \<or> q = 1" by arith
  moreover have "x < 128 \<longleftrightarrow> q = 0" by (simp add: q_def word_less_nat_alt div_eq_0_iff)
  moreover have "bit x 7 = odd q" by (simp add: bit_iff_unat q_def)
  ultimately show ?thesis by auto
qed

lemma u8_ge_top_bits:
  "0xE0 \<le> x \<longleftrightarrow> bit (x :: u8) 7 \<and> bit x 6 \<and> bit x 5"
  "0xF0 \<le> x \<longleftrightarrow> bit (x :: u8) 7 \<and> bit x 6 \<and> bit x 5 \<and> bit x 4"
proof -
  define q where "q = unat x div 16"
  have "q < 16" using unat_u8_less[of x] by (simp add: q_def)
  then have q: "q \<in> {0,1,2,3,4,5,6,7,8,9,10,11,12,13,14,15}" by simp arith
  have b: "bit x 7 = odd (q div 8)" "bit x 6 = odd (q div 4)" "bit x 5 = odd (q div 2)"
    "bit x 4 = odd q"
    by (simp_all add: bit_iff_unat q_def flip: div_mult2_eq)
  have "0xE0 \<le> x \<longleftrightarrow> 14 \<le> q" "0xF0 \<le> x \<longleftrightarrow> 15 \<le> q"
    unfolding q_def word_le_nat_alt by (simp_all add: less_eq_div_iff_mult_less_eq)
  then show "0xE0 \<le> x \<longleftrightarrow> bit (x :: u8) 7 \<and> bit x 6 \<and> bit x 5"
    "0xF0 \<le> x \<longleftrightarrow> bit (x :: u8) 7 \<and> bit x 6 \<and> bit x 5 \<and> bit x 4"
    unfolding b using q by auto
qed

lemma sint_u8: "sint (b :: u8) = (if bit b 7 then uint b - 256 else uint b)"
proof -
  have "uint b < 256" using unsigned_less[of b, where ?'a = int] by simp
  then have "take_bit 8 (uint b) = uint b" by (simp add: take_bit_int_eq_self)
  then show ?thesis
    by (simp add: sint_uint signed_take_bit_eq_take_bit_minus bit_unsigned_iff)
qed

lemma is_cont_byte_bits: "utf8_is_cont_byte b \<longleftrightarrow> bit b 7 \<and> \<not> bit b 6"
proof -
  define n where "n = unat b"
  have u: "n < 256" and b: "uint b = int n" by (simp_all add: n_def unat_u8_less)
  define q where "q = n div 64"
  have "q < 4" using u by (simp add: q_def)
  then have q: "q \<in> {0,1,2,3}" by simp arith
  have bs: "bit b 7 = odd (q div 2)" "bit b 6 = odd q"
    by (simp_all add: bit_iff_unat q_def n_def flip: div_mult2_eq)
  have "n < 192 \<longleftrightarrow> q < 3" by (simp add: q_def div_less_iff_less_mult)
  then show ?thesis using u q unfolding utf8_is_cont_byte_def sint_u8 bs b by auto
qed
subsection \<open>Decoding what was encoded\<close>

lemma uchar_bounds:
  "c < 0x80 \<Longrightarrow> unat c < 2 ^ 7" "c < 0x800 \<Longrightarrow> unat c < 2 ^ 11"
  "c < 0x10000 \<Longrightarrow> unat c < 2 ^ 16" "uchar_ok c \<Longrightarrow> unat c < 2 ^ 21"
  by (auto simp: word_less_nat_alt word_le_nat_alt uchar_ok_def)

lemma length_encode_utf8 [simp]: "length (encode_utf8 c) = len_utf8 c"
  by (simp add: encode_utf8_def len_utf8_def)

lemma len_utf8_bounds: "1 \<le> len_utf8 c" "len_utf8 c \<le> 4" "0 < len_utf8 c"
  by (simp_all add: len_utf8_def)

lemmas utf8_guard_simps =
  decode_char_at_def decode_char_ending_at_def encode_utf8_def len_utf8_def nth_opt_def usub_def
  Let_def u8_less_128 u8_ge_top_bits is_cont_byte_bits bit_simps

lemmas utf8_bits_simps =
  utf8_acc_cont_byte_def utf8_first_byte_def all_below_32 bit_simps

lemma decode_char_at_encode_hd:
  assumes "uchar_ok c"
  shows "decode_char_at 0 (encode_utf8 c @ rest) = Some c"
proof -
  consider "c < 0x80" | "\<not> c < 0x80" "c < 0x800" | "\<not> c < 0x80" "\<not> c < 0x800" "c < 0x10000"
    | "\<not> c < 0x80" "\<not> c < 0x800" "\<not> c < 0x10000" by blast
  then show ?thesis
  proof cases
    case 1
    note hi = bit_beyond[OF uchar_bounds(1)[OF 1]]
    have "ucast (ucast c :: u8) = c"
      using hi by (intro u32_eqI) (simp add: all_below_32 bit_simps)
    then show ?thesis using 1 hi
      by (simp add: decode_char_at_def nth_opt_def encode_utf8_def u8_less_128 bit_simps)
  next
    case 2
    note hi = bit_beyond[OF uchar_bounds(2)[OF 2(2)]]
    show ?thesis using 2
      by (simp add: utf8_guard_simps, intro u32_eqI) (simp add: utf8_bits_simps hi)
  next
    case 3
    note hi = bit_beyond[OF uchar_bounds(3)[OF 3(3)]]
    show ?thesis using 3
      by (simp add: utf8_guard_simps, intro u32_eqI) (simp add: utf8_bits_simps hi)
  next
    case 4
    note hi = bit_beyond[OF uchar_bounds(4)[OF assms]]
    show ?thesis using 4
      by (simp add: utf8_guard_simps, intro u32_eqI) (simp add: utf8_bits_simps hi)
  qed
qed

lemma decode_char_at_shift [simp]:
  "decode_char_at (length pre + i) (pre @ bytes) = decode_char_at i bytes"
  by (simp add: decode_char_at_def nth_opt_append Let_def cong: if_cong)

lemma decode_char_at_encode:
  "uchar_ok c \<Longrightarrow> decode_char_at (length pre) (pre @ encode_utf8 c @ post) = Some c"
  using decode_char_at_shift[of pre 0] by (simp add: decode_char_at_encode_hd)

lemma nth_opt_embed: "nth_opt mid j = Some x \<Longrightarrow> nth_opt (pre @ mid @ post) (length pre + j) = Some x"
  by (auto simp: nth_opt_def nth_append split: if_splits)

lemma usub_embed: "usub i k = Some j \<Longrightarrow> usub (n + i) k = Some (n + j)"
  by (auto simp: usub_def split: if_splits)

lemma decode_char_ending_at_shift:
  assumes "decode_char_ending_at i mid = Some c"
  shows "decode_char_ending_at (length pre + i) (pre @ mid @ post) = Some c"
  using assms unfolding decode_char_ending_at_def Let_def
  by (elim bind_eq_Some_conv[THEN iffD1, elim_format] exE conjE,
      simp add: nth_opt_embed usub_embed split: if_split_asm,
      (elim bind_eq_Some_conv[THEN iffD1, elim_format] exE conjE,
        simp add: nth_opt_embed usub_embed split: if_split_asm)+)

lemma decode_char_ending_at_encode_1:
  assumes "c < 0x80"
  shows "decode_char_ending_at (len_utf8 c - 1) (encode_utf8 c) = Some c"
proof -
  note hi = bit_beyond[OF uchar_bounds(1)[OF assms]]
  have "ucast (ucast c :: u8) = c"
    using hi by (intro u32_eqI) (simp add: all_below_32 bit_simps)
  then show ?thesis using assms hi
    by (simp add: decode_char_ending_at_def nth_opt_def encode_utf8_def u8_less_128 bit_simps
        len_utf8_def)
qed

lemma decode_char_ending_at_encode_2:
  assumes "\<not> c < 0x80" "c < 0x800"
  shows "decode_char_ending_at (len_utf8 c - 1) (encode_utf8 c) = Some c"
proof -
  note hi = bit_beyond[OF uchar_bounds(2)[OF assms(2)]]
  show ?thesis using assms
    by (simp add: utf8_guard_simps, intro u32_eqI) (simp add: utf8_bits_simps hi)
qed

lemma decode_char_ending_at_encode_3:
  assumes "\<not> c < 0x80" "\<not> c < 0x800" "c < 0x10000"
  shows "decode_char_ending_at (len_utf8 c - 1) (encode_utf8 c) = Some c"
proof -
  note hi = bit_beyond[OF uchar_bounds(3)[OF assms(3)]]
  show ?thesis using assms
    by (simp add: utf8_guard_simps, intro u32_eqI) (simp add: utf8_bits_simps hi)
qed

lemma decode_char_ending_at_encode_4:
  assumes "uchar_ok c" "\<not> c < 0x80" "\<not> c < 0x800" "\<not> c < 0x10000"
  shows "decode_char_ending_at (len_utf8 c - 1) (encode_utf8 c) = Some c"
proof -
  note hi = bit_beyond[OF uchar_bounds(4)[OF assms(1)]]
  show ?thesis using assms(2-)
    by (simp add: utf8_guard_simps, intro u32_eqI) (simp add: utf8_bits_simps hi)
qed

lemma decode_char_ending_at_encode_hd:
  "uchar_ok c \<Longrightarrow> decode_char_ending_at (len_utf8 c - 1) (encode_utf8 c) = Some c"
  using decode_char_ending_at_encode_1 decode_char_ending_at_encode_2
    decode_char_ending_at_encode_3 decode_char_ending_at_encode_4 by blast

lemma decode_char_ending_at_encode:
  "uchar_ok c \<Longrightarrow>
   decode_char_ending_at (length pre + len_utf8 c - 1) (pre @ encode_utf8 c @ post) = Some c"
  using decode_char_ending_at_shift[of "len_utf8 c - 1" "encode_utf8 c" c pre post]
    decode_char_ending_at_encode_hd[of c] len_utf8_bounds[of c] by simp

subsection \<open>Strings\<close>

lemma utf8_simps [simp]:
  "utf8 [] = []" "utf8 (c # s) = encode_utf8 c @ utf8 s" "utf8 (s @ t) = utf8 s @ utf8 t"
  by (simp_all add: utf8_def)

lemma blen_Nil_iff [simp]: "utf8 s = [] \<longleftrightarrow> s = []"
  by (cases s) (auto simp: encode_utf8_def)

lemma length_le_blen: "length s \<le> blen s"
proof (induction s)
  case (Cons c s)
  then show ?case using len_utf8_bounds(1)[of c] by simp
qed simp

lemma encode_utf8_prefix:
  assumes "encode_utf8 c @ xs = encode_utf8 d @ ys" "uchar_ok c" "uchar_ok d"
  shows "c = d \<and> xs = ys"
proof -
  have "decode_char_at 0 (encode_utf8 c @ xs) = Some c"
    "decode_char_at 0 (encode_utf8 d @ ys) = Some d"
    using assms(2,3) by (auto intro: decode_char_at_encode_hd)
  then have "c = d" using assms(1) by simp
  then show ?thesis using assms(1) by simp
qed

lemma utf8_inj: "utf8 s = utf8 t \<Longrightarrow> str_ok s \<Longrightarrow> str_ok t \<Longrightarrow> s = t"
proof (induction s arbitrary: t)
  case (Cons c s)
  then obtain d t' where t: "t = d # t'" by (cases t) (auto simp: encode_utf8_def split: if_splits)
  with Cons.prems have "encode_utf8 c @ utf8 s = encode_utf8 d @ utf8 t'" by simp
  then have "c = d \<and> utf8 s = utf8 t'" using Cons.prems t by (intro encode_utf8_prefix) auto
  then show ?case using Cons t by auto
qed (metis utf8_simps(1) blen_Nil_iff)

text \<open>
  \<open>String::from_utf8\<close>: the bytes are accepted exactly when they are the encoding of a
  sequence of scalar values, which is then the string.
\<close>

function from_utf8 :: "u8 list \<Rightarrow> ustr option" where
  "from_utf8 bytes =
     (if bytes = [] then Some []
      else case decode_char_at 0 bytes of
        None \<Rightarrow> None
      | Some c \<Rightarrow>
          if uchar_ok c \<and> take (len_utf8 c) bytes = encode_utf8 c
          then map_option ((#) c) (from_utf8 (drop (len_utf8 c) bytes))
          else None)"
  by pat_completeness auto
termination
  by (relation "measure length") (auto simp: len_utf8_def)

declare from_utf8.simps [simp del]

lemma from_utf8_utf8 [simp]: "str_ok s \<Longrightarrow> from_utf8 (utf8 s) = Some s"
proof (induction s)
  case Nil
  show ?case by (simp add: from_utf8.simps[of "[]"])
next
  case (Cons c s)
  have "encode_utf8 c \<noteq> []" by (simp add: encode_utf8_def)
  then show ?case using Cons
    by (subst from_utf8.simps) (simp add: decode_char_at_encode_hd)
qed

lemma from_utf8_Some: "from_utf8 bytes = Some s \<Longrightarrow> utf8 s = bytes \<and> str_ok s"
proof (induction bytes arbitrary: s rule: from_utf8.induct)
  case (1 bytes)
  show ?case
  proof (cases "bytes = []")
    case True
    then show ?thesis using "1.prems" by (simp add: from_utf8.simps[of "[]"])
  next
    case False
    then obtain c s' where c: "decode_char_at 0 bytes = Some c" "uchar_ok c"
      "take (len_utf8 c) bytes = encode_utf8 c"
      "from_utf8 (drop (len_utf8 c) bytes) = Some s'" "s = c # s'"
      using "1.prems" by (subst (asm) from_utf8.simps) (auto split: option.splits if_splits)
    from "1.IH"[OF False c(1) _ c(4)] c(2,3)
    have "utf8 s' = drop (len_utf8 c) bytes" "str_ok s'" by auto
    then show ?thesis using c by (simp flip: c(3))
  qed
qed

text \<open>\<open>count_chars\<close>: the loop over the bytes of a valid region.\<close>

function count_chars_from :: "u8 list \<Rightarrow> nat \<Rightarrow> nat \<Rightarrow> nat option" where
  "count_chars_from bytes cur n_chars =
     (if cur < length bytes then
        (case decode_char_at cur bytes of
           None \<Rightarrow> None
         | Some ch \<Rightarrow> count_chars_from bytes (cur + len_utf8 ch) (n_chars + 1))
      else Some n_chars)"
  by pat_completeness auto
termination
  by (relation "measure (\<lambda>(bytes, cur, n). length bytes - cur)")
     (auto simp: len_utf8_def)

declare count_chars_from.simps [simp del]

definition count_chars :: "u8 list \<Rightarrow> nat option" where
  "count_chars bytes = (if bytes = [] then Some 0 else count_chars_from bytes 0 0)"

lemma count_chars_from_utf8:
  "str_ok s \<Longrightarrow> count_chars_from (pre @ utf8 s) (length pre) n = Some (n + length s)"
proof (induction s arbitrary: pre n)
  case Nil
  show ?case by (simp add: count_chars_from.simps[of _ "length pre"])
next
  case (Cons c s)
  have ne: "0 < len_utf8 c" by (rule len_utf8_bounds)
  have "decode_char_at (length pre) (pre @ encode_utf8 c @ utf8 s) = Some c"
    using Cons.prems by (intro decode_char_at_encode) simp
  then have "count_chars_from (pre @ utf8 (c # s)) (length pre) n =
      count_chars_from ((pre @ encode_utf8 c) @ utf8 s) (length (pre @ encode_utf8 c)) (n + 1)"
    using ne by (subst count_chars_from.simps) simp
  also have "\<dots> = Some (n + 1 + length s)" using Cons.prems by (intro Cons.IH) simp
  finally show ?case by simp
qed

lemma count_chars_utf8 [simp]: "str_ok s \<Longrightarrow> count_chars (utf8 s) = Some (length s)"
  using count_chars_from_utf8[of s "[]" 0] by (simp add: count_chars_def)

end
