(* ===== verification/GapBuffer.thy ===== *)
theory GapBuffer
  imports Utf8
begin

text \<open>
  The gap buffer of src/buffer/internal.rs: the representation, the slices and character
  iterators over it, the character/byte/line index conversions, and the operations that
  edit it. Bytes, offsets and line endings are the code's own; a panic is \<^const>\<open>None\<close>.

  The conversion from a character index to a raw byte offset writes a cache behind a
  shared reference, so every function that calls it returns the buffer with its new
  cache. \<open>usize::MAX\<close>, which the code uses for "no bound", is the bound \<^const>\<open>None\<close>.
\<close>

abbreviation (input) MIN_GAP :: nat where "MIN_GAP \<equiv> 32"
abbreviation (input) MIN_GAP_GROW :: nat where "MIN_GAP_GROW \<equiv> 64"
abbreviation (input) MAX_GAP_GROW :: nat where "MAX_GAP_GROW \<equiv> 1024 * 8"

abbreviation (input) newline :: uchar where "newline \<equiv> 10"

definition clamp_gap_size :: "nat \<Rightarrow> nat \<Rightarrow> nat" where
  "clamp_gap_size len min_gap = min (max (len div 20) min_gap) MAX_GAP_GROW"

record gap_buffer =
  gb_data :: "u8 list"
  gb_cap :: nat
  gb_gap_start :: nat
  gb_gap_end :: nat
  gb_next_gap :: nat
  gb_n_chars :: nat
  gb_line_endings :: "(nat \<times> nat) list"
  gb_cache :: "nat \<rightharpoonup> nat"

subsection \<open>The cache\<close>

definition cache_clear :: "gap_buffer \<Rightarrow> gap_buffer" where
  "cache_clear gb = gb\<lparr>gb_cache := Map.empty\<rparr>"

definition cache_get :: "gap_buffer \<Rightarrow> nat \<Rightarrow> nat option" where
  "cache_get gb char_idx = gb_cache gb char_idx"

definition cache_insert :: "gap_buffer \<Rightarrow> nat \<Rightarrow> nat \<Rightarrow> gap_buffer" where
  "cache_insert gb char_idx byte_idx = gb\<lparr>gb_cache := (gb_cache gb)(char_idx \<mapsto> byte_idx)\<rparr>"

subsection \<open>Sizes and offsets\<close>

definition gb_gap :: "gap_buffer \<Rightarrow> nat" where
  "gb_gap gb = gb_gap_end gb - gb_gap_start gb"

definition gb_len :: "gap_buffer \<Rightarrow> nat" where
  "gb_len gb = gb_cap gb - gb_gap gb"

definition gb_is_empty :: "gap_buffer \<Rightarrow> bool" where
  "gb_is_empty gb \<longleftrightarrow> gb_cap gb = gb_gap gb"

definition is_contiguous :: "gap_buffer \<Rightarrow> bool" where
  "is_contiguous gb \<longleftrightarrow> gb_gap_start gb = 0 \<or> gb_gap_end gb = gb_cap gb"

definition len_chars :: "gap_buffer \<Rightarrow> nat" where
  "len_chars gb = gb_n_chars gb"

definition raw_byte_to_byte :: "gap_buffer \<Rightarrow> nat \<Rightarrow> nat option" where
  "raw_byte_to_byte gb raw =
     (if gb_gap_start gb < raw then usub raw (gb_gap gb) else Some raw)"

definition byte_to_raw_byte :: "gap_buffer \<Rightarrow> nat \<Rightarrow> nat" where
  "byte_to_raw_byte gb byte = (if gb_gap_start gb < byte then byte + gb_gap gb else byte)"

definition as_byte_slices :: "gap_buffer \<Rightarrow> (u8 list \<times> u8 list) option" where
  "as_byte_slices gb = do {
     l \<leftarrow> subslice (gb_data gb) 0 (gb_gap_start gb);
     r \<leftarrow> subslice (gb_data gb) (gb_gap_end gb) (length (gb_data gb));
     Some (l, r)
   }"

definition as_strs :: "gap_buffer \<Rightarrow> (ustr \<times> ustr) option" where
  "as_strs gb = do {
     (left, right) \<leftarrow> as_byte_slices gb;
     l \<leftarrow> from_utf8 left;
     r \<leftarrow> from_utf8 right;
     Some (l, r)
   }"

definition gb_to_string :: "gap_buffer \<Rightarrow> ustr option" where
  "gb_to_string gb = do { (s1, s2) \<leftarrow> as_strs gb; Some (s1 @ s2) }"

definition ends_with_newline :: "u8 list \<Rightarrow> bool" where
  "ends_with_newline bs \<longleftrightarrow> bs \<noteq> [] \<and> last bs = 10"

definition has_trailing_newline :: "gap_buffer \<Rightarrow> bool option" where
  "has_trailing_newline gb = do {
     (l, r) \<leftarrow> as_byte_slices gb;
     Some (if r = [] then ends_with_newline l else ends_with_newline r)
   }"

definition gb_eq_str :: "gap_buffer \<Rightarrow> ustr \<Rightarrow> bool option" where
  "gb_eq_str gb other = (let b = utf8 other in
     if length b \<noteq> gb_len gb then Some False
     else do {
       b1 \<leftarrow> subslice b 0 (gb_gap_start gb);
       d1 \<leftarrow> subslice (gb_data gb) 0 (gb_gap_start gb);
       b2 \<leftarrow> subslice b (gb_gap_start gb) (length b);
       d2 \<leftarrow> subslice (gb_data gb) (gb_gap_end gb) (length (gb_data gb));
       Some (b1 = d1 \<and> b2 = d2)
     })"

subsection \<open>Slices and their iterators\<close>

record gb_slice =
  sl_from :: nat
  sl_left :: "u8 list"
  sl_right :: "u8 list"

definition slice_NULL :: gb_slice where
  "slice_NULL = \<lparr>sl_from = 0, sl_left = [], sl_right = []\<rparr>"

definition sl_len :: "gb_slice \<Rightarrow> nat" where
  "sl_len s = length (sl_left s) + length (sl_right s)"

definition sl_is_empty :: "gb_slice \<Rightarrow> bool" where
  "sl_is_empty s \<longleftrightarrow> sl_len s = 0"

definition sl_is_contiguous :: "gb_slice \<Rightarrow> bool" where
  "sl_is_contiguous s \<longleftrightarrow> sl_left s = [] \<or> sl_right s = []"

definition slice_from_raw_offsets :: "nat \<Rightarrow> nat \<Rightarrow> gap_buffer \<Rightarrow> gb_slice option" where
  "slice_from_raw_offsets from to gb = do {
     let to = min to (length (gb_data gb));
     logical_from \<leftarrow> raw_byte_to_byte gb from;
     if to \<le> gb_gap_start gb \<or> gb_gap_end gb \<le> from then do {
       l \<leftarrow> subslice (gb_data gb) from to;
       Some \<lparr>sl_from = logical_from, sl_left = l, sl_right = []\<rparr>
     } else do {
       l \<leftarrow> subslice (gb_data gb) from (gb_gap_start gb);
       r \<leftarrow> subslice (gb_data gb) (gb_gap_end gb) to;
       Some \<lparr>sl_from = logical_from, sl_left = l, sl_right = r\<rparr>
     }
   }"

definition subslice_from_byte_offsets :: "gb_slice \<Rightarrow> nat \<Rightarrow> nat \<Rightarrow> gb_slice option" where
  "subslice_from_byte_offsets s from to =
     (if from = to then Some slice_NULL
      else let to = min to (sl_len s); logical_from = sl_from s + from in
        if to \<le> length (sl_left s) then do {
          l \<leftarrow> subslice (sl_left s) from to;
          Some \<lparr>sl_from = logical_from, sl_left = l, sl_right = []\<rparr>
        } else if length (sl_left s) \<le> from then do {
          r \<leftarrow> subslice (sl_right s) from to;
          Some \<lparr>sl_from = logical_from, sl_left = [], sl_right = r\<rparr>
        } else do {
          l \<leftarrow> subslice (sl_left s) from (length (sl_left s));
          r \<leftarrow> subslice (sl_right s) 0 to;
          Some \<lparr>sl_from = logical_from, sl_left = l, sl_right = r\<rparr>
        })"

definition cur_and_data :: "gb_slice \<Rightarrow> nat \<Rightarrow> nat \<times> u8 list" where
  "cur_and_data s cur =
     (if cur < length (sl_left s) then (cur, sl_left s)
      else (cur - length (sl_left s), sl_right s))"

record chars =
  chars_s :: gb_slice
  chars_cur :: nat

definition slice_chars :: "gb_slice \<Rightarrow> chars" where
  "slice_chars s = \<lparr>chars_s = s, chars_cur = 0\<rparr>"

definition slice_rev_chars :: "gb_slice \<Rightarrow> chars" where
  "slice_rev_chars s = \<lparr>chars_s = s, chars_cur = sl_len s\<rparr>"

definition chars_next :: "chars \<Rightarrow> (uchar option \<times> chars) option" where
  "chars_next it =
     (if sl_len (chars_s it) \<le> chars_cur it then Some (None, it)
      else let (cur, data) = cur_and_data (chars_s it) (chars_cur it) in do {
        ch \<leftarrow> decode_char_at cur data;
        Some (Some ch, it\<lparr>chars_cur := chars_cur it + len_utf8 ch\<rparr>)
      })"

definition rev_chars_next :: "chars \<Rightarrow> (uchar option \<times> chars) option" where
  "rev_chars_next it =
     (if chars_cur it = 0 then Some (None, it)
      else let (cur, data) = cur_and_data (chars_s it) (chars_cur it - 1) in do {
        ch \<leftarrow> decode_char_ending_at cur data;
        cur' \<leftarrow> usub (chars_cur it) (len_utf8 ch);
        Some (Some ch, it\<lparr>chars_cur := cur'\<rparr>)
      })"

record idx_chars = chars +
  idx_idx :: nat
  idx_rev :: bool

definition indexed_chars :: "gb_slice \<Rightarrow> nat \<Rightarrow> bool \<Rightarrow> idx_chars option" where
  "indexed_chars s from backwards =
     (if backwards then do {
        l \<leftarrow> count_chars (sl_left s);
        r \<leftarrow> count_chars (sl_right s);
        Some \<lparr>chars_s = s, chars_cur = sl_len s, idx_idx = from + l + r, idx_rev = backwards\<rparr>
      } else Some \<lparr>chars_s = s, chars_cur = 0, idx_idx = from, idx_rev = backwards\<rparr>)"

definition idx_chars_next :: "idx_chars \<Rightarrow> ((nat \<times> uchar) option \<times> idx_chars) option" where
  "idx_chars_next it =
     (if (\<not> idx_rev it \<and> sl_len (chars_s it) \<le> chars_cur it) \<or> (idx_rev it \<and> chars_cur it = 0)
      then Some (None, it)
      else if idx_rev it then
        let (cur, data) = cur_and_data (chars_s it) (chars_cur it - 1) in do {
          ch \<leftarrow> decode_char_ending_at cur data;
          idx \<leftarrow> usub (idx_idx it) 1;
          cur' \<leftarrow> usub (chars_cur it) (len_utf8 ch);
          Some (Some (idx, ch), it\<lparr>chars_cur := cur', idx_idx := idx\<rparr>)
        }
      else
        let (cur, data) = cur_and_data (chars_s it) (chars_cur it) in do {
          ch \<leftarrow> decode_char_at cur data;
          Some (Some (idx_idx it, ch),
            it\<lparr>chars_cur := chars_cur it + len_utf8 ch, idx_idx := idx_idx it + 1\<rparr>)
        })"

text \<open>\<open>for _ in 0..n { chars.next(); }\<close>\<close>

primrec chars_advance :: "nat \<Rightarrow> chars \<Rightarrow> chars option" where
  "chars_advance 0 it = Some it"
| "chars_advance (Suc n) it = do { (_, it') \<leftarrow> chars_next it; chars_advance n it' }"

subsection \<open>From a character index to a raw byte offset\<close>

text \<open>\<open>slice::binary_search_by_key\<close> on the (strictly increasing) character offsets.\<close>

definition binary_search_by_char :: "nat \<Rightarrow> (nat \<times> nat) list \<Rightarrow> nat + nat" where
  "binary_search_by_char k les =
     (let i = partition_point (\<lambda>(_, c). c < k) les in
      if i < length les \<and> snd (les ! i) = k then Inl i else Inr i)"

definition last_char_to_raw_byte :: "gap_buffer \<Rightarrow> nat option" where
  "last_char_to_raw_byte gb =
     (if gb_gap_end gb = gb_cap gb \<and> 0 < gb_gap_start gb then do {
        ch \<leftarrow> decode_char_ending_at (gb_gap_start gb - 1) (gb_data gb);
        Some (gb_gap_start gb - len_utf8 ch)
      } else do {
        ch_end \<leftarrow> usub (gb_cap gb) 1;
        ch \<leftarrow> decode_char_ending_at ch_end (gb_data gb);
        Some (gb_cap gb - len_utf8 ch)
      })"

text \<open>The scan of the line that holds the character, from a known offset in front of it.\<close>

definition scan_to_raw_byte :: "gap_buffer \<Rightarrow> nat \<Rightarrow> nat \<Rightarrow> nat \<Rightarrow> nat option \<Rightarrow> nat option" where
  "scan_to_raw_byte gb char_idx byte_offset char_offset to = do {
     slice \<leftarrow> slice_from_raw_offsets byte_offset
               (case to of None \<Rightarrow> length (gb_data gb) | Some t \<Rightarrow> t) gb;
     n \<leftarrow> usub char_idx char_offset;
     it \<leftarrow> chars_advance n (slice_chars slice);
     let cur = chars_cur it + byte_offset;
     let slice_enclosed_gap = (byte_offset \<le> gb_gap_start gb \<and>
           (case to of None \<Rightarrow> True | Some t \<Rightarrow> gb_gap_end gb \<le> t));
     Some (if gb_gap_start gb \<le> cur \<and> (cur < gb_gap_end gb \<or> slice_enclosed_gap)
           then cur + gb_gap gb else cur)
   }"

definition offset_char_to_raw_byte ::
  "gap_buffer \<Rightarrow> nat \<Rightarrow> nat \<Rightarrow> nat \<Rightarrow> (nat \<times> gap_buffer) option" where
  "offset_char_to_raw_byte gb char_idx byte_offset char_offset =
     (case cache_get gb char_idx of
        Some i \<Rightarrow> Some (i, gb)
      | None \<Rightarrow>
        if gb_n_chars gb = 0 then do {
          rust_assert (char_idx = 0 \<or> char_idx = 1);
          Some (gb_gap_start gb, gb)
        } else if gb_line_endings gb = [] \<and> char_idx = len_chars gb - 1 then do {
          i \<leftarrow> last_char_to_raw_byte gb;
          Some (i, cache_insert gb char_idx i)
        } else
          let line_from = partition_point (\<lambda>(b, _). b < byte_offset) (gb_line_endings gb);
              les = drop line_from (gb_line_endings gb)
          in case binary_search_by_char char_idx les of
               Inl i \<Rightarrow> let b = fst (les ! i) in Some (b, cache_insert gb char_idx b)
             | Inr i \<Rightarrow> do {
                 let (byte_offset, char_offset) =
                   (if 0 < i then les ! (i - 1) else (byte_offset, char_offset));
                 let to = (if i < length les then Some (fst (les ! i)) else None);
                 cur \<leftarrow> scan_to_raw_byte gb char_idx byte_offset char_offset to;
                 Some (cur, cache_insert gb char_idx cur)
               })"

definition char_to_raw_byte :: "gap_buffer \<Rightarrow> nat \<Rightarrow> (nat \<times> gap_buffer) option" where
  "char_to_raw_byte gb char_idx = offset_char_to_raw_byte gb char_idx 0 0"

definition offset_char_to_byte ::
  "gap_buffer \<Rightarrow> nat \<Rightarrow> nat \<Rightarrow> nat \<Rightarrow> (nat \<times> gap_buffer) option" where
  "offset_char_to_byte gb char_idx byte_offset char_offset = do {
     (raw, gb) \<leftarrow> offset_char_to_raw_byte gb char_idx byte_offset char_offset;
     byte \<leftarrow> raw_byte_to_byte gb raw;
     Some (byte, gb)
   }"

definition char_to_byte :: "gap_buffer \<Rightarrow> nat \<Rightarrow> (nat \<times> gap_buffer) option" where
  "char_to_byte gb char_idx = offset_char_to_byte gb char_idx 0 0"

definition char_range_to_byte_range ::
  "gap_buffer \<Rightarrow> nat \<Rightarrow> nat \<Rightarrow> ((nat \<times> nat) \<times> gap_buffer) option" where
  "char_range_to_byte_range gb ch_from ch_to = do {
     (raw_byte_from, gb) \<leftarrow> char_to_raw_byte gb ch_from;
     byte_from \<leftarrow> raw_byte_to_byte gb raw_byte_from;
     (byte_to, gb) \<leftarrow> offset_char_to_byte gb ch_to raw_byte_from ch_from;
     Some ((byte_from, byte_to), gb)
   }"

subsection \<open>Moving and growing the gap\<close>

definition move_gap_to :: "gap_buffer \<Rightarrow> nat \<Rightarrow> gap_buffer option" where
  "move_gap_to gb byte_idx = do {
     rust_assert (byte_idx \<le> gb_len gb);
     let gap = gb_gap gb;
     let les = gb_line_endings gb;
     if byte_idx = gb_gap_start gb then Some gb
     else do {
       let (les, src_from, src_to, dest) =
         (if byte_idx < gb_gap_start gb then
            let from = partition_point (\<lambda>(b, _). b < byte_idx) les;
                to = partition_point (\<lambda>(b, _). b \<le> gb_gap_start gb) les
            in (map_range (\<lambda>(b, c). (b + gap, c)) from to les,
                byte_idx, gb_gap_start gb, byte_idx + gap)
          else
            let from = partition_point (\<lambda>(b, _). b < gb_gap_end gb) les;
                to = partition_point (\<lambda>(b, _). b < byte_idx + gap) les
            in (map_range (\<lambda>(b, c). (b - gap, c)) from to les,
                gb_gap_end gb, byte_idx + gap, gb_gap_start gb));
       data \<leftarrow> copy_within (gb_data gb) src_from src_to dest;
       Some (cache_clear (gb\<lparr>gb_data := data, gb_gap_end := byte_idx + gap,
               gb_gap_start := byte_idx, gb_line_endings := les\<rparr>))
     }
   }"

text \<open>\<open>usize::next_power_of_two\<close>: the least power of two that is at least the argument.\<close>

function pow2_from :: "nat \<Rightarrow> nat \<Rightarrow> nat" where
  "pow2_from p n = (if 0 < p \<and> p < n then pow2_from (2 * p) n else p)"
  by pat_completeness auto
termination
  by (relation "measure (\<lambda>(p, n). n - p)") auto

declare pow2_from.simps [simp del]

definition next_power_of_two :: "nat \<Rightarrow> nat" where
  "next_power_of_two n = pow2_from 1 n"

definition grow_gap :: "gap_buffer \<Rightarrow> nat \<Rightarrow> gap_buffer option" where
  "grow_gap gb n = do {
     let next = (if gb_next_gap gb \<le> n
                 then clamp_gap_size (gb_len gb + n) (next_power_of_two n)
                 else gb_next_gap gb);
     let gap_increase = next + n;
     pre \<leftarrow> subslice (gb_data gb) 0 (gb_gap_start gb);
     post \<leftarrow> subslice (gb_data gb) (gb_gap_end gb) (length (gb_data gb));
     let buf = pre @ replicate (next + gb_gap gb + n) 0 @ post;
     let les = gb_line_endings gb;
     let from = partition_point (\<lambda>(b, _). b \<le> gb_gap_start gb) les;
     Some (cache_clear (gb\<lparr>
       gb_line_endings := map_range (\<lambda>(b, c). (b + gap_increase, c)) from (length les) les,
       gb_next_gap := clamp_gap_size (gb_len gb) (next * 2),
       gb_data := buf,
       gb_gap_end := gb_gap_end gb + gap_increase,
       gb_cap := gb_cap gb + next + n\<rparr>))
   }"

subsection \<open>Construction\<close>

text \<open>\<open>str::char_indices\<close>\<close>

fun char_indices_from :: "nat \<Rightarrow> ustr \<Rightarrow> (nat \<times> uchar) list" where
  "char_indices_from off [] = []"
| "char_indices_from off (c # s) = (off, c) # char_indices_from (off + len_utf8 c) s"

definition compute_line_endings :: "ustr \<Rightarrow> nat \<times> (nat \<times> nat) list" where
  "compute_line_endings s =
     (length s,
      [(idx, line_chars). (line_chars, idx, ch) \<leftarrow> enumerate 0 (char_indices_from 0 s),
                          ch = newline])"

definition gb_from_str :: "ustr \<Rightarrow> gap_buffer option" where
  "gb_from_str s =
     (let gap_start = blen s;
          next_gap = clamp_gap_size gap_start MIN_GAP_GROW;
          cap = gap_start + next_gap;
          (n_chars, line_endings) = compute_line_endings s
      in move_gap_to
           \<lparr>gb_data = utf8 s @ replicate next_gap 0, gb_cap = cap, gb_gap_start = gap_start,
            gb_gap_end = cap, gb_next_gap = next_gap, gb_n_chars = n_chars,
            gb_line_endings = line_endings, gb_cache = Map.empty\<rparr> 0)"

definition gb_new :: "gap_buffer option" where
  "gb_new = gb_from_str []"

subsection \<open>Edits\<close>

definition add_line_endings ::
  "gap_buffer \<Rightarrow> nat \<Rightarrow> nat \<Rightarrow> (nat \<times> nat) list \<Rightarrow> gap_buffer" where
  "add_line_endings gb byte_from n_chars new_endings =
     (let les = gb_line_endings gb;
          idx = partition_point (\<lambda>(b, _). b < byte_from) les;
          les = map_range (\<lambda>(b, c). (b, c + n_chars)) idx (length les) les
      in gb\<lparr>gb_line_endings := take idx les @ new_endings @ drop idx les\<rparr>)"

definition remove_line_endings ::
  "gap_buffer \<Rightarrow> nat \<Rightarrow> nat \<Rightarrow> nat \<Rightarrow> gap_buffer option" where
  "remove_line_endings gb byte_from byte_to n_chars = do {
     let les = filter (\<lambda>(b, _). b < gb_gap_start gb \<or> gb_gap_end gb \<le> b) (gb_line_endings gb);
     if les = [] \<or> fst (last les) < byte_from
     then Some (gb\<lparr>gb_line_endings := les\<rparr>)
     else do {
       let line_from = partition_point (\<lambda>(b, _). b < byte_from) les;
       let line_to = partition_point (\<lambda>(b, _). b < byte_to) les;
       les \<leftarrow> (if line_from = line_to then do {
                  (b, _) \<leftarrow> nth_opt les line_from;
                  Some (if byte_from \<le> b \<and> b < byte_to
                        then take line_from les @ drop (line_from + 1) les else les)
                } else do {
                  rust_assert (line_from \<le> line_to);
                  Some (take line_from les @ drop line_to les)
                });
       rust_assert (list_all (\<lambda>(_, c). n_chars \<le> c) (drop line_from les));
       Some (gb\<lparr>gb_line_endings :=
         map_range (\<lambda>(b, c). (b, c - n_chars)) line_from (length les) les\<rparr>)
     }
   }"

definition gb_insert_char :: "gap_buffer \<Rightarrow> nat \<Rightarrow> uchar \<Rightarrow> gap_buffer option" where
  "gb_insert_char gb char_idx ch = do {
     let len = len_utf8 ch;
     gb \<leftarrow> (if gb_gap gb - len < MIN_GAP then grow_gap gb len else Some gb);
     (idx, gb) \<leftarrow> char_to_byte gb char_idx;
     gb \<leftarrow> move_gap_to gb idx;
     data \<leftarrow> copy_from_slice (gb_data gb) (gb_gap_start gb) (encode_utf8 ch);
     let gb = gb\<lparr>gb_data := data, gb_gap_start := gb_gap_start gb + len,
                 gb_n_chars := gb_n_chars gb + 1\<rparr>;
     let endings = (if ch = newline then [(idx, char_idx)] else []);
     Some (cache_clear (add_line_endings gb idx 1 endings))
   }"

definition gb_insert_str :: "gap_buffer \<Rightarrow> nat \<Rightarrow> ustr \<Rightarrow> gap_buffer option" where
  "gb_insert_str gb char_idx s = do {
     let len = blen s;
     let len_chars = length s;
     gb \<leftarrow> (if gb_gap gb - len < MIN_GAP then grow_gap gb len else Some gb);
     (idx, gb) \<leftarrow> char_to_byte gb char_idx;
     gb \<leftarrow> move_gap_to gb idx;
     data \<leftarrow> copy_from_slice (gb_data gb) (gb_gap_start gb) (utf8 s);
     let gb = gb\<lparr>gb_data := data, gb_gap_start := gb_gap_start gb + len,
                 gb_n_chars := gb_n_chars gb + len_chars\<rparr>;
     let endings = map (\<lambda>(i, off, _). (idx + off, char_idx + i))
           (filter (\<lambda>(_, _, ch). ch = newline) (enumerate 0 (char_indices_from 0 s)));
     Some (cache_clear (add_line_endings gb idx len_chars endings))
   }"

definition char_len :: "gap_buffer \<Rightarrow> nat \<Rightarrow> nat option" where
  "char_len gb byte_idx = do {
     ch \<leftarrow> decode_char_at byte_idx (gb_data gb);
     Some (len_utf8 ch)
   }"

definition gb_remove_char :: "gap_buffer \<Rightarrow> nat \<Rightarrow> gap_buffer option" where
  "gb_remove_char gb char_idx = do {
     (raw_idx, gb) \<leftarrow> char_to_raw_byte gb char_idx;
     idx \<leftarrow> raw_byte_to_byte gb raw_idx;
     len \<leftarrow> char_len gb raw_idx;
     gb \<leftarrow> (if idx \<noteq> gb_gap_start gb then move_gap_to gb idx else Some (cache_clear gb));
     n_chars \<leftarrow> usub (gb_n_chars gb) 1;
     let gb = gb\<lparr>gb_gap_end := gb_gap_end gb + len, gb_n_chars := n_chars\<rparr>;
     gb \<leftarrow> remove_line_endings gb idx (idx + len) 1;
     Some (cache_clear gb)
   }"

definition gb_remove_range :: "gap_buffer \<Rightarrow> nat \<Rightarrow> nat \<Rightarrow> gap_buffer option" where
  "gb_remove_range gb char_from char_to =
     (if char_from = char_to then Some gb
      else do {
        rust_assert (char_from < char_to);
        (raw_from, gb) \<leftarrow> char_to_raw_byte gb char_from;
        from \<leftarrow> raw_byte_to_byte gb raw_from;
        (to, gb) \<leftarrow> offset_char_to_byte gb char_to raw_from char_from;
        gb \<leftarrow> move_gap_to gb from;
        n_bytes \<leftarrow> usub to from;
        let n_chars = char_to - char_from;
        gb \<leftarrow> remove_line_endings gb from (byte_to_raw_byte gb to) n_chars;
        n \<leftarrow> usub (gb_n_chars gb) n_chars;
        Some (cache_clear (gb\<lparr>gb_gap_end := gb_gap_end gb + n_bytes, gb_n_chars := n\<rparr>))
      })"

definition gb_clear :: "gap_buffer \<Rightarrow> gap_buffer option" where
  "gb_clear gb = do {
     gb \<leftarrow> move_gap_to gb 0;
     Some (gb\<lparr>gb_gap_end := gb_cap gb, gb_line_endings := [], gb_n_chars := 0\<rparr>)
   }"

definition make_contiguous :: "gap_buffer \<Rightarrow> (u8 list \<times> gap_buffer) option" where
  "make_contiguous gb = do {
     gb \<leftarrow> move_gap_to gb 0;
     bytes \<leftarrow> subslice (gb_data gb) (gb_gap_end gb) (length (gb_data gb));
     Some (bytes, gb)
   }"

definition gb_as_str :: "gap_buffer \<Rightarrow> (ustr \<times> gap_buffer) option" where
  "gb_as_str gb = do {
     (raw, gb) \<leftarrow> make_contiguous gb;
     s \<leftarrow> from_utf8 raw;
     Some (s, gb)
   }"


end
