(* ===== verification/TextLines.thy ===== *)
theory TextLines
  imports GapBuffer
begin

subsection \<open>Byte lengths of prefixes\<close>

lemma utf8_take_drop: "utf8 (take k s) @ utf8 (drop k s) = utf8 s"
  by (metis append_take_drop_id utf8_simps(3))

lemma blen_take_drop: "blen (take k s) + blen (drop k s) = blen s"
  by (metis length_append utf8_take_drop)

lemma blen_take_Suc: "k < length s \<Longrightarrow> blen (take (Suc k) s) = blen (take k s) + len_utf8 (s ! k)"
  by (simp add: take_Suc_conv_app_nth)

lemma blen_take_mono: "i \<le> j \<Longrightarrow> blen (take i s) \<le> blen (take j s)"
proof -
  assume "i \<le> j"
  then have "take j s = take i s @ drop i (take j s)"
    by (metis append_take_drop_id min.absorb1 take_take)
  then show ?thesis by (metis length_append le_add1 utf8_simps(3))
qed

lemma blen_take_less: "i < j \<Longrightarrow> i < length s \<Longrightarrow> blen (take i s) < blen (take j s)"
  using blen_take_mono[of "Suc i" j s] blen_take_Suc[of i s] len_utf8_bounds(3)[of "s ! i"] by simp

lemma blen_take_less_iff: "i < length s \<Longrightarrow> blen (take i s) < blen (take j s) \<longleftrightarrow> i < j"
  using blen_take_less[of i j s] blen_take_mono[of j i s] by (meson leD not_le)

lemma blen_take_le: "blen (take k s) \<le> blen s"
  using blen_take_drop[of k s] by simp

lemma blen_take_less_blen: "k < length s \<Longrightarrow> blen (take k s) < blen s"
  using blen_take_less[of k "length s" s] by simp

lemma utf8_drop_bytes: "drop (blen (take k s)) (utf8 s) = utf8 (drop k s)"
  by (metis append_eq_conv_conj utf8_take_drop)

lemma utf8_take_bytes: "take (blen (take k s)) (utf8 s) = utf8 (take k s)"
  by (metis append_eq_conv_conj utf8_take_drop)

lemma blen_pos_iff: "0 < blen s \<longleftrightarrow> s \<noteq> []"
  by simp

lemma str_ok_take_drop: "str_ok s \<Longrightarrow> str_ok (take k s) \<and> str_ok (drop k s)"
  by (metis append_take_drop_id list_all_append)

lemma str_ok_nth: "str_ok s \<Longrightarrow> i < length s \<Longrightarrow> uchar_ok (s ! i)"
  by (simp add: list_all_length)

subsection \<open>Line endings of a string\<close>

text \<open>
  The specification of the line ending table: the byte and character offset of every
  newline of \<open>s\<close>, when \<open>s\<close> starts at byte \<open>b\<close> and character \<open>c\<close>.
\<close>

fun line_ends :: "nat \<Rightarrow> nat \<Rightarrow> ustr \<Rightarrow> (nat \<times> nat) list" where
  "line_ends b c [] = []"
| "line_ends b c (x # s) =
     (if x = newline then [(b, c)] else []) @ line_ends (b + len_utf8 x) (c + 1) s"

definition newlines :: "ustr \<Rightarrow> nat list" where
  "newlines s = filter (\<lambda>i. s ! i = newline) [0..<length s]"

lemma line_ends_append [simp]:
  "line_ends b c (s @ t) = line_ends b c s @ line_ends (b + blen s) (c + length s) t"
  by (induction s arbitrary: b c) (auto simp: add.assoc)

lemma line_ends_shift:
  "map (\<lambda>(x, y). (x + d, y + e)) (line_ends b c s) = line_ends (b + d) (c + e) s"
  by (induction s arbitrary: b c) (auto simp: ac_simps)

lemma line_ends_shift_bytes:
  "map (\<lambda>(x, y). (x + d, y)) (line_ends b c s) = line_ends (b + d) c s"
  using line_ends_shift[of d 0] by simp

lemma line_ends_shift_chars:
  "map (\<lambda>(x, y). (x, y + e)) (line_ends b c s) = line_ends b (c + e) s"
  using line_ends_shift[of 0 e] by simp

lemma line_ends_all:
  "(\<And>x y. b \<le> x \<Longrightarrow> x < b + blen s \<Longrightarrow> c \<le> y \<Longrightarrow> y < c + length s \<Longrightarrow> P (x, y)) \<Longrightarrow>
   list_all P (line_ends b c s)"
proof (induction s arbitrary: b c)
  case (Cons x s)
  have "0 < len_utf8 x" by (rule len_utf8_bounds)
  then show ?case by (auto intro!: Cons)
qed simp

lemma line_ends_unshift_bytes:
  "d \<le> b \<Longrightarrow> map (\<lambda>(x, y). (x - d, y)) (line_ends b c s) = line_ends (b - d) c s"
proof -
  assume "d \<le> b"
  then have "line_ends b c s = map (\<lambda>(x, y). (x + d, y)) (line_ends (b - d) c s)"
    by (simp only: line_ends_shift_bytes) simp
  then show ?thesis by (simp add: o_def case_prod_beta')
qed

lemma line_ends_unshift_chars:
  "d \<le> c \<Longrightarrow> map (\<lambda>(x, y). (x, y - d)) (line_ends b c s) = line_ends b (c - d) s"
proof -
  assume "d \<le> c"
  then have "line_ends b c s = map (\<lambda>(x, y). (x, y + d)) (line_ends b (c - d) s)"
    by (simp only: line_ends_shift_chars) simp
  then show ?thesis by (simp add: o_def case_prod_beta')
qed

lemma line_ends_of_indices:
  "[(b + idx, c + i). (i, idx, ch) \<leftarrow> enumerate n (char_indices_from m s), ch = newline]
     = line_ends (b + m) (c + n) s"
  by (induction s arbitrary: n m) (auto simp: add.assoc)

lemma compute_line_endings_eq: "compute_line_endings s = (length s, line_ends 0 0 s)"
  using line_ends_of_indices[of 0 0 0 0 s, unfolded add_0] by (simp add: compute_line_endings_def)

lemma new_endings_eq:
  "map (\<lambda>(i, off, _). (b + off, c + i))
     (filter (\<lambda>(_, _, ch). ch = newline) (enumerate n (char_indices_from m s)))
   = line_ends (b + m) (c + n) s"
  by (induction s arbitrary: n m) (auto simp: add.assoc)

lemma newlines_append: "newlines (s @ t) = newlines s @ map ((+) (length s)) (newlines t)"
proof -
  have upt: "[0..<length s + length t] = [0..<length s] @ map ((+) (length s)) [0..<length t]"
    by (rule nth_equalityI) (auto simp: nth_append)
  have "filter (\<lambda>i. (s @ t) ! i = newline) [0..<length s] = newlines s"
    unfolding newlines_def by (rule filter_cong) (simp_all add: nth_append)
  moreover have "filter (\<lambda>i. (s @ t) ! i = newline) (map ((+) (length s)) [0..<length t]) =
      map ((+) (length s)) (newlines t)"
    by (simp add: newlines_def filter_map o_def)
  ultimately show ?thesis
    unfolding newlines_def[of "s @ t"] length_append upt filter_append by simp
qed

lemma newlines_Cons: "newlines (x # s) = (if x = newline then [0] else []) @ map Suc (newlines s)"
  using newlines_append[of "[x]" s] by (simp add: newlines_def plus_1_eq_Suc)

lemma line_ends_newlines:
  "line_ends b c s = map (\<lambda>i. (b + blen (take i s), c + i)) (newlines s)"
proof (induction s arbitrary: b c)
  case (Cons x s)
  then show ?case by (simp add: newlines_Cons o_def add.assoc)
qed (simp add: newlines_def)

lemma newlines_less: "i \<in> set (newlines s) \<Longrightarrow> i < length s"
  by (simp add: newlines_def)

lemma sorted_newlines: "sorted_wrt (<) (newlines s)"
  by (simp add: newlines_def sorted_wrt_filter)

end
