(* ===== verification/GapRel.thy ===== *)
theory GapRel
  imports TextLines
begin

subsection \<open>The representation relation\<close>

text \<open>
  \<open>gb_rel gb s1 s2\<close>: the buffer holds the text \<open>s1 @ s2\<close> with the gap between the two
  parts, and every piece of its book-keeping (sizes, line endings, cache) is right.
\<close>

definition raw_pos :: "nat \<Rightarrow> ustr \<Rightarrow> ustr \<Rightarrow> nat \<Rightarrow> nat" where
  "raw_pos gap s1 s2 k =
     (if s1 @ s2 = [] then 0
      else if k < length s1 then blen (take k s1)
      else blen s1 + gap + blen (take (k - length s1) s2))"

definition gb_rel :: "gap_buffer \<Rightarrow> ustr \<Rightarrow> ustr \<Rightarrow> bool" where
  "gb_rel gb s1 s2 \<longleftrightarrow>
     (\<exists>g. gb_data gb = utf8 s1 @ g @ utf8 s2 \<and>
        gb_gap_start gb = blen s1 \<and> gb_gap_end gb = blen s1 + length g \<and>
        gb_cap gb = length (gb_data gb) \<and> MIN_GAP \<le> length g) \<and>
     MIN_GAP_GROW \<le> gb_next_gap gb \<and>
     gb_n_chars gb = length (s1 @ s2) \<and>
     gb_line_endings gb = line_ends 0 0 s1 @ line_ends (gb_gap_end gb) (length s1) s2 \<and>
     str_ok s1 \<and> str_ok s2 \<and>
     (\<forall>k v. gb_cache gb k = Some v \<longrightarrow> v = raw_pos (gb_gap gb) s1 s2 k)"

lemma gb_relE:
  assumes "gb_rel gb s1 s2"
  obtains g where "gb_data gb = utf8 s1 @ g @ utf8 s2"
    "gb_gap_start gb = blen s1" "gb_gap_end gb = blen s1 + length g" "gb_gap gb = length g"
    "gb_cap gb = blen s1 + length g + blen s2" "gb_len gb = blen s1 + blen s2"
    "MIN_GAP \<le> length g" "MIN_GAP_GROW \<le> gb_next_gap gb" "gb_n_chars gb = length s1 + length s2"
    "gb_line_endings gb = line_ends 0 0 s1 @ line_ends (blen s1 + length g) (length s1) s2"
    "str_ok s1" "str_ok s2"
    "\<And>k v. gb_cache gb k = Some v \<Longrightarrow> v = raw_pos (length g) s1 s2 k"
  using assms that unfolding gb_rel_def by (auto simp: gb_gap_def gb_len_def)

lemma gb_relI:
  assumes "gb_data gb = utf8 s1 @ g @ utf8 s2"
    "gb_gap_start gb = blen s1" "gb_gap_end gb = blen s1 + length g"
    "gb_cap gb = blen s1 + length g + blen s2" "MIN_GAP \<le> length g"
    "MIN_GAP_GROW \<le> gb_next_gap gb" "gb_n_chars gb = length s1 + length s2"
    "gb_line_endings gb = line_ends 0 0 s1 @ line_ends (blen s1 + length g) (length s1) s2"
    "str_ok s1" "str_ok s2"
    "\<And>k v. gb_cache gb k = Some v \<Longrightarrow> v = raw_pos (length g) s1 s2 k"
  shows "gb_rel gb s1 s2"
  using assms unfolding gb_rel_def by (auto simp: gb_gap_def)

text \<open>A buffer that differs in its cache only, and still represents the same text.\<close>

definition same_but_cache :: "gap_buffer \<Rightarrow> gap_buffer \<Rightarrow> bool" where
  "same_but_cache gb gb' \<longleftrightarrow> gb' = gb\<lparr>gb_cache := gb_cache gb'\<rparr>"

lemma same_but_cache_simps:
  "same_but_cache gb gb' \<Longrightarrow> gb_data gb' = gb_data gb \<and> gb_cap gb' = gb_cap gb \<and>
     gb_gap_start gb' = gb_gap_start gb \<and> gb_gap_end gb' = gb_gap_end gb \<and>
     gb_next_gap gb' = gb_next_gap gb \<and> gb_n_chars gb' = gb_n_chars gb \<and>
     gb_line_endings gb' = gb_line_endings gb \<and> gb_gap gb' = gb_gap gb \<and> gb_len gb' = gb_len gb"
  unfolding same_but_cache_def
  by (cases gb, cases gb') (auto simp: gb_gap_def gb_len_def)

lemma same_but_cache_refl [simp]: "same_but_cache gb gb"
  by (simp add: same_but_cache_def)

lemma same_but_cache_trans:
  "same_but_cache a b \<Longrightarrow> same_but_cache b c \<Longrightarrow> same_but_cache a c"
  unfolding same_but_cache_def by (metis gap_buffer.surjective gap_buffer.update_convs(8))

lemma same_but_cache_raw_byte_to_byte:
  "same_but_cache gb gb' \<Longrightarrow> raw_byte_to_byte gb' = raw_byte_to_byte gb"
  by (rule ext) (simp add: raw_byte_to_byte_def same_but_cache_simps)

lemma gb_rel_cache_insert:
  assumes "gb_rel gb s1 s2" "v = raw_pos (gb_gap gb) s1 s2 k"
  shows "gb_rel (cache_insert gb k v) s1 s2 \<and> same_but_cache gb (cache_insert gb k v)"
  using assms unfolding gb_rel_def cache_insert_def same_but_cache_def
  by (auto simp: gb_gap_def split: if_splits)

lemma gb_rel_cache_clear: "gb_rel gb s1 s2 \<Longrightarrow> gb_rel (cache_clear gb) s1 s2"
  unfolding gb_rel_def cache_clear_def by (auto simp: gb_gap_def)

subsection \<open>Raw and logical positions\<close>

lemma raw_pos_less_iff:
  assumes "i < length (s1 @ s2)" "0 < gap"
  shows "raw_pos gap s1 s2 i < raw_pos gap s1 s2 j \<longleftrightarrow> i < j"
proof -
  have ne: "s1 @ s2 \<noteq> []" using assms by auto
  have 1: "blen (take k s1) \<le> blen s1" for k by (rule blen_take_le)
  have 2: "\<not> blen s1 + x < blen (take k s1)" "\<not> blen s1 + x + y < blen (take k s1)" for x y k
    using 1[of k] by simp_all
  show ?thesis using assms 1[of i] 2
    by (auto simp: raw_pos_def ne blen_take_less_iff trans_less_add1)
qed

lemma raw_byte_to_byte_raw_pos:
  assumes "gb_rel gb s1 s2"
  shows "raw_byte_to_byte gb (raw_pos (gb_gap gb) s1 s2 k) = Some (blen (take k (s1 @ s2)))"
proof -
  obtain g :: "u8 list" where g: "gb_gap_start gb = blen s1" "gb_gap gb = length g" "32 \<le> length g"
    by (rule gb_relE[OF assms]) blast
  have "s1 @ s2 = [] \<or> (k < length s1 \<and> blen (take k s1) \<le> blen s1) \<or> length s1 \<le> k"
    using blen_take_le[of k s1] by auto
  then show ?thesis using g by (auto simp: raw_byte_to_byte_def raw_pos_def usub_def)
qed

text \<open>An anchor: the raw offset \<open>ra\<close> of character \<open>a\<close>, on either side of the gap.\<close>

definition anchor :: "nat \<Rightarrow> ustr \<Rightarrow> ustr \<Rightarrow> nat \<Rightarrow> nat \<Rightarrow> bool" where
  "anchor gap s1 s2 ra a \<longleftrightarrow>
     (a \<le> length s1 \<and> ra = blen (take a s1)) \<or>
     (length s1 \<le> a \<and> a \<le> length (s1 @ s2) \<and>
        ra = blen s1 + gap + blen (take (a - length s1) s2))"

lemma anchor_0 [simp]: "anchor gap s1 s2 0 0"
  by (simp add: anchor_def)

lemma anchor_raw_pos: "a \<le> length (s1 @ s2) \<Longrightarrow> anchor gap s1 s2 (raw_pos gap s1 s2 a) a"
  by (auto simp: anchor_def raw_pos_def)

lemma raw_pos_less_anchor:
  assumes "anchor gap s1 s2 ra a" "c < length (s1 @ s2)" "0 < gap"
  shows "raw_pos gap s1 s2 c < ra \<longleftrightarrow> c < a"
proof -
  have ne: "s1 @ s2 \<noteq> []" using assms by auto
  have 1: "blen (take k s1) \<le> blen s1" for k by (rule blen_take_le)
  have 2: "\<not> blen s1 + x < blen (take k s1)" "\<not> blen s1 + x + y < blen (take k s1)" for x y k
    using 1[of k] by simp_all
  show ?thesis using assms 1[of c] 2
    by (auto simp: raw_pos_def anchor_def ne blen_take_less_iff trans_less_add1)
qed

subsection \<open>Iterating over a slice\<close>

lemma chars_next_utf8:
  assumes "str_ok u" "str_ok v" "i < length (u @ v)"
    "chars_s it = \<lparr>sl_from = f, sl_left = utf8 u, sl_right = utf8 v\<rparr>"
    "chars_cur it = blen (take i (u @ v))"
  shows "chars_next it =
     Some (Some ((u @ v) ! i), it\<lparr>chars_cur := blen (take (Suc i) (u @ v))\<rparr>)"
proof -
  have lt: "\<not> sl_len (chars_s it) \<le> chars_cur it"
    using blen_take_less_blen[of i "u @ v"] assms by (simp add: sl_len_def)
  have dec: "decode_char_at (blen (take j w)) (utf8 w) = Some (w ! j)"
    if "str_ok w" "j < length w" for w j
  proof -
    have "utf8 w = utf8 (take j w) @ encode_utf8 (w ! j) @ utf8 (drop (Suc j) w)"
      using id_take_nth_drop[OF that(2)] by (metis utf8_simps(2,3))
    then show ?thesis using decode_char_at_encode[OF str_ok_nth[OF that]] by metis
  qed
  have "\<exists>d cur. cur_and_data (chars_s it) (chars_cur it) = (cur, d) \<and>
          decode_char_at cur d = Some ((u @ v) ! i)"
  proof (cases "i < length u")
    case True
    then show ?thesis
      using assms dec[of u i] blen_take_less_blen[of i u]
      by (auto simp: cur_and_data_def nth_append)
  next
    case False
    then show ?thesis
      using assms dec[of v "i - length u"] by (auto simp: cur_and_data_def nth_append)
  qed
  then show ?thesis using lt assms(3,5)
    by (auto simp: chars_next_def blen_take_Suc simp del: length_append append_assoc take_append)
qed

lemma chars_next_end:
  "sl_len (chars_s it) \<le> chars_cur it \<Longrightarrow> chars_next it = Some (None, it)"
  by (simp add: chars_next_def)

lemma chars_advance_utf8:
  assumes "str_ok u" "str_ok v"
    "chars_s it = \<lparr>sl_from = f, sl_left = utf8 u, sl_right = utf8 v\<rparr>"
    "chars_cur it = blen (take i (u @ v))"
  shows "chars_advance n it = Some (it\<lparr>chars_cur := blen (take (i + n) (u @ v))\<rparr>)"
  using assms
proof (induction n arbitrary: i it)
  case 0
  then show ?case by simp
next
  case (Suc n)
  show ?case
  proof (cases "i < length (u @ v)")
    case True
    have "chars_advance n (it\<lparr>chars_cur := blen (take (Suc i) (u @ v))\<rparr>) =
        Some (it\<lparr>chars_cur := blen (take (Suc i) (u @ v))\<rparr>\<lparr>chars_cur := blen (take (Suc i + n) (u @ v))\<rparr>)"
      by (rule Suc.IH) (use Suc.prems in simp_all)
    then show ?thesis
      using chars_next_utf8[OF Suc.prems(1,2) True Suc.prems(3,4)] by simp
  next
    case False
    then have "sl_len (chars_s it) \<le> chars_cur it" using Suc.prems by (simp add: sl_len_def)
    moreover have "chars_advance n it = Some (it\<lparr>chars_cur := blen (take (i + n) (u @ v))\<rparr>)"
      by (rule Suc.IH) (use Suc.prems in simp_all)
    ultimately show ?thesis using False by (simp add: chars_next_end)
  qed
qed

end
