(* ===== verification/GapIndex.thy ===== *)
theory GapIndex
  imports GapRel
begin

lemma subslice_utf8:
  assumes "i \<le> j"
  shows "subslice (utf8 s @ xs) (blen (take i s)) (blen (take j s)) = Some (utf8 (drop i (take j s)))"
proof -
  have "blen (take i s) \<le> blen (take j s)" "blen (take j s) \<le> blen s"
    using assms by (rule blen_take_mono) (rule blen_take_le)
  moreover have "take (blen (take j s)) (utf8 s @ xs) = utf8 (take j s)"
    using calculation by (simp add: utf8_take_bytes)
  moreover have "drop (blen (take i s)) (utf8 (take j s)) = utf8 (drop i (take j s))"
    using utf8_drop_bytes[of i "take j s"] assms by (simp add: min_absorb1)
  ultimately show ?thesis by (simp add: subslice_def)
qed

lemma slice_from_raw_offsets_utf8:
  assumes rel: "gb_rel gb s1 s2" and ra: "anchor (gb_gap gb) s1 s2 ra a"
    and rt: "anchor (gb_gap gb) s1 s2 rt t" and le: "a \<le> t" "ra \<le> rt"
  obtains u v where "slice_from_raw_offsets ra rt gb =
      Some \<lparr>sl_from = blen (take a (s1 @ s2)), sl_left = utf8 u, sl_right = utf8 v\<rparr>"
    "u @ v = drop a (take t (s1 @ s2))" "str_ok u" "str_ok v"
proof -
  obtain g :: "u8 list" where g: "gb_data gb = utf8 s1 @ g @ utf8 s2" "gb_gap_start gb = blen s1"
    "gb_gap_end gb = blen s1 + length g" "gb_gap gb = length g" "32 \<le> length g"
    "str_ok s1" "str_ok s2"
    by (rule gb_relE[OF rel]) blast
  have ok: "str_ok (drop i (take j s1))" "str_ok (drop i (take j s2))" for i j
    using g(6,7) str_ok_take_drop by blast+
  consider (L) "a \<le> length s1" "ra = blen (take a s1)" "t \<le> length s1" "rt = blen (take t s1)"
    | (LR) "a \<le> length s1" "ra = blen (take a s1)" "length s1 \<le> t"
        "rt = blen s1 + length g + blen (take (t - length s1) s2)"
    | (R) "length s1 \<le> a" "ra = blen s1 + length g + blen (take (a - length s1) s2)" "length s1 \<le> t"
        "rt = blen s1 + length g + blen (take (t - length s1) s2)"
    using ra rt le(2) g(5) blen_take_le[of t s1] unfolding anchor_def g(4) by fastforce
  then show thesis
  proof cases
    case L
    have b: "blen (take a s1) \<le> blen s1" "blen (take t s1) \<le> blen s1" by (rule blen_take_le)+
    show ?thesis
      by (rule that[of "drop a (take t s1)" "[]"])
         (use L le b g(1-5) ok subslice_utf8[of a t s1 "g @ utf8 s2"] in
           \<open>auto simp: slice_from_raw_offsets_def raw_byte_to_byte_def\<close>)
  next
    case LR
    have b: "blen (take a s1) \<le> blen s1" "blen (take (t - length s1) s2) \<le> blen s2"
      by (rule blen_take_le)+
    have r: "subslice (gb_data gb) (gb_gap_end gb) rt = Some (utf8 (take (t - length s1) s2))"
      using subslice_suffix[of "utf8 s1 @ g" "utf8 s2" 0 "blen (take (t - length s1) s2)"]
        subslice_utf8[of 0 "t - length s1" s2 "[]"] LR g by simp
    show ?thesis
      by (rule that[of "drop a s1" "take (t - length s1) s2"])
         (use LR le b g(1-5) r ok[of a "length s1"] ok(2)[of 0]
            subslice_utf8[of a "length s1" s1 "g @ utf8 s2"] in
           \<open>auto simp: slice_from_raw_offsets_def raw_byte_to_byte_def Let_def\<close>)
  next
    case R
    have b: "blen (take (a - length s1) s2) \<le> blen s2" "blen (take (t - length s1) s2) \<le> blen s2"
      by (rule blen_take_le)+
    have r: "subslice (gb_data gb) ra rt =
        Some (utf8 (drop (a - length s1) (take (t - length s1) s2)))"
      using subslice_suffix[of "utf8 s1 @ g" "utf8 s2" "blen (take (a - length s1) s2)"
          "blen (take (t - length s1) s2)"]
        subslice_utf8[of "a - length s1" "t - length s1" s2 "[]"] R le g by (simp add: diff_le_mono)
    show ?thesis
      by (rule that[of "drop (a - length s1) (take (t - length s1) s2)" "[]"])
         (use R le b g(1-5) r ok in
           \<open>auto simp: slice_from_raw_offsets_def raw_byte_to_byte_def usub_def\<close>)
  qed
qed

lemma blen_drop_take: "a \<le> k \<Longrightarrow> blen (drop a (take k s)) = blen (take k s) - blen (take a s)"
  using blen_take_drop[of a "take k s"] by (simp add: min_absorb1)

lemma scan_to_raw_byte_correct:
  assumes rel: "gb_rel gb s1 s2" and ra: "anchor (gb_gap gb) s1 s2 ra a"
    and rt: "anchor (gb_gap gb) s1 s2 rt t" and le: "a \<le> k" "k \<le> t" "ra \<le> rt"
    and ne: "s1 @ s2 \<noteq> []" and kt: "k = t \<Longrightarrow> t = length (s1 @ s2) \<and> gb_gap_end gb \<le> rt"
    and bound: "slice_to = (case to of None \<Rightarrow> length (gb_data gb) | Some x \<Rightarrow> x)" "slice_to = rt"
  shows "scan_to_raw_byte gb k ra a to = Some (raw_pos (gb_gap gb) s1 s2 k)"
proof -
  obtain g :: "u8 list" where g: "gb_data gb = utf8 s1 @ g @ utf8 s2" "gb_gap_start gb = blen s1"
    "gb_gap_end gb = blen s1 + length g" "gb_gap gb = length g" "32 \<le> length g"
    by (rule gb_relE[OF rel]) blast
  obtain u v where sl: "slice_from_raw_offsets ra rt gb =
      Some \<lparr>sl_from = blen (take a (s1 @ s2)), sl_left = utf8 u, sl_right = utf8 v\<rparr>"
    and uv: "u @ v = drop a (take t (s1 @ s2))" "str_ok u" "str_ok v"
    by (rule slice_from_raw_offsets_utf8[OF rel ra rt order_trans[OF le(1,2)] le(3)])
  define cur where "cur = ra + (blen (take k (s1 @ s2)) - blen (take a (s1 @ s2)))"
  have adv: "take (k - a) (u @ v) = drop a (take k (s1 @ s2))"
    unfolding uv(1) using le by (simp add: take_drop min_absorb1 del: take_append)
  have "blen (drop a (take k (s1 @ s2))) = blen (take k (s1 @ s2)) - blen (take a (s1 @ s2))"
    using le(1) by (rule blen_drop_take)
  then have it: "chars_advance (k - a) (slice_chars \<lparr>sl_from = blen (take a (s1 @ s2)),
      sl_left = utf8 u, sl_right = utf8 v\<rparr>) =
      Some \<lparr>chars_s = \<lparr>sl_from = blen (take a (s1 @ s2)), sl_left = utf8 u, sl_right = utf8 v\<rparr>,
            chars_cur = cur - ra\<rparr>"
    using chars_advance_utf8[OF uv(2,3), of
        "slice_chars \<lparr>sl_from = blen (take a (s1 @ s2)), sl_left = utf8 u, sl_right = utf8 v\<rparr>" _ 0 "k - a"]
    by (simp add: slice_chars_def adv cur_def del: take_append drop_append)
  have to: "(case to of None \<Rightarrow> True | Some x \<Rightarrow> gb_gap_end gb \<le> x) \<longleftrightarrow> gb_gap_end gb \<le> rt"
    using bound g by (auto split: option.splits)
  have cur_ra: "cur - ra + ra = cur" by (simp add: cur_def)
  have scan: "scan_to_raw_byte gb k ra a to =
     Some (if gb_gap_start gb \<le> cur \<and>
              (cur < gb_gap_end gb \<or> (ra \<le> gb_gap_start gb \<and> gb_gap_end gb \<le> rt))
           then cur + gb_gap gb else cur)"
    unfolding scan_to_raw_byte_def to bound(1)[symmetric] bound(2) sl
    using it le(1) by (auto simp: usub_simps Let_def cur_ra simp del: take_append)
  consider (L) "k < length s1" | (LR) "length s1 \<le> k" "a \<le> length s1" "ra = blen (take a s1)"
    | (R) "length s1 \<le> k" "length s1 \<le> a" "ra = blen s1 + length g + blen (take (a - length s1) s2)"
    using ra unfolding anchor_def g(4) by (cases "k < length s1") auto
  then show ?thesis
  proof cases
    case L
    then have "ra = blen (take a s1)" using ra le(1) unfolding anchor_def by auto
    then have "cur = blen (take k s1)"
      using L le(1) blen_take_mono[of a k s1] by (simp add: cur_def)
    then show ?thesis
      unfolding scan using L ne g blen_take_less_blen[of k s1] by (auto simp: raw_pos_def)
  next
    case LR
    have "blen (take a s1) \<le> blen s1" by (rule blen_take_le)
    then have "cur = blen s1 + blen (take (k - length s1) s2)"
      using LR by (simp add: cur_def)
    moreover have "gb_gap_end gb \<le> rt"
      using rt LR(1) le(2) kt g unfolding anchor_def by (cases "k = t") auto
    ultimately show ?thesis
      unfolding scan using LR ne g blen_take_le[of a s1] by (auto simp: raw_pos_def)
  next
    case R
    have "blen (take (a - length s1) s2) \<le> blen (take (k - length s1) s2)"
      using le(1) by (intro blen_take_mono) simp
    then have "cur = blen s1 + length g + blen (take (k - length s1) s2)"
      using R by (simp add: cur_def)
    then show ?thesis unfolding scan using R ne g by (auto simp: raw_pos_def)
  qed
qed

subsection \<open>Searching a sorted list\<close>

lemma partition_point_sorted_filter:
  assumes "sorted_wrt (<) (xs :: nat list)"
  shows "take (partition_point (\<lambda>c. c < k) xs) xs = filter (\<lambda>c. c < k) xs"
    "drop (partition_point (\<lambda>c. c < k) xs) xs = filter (\<lambda>c. k \<le> c) xs"
proof -
  have "k \<le> a \<Longrightarrow> \<forall>x\<in>set xs. a < x \<Longrightarrow> filter (\<lambda>c. c < k) xs = [] \<and> filter ((\<le>) k) xs = xs"
    for a :: nat and xs by (force simp: filter_empty_conv filter_id_conv)
  then show "take (partition_point (\<lambda>c. c < k) xs) xs = filter (\<lambda>c. c < k) xs"
    "drop (partition_point (\<lambda>c. c < k) xs) xs = filter (\<lambda>c. k \<le> c) xs"
    using assms unfolding partition_point_def by (induction xs) (simp_all add: not_less)
qed

lemma partition_point_sorted_nth:
  assumes "sorted_wrt (<) (xs :: nat list)" "i = partition_point (\<lambda>c. c < k) xs"
  shows "0 < i \<Longrightarrow> xs ! (i - 1) \<in> set xs \<and> xs ! (i - 1) < k"
    "i < length xs \<Longrightarrow> xs ! i \<in> set xs \<and> k \<le> xs ! i"
proof -
  have i: "i = length (takeWhile (\<lambda>c. c < k) xs)" using assms(2) by (simp add: partition_point_def)
  show "xs ! (i - 1) \<in> set xs \<and> xs ! (i - 1) < k" if "0 < i"
  proof -
    have "i - 1 < length (takeWhile (\<lambda>c. c < k) xs)" using that i by simp
    then have "takeWhile (\<lambda>c. c < k) xs ! (i - 1) < k" "i - 1 < length xs"
      using nth_mem set_takeWhileD length_takeWhile_le by (metis, metis less_le_trans)
    then show ?thesis using \<open>i - 1 < length (takeWhile _ xs)\<close> by (simp add: takeWhile_nth)
  qed
  show "xs ! i \<in> set xs \<and> k \<le> xs ! i" if "i < length xs"
    using that i nth_length_takeWhile[of "\<lambda>c. c < k" xs] by simp
qed

lemma partition_point_map: "partition_point P (map f xs) = partition_point (P \<circ> f) xs"
  by (simp add: partition_point_def takeWhile_map)

lemma partition_point_cong:
  "(\<And>x. x \<in> set xs \<Longrightarrow> P x = Q x) \<Longrightarrow> partition_point P xs = partition_point Q xs"
  unfolding partition_point_def by (metis (mono_tags, lifting) takeWhile_cong)

lemma gb_rel_line_endings:
  assumes "gb_rel gb s1 s2"
  shows "gb_line_endings gb =
    map (\<lambda>c. (raw_pos (gb_gap gb) s1 s2 c, c)) (newlines (s1 @ s2))"
proof -
  obtain g :: "u8 list" where g: "gb_gap gb = length g" "gb_line_endings gb =
      line_ends 0 0 s1 @ line_ends (blen s1 + length g) (length s1) s2"
    by (rule gb_relE[OF assms]) blast
  have "line_ends 0 0 s1 = map (\<lambda>c. (raw_pos (length g) s1 s2 c, c)) (newlines s1)"
    unfolding line_ends_newlines using newlines_less[of _ s1]
    by (auto simp: raw_pos_def newlines_def)
  moreover have "line_ends (blen s1 + length g) (length s1) s2 =
      map (\<lambda>c. (raw_pos (length g) s1 s2 c, c)) (map ((+) (length s1)) (newlines s2))"
    unfolding line_ends_newlines using newlines_less[of _ s2]
    by (auto simp: raw_pos_def newlines_def)
  ultimately show ?thesis by (simp add: g newlines_append)
qed


subsection \<open>The index conversions\<close>

lemma last_char_to_raw_byte_correct:
  assumes rel: "gb_rel gb s1 s2" and ne: "s1 @ s2 \<noteq> []"
  shows "last_char_to_raw_byte gb =
    Some (raw_pos (gb_gap gb) s1 s2 (length (s1 @ s2) - 1))"
proof -
  obtain g :: "u8 list" where g: "gb_data gb = utf8 s1 @ g @ utf8 s2" "gb_gap_start gb = blen s1"
    "gb_gap_end gb = blen s1 + length g" "gb_cap gb = blen s1 + length g + blen s2"
    "gb_gap gb = length g" "32 \<le> length g" "str_ok s1" "str_ok s2"
    by (rule gb_relE[OF rel]) blast
  have dec: "decode_char_ending_at (length pre + blen s - 1) (pre @ utf8 s @ post) = Some (last s) \<and>
      blen s - len_utf8 (last s) = blen (take (length s - 1) s) \<and> len_utf8 (last s) \<le> blen s"
    if ok: "str_ok s" and ne: "s \<noteq> []" for s pre post
  proof -
    obtain i c where s: "s = i @ [c]" using ne by (cases s rule: rev_cases) auto
    have "uchar_ok c" using ok s by simp
    from decode_char_ending_at_encode[OF this, of "pre @ utf8 i" post]
    show ?thesis using s by (simp add: add.assoc)
  qed
  show ?thesis
  proof (cases "s2 = []")
    case True
    then have "s1 \<noteq> []" using ne by simp
    then show ?thesis
      using dec[OF g(7), of "[]" "g"] g True blen_pos_iff[of s1]
      by (auto simp: last_char_to_raw_byte_def raw_pos_def)
  next
    case False
    then have pos: "0 < blen s2" by simp
    have "length s1 + length s2 - 1 = length s1 + (length s2 - 1)" using False by (cases s2) auto
    moreover have "blen s1 + length g + blen s2 - len_utf8 (last s2) =
        blen s1 + length g + blen (take (length s2 - 1) s2)"
      using dec[OF g(8) False, of "[]" "[]"] by auto
    ultimately show ?thesis
      using dec[OF g(8) False, of "utf8 s1 @ g" "[]"] g False pos
      by (auto simp: last_char_to_raw_byte_def raw_pos_def usub_def)
  qed
qed

text \<open>Equation of the search once it is past the cache, the empty buffer and the last character.\<close>

lemma offset_char_to_raw_byte_search:
  assumes rel: "gb_rel gb s1 s2" and ra: "anchor (gb_gap gb) s1 s2 ra a"
    and k: "a \<le> k" "k \<le> length (s1 @ s2)" and ne: "s1 @ s2 \<noteq> []"
    and les: "les = drop (partition_point (\<lambda>(b, _). b < ra) (gb_line_endings gb)) (gb_line_endings gb)"
  shows "(case binary_search_by_char k les of
       Inl i \<Rightarrow> Some (fst (les ! i))
     | Inr i \<Rightarrow> (let (byte_offset, char_offset) = (if 0 < i then les ! (i - 1) else (ra, a));
                     to = (if i < length les then Some (fst (les ! i)) else None)
                 in scan_to_raw_byte gb k byte_offset char_offset to))
     = Some (raw_pos (gb_gap gb) s1 s2 k)"
proof -
  let ?raw = "raw_pos (gb_gap gb) s1 s2" and ?n = "length (s1 @ s2)"
  obtain g :: "u8 list" where g: "gb_data gb = utf8 s1 @ g @ utf8 s2" "gb_gap_start gb = blen s1"
    "gb_gap_end gb = blen s1 + length g" "gb_gap gb = length g" "32 \<le> length g"
    by (rule gb_relE[OF rel]) blast
  have gap: "0 < gb_gap gb" using g(4,5) by linarith
  define ns where "ns = filter (\<lambda>c. a \<le> c) (newlines (s1 @ s2))"
  have ns_lt: "\<And>c. c \<in> set ns \<Longrightarrow> c < ?n \<and> a \<le> c"
    unfolding ns_def using newlines_less[of _ "s1 @ s2"] by simp
  have ns_sorted: "sorted_wrt (<) ns"
    unfolding ns_def by (intro sorted_wrt_filter sorted_newlines)
  have "partition_point (\<lambda>(b, _). b < ra) (gb_line_endings gb) =
      partition_point (\<lambda>c. c < a) (newlines (s1 @ s2))"
    unfolding gb_rel_line_endings[OF rel] partition_point_map
    by (rule partition_point_cong)
       (use raw_pos_less_anchor[OF ra _ gap] newlines_less[of _ "s1 @ s2"] in \<open>simp add: o_def\<close>)
  then have les_ns: "les = map (\<lambda>c. (?raw c, c)) ns"
    unfolding les gb_rel_line_endings[OF rel] ns_def
    by (simp add: drop_map partition_point_sorted_filter(2)[OF sorted_newlines])
  define i where "i = partition_point (\<lambda>c. c < k) ns"
  have bs: "binary_search_by_char k les = (if i < length ns \<and> ns ! i = k then Inl i else Inr i)"
    by (auto simp: binary_search_by_char_def les_ns partition_point_map o_def i_def Let_def)
  note nth = partition_point_sorted_nth[OF ns_sorted i_def]
  show ?thesis
  proof (cases "i < length ns \<and> ns ! i = k")
    case True
    then show ?thesis unfolding bs by (simp add: les_ns)
  next
    case False
    define b where "b = (if 0 < i then les ! (i - 1) else (ra, a))"
    define to where "to = (if i < length les then Some (fst (les ! i)) else None)"
    have i_le: "i \<le> length ns" unfolding i_def by (rule partition_point_le)
    have b: "anchor (gb_gap gb) s1 s2 (fst b) (snd b)" "snd b \<le> k"
      using nth(1) ns_lt ra k i_le anchor_raw_pos[of "ns ! (i - 1)" s1 s2 "gb_gap gb"]
      by (auto simp: b_def les_ns)
    define t where "t = (if i < length ns then ns ! i else ?n)"
    define rt where "rt = (if i < length ns then ?raw (ns ! i) else length (gb_data gb))"
    have t3: "k < t \<and> t < ?n" if "i < length ns"
      using nth(2)[OF that] ns_lt[of "ns ! i"] False that unfolding t_def by auto
    then have t: "k \<le> t" "t \<le> ?n" "i < length ns \<Longrightarrow> k < t \<and> t < ?n"
      using k by (auto simp: t_def)
    have rt: "anchor (gb_gap gb) s1 s2 rt t"
    proof (cases "i < length ns")
      case True
      then show ?thesis
        using anchor_raw_pos[of "ns ! i" s1 s2 "gb_gap gb"] ns_lt[of "ns ! i"]
        by (simp add: rt_def t_def less_imp_le)
    next
      case False
      then show ?thesis by (simp add: rt_def t_def anchor_def g)
    qed
    have "scan_to_raw_byte gb k (fst b) (snd b) to = Some (?raw k)"
    proof (rule scan_to_raw_byte_correct[OF rel b(1) rt b(2) t(1) _ ne])
      show "fst b \<le> rt"
      proof (cases "i < length ns")
        case True
        then have "t < ?n" "\<not> t < snd b" "rt = ?raw t" using t(3) b(2) by (auto simp: rt_def t_def)
        then show ?thesis using raw_pos_less_anchor[OF b(1) _ gap] by (metis not_less)
      next
        case False
        then have "rt = blen s1 + length g + blen s2" by (simp add: rt_def g)
        then show ?thesis
          using b(1) blen_take_le[of "snd b" s1] blen_take_le[of "snd b - length s1" s2]
          unfolding anchor_def g(4) by auto
      qed
      show "k = t \<Longrightarrow> t = ?n \<and> gb_gap_end gb \<le> rt"
        using t(3) g by (auto simp: rt_def t_def split: if_splits)
      show "rt = (case to of None \<Rightarrow> length (gb_data gb) | Some x \<Rightarrow> x)"
        by (auto simp: to_def rt_def les_ns)
    qed simp
    then show ?thesis
      unfolding bs b_def[symmetric] to_def[symmetric] Let_def using False
      by (auto simp: case_prod_unfold b_def to_def)
  qed
qed


theorem offset_char_to_raw_byte_correct:
  assumes rel: "gb_rel gb s1 s2" and ra: "anchor (gb_gap gb) s1 s2 ra a"
    and k: "a \<le> k" "k \<le> length (s1 @ s2)"
  obtains gb' where "offset_char_to_raw_byte gb k ra a = Some (raw_pos (gb_gap gb) s1 s2 k, gb')"
    "gb_rel gb' s1 s2" "same_but_cache gb gb'"
proof -
  let ?v = "raw_pos (gb_gap gb) s1 s2 k"
  obtain g :: "u8 list" where g: "gb_gap_start gb = blen s1" "gb_gap gb = length g"
    "gb_n_chars gb = length s1 + length s2"
    "\<And>k v. gb_cache gb k = Some v \<Longrightarrow> v = raw_pos (length g) s1 s2 k"
    by (rule gb_relE[OF rel]) blast
  have "offset_char_to_raw_byte gb k ra a = Some (?v, gb) \<or>
        offset_char_to_raw_byte gb k ra a = Some (?v, cache_insert gb k ?v)"
  proof (cases "gb_cache gb k")
    case (Some v)
    then show ?thesis using g by (simp add: offset_char_to_raw_byte_def cache_get_def)
  next
    case None
    consider (empty) "s1 @ s2 = []" | (last) "s1 @ s2 \<noteq> []" "gb_line_endings gb = []"
        "k = length (s1 @ s2) - 1"
      | (search) "s1 @ s2 \<noteq> []" "\<not> (gb_line_endings gb = [] \<and> k = length (s1 @ s2) - 1)"
      by blast
    then show ?thesis
    proof cases
      case empty
      then show ?thesis using g k None
        by (simp add: offset_char_to_raw_byte_def cache_get_def raw_pos_def)
    next
      case last
      then have "gb_n_chars gb \<noteq> 0" "len_chars gb - 1 = k" using g by (auto simp: len_chars_def)
      then show ?thesis
        using None last last_char_to_raw_byte_correct[OF rel last(1)]
        by (simp add: offset_char_to_raw_byte_def cache_get_def)
    next
      case search
      then have nz: "(gb_n_chars gb = 0) = False"
        "(gb_line_endings gb = [] \<and> k = len_chars gb - 1) = False"
        using g by (auto simp: len_chars_def)
      define les where "les =
        drop (partition_point (\<lambda>(b, _). b < ra) (gb_line_endings gb)) (gb_line_endings gb)"
      note search_eq = offset_char_to_raw_byte_search[OF rel ra k search(1) les_def]
      show ?thesis
      proof (cases "binary_search_by_char k les")
        case (Inl i)
        then show ?thesis using search_eq
          unfolding offset_char_to_raw_byte_def cache_get_def None option.case nz if_False
          by (simp add: Let_def flip: les_def)
      next
        case (Inr i)
        obtain b c where bc: "(if 0 < i then les ! (i - 1) else (ra, a)) = (b, c)" by fastforce
        have "scan_to_raw_byte gb k b c (if i < length les then Some (fst (les ! i)) else None) =
            Some ?v"
          using search_eq by (simp only: Inr sum.case bc prod.case Let_def)
        then show ?thesis
          unfolding offset_char_to_raw_byte_def cache_get_def None option.case nz if_False
            les_def[symmetric] Let_def Inr sum.case bc prod.case by simp
      qed
    qed
  qed
  then show thesis
    using that rel gb_rel_cache_insert[OF rel refl, of k] by (metis same_but_cache_refl)
qed

lemma char_to_raw_byte_correct:
  assumes "gb_rel gb s1 s2" "k \<le> length (s1 @ s2)"
  obtains gb' where "char_to_raw_byte gb k = Some (raw_pos (gb_gap gb) s1 s2 k, gb')"
    "gb_rel gb' s1 s2" "same_but_cache gb gb'"
  unfolding char_to_raw_byte_def
  by (rule offset_char_to_raw_byte_correct[OF assms(1) anchor_0 _ assms(2)]) auto

lemma offset_char_to_byte_correct:
  assumes "gb_rel gb s1 s2" "anchor (gb_gap gb) s1 s2 ra a" "a \<le> k" "k \<le> length (s1 @ s2)"
  obtains gb' where "offset_char_to_byte gb k ra a = Some (blen (take k (s1 @ s2)), gb')"
    "gb_rel gb' s1 s2" "same_but_cache gb gb'"
proof -
  obtain gb' where gb': "offset_char_to_raw_byte gb k ra a = Some (raw_pos (gb_gap gb) s1 s2 k, gb')"
    "gb_rel gb' s1 s2" "same_but_cache gb gb'"
    by (rule offset_char_to_raw_byte_correct[OF assms])
  have "gb_gap gb' = gb_gap gb" using same_but_cache_simps[OF gb'(3)] by simp
  then show thesis
    using that[of gb'] gb' raw_byte_to_byte_raw_pos[OF gb'(2), of k]
    by (simp add: offset_char_to_byte_def del: take_append)
qed

lemma char_to_byte_correct:
  assumes "gb_rel gb s1 s2" "k \<le> length (s1 @ s2)"
  obtains gb' where "char_to_byte gb k = Some (blen (take k (s1 @ s2)), gb')"
    "gb_rel gb' s1 s2" "same_but_cache gb gb'"
  unfolding char_to_byte_def
  by (rule offset_char_to_byte_correct[OF assms(1) anchor_0 _ assms(2)]) auto


subsection \<open>Moving the gap\<close>

lemma clamp_gap_size_bounds:
  "MIN_GAP_GROW \<le> m \<Longrightarrow> MIN_GAP_GROW \<le> clamp_gap_size len m"
  "clamp_gap_size len m \<le> MAX_GAP_GROW"
  by (auto simp: clamp_gap_size_def)

lemma copy_within_left:
  "copy_within (a @ b @ g @ c) (length a) (length a + length b) (length a + length g) =
     Some (a @ take (length g) (b @ g) @ b @ c)"
  by (simp add: copy_within_def min_def add.commute)

lemma copy_within_right:
  "copy_within (a @ g @ b @ c) (length a + length g) (length a + length g + length b) (length a) =
     Some (a @ b @ drop (length b) (g @ b) @ c)"
  by (simp add: copy_within_def min_def add.commute add.left_commute)

text \<open>
  What the gap's bytes become does not matter; the two \<open>copy_within\<close> facts say where the
  text goes. The table of line endings is shifted exactly on the part that crosses the gap.
\<close>

lemma move_gap_to_left:
  assumes rel: "gb_rel gb (a @ b) c" and ne: "b \<noteq> []"
  obtains gb' where "move_gap_to gb (blen a) = Some gb'" "gb_rel gb' a (b @ c)"
    "gb_gap gb' = gb_gap gb" "gb_next_gap gb' = gb_next_gap gb" "gb_cache gb' = Map.empty"
proof -
  obtain g :: "u8 list" where g: "gb_data gb = utf8 (a @ b) @ g @ utf8 c"
    "gb_gap_start gb = blen (a @ b)" "gb_gap_end gb = blen (a @ b) + length g" "gb_gap gb = length g"
    "gb_cap gb = blen (a @ b) + length g + blen c" "gb_len gb = blen (a @ b) + blen c"
    "MIN_GAP \<le> length g" "MIN_GAP_GROW \<le> gb_next_gap gb"
    "gb_n_chars gb = length (a @ b) + length c"
    "gb_line_endings gb =
       line_ends 0 0 (a @ b) @ line_ends (blen (a @ b) + length g) (length (a @ b)) c"
    "str_ok (a @ b)" "str_ok c"
    by (rule gb_relE[OF rel]) blast
  have bpos: "0 < blen b" using ne by simp
  let ?la = "line_ends 0 0 a" and ?lb = "line_ends (blen a) (length a) b"
    and ?lc = "line_ends (blen a + blen b + length g) (length a + length b) c"
  have les: "gb_line_endings gb = ?la @ ?lb @ ?lc" using g(10) by simp
  have "partition_point (\<lambda>(x, _). x < blen a) (gb_line_endings gb) = length ?la"
    unfolding les
    by (rule partition_point_append) (auto intro!: line_ends_all)
  moreover have "partition_point (\<lambda>(x, _). x \<le> gb_gap_start gb) (gb_line_endings gb) =
      length ?la + length ?lb"
    unfolding les append_assoc[symmetric] g(2)
    by (subst partition_point_append) (use g(7) in \<open>auto intro!: line_ends_all\<close>)
  moreover have "map_range (\<lambda>(x, y). (x + length g, y)) (length ?la) (length ?la + length ?lb)
      (gb_line_endings gb) = ?la @ line_ends (blen a + length g) (length a) b @ ?lc"
    unfolding les map_range_middle line_ends_shift_bytes ..
  moreover have "copy_within (gb_data gb) (blen a) (gb_gap_start gb) (blen a + length g) =
      Some (utf8 a @ take (length g) (utf8 b @ g) @ utf8 b @ utf8 c)"
    using copy_within_left[of "utf8 a" "utf8 b" g "utf8 c"] g(1,2) by simp
  ultimately have eq: "move_gap_to gb (blen a) = Some (cache_clear (gb\<lparr>
      gb_data := utf8 a @ take (length g) (utf8 b @ g) @ utf8 b @ utf8 c,
      gb_gap_end := blen a + length g, gb_gap_start := blen a,
      gb_line_endings := ?la @ line_ends (blen a + length g) (length a) b @ ?lc\<rparr>))"
    using bpos g(2,4,6) by (simp add: move_gap_to_def Let_def)
  define g' where "g' = take (length g) (utf8 b @ g)"
  have g': "length g' = length g" by (simp add: g'_def)
  show thesis
  proof (rule that[OF eq[folded g'_def]], rule gb_relI[where g = g'])
  qed (use g g' in \<open>simp_all add: cache_clear_def gb_gap_def ac_simps\<close>)
qed

lemma move_gap_to_right:
  assumes rel: "gb_rel gb a (b @ c)" and ne: "b \<noteq> []"
  obtains gb' where "move_gap_to gb (blen (a @ b)) = Some gb'" "gb_rel gb' (a @ b) c"
    "gb_gap gb' = gb_gap gb" "gb_next_gap gb' = gb_next_gap gb" "gb_cache gb' = Map.empty"
proof -
  obtain g :: "u8 list" where g: "gb_data gb = utf8 a @ g @ utf8 (b @ c)"
    "gb_gap_start gb = blen a" "gb_gap_end gb = blen a + length g" "gb_gap gb = length g"
    "gb_cap gb = blen a + length g + blen (b @ c)" "gb_len gb = blen a + blen (b @ c)"
    "MIN_GAP \<le> length g" "MIN_GAP_GROW \<le> gb_next_gap gb"
    "gb_n_chars gb = length a + length (b @ c)"
    "gb_line_endings gb = line_ends 0 0 a @ line_ends (blen a + length g) (length a) (b @ c)"
    "str_ok a" "str_ok (b @ c)"
    by (rule gb_relE[OF rel]) blast
  have bpos: "0 < blen b" using ne by simp
  let ?la = "line_ends 0 0 a" and ?lb = "line_ends (blen a + length g) (length a) b"
    and ?lc = "line_ends (blen a + length g + blen b) (length a + length b) c"
  have les: "gb_line_endings gb = ?la @ ?lb @ ?lc" using g(10) by simp
  have "partition_point (\<lambda>(x, _). x < gb_gap_end gb) (gb_line_endings gb) = length ?la"
    unfolding les g(3)
    by (rule partition_point_append) (auto intro!: line_ends_all)
  moreover have "partition_point (\<lambda>(x, _). x < blen a + blen b + length g) (gb_line_endings gb) =
      length ?la + length ?lb"
    unfolding les append_assoc[symmetric]
    by (subst partition_point_append) (auto intro!: line_ends_all)
  moreover have "map_range (\<lambda>(x, y). (x - length g, y)) (length ?la) (length ?la + length ?lb)
      (gb_line_endings gb) = ?la @ line_ends (blen a) (length a) b @ ?lc"
    unfolding les map_range_middle by (simp add: line_ends_unshift_bytes)
  moreover have "copy_within (gb_data gb) (gb_gap_end gb) (blen a + blen b + length g) (blen a) =
      Some (utf8 a @ utf8 b @ drop (blen b) (g @ utf8 b) @ utf8 c)"
    using copy_within_right[of "utf8 a" g "utf8 b" "utf8 c"] g(1,3) by (simp add: ac_simps)
  ultimately have eq: "move_gap_to gb (blen (a @ b)) = Some (cache_clear (gb\<lparr>
      gb_data := utf8 a @ utf8 b @ drop (blen b) (g @ utf8 b) @ utf8 c,
      gb_gap_end := blen (a @ b) + length g, gb_gap_start := blen (a @ b),
      gb_line_endings := ?la @ line_ends (blen a) (length a) b @ ?lc\<rparr>))"
    using bpos g(2,4,6) by (simp add: move_gap_to_def Let_def)
  define g' where "g' = drop (blen b) (g @ utf8 b)"
  have g': "length g' = length g" by (simp add: g'_def)
  show thesis
  proof (rule that[OF eq[folded g'_def]], rule gb_relI[where g = g'])
  qed (use g g' in \<open>simp_all add: cache_clear_def gb_gap_def ac_simps\<close>)
qed

text \<open>Moving the gap to any character boundary keeps the text and every invariant.\<close>

theorem move_gap_to_correct:
  assumes rel: "gb_rel gb s1 s2" and k: "k \<le> length (s1 @ s2)"
  obtains gb' where "move_gap_to gb (blen (take k (s1 @ s2))) = Some gb'"
    "gb_rel gb' (take k (s1 @ s2)) (drop k (s1 @ s2))"
    "gb_gap gb' = gb_gap gb" "gb_next_gap gb' = gb_next_gap gb"
    "gb_cache gb' = Map.empty \<or> (k = length s1 \<and> gb' = gb)"
proof -
  consider (L) "k < length s1" | (E) "k = length s1" | (R) "length s1 < k" by linarith
  then show thesis
  proof cases
    case L
    have *: "gb_rel gb (take k s1 @ drop k s1) s2" "drop k s1 \<noteq> []" using rel L by simp_all
    show thesis by (rule move_gap_to_left[OF *], rule that) (use L in simp_all)
  next
    case E
    obtain g :: "u8 list" where "gb_gap_start gb = blen s1" "gb_len gb = blen s1 + blen s2"
      by (rule gb_relE[OF rel]) blast
    then have "move_gap_to gb (blen s1) = Some gb" by (simp add: move_gap_to_def)
    then show thesis using that[of gb] rel E by simp
  next
    case R
    let ?j = "k - length s1"
    have *: "gb_rel gb s1 (take ?j s2 @ drop ?j s2)" "take ?j s2 \<noteq> []" using rel R k by auto
    show thesis by (rule move_gap_to_right[OF *], rule that) (use R in simp_all)
  qed
qed

end
