(* ===== verification/GapEdit.thy ===== *)
theory GapEdit
  imports GapIndex
begin

subsection \<open>Growing the gap\<close>

lemma pow2_from_ge: "0 < p \<Longrightarrow> n \<le> pow2_from p n"
proof (induction p n rule: pow2_from.induct)
  case (1 p n)
  then show ?case by (subst pow2_from.simps) auto
qed

lemma next_power_of_two_ge: "n \<le> next_power_of_two n"
  by (simp add: next_power_of_two_def pow2_from_ge)

lemma grow_gap_correct:
  assumes rel: "gb_rel gb s1 s2"
  obtains gb' where "grow_gap gb n = Some gb'" "gb_rel gb' s1 s2"
    "gb_gap gb + n + MIN_GAP_GROW \<le> gb_gap gb'"
proof -
  obtain g :: "u8 list" where g: "gb_data gb = utf8 s1 @ g @ utf8 s2"
    "gb_gap_start gb = blen s1" "gb_gap_end gb = blen s1 + length g" "gb_gap gb = length g"
    "gb_cap gb = blen s1 + length g + blen s2" "gb_len gb = blen s1 + blen s2"
    "MIN_GAP \<le> length g" "MIN_GAP_GROW \<le> gb_next_gap gb" "gb_n_chars gb = length s1 + length s2"
    "gb_line_endings gb = line_ends 0 0 s1 @ line_ends (blen s1 + length g) (length s1) s2"
    "str_ok s1" "str_ok s2"
    by (rule gb_relE[OF rel]) blast
  define m where "m = (if gb_next_gap gb \<le> n
    then clamp_gap_size (gb_len gb + n) (next_power_of_two n) else gb_next_gap gb)"
  have m: "MIN_GAP_GROW \<le> m"
    using g(8) next_power_of_two_ge[of n]
    by (auto simp: m_def intro!: clamp_gap_size_bounds(1))
  have pre: "subslice (gb_data gb) 0 (gb_gap_start gb) = Some (utf8 s1)"
    and post: "subslice (gb_data gb) (gb_gap_end gb) (length (gb_data gb)) = Some (utf8 s2)"
    using g(1-3) by (simp_all add: subslice_def)
  let ?la = "line_ends 0 0 s1" and ?lb = "line_ends (blen s1 + length g) (length s1) s2"
  have pp: "partition_point (\<lambda>(x, _). x \<le> gb_gap_start gb) (?la @ ?lb) = length ?la"
    unfolding g(2) by (rule partition_point_append) (use g(7) in \<open>auto intro!: line_ends_all\<close>)
  have mr: "map_range (\<lambda>(b, c). (b + (m + n), c)) (length ?la) (length (?la @ ?lb)) (?la @ ?lb) =
      ?la @ line_ends (blen s1 + length g + (m + n)) (length s1) s2"
    unfolding length_append map_range_from line_ends_shift_bytes ..
  define g' where "g' = replicate (m + gb_gap gb + n) (0 :: u8)"
  have g': "length g' = length g + (m + n)" by (simp add: g'_def g(4))
  have eq: "grow_gap gb n = Some (cache_clear (gb\<lparr>
      gb_line_endings := ?la @ line_ends (blen s1 + length g + (m + n)) (length s1) s2,
      gb_next_gap := clamp_gap_size (gb_len gb) (m * 2),
      gb_data := utf8 s1 @ g' @ utf8 s2,
      gb_gap_end := gb_gap_end gb + (m + n),
      gb_cap := gb_cap gb + m + n\<rparr>))"
    unfolding grow_gap_def m_def[symmetric] Let_def pp pre post Option.bind.bind_lunit g'_def[symmetric]
      g(10) mr ..
  show thesis
  proof (rule that[OF eq], rule gb_relI[where g = g'])
    have "MIN_GAP_GROW \<le> clamp_gap_size (gb_len gb) (m * 2)"
      by (rule clamp_gap_size_bounds) (use m in simp)
    then show "MIN_GAP_GROW \<le> gb_next_gap (cache_clear (gb\<lparr>
      gb_line_endings := ?la @ line_ends (blen s1 + length g + (m + n)) (length s1) s2,
      gb_next_gap := clamp_gap_size (gb_len gb) (m * 2),
      gb_data := utf8 s1 @ g' @ utf8 s2,
      gb_gap_end := gb_gap_end gb + (m + n),
      gb_cap := gb_cap gb + m + n\<rparr>))" by (simp add: cache_clear_def)
  qed (use g g' m in \<open>simp_all add: cache_clear_def gb_gap_def add.assoc\<close>)
qed

text \<open>After the growth test of the two insertions the gap holds the new text and \<open>MIN_GAP\<close>.\<close>

lemma ensure_gap:
  assumes rel: "gb_rel gb s1 s2"
  obtains gb' where
    "(if gb_gap gb - n < MIN_GAP then grow_gap gb n else Some gb) = Some gb'"
    "gb_rel gb' s1 s2" "n + MIN_GAP \<le> gb_gap gb'"
proof (cases "gb_gap gb - n < MIN_GAP")
  case True
  obtain gb' where "grow_gap gb n = Some gb'" "gb_rel gb' s1 s2"
    "gb_gap gb + n + MIN_GAP_GROW \<le> gb_gap gb'"
    by (rule grow_gap_correct[OF rel])
  then show thesis using that[of gb'] True by simp
next
  case False
  then show thesis using that[of gb] rel by simp
qed

subsection \<open>Insertion\<close>

lemma write_at_gap:
  assumes rel: "gb_rel gb p q" and s: "str_ok s" and room: "blen s + MIN_GAP \<le> gb_gap gb"
  obtains data where "copy_from_slice (gb_data gb) (gb_gap_start gb) (utf8 s) = Some data"
    "gb_rel (cache_clear (add_line_endings
       (gb\<lparr>gb_data := data, gb_gap_start := gb_gap_start gb + blen s,
           gb_n_chars := gb_n_chars gb + length s\<rparr>)
       (blen p) (length s) (line_ends (blen p) (length p) s))) (p @ s) q"
proof -
  obtain g :: "u8 list" where g: "gb_data gb = utf8 p @ g @ utf8 q"
    "gb_gap_start gb = blen p" "gb_gap_end gb = blen p + length g" "gb_gap gb = length g"
    "gb_cap gb = blen p + length g + blen q"
    "MIN_GAP_GROW \<le> gb_next_gap gb" "gb_n_chars gb = length p + length q"
    "gb_line_endings gb = line_ends 0 0 p @ line_ends (blen p + length g) (length p) q"
    "str_ok p" "str_ok q"
    by (rule gb_relE[OF rel]) blast
  let ?g = "drop (blen s) g"
  have data: "copy_from_slice (gb_data gb) (gb_gap_start gb) (utf8 s) =
      Some (utf8 (p @ s) @ ?g @ utf8 q)"
    using g(1,2,4) room by (simp add: copy_from_slice_def add.commute)
  let ?la = "line_ends 0 0 p" and ?lb = "line_ends (blen p + length g) (length p) q"
  have pp: "partition_point (\<lambda>(x, _). x < blen p) (?la @ ?lb) = length ?la"
    by (rule partition_point_append) (auto intro!: line_ends_all)
  have mr: "map_range (\<lambda>(b, c). (b, c + length s)) (length ?la) (length (?la @ ?lb)) (?la @ ?lb) =
      ?la @ line_ends (blen p + length g) (length p + length s) q"
    unfolding length_append map_range_from line_ends_shift_chars ..
  show thesis
  proof (rule that[OF data], rule gb_relI[where g = ?g])
  qed (use g room s pp mr in \<open>simp_all add: cache_clear_def add_line_endings_def Let_def\<close>)
qed

theorem gb_insert_str_rel:
  assumes rel: "gb_rel gb s1 s2" and k: "k \<le> length (s1 @ s2)" and s: "str_ok s"
  shows "\<exists>gb'. gb_insert_str gb k s = Some gb' \<and>
           gb_rel gb' (take k (s1 @ s2) @ s) (drop k (s1 @ s2))"
proof -
  obtain gb1 where gb1: "(if gb_gap gb - blen s < MIN_GAP then grow_gap gb (blen s) else Some gb) =
      Some gb1" "gb_rel gb1 s1 s2" "blen s + MIN_GAP \<le> gb_gap gb1"
    by (rule ensure_gap[OF rel])
  obtain gb2 where gb2: "char_to_byte gb1 k = Some (blen (take k (s1 @ s2)), gb2)"
    "gb_rel gb2 s1 s2" "same_but_cache gb1 gb2"
    by (rule char_to_byte_correct[OF gb1(2) k])
  obtain gb3 where gb3: "move_gap_to gb2 (blen (take k (s1 @ s2))) = Some gb3"
    "gb_rel gb3 (take k (s1 @ s2)) (drop k (s1 @ s2))" "gb_gap gb3 = gb_gap gb2"
    by (rule move_gap_to_correct[OF gb2(2) k])
  have room: "blen s + MIN_GAP \<le> gb_gap gb3"
    using gb1(3) gb3(3) same_but_cache_simps[OF gb2(3)] by simp
  have len: "length (take k (s1 @ s2)) = k" using k by simp
  note ends = new_endings_eq[of "blen (take k (s1 @ s2))" k 0 0 s, unfolded add_0_right]
  show ?thesis
    by (rule write_at_gap[OF gb3(2) s room])
       (simp add: gb_insert_str_def Let_def gb1(1) gb2(1) gb3(1) ends len
          del: take_append drop_append length_take)
qed

theorem gb_insert_char_rel:
  assumes rel: "gb_rel gb s1 s2" and k: "k \<le> length (s1 @ s2)" and c: "uchar_ok c"
  shows "\<exists>gb'. gb_insert_char gb k c = Some gb' \<and>
           gb_rel gb' (take k (s1 @ s2) @ [c]) (drop k (s1 @ s2))"
proof -
  let ?n = "len_utf8 c"
  obtain gb1 where gb1: "(if gb_gap gb - ?n < MIN_GAP then grow_gap gb ?n else Some gb) =
      Some gb1" "gb_rel gb1 s1 s2" "?n + MIN_GAP \<le> gb_gap gb1"
    by (rule ensure_gap[OF rel])
  obtain gb2 where gb2: "char_to_byte gb1 k = Some (blen (take k (s1 @ s2)), gb2)"
    "gb_rel gb2 s1 s2" "same_but_cache gb1 gb2"
    by (rule char_to_byte_correct[OF gb1(2) k])
  obtain gb3 where gb3: "move_gap_to gb2 (blen (take k (s1 @ s2))) = Some gb3"
    "gb_rel gb3 (take k (s1 @ s2)) (drop k (s1 @ s2))" "gb_gap gb3 = gb_gap gb2"
    by (rule move_gap_to_correct[OF gb2(2) k])
  have room: "blen [c] + MIN_GAP \<le> gb_gap gb3"
    using gb1(3) gb3(3) same_but_cache_simps[OF gb2(3)] by simp
  have len: "length (take k (s1 @ s2)) = k" using k by simp
  have ok: "str_ok [c]" using c by simp
  show ?thesis
    by (rule write_at_gap[OF gb3(2) ok room])
       (simp add: gb_insert_char_def Let_def gb1(1) gb2(1) gb3(1) len
          del: take_append drop_append length_take)
qed

subsection \<open>Removal\<close>

lemma list_all_filter_id: "list_all P xs \<Longrightarrow> filter P xs = xs"
  by (induction xs) auto

lemma takeWhile_filter_prefix:
  "list_all P xs \<Longrightarrow> list_all (\<lambda>x. \<not> P x) ys \<Longrightarrow> filter P (xs @ ys) = xs"
  by (induction xs) (auto simp: list_all_iff)

text \<open>
  The table splits into the endings in front of the removed bytes, the ones inside and the
  ones behind; those inside go, those behind lose \<open>n\<close> characters.
\<close>

lemma remove_line_endings_split:
  assumes les: "filter (\<lambda>(b, _). b < gb_gap_start gb \<or> gb_gap_end gb \<le> b) (gb_line_endings gb) =
      A @ M @ Q"
    and A: "list_all (\<lambda>(b, _). b < f) A"
    and M: "list_all (\<lambda>(b, _). f \<le> b \<and> b < t) M"
    and Q: "list_all (\<lambda>(b, c). f \<le> b \<and> t \<le> b \<and> n \<le> c) Q" and ft: "f \<le> t"
  shows "remove_line_endings gb f t n =
    Some (gb\<lparr>gb_line_endings := A @ map (\<lambda>(b, c). (b, c - n)) Q\<rparr>)"
proof (cases "M @ Q = []")
  case True
  then have "A = [] \<or> fst (last A) < f" using A by (cases A rule: rev_cases) auto
  then show ?thesis using les True by (simp add: remove_line_endings_def Let_def)
next
  case False
  have "fst (last (A @ M @ Q)) = fst (last (M @ Q))" using False by (simp add: last_append)
  moreover have "last (M @ Q) \<in> set (M @ Q)" using False by (rule last_in_set)
  ultimately have guard: "\<not> (A @ M @ Q = [] \<or> fst (last (A @ M @ Q)) < f)"
    using False M Q by (auto simp: list_all_iff leD)
  have pf: "partition_point (\<lambda>(b, _). b < f) (A @ M @ Q) = length A"
    by (rule partition_point_append) (use A M Q in \<open>auto simp: list_all_iff\<close>)
  have pt: "partition_point (\<lambda>(b, _). b < t) (A @ M @ Q) = length A + length M"
    unfolding append_assoc[symmetric] length_append[symmetric]
    by (rule partition_point_append) (use A M Q ft in \<open>auto simp: list_all_iff\<close>)
  have mr: "map_range (\<lambda>(b, c). (b, c - n)) (length A) (length (A @ Q)) (A @ Q) =
      A @ map (\<lambda>(b, c). (b, c - n)) Q"
    unfolding length_append map_range_from ..
  have Qn: "list_all (\<lambda>(_, c). n \<le> c) Q" using Q by (auto simp: list_all_iff)
  show ?thesis
  proof (cases "M = []")
    case True
    then obtain b c Q' where Q': "Q = (b, c) # Q'" using False by (cases Q) auto
    then have "nth_opt (A @ Q) (length A) = Some (b, c)" "\<not> b < t" using Q
      by (auto simp: nth_opt_def)
    then show ?thesis
      unfolding remove_line_endings_def les Let_def if_not_P[OF guard] pf pt
      using True Qn mr by simp
  next
    case ne: False
    then show ?thesis
      unfolding remove_line_endings_def les Let_def if_not_P[OF guard] pf pt
      using Qn mr by simp
  qed
qed

lemma gb_remove_range_split:
  assumes rel: "gb_rel gb s1 s2" and s: "s1 @ s2 = p @ m @ q" and ne: "m \<noteq> []"
    and i: "i = length p" and j: "j = length p + length m"
  shows "\<exists>gb'. gb_remove_range gb i j = Some gb' \<and> gb_rel gb' p q"
proof -
  have mpos: "0 < blen m" using ne by simp
  have ij: "i < j" "i \<le> length (s1 @ s2)" "j \<le> length (s1 @ s2)" unfolding s i j using ne by auto
  have take_i: "take i (s1 @ s2) = p" and drop_i: "drop i (s1 @ s2) = m @ q"
    and take_j: "take j (s1 @ s2) = p @ m"
    unfolding s i j by simp_all
  obtain gb1 where gb1: "char_to_raw_byte gb i = Some (raw_pos (gb_gap gb) s1 s2 i, gb1)"
    "gb_rel gb1 s1 s2" "same_but_cache gb gb1"
    by (rule char_to_raw_byte_correct[OF rel ij(2)])
  have gap1: "gb_gap gb1 = gb_gap gb" using same_but_cache_simps[OF gb1(3)] by simp
  have from1: "raw_byte_to_byte gb1 (raw_pos (gb_gap gb) s1 s2 i) = Some (blen p)"
    using raw_byte_to_byte_raw_pos[OF gb1(2), of i] unfolding gap1 take_i .
  have anch: "anchor (gb_gap gb1) s1 s2 (raw_pos (gb_gap gb) s1 s2 i) i"
    unfolding gap1 by (rule anchor_raw_pos[OF ij(2)])
  obtain gb2 where gb2: "offset_char_to_byte gb1 j (raw_pos (gb_gap gb) s1 s2 i) i =
      Some (blen (p @ m), gb2)" "gb_rel gb2 s1 s2"
    by (rule offset_char_to_byte_correct[OF gb1(2) anch _ ij(3), unfolded take_j])
       (use ij in auto)
  obtain gb3 where gb3: "move_gap_to gb2 (blen p) = Some gb3" "gb_rel gb3 p (m @ q)"
    by (rule move_gap_to_correct[OF gb2(2) ij(2), unfolded take_i drop_i])
  obtain g :: "u8 list" where g: "gb_data gb3 = utf8 p @ g @ utf8 (m @ q)"
    "gb_gap_start gb3 = blen p" "gb_gap_end gb3 = blen p + length g" "gb_gap gb3 = length g"
    "gb_cap gb3 = blen p + length g + blen (m @ q)" "MIN_GAP \<le> length g"
    "MIN_GAP_GROW \<le> gb_next_gap gb3" "gb_n_chars gb3 = length p + length (m @ q)"
    "gb_line_endings gb3 = line_ends 0 0 p @ line_ends (blen p + length g) (length p) (m @ q)"
    "str_ok p" "str_ok (m @ q)"
    by (rule gb_relE[OF gb3(2)]) blast
  have raw_to: "byte_to_raw_byte gb3 (blen (p @ m)) = blen p + length g + blen m"
    using mpos g(2,4) by (simp add: byte_to_raw_byte_def)
  let ?A = "line_ends 0 0 p" and ?M = "line_ends (blen p + length g) i m"
    and ?Q = "line_ends (blen p + length g + blen m) j q"
  have les: "gb_line_endings gb3 = ?A @ ?M @ ?Q" using g(9) by (simp add: i j)
  have "list_all (\<lambda>(b, _). b < gb_gap_start gb3 \<or> gb_gap_end gb3 \<le> b) (?A @ ?M @ ?Q)"
    unfolding list_all_append g(2,3) by (auto intro!: line_ends_all)
  then have flt: "filter (\<lambda>(b, _). b < gb_gap_start gb3 \<or> gb_gap_end gb3 \<le> b)
      (gb_line_endings gb3) = ?A @ ?M @ ?Q"
    unfolding les by (rule list_all_filter_id)
  have Q: "map (\<lambda>(b, c). (b, c - length m)) ?Q = line_ends (blen p + length g + blen m) i q"
    by (subst line_ends_unshift_chars) (auto simp: i j)
  have rle: "remove_line_endings gb3 (blen p) (blen p + length g + blen m) (length m) =
      Some (gb3\<lparr>gb_line_endings := ?A @ line_ends (blen p + length g + blen m) i q\<rparr>)"
    unfolding Q[symmetric]
    by (rule remove_line_endings_split[OF flt]) (auto intro!: line_ends_all simp: j)
  have n: "usub (gb_n_chars gb3) (length m) = Some (length p + length q)"
    using g(8) by (simp add: usub_def)
  have nb: "usub (blen (p @ m)) (blen p) = Some (blen m)" by (simp add: usub_def)
  have nm: "j - i = length m" by (simp add: i j)
  define gb' where "gb' = cache_clear (gb3\<lparr>
    gb_line_endings := ?A @ line_ends (blen p + length g + blen m) i q,
    gb_gap_end := gb_gap_end gb3 + blen m, gb_n_chars := length p + length q\<rparr>)"
  have "gb_remove_range gb i j = Some gb'"
    using ij(1) by (simp add: gb_remove_range_def gb1(1) from1 gb2(1) gb3(1) raw_to nm rle n nb
        gb'_def del: utf8_simps(3) length_append)
  moreover have "gb_rel gb' p q"
    unfolding gb'_def
    by (rule gb_relI[where g = "g @ utf8 m"]) (use g i in \<open>simp_all add: cache_clear_def add.assoc\<close>)
  ultimately show ?thesis by blast
qed

theorem gb_remove_range_rel:
  assumes rel: "gb_rel gb s1 s2" and ij: "i \<le> j" "j \<le> length (s1 @ s2)"
  shows "\<exists>gb' t1 t2. gb_remove_range gb i j = Some gb' \<and> gb_rel gb' t1 t2 \<and>
           t1 @ t2 = take i (s1 @ s2) @ drop j (s1 @ s2)"
proof (cases "i = j")
  case True
  then have "gb_remove_range gb i j = Some gb" "s1 @ s2 = take i (s1 @ s2) @ drop j (s1 @ s2)"
    by (simp add: gb_remove_range_def) (simp only: True append_take_drop_id)
  then show ?thesis using rel by blast
next
  case False
  let ?s = "s1 @ s2"
  have "?s = take i ?s @ drop i (take j ?s) @ drop j ?s"
    using ij(1) by (metis append_assoc append_take_drop_id min.absorb1 take_take)
  from gb_remove_range_split[OF rel this, of i j] False ij show ?thesis
    by (auto simp del: take_append drop_append)
qed

lemma decode_at_raw_pos:
  assumes rel: "gb_rel gb s1 s2" and k: "k < length (s1 @ s2)"
  shows "decode_char_at (raw_pos (gb_gap gb) s1 s2 k) (gb_data gb) = Some ((s1 @ s2) ! k)"
proof -
  obtain g :: "u8 list" where g: "gb_data gb = utf8 s1 @ g @ utf8 s2" "gb_gap gb = length g"
    "str_ok s1" "str_ok s2"
    by (rule gb_relE[OF rel]) blast
  show ?thesis
  proof (cases "k < length s1")
    case True
    have "utf8 s1 = utf8 (take k s1) @ encode_utf8 (s1 ! k) @ utf8 (drop (Suc k) s1)"
      using id_take_nth_drop[OF True] by (metis utf8_simps(2,3))
    then have "gb_data gb = utf8 (take k s1) @ encode_utf8 (s1 ! k) @
        utf8 (drop (Suc k) s1) @ g @ utf8 s2"
      using g(1) by simp
    moreover have "raw_pos (gb_gap gb) s1 s2 k = blen (take k s1)"
      using True by (auto simp: raw_pos_def)
    ultimately show ?thesis
      using decode_char_at_encode[OF str_ok_nth[OF g(3) True]] True by (simp add: nth_append)
  next
    case False
    then have lt: "k - length s1 < length s2" using k by simp
    let ?j = "k - length s1"
    have "utf8 s2 = utf8 (take ?j s2) @ encode_utf8 (s2 ! ?j) @ utf8 (drop (Suc ?j) s2)"
      using id_take_nth_drop[OF lt] by (metis utf8_simps(2,3))
    then have eq: "gb_data gb = (utf8 s1 @ g @ utf8 (take ?j s2)) @ encode_utf8 (s2 ! ?j) @
        utf8 (drop (Suc ?j) s2)"
      using g(1) by simp
    have "raw_pos (gb_gap gb) s1 s2 k = length (utf8 s1 @ g @ utf8 (take ?j s2))"
      using False g(2) k by (auto simp: raw_pos_def)
    then show ?thesis
      unfolding eq using decode_char_at_encode[OF str_ok_nth[OF g(4) lt]] False
      by (simp add: nth_append)
  qed
qed

theorem gb_remove_char_rel:
  assumes rel: "gb_rel gb s1 s2" and k: "k < length (s1 @ s2)"
  shows "\<exists>gb'. gb_remove_char gb k = Some gb' \<and>
           gb_rel gb' (take k (s1 @ s2)) (drop (Suc k) (s1 @ s2))"
proof -
  define p x q where "p = take k (s1 @ s2)" and "x = (s1 @ s2) ! k" and "q = drop (Suc k) (s1 @ s2)"
  have s: "s1 @ s2 = p @ x # q" unfolding p_def x_def q_def by (rule id_take_nth_drop[OF k])
  have lp: "length p = k" using k by (simp add: p_def)
  have take_k: "take k (s1 @ s2) = p" and drop_k: "drop k (s1 @ s2) = x # q"
    unfolding s using lp by simp_all
  have kle: "k \<le> length (s1 @ s2)" using k by simp
  obtain gb1 where gb1: "char_to_raw_byte gb k = Some (raw_pos (gb_gap gb) s1 s2 k, gb1)"
    "gb_rel gb1 s1 s2" "same_but_cache gb gb1"
    by (rule char_to_raw_byte_correct[OF rel kle])
  have gap1: "gb_gap gb1 = gb_gap gb" using same_but_cache_simps[OF gb1(3)] by simp
  have idx: "raw_byte_to_byte gb1 (raw_pos (gb_gap gb) s1 s2 k) = Some (blen p)"
    using raw_byte_to_byte_raw_pos[OF gb1(2), of k] unfolding gap1 take_k .
  have cl: "char_len gb1 (raw_pos (gb_gap gb) s1 s2 k) = Some (len_utf8 x)"
    using decode_at_raw_pos[OF gb1(2) k] by (simp add: char_len_def gap1 x_def)
  obtain gb2 where gb2: "move_gap_to gb1 (blen p) = Some gb2" "gb_rel gb2 p (x # q)"
    "gb_cache gb2 = Map.empty \<or> (k = length s1 \<and> gb2 = gb1)"
    by (rule move_gap_to_correct[OF gb1(2) kle, unfolded take_k drop_k])
  obtain gb3 where gb3:
    "(if blen p \<noteq> gb_gap_start gb1 then move_gap_to gb1 (blen p) else Some (cache_clear gb1)) =
       Some gb3" "gb_rel gb3 p (x # q)"
  proof (cases "blen p = gb_gap_start gb1")
    case True
    then have "move_gap_to gb1 (blen p) = Some gb1" using gb2(1)
      by (auto simp: move_gap_to_def Let_def bind_eq_Some_conv split: if_splits)
    then show thesis using that True gb2 gb_rel_cache_clear by auto
  qed (use that gb2 in auto)
  obtain g :: "u8 list" where g: "gb_data gb3 = utf8 p @ g @ utf8 (x # q)"
    "gb_gap_start gb3 = blen p" "gb_gap_end gb3 = blen p + length g" "gb_gap gb3 = length g"
    "gb_cap gb3 = blen p + length g + blen (x # q)" "MIN_GAP \<le> length g"
    "MIN_GAP_GROW \<le> gb_next_gap gb3" "gb_n_chars gb3 = length p + length (x # q)"
    "gb_line_endings gb3 = line_ends 0 0 p @ line_ends (blen p + length g) (length p) (x # q)"
    "str_ok p" "str_ok (x # q)"
    by (rule gb_relE[OF gb3(2)]) blast
  define gb4 where "gb4 = gb3\<lparr>gb_gap_end := gb_gap_end gb3 + len_utf8 x,
    gb_n_chars := length p + length q\<rparr>"
  let ?A = "line_ends 0 0 p" and ?M = "line_ends (blen p + length g) (length p) [x]"
    and ?Q = "line_ends (blen p + length g + len_utf8 x) (Suc (length p)) q"
  have "list_all (\<lambda>(b, _). b < blen p \<or> blen p + length g + len_utf8 x \<le> b) (?A @ ?Q)"
    unfolding list_all_append by (auto intro!: line_ends_all)
  then have "filter (\<lambda>(b, _). b < blen p \<or> blen p + length g + len_utf8 x \<le> b) (?A @ ?M @ ?Q) =
      ?A @ ?Q"
    using len_utf8_bounds(3)[of x] by (auto simp: list_all_filter_id)
  then have flt: "filter (\<lambda>(b, _). b < gb_gap_start gb4 \<or> gb_gap_end gb4 \<le> b)
      (gb_line_endings gb4) = ?A @ [] @ ?Q"
    using g(2,3,9) by (simp add: gb4_def)
  have Q: "map (\<lambda>(b, c). (b, c - 1)) ?Q =
      line_ends (blen p + length g + len_utf8 x) (length p) q"
    by (subst line_ends_unshift_chars) auto
  have rle: "remove_line_endings gb4 (blen p) (blen p + len_utf8 x) 1 = Some (gb4\<lparr>gb_line_endings
      := ?A @ line_ends (blen p + length g + len_utf8 x) (length p) q\<rparr>)"
    unfolding Q[symmetric]
    by (rule remove_line_endings_split[OF flt]) (auto intro!: line_ends_all)
  have n: "usub (gb_n_chars gb3) 1 = Some (length p + length q)" using g(8) by (simp add: usub_def)
  define gb' where "gb' = cache_clear (gb4\<lparr>gb_line_endings
      := ?A @ line_ends (blen p + length g + len_utf8 x) (length p) q\<rparr>)"
  have "gb_remove_char gb k = Some gb'"
    unfolding gb_remove_char_def gb1(1) Option.bind.bind_lunit prod.case idx cl gb3(1) n Let_def
      gb4_def[symmetric] rle gb'_def ..
  moreover have "gb_rel gb' p q"
    unfolding gb'_def gb4_def
    by (rule gb_relI[where g = "g @ encode_utf8 x"]) (use g in \<open>simp_all add: cache_clear_def add.assoc\<close>)
  ultimately show ?thesis unfolding take_k q_def[symmetric] by blast
qed

end
