(* ===== verification/GapRead.thy ===== *)
theory GapRead
  imports GapEdit
begin

subsection \<open>Slices as text\<close>

definition sl_as_strs :: "gb_slice \<Rightarrow> (ustr \<times> ustr) option" where
  "sl_as_strs s = do {
     l \<leftarrow> from_utf8 (sl_left s);
     r \<leftarrow> from_utf8 (sl_right s);
     Some (l, r)
   }"

definition sl_as_slices :: "gb_slice \<Rightarrow> u8 list \<times> u8 list" where
  "sl_as_slices s = (sl_left s, sl_right s)"

text \<open>\<open>Display for Slice\<close>\<close>

definition sl_to_string :: "gb_slice \<Rightarrow> ustr option" where
  "sl_to_string s = from_utf8 (sl_left s @ sl_right s)"

text \<open>\<open>From<Slice> for Cow<str>\<close>\<close>

definition sl_to_cow :: "gb_slice \<Rightarrow> ustr option" where
  "sl_to_cow s =
     (if sl_left s = [] then from_utf8 (sl_right s)
      else if sl_right s = [] then from_utf8 (sl_left s)
      else sl_to_string s)"

definition sl_eq_str :: "gb_slice \<Rightarrow> ustr \<Rightarrow> bool option" where
  "sl_eq_str s other = (let b = utf8 other in
     if length b \<noteq> length (sl_left s) + length (sl_right s) then Some False
     else do {
       l \<leftarrow> subslice b 0 (length (sl_left s));
       r \<leftarrow> subslice b (length (sl_left s)) (length b);
       Some (l = sl_left s \<and> r = sl_right s)
     })"

record slice_iter =
  si_inner :: gb_slice
  si_pos :: "bool option"

definition sl_slice_iter :: "gb_slice \<Rightarrow> slice_iter" where
  "sl_slice_iter s = \<lparr>si_inner = s, si_pos = Some False\<rparr>"

definition slice_iter_next :: "slice_iter \<Rightarrow> u8 list option \<times> slice_iter" where
  "slice_iter_next it =
     (case si_pos it of
        None \<Rightarrow> (None, it)
      | Some False \<Rightarrow> (Some (sl_left (si_inner it)), it\<lparr>si_pos := Some True\<rparr>)
      | Some True \<Rightarrow> (Some (sl_right (si_inner it)), it\<lparr>si_pos := None\<rparr>))"

text \<open>
  \<open>Iterator::collect\<close> over the three character iterators. An iterator over \<open>n\<close> bytes
  yields at most \<open>n\<close> characters, so \<open>n + 1\<close> calls of \<open>next\<close> see its end.
\<close>

primrec chars_collect :: "nat \<Rightarrow> chars \<Rightarrow> ustr option" where
  "chars_collect 0 it = None"
| "chars_collect (Suc n) it = do {
     (c, it) \<leftarrow> chars_next it;
     case c of None \<Rightarrow> Some []
     | Some ch \<Rightarrow> do { rest \<leftarrow> chars_collect n it; Some (ch # rest) }
   }"

primrec rev_chars_collect :: "nat \<Rightarrow> chars \<Rightarrow> ustr option" where
  "rev_chars_collect 0 it = None"
| "rev_chars_collect (Suc n) it = do {
     (c, it) \<leftarrow> rev_chars_next it;
     case c of None \<Rightarrow> Some []
     | Some ch \<Rightarrow> do { rest \<leftarrow> rev_chars_collect n it; Some (ch # rest) }
   }"

primrec idx_chars_collect :: "nat \<Rightarrow> idx_chars \<Rightarrow> (nat \<times> uchar) list option" where
  "idx_chars_collect 0 it = None"
| "idx_chars_collect (Suc n) it = do {
     (c, it) \<leftarrow> idx_chars_next it;
     case c of None \<Rightarrow> Some []
     | Some ic \<Rightarrow> do { rest \<leftarrow> idx_chars_collect n it; Some (ic # rest) }
   }"

definition sl_len_utf8 :: "gb_slice \<Rightarrow> nat option" where
  "sl_len_utf8 s = map_option length (chars_collect (Suc (sl_len s)) (slice_chars s))"

subsection \<open>Characters\<close>

definition gb_char :: "gap_buffer \<Rightarrow> nat \<Rightarrow> (uchar \<times> gap_buffer) option" where
  "gb_char gb char_idx = do {
     (byte_idx, gb) \<leftarrow> char_to_raw_byte gb char_idx;
     ch \<leftarrow> decode_char_at byte_idx (gb_data gb);
     Some (ch, gb)
   }"

definition gb_get_char :: "gap_buffer \<Rightarrow> nat \<Rightarrow> (uchar option \<times> gap_buffer) option" where
  "gb_get_char gb char_idx =
     (if char_idx < gb_n_chars gb
      then do { (ch, gb) \<leftarrow> gb_char gb char_idx; Some (Some ch, gb) }
      else Some (None, gb))"

definition gb_char_at :: "gap_buffer \<Rightarrow> nat \<Rightarrow> uchar option" where
  "gb_char_at gb byte_idx = decode_char_at (byte_to_raw_byte gb byte_idx) (gb_data gb)"

definition gb_get_char_at :: "gap_buffer \<Rightarrow> nat \<Rightarrow> uchar option option" where
  "gb_get_char_at gb byte_idx =
     (if byte_idx < gb_len gb then map_option Some (gb_char_at gb byte_idx) else Some None)"

subsection \<open>Lines\<close>

definition len_lines :: "gap_buffer \<Rightarrow> nat option" where
  "len_lines gb =
     (let les = gb_line_endings gb; n = length les in
      if les = [] then Some 1
      else do {
        let raw_idx = fst (last les);
        byte_idx \<leftarrow> (if gb_gap_start gb < raw_idx then usub raw_idx (gb_gap_end gb) else Some raw_idx);
        Some (if byte_idx < gb_len gb then n + 1 else n)
      })"

definition line_end_byte :: "gap_buffer \<Rightarrow> nat \<Rightarrow> nat option" where
  "line_end_byte gb line_idx =
     (if line_idx < length (gb_line_endings gb)
      then raw_byte_to_byte gb (fst (gb_line_endings gb ! line_idx))
      else Some (gb_len gb))"

definition lines_before_byte_offset :: "gap_buffer \<Rightarrow> nat \<Rightarrow> nat" where
  "lines_before_byte_offset gb byte_offset =
     (let raw_offset = byte_to_raw_byte gb byte_offset
      in partition_point (\<lambda>(b, _). b < raw_offset) (gb_line_endings gb))"

definition gb_line :: "gap_buffer \<Rightarrow> nat \<Rightarrow> gb_slice option" where
  "gb_line gb line_idx = do {
     n \<leftarrow> len_lines gb;
     rust_assert (line_idx < n);
     let les = gb_line_endings gb;
     to \<leftarrow> (if line_idx < length les then do {
              let idx = fst (les ! line_idx);
              l \<leftarrow> char_len gb idx;
              Some (idx + l)
            } else Some (gb_cap gb));
     from \<leftarrow> (if line_idx = 0 then Some 0 else do {
                (idx, _) \<leftarrow> nth_opt les (line_idx - 1);
                Some (idx + 1)
              });
     if from = to then Some slice_NULL else slice_from_raw_offsets from to gb
   }"

definition line_is_blank :: "gap_buffer \<Rightarrow> nat \<Rightarrow> bool option" where
  "line_is_blank gb line_idx = do {
     sl \<leftarrow> gb_line gb line_idx;
     strs \<leftarrow> sl_as_strs sl;
     Some (strs = ([], []) \<or> strs = ([], [newline]) \<or> strs = ([newline], []))
   }"

definition line_len_chars :: "gap_buffer \<Rightarrow> nat \<Rightarrow> nat option" where
  "line_len_chars gb line_idx = do {
     n \<leftarrow> len_lines gb;
     rust_assert (line_idx < n);
     let les = gb_line_endings gb;
     if les = [] then Some (gb_n_chars gb)
     else do {
       let chars_to = (if line_idx < length les then snd (les ! line_idx) + 1 else gb_n_chars gb);
       chars_from \<leftarrow> (if line_idx = 0 then Some 0 else do {
                        (_, c) \<leftarrow> nth_opt les (line_idx - 1);
                        Some (c + 1)
                      });
       usub chars_to chars_from
     }
   }"

text \<open>\<open>iter_lines\<close>: the closure steps through the line indices until it reaches \<open>len_lines\<close>.\<close>

definition iter_lines :: "gap_buffer \<Rightarrow> gb_slice list option" where
  "iter_lines gb = do {
     n \<leftarrow> len_lines gb;
     those (map (gb_line gb) [0..<n])
   }"

definition maximal_slice_from_offset :: "gap_buffer \<Rightarrow> nat \<Rightarrow> u8 list option" where
  "maximal_slice_from_offset gb byte_offset =
     (if gb_len gb < byte_offset then Some []
      else let i = byte_to_raw_byte gb byte_offset in
        if i < gb_gap_start gb then subslice (gb_data gb) i (gb_gap_start gb)
        else if i = gb_gap_start gb
        then subslice (gb_data gb) (gb_gap_end gb) (length (gb_data gb))
        else subslice (gb_data gb) i (length (gb_data gb)))"

subsection \<open>Slices of the buffer\<close>

definition slice_from_byte_offsets :: "gap_buffer \<Rightarrow> nat \<Rightarrow> nat \<Rightarrow> gb_slice option" where
  "slice_from_byte_offsets gb byte_from byte_to =
     (if byte_from = byte_to then Some slice_NULL
      else slice_from_raw_offsets (byte_to_raw_byte gb byte_from) (byte_to_raw_byte gb byte_to) gb)"

definition gb_slice_chars :: "gap_buffer \<Rightarrow> nat \<Rightarrow> nat \<Rightarrow> (gb_slice \<times> gap_buffer) option" where
  "gb_slice_chars gb char_from char_to =
     (if char_from = char_to then Some (slice_NULL, gb)
      else do {
        (byte_from, gb) \<leftarrow> char_to_raw_byte gb char_from;
        (byte_to, gb) \<leftarrow> offset_char_to_raw_byte gb char_to byte_from char_from;
        sl \<leftarrow> slice_from_raw_offsets byte_from byte_to gb;
        Some (sl, gb)
      })"

definition gb_as_slice :: "gap_buffer \<Rightarrow> (gb_slice \<times> gap_buffer) option" where
  "gb_as_slice gb = gb_slice_chars gb 0 (len_chars gb)"

definition gb_chars :: "gap_buffer \<Rightarrow> (chars \<times> gap_buffer) option" where
  "gb_chars gb = do { (sl, gb) \<leftarrow> gb_as_slice gb; Some (slice_chars sl, gb) }"

definition chars_in_raw_range :: "gap_buffer \<Rightarrow> nat \<Rightarrow> nat \<Rightarrow> nat option" where
  "chars_in_raw_range gb raw_from raw_to =
     (if raw_to \<le> gb_gap_start gb \<or> gb_gap_end gb \<le> raw_from then do {
        bs \<leftarrow> subslice (gb_data gb) raw_from raw_to;
        count_chars bs
      } else do {
        l \<leftarrow> subslice (gb_data gb) raw_from (gb_gap_start gb);
        n \<leftarrow> count_chars l;
        r \<leftarrow> subslice (gb_data gb) (gb_gap_end gb) raw_to;
        m \<leftarrow> count_chars r;
        Some (n + m)
      })"

subsection \<open>Characters, lines and bytes\<close>

definition try_char_to_line :: "gap_buffer \<Rightarrow> nat \<Rightarrow> nat option option" where
  "try_char_to_line gb char_idx =
     (if char_idx < gb_n_chars gb then
        Some (Some (partition_point (\<lambda>(_, i). i < char_idx) (gb_line_endings gb)))
      else if char_idx = gb_n_chars gb then do {
        n \<leftarrow> len_lines gb;
        l \<leftarrow> usub n 1;
        Some (Some l)
      } else Some None)"

definition char_to_line :: "gap_buffer \<Rightarrow> nat \<Rightarrow> nat option" where
  "char_to_line gb char_idx = do {
     r \<leftarrow> try_char_to_line gb char_idx;
     r
   }"

definition try_line_to_char :: "gap_buffer \<Rightarrow> nat \<Rightarrow> nat option option" where
  "try_line_to_char gb line_idx = do {
     n \<leftarrow> len_lines gb;
     l \<leftarrow> usub n 1;
     if l < line_idx then Some None
     else if line_idx = 0 then Some (Some 0)
     else do {
       (_, k) \<leftarrow> nth_opt (gb_line_endings gb) (line_idx - 1);
       Some (Some (k + 1))
     }
   }"

definition line_to_char :: "gap_buffer \<Rightarrow> nat \<Rightarrow> nat option" where
  "line_to_char gb line_idx = do {
     r \<leftarrow> try_line_to_char gb line_idx;
     r
   }"

definition line_to_byte :: "gap_buffer \<Rightarrow> nat \<Rightarrow> nat option" where
  "line_to_byte gb line_idx = do {
     raw \<leftarrow> (if line_idx = 0 then Some 0 else do {
               (b, _) \<leftarrow> nth_opt (gb_line_endings gb) (line_idx - 1);
               Some (b + 1)
             });
     raw_byte_to_byte gb raw
   }"

text \<open>The loop of \<open>byte_to_char\<close> over the line endings: found, or where the scan starts and stops.\<close>

primrec byte_to_char_line ::
  "nat \<Rightarrow> nat \<times> nat \<Rightarrow> (nat \<times> nat) list \<Rightarrow> nat + (nat \<times> nat) \<times> nat option" where
  "byte_to_char_line raw acc [] = Inr (acc, None)"
| "byte_to_char_line raw acc (le # les) =
     (if fst le < raw then byte_to_char_line raw le les
      else if fst le = raw then Inl (snd le)
      else Inr (acc, Some (fst le)))"

text \<open>Its loop over the characters of the slice; the fuel is as for \<open>chars_collect\<close>.\<close>

primrec byte_to_char_scan :: "nat \<Rightarrow> nat \<Rightarrow> chars \<Rightarrow> nat \<Rightarrow> nat \<Rightarrow> nat option" where
  "byte_to_char_scan 0 byte_idx it byte_cur cur = None"
| "byte_to_char_scan (Suc n) byte_idx it byte_cur cur = do {
     (c, it) \<leftarrow> chars_next it;
     case c of None \<Rightarrow> Some cur
     | Some ch \<Rightarrow>
         if byte_cur = byte_idx then Some cur
         else byte_to_char_scan n byte_idx it (byte_cur + len_utf8 ch) (cur + 1)
   }"

definition byte_to_char :: "gap_buffer \<Rightarrow> nat \<Rightarrow> nat option" where
  "byte_to_char gb byte_idx =
     (case byte_to_char_line (byte_to_raw_byte gb byte_idx) (0, 0) (gb_line_endings gb) of
        Inl c \<Rightarrow> Some c
      | Inr ((raw_byte_offset, char_offset), to) \<Rightarrow> do {
          slice \<leftarrow> slice_from_raw_offsets raw_byte_offset
                    (case to of None \<Rightarrow> length (gb_data gb) | Some t \<Rightarrow> t) gb;
          byte_cur \<leftarrow> raw_byte_to_byte gb raw_byte_offset;
          byte_to_char_scan (Suc (sl_len slice)) byte_idx (slice_chars slice) byte_cur char_offset
        })"

end
