(* ===== verification/GapText.thy ===== *)
theory GapText
  imports GapRead
begin

text \<open>The text a buffer holds, wherever its gap is.\<close>

definition gb_holds :: "gap_buffer \<Rightarrow> ustr \<Rightarrow> bool" where
  "gb_holds gb s \<longleftrightarrow> (\<exists>s1 s2. s = s1 @ s2 \<and> gb_rel gb s1 s2)"

lemma gb_holdsI: "gb_rel gb s1 s2 \<Longrightarrow> gb_holds gb (s1 @ s2)"
  by (auto simp: gb_holds_def)

lemma gb_holdsE:
  assumes "gb_holds gb s"
  obtains s1 s2 where "s = s1 @ s2" "gb_rel gb s1 s2"
  using assms by (auto simp: gb_holds_def)

lemma gb_holds_str_ok: "gb_holds gb s \<Longrightarrow> str_ok s"
  by (auto simp: gb_holds_def gb_rel_def)

lemma gb_holds_len: "gb_holds gb s \<Longrightarrow> gb_n_chars gb = length s \<and> gb_len gb = blen s"
  by (elim gb_holdsE) (auto elim: gb_relE)

subsection \<open>Construction\<close>

lemma gb_from_str_rel:
  assumes s: "str_ok s"
  obtains gb where "gb_from_str s = Some gb" "gb_rel gb [] s"
proof -
  define n where "n = clamp_gap_size (blen s) MIN_GAP_GROW"
  have n: "MIN_GAP_GROW \<le> n" unfolding n_def by (rule clamp_gap_size_bounds) simp
  define gb0 where "gb0 = \<lparr>gb_data = utf8 s @ replicate n 0, gb_cap = blen s + n,
    gb_gap_start = blen s, gb_gap_end = blen s + n, gb_next_gap = n, gb_n_chars = length s,
    gb_line_endings = line_ends 0 0 s, gb_cache = Map.empty\<rparr>"
  have rel: "gb_rel gb0 s []"
    by (rule gb_relI[where g = "replicate n 0"]) (use s n in \<open>simp_all add: gb0_def\<close>)
  obtain gb where "move_gap_to gb0 (blen (take 0 (s @ []))) = Some gb"
    "gb_rel gb (take 0 (s @ [])) (drop 0 (s @ []))"
    by (rule move_gap_to_correct[OF rel le0]) blast
  then show thesis
    using that[of gb] by (simp add: gb_from_str_def compute_line_endings_eq gb0_def n_def Let_def)
qed

lemma gb_from_str_holds: "str_ok s \<Longrightarrow> \<exists>gb. gb_from_str s = Some gb \<and> gb_holds gb s"
  by (rule gb_from_str_rel) (auto dest: gb_holdsI)

subsection \<open>Reading the text back\<close>

lemma as_byte_slices_rel: "gb_rel gb s1 s2 \<Longrightarrow> as_byte_slices gb = Some (utf8 s1, utf8 s2)"
  by (erule gb_relE) (simp add: as_byte_slices_def subslice_def)

lemma gb_rel_str_ok: "gb_rel gb s1 s2 \<Longrightarrow> str_ok s1 \<and> str_ok s2"
  by (simp add: gb_rel_def)

lemma as_strs_rel: "gb_rel gb s1 s2 \<Longrightarrow> as_strs gb = Some (s1, s2)"
  by (simp add: as_strs_def as_byte_slices_rel gb_rel_str_ok)

lemma gb_to_string_holds: "gb_holds gb s \<Longrightarrow> gb_to_string gb = Some s"
  by (elim gb_holdsE) (simp add: gb_to_string_def as_strs_rel)

lemma gb_eq_str_holds:
  assumes h: "gb_holds gb s" and t: "str_ok t"
  shows "gb_eq_str gb t = Some (s = t)"
proof -
  obtain s1 s2 where s: "s = s1 @ s2" "gb_rel gb s1 s2" using h by (rule gb_holdsE)
  obtain g :: "u8 list" where g: "gb_data gb = utf8 s1 @ g @ utf8 s2" "gb_gap_start gb = blen s1"
    "gb_gap_end gb = blen s1 + length g" "gb_len gb = blen s1 + blen s2"
    by (rule gb_relE[OF s(2)]) blast
  have iff: "s = t \<longleftrightarrow> utf8 s = utf8 t"
    using utf8_inj[OF _ gb_holds_str_ok[OF h] t] by auto
  have split: "utf8 s = utf8 t \<longleftrightarrow> take (blen s1) (utf8 t) = utf8 s1 \<and> drop (blen s1) (utf8 t) = utf8 s2"
    unfolding s(1) utf8_simps append_eq_conv_conj by auto
  show ?thesis
  proof (cases "blen t = blen s1 + blen s2")
    case True
    have "subslice (utf8 t) 0 (blen s1) = Some (take (blen s1) (utf8 t))"
      "subslice (utf8 t) (blen s1) (blen t) = Some (drop (blen s1) (utf8 t))"
      "subslice (gb_data gb) 0 (blen s1) = Some (utf8 s1)"
      "subslice (gb_data gb) (blen s1 + length g) (length (gb_data gb)) = Some (utf8 s2)"
      using True by (simp_all add: subslice_def g(1))
    then show ?thesis
      unfolding gb_eq_str_def Let_def g(2-4) iff split using True by auto
  next
    case False
    then have "utf8 s \<noteq> utf8 t" unfolding s(1) utf8_simps by (metis length_append)
    then show ?thesis unfolding gb_eq_str_def Let_def g(4) iff using False by simp
  qed
qed

lemma make_contiguous_rel:
  assumes "gb_rel gb s1 s2"
  obtains gb' where "make_contiguous gb = Some (utf8 (s1 @ s2), gb')" "gb_rel gb' [] (s1 @ s2)"
proof -
  obtain gb' where gb': "move_gap_to gb (blen (take 0 (s1 @ s2))) = Some gb'"
    "gb_rel gb' (take 0 (s1 @ s2)) (drop 0 (s1 @ s2))"
    by (rule move_gap_to_correct[OF assms le0]) blast
  then have rel: "gb_rel gb' [] (s1 @ s2)" by simp
  have "subslice (gb_data gb') (gb_gap_end gb') (length (gb_data gb')) = Some (utf8 (s1 @ s2))"
    by (rule gb_relE[OF rel]) (simp add: subslice_def)
  then show thesis using that gb'(1) rel by (simp add: make_contiguous_def)
qed

lemma gb_as_str_holds:
  assumes "gb_holds gb s"
  shows "\<exists>gb'. gb_as_str gb = Some (s, gb') \<and> gb_rel gb' [] s \<and> is_contiguous gb'"
proof -
  obtain s1 s2 where s: "s = s1 @ s2" "gb_rel gb s1 s2" using assms by (rule gb_holdsE)
  obtain gb' where gb': "make_contiguous gb = Some (utf8 (s1 @ s2), gb')" "gb_rel gb' [] (s1 @ s2)"
    by (rule make_contiguous_rel[OF s(2)])
  have "is_contiguous gb'" by (rule gb_relE[OF gb'(2)]) (simp add: is_contiguous_def)
  then show ?thesis
    using gb' s gb_holds_str_ok[OF assms] by (simp add: gb_as_str_def del: utf8_simps(3))
qed

subsection \<open>Edits as operations on the text\<close>

lemma gb_insert_str_holds:
  assumes "gb_holds gb s" "k \<le> length s" "str_ok t"
  shows "\<exists>gb'. gb_insert_str gb k t = Some gb' \<and> gb_holds gb' (take k s @ t @ drop k s)"
  using assms by (elim gb_holdsE) (metis append_assoc gb_holds_def gb_insert_str_rel)

lemma gb_insert_char_holds:
  assumes "gb_holds gb s" "k \<le> length s" "uchar_ok c"
  shows "\<exists>gb'. gb_insert_char gb k c = Some gb' \<and> gb_holds gb' (take k s @ c # drop k s)"
  using assms
  by (elim gb_holdsE) (metis append.assoc append_Cons append_Nil gb_holds_def gb_insert_char_rel)

lemma gb_remove_range_holds:
  assumes "gb_holds gb s" "i \<le> j" "j \<le> length s"
  shows "\<exists>gb'. gb_remove_range gb i j = Some gb' \<and> gb_holds gb' (take i s @ drop j s)"
  using assms by (elim gb_holdsE) (metis gb_holds_def gb_remove_range_rel)

lemma gb_remove_char_holds:
  assumes "gb_holds gb s" "k < length s"
  shows "\<exists>gb'. gb_remove_char gb k = Some gb' \<and> gb_holds gb' (take k s @ drop (Suc k) s)"
  using assms by (elim gb_holdsE) (metis gb_holds_def gb_remove_char_rel)

lemma gb_clear_rel:
  assumes rel: "gb_rel gb s1 s2" and ne: "s1 \<noteq> [] \<or> gb_cache gb = Map.empty"
  shows "\<exists>gb'. gb_clear gb = Some gb' \<and> gb_holds gb' []"
proof -
  obtain gb1 where gb1: "move_gap_to gb (blen (take 0 (s1 @ s2))) = Some gb1"
    "gb_rel gb1 (take 0 (s1 @ s2)) (drop 0 (s1 @ s2))"
    "gb_cache gb1 = Map.empty \<or> (0 = length s1 \<and> gb1 = gb)"
    by (rule move_gap_to_correct[OF rel le0]) blast
  then have rel1: "gb_rel gb1 [] (s1 @ s2)" and c: "gb_cache gb1 = Map.empty" using ne by auto
  let ?gb = "gb1\<lparr>gb_gap_end := gb_cap gb1, gb_line_endings := [], gb_n_chars := 0\<rparr>"
  obtain g :: "u8 list" where g: "gb_data gb1 = g @ utf8 (s1 @ s2)" "gb_gap_start gb1 = 0"
    "gb_cap gb1 = length g + blen (s1 @ s2)" "MIN_GAP \<le> length g" "MIN_GAP_GROW \<le> gb_next_gap gb1"
    by (rule gb_relE[OF rel1]) auto
  have "gb_rel ?gb [] []"
    by (rule gb_relI[where g = "g @ utf8 (s1 @ s2)"]) (use g c in simp_all)
  then show ?thesis using gb1(1) gb_holdsI by (fastforce simp: gb_clear_def)
qed

end
