(* ===== verification/GapView.thy ===== *)
theory GapView
  imports GapText
begin

subsection \<open>Slices that hold a piece of text\<close>

definition sl_holds :: "gb_slice \<Rightarrow> ustr \<Rightarrow> bool" where
  "sl_holds sl w \<longleftrightarrow> (\<exists>u v. sl_left sl = utf8 u \<and> sl_right sl = utf8 v \<and> w = u @ v \<and> str_ok u \<and> str_ok v)"

lemma sl_holds_NULL [simp]: "sl_holds slice_NULL []"
  by (simp add: sl_holds_def slice_NULL_def)

lemma sl_holdsE:
  assumes "sl_holds sl w"
  obtains u v where "sl = \<lparr>sl_from = sl_from sl, sl_left = utf8 u, sl_right = utf8 v\<rparr>"
    "w = u @ v" "str_ok u" "str_ok v"
  using assms unfolding sl_holds_def by (cases sl) auto

lemma sl_holds_len: "sl_holds sl w \<Longrightarrow> sl_len sl = blen w"
  by (elim sl_holdsE) (metis gb_slice.select_convs(2,3) length_append sl_len_def utf8_simps(3))

lemma sl_to_string_holds: "sl_holds sl w \<Longrightarrow> sl_to_string sl = Some w"
  unfolding sl_holds_def sl_to_string_def
  by (metis from_utf8_utf8 list_all_append utf8_simps(3))

lemma sl_to_cow_eq: "sl_to_cow sl = sl_to_string sl"
  by (simp add: sl_to_cow_def sl_to_string_def)

lemma sl_eq_str_holds:
  assumes sl: "sl_holds sl w" and t: "str_ok t"
  shows "sl_eq_str sl t = Some (w = t)"
proof -
  obtain u v where uv: "sl_left sl = utf8 u" "sl_right sl = utf8 v" "w = u @ v" "str_ok u" "str_ok v"
    using sl by (auto simp: sl_holds_def)
  have iff: "w = t \<longleftrightarrow> utf8 t = utf8 u @ utf8 v"
    using utf8_inj[of w t] t uv(3-5) by auto
  show ?thesis
    unfolding sl_eq_str_def Let_def uv(1,2) iff eq_commute[of "utf8 t" "utf8 u @ utf8 v"]
      append_eq_conv_conj
    by (auto simp: subslice_def)
qed

lemma sl_as_strs_holds:
  "sl_holds sl w \<Longrightarrow> \<exists>u v. sl_as_strs sl = Some (u, v) \<and> w = u @ v"
  by (auto simp: sl_holds_def sl_as_strs_def)

subsection \<open>What the character iterators yield\<close>

lemma chars_collect_utf8:
  assumes "str_ok u" "str_ok v"
    "chars_s it = \<lparr>sl_from = f, sl_left = utf8 u, sl_right = utf8 v\<rparr>"
    "chars_cur it = blen (take i (u @ v))" "i \<le> length (u @ v)" "length (u @ v) < i + n"
  shows "chars_collect n it = Some (drop i (u @ v))"
  using assms
proof (induction n arbitrary: i it)
  case (Suc n)
  show ?case
  proof (cases "i < length (u @ v)")
    case True
    have "chars_collect n (it\<lparr>chars_cur := blen (take (Suc i) (u @ v))\<rparr>) =
        Some (drop (Suc i) (u @ v))"
      by (rule Suc.IH) (use Suc.prems True in simp_all)
    then show ?thesis
      using chars_next_utf8[OF Suc.prems(1,2) True Suc.prems(3,4)] Cons_nth_drop_Suc[OF True]
      by simp
  next
    case False
    then have "sl_len (chars_s it) \<le> chars_cur it" using Suc.prems by (simp add: sl_len_def)
    then show ?thesis using False by (simp add: chars_next_end)
  qed
qed simp

lemma chars_collect_holds:
  assumes "sl_holds sl w"
  shows "chars_collect (Suc (sl_len sl)) (slice_chars sl) = Some w"
proof -
  obtain u v where uv: "sl = \<lparr>sl_from = sl_from sl, sl_left = utf8 u, sl_right = utf8 v\<rparr>"
    "w = u @ v" "str_ok u" "str_ok v"
    using assms by (rule sl_holdsE)
  have "chars_collect (Suc (sl_len sl)) (slice_chars sl) = Some (drop 0 (u @ v))"
    by (rule chars_collect_utf8[OF uv(3,4)])
       (use uv sl_holds_len[OF assms] length_le_blen[of w] in \<open>simp_all add: slice_chars_def\<close>)
  then show ?thesis using uv(2) by simp
qed

lemma decode_ending_utf8:
  assumes "str_ok w" "0 < i" "i \<le> length w"
  shows "decode_char_ending_at (blen (take i w) - 1) (utf8 w) = Some (w ! (i - 1))"
proof -
  have i: "i - 1 < length w" "Suc (i - 1) = i" using assms by simp_all
  have w: "utf8 w = utf8 (take (i - 1) w) @ encode_utf8 (w ! (i - 1)) @ utf8 (drop i w)"
    using id_take_nth_drop[OF i(1)] unfolding i(2) by (metis utf8_simps(2,3))
  have "blen (take i w) = blen (take (i - 1) w) + len_utf8 (w ! (i - 1))"
    using blen_take_Suc[OF i(1)] unfolding i(2) .
  then show ?thesis
    using decode_char_ending_at_encode[OF str_ok_nth[OF assms(1) i(1)]] w by metis
qed

lemma rev_chars_next_utf8:
  assumes "str_ok u" "str_ok v" "0 < i" "i \<le> length (u @ v)"
    "chars_s it = \<lparr>sl_from = f, sl_left = utf8 u, sl_right = utf8 v\<rparr>"
    "chars_cur it = blen (take i (u @ v))"
  shows "\<exists>d cur. cur_and_data (chars_s it) (chars_cur it - 1) = (cur, d) \<and>
          decode_char_ending_at cur d = Some ((u @ v) ! (i - 1))"
    "chars_cur it \<noteq> 0"
    "chars_cur it = blen (take (i - 1) (u @ v)) + len_utf8 ((u @ v) ! (i - 1))"
proof -
  have i: "i - 1 < length (u @ v)" "Suc (i - 1) = i" using assms by simp_all
  show cur: "chars_cur it = blen (take (i - 1) (u @ v)) + len_utf8 ((u @ v) ! (i - 1))"
    using blen_take_Suc[OF i(1)] unfolding i(2) assms(6) .
  then show ne: "chars_cur it \<noteq> 0" using len_utf8_bounds(3)[of "(u @ v) ! (i - 1)"] by simp
  show "\<exists>d cur. cur_and_data (chars_s it) (chars_cur it - 1) = (cur, d) \<and>
          decode_char_ending_at cur d = Some ((u @ v) ! (i - 1))"
  proof (cases "i \<le> length u")
    case True
    then have "chars_cur it \<le> blen u"
      using assms(6) blen_take_le[of i u] by simp
    with ne have "chars_cur it - 1 < blen u" by linarith
    moreover have "i - 1 < length u" using True assms(3) by linarith
    ultimately show ?thesis
      using True assms decode_ending_utf8[of u i] by (simp add: cur_and_data_def nth_append)
  next
    case False
    let ?j = "i - length u"
    have j: "0 < ?j" "?j \<le> length v" using False assms(4) by simp_all
    have "0 < blen (take ?j v)" using j by (cases v) auto
    moreover have "chars_cur it = blen u + blen (take ?j v)" using False assms(6) by simp
    ultimately have "\<not> chars_cur it - 1 < blen u" "chars_cur it - 1 - blen u = blen (take ?j v) - 1"
      by linarith+
    moreover have "\<not> i - 1 < length u" "i - 1 - length u = ?j - 1" using False j by linarith+
    then have "(u @ v) ! (i - 1) = v ! (?j - 1)" by (simp only: nth_append if_False)
    ultimately show ?thesis
      using assms decode_ending_utf8[OF assms(2) j] by (simp add: cur_and_data_def)
  qed
qed

lemma rev_chars_collect_utf8:
  assumes "str_ok u" "str_ok v"
    "chars_s it = \<lparr>sl_from = f, sl_left = utf8 u, sl_right = utf8 v\<rparr>"
    "chars_cur it = blen (take i (u @ v))" "i \<le> length (u @ v)" "i < n"
  shows "rev_chars_collect n it = Some (rev (take i (u @ v)))"
  using assms
proof (induction n arbitrary: i it)
  case (Suc n)
  show ?case
  proof (cases "i = 0")
    case False
    then have i: "0 < i" "i - 1 < length (u @ v)" "Suc (i - 1) = i" using Suc.prems by simp_all
    note nxt = rev_chars_next_utf8[OF Suc.prems(1,2) i(1) Suc.prems(5,3,4)]
    have "rev_chars_next it = Some (Some ((u @ v) ! (i - 1)),
        it\<lparr>chars_cur := blen (take (i - 1) (u @ v))\<rparr>)"
      using nxt by (auto simp: rev_chars_next_def usub_def)
    moreover have "rev_chars_collect n (it\<lparr>chars_cur := blen (take (i - 1) (u @ v))\<rparr>) =
        Some (rev (take (i - 1) (u @ v)))"
      by (rule Suc.IH) (use Suc.prems i in simp_all)
    moreover have "take i (u @ v) = take (i - 1) (u @ v) @ [(u @ v) ! (i - 1)]"
      using take_Suc_conv_app_nth[OF i(2)] unfolding i(3) .
    ultimately show ?thesis by simp
  qed (use Suc.prems in \<open>simp add: rev_chars_next_def\<close>)
qed simp

lemma rev_chars_collect_holds:
  assumes "sl_holds sl w"
  shows "rev_chars_collect (Suc (sl_len sl)) (slice_rev_chars sl) = Some (rev w)"
proof -
  obtain u v where uv: "sl = \<lparr>sl_from = sl_from sl, sl_left = utf8 u, sl_right = utf8 v\<rparr>"
    "w = u @ v" "str_ok u" "str_ok v"
    using assms by (rule sl_holdsE)
  have "rev_chars_collect (Suc (sl_len sl)) (slice_rev_chars sl) =
      Some (rev (take (length (u @ v)) (u @ v)))"
    by (rule rev_chars_collect_utf8[OF uv(3,4)])
       (use uv sl_holds_len[OF assms] length_le_blen[of w] in \<open>simp_all add: slice_rev_chars_def\<close>)
  then show ?thesis using uv(2) by simp
qed

text \<open>The indexed iterator yields the characters with their indices, in either direction.\<close>

lemma idx_chars_collect_utf8:
  assumes "str_ok u" "str_ok v"
    "chars_s it = \<lparr>sl_from = f, sl_left = utf8 u, sl_right = utf8 v\<rparr>" "\<not> idx_rev it"
    "chars_cur it = blen (take i (u @ v))" "i \<le> length (u @ v)" "length (u @ v) < i + n"
  shows "idx_chars_collect n it = Some (enumerate (idx_idx it) (drop i (u @ v)))"
  using assms
proof (induction n arbitrary: i it)
  case (Suc n)
  show ?case
  proof (cases "i < length (u @ v)")
    case True
    define it' where "it' = it\<lparr>chars_cur := blen (take (Suc i) (u @ v)), idx_idx := idx_idx it + 1\<rparr>"
    have IH: "idx_chars_collect n it' = Some (enumerate (idx_idx it') (drop (Suc i) (u @ v)))"
      by (rule Suc.IH) (use Suc.prems True in \<open>simp_all add: it'_def\<close>)
    obtain ch where ch: "case cur_and_data (chars_s it) (chars_cur it) of (cur, d) \<Rightarrow>
        decode_char_at cur d = Some ch"
      "ch = (u @ v) ! i" "\<not> sl_len (chars_s it) \<le> chars_cur it"
      "chars_cur it + len_utf8 ch = blen (take (Suc i) (u @ v))"
      using chars_next_utf8[OF Suc.prems(1,2) True, of "chars.truncate it"] Suc.prems(3,5)
      by (auto simp: chars_next_def chars.defs Let_def bind_eq_Some_conv split: if_splits prod.splits)
    have "idx_chars_next it = Some (Some (idx_idx it, ch), it')"
      using ch Suc.prems(4) by (auto simp: idx_chars_next_def it'_def split: prod.splits)
    then show ?thesis
      using IH ch(2) Cons_nth_drop_Suc[OF True, symmetric] by (simp add: it'_def)
  next
    case False
    then have "sl_len (chars_s it) \<le> chars_cur it" using Suc.prems by (simp add: sl_len_def)
    then show ?thesis using False Suc.prems by (simp add: idx_chars_next_def)
  qed
qed simp

lemma idx_rev_chars_collect_utf8:
  assumes "str_ok u" "str_ok v"
    "chars_s it = \<lparr>sl_from = f, sl_left = utf8 u, sl_right = utf8 v\<rparr>" "idx_rev it"
    "chars_cur it = blen (take i (u @ v))" "i \<le> length (u @ v)" "idx_idx it = m + i" "i < n"
  shows "idx_chars_collect n it = Some (rev (enumerate m (take i (u @ v))))"
  using assms
proof (induction n arbitrary: i it)
  case (Suc n)
  show ?case
  proof (cases "i = 0")
    case False
    then have i: "0 < i" "i - 1 < length (u @ v)" "Suc (i - 1) = i" using Suc.prems by simp_all
    define it' where "it' = it\<lparr>chars_cur := blen (take (i - 1) (u @ v)), idx_idx := m + (i - 1)\<rparr>"
    have IH: "idx_chars_collect n it' = Some (rev (enumerate m (take (i - 1) (u @ v))))"
      by (rule Suc.IH) (use Suc.prems i in \<open>simp_all add: it'_def\<close>)
    note nxt = rev_chars_next_utf8[OF Suc.prems(1,2) i(1) Suc.prems(6), of "chars.truncate it"]
    have "idx_chars_next it = Some (Some (m + (i - 1), (u @ v) ! (i - 1)), it')"
      using nxt Suc.prems i
      by (auto simp: idx_chars_next_def it'_def usub_def chars.defs)
    moreover have "take i (u @ v) = take (i - 1) (u @ v) @ [(u @ v) ! (i - 1)]"
      using take_Suc_conv_app_nth[OF i(2)] unfolding i(3) .
    ultimately show ?thesis using IH i(2) by (simp add: enumerate_append_eq)
  qed (use Suc.prems in \<open>simp add: idx_chars_next_def\<close>)
qed simp

lemma indexed_chars_holds:
  assumes "sl_holds sl w"
  shows "do { it \<leftarrow> indexed_chars sl from backwards; idx_chars_collect (Suc (sl_len sl)) it } =
     Some (if backwards then rev (enumerate from w) else enumerate from w)"
proof -
  obtain u v where uv: "sl = \<lparr>sl_from = sl_from sl, sl_left = utf8 u, sl_right = utf8 v\<rparr>"
    "w = u @ v" "str_ok u" "str_ok v"
    using assms by (rule sl_holdsE)
  have lr: "sl_left sl = utf8 u" "sl_right sl = utf8 v" using uv(1) by (metis gb_slice.select_convs(2,3))+
  let ?it = "\<lparr>chars_s = sl, chars_cur = 0, idx_idx = from, idx_rev = False\<rparr>"
  let ?rit = "\<lparr>chars_s = sl, chars_cur = sl_len sl, idx_idx = from + length u + length v, idx_rev = True\<rparr>"
  have "idx_chars_collect (Suc (sl_len sl)) ?it =
      Some (enumerate (idx_idx ?it) (drop 0 (u @ v)))"
    by (rule idx_chars_collect_utf8[OF uv(3,4)])
       (use uv sl_holds_len[OF assms] length_le_blen[of w] in simp_all)
  moreover have "idx_chars_collect (Suc (sl_len sl)) ?rit =
      Some (rev (enumerate from (take (length (u @ v)) (u @ v))))"
    by (rule idx_rev_chars_collect_utf8[OF uv(3,4)])
       (use uv sl_holds_len[OF assms] length_le_blen[of w] in simp_all)
  ultimately show ?thesis
    using uv(2-4) by (simp add: indexed_chars_def lr)
qed

subsection \<open>Slices of the buffer\<close>

lemma anchor_le_raw_pos:
  "anchor gap s1 s2 ra a \<Longrightarrow> s1 @ s2 \<noteq> [] \<Longrightarrow> ra \<le> raw_pos gap s1 s2 a"
  by (auto simp: anchor_def raw_pos_def)

lemma anchor_mono:
  assumes "anchor gap s1 s2 ra a" "anchor gap s1 s2 rt t" "a < t" "0 < gap"
  shows "ra < rt"
proof -
  have "t \<le> length (s1 @ s2)" using assms(2) by (auto simp: anchor_def)
  then have "a < length (s1 @ s2)" "s1 @ s2 \<noteq> []" using assms(3) by auto
  then show ?thesis
    using raw_pos_less_anchor[OF assms(2), of a] anchor_le_raw_pos[OF assms(1)] assms(3,4) by linarith
qed

lemma gb_rel_gap: "gb_rel gb s1 s2 \<Longrightarrow> 0 < gb_gap gb"
  by (erule gb_relE) auto

lemma slice_from_anchors:
  assumes rel: "gb_rel gb s1 s2" and a: "anchor (gb_gap gb) s1 s2 ra a"
    and t: "anchor (gb_gap gb) s1 s2 rt t" and le: "a < t \<or> (a = t \<and> ra \<le> rt)"
  obtains sl where "slice_from_raw_offsets ra rt gb = Some sl"
    "sl_holds sl (drop a (take t (s1 @ s2)))" "sl_from sl = blen (take a (s1 @ s2))"
proof -
  have "ra \<le> rt" "a \<le> t" using le anchor_mono[OF a t _ gb_rel_gap[OF rel]] by auto
  then obtain u v where "slice_from_raw_offsets ra rt gb =
      Some \<lparr>sl_from = blen (take a (s1 @ s2)), sl_left = utf8 u, sl_right = utf8 v\<rparr>"
    "u @ v = drop a (take t (s1 @ s2))" "str_ok u" "str_ok v"
    using slice_from_raw_offsets_utf8[OF rel a t] by blast
  note sl = this
  show thesis
    by (rule that[OF sl(1)], unfold sl(2)[symmetric] sl_holds_def)
       (use sl(3,4) in auto)
qed

lemma gb_slice_chars_correct:
  assumes h: "gb_holds gb s" and ij: "i \<le> j" "j \<le> length s"
  shows "\<exists>sl gb'. gb_slice_chars gb i j = Some (sl, gb') \<and> sl_holds sl (drop i (take j s)) \<and>
           gb_holds gb' s"
proof (cases "i = j")
  case True
  then show ?thesis using h by (simp add: gb_slice_chars_def)
next
  case False
  obtain s1 s2 where s: "s = s1 @ s2" "gb_rel gb s1 s2" using h by (rule gb_holdsE)
  let ?rp = "raw_pos (gb_gap gb) s1 s2"
  have i: "i \<le> length (s1 @ s2)" and j: "j \<le> length (s1 @ s2)" using ij s(1) by simp_all
  obtain gb1 where gb1: "char_to_raw_byte gb i = Some (?rp i, gb1)" "gb_rel gb1 s1 s2"
    "same_but_cache gb gb1"
    by (rule char_to_raw_byte_correct[OF s(2) i])
  have gap1: "gb_gap gb1 = gb_gap gb" using same_but_cache_simps[OF gb1(3)] by simp
  have anch: "anchor (gb_gap gb1) s1 s2 (?rp i) i" unfolding gap1 by (rule anchor_raw_pos[OF i])
  obtain gb2 where gb2: "offset_char_to_raw_byte gb1 j (?rp i) i = Some (?rp j, gb2)"
    "gb_rel gb2 s1 s2" "same_but_cache gb1 gb2"
    using offset_char_to_raw_byte_correct[OF gb1(2) anch ij(1) j] gap1 by metis
  have gap2: "gb_gap gb2 = gb_gap gb" using same_but_cache_simps[OF gb2(3)] gap1 by simp
  obtain sl where "slice_from_raw_offsets (?rp i) (?rp j) gb2 = Some sl"
    "sl_holds sl (drop i (take j (s1 @ s2)))"
  proof (rule slice_from_anchors[OF gb2(2), unfolded gap2])
    show "anchor (gb_gap gb) s1 s2 (?rp i) i" "anchor (gb_gap gb) s1 s2 (?rp j) j"
      by (rule anchor_raw_pos[OF i], rule anchor_raw_pos[OF j])
    show "i < j \<or> (i = j \<and> ?rp i \<le> ?rp j)" using False ij(1) by simp
  qed
  then show ?thesis
    using gb1(1) gb2(1) gb_holdsI[OF gb2(2)] False s(1) by (simp add: gb_slice_chars_def)
qed

subsection \<open>Characters by index\<close>

lemma gb_char_correct:
  assumes h: "gb_holds gb s" and k: "k < length s"
  shows "\<exists>gb'. gb_char gb k = Some (s ! k, gb') \<and> gb_holds gb' s"
proof -
  obtain s1 s2 where s: "s = s1 @ s2" "gb_rel gb s1 s2" using h by (rule gb_holdsE)
  have k': "k \<le> length (s1 @ s2)" using k s(1) by simp
  obtain gb1 where gb1: "char_to_raw_byte gb k = Some (raw_pos (gb_gap gb) s1 s2 k, gb1)"
    "gb_rel gb1 s1 s2" "same_but_cache gb gb1"
    by (rule char_to_raw_byte_correct[OF s(2) k'])
  have gap1: "gb_gap gb1 = gb_gap gb" using same_but_cache_simps[OF gb1(3)] by simp
  show ?thesis
    using decode_at_raw_pos[OF gb1(2), of k] gb1(1) gb_holdsI[OF gb1(2)] k s(1)
    by (simp add: gb_char_def gap1)
qed

lemma gb_get_char_correct:
  assumes h: "gb_holds gb s"
  shows "\<exists>gb'. gb_get_char gb k = Some (if k < length s then Some (s ! k) else None, gb') \<and>
           gb_holds gb' s"
  using gb_char_correct[OF h, of k] gb_holds_len[OF h] h by (auto simp: gb_get_char_def)

subsection \<open>Lines\<close>

text \<open>The first character of line \<open>i\<close> of \<open>s\<close>, and the first one behind it.\<close>

definition line_start :: "ustr \<Rightarrow> nat \<Rightarrow> nat" where
  "line_start s i = (if i = 0 then 0 else newlines s ! (i - 1) + 1)"

definition line_stop :: "ustr \<Rightarrow> nat \<Rightarrow> nat" where
  "line_stop s i = (if i < length (newlines s) then newlines s ! i + 1 else length s)"

lemma newlines_nth:
  assumes "i < length (newlines s)"
  shows "newlines s ! i < length s" "s ! (newlines s ! i) = newline"
  using nth_mem[OF assms] by (simp_all add: newlines_def)

lemma newlines_mono: "i < j \<Longrightarrow> j < length (newlines s) \<Longrightarrow> newlines s ! i < newlines s ! j"
  using sorted_newlines[of s] by (simp add: sorted_wrt_iff_nth_less)

lemma line_start_le_stop:
  assumes "i \<le> length (newlines s)"
  shows "line_start s i \<le> line_stop s i" "line_stop s i \<le> length s"
  using assms newlines_mono[of "i - 1" i s] newlines_nth(1)[of i s] newlines_nth(1)[of "i - 1" s]
  by (auto simp: line_start_def line_stop_def Suc_le_eq)

lemma line_start_Suc: "i < length (newlines s) \<Longrightarrow> line_start s (Suc i) = line_stop s i"
  by (simp add: line_start_def line_stop_def)

lemma len_lines_correct:
  assumes rel: "gb_rel gb s1 s2"
  shows "len_lines gb = Some (length (newlines (s1 @ s2)) + 1)"
proof (cases "newlines (s1 @ s2) = []")
  case True
  then show ?thesis using gb_rel_line_endings[OF rel] by (simp add: len_lines_def)
next
  case False
  obtain g :: "u8 list" where g: "gb_gap_start gb = blen s1" "gb_gap_end gb = blen s1 + length g"
    "gb_gap gb = length g" "gb_len gb = blen s1 + blen s2" "MIN_GAP \<le> length g"
    by (rule gb_relE[OF rel]) blast
  define n where "n = last (newlines (s1 @ s2))"
  have n: "n < length (s1 @ s2)" using last_in_set[OF False] newlines_less unfolding n_def by blast
  then have ne: "s1 @ s2 \<noteq> []" by auto
  have les: "gb_line_endings gb \<noteq> []" "fst (last (gb_line_endings gb)) = raw_pos (length g) s1 s2 n"
    "length (gb_line_endings gb) = length (newlines (s1 @ s2))"
    using False by (simp_all add: gb_rel_line_endings[OF rel] last_map n_def g(3))
  show ?thesis
  proof (cases "n < length s1")
    case True
    then have "raw_pos (length g) s1 s2 n < blen s1"
      using ne blen_take_less_blen[of n s1] by (simp add: raw_pos_def)
    then show ?thesis using les g by (simp add: len_lines_def Let_def)
  next
    case False
    then have "blen (take (n - length s1) s2) < blen s2" using n by (simp add: blen_take_less_blen)
    moreover have "raw_pos (length g) s1 s2 n = blen s1 + length g + blen (take (n - length s1) s2)"
      using False ne by (simp only: raw_pos_def if_False)
    moreover have "0 < length g" using g(5) by linarith
    ultimately show ?thesis using les g by (simp add: len_lines_def Let_def usub_def)
  qed
qed

lemma anchor_raw_pos_newline:
  assumes rel: "gb_rel gb s1 s2" and c: "c < length (s1 @ s2)" "(s1 @ s2) ! c = newline"
  shows "anchor (gb_gap gb) s1 s2 (raw_pos (gb_gap gb) s1 s2 c + 1) (c + 1)"
proof (cases "c < length s1")
  case True
  then show ?thesis using c blen_take_Suc[OF True]
    by (auto simp: anchor_def raw_pos_def nth_append len_utf8_def)
next
  case False
  then have "c - length s1 < length s2" "s2 ! (c - length s1) = newline"
    using c by (simp_all add: nth_append)
  then show ?thesis using False c blen_take_Suc[of "c - length s1" s2]
    by (auto simp: anchor_def raw_pos_def len_utf8_def Suc_diff_le)
qed

end
