(* ===== verification/GapLine.thy ===== *)
theory GapLine
  imports GapView
begin

lemma gb_line_anchors:
  assumes rel: "gb_rel gb s1 s2" and i: "i \<le> length (newlines (s1 @ s2))"
  obtains rf rt where
    "gb_line gb i = (if rf = rt then Some slice_NULL else slice_from_raw_offsets rf rt gb)"
    "anchor (gb_gap gb) s1 s2 rf (line_start (s1 @ s2) i)"
    "anchor (gb_gap gb) s1 s2 rt (line_stop (s1 @ s2) i)" "rf \<le> rt"
proof -
  let ?s = "s1 @ s2" and ?gap = "gb_gap gb"
  let ?rp = "raw_pos ?gap s1 s2" and ?ns = "newlines (s1 @ s2)"
  note les = gb_rel_line_endings[OF rel]
  have capeq: "gb_cap gb = blen s1 + ?gap + blen s2" by (rule gb_relE[OF rel]) simp
  have cap: "anchor ?gap s1 s2 (gb_cap gb) (length ?s)"
    by (rule gb_relE[OF rel]) (simp add: anchor_def)
  define rt where "rt = (if i < length ?ns then ?rp (?ns ! i) + 1 else gb_cap gb)"
  define rf where "rf = (if i = 0 then 0 else ?rp (?ns ! (i - 1)) + 1)"
  have rt: "anchor ?gap s1 s2 rt (line_stop ?s i)"
    using cap anchor_raw_pos_newline[OF rel newlines_nth[of i ?s]]
    by (auto simp: rt_def line_stop_def)
  have "i \<noteq> 0 \<Longrightarrow> i - 1 < length ?ns" using i by simp
  from anchor_raw_pos_newline[OF rel newlines_nth[OF this]]
  have rf: "anchor ?gap s1 s2 rf (line_start ?s i)"
    by (cases "i = 0") (auto simp: rf_def line_start_def)
  have "rf \<le> rt"
  proof (cases "line_start ?s i < line_stop ?s i")
    case True
    then show ?thesis using anchor_mono[OF rf rt True gb_rel_gap[OF rel]] by simp
  next
    case False
    then have eq: "line_start ?s i = length ?s" "rt = gb_cap gb" "line_stop ?s i = length ?s"
      using line_start_le_stop[OF i] newlines_mono[of "i - 1" i ?s] newlines_nth(1)[of i ?s]
      by (auto simp: rt_def line_stop_def line_start_def split: if_splits)
    have "anchor ?gap s1 s2 rf (length ?s)" using rf eq(1) by simp
    then show ?thesis using eq(2)
      using capeq by (auto simp: anchor_def)
  qed
  moreover have "char_len gb (?rp (?ns ! i)) = Some 1" if "i < length ?ns"
    using decode_at_raw_pos[OF rel newlines_nth(1)[OF that]] newlines_nth(2)[OF that]
    by (simp add: char_len_def len_utf8_def)
  then have "gb_line gb i = (if rf = rt then Some slice_NULL else slice_from_raw_offsets rf rt gb)"
    using i unfolding gb_line_def len_lines_correct[OF rel] les
    by (auto simp: rf_def rt_def Let_def nth_opt_def)
  ultimately show thesis using that rf rt by blast
qed

lemma gb_line_correct:
  assumes h: "gb_holds gb s" and i: "i \<le> length (newlines s)"
  shows "\<exists>sl. gb_line gb i = Some sl \<and> sl_holds sl (drop (line_start s i) (take (line_stop s i) s))"
proof -
  obtain s1 s2 where s: "s = s1 @ s2" "gb_rel gb s1 s2" using h by (rule gb_holdsE)
  obtain rf rt where r:
    "gb_line gb i = (if rf = rt then Some slice_NULL else slice_from_raw_offsets rf rt gb)"
    "anchor (gb_gap gb) s1 s2 rf (line_start s i)"
    "anchor (gb_gap gb) s1 s2 rt (line_stop s i)" "rf \<le> rt"
    using gb_line_anchors[OF s(2)] i unfolding s(1) by blast
  note le = line_start_le_stop(1)[OF i]
  show ?thesis
  proof (cases "rf = rt")
    case True
    then have "\<not> line_start s i < line_stop s i"
      using anchor_mono[OF r(2,3) _ gb_rel_gap[OF s(2)]] by auto
    then show ?thesis using r(1) True by simp
  next
    case False
    then show ?thesis
      using slice_from_anchors[OF s(2) r(2,3)] r(1,4) le s(1) by (metis nat_less_le)
  qed
qed

lemma len_lines_holds: "gb_holds gb s \<Longrightarrow> len_lines gb = Some (length (newlines s) + 1)"
  by (elim gb_holdsE) (simp add: len_lines_correct)

lemma those_map_Some:
  "(\<And>x. x \<in> set xs \<Longrightarrow> f x = Some (g x)) \<Longrightarrow> those (map f xs) = Some (map g xs)"
  by (induction xs) auto

lemma concat_lines:
  "n \<le> length (newlines s) \<Longrightarrow>
   concat (map (\<lambda>i. drop (line_start s i) (take (line_stop s i) s)) [0..<Suc n]) =
     take (line_stop s n) s"
proof (induction n)
  case (Suc n)
  have "take (line_stop s n) s @ drop (line_stop s n) (take (line_stop s (Suc n)) s) =
      take (line_stop s (Suc n)) s"
    using line_start_le_stop(1)[OF Suc.prems] line_start_Suc[of n s] Suc.prems
    by (metis Suc_le_lessD append_take_drop_id min.absorb1 take_take)
  moreover have "concat (map (\<lambda>i. drop (line_start s i) (take (line_stop s i) s)) [0..<Suc n]) =
      take (line_stop s n) s"
    using Suc by simp
  ultimately show ?case
    using line_start_Suc[of n s] Suc.prems by (subst upt_Suc_append) (simp_all del: upt_Suc)
qed (simp add: line_start_def)

text \<open>The lines are the text cut behind every newline: their contents, in order, are the text.\<close>

lemma iter_lines_correct:
  assumes h: "gb_holds gb s"
  shows "\<exists>sls. iter_lines gb = Some sls \<and> length sls = length (newlines s) + 1 \<and>
     (\<forall>i < length sls. sl_holds (sls ! i) (drop (line_start s i) (take (line_stop s i) s))) \<and>
     map_option concat (those (map sl_to_string sls)) = Some s"
proof -
  define f where "f i = the (gb_line gb i)" for i
  let ?n = "length (newlines s)" and ?txt = "\<lambda>i. drop (line_start s i) (take (line_stop s i) s)"
  have f: "gb_line gb i = Some (f i)" "sl_holds (f i) (?txt i)" if "i \<le> ?n" for i
    using gb_line_correct[OF h that] by (auto simp: f_def)
  have "those (map (gb_line gb) [0..<Suc ?n]) = Some (map f [0..<Suc ?n])"
    by (rule those_map_Some) (use f(1) in auto)
  then have it: "iter_lines gb = Some (map f [0..<Suc ?n])"
    by (simp add: iter_lines_def len_lines_holds[OF h])
  have "those (map sl_to_string (map f [0..<Suc ?n])) = Some (map ?txt [0..<Suc ?n])"
    unfolding map_map o_def by (rule those_map_Some) (use f(2) sl_to_string_holds in auto)
  moreover have "concat (map ?txt [0..<Suc ?n]) = s"
    unfolding concat_lines[OF order_refl] by (simp add: line_stop_def)
  ultimately have "map_option concat (those (map sl_to_string (map f [0..<Suc ?n]))) = Some s"
    by simp
  moreover have "\<forall>i < length (map f [0..<Suc ?n]). sl_holds (map f [0..<Suc ?n] ! i) (?txt i)"
    using f(2) by (simp del: upt_Suc)
  ultimately show ?thesis using it
    by (intro exI[of _ "map f [0..<Suc ?n]"]) (simp del: upt_Suc)
qed

lemma line_is_blank_correct:
  assumes h: "gb_holds gb s" and i: "i \<le> length (newlines s)"
  shows "line_is_blank gb i =
    Some (drop (line_start s i) (take (line_stop s i) s) \<in> {[], [newline]})"
proof -
  obtain sl where sl: "gb_line gb i = Some sl"
    "sl_holds sl (drop (line_start s i) (take (line_stop s i) s))"
    using gb_line_correct[OF h i] by blast
  obtain u v where "sl_as_strs sl = Some (u, v)"
    "drop (line_start s i) (take (line_stop s i) s) = u @ v"
    using sl_as_strs_holds[OF sl(2)] by blast
  then show ?thesis using sl(1)
    by (cases u; cases v) (auto simp: line_is_blank_def)
qed

lemma line_len_chars_correct:
  assumes h: "gb_holds gb s" and i: "i \<le> length (newlines s)"
  shows "line_len_chars gb i = Some (line_stop s i - line_start s i)"
proof -
  obtain s1 s2 where s: "s = s1 @ s2" "gb_rel gb s1 s2" using h by (rule gb_holdsE)
  have les: "gb_line_endings gb = map (\<lambda>c. (raw_pos (gb_gap gb) s1 s2 c, c)) (newlines s)"
    using gb_rel_line_endings[OF s(2)] s(1) by simp
  have nth: "nth_opt (gb_line_endings gb) (i - 1) =
      Some (raw_pos (gb_gap gb) s1 s2 (newlines s ! (i - 1)), newlines s ! (i - 1))" if "i \<noteq> 0"
    using that i by (simp add: les nth_opt_def)
  have snd: "snd (gb_line_endings gb ! i) = newlines s ! i" if "i < length (newlines s)"
    using that by (simp add: les)
  have nil: "gb_line_endings gb = [] \<longleftrightarrow> newlines s = []"
    and len: "length (gb_line_endings gb) = length (newlines s)" by (simp_all add: les)
  have "i < length (newlines s) + 1" using i by simp
  then have "line_len_chars gb i =
      (if newlines s = [] then Some (length s) else usub (line_stop s i) (line_start s i))"
    using gb_holds_len[OF h] nth snd
    by (cases "i = 0") (auto simp: line_len_chars_def len_lines_holds[OF h] Let_def nil len line_start_def
        line_stop_def)
  then show ?thesis
    using i line_start_le_stop(1)[OF i] by (auto simp: usub_def line_start_def line_stop_def)
qed

subsection \<open>Characters and lines\<close>

lemma char_to_line_correct:
  assumes h: "gb_holds gb s"
  shows "try_char_to_line gb k =
    Some (if k \<le> length s then Some (length (filter (\<lambda>c. c < k) (newlines s))) else None)"
proof -
  obtain s1 s2 where s: "s = s1 @ s2" "gb_rel gb s1 s2" using h by (rule gb_holdsE)
  have les: "gb_line_endings gb = map (\<lambda>c. (raw_pos (gb_gap gb) s1 s2 c, c)) (newlines s)"
    using gb_rel_line_endings[OF s(2)] s(1) by simp
  have pp: "partition_point (\<lambda>(_, i). i < k) (gb_line_endings gb) =
      length (filter (\<lambda>c. c < k) (newlines s))"
    unfolding les partition_point_map o_def
    using partition_point_sorted_filter(1)[OF sorted_newlines, of k s]
      partition_point_le[of "\<lambda>c. c < k" "newlines s"]
    by simp (metis length_take min.absorb2)
  have all: "filter (\<lambda>c. c < length s) (newlines s) = newlines s"
    using newlines_less[of _ s] by (auto simp: filter_id_conv)
  show ?thesis
    using gb_holds_len[OF h] all
    by (auto simp: try_char_to_line_def pp len_lines_holds[OF h] usub_def)
qed

lemma line_to_char_correct:
  assumes h: "gb_holds gb s"
  shows "try_line_to_char gb i =
    Some (if i \<le> length (newlines s) then Some (line_start s i) else None)"
proof -
  obtain s1 s2 where s: "s = s1 @ s2" "gb_rel gb s1 s2" using h by (rule gb_holdsE)
  have les: "gb_line_endings gb = map (\<lambda>c. (raw_pos (gb_gap gb) s1 s2 c, c)) (newlines s)"
    using gb_rel_line_endings[OF s(2)] s(1) by simp
  show ?thesis
    by (auto simp: try_line_to_char_def len_lines_holds[OF h] les usub_def nth_opt_def line_start_def)
qed

lemma filter_newlines_take:
  assumes "i \<le> length (newlines s)"
  shows "filter (\<lambda>c. c < line_start s i) (newlines s) = take i (newlines s)"
proof -
  let ?ns = "newlines s"
  have "filter (\<lambda>c. c < line_start s i) (take i ?ns @ drop i ?ns) = take i ?ns"
  proof (subst filter_append, rule trans[OF arg_cong2[where f = append]])
    show "filter (\<lambda>c. c < line_start s i) (take i ?ns) = take i ?ns"
    proof (rule filter_True, rule ballI)
      fix x assume "x \<in> set (take i ?ns)"
      then obtain j where j: "j < i" "x = ?ns ! j" using assms by (auto simp: in_set_conv_nth)
      then have "j < i - 1 \<or> j = i - 1" "i - 1 < length ?ns" "i \<noteq> 0" using assms by linarith+
      then show "x < line_start s i"
        using j newlines_mono[of j "i - 1" s] by (auto simp: line_start_def)
    qed
    show "filter (\<lambda>c. c < line_start s i) (drop i ?ns) = []"
    proof (rule filter_False, rule ballI)
      fix x assume "x \<in> set (drop i ?ns)"
      then obtain a where "a < length ?ns - i" "x = ?ns ! (i + a)"
        by (auto simp: in_set_conv_nth)
      then obtain j where j: "i \<le> j" "x = ?ns ! j" "j < length ?ns"
        by (intro that[of "i + a"]) auto
      moreover have "i = 0 \<or> i - 1 < j" using j(1) by linarith
      ultimately show "\<not> x < line_start s i"
        using newlines_mono[of "i - 1" j s] by (auto simp: line_start_def)
    qed
  qed simp
  then show ?thesis by simp
qed

lemma char_to_line_line_to_char:
  assumes h: "gb_holds gb s" and i: "i \<le> length (newlines s)"
  shows "do { c \<leftarrow> line_to_char gb i; char_to_line gb c } = Some i"
proof -
  have "line_start s i \<le> length s" using line_start_le_stop[OF i] by simp
  then show ?thesis
    using i by (simp add: line_to_char_def char_to_line_def line_to_char_correct[OF h]
      char_to_line_correct[OF h] filter_newlines_take)
qed

lemma line_to_char_char_to_line:
  assumes h: "gb_holds gb s" and k: "k \<le> length s"
  shows "\<exists>l c. char_to_line gb k = Some l \<and> line_to_char gb l = Some c \<and> c \<le> k \<and>
           newline \<notin> set (drop c (take k s))"
proof -
  let ?ns = "newlines s"
  define l where "l = length (filter (\<lambda>c. c < k) ?ns)"
  have take: "take l ?ns = filter (\<lambda>c. c < k) ?ns" and drop: "drop l ?ns = filter (\<lambda>c. k \<le> c) ?ns"
    using partition_point_sorted_filter[OF sorted_newlines, of k s]
      partition_point_le[of "\<lambda>c. c < k" ?ns] unfolding l_def by (metis length_take min.absorb2)+
  have l: "l \<le> length ?ns" by (simp add: l_def)
  have "line_start s l \<le> k"
  proof (cases "l = 0")
    case False
    have "take l ?ns ! (l - 1) \<in> set (take l ?ns)" by (rule nth_mem) (use l False in simp)
    then have "?ns ! (l - 1) \<in> set (take l ?ns)" using False by simp
    then show ?thesis using False unfolding take by (simp add: line_start_def)
  qed (simp add: line_start_def)
  moreover have "newline \<notin> set (drop (line_start s l) (take k s))"
  proof
    assume "newline \<in> set (drop (line_start s l) (take k s))"
    then obtain j where "j < k - line_start s l" "s ! (line_start s l + j) = newline"
      using k by (auto simp: in_set_conv_nth)
    then have j: "line_start s l + j < k" "s ! (line_start s l + j) = newline" by simp_all
    let ?m = "line_start s l + j"
    have "?m \<in> set (filter (\<lambda>c. c < k) ?ns)" using j k by (simp add: newlines_def)
    then have "?m \<in> set (filter (\<lambda>c. c < line_start s l) ?ns)"
      unfolding filter_newlines_take[OF l] take .
    then show False by simp
  qed
  ultimately show ?thesis
    using k l by (simp add: line_to_char_def char_to_line_def line_to_char_correct[OF h]
        char_to_line_correct[OF h] flip: l_def)
qed

subsection \<open>From a byte offset to a character\<close>

text \<open>The raw offset of a character boundary, on the left of the gap when it is at the gap.\<close>

lemma byte_to_raw_byte_anchor:
  assumes rel: "gb_rel gb s1 s2" and k: "k \<le> length (s1 @ s2)"
  shows "anchor (gb_gap gb) s1 s2 (byte_to_raw_byte gb (blen (take k (s1 @ s2)))) k"
    "k = length s1 \<Longrightarrow> byte_to_raw_byte gb (blen (take k (s1 @ s2))) = blen s1"
proof -
  obtain g :: "u8 list" where g: "gb_gap_start gb = blen s1" "gb_gap gb = length g"
    by (rule gb_relE[OF rel]) blast
  show "k = length s1 \<Longrightarrow> byte_to_raw_byte gb (blen (take k (s1 @ s2))) = blen s1"
    by (simp add: byte_to_raw_byte_def g)
  show "anchor (gb_gap gb) s1 s2 (byte_to_raw_byte gb (blen (take k (s1 @ s2)))) k"
  proof (cases "k \<le> length s1")
    case True
    then show ?thesis using blen_take_le[of k s1]
      by (simp add: byte_to_raw_byte_def anchor_def g not_less)
  next
    case False
    then have "0 < blen (take (k - length s1) s2)" using k by (cases s2) auto
    then show ?thesis using False k by (simp add: byte_to_raw_byte_def anchor_def g)
  qed
qed

lemma slice_from_byte_offsets_correct:
  assumes h: "gb_holds gb s" and ij: "i \<le> j" "j \<le> length s"
  shows "\<exists>sl. slice_from_byte_offsets gb (blen (take i s)) (blen (take j s)) = Some sl \<and>
           sl_holds sl (drop i (take j s))"
proof (cases "i = j")
  case True
  then show ?thesis by (simp add: slice_from_byte_offsets_def)
next
  case False
  obtain s1 s2 where s: "s = s1 @ s2" "gb_rel gb s1 s2" using h by (rule gb_holdsE)
  have "i \<le> length (s1 @ s2)" "j \<le> length (s1 @ s2)" using ij s(1) by simp_all
  note a = byte_to_raw_byte_anchor(1)[OF s(2) this(1)] byte_to_raw_byte_anchor(1)[OF s(2) this(2)]
  have "blen (take i s) < blen (take j s)" using False ij by (intro blen_take_less) simp_all
  then show ?thesis
    using slice_from_anchors[OF s(2) a] False ij(1)
    unfolding s(1)[symmetric] slice_from_byte_offsets_def by (metis less_irrefl nat_less_le)
qed

lemma byte_to_char_line_found:
  "list_all (\<lambda>le. fst le < raw) xs \<Longrightarrow> fst y = raw \<Longrightarrow>
   byte_to_char_line raw acc (xs @ y # ys) = Inl (snd y)"
  by (induction xs arbitrary: acc) auto

lemma byte_to_char_line_between:
  "list_all (\<lambda>le. fst le < raw) xs \<Longrightarrow> list_all (\<lambda>le. raw < fst le) ys \<Longrightarrow>
   byte_to_char_line raw acc (xs @ ys) =
     Inr (if xs = [] then acc else last xs, if ys = [] then None else Some (fst (hd ys)))"
proof (induction xs arbitrary: acc)
  case Nil
  then show ?case by (cases ys) auto
qed auto

lemma byte_to_char_scan_utf8:
  assumes "str_ok u" "str_ok v"
    "chars_s it = \<lparr>sl_from = f, sl_left = utf8 u, sl_right = utf8 v\<rparr>"
    "chars_cur it = blen (take i (u @ v))" "i \<le> k" "k \<le> length (u @ v)" "k < i + n"
  shows "byte_to_char_scan n (b + blen (take k (u @ v))) it (b + blen (take i (u @ v))) (c + i) =
    Some (c + k)"
  using assms
proof (induction n arbitrary: i it)
  case (Suc n)
  show ?case
  proof (cases "i < length (u @ v)")
    case True
    note nxt = chars_next_utf8[OF Suc.prems(1,2) True Suc.prems(3,4)]
    show ?thesis
    proof (cases "i = k")
      case False
      then have lt: "i < k" using Suc.prems(5) by simp
      have ne: "blen (take i (u @ v)) \<noteq> blen (take k (u @ v))"
        using blen_take_less[OF lt True] by simp
      let ?it = "it\<lparr>chars_cur := blen (take (Suc i) (u @ v))\<rparr>"
      have "byte_to_char_scan n (b + blen (take k (u @ v))) ?it
          (b + blen (take (Suc i) (u @ v))) (c + Suc i) = Some (c + k)"
        by (rule Suc.IH) (use Suc.prems lt in simp_all)
      moreover have "b + blen (take (Suc i) (u @ v)) =
          b + blen (take i (u @ v)) + len_utf8 ((u @ v) ! i)"
        using blen_take_Suc[OF True] by simp
      ultimately show ?thesis using nxt ne by (simp del: take_append)
    qed (use nxt in simp)
  next
    case False
    then have "sl_len (chars_s it) \<le> chars_cur it" "i = k"
      using Suc.prems by (simp_all add: sl_len_def)
    then show ?thesis by (simp add: chars_next_end)
  qed
qed simp

lemma byte_to_char_correct:
  assumes h: "gb_holds gb s" and k: "k \<le> length s"
  shows "byte_to_char gb (blen (take k s)) = Some k"
proof -
  obtain s1 s2 where s: "s = s1 @ s2" "gb_rel gb s1 s2" using h by (rule gb_holdsE)
  let ?gap = "gb_gap gb" and ?rp = "raw_pos (gb_gap gb) s1 s2"
  let ?f = "\<lambda>c. (?rp c, c)"
  have k': "k \<le> length (s1 @ s2)" using k s(1) by simp
  define raw where "raw = byte_to_raw_byte gb (blen (take k s))"
  have raw: "anchor ?gap s1 s2 raw k"
    using byte_to_raw_byte_anchor(1)[OF s(2) k'] by (simp only: raw_def s(1))
  define P Q where "P = filter (\<lambda>c. c < k) (newlines s)" and "Q = filter (\<lambda>c. k \<le> c) (newlines s)"
  have "newlines s = P @ Q"
    unfolding P_def Q_def using partition_point_sorted_filter[OF sorted_newlines, of k s]
    by (metis append_take_drop_id)
  then have les: "gb_line_endings gb = map ?f P @ map ?f Q"
    and srt: "sorted_wrt (<) (P @ Q)"
    using gb_rel_line_endings[OF s(2)] sorted_newlines[of s] s(1) by simp_all
  have PQ: "\<And>c. c \<in> set P \<Longrightarrow> c < k \<and> c < length (s1 @ s2)"
    "\<And>c. c \<in> set Q \<Longrightarrow> k \<le> c \<and> c < length (s1 @ s2)"
    using newlines_less[of _ s] s(1) by (auto simp: P_def Q_def)
  note less = raw_pos_less_anchor[OF raw _ gb_rel_gap[OF s(2)]]
  have P: "list_all (\<lambda>le. fst le < raw) (map ?f P)"
    using PQ(1) less by (auto simp: list_all_iff)
  show ?thesis
  proof (cases "Q \<noteq> [] \<and> ?rp (hd Q) = raw")
    case True
    then obtain c Q' where Q: "Q = c # Q'" "?rp c = raw" by (cases Q) auto
    have c: "k \<le> c" "c < length (s1 @ s2)" using PQ(2)[of c] Q(1) by auto
    have "raw \<le> ?rp k" by (rule anchor_le_raw_pos[OF raw]) (use c in auto)
    then have "\<not> k < c"
      using raw_pos_less_iff[of k s1 s2 ?gap c] c gb_rel_gap[OF s(2)] Q(2) by auto
    then have "c = k" using c by simp
    then show ?thesis
      unfolding byte_to_char_def raw_def[symmetric] les
      using byte_to_char_line_found[OF P, of "?f c"] Q by simp
  next
    case False
    have Q: "list_all (\<lambda>le. raw < fst le) (map ?f Q)"
    proof (cases Q)
      case (Cons c Q')
      then have "raw \<noteq> ?rp c" "k \<le> c" "c < length (s1 @ s2)" using False PQ(2)[of c] by auto
      then have lt: "raw < ?rp c" using less[of c] by linarith
      have "?rp c < ?rp d" if "d \<in> set Q'" for d
        using raw_pos_less_iff[OF \<open>c < length (s1 @ s2)\<close> gb_rel_gap[OF s(2)]] srt that Cons
        by (auto simp: sorted_wrt_append)
      then show ?thesis using lt Cons by (fastforce simp: list_all_iff)
    qed simp
    define b c where "b = (if P = [] then 0 else ?rp (last P))"
      and "c = (if P = [] then 0 else last P)"
    define t where "t = (if Q = [] then length s else hd Q)"
    define rt where "rt = (if Q = [] then length (gb_data gb) else ?rp (hd Q))"
    have line: "byte_to_char_line raw (0, 0) (gb_line_endings gb) =
        Inr ((b, c), if Q = [] then None else Some (?rp (hd Q)))"
      unfolding les byte_to_char_line_between[OF P Q]
      by (auto simp: b_def c_def last_map hd_map)
    have c: "c \<le> k" "c \<le> length (s1 @ s2)" "P \<noteq> [] \<Longrightarrow> c < k"
      using PQ(1)[of "last P"] by (auto simp: c_def)
    have t: "k \<le> t" "t \<le> length s" using PQ(2)[of "hd Q"] k s(1) by (auto simp: t_def)
    have ab: "anchor ?gap s1 s2 b c"
      using anchor_raw_pos[OF c(2)] by (auto simp: b_def c_def)
    have data: "length (gb_data gb) = blen s1 + ?gap + blen s2" by (rule gb_relE[OF s(2)]) simp
    have at: "anchor ?gap s1 s2 rt t"
    proof (cases "Q = []")
      case True
      then show ?thesis by (simp add: rt_def t_def anchor_def data s(1))
    next
      case False
      have "t \<le> length (s1 @ s2)" using t(2) s(1) by simp
      then show ?thesis using anchor_raw_pos[of t s1 s2 ?gap] False by (simp add: rt_def t_def)
    qed
    obtain sl where sl: "slice_from_raw_offsets b rt gb = Some sl"
      "sl_holds sl (drop c (take t (s1 @ s2)))"
      by (rule slice_from_anchors[OF s(2) ab at]) (use c t in \<open>auto simp: b_def c_def\<close>)
    let ?w = "drop c (take t s)"
    obtain u v where uv: "sl = \<lparr>sl_from = sl_from sl, sl_left = utf8 u, sl_right = utf8 v\<rparr>"
      "?w = u @ v" "str_ok u" "str_ok v"
      using sl(2) s(1) by (auto elim: sl_holdsE)
    have start: "raw_byte_to_byte gb b = Some (blen (take c s))"
      using raw_byte_to_byte_raw_pos[OF s(2), of "last P"] s(1)
      by (auto simp: b_def c_def raw_byte_to_byte_def)
    have len: "k - c \<le> length (u @ v)" unfolding uv(2)[symmetric] using t by simp
    have "take (k - c) (u @ v) = drop c (take k s)"
      unfolding uv(2)[symmetric] using t(1) c(1) by (simp add: take_drop min_absorb1)
    then have bk: "blen (take c s) + blen (take (k - c) (u @ v)) = blen (take k s)"
      using blen_take_drop[of c "take k s"] c(1) by (simp add: min_absorb1)
    have fuel: "k - c < Suc (sl_len sl)"
    proof -
      have "sl_len sl = blen (u @ v)"
        using sl_holds_len[OF sl(2)] unfolding s(1)[symmetric] uv(2) .
      then show ?thesis using len length_le_blen[of "u @ v"] by linarith
    qed
    have scan: "byte_to_char_scan (Suc (sl_len sl)) (blen (take c s) + blen (take (k - c) (u @ v)))
        (slice_chars sl) (blen (take c s) + blen (take 0 (u @ v))) (c + 0) = Some (c + (k - c))"
      by (rule byte_to_char_scan_utf8[OF uv(3,4)])
         (use uv(1) len fuel in \<open>simp_all add: slice_chars_def\<close>)
    have to: "(case (if Q = [] then None else Some (?rp (hd Q))) of None \<Rightarrow> length (gb_data gb)
        | Some t \<Rightarrow> t) = rt" by (simp add: rt_def)
    show ?thesis
      unfolding byte_to_char_def raw_def[symmetric] line sum.case prod.case to sl(1)
        Option.bind.bind_lunit start
      using scan bk c(1) by (simp del: byte_to_char_scan.simps take_append)
  qed
qed

end
