(* ===== verification/TextStore.thy ===== *)
theory TextStore
  imports GapLine
begin

text \<open>
  What the editor relies on when it uses the gap buffer: a store of text with edits by
  character index, and a table of lines. Both are interfaces (locales) with the facts that
  follow from them, interpreted on the gap buffer; the properties of the gap buffer that
  its clients see close the theory.
\<close>

subsection \<open>A store of text\<close>

datatype text_edit = Put nat ustr | Cut nat nat

text \<open>What an edit does to the text; \<^const>\<open>None\<close> when an index is out of range.\<close>

fun edit_text :: "text_edit \<Rightarrow> ustr \<Rightarrow> ustr option" where
  "edit_text (Put k t) s =
     (if k \<le> length s \<and> str_ok t then Some (take k s @ t @ drop k s) else None)"
| "edit_text (Cut i j) s =
     (if i \<le> j \<and> j \<le> length s then Some (take i s @ drop j s) else None)"

fun edit_text_all :: "text_edit list \<Rightarrow> ustr \<Rightarrow> ustr option" where
  "edit_text_all [] s = Some s"
| "edit_text_all (e # es) s = do { s \<leftarrow> edit_text e s; edit_text_all es s }"

fun edit_store ::
  "('b \<Rightarrow> nat \<Rightarrow> ustr \<Rightarrow> 'b option) \<Rightarrow> ('b \<Rightarrow> nat \<Rightarrow> nat \<Rightarrow> 'b option) \<Rightarrow> text_edit list \<Rightarrow> 'b \<Rightarrow> 'b option"
where
  "edit_store ins del [] b = Some b"
| "edit_store ins del (Put k t # es) b = do { b \<leftarrow> ins b k t; edit_store ins del es b }"
| "edit_store ins del (Cut i j # es) b = do { b \<leftarrow> del b i j; edit_store ins del es b }"

locale text_store =
  fixes holds :: "'b \<Rightarrow> ustr \<Rightarrow> bool"
    and make :: "ustr \<Rightarrow> 'b option"
    and ins :: "'b \<Rightarrow> nat \<Rightarrow> ustr \<Rightarrow> 'b option"
    and del :: "'b \<Rightarrow> nat \<Rightarrow> nat \<Rightarrow> 'b option"
    and readout :: "'b \<Rightarrow> ustr option"
  assumes make_holds: "str_ok s \<Longrightarrow> \<exists>b. make s = Some b \<and> holds b s"
    and ins_holds: "holds b s \<Longrightarrow> k \<le> length s \<Longrightarrow> str_ok t \<Longrightarrow>
      \<exists>b'. ins b k t = Some b' \<and> holds b' (take k s @ t @ drop k s)"
    and del_holds: "holds b s \<Longrightarrow> i \<le> j \<Longrightarrow> j \<le> length s \<Longrightarrow>
      \<exists>b'. del b i j = Some b' \<and> holds b' (take i s @ drop j s)"
    and readout_holds: "holds b s \<Longrightarrow> readout b = Some s"
begin

lemma holds_unique: "holds b s \<Longrightarrow> holds b t \<Longrightarrow> s = t"
  by (metis option.inject readout_holds)

lemma edit_store_holds:
  "holds b s \<Longrightarrow> edit_text_all es s = Some s' \<Longrightarrow>
   \<exists>b'. edit_store ins del es b = Some b' \<and> holds b' s'"
proof (induction es arbitrary: b s)
  case (Cons e es)
  show ?case
  proof (cases e)
    case (Put k t)
    then have e: "k \<le> length s" "str_ok t" "edit_text_all es (take k s @ t @ drop k s) = Some s'"
      using Cons.prems(2) by (simp_all split: if_splits)
    obtain b' where b': "ins b k t = Some b'" "holds b' (take k s @ t @ drop k s)"
      using ins_holds[OF Cons.prems(1) e(1,2)] by blast
    show ?thesis using Cons.IH[OF b'(2) e(3)] b'(1) Put by simp
  next
    case (Cut i j)
    then have e: "i \<le> j" "j \<le> length s" "edit_text_all es (take i s @ drop j s) = Some s'"
      using Cons.prems(2) by (simp_all split: if_splits)
    obtain b' where b': "del b i j = Some b'" "holds b' (take i s @ drop j s)"
      using del_holds[OF Cons.prems(1) e(1,2)] by blast
    show ?thesis using Cons.IH[OF b'(2) e(3)] b'(1) Cut by simp
  qed
qed simp

lemma session_readout:
  assumes "str_ok s" "edit_text_all es s = Some s'"
  shows "do { b \<leftarrow> make s; b \<leftarrow> edit_store ins del es b; readout b } = Some s'"
proof -
  obtain b where b: "make s = Some b" "holds b s" using make_holds[OF assms(1)] by blast
  obtain b' where "edit_store ins del es b = Some b'" "holds b' s'"
    using edit_store_holds[OF b(2) assms(2)] by blast
  then show ?thesis using b(1) readout_holds by simp
qed

lemma put_then_cut:
  assumes "holds b s" "k \<le> length s" "str_ok t"
  shows "\<exists>b'. edit_store ins del [Put k t, Cut k (k + length t)] b = Some b' \<and> holds b' s"
  by (rule edit_store_holds[OF assms(1)]) (use assms in simp)

end

interpretation gap: text_store gb_holds gb_from_str gb_insert_str gb_remove_range gb_to_string
  by unfold_locales
     (blast intro: gb_from_str_holds gb_insert_str_holds gb_remove_range_holds gb_to_string_holds)+

subsection \<open>A table of lines\<close>

text \<open>
  Lines are what the newlines cut the text into. A client that knows the two laws below
  can go from a character to its line and column and back.
\<close>

locale line_table =
  fixes holds :: "'b \<Rightarrow> ustr \<Rightarrow> bool"
    and line_of :: "'b \<Rightarrow> nat \<Rightarrow> nat option"
    and start_of :: "'b \<Rightarrow> nat \<Rightarrow> nat option"
    and n_lines :: "'b \<Rightarrow> nat option"
    and len_of :: "'b \<Rightarrow> nat \<Rightarrow> nat option"
  assumes line_of: "holds b s \<Longrightarrow> k \<le> length s \<Longrightarrow>
      \<exists>l. line_of b k = Some l \<and> l \<le> length (newlines s) \<and> line_start s l \<le> k \<and>
          newline \<notin> set (drop (line_start s l) (take k s))"
    and start_of: "holds b s \<Longrightarrow> i \<le> length (newlines s) \<Longrightarrow> start_of b i = Some (line_start s i)"
    and line_of_start: "holds b s \<Longrightarrow> i \<le> length (newlines s) \<Longrightarrow> line_of b (line_start s i) = Some i"
    and n_lines: "holds b s \<Longrightarrow> n_lines b = Some (length (newlines s) + 1)"
    and len_of: "holds b s \<Longrightarrow> i \<le> length (newlines s) \<Longrightarrow>
      len_of b i = Some (line_stop s i - line_start s i)"
begin

lemma before_line_stop:
  assumes "holds b s" "k \<le> length s" "line_of b k = Some l"
  shows "k < line_stop s l \<or> (l = length (newlines s) \<and> k \<le> line_stop s l)"
proof (cases "l < length (newlines s)")
  case True
  have l: "line_start s l \<le> k" "newline \<notin> set (drop (line_start s l) (take k s))"
    using line_of[OF assms(1,2)] assms(3) by auto
  have "\<not> newlines s ! l < k"
  proof
    assume lt: "newlines s ! l < k"
    have ge: "line_start s l \<le> newlines s ! l"
      using newlines_mono[of "l - 1" l s] True by (auto simp: line_start_def Suc_le_eq)
    let ?j = "newlines s ! l - line_start s l"
    have "drop (line_start s l) (take k s) ! ?j = newline"
      using ge lt assms(2) newlines_nth(2)[OF True] by simp
    moreover have "?j < length (drop (line_start s l) (take k s))" using ge lt assms(2) by simp
    ultimately show False using l(2) nth_mem by metis
  qed
  then show ?thesis using True by (simp add: line_stop_def)
next
  case False
  then show ?thesis using line_of[OF assms(1,2)] assms(2,3) by (auto simp: line_stop_def)
qed

lemma start_of_line_of:
  "holds b s \<Longrightarrow> k \<le> length s \<Longrightarrow>
   \<exists>l c. line_of b k = Some l \<and> start_of b l = Some c \<and> c \<le> k \<and> newline \<notin> set (drop c (take k s))"
  using line_of start_of by fastforce

end

interpretation gap: line_table gb_holds char_to_line line_to_char len_lines line_len_chars
proof unfold_locales
  fix b s k assume h: "gb_holds b s" and k: "k \<le> length s"
  obtain l c where lc: "char_to_line b k = Some l" "line_to_char b l = Some c" "c \<le> k"
    "newline \<notin> set (drop c (take k s))"
    using line_to_char_char_to_line[OF h k] by blast
  have "l \<le> length (newlines s) \<and> c = line_start s l"
    using lc(2) by (auto simp: line_to_char_def line_to_char_correct[OF h] split: if_splits)
  then show "\<exists>l. char_to_line b k = Some l \<and> l \<le> length (newlines s) \<and> line_start s l \<le> k \<and>
      newline \<notin> set (drop (line_start s l) (take k s))"
    using lc by blast
next
  fix b s i assume h: "gb_holds b s" and i: "i \<le> length (newlines s)"
  show st: "line_to_char b i = Some (line_start s i)"
    using i by (simp add: line_to_char_def line_to_char_correct[OF h])
  show "char_to_line b (line_start s i) = Some i"
    using char_to_line_line_to_char[OF h i] st by simp
  show "line_len_chars b i = Some (line_stop s i - line_start s i)"
    by (rule line_len_chars_correct[OF h i])
next
  fix b s assume "gb_holds b s"
  then show "len_lines b = Some (length (newlines s) + 1)" by (rule len_lines_holds)
qed

end
