(* ===== verification/GapProperties.thy ===== *)
theory GapProperties
  imports TextStore
begin

text \<open>The properties of the gap buffer, over its public operations.\<close>

text \<open>
  C1: inserting a string at a character index that is not behind the end never panics, and
  the buffer then holds the old text with the string spliced in; this covers growing the
  gap, moving it, the character index conversion with its cache, and the line endings.
\<close>

theorem gb_insert_str_text:
  assumes "gb_holds gb s" "k \<le> length s" "str_ok t"
  shows "\<exists>gb'. gb_insert_str gb k t = Some gb' \<and> gb_holds gb' (take k s @ t @ drop k s) \<and>
           gb_to_string gb' = Some (take k s @ t @ drop k s)"
  using gap.ins_holds[OF assms] gap.readout_holds by blast

lemma gb_insert_str_text_witness:
  "\<exists>gb gb'. gb_from_str [97, 10, 98] = Some gb \<and> gb_insert_str gb 2 [233, 10] = Some gb' \<and>
     gb_to_string gb' = Some [97, 10, 233, 10, 98]"
proof -
  obtain gb where gb: "gb_from_str [97, 10, 98] = Some gb" "gb_holds gb [97, 10, 98]"
    using gap.make_holds[of "[97, 10, 98]"] by (auto simp: uchar_ok_def)
  show ?thesis
    using gb_insert_str_text[OF gb(2), of 2 "[233, 10]"] gb(1) by (auto simp: uchar_ok_def)
qed

text \<open>
  C2: removing a character range that lies in the text never panics, and removes exactly
  the characters of the range.
\<close>

theorem gb_remove_range_text:
  assumes "gb_holds gb s" "i \<le> j" "j \<le> length s"
  shows "\<exists>gb'. gb_remove_range gb i j = Some gb' \<and> gb_holds gb' (take i s @ drop j s) \<and>
           gb_to_string gb' = Some (take i s @ drop j s)"
  using gap.del_holds[OF assms] gap.readout_holds by blast

lemma gb_remove_range_text_witness:
  "\<exists>gb gb'. gb_from_str [97, 10, 98] = Some gb \<and> gb_remove_range gb 0 2 = Some gb' \<and>
     gb_to_string gb' = Some [98]"
proof -
  obtain gb where gb: "gb_from_str [97, 10, 98] = Some gb" "gb_holds gb [97, 10, 98]"
    using gap.make_holds[of "[97, 10, 98]"] by (auto simp: uchar_ok_def)
  show ?thesis using gb_remove_range_text[OF gb(2), of 0 2] gb(1) by auto
qed

text \<open>
  The single character operations: a character inserted at an index can be read back
  there, and removing it restores the text.
\<close>

theorem gb_char_insert_remove:
  assumes "gb_holds gb s" "k \<le> length s" "uchar_ok c"
  shows "\<exists>gb1 gb2 gb3. gb_insert_char gb k c = Some gb1 \<and>
           gb_holds gb1 (take k s @ c # drop k s) \<and>
           gb_char gb1 k = Some (c, gb2) \<and> gb_remove_char gb2 k = Some gb3 \<and> gb_holds gb3 s"
proof -
  let ?s = "take k s @ c # drop k s"
  have k: "k < length ?s" "?s ! k = c" "take k ?s @ drop (Suc k) ?s = s"
    using assms(2) by (simp_all add: nth_append)
  obtain gb1 where gb1: "gb_insert_char gb k c = Some gb1" "gb_holds gb1 ?s"
    using gb_insert_char_holds[OF assms] by blast
  obtain gb2 where gb2: "gb_char gb1 k = Some (c, gb2)" "gb_holds gb2 ?s"
    using gb_char_correct[OF gb1(2) k(1)] unfolding k(2) by blast
  obtain gb3 where "gb_remove_char gb2 k = Some gb3" "gb_holds gb3 s"
    using gb_remove_char_holds[OF gb2(2) k(1)] unfolding k(3) by blast
  then show ?thesis using gb1 gb2 by blast
qed

lemma gb_char_insert_remove_witness:
  "\<exists>gb gb1 gb2 gb3. gb_from_str [8364] = Some gb \<and> gb_insert_char gb 1 128512 = Some gb1 \<and>
     gb_char gb1 1 = Some (128512, gb2) \<and> gb_remove_char gb2 1 = Some gb3 \<and> gb_holds gb3 [8364]"
proof -
  obtain gb where gb: "gb_from_str [8364] = Some gb" "gb_holds gb [8364]"
    using gap.make_holds[of "[8364]"] by (auto simp: uchar_ok_def)
  show ?thesis
    using gb_char_insert_remove[OF gb(2), of 1 128512] gb(1) by (auto simp: uchar_ok_def)
qed

text \<open>
  C3: a whole session: a buffer made from a string, edited by any sequence of insertions
  and removals with indices in range, prints the string that the same edits make of a list
  of characters.
\<close>

theorem gb_session:
  assumes "str_ok s" "edit_text_all es s = Some s'"
  shows "do { gb \<leftarrow> gb_from_str s;
              gb \<leftarrow> edit_store gb_insert_str gb_remove_range es gb;
              gb_to_string gb } = Some s'"
  by (rule gap.session_readout[OF assms])

lemma gb_session_witness:
  "do { gb \<leftarrow> gb_from_str [97, 98, 99];
        gb \<leftarrow> edit_store gb_insert_str gb_remove_range [Put 1 [10, 233], Cut 0 2, Put 3 [120]] gb;
        gb_to_string gb } = Some [233, 98, 99, 120]"
  by (rule gb_session) (simp_all add: uchar_ok_def)

text \<open>
  C4: character index and byte offset determine each other: the byte offset of a character
  is the length of the UTF-8 of the text before it, and the scan back finds the character.
\<close>

theorem byte_char_roundtrip:
  assumes "gb_holds gb s" "k \<le> length s"
  shows "\<exists>gb'. char_to_byte gb k = Some (blen (take k s), gb') \<and> gb_holds gb' s \<and>
           byte_to_char gb' (blen (take k s)) = Some k"
proof -
  obtain s1 s2 where s: "s = s1 @ s2" "gb_rel gb s1 s2" using assms(1) by (rule gb_holdsE)
  obtain gb' where gb': "char_to_byte gb k = Some (blen (take k (s1 @ s2)), gb')" "gb_rel gb' s1 s2"
    by (rule char_to_byte_correct[OF s(2)]) (use assms(2) s(1) in auto)
  then have "gb_holds gb' s" using s(1) gb_holdsI by blast
  then show ?thesis using gb'(1) byte_to_char_correct[OF _ assms(2)] s(1) by blast
qed

lemma byte_char_roundtrip_witness:
  "\<exists>gb gb'. gb_from_str [8364, 10, 233] = Some gb \<and> char_to_byte gb 2 = Some (4, gb') \<and>
     byte_to_char gb' 4 = Some 2"
proof -
  obtain gb where gb: "gb_from_str [8364, 10, 233] = Some gb" "gb_holds gb [8364, 10, 233]"
    using gap.make_holds[of "[8364, 10, 233]"] by (auto simp: uchar_ok_def)
  have "blen (take 2 [8364, 10, 233]) = 4" by (simp add: encode_utf8_def)
  then show ?thesis using byte_char_roundtrip[OF gb(2), of 2] gb(1) by auto
qed

lemma those_nth: "those xs = Some ys \<Longrightarrow> i < length xs \<Longrightarrow> xs ! i = Some (ys ! i)"
proof (induction xs arbitrary: ys i)
  case (Cons x xs)
  then show ?case by (cases i) (auto split: option.splits)
qed simp

text \<open>
  C5: the lines: there is one more than there are newlines, line \<open>i\<close> holds the characters
  from behind the newline before it up to and with its own, and the lines one after the
  other are the text.
\<close>

theorem gb_lines_partition:
  assumes "gb_holds gb s"
  shows "\<exists>sls. iter_lines gb = Some sls \<and> len_lines gb = Some (length sls) \<and>
     length sls = length (newlines s) + 1 \<and>
     (\<forall>i < length sls. gb_line gb i = Some (sls ! i) \<and>
        sl_holds (sls ! i) (drop (line_start s i) (take (line_stop s i) s))) \<and>
     map_option concat (those (map sl_to_string sls)) = Some s"
proof -
  obtain sls where sls: "iter_lines gb = Some sls" "length sls = length (newlines s) + 1"
    "\<forall>i < length sls. sl_holds (sls ! i) (drop (line_start s i) (take (line_stop s i) s))"
    "map_option concat (those (map sl_to_string sls)) = Some s"
    using iter_lines_correct[OF assms] by blast
  have "those (map (gb_line gb) [0..<length sls]) = Some sls"
    using sls(1,2) len_lines_holds[OF assms] by (simp add: iter_lines_def del: upt_Suc)
  then have "gb_line gb i = Some (sls ! i)" if "i < length sls" for i
    using those_nth[of "map (gb_line gb) [0..<length sls]" sls i] that by simp
  then show ?thesis using sls len_lines_holds[OF assms] by auto
qed

lemma gb_lines_partition_witness:
  "\<exists>gb sls. gb_from_str [97, 10, 98] = Some gb \<and> iter_lines gb = Some sls \<and> length sls = 2 \<and>
     map_option concat (those (map sl_to_string sls)) = Some [97, 10, 98]"
proof -
  obtain gb where gb: "gb_from_str [97, 10, 98] = Some gb" "gb_holds gb [97, 10, 98]"
    using gap.make_holds[of "[97, 10, 98]"] by (auto simp: uchar_ok_def)
  have "newlines [97, 10, 98] = [1]" by (simp add: newlines_Cons) (simp add: newlines_def)
  then show ?thesis using gb_lines_partition[OF gb(2)] gb(1) by auto
qed

text \<open>
  C6: a character and its line: the line of a character starts at or in front of it with no
  newline in between and ends behind it (at it, at the end of the text), and the line of a
  line's first character is that line.
\<close>

theorem char_line_consistent:
  assumes "gb_holds gb s"
  shows "(\<forall>k \<le> length s. \<exists>l c. char_to_line gb k = Some l \<and> line_to_char gb l = Some c \<and> c \<le> k \<and>
            newline \<notin> set (drop c (take k s)) \<and>
            (k < line_stop s l \<or> (l = length (newlines s) \<and> k \<le> line_stop s l))) \<and>
    (\<forall>i \<le> length (newlines s). line_to_char gb i = Some (line_start s i) \<and>
            char_to_line gb (line_start s i) = Some i) \<and>
    (\<forall>k > length s. try_char_to_line gb k = Some None) \<and>
    (\<forall>i > length (newlines s). try_line_to_char gb i = Some None)"
  using gap.start_of_line_of[OF assms] gap.before_line_stop[OF assms] gap.start_of[OF assms]
    gap.line_of_start[OF assms] char_to_line_correct[OF assms] line_to_char_correct[OF assms]
  by (intro conjI allI impI; simp?) blast

lemma char_line_consistent_witness:
  "\<exists>gb c. gb_from_str [97, 10, 98] = Some gb \<and> line_to_char gb 1 = Some c \<and>
     char_to_line gb c = Some 1 \<and> try_char_to_line gb 4 = Some None"
proof -
  obtain gb where gb: "gb_from_str [97, 10, 98] = Some gb" "gb_holds gb [97, 10, 98]"
    using gap.make_holds[of "[97, 10, 98]"] by (auto simp: uchar_ok_def)
  have "newlines [97, 10, 98] = [1]" by (simp add: newlines_Cons) (simp add: newlines_def)
  then show ?thesis using char_line_consistent[OF gb(2)] gb(1) by auto
qed

text \<open>
  C7: a slice of a character range holds exactly those characters, wherever the gap is, and
  the three iterators over it yield them forwards, backwards, and with their indices.
\<close>

theorem gb_slice_iterators:
  assumes "gb_holds gb s" "i \<le> j" "j \<le> length s"
  shows "\<exists>sl gb'. gb_slice_chars gb i j = Some (sl, gb') \<and> gb_holds gb' s \<and>
     sl_to_string sl = Some (drop i (take j s)) \<and>
     chars_collect (Suc (sl_len sl)) (slice_chars sl) = Some (drop i (take j s)) \<and>
     rev_chars_collect (Suc (sl_len sl)) (slice_rev_chars sl) = Some (rev (drop i (take j s))) \<and>
     do { it \<leftarrow> indexed_chars sl i False; idx_chars_collect (Suc (sl_len sl)) it } =
       Some (enumerate i (drop i (take j s))) \<and>
     do { it \<leftarrow> indexed_chars sl i True; idx_chars_collect (Suc (sl_len sl)) it } =
       Some (rev (enumerate i (drop i (take j s))))"
proof -
  obtain sl gb' where sl: "gb_slice_chars gb i j = Some (sl, gb')"
    "sl_holds sl (drop i (take j s))" "gb_holds gb' s"
    using gb_slice_chars_correct[OF assms] by blast
  show ?thesis
    using sl(1,3) sl_to_string_holds[OF sl(2)] chars_collect_holds[OF sl(2)]
      rev_chars_collect_holds[OF sl(2)] indexed_chars_holds[OF sl(2), of i False]
      indexed_chars_holds[OF sl(2), of i True]
    by (simp del: chars_collect.simps rev_chars_collect.simps idx_chars_collect.simps)
qed

lemma gb_slice_iterators_witness:
  "\<exists>gb sl gb'. gb_from_str [97, 233, 98] = Some gb \<and> gb_slice_chars gb 1 3 = Some (sl, gb') \<and>
     rev_chars_collect (Suc (sl_len sl)) (slice_rev_chars sl) = Some [98, 233]"
proof -
  obtain gb where gb: "gb_from_str [97, 233, 98] = Some gb" "gb_holds gb [97, 233, 98]"
    using gap.make_holds[of "[97, 233, 98]"] by (auto simp: uchar_ok_def)
  have "drop 1 (take 3 [97, 233, 98]) = [233, 98 :: uchar]" by simp
  then show ?thesis using gb_slice_iterators[OF gb(2), of 1 3] gb(1)
    by (auto simp del: rev_chars_collect.simps)
qed

text \<open>
  C8: the decoders that the buffer adapts from the standard library invert the encoding of a
  character at any offset, read forwards from its first byte or backwards from its last.
\<close>

theorem decode_encode:
  assumes "uchar_ok c"
  shows "decode_char_at (length pre) (pre @ encode_utf8 c @ post) = Some c \<and>
    decode_char_ending_at (length pre + len_utf8 c - 1) (pre @ encode_utf8 c @ post) = Some c"
  by (intro conjI decode_char_at_encode[OF assms] decode_char_ending_at_encode[OF assms])

lemma decode_encode_witness:
  "decode_char_at 1 [97, 0xe2, 0x82, 0xac, 98] = Some 8364 \<and>
   decode_char_ending_at 3 [97, 0xe2, 0x82, 0xac, 98] = Some 8364"
  using decode_encode[of 8364 "[97]" "[98]"]
  by (simp add: uchar_ok_def encode_utf8_def len_utf8_def)

subsection \<open>Behaviours that differ from the documentation\<close>

text \<open>
  \<open>clear\<close> keeps the character index cache when the gap is already at the start: after
  reading a character of a fresh buffer, \<open>clear\<close> followed by an insertion at index 0 panics,
  while the buffer is empty and index 0 is valid.
\<close>

lemma gb_clear_stale_cache:
  "do { gb \<leftarrow> gb_from_str [97, 98, 99]; (c, gb) \<leftarrow> gb_char gb 0; gb \<leftarrow> gb_clear gb;
        s \<leftarrow> gb_to_string gb;
        Some (s, map_option (\<lambda>_. ()) (gb_insert_char gb 0 120)) } = Some ([], None)"
  by code_simp

text \<open>
  \<open>char_at\<close> at the byte offset of the gap reads the bytes of the gap: the buffer holds
  \<open>xabc\<close>, whose second byte is \<open>a\<close>, and the character reported at byte 1 is \<open>b\<close>.
\<close>

lemma gb_char_at_reads_gap:
  "do { gb \<leftarrow> gb_from_str [97, 98, 99]; gb \<leftarrow> gb_insert_char gb 0 120;
        s \<leftarrow> gb_to_string gb; c \<leftarrow> gb_get_char_at gb 1; Some (s, c) } =
     Some ([120, 97, 98, 99], Some 98)"
  by code_simp

text \<open>
  \<open>subslice_from_byte_offsets\<close> indexes the right part with offsets of the whole slice: of
  \<open>ab|cd\<close> the bytes 1 to 3 should be \<open>bc\<close>, and the call panics.
\<close>

lemma subslice_from_byte_offsets_right:
  "subslice_from_byte_offsets \<lparr>sl_from = 0, sl_left = [97, 98], sl_right = [99, 100]\<rparr> 1 3 = None"
  by code_simp

end
