(* ===== verification/Dot.thy ===== *)
theory Dot
  imports TextStore
begin

text \<open>
  The selection of the editor: cursors (src/dot/cur.rs), ranges (src/dot/range.rs) and dots
  (src/dot/mod.rs) as data, with the operations that do not read a buffer. A range is closed
  at both ends and names one of them as the active one.
\<close>

datatype cur = Cur (cur_idx: nat)

text \<open>The order that the code derives for \<open>Cur\<close>.\<close>

instantiation cur :: linorder
begin

definition less_eq_cur :: "cur \<Rightarrow> cur \<Rightarrow> bool" where
  "c \<le> d \<longleftrightarrow> cur_idx c \<le> cur_idx d"

definition less_cur :: "cur \<Rightarrow> cur \<Rightarrow> bool" where
  "c < d \<longleftrightarrow> cur_idx c < cur_idx d"

instance
  by standard (auto simp: less_eq_cur_def less_cur_def intro: cur.expand)

end

lemmas cur_order = less_eq_cur_def less_cur_def

definition cur_buffer_start :: cur where
  "cur_buffer_start = Cur 0"

definition cur_clamp_idx :: "cur \<Rightarrow> nat \<Rightarrow> cur" where
  "cur_clamp_idx c max_idx = Cur (min (cur_idx c) max_idx)"

subsection \<open>Ranges\<close>

record dot_range =
  r_start :: cur
  r_end :: cur
  r_start_active :: bool

definition range_BOF :: dot_range where
  "range_BOF = \<lparr>r_start = Cur 0, r_end = Cur 0, r_start_active = False\<rparr>"

definition range_from_cursors :: "cur \<Rightarrow> cur \<Rightarrow> bool \<Rightarrow> dot_range" where
  "range_from_cursors c1 c2 c1_was_active =
     (if c1 \<le> c2 then \<lparr>r_start = c1, r_end = c2, r_start_active = c1_was_active\<rparr>
      else if c1_was_active then \<lparr>r_start = c2, r_end = c1, r_start_active = False\<rparr>
      else \<lparr>r_start = c2, r_end = c1, r_start_active = True\<rparr>)"

definition range_contains :: "dot_range \<Rightarrow> cur \<Rightarrow> bool" where
  "range_contains r c \<longleftrightarrow> cur_idx (r_start r) \<le> cur_idx c \<and> cur_idx c \<le> cur_idx (r_end r)"

definition intersects_range :: "dot_range \<Rightarrow> dot_range \<Rightarrow> bool" where
  "intersects_range r other \<longleftrightarrow>
     cur_idx (r_start r) \<le> cur_idx (r_end other) \<and> cur_idx (r_start other) \<le> cur_idx (r_end r)"

definition range_flip :: "dot_range \<Rightarrow> dot_range" where
  "range_flip r = r\<lparr>r_start_active := \<not> r_start_active r\<rparr>"

definition active_cursor :: "dot_range \<Rightarrow> cur" where
  "active_cursor r = (if r_start_active r then r_start r else r_end r)"

definition set_active_cursor :: "dot_range \<Rightarrow> cur \<Rightarrow> dot_range" where
  "set_active_cursor r c =
     (if c = r_start r \<and> c = r_end r then r
      else if r_start_active r then
        (if r_end r \<le> c then r\<lparr>r_start := r_end r, r_end := c, r_start_active := False\<rparr>
         else r\<lparr>r_start := c\<rparr>)
      else if c \<le> r_start r then r\<lparr>r_end := r_start r, r_start := c, r_start_active := True\<rparr>
      else r\<lparr>r_end := c\<rparr>)"

subsection \<open>Dots\<close>

datatype dot = DotCur cur | DotRange dot_range

definition dot_default :: dot where
  "dot_default = DotCur (Cur 0)"

definition dot_from_char_indices :: "nat \<Rightarrow> nat \<Rightarrow> dot" where
  "dot_from_char_indices from to = DotRange (range_from_cursors (Cur from) (Cur to) False)"

fun as_char_indices :: "dot \<Rightarrow> nat \<times> nat" where
  "as_char_indices (DotCur c) = (cur_idx c, cur_idx c)"
| "as_char_indices (DotRange r) = (cur_idx (r_start r), cur_idx (r_end r))"

definition dot_n_chars :: "dot \<Rightarrow> nat option" where
  "dot_n_chars d = do {
     let (from, to) = as_char_indices d;
     n \<leftarrow> usub to from;
     Some (n + 1)
   }"

fun is_cur :: "dot \<Rightarrow> bool" where
  "is_cur (DotCur c) = True"
| "is_cur (DotRange r) = False"

fun is_range :: "dot \<Rightarrow> bool" where
  "is_range (DotCur c) = False"
| "is_range (DotRange r) = True"

fun dot_contains :: "dot \<Rightarrow> cur \<Rightarrow> bool" where
  "dot_contains (DotCur c) d \<longleftrightarrow> d = c"
| "dot_contains (DotRange r) d \<longleftrightarrow> range_contains r d"

definition contains_range :: "dot \<Rightarrow> dot_range \<Rightarrow> bool" where
  "contains_range d rng \<longleftrightarrow> dot_contains d (r_start rng) \<and> dot_contains d (r_end rng)"

text \<open>\<open>offset\<close> is an \<open>isize\<close>; a negative one is subtracted saturating at 0.\<close>

definition offset_saturating :: "nat \<Rightarrow> int \<Rightarrow> nat" where
  "offset_saturating idx offset = (if 0 \<le> offset then idx + nat offset else idx - nat (- offset))"

fun with_offset_saturating :: "dot \<Rightarrow> int \<Rightarrow> dot" where
  "with_offset_saturating (DotCur c) offset = DotCur (Cur (offset_saturating (cur_idx c) offset))"
| "with_offset_saturating (DotRange r) offset =
     DotRange (r\<lparr>r_start := Cur (offset_saturating (cur_idx (r_start r)) offset),
                r_end := Cur (offset_saturating (cur_idx (r_end r)) offset)\<rparr>)"

fun active_cur :: "dot \<Rightarrow> cur" where
  "active_cur (DotCur c) = c"
| "active_cur (DotRange r) = active_cursor r"

fun set_active_cur :: "dot \<Rightarrow> cur \<Rightarrow> dot" where
  "set_active_cur (DotCur c) d = DotCur d"
| "set_active_cur (DotRange r) d = DotRange (set_active_cursor r d)"

fun first_cur :: "dot \<Rightarrow> cur" where
  "first_cur (DotCur c) = c"
| "first_cur (DotRange r) = r_start r"

fun last_cur :: "dot \<Rightarrow> cur" where
  "last_cur (DotCur c) = c"
| "last_cur (DotRange r) = r_end r"

fun as_range :: "dot \<Rightarrow> dot_range" where
  "as_range (DotCur c) = \<lparr>r_start = c, r_end = c, r_start_active = False\<rparr>"
| "as_range (DotRange r) = r"

definition collapse_to_first_cur :: "dot \<Rightarrow> dot" where
  "collapse_to_first_cur d = DotCur (first_cur d)"

definition collapse_to_last_cur :: "dot \<Rightarrow> dot" where
  "collapse_to_last_cur d = DotCur (last_cur d)"

definition collapse_to_active_cur :: "dot \<Rightarrow> dot" where
  "collapse_to_active_cur d = DotCur (active_cur d)"

fun dot_flip :: "dot \<Rightarrow> dot" where
  "dot_flip (DotCur c) = DotCur c"
| "dot_flip (DotRange r) = DotRange (range_flip r)"

fun collapse_null_range :: "dot \<Rightarrow> dot" where
  "collapse_null_range (DotCur c) = DotCur c"
| "collapse_null_range (DotRange r) = (if r_start r = r_end r then DotCur (r_start r) else DotRange r)"

fun dot_clamp_idx :: "dot \<Rightarrow> nat \<Rightarrow> dot" where
  "dot_clamp_idx (DotCur c) max_idx = DotCur (cur_clamp_idx c max_idx)"
| "dot_clamp_idx (DotRange r) max_idx =
     DotRange (r\<lparr>r_start := cur_clamp_idx (r_start r) max_idx,
                r_end := cur_clamp_idx (r_end r) max_idx\<rparr>)"

subsection \<open>Well-formed dots\<close>

text \<open>The ends of a range are in order, and nothing is behind the end of the text.\<close>

fun dot_ok :: "nat \<Rightarrow> dot \<Rightarrow> bool" where
  "dot_ok n (DotCur c) \<longleftrightarrow> cur_idx c \<le> n"
| "dot_ok n (DotRange r) \<longleftrightarrow> r_start r \<le> r_end r \<and> cur_idx (r_end r) \<le> n"

fun dot_ordered :: "dot \<Rightarrow> bool" where
  "dot_ordered (DotCur c) \<longleftrightarrow> True"
| "dot_ordered (DotRange r) \<longleftrightarrow> r_start r \<le> r_end r"

lemma dot_ordered_from_cursors [simp]: "dot_ordered (DotRange (range_from_cursors a b f))"
  by (auto simp: range_from_cursors_def)

lemma dot_ordered_collapse_null_range [simp]: "dot_ordered d \<Longrightarrow> dot_ordered (collapse_null_range d)"
  by (cases d) auto

lemma dot_ok_clamp [simp]: "dot_ordered d \<Longrightarrow> dot_ok n (dot_clamp_idx d n)"
  by (cases d) (auto simp: cur_clamp_idx_def cur_order)

lemma dot_ok_ordered: "dot_ok n d \<Longrightarrow> dot_ordered d"
  by (cases d) auto

lemma dot_ok_mono: "dot_ok n d \<Longrightarrow> n \<le> m \<Longrightarrow> dot_ok m d"
  by (cases d) auto

lemma dot_ordered_set_active_cur [simp]: "dot_ordered d \<Longrightarrow> dot_ordered (set_active_cur d c)"
  by (cases d) (auto simp: set_active_cursor_def)

lemma active_cursor_set [simp]:
  "r_start r \<le> r_end r \<Longrightarrow> active_cursor (set_active_cursor r c) = c"
  by (auto simp: active_cursor_def set_active_cursor_def)

lemma set_active_cursor_anchor:
  assumes "r_start r \<le> r_end r"
  shows "{r_start (set_active_cursor r c), r_end (set_active_cursor r c)} =
    {c, if r_start_active r then r_end r else r_start r}"
  using assms by (auto simp: set_active_cursor_def)

end
