(* ===== verification/Events.thy ===== *)
theory Events
  imports EditLog
begin

text \<open>
  The events that a buffer sends to a client that filters its input
  (crates/ad_event/src/lib.rs and the notifications of src/fsys/event.rs). The sending half
  of the channel is the list of the events sent so far; a send never fails visibly.
\<close>

datatype source = Keyboard | Mouse | Fsys

datatype event_kind =
    InsertBody | DeleteBody | ExecuteBody | LoadBody
  | InsertScratch | DeleteScratch | ExecuteScratch | LoadScratch
  | ChordedArgument

abbreviation (input) MAX_CHARS :: nat where "MAX_CHARS \<equiv> 256"

record fsys_event =
  ev_source :: source
  ev_kind :: event_kind
  ev_ch_from :: nat
  ev_ch_to :: nat
  ev_truncated :: bool
  ev_txt :: ustr

definition fsys_event_new :: "source \<Rightarrow> event_kind \<Rightarrow> nat \<Rightarrow> nat \<Rightarrow> ustr \<Rightarrow> fsys_event" where
  "fsys_event_new src kind ch_from ch_to raw_txt =
     (let (txt, truncated) =
        (if kind = DeleteScratch \<or> kind = DeleteBody then ([], True)
         else let txt = take MAX_CHARS raw_txt in (txt, txt \<noteq> raw_txt))
      in \<lparr>ev_source = src, ev_kind = kind, ev_ch_from = ch_from, ev_ch_to = ch_to,
          ev_truncated = truncated, ev_txt = txt\<rparr>)"

record input_filter =
  f_tx :: "fsys_event list"
  f_is_scratch :: bool

definition filter_send :: "input_filter \<Rightarrow> fsys_event \<Rightarrow> input_filter" where
  "filter_send f evt = f\<lparr>f_tx := f_tx f @ [evt]\<rparr>"

definition notify_insert :: "input_filter \<Rightarrow> source \<Rightarrow> nat \<Rightarrow> nat \<Rightarrow> ustr \<Rightarrow> input_filter" where
  "notify_insert f src ch_from ch_to txt =
     (let k = (if f_is_scratch f then InsertScratch else InsertBody)
      in filter_send f (fsys_event_new src k ch_from ch_to txt))"

definition notify_delete :: "input_filter \<Rightarrow> source \<Rightarrow> nat \<Rightarrow> nat \<Rightarrow> input_filter" where
  "notify_delete f src ch_from ch_to =
     (let k = (if f_is_scratch f then DeleteScratch else DeleteBody)
      in filter_send f (fsys_event_new src k ch_from ch_to []))"

definition notify_load :: "input_filter \<Rightarrow> source \<Rightarrow> nat \<Rightarrow> nat \<Rightarrow> ustr \<Rightarrow> input_filter" where
  "notify_load f src ch_from ch_to txt =
     (let k = (if f_is_scratch f then LoadScratch else LoadBody)
      in filter_send f (fsys_event_new src k ch_from ch_to txt))"

definition notify_execute ::
  "input_filter \<Rightarrow> source \<Rightarrow> nat \<Rightarrow> nat \<Rightarrow> ustr \<Rightarrow> (dot_range \<times> ustr) option \<Rightarrow> input_filter" where
  "notify_execute f src ch_from ch_to txt arg =
     (let f = (case arg of
                 None \<Rightarrow> f
               | Some (rng, a) \<Rightarrow> filter_send f
                   (fsys_event_new src ChordedArgument
                      (cur_idx (r_start rng)) (cur_idx (r_end rng)) a));
          k = (if f_is_scratch f then ExecuteScratch else ExecuteBody)
      in filter_send f (fsys_event_new src k ch_from ch_to txt))"

text \<open>An event carries at most \<open>MAX_CHARS\<close> characters, and says so when it cut the text.\<close>

lemma fsys_event_new_truncated:
  "length (ev_txt (fsys_event_new src k from to txt)) \<le> MAX_CHARS \<and>
   (\<not> ev_truncated (fsys_event_new src k from to txt) \<longrightarrow> ev_txt (fsys_event_new src k from to txt) = txt)"
  by (auto simp: fsys_event_new_def Let_def)

end
