(* ===== verification/Buffer.thy ===== *)
theory Buffer
  imports Events
begin

text \<open>
  The editing core of a buffer (src/buffer/mod.rs): the text, the selections, the undo log
  and the notifications of a client that filters the input. The syntax highlighting state
  (tree-sitter) follows the text and never changes it; it is not part of the model.
\<close>

subsection \<open>Line endings\<close>

abbreviation (input) carriage_return :: uchar where "carriage_return \<equiv> 13"

fun replace_crlf :: "ustr \<Rightarrow> ustr" where
  "replace_crlf [] = []"
| "replace_crlf [c] = [c]"
| "replace_crlf (c # d # s) =
     (if c = carriage_return \<and> d = newline then newline # replace_crlf s
      else c # replace_crlf (d # s))"

definition normalize_line_endings :: "ustr \<Rightarrow> ustr" where
  "normalize_line_endings s =
     (if carriage_return \<notin> set s then s
      else map (\<lambda>c. if c = carriage_return then newline else c) (replace_crlf s))"

subsection \<open>Buffers\<close>

datatype buffer_kind =
    File string | Directory string | Virtual string | Output string | Unnamed | MiniBuffer

definition kind_is_file :: "buffer_kind \<Rightarrow> bool" where
  "kind_is_file k = (case k of File _ \<Rightarrow> True | _ \<Rightarrow> False)"

definition kind_is_dir :: "buffer_kind \<Rightarrow> bool" where
  "kind_is_dir k = (case k of Directory _ \<Rightarrow> True | _ \<Rightarrow> False)"

record buffer =
  b_id :: nat
  b_kind :: buffer_kind
  b_dot :: dot
  b_xdot :: dot
  b_txt :: gap_buffer
  b_cached_rx :: nat
  b_dirty :: bool
  b_changed_since_last_render :: bool
  b_input_filter :: "input_filter option"
  b_edit_log :: edit_log

datatype action_outcome = SetClipboard ustr | SetStatusMessage string

definition buffer_new :: "nat \<Rightarrow> buffer_kind \<Rightarrow> gap_buffer \<Rightarrow> buffer" where
  "buffer_new bid kind txt =
     \<lparr>b_id = bid, b_kind = kind, b_dot = dot_default, b_xdot = dot_default, b_txt = txt,
      b_cached_rx = 0, b_dirty = False, b_changed_since_last_render = False,
      b_input_filter = None, b_edit_log = log_default\<rparr>"

definition new_unnamed :: "nat \<Rightarrow> ustr \<Rightarrow> buffer option" where
  "new_unnamed bid content = do {
     txt \<leftarrow> gb_from_str (normalize_line_endings content);
     Some (buffer_new bid Unnamed txt)
   }"

definition buf_len_chars :: "buffer \<Rightarrow> nat" where
  "buf_len_chars b = len_chars (b_txt b)"

definition buf_is_empty :: "buffer \<Rightarrow> bool" where
  "buf_is_empty b \<longleftrightarrow> len_chars (b_txt b) = 0"

definition str_contents :: "buffer \<Rightarrow> ustr option" where
  "str_contents b = gb_to_string (b_txt b)"

definition mark_dirty :: "buffer \<Rightarrow> buffer" where
  "mark_dirty b = b\<lparr>b_dirty := kind_is_file (b_kind b)\<rparr>"

text \<open>\<open>if let (Some(source), Some(f)) = (source, self.input_filter.as_ref())\<close>\<close>

definition with_filter ::
  "source option \<Rightarrow> (input_filter \<Rightarrow> source \<Rightarrow> input_filter) \<Rightarrow> buffer \<Rightarrow> buffer" where
  "with_filter src notify b =
     (case (src, b_input_filter b) of
        (Some src, Some f) \<Rightarrow> b\<lparr>b_input_filter := Some (notify f src)\<rparr>
      | _ \<Rightarrow> b)"

subsection \<open>Deleting\<close>

definition delete_cur :: "buffer \<Rightarrow> cur \<Rightarrow> source option \<Rightarrow> (cur \<times> buffer) option" where
  "delete_cur b c src =
     (let idx = cur_idx c in
      if idx < len_chars (b_txt b) then do {
        (ch, txt) \<leftarrow> gb_char (b_txt b) idx;
        txt \<leftarrow> gb_remove_char txt idx;
        let b = b\<lparr>b_txt := txt\<rparr>;
        let b = with_filter src (\<lambda>f s. notify_delete f s idx (idx + 1)) b;
        let b = b\<lparr>b_edit_log := log_delete_char (b_edit_log b) c ch\<rparr>;
        Some (c, (mark_dirty b)\<lparr>b_changed_since_last_render := True\<rparr>)
      } else Some (c, b))"

definition delete_range ::
  "buffer \<Rightarrow> dot_range \<Rightarrow> source option \<Rightarrow> ((cur \<times> ustr option) \<times> buffer) option" where
  "delete_range b r src = do {
     let from = cur_idx (r_start r);
     let to = min (cur_idx (r_end r) + 1) (len_chars (b_txt b));
     let is_single_char = (cur_idx (r_start r) = cur_idx (r_end r));
     (sl, txt) \<leftarrow> gb_slice_chars (b_txt b) from to;
     s \<leftarrow> sl_to_string sl;
     txt \<leftarrow> gb_remove_range txt from to;
     let b = b\<lparr>b_txt := txt\<rparr>;
     let b = with_filter src (\<lambda>f s. notify_delete f s from to) b;
     let b = b\<lparr>b_edit_log := log_delete_string (b_edit_log b) (r_start r) s\<rparr>;
     let b = (mark_dirty b)\<lparr>b_changed_since_last_render := True\<rparr>;
     Some ((r_start r, if is_single_char then None else Some s), b)
   }"

definition delete_dot ::
  "buffer \<Rightarrow> dot \<Rightarrow> source option \<Rightarrow> ((cur \<times> ustr option) \<times> buffer) option" where
  "delete_dot b d src =
     (case d of
        DotCur c \<Rightarrow> do { (c, b) \<leftarrow> delete_cur b c src; Some ((c, None), b) }
      | DotRange r \<Rightarrow> delete_range b r src)"

subsection \<open>Inserting\<close>

definition buf_insert_char ::
  "buffer \<Rightarrow> dot \<Rightarrow> uchar \<Rightarrow> source option \<Rightarrow> ((cur \<times> ustr option) \<times> buffer) option" where
  "buf_insert_char b d ch src = do {
     let ch = (if ch = carriage_return then newline else ch);
     ((c, deleted), b) \<leftarrow> (case d of
                              DotCur c \<Rightarrow> Some ((c, None), b)
                            | DotRange r \<Rightarrow> delete_range b r src);
     let idx = cur_idx c;
     txt \<leftarrow> gb_insert_char (b_txt b) idx ch;
     let b = b\<lparr>b_txt := txt\<rparr>;
     let b = with_filter src (\<lambda>f s. notify_insert f s idx (idx + 1) [ch]) b;
     let b = b\<lparr>b_edit_log := log_insert_char (b_edit_log b) c ch\<rparr>;
     let b = (mark_dirty b)\<lparr>b_changed_since_last_render := True\<rparr>;
     Some ((Cur (idx + 1), deleted), b)
   }"

definition buf_insert_string ::
  "buffer \<Rightarrow> dot \<Rightarrow> ustr \<Rightarrow> source option \<Rightarrow> ((cur \<times> ustr option) \<times> buffer) option" where
  "buf_insert_string b d s src = do {
     let s = normalize_line_endings s;
     let len = length s;
     ((c, deleted), b) \<leftarrow> (case d of
                              DotCur c \<Rightarrow> Some ((c, None), b)
                            | DotRange r \<Rightarrow> delete_range b r src);
     let idx = cur_idx c;
     (c, b) \<leftarrow> (if s \<noteq> [] then do {
                  txt \<leftarrow> gb_insert_str (b_txt b) idx s;
                  let b = b\<lparr>b_txt := txt\<rparr>;
                  let b = with_filter src (\<lambda>f src. notify_insert f src idx (idx + len) s) b;
                  let b = b\<lparr>b_edit_log := log_insert_string (b_edit_log b) c s\<rparr>;
                  Some (Cur (cur_idx c + len), b)
                } else Some (c, b));
     let b = (mark_dirty b)\<lparr>b_changed_since_last_render := True\<rparr>;
     Some ((c, deleted), b)
   }"

subsection \<open>Undo and redo\<close>

definition apply_edit :: "buffer \<Rightarrow> edit \<Rightarrow> buffer option" where
  "apply_edit b e = do {
     let c = e_cur e;
     ((new_cur, _), b) \<leftarrow>
       (case (e_kind e, e_txt e) of
          (Insert, Char ch) \<Rightarrow> buf_insert_char b (DotCur c) ch None
        | (Insert, String s) \<Rightarrow> buf_insert_string b (DotCur c) s None
        | (Delete, Char _) \<Rightarrow> delete_dot b (DotCur c) None
        | (Delete, String s) \<Rightarrow>
            let start_idx = cur_idx c;
                end_idx = start_idx + length s - 1
            in delete_dot b
                 (collapse_null_range (DotRange (range_from_cursors c (Cur end_idx) True))) None);
     Some (b\<lparr>b_dot := DotCur new_cur\<rparr>)
   }"

fun apply_edits :: "buffer \<Rightarrow> edit list \<Rightarrow> buffer option" where
  "apply_edits b [] = Some b"
| "apply_edits b (e # es) = do { b \<leftarrow> apply_edit b e; apply_edits b es }"

definition set_paused :: "bool \<Rightarrow> buffer \<Rightarrow> buffer" where
  "set_paused p b = b\<lparr>b_edit_log := (b_edit_log b)\<lparr>l_paused := p\<rparr>\<rparr>"

definition buf_undo :: "buffer \<Rightarrow> (action_outcome option \<times> buffer) option" where
  "buf_undo b =
     (case log_undo (b_edit_log b) of
        (Some edits, l) \<Rightarrow> do {
          b \<leftarrow> apply_edits (set_paused True (b\<lparr>b_edit_log := l\<rparr>)) edits;
          let b = set_paused False b;
          Some (None, b\<lparr>b_dirty := \<not> log_is_empty (b_edit_log b), b_changed_since_last_render := True\<rparr>)
        }
      | (None, l) \<Rightarrow> Some (Some (SetStatusMessage ''Nothing to undo''), b\<lparr>b_edit_log := l\<rparr>))"

definition buf_redo :: "buffer \<Rightarrow> (action_outcome option \<times> buffer) option" where
  "buf_redo b =
     (case log_redo (b_edit_log b) of
        (Some edits, l) \<Rightarrow> do {
          b \<leftarrow> apply_edits (set_paused True (b\<lparr>b_edit_log := l\<rparr>)) edits;
          let b = set_paused False b;
          Some (None, b\<lparr>b_dirty := True, b_changed_since_last_render := True\<rparr>)
        }
      | (None, l) \<Rightarrow> Some (Some (SetStatusMessage ''Nothing to redo''), b\<lparr>b_edit_log := l\<rparr>))"

definition new_edit_log_transaction :: "buffer \<Rightarrow> buffer" where
  "new_edit_log_transaction b = b\<lparr>b_edit_log := log_new_transaction (b_edit_log b)\<rparr>"

subsection \<open>Selections\<close>

definition clamp_dots :: "buffer \<Rightarrow> buffer" where
  "clamp_dots b = (let n = len_chars (b_txt b) in
     b\<lparr>b_dot := dot_clamp_idx (b_dot b) n, b_xdot := dot_clamp_idx (b_xdot b) n\<rparr>)"

definition dot_content :: "dot \<Rightarrow> buffer \<Rightarrow> (ustr \<times> buffer) option" where
  "dot_content d b =
     (let n = len_chars (b_txt b) in
      if n = 0 then Some ([], b)
      else let (from, to) = as_char_indices d in do {
        (sl, txt) \<leftarrow> gb_slice_chars (b_txt b) from (min (to + 1) n);
        s \<leftarrow> sl_to_string sl;
        Some (s, b\<lparr>b_txt := txt\<rparr>)
      })"

definition set_dot_from_cursor :: "buffer \<Rightarrow> nat \<Rightarrow> buffer" where
  "set_dot_from_cursor b idx =
     b\<lparr>b_dot := dot_clamp_idx (DotCur (Cur idx)) (len_chars (b_txt b)),
       b_changed_since_last_render := True\<rparr>"

definition set_dot_from_range :: "buffer \<Rightarrow> nat \<Rightarrow> nat \<Rightarrow> buffer" where
  "set_dot_from_range b from to =
     b\<lparr>b_dot := dot_clamp_idx
         (collapse_null_range (DotRange (range_from_cursors (Cur from) (Cur to) False)))
         (len_chars (b_txt b)),
       b_changed_since_last_render := True\<rparr>"

definition collapse_dot :: "buffer \<Rightarrow> bool \<Rightarrow> buffer" where
  "collapse_dot b first =
     b\<lparr>b_dot := (if first then collapse_to_first_cur (b_dot b) else collapse_to_last_cur (b_dot b)),
       b_changed_since_last_render := True\<rparr>"

definition flip_dot :: "buffer \<Rightarrow> buffer" where
  "flip_dot b = b\<lparr>b_dot := dot_flip (b_dot b), b_changed_since_last_render := True\<rparr>"

subsection \<open>Actions\<close>

datatype action =
    ADelete | AInsertChar uchar | AInsertString ustr | ARedo | AUndo
  | ADotCollapseFirst | ADotCollapseLast | ADotFlip

definition handle_action ::
  "buffer \<Rightarrow> action \<Rightarrow> source \<Rightarrow> (action_outcome option \<times> buffer) option" where
  "handle_action b a src =
     (case a of
        ADelete \<Rightarrow> do {
          ((c, deleted), b) \<leftarrow> delete_dot b (b_dot b) (Some src);
          Some (map_option SetClipboard deleted, clamp_dots (b\<lparr>b_dot := DotCur c\<rparr>))
        }
      | AInsertChar ch \<Rightarrow> do {
          ((c, _), b) \<leftarrow> buf_insert_char b (b_dot b) ch (Some src);
          Some (None, clamp_dots (b\<lparr>b_dot := DotCur c\<rparr>))
        }
      | AInsertString s \<Rightarrow> do {
          ((c, _), b) \<leftarrow> buf_insert_string b (b_dot b) s (Some src);
          Some (None, clamp_dots (b\<lparr>b_dot := DotCur c\<rparr>))
        }
      | ARedo \<Rightarrow> buf_redo b
      | AUndo \<Rightarrow> buf_undo b
      | ADotCollapseFirst \<Rightarrow> Some (None, collapse_dot b True)
      | ADotCollapseLast \<Rightarrow> Some (None, collapse_dot b False)
      | ADotFlip \<Rightarrow> Some (None, flip_dot b))"

definition insert_xdot :: "buffer \<Rightarrow> ustr \<Rightarrow> buffer option" where
  "insert_xdot b s = do {
     let offset = int (length s);
     (offset, b) \<leftarrow>
       (if intersects_range (as_range (b_dot b)) (as_range (b_xdot b)) then
          let offset = (if first_cur (b_dot b) < first_cur (b_xdot b) \<and>
                           last_cur (b_dot b) \<le> last_cur (b_xdot b) then - 1 else offset)
          in Some (offset, b\<lparr>b_dot := collapse_to_first_cur (b_xdot b)\<rparr>)
        else if last_cur (b_dot b) < first_cur (b_xdot b) then Some (0, b)
        else do {
          n \<leftarrow> dot_n_chars (b_xdot b);
          let offset = offset - int n;
          Some (if is_cur (b_xdot b) then offset + 1 else offset, b)
        });
     let dot_after_edit = with_offset_saturating (b_dot b) offset;
     (_, b) \<leftarrow> handle_action (b\<lparr>b_dot := b_xdot b\<rparr>) (AInsertString s) Fsys;
     let b = b\<lparr>b_xdot := b_dot b, b_dot := dot_after_edit\<rparr>;
     Some (b\<lparr>b_dot := dot_clamp_idx (b_dot b) (len_chars (b_txt b))\<rparr>)
   }"

definition buf_append :: "buffer \<Rightarrow> ustr \<Rightarrow> source \<Rightarrow> buffer option" where
  "buf_append b s src = do {
     let d = b_dot b;
     let b = clamp_dots (b\<lparr>b_dot := DotCur (Cur (len_chars (b_txt b)))\<rparr>);
     let b = b\<lparr>b_changed_since_last_render := True\<rparr>;
     (_, b) \<leftarrow> handle_action b (AInsertString s) src;
     let b = clamp_dots (b\<lparr>b_dot := d\<rparr>);
     Some (b\<lparr>b_changed_since_last_render := True\<rparr>)
   }"

end
