(* ===== verification/UndoLog.thy ===== *)
theory UndoLog
  imports Buffer
begin

text \<open>
  The undo log is right: the edits it records lead from an earlier text to the current one,
  the ones that were undone lead on from it, and every operation of the log keeps this. The
  merging of adjacent edits needs text of single byte characters, because it measures a
  string in bytes.
\<close>

definition plain :: "ustr \<Rightarrow> bool" where
  "plain s \<longleftrightarrow> ascii s \<and> carriage_return \<notin> set s"

lemma plain_simps [simp]:
  "plain []" "plain (c # s) \<longleftrightarrow> c < 128 \<and> c \<noteq> carriage_return \<and> plain s"
  "plain (s @ t) \<longleftrightarrow> plain s \<and> plain t"
  by (auto simp: plain_def)

lemma plain_take_drop: "plain s \<Longrightarrow> plain (take k s) \<and> plain (drop k s)"
  by (metis append_take_drop_id plain_simps(3))

lemma plain_str_ok: "plain s \<Longrightarrow> str_ok s"
  by (simp add: plain_def ascii_str_ok)

lemma plain_normalize: "plain s \<Longrightarrow> normalize_line_endings s = s"
  by (simp add: normalize_line_endings_def plain_def)

abbreviation edit_plain :: "edit \<Rightarrow> bool" where
  "edit_plain e \<equiv> plain (txt_str (e_txt e))"

lemma edit_plain_undo [simp]: "edit_plain (into_undo e) = edit_plain e"
  by (simp add: into_undo_def)

subsection \<open>Merging\<close>

lemma try_extend_insert_fx:
  assumes "try_extend_insert e1 e2 = (e, None)" "e_kind e1 = Insert" "e_kind e2 = Insert"
    "edit_fx e1 s = Some s1" "edit_fx e2 s1 = Some s2" "ascii (txt_str (e_txt e1))"
  shows "edit_fx e s = Some s2"
proof -
  obtain k t where e1: "e1 = \<lparr>e_kind = Insert, e_cur = Cur k, e_txt = t\<rparr>"
    using assms(2) by (metis edit.cases cur.exhaust edit.select_convs(1))
  obtain l u where e2: "e2 = \<lparr>e_kind = Insert, e_cur = Cur l, e_txt = u\<rparr>"
    using assms(3) by (metis edit.cases cur.exhaust edit.select_convs(1))
  have 1: "txt_str t \<noteq> []" "k \<le> length s" "s1 = take k s @ txt_str t @ drop k s"
    using assms(4) unfolding e1 edit_fx_Insert by auto
  have 2: "txt_str u \<noteq> []" "l \<le> length s1" "s2 = take l s1 @ txt_str u @ drop l s1"
    using assms(5) unfolding e2 edit_fx_Insert by auto
  have len: "blen (txt_str t) = length (txt_str t)" using assms(6) ascii_blen e1 by simp
  consider "l = k" "e = \<lparr>e_kind = Insert, e_cur = Cur k, e_txt = txt_prepend t u\<rparr>"
    | "l = k + length (txt_str t)" "e = \<lparr>e_kind = Insert, e_cur = Cur k, e_txt = txt_append t u\<rparr>"
    using assms(1) len unfolding e1 e2 try_extend_insert_def
    by (cases t) (auto split: if_splits)
  then show ?thesis
    by cases (use 1 2 in \<open>auto simp: edit_fx_Insert\<close>)
qed

lemma try_extend_delete_fx:
  assumes "try_extend_delete e1 e2 = (e, None)" "e_kind e1 = Delete" "e_kind e2 = Delete"
    "edit_fx e1 s = Some s1" "edit_fx e2 s1 = Some s2" "ascii (txt_str (e_txt e2))"
  shows "edit_fx e s = Some s2"
proof -
  obtain k t where e1: "e1 = \<lparr>e_kind = Delete, e_cur = Cur k, e_txt = t\<rparr>"
    using assms(2) by (metis edit.cases cur.exhaust edit.select_convs(1))
  obtain l u where e2: "e2 = \<lparr>e_kind = Delete, e_cur = Cur l, e_txt = u\<rparr>"
    using assms(3) by (metis edit.cases cur.exhaust edit.select_convs(1))
  obtain p q where 1: "txt_str t \<noteq> []" "s = p @ txt_str t @ q" "length p = k" "s1 = p @ q"
    using assms(4) unfolding e1 edit_fx_Delete by auto
  obtain p' q' where 2: "txt_str u \<noteq> []" "s1 = p' @ txt_str u @ q'" "length p' = l" "s2 = p' @ q'"
    using assms(5) unfolding e2 edit_fx_Delete by auto
  have len: "blen (txt_str u) = length (txt_str u)" using assms(6) ascii_blen e2 by simp
  consider "l = k" "e = \<lparr>e_kind = Delete, e_cur = Cur k, e_txt = txt_append t u\<rparr>"
    | "l + length (txt_str u) = k" "e = \<lparr>e_kind = Delete, e_cur = Cur l, e_txt = txt_prepend t u\<rparr>"
    using assms(1) len unfolding e1 e2 try_extend_delete_def
    by (cases u) (auto split: if_splits)
  then show ?thesis
  proof cases
    case 1
    then have "p = p'" "q = txt_str u @ q'"
      using \<open>s1 = p @ q\<close> 2 \<open>length p = k\<close> by (metis append_eq_append_conv)+
    then have "s = p @ txt_str (txt_append t u) @ q'" using \<open>s = p @ _\<close> by simp
    then show ?thesis
      unfolding 1(2) edit_fx_Delete using \<open>txt_str t \<noteq> []\<close> \<open>length p = k\<close> \<open>p = p'\<close> 2(4) by auto
  next
    case 2
    then have "p = p' @ txt_str u" "q = q'"
      using \<open>s1 = p @ q\<close> \<open>s1 = p' @ _\<close> \<open>length p = k\<close> \<open>length p' = l\<close>
      by (metis append_assoc append_eq_append_conv length_append)+
    then have "s = p' @ txt_str (txt_prepend t u) @ q'" using \<open>s = p @ _\<close> by simp
    then show ?thesis
      unfolding 2(2) edit_fx_Delete using \<open>txt_str t \<noteq> []\<close> \<open>length p' = l\<close> \<open>s2 = _\<close> by auto
  qed
qed

lemma try_combine_None:
  assumes "try_combine e1 e2 = (e, None)" "edit_fx e1 s = Some s1" "edit_fx e2 s1 = Some s2"
    "edit_plain e1" "edit_plain e2"
  shows "edit_fx e s = Some s2 \<and> edit_plain e"
proof -
  have a: "ascii (txt_str (e_txt e1))" "ascii (txt_str (e_txt e2))"
    using assms(4,5) by (auto simp: plain_def)
  have k: "(e_kind e1 = Insert \<and> e_kind e2 = Insert \<and> try_extend_insert e1 e2 = (e, None)) \<or>
      (e_kind e1 = Delete \<and> e_kind e2 = Delete \<and> try_extend_delete e1 e2 = (e, None))"
    using assms(1) by (auto simp: try_combine_def split: edit_kind.splits)
  then have "edit_fx e s = Some s2"
    using try_extend_insert_fx[OF _ _ _ assms(2,3) a(1)]
      try_extend_delete_fx[OF _ _ _ assms(2,3) a(2)] by blast
  moreover have "edit_plain e"
    using k assms(4,5)
    by (auto simp: try_extend_insert_def try_extend_delete_def split: if_splits edit_txt.splits)
  ultimately show ?thesis by simp
qed

lemma try_combine_Some: "try_combine e1 e2 = (a, Some b) \<Longrightarrow> a = e1 \<and> b = e2"
  by (auto simp: try_combine_def try_extend_insert_def try_extend_delete_def
      split: edit_kind.splits if_splits edit_txt.splits)

subsection \<open>The invariant of the log\<close>

definition log_ok :: "edit_log \<Rightarrow> ustr \<Rightarrow> bool" where
  "log_ok l s \<longleftrightarrow>
     (\<exists>s0. edits_fx (concat (l_edits l)) s0 = Some s) \<and>
     (\<exists>s1. edits_fx (concat (rev (l_undone_edits l))) s = Some s1) \<and>
     [] \<notin> set (l_undone_edits l) \<and>
     list_all edit_plain (concat (l_edits l @ l_undone_edits l)) \<and> \<not> l_paused l"

text \<open>A recorded edit extends the last transaction, or starts the first one.\<close>

lemma log_push_last:
  assumes "edits_fx (if l_edits l = [] then [] else last (l_edits l)) s0 = Some s"
    "edit_fx e s = Some s'" "edit_plain e"
    "list_all edit_plain (if l_edits l = [] then [] else last (l_edits l))"
  shows "\<exists>t. log_push l e = l\<lparr>l_undone_edits := [], l_edits := butlast (l_edits l) @ [t]\<rparr> \<and>
     t \<noteq> [] \<and> edits_fx t s0 = Some s' \<and> list_all edit_plain t"
proof (cases "l_edits l = [] \<or> last (l_edits l) = []")
  case True
  then show ?thesis using assms by (auto simp: log_push_def Let_def split: if_splits)
next
  case False
  define t where "t = butlast (last (l_edits l))"
  define e1 where "e1 = last (last (l_edits l))"
  have last: "last (l_edits l) = t @ [e1]" using False by (simp add: t_def e1_def)
  then obtain sm where sm: "edits_fx t s0 = Some sm" "edit_fx e1 sm = Some s"
    using assms(1) False by (auto simp: bind_eq_Some_conv)
  have pl: "list_all edit_plain t" "edit_plain e1" using assms(4) False last by auto
  show ?thesis
  proof (cases "try_combine e1 e")
    case (Pair self o')
    show ?thesis
    proof (cases o')
      case None
      then have c: "edit_fx self sm = Some s' \<and> edit_plain self"
        using try_combine_None[OF _ sm(2) assms(2) pl(2) assms(3)] Pair by simp
      then show ?thesis
        using False last None Pair sm(1) pl
        by (intro exI[of _ "t @ [self]"]) (auto simp: log_push_def Let_def)
    next
      case (Some e')
      then have "self = e1" "e' = e" using try_combine_Some[of e1 e self e'] Pair by auto
      then show ?thesis
        using False last Some Pair sm pl assms(2,3)
        by (intro exI[of _ "t @ [e1, e]"]) (auto simp: log_push_def Let_def)
    qed
  qed
qed

lemma concat_butlast_last: "xs \<noteq> [] \<Longrightarrow> concat xs = concat (butlast xs) @ last xs"
  by (induction xs) auto

lemma log_push_ok:
  assumes ok: "log_ok l s" and fx: "edit_fx e s = Some s'" and pl: "edit_plain e"
  shows "log_ok (log_push l e) s'"
proof -
  let ?last = "if l_edits l = [] then [] else last (l_edits l)"
  have cat: "concat (l_edits l) = concat (butlast (l_edits l)) @ ?last"
    using concat_butlast_last[of "l_edits l"] by simp
  obtain s0 s1 where s: "edits_fx (concat (butlast (l_edits l))) s0 = Some s1"
    "edits_fx ?last s1 = Some s"
    using ok unfolding log_ok_def cat by (auto simp: bind_eq_Some_conv simp del: concat.simps)
  have lp: "list_all edit_plain (concat (butlast (l_edits l)))" "list_all edit_plain ?last"
    using ok unfolding log_ok_def concat_append cat by (simp_all del: concat.simps)
  obtain t where t: "log_push l e = l\<lparr>l_undone_edits := [], l_edits := butlast (l_edits l) @ [t]\<rparr>"
    "edits_fx t s1 = Some s'" "list_all edit_plain t"
    using log_push_last[OF s(2) fx pl lp(2)] by blast
  show ?thesis
    using ok s(1) t lp unfolding log_ok_def by (auto intro!: exI[of _ s0])
qed

lemma log_new_transaction_ok: "log_ok l s \<Longrightarrow> log_ok (log_new_transaction l) s"
  by (auto simp: log_ok_def log_new_transaction_def)

lemma pop_transaction_None: "pop_transaction ts = (None, us) \<Longrightarrow> us = [] \<and> concat ts = []"
proof (induction ts rule: pop_transaction.induct)
  case (1 ts)
  then show ?case
    by (cases ts rule: rev_cases) (auto simp: pop_transaction.simps[of "_ @ _"]
        pop_transaction.simps[of "[]"] split: if_splits)
qed

lemma pop_transaction_Some:
  "pop_transaction ts = (Some t, us) \<Longrightarrow> t \<noteq> [] \<and> concat ts = concat us @ t"
proof (induction ts rule: pop_transaction.induct)
  case (1 ts)
  then show ?case
    by (cases ts rule: rev_cases) (auto simp: pop_transaction.simps[of "_ @ _"]
        pop_transaction.simps[of "[]"] split: if_splits)
qed

lemma log_undo_ok:
  assumes ok: "log_ok l s" and undo: "log_undo l = (Some es, l')"
  shows "\<exists>s'. edits_fx es s = Some s' \<and> log_ok l' s' \<and> list_all edit_plain es \<and>
    (\<exists>t. t \<noteq> [] \<and> es = map into_undo (rev t) \<and> edits_fx t s' = Some s \<and>
         l_undone_edits l' = l_undone_edits l @ [t])"
proof -
  obtain t ts where pop: "pop_transaction (l_edits l) = (Some t, ts)"
    and es: "es = map into_undo (rev t)"
    and l': "l' = l\<lparr>l_edits := ts, l_undone_edits := l_undone_edits l @ [t]\<rparr>"
    using undo by (auto simp: log_undo_def split: prod.splits option.splits)
  have t: "t \<noteq> []" "concat (l_edits l) = concat ts @ t" using pop_transaction_Some[OF pop] by auto
  obtain s0 s' where s: "edits_fx (concat ts) s0 = Some s'" "edits_fx t s' = Some s"
    using ok t(2) unfolding log_ok_def by (auto simp: bind_eq_Some_conv)
  obtain s1 where s1: "edits_fx (concat (rev (l_undone_edits l))) s = Some s1"
    using ok unfolding log_ok_def by blast
  have pl: "list_all edit_plain (concat ts @ t @ concat (l_undone_edits l))"
    using ok t(2) by (auto simp: log_ok_def)
  have "edits_fx es s = Some s'" unfolding es by (rule edits_fx_undo[OF s(2)])
  moreover have "log_ok l' s'"
  proof -
    have "\<exists>s0. edits_fx (concat (l_edits l')) s0 = Some s'" using s(1) by (auto simp: l')
    moreover have "\<exists>s1. edits_fx (concat (rev (l_undone_edits l'))) s' = Some s1"
      using s(2) s1 by (auto simp: l')
    ultimately show ?thesis using ok t pl by (auto simp: log_ok_def l')
  qed
  moreover have "list_all edit_plain es" using pl unfolding es by (auto simp: list_all_iff)
  ultimately show ?thesis using s(2) t(1) es l' by auto
qed

lemma log_redo_ok:
  assumes ok: "log_ok l s" and redo: "log_redo l = (Some es, l')"
  shows "\<exists>s'. edits_fx es s = Some s' \<and> log_ok l' s' \<and> list_all edit_plain es"
proof -
  have ne: "l_undone_edits l \<noteq> []" using redo by (auto simp: log_redo_def)
  obtain us t where us: "l_undone_edits l = us @ [t]" using ne by (metis rev_exhaust)
  have "t \<noteq> []" using ok us by (auto simp: log_ok_def)
  then have eq: "es = t" "l' = l\<lparr>l_undone_edits := us, l_edits := l_edits l @ [t]\<rparr>"
    using redo us by (auto simp: log_redo_def Let_def)
  show ?thesis using ok us unfolding log_ok_def eq by (auto simp: bind_eq_Some_conv)
qed

lemma log_redo_None: "log_ok l s \<Longrightarrow> log_redo l = (None, l') \<Longrightarrow> l_undone_edits l = [] \<and> l' = l"
  by (cases "l_undone_edits l" rule: rev_cases) (auto simp: log_redo_def log_ok_def Let_def)

lemma log_undo_None: "log_ok l s \<Longrightarrow> log_undo l = (None, l') \<Longrightarrow> log_ok l' s"
  using pop_transaction_None[of "l_edits l"]
  by (auto simp: log_undo_def log_ok_def split: prod.splits option.splits)

end
