(* ===== verification/BufferEdit.thy ===== *)
theory BufferEdit
  imports UndoLog
begin

text \<open>
  What the editing operations of a buffer do to its text and to its undo log, and that
  undo and redo are inverse to the edits that the log has recorded.
\<close>

lemma with_filter_simps [simp]:
  "b_txt (with_filter src f b) = b_txt b" "b_edit_log (with_filter src f b) = b_edit_log b"
  "b_kind (with_filter src f b) = b_kind b" "b_dot (with_filter src f b) = b_dot b"
  "b_xdot (with_filter src f b) = b_xdot b"
  by (auto simp: with_filter_def split: option.splits)

lemma mark_dirty_simps [simp]:
  "b_txt (mark_dirty b) = b_txt b" "b_edit_log (mark_dirty b) = b_edit_log b"
  "b_dot (mark_dirty b) = b_dot b" "b_xdot (mark_dirty b) = b_xdot b"
  by (auto simp: mark_dirty_def)

text \<open>\<open>edited b b' s l\<close>: \<open>b'\<close> has the text \<open>s\<close>, the log \<open>l\<close>, and the selections of \<open>b\<close>.\<close>

definition edited :: "buffer \<Rightarrow> buffer \<Rightarrow> ustr \<Rightarrow> edit_log \<Rightarrow> bool" where
  "edited b b' s l \<longleftrightarrow> gb_holds (b_txt b') s \<and> b_edit_log b' = l \<and>
     b_dot b' = b_dot b \<and> b_xdot b' = b_xdot b"

lemma edited_trans: "edited a b s l \<Longrightarrow> edited b c s' l' \<Longrightarrow> edited a c s' l'"
  by (simp add: edited_def)

lemma delete_cur_correct:
  assumes h: "gb_holds (b_txt b) s"
  shows "k < length s \<Longrightarrow> \<exists>b'. delete_cur b (Cur k) src = Some (Cur k, b') \<and>
           edited b b' (take k s @ drop (Suc k) s) (log_delete_char (b_edit_log b) (Cur k) (s ! k))"
    "\<not> k < length s \<Longrightarrow> delete_cur b (Cur k) src = Some (Cur k, b)"
proof -
  have n: "len_chars (b_txt b) = length s" using gb_holds_len[OF h] by (simp add: len_chars_def)
  show "\<not> k < length s \<Longrightarrow> delete_cur b (Cur k) src = Some (Cur k, b)"
    by (simp add: delete_cur_def Let_def n)
  assume k: "k < length s"
  obtain gb1 where 1: "gb_char (b_txt b) k = Some (s ! k, gb1)" "gb_holds gb1 s"
    using gb_char_correct[OF h k] by blast
  obtain gb2 where "gb_remove_char gb1 k = Some gb2" "gb_holds gb2 (take k s @ drop (Suc k) s)"
    using gb_remove_char_holds[OF 1(2) k] by blast
  then show "\<exists>b'. delete_cur b (Cur k) src = Some (Cur k, b') \<and>
      edited b b' (take k s @ drop (Suc k) s) (log_delete_char (b_edit_log b) (Cur k) (s ! k))"
    using 1(1) k by (simp add: delete_cur_def Let_def n edited_def)
qed

lemma delete_range_correct:
  assumes h: "gb_holds (b_txt b) s" and r: "r_start r \<le> r_end r" "cur_idx (r_start r) \<le> length s"
  defines "i \<equiv> cur_idx (r_start r)" and "j \<equiv> min (cur_idx (r_end r) + 1) (length s)"
  shows "\<exists>b' d. delete_range b r src = Some ((Cur i, d), b') \<and>
           edited b b' (take i s @ drop j s)
             (log_delete_string (b_edit_log b) (Cur i) (drop i (take j s)))"
proof -
  have n: "len_chars (b_txt b) = length s" using gb_holds_len[OF h] by (simp add: len_chars_def)
  have ij: "i \<le> j" "j \<le> length s" using r by (auto simp: i_def j_def cur_order)
  obtain sl gb1 where 1: "gb_slice_chars (b_txt b) i j = Some (sl, gb1)"
    "sl_holds sl (drop i (take j s))" "gb_holds gb1 s"
    using gb_slice_chars_correct[OF h ij] by blast
  obtain gb2 where 2: "gb_remove_range gb1 i j = Some gb2" "gb_holds gb2 (take i s @ drop j s)"
    using gb_remove_range_holds[OF 1(3) ij] by blast
  have start: "r_start r = Cur i" by (simp add: i_def)
  have j: "min (Suc (cur_idx (r_end r))) (length s) = j" by (simp add: j_def)
  show ?thesis
    using 1(1) 2 sl_to_string_holds[OF 1(2)]
    by (simp add: delete_range_def n start edited_def Let_def j)
qed

text \<open>The text and the log behind the removal of what a dot selects, for the two insertions.\<close>

fun cut_dot :: "dot \<Rightarrow> ustr \<Rightarrow> ustr" where
  "cut_dot (DotCur c) s = s"
| "cut_dot (DotRange r) s =
     take (cur_idx (r_start r)) s @ drop (min (cur_idx (r_end r) + 1) (length s)) s"

fun cut_log :: "dot \<Rightarrow> ustr \<Rightarrow> edit_log \<Rightarrow> edit_log" where
  "cut_log (DotCur c) s l = l"
| "cut_log (DotRange r) s l = log_delete_string l (r_start r)
     (drop (cur_idx (r_start r)) (take (min (cur_idx (r_end r) + 1) (length s)) s))"

text \<open>A dot that the editing operations accept: in order, and a range has a character in it.\<close>

fun dot_in :: "ustr \<Rightarrow> dot \<Rightarrow> bool" where
  "dot_in s (DotCur c) \<longleftrightarrow> cur_idx c \<le> length s"
| "dot_in s (DotRange r) \<longleftrightarrow> r_start r \<le> r_end r \<and> cur_idx (r_start r) < length s"

definition cut_first :: "buffer \<Rightarrow> dot \<Rightarrow> source option \<Rightarrow> ((cur \<times> ustr option) \<times> buffer) option" where
  "cut_first b d src =
     (case d of DotCur c \<Rightarrow> Some ((c, None), b) | DotRange r \<Rightarrow> delete_range b r src)"

lemma cut_first_correct:
  assumes h: "gb_holds (b_txt b) s" and d: "dot_in s d"
  shows "\<exists>b' del. cut_first b d src = Some ((first_cur d, del), b') \<and>
    edited b b' (cut_dot d s) (cut_log d s (b_edit_log b)) \<and>
    cur_idx (first_cur d) \<le> length (cut_dot d s)"
proof (cases d)
  case (DotCur c)
  then show ?thesis using h d by (simp add: edited_def cut_first_def)
next
  case (DotRange r)
  then have r: "r_start r \<le> r_end r" "cur_idx (r_start r) \<le> length s" using d by simp_all
  have c: "Cur (cur_idx (r_start r)) = r_start r" by simp
  show ?thesis
    using delete_range_correct[OF h r, of src] DotRange r(2) unfolding c by (auto simp: cut_first_def)
qed

lemma buf_insert_char_correct:
  assumes h: "gb_holds (b_txt b) s" and d: "dot_in s d" and ch: "uchar_ok ch"
    and ncr: "ch \<noteq> carriage_return"
  defines "k \<equiv> cur_idx (first_cur d)" and "s' \<equiv> cut_dot d s"
  shows "\<exists>b' del. buf_insert_char b d ch src = Some ((Cur (k + 1), del), b') \<and>
    edited b b' (take k s' @ ch # drop k s')
      (log_insert_char (cut_log d s (b_edit_log b)) (first_cur d) ch)"
proof -
  obtain b1 del where 1: "cut_first b d src = Some ((first_cur d, del), b1)"
    "edited b b1 s' (cut_log d s (b_edit_log b))" "k \<le> length s'"
    using cut_first_correct[OF h d] unfolding s'_def k_def by blast
  obtain gb2 where 2: "gb_insert_char (b_txt b1) k ch = Some gb2"
    "gb_holds gb2 (take k s' @ ch # drop k s')"
    using gb_insert_char_holds[of "b_txt b1" s' k ch] 1(2,3) ch by (auto simp: edited_def)
  show ?thesis
    using 1 2 ncr by (simp add: buf_insert_char_def edited_def flip: k_def cut_first_def)
qed

lemma buf_insert_string_correct:
  assumes h: "gb_holds (b_txt b) s" and d: "dot_in s d" and t: "str_ok t"
    and norm: "normalize_line_endings t = t"
  defines "k \<equiv> cur_idx (first_cur d)" and "s' \<equiv> cut_dot d s"
  shows "\<exists>b' del. buf_insert_string b d t src = Some ((Cur (k + length t), del), b') \<and>
    edited b b' (take k s' @ t @ drop k s')
      (if t = [] then cut_log d s (b_edit_log b)
       else log_insert_string (cut_log d s (b_edit_log b)) (first_cur d) t)"
proof -
  obtain b1 del where 1: "cut_first b d src = Some ((first_cur d, del), b1)"
    "edited b b1 s' (cut_log d s (b_edit_log b))" "k \<le> length s'"
    using cut_first_correct[OF h d] unfolding s'_def k_def by blast
  obtain gb2 where 2: "gb_insert_str (b_txt b1) k t = Some gb2"
    "gb_holds gb2 (take k s' @ t @ drop k s')"
    using gb_insert_str_holds[of "b_txt b1" s' k t] 1(2,3) t by (auto simp: edited_def)
  have c: "first_cur d = Cur k" by (simp add: k_def)
  show ?thesis
    using 1 2 unfolding c
    by (auto simp: buf_insert_string_def norm edited_def Let_def simp flip: cut_first_def)
qed

subsection \<open>Applying recorded edits\<close>

lemma log_paused:
  "l_paused l \<Longrightarrow> log_insert_char l c ch = l" "l_paused l \<Longrightarrow> log_insert_string l c t = l"
  "l_paused l \<Longrightarrow> log_delete_char l c ch = l" "l_paused l \<Longrightarrow> log_delete_string l c t = l"
  by (simp_all add: log_insert_char_def log_insert_string_def log_delete_char_def
      log_delete_string_def)

lemma apply_edit_correct:
  assumes h: "gb_holds (b_txt b) s" and p: "l_paused (b_edit_log b)"
    and fx: "edit_fx e s = Some s'" and pl: "edit_plain e"
  shows "\<exists>b'. apply_edit b e = Some b' \<and> gb_holds (b_txt b') s' \<and> b_edit_log b' = b_edit_log b"
proof -
  obtain kind k t where e: "e = \<lparr>e_kind = kind, e_cur = Cur k, e_txt = t\<rparr>"
    by (metis cur.exhaust edit.cases)
  show ?thesis
  proof (cases kind)
    case Insert
    then have i: "k \<le> length s" "s' = take k s @ txt_str t @ drop k s"
      using fx unfolding e Insert edit_fx_Insert by auto
    show ?thesis
    proof (cases t)
      case (Char c)
      then have c: "uchar_ok c" "c \<noteq> carriage_return" using pl plain_str_ok[of "[c]"] e by auto
      show ?thesis
        using buf_insert_char_correct[OF h _ c, of "DotCur (Cur k)" None] i
        by (auto simp: apply_edit_def e Insert Char log_paused p edited_def)
    next
      case (String u)
      then have u: "str_ok u" "normalize_line_endings u = u"
        using pl plain_str_ok plain_normalize e by auto
      show ?thesis
        using buf_insert_string_correct[OF h _ u, of "DotCur (Cur k)" None] i
        by (auto simp: apply_edit_def e Insert String log_paused p edited_def)
    qed
  next
    case Delete
    then obtain a z where d: "txt_str t \<noteq> []" "s = a @ txt_str t @ z" "length a = k" "s' = a @ z"
      using fx unfolding e Delete edit_fx_Delete by blast
    show ?thesis
    proof (cases "length (txt_str t) = 1")
      case True
      then have "k < length s" "take k s @ drop (Suc k) s = s'" using d by (auto simp: length_Suc_conv)
      then obtain b' where b': "delete_cur b (Cur k) None = Some (Cur k, b')"
        "gb_holds (b_txt b') s'" "b_edit_log b' = b_edit_log b"
        using delete_cur_correct(1)[OF h, of k None] p by (auto simp: log_paused edited_def)
      have "collapse_null_range (DotRange (range_from_cursors (Cur k) (Cur (k + 1 - 1)) True)) =
          DotCur (Cur k)"
        by (simp add: range_from_cursors_def)
      then show ?thesis
        using True b' by (cases t) (auto simp: apply_edit_def e Delete delete_dot_def Let_def)
    next
      case False
      then obtain u where u: "t = String u" "2 \<le> length u" "txt_str t = u"
      proof (cases t)
        case (String v)
        then have "length v \<noteq> 0" "length v \<noteq> 1" using d(1) False by auto
        then have "2 \<le> length v" by linarith
        then show thesis using that[of v] String by auto
      qed (use False in auto)
      let ?r = "\<lparr>r_start = Cur k, r_end = Cur (k + length u - 1), r_start_active = True\<rparr>"
      have r: "collapse_null_range (DotRange
          (range_from_cursors (Cur k) (Cur (k + length u - 1)) True)) = DotRange ?r"
        using u(2) by (auto simp: range_from_cursors_def cur_order)
      have m: "min (k + length u - 1 + 1) (length s) = k + length u" using d(2,3) u by simp
      have le: "r_start ?r \<le> r_end ?r" "cur_idx (r_start ?r) \<le> length s"
        using u(2) d(2,3) by (auto simp: cur_order)
      have "take k s @ drop (k + length u) s = s'" using d u by simp
      then obtain b' x where "delete_range b ?r None = Some ((Cur k, x), b')"
        "gb_holds (b_txt b') s'" "b_edit_log b' = b_edit_log b"
        using delete_range_correct[OF h le, of None] p m by (auto simp: log_paused edited_def)
      then show ?thesis
        by (simp add: apply_edit_def e Delete u(1) delete_dot_def Let_def r
            del: collapse_null_range.simps One_nat_def)
    qed
  qed
qed

lemma apply_edits_correct:
  "gb_holds (b_txt b) s \<Longrightarrow> l_paused (b_edit_log b) \<Longrightarrow> edits_fx es s = Some s' \<Longrightarrow>
   list_all edit_plain es \<Longrightarrow>
   \<exists>b'. apply_edits b es = Some b' \<and> gb_holds (b_txt b') s' \<and> b_edit_log b' = b_edit_log b"
proof (induction es arbitrary: b s)
  case (Cons e es)
  obtain s1 where s1: "edit_fx e s = Some s1" "edits_fx es s1 = Some s'"
    using Cons.prems(3) by (auto simp: bind_eq_Some_conv)
  have pl: "edit_plain e" "list_all edit_plain es" using Cons.prems(4) by auto
  obtain b1 where b1: "apply_edit b e = Some b1" "gb_holds (b_txt b1) s1"
    "b_edit_log b1 = b_edit_log b"
    using apply_edit_correct[OF Cons.prems(1,2) s1(1) pl(1)] by blast
  show ?case using Cons.IH[OF b1(2) _ s1(2) pl(2)] b1 Cons.prems(2) by auto
qed auto

subsection \<open>The invariant of a buffer\<close>

text \<open>The buffer holds \<open>s\<close>, plain text, and its log leads to \<open>s\<close> and on from it.\<close>

definition buf_inv :: "buffer \<Rightarrow> ustr \<Rightarrow> bool" where
  "buf_inv b s \<longleftrightarrow> gb_holds (b_txt b) s \<and> plain s \<and> log_ok (b_edit_log b) s"

lemma new_unnamed_inv:
  assumes "plain s"
  shows "\<exists>b. new_unnamed i s = Some b \<and> buf_inv b s"
  using gap.make_holds[OF plain_str_ok[OF assms]] assms plain_normalize[OF assms]
  by (auto simp: new_unnamed_def buffer_new_def buf_inv_def log_ok_def log_default_def)

lemma edits_fx_plain:
  "edits_fx es s = Some s' \<Longrightarrow> list_all edit_plain es \<Longrightarrow> plain s \<Longrightarrow> plain s'"
proof (induction es arbitrary: s)
  case (Cons e es)
  then obtain s1 where s1: "edit_fx e s = Some s1" "edits_fx es s1 = Some s'"
    by (auto simp: bind_eq_Some_conv)
  have "plain s1"
    using s1(1) Cons.prems(2,3) plain_take_drop[of s]
    by (auto simp: edit_fx_def Let_def split: if_splits edit_kind.splits)
  then show ?case using Cons.IH[OF s1(2)] Cons.prems(2) by simp
qed simp

lemma log_ok_unpaused: "log_ok l s \<Longrightarrow> \<not> l_paused l"
  by (simp add: log_ok_def)

lemma log_ok_paused_update: "log_ok l s \<Longrightarrow> l\<lparr>l_paused := True\<rparr>\<lparr>l_paused := False\<rparr> = l"
  by (simp add: log_ok_def)

theorem buf_undo_correct:
  assumes inv: "buf_inv b s"
  shows "\<exists>o' b' s'. buf_undo b = Some (o', b') \<and> buf_inv b' s' \<and>
    (case log_undo (b_edit_log b) of
       (None, l) \<Rightarrow> s' = s \<and> b_txt b' = b_txt b \<and> b_edit_log b' = l
     | (Some es, l) \<Rightarrow> o' = None \<and> edits_fx es s = Some s' \<and> b_edit_log b' = l)"
proof (cases "log_undo (b_edit_log b)")
  case (Pair o' l)
  have ok: "gb_holds (b_txt b) s" "plain s" "log_ok (b_edit_log b) s"
    using inv by (simp_all add: buf_inv_def)
  show ?thesis
  proof (cases o')
    case None
    then show ?thesis
      using Pair ok log_undo_None[OF ok(3)] by (auto simp: buf_undo_def buf_inv_def)
  next
    case (Some es)
    then obtain s' where s': "edits_fx es s = Some s'" "log_ok l s'" "list_all edit_plain es"
      using log_undo_ok[OF ok(3)] Pair by blast
    let ?b = "set_paused True (b\<lparr>b_edit_log := l\<rparr>)"
    obtain b' where b': "apply_edits ?b es = Some b'" "gb_holds (b_txt b') s'"
      "b_edit_log b' = l\<lparr>l_paused := True\<rparr>"
      using apply_edits_correct[of ?b s es s'] ok(1) s' by (auto simp: set_paused_def)
    have l: "b_edit_log (set_paused False b') = l"
      using b'(3) log_ok_paused_update[OF s'(2)] by (simp add: set_paused_def)
    have "plain s'" by (rule edits_fx_plain[OF s'(1,3) ok(2)])
    then show ?thesis
      using Pair Some b' s' l by (auto simp: buf_undo_def buf_inv_def set_paused_def)
  qed
qed

theorem buf_redo_correct:
  assumes inv: "buf_inv b s"
  shows "\<exists>o' b' s'. buf_redo b = Some (o', b') \<and> buf_inv b' s' \<and>
    (case log_redo (b_edit_log b) of
       (None, l) \<Rightarrow> s' = s \<and> b_txt b' = b_txt b \<and> b_edit_log b' = l
     | (Some es, l) \<Rightarrow> o' = None \<and> edits_fx es s = Some s' \<and> b_edit_log b' = l)"
proof (cases "log_redo (b_edit_log b)")
  case (Pair o' l)
  have ok: "gb_holds (b_txt b) s" "plain s" "log_ok (b_edit_log b) s"
    using inv by (simp_all add: buf_inv_def)
  show ?thesis
  proof (cases o')
    case None
    then show ?thesis
      using Pair ok log_redo_None[OF ok(3)] by (auto simp: buf_redo_def buf_inv_def)
  next
    case (Some es)
    then obtain s' where s': "edits_fx es s = Some s'" "log_ok l s'" "list_all edit_plain es"
      using log_redo_ok[OF ok(3)] Pair by blast
    let ?b = "set_paused True (b\<lparr>b_edit_log := l\<rparr>)"
    obtain b' where b': "apply_edits ?b es = Some b'" "gb_holds (b_txt b') s'"
      "b_edit_log b' = l\<lparr>l_paused := True\<rparr>"
      using apply_edits_correct[of ?b s es s'] ok(1) s' by (auto simp: set_paused_def)
    have l: "b_edit_log (set_paused False b') = l"
      using b'(3) log_ok_paused_update[OF s'(2)] by (simp add: set_paused_def)
    have "plain s'" by (rule edits_fx_plain[OF s'(1,3) ok(2)])
    then show ?thesis
      using Pair Some b' s' l by (auto simp: buf_redo_def buf_inv_def set_paused_def)
  qed
qed

end
