(* ===== verification/BufferProperties.thy ===== *)
theory BufferProperties
  imports BufferEdit
begin

subsection \<open>Editing operations and their effect\<close>













subsection \<open>One transaction\<close>





subsection \<open>Properties\<close>








subsection \<open>Where undo goes wrong\<close>

text \<open>
  The merge of an insertion measures the recorded string in bytes. A two byte character
  inserted at 0 and then a character inserted at 2 are merged although a character lies
  between them; undo then removes that character and leaves the second insertion.
\<close>

lemma undo_multibyte_merge:
  "do { b \<leftarrow> new_unnamed 0 [97, 98];
        (_, b) \<leftarrow> buf_insert_string b (DotCur (Cur 0)) [233] None;
        (_, b) \<leftarrow> buf_insert_char b (DotCur (Cur 2)) 120 None;
        s1 \<leftarrow> str_contents b;
        (_, b) \<leftarrow> buf_undo b;
        s2 \<leftarrow> str_contents b;
        Some (s1, s2) } = Some ([233, 97, 120, 98], [120, 98])"
  by code_simp

text \<open>
  A range behind the end of the text is clamped to a null range at its end; deleting it
  records the deletion of an empty string, and redo takes that as two characters.
\<close>

lemma redo_empty_delete:
  "do { b \<leftarrow> new_unnamed 0 [97, 98, 99];
        let b = set_dot_from_range b 5 7;
        (_, b) \<leftarrow> handle_action b ADelete Fsys;
        s1 \<leftarrow> str_contents b;
        (_, b) \<leftarrow> buf_undo b;
        (_, b) \<leftarrow> buf_redo b;
        s2 \<leftarrow> str_contents b;
        Some (s1, s2) } = Some ([97, 98, 99], [97, 98])"
  by code_simp

end
