(* ===== verification/ZipList.thy ===== *)
theory ZipList
  imports Prelude "HOL-Library.Multiset"
begin

text \<open>
  The zip list of src/ziplist.rs: a non-empty sequence with one focused element, used for
  the windows, columns and buffers of the editor. \<open>up\<close> holds what is in front of the focus,
  nearest first; a \<open>VecDeque\<close> is a list whose front is the head. The closures that the
  operations take are pure functions.
\<close>

subsection \<open>Double-ended queues\<close>

definition pop_front :: "'a list \<Rightarrow> 'a option \<times> 'a list" where
  "pop_front xs = (case xs of [] \<Rightarrow> (None, []) | x # xs \<Rightarrow> (Some x, xs))"

definition pop_back :: "'a list \<Rightarrow> 'a option \<times> 'a list" where
  "pop_back xs = (if xs = [] then (None, []) else (Some (last xs), butlast xs))"

text \<open>\<open>for item in from { to.push_front(item) }\<close>\<close>

definition push_front_all :: "'a list \<Rightarrow> 'a list \<Rightarrow> 'a list" where
  "push_front_all from to = fold (#) from to"

lemma push_front_all_eq [simp]: "push_front_all xs ys = rev xs @ ys"
  by (simp add: push_front_all_def fold_Cons_rev)

lemma pop_simps [simp]:
  "pop_front [] = (None, [])" "pop_front (x # xs) = (Some x, xs)"
  "pop_back [] = (None, [])" "pop_back (xs @ [x]) = (Some x, xs)"
  by (simp_all add: pop_front_def pop_back_def)

subsection \<open>The structure\<close>

datatype position = Focus | Before | After | Head | Tail

record 'a ziplist =
  z_up :: "'a list"
  z_focus :: 'a
  z_down :: "'a list"

definition zl_new :: "'a list \<Rightarrow> 'a \<Rightarrow> 'a list \<Rightarrow> 'a ziplist" where
  "zl_new up focus down = \<lparr>z_up = push_front_all up [], z_focus = focus, z_down = down\<rparr>"

definition try_from_iter :: "'a list \<Rightarrow> 'a ziplist option" where
  "try_from_iter it =
     (case it of [] \<Rightarrow> None | focus # it \<Rightarrow> Some \<lparr>z_up = [], z_focus = focus, z_down = it\<rparr>)"

definition zl_len :: "'a ziplist \<Rightarrow> nat" where
  "zl_len z = length (z_up z) + length (z_down z) + 1"

definition zl_is_empty :: "'a ziplist \<Rightarrow> bool" where
  "zl_is_empty z \<longleftrightarrow> False"

text \<open>The iterators: what is left of the two sides, and of the focus.\<close>

record 'a zl_iter =
  zi_up :: "'a list"
  zi_focus :: "'a option"
  zi_down :: "'a list"

definition zl_into_iter :: "'a ziplist \<Rightarrow> 'a zl_iter" where
  "zl_into_iter z = \<lparr>zi_up = z_up z, zi_focus = Some (z_focus z), zi_down = z_down z\<rparr>"

definition zl_iter_next :: "'a zl_iter \<Rightarrow> (bool \<times> 'a) option \<times> 'a zl_iter" where
  "zl_iter_next it =
     (case pop_back (zi_up it) of
        (Some t, up) \<Rightarrow> (Some (False, t), it\<lparr>zi_up := up\<rparr>)
      | (None, _) \<Rightarrow>
        (case zi_focus it of
           Some t \<Rightarrow> (Some (True, t), it\<lparr>zi_focus := None\<rparr>)
         | None \<Rightarrow>
           (case pop_front (zi_down it) of
              (Some t, down) \<Rightarrow> (Some (False, t), it\<lparr>zi_down := down\<rparr>)
            | (None, _) \<Rightarrow> (None, it))))"

definition zl_iter_size :: "'a zl_iter \<Rightarrow> nat" where
  "zl_iter_size it = length (zi_up it) + length (zi_down it) + (if zi_focus it = None then 0 else 1)"

function zl_iter_collect :: "'a zl_iter \<Rightarrow> (bool \<times> 'a) list" where
  "zl_iter_collect it =
     (case zl_iter_next it of (None, _) \<Rightarrow> [] | (Some x, it) \<Rightarrow> x # zl_iter_collect it)"
  by pat_completeness auto
termination
  by (relation "measure zl_iter_size")
     (auto simp: zl_iter_next_def zl_iter_size_def pop_back_def pop_front_def
        split: if_splits option.splits list.splits)

declare zl_iter_collect.simps [simp del]

definition zl_iter :: "'a ziplist \<Rightarrow> (bool \<times> 'a) list" where
  "zl_iter z = zl_iter_collect (zl_into_iter z)"

definition unravel :: "'a ziplist \<Rightarrow> 'a list" where
  "unravel z = z_focus z # z_down z @ rev (z_up z)"

definition flatten :: "'a ziplist \<Rightarrow> 'a list" where
  "flatten z = map snd (zl_iter z)"

definition zl_head :: "'a ziplist \<Rightarrow> 'a" where
  "zl_head z = (if z_up z = [] then z_focus z else last (z_up z))"

definition zl_focused :: "'a ziplist \<Rightarrow> 'a" where
  "zl_focused z = z_focus z"

definition zl_last :: "'a ziplist \<Rightarrow> 'a" where
  "zl_last z = (if z_down z = [] then z_focus z else last (z_down z))"

subsection \<open>Reordering\<close>

definition swap_focus_and_head :: "'a ziplist \<Rightarrow> 'a ziplist" where
  "swap_focus_and_head z =
     (let (head, tmp) = pop_back (z_up z);
          z = z\<lparr>z_up := []\<rparr>;
          down = (case head of Some h \<Rightarrow> h # z_down z | None \<Rightarrow> z_down z)
      in z\<lparr>z_down := push_front_all tmp down\<rparr>)"

definition rotate_focus_to_head :: "'a ziplist \<Rightarrow> 'a ziplist" where
  "rotate_focus_to_head z = z\<lparr>z_down := z_down z @ rev (z_up z), z_up := []\<rparr>"

definition focus_head :: "'a ziplist \<Rightarrow> 'a ziplist" where
  "focus_head z =
     (case pop_back (z_up z) of
        (None, _) \<Rightarrow> z
      | (Some head, up) \<Rightarrow>
          z\<lparr>z_focus := head, z_up := [], z_down := push_front_all up (z_focus z # z_down z)\<rparr>)"

definition focus_tail :: "'a ziplist \<Rightarrow> 'a ziplist" where
  "focus_tail z =
     (case pop_back (z_down z) of
        (None, _) \<Rightarrow> z
      | (Some tail, down) \<Rightarrow>
          z\<lparr>z_focus := tail, z_down := [], z_up := push_front_all down (z_focus z # z_up z)\<rparr>)"

definition zl_insert_at :: "position \<Rightarrow> 'a \<Rightarrow> 'a ziplist \<Rightarrow> 'a ziplist" where
  "zl_insert_at pos t z =
     (case pos of
        Focus \<Rightarrow> z\<lparr>z_focus := t, z_down := z_focus z # z_down z\<rparr>
      | Before \<Rightarrow> z\<lparr>z_up := t # z_up z\<rparr>
      | After \<Rightarrow> z\<lparr>z_down := t # z_down z\<rparr>
      | Head \<Rightarrow> z\<lparr>z_up := z_up z @ [t]\<rparr>
      | Tail \<Rightarrow> z\<lparr>z_down := z_down z @ [t]\<rparr>)"

definition zl_insert :: "'a \<Rightarrow> 'a ziplist \<Rightarrow> 'a ziplist" where
  "zl_insert t z = zl_insert_at Focus t z"

subsection \<open>Removal\<close>

text \<open>\<open>self.down.pop_front().or_else(|| self.up.pop_front())\<close>\<close>

definition pop_next :: "'a ziplist \<Rightarrow> 'a option \<times> 'a ziplist" where
  "pop_next z =
     (case pop_front (z_down z) of
        (Some t, down) \<Rightarrow> (Some t, z\<lparr>z_down := down\<rparr>)
      | (None, _) \<Rightarrow> (case pop_front (z_up z) of (t, up) \<Rightarrow> (t, z\<lparr>z_up := up\<rparr>)))"

definition remove_focused :: "'a ziplist \<Rightarrow> 'a \<times> 'a ziplist option" where
  "remove_focused z =
     (case pop_next z of
        (None, _) \<Rightarrow> (z_focus z, None)
      | (Some focus, z') \<Rightarrow> (z_focus z, Some (z'\<lparr>z_focus := focus\<rparr>)))"

definition remove_focused_unchecked :: "'a ziplist \<Rightarrow> ('a \<times> 'a ziplist) option" where
  "remove_focused_unchecked z =
     (case pop_next z of
        (None, _) \<Rightarrow> None
      | (Some focus, z') \<Rightarrow> Some (z_focus z, z'\<lparr>z_focus := focus\<rparr>))"

text \<open>The macro \<open>pop_where!\<close>: the popped element and what remains.\<close>

definition pop_where :: "('a \<Rightarrow> bool) \<Rightarrow> 'a list \<Rightarrow> 'a option \<times> 'a list" where
  "pop_where pred xs =
     fold (\<lambda>item (popped, remaining).
             if pred item then (Some item, remaining) else (popped, remaining @ [item]))
       xs (None, [])"

definition remove_where_with_default ::
  "('a \<Rightarrow> bool) \<Rightarrow> (unit \<Rightarrow> 'a) \<Rightarrow> 'a ziplist \<Rightarrow> 'a option \<times> 'a ziplist" where
  "remove_where_with_default pred dflt z =
     (case pop_where pred (z_up z) of
        (Some found, up) \<Rightarrow> (Some found, z\<lparr>z_up := up\<rparr>)
      | (None, up) \<Rightarrow>
        let z = z\<lparr>z_up := up\<rparr> in
        (case pop_where pred (z_down z) of
           (Some found, down) \<Rightarrow> (Some found, z\<lparr>z_down := down\<rparr>)
         | (None, down) \<Rightarrow>
           let z = z\<lparr>z_down := down\<rparr> in
           if pred (z_focus z) then
             (case pop_next z of
                (Some focus, z') \<Rightarrow> (Some (z_focus z), z'\<lparr>z_focus := focus\<rparr>)
              | (None, z') \<Rightarrow> (Some (z_focus z), z'\<lparr>z_focus := dflt ()\<rparr>))
           else (None, z)))"

definition zl_remove :: "'a \<Rightarrow> 'a ziplist \<Rightarrow> 'a option \<times> 'a ziplist option" where
  "zl_remove t z =
     (case pop_where (\<lambda>e. e = t) (z_up z) of
        (Some found, up) \<Rightarrow> (Some found, Some (z\<lparr>z_up := up\<rparr>))
      | (None, up) \<Rightarrow>
        let z = z\<lparr>z_up := up\<rparr> in
        (case pop_where (\<lambda>e. e = t) (z_down z) of
           (Some found, down) \<Rightarrow> (Some found, Some (z\<lparr>z_down := down\<rparr>))
         | (None, down) \<Rightarrow>
           let z = z\<lparr>z_down := down\<rparr> in
           if t = z_focus z then (case remove_focused z of (f, s) \<Rightarrow> (Some f, s))
           else (None, Some z)))"

definition zl_map :: "('a \<Rightarrow> 'b) \<Rightarrow> 'a ziplist \<Rightarrow> 'b ziplist" where
  "zl_map f z = \<lparr>z_up = map f (z_up z), z_focus = f (z_focus z), z_down = map f (z_down z)\<rparr>"

definition zl_filter :: "('a \<Rightarrow> bool) \<Rightarrow> 'a ziplist \<Rightarrow> 'a ziplist option" where
  "zl_filter f z =
     (let new_stack = z\<lparr>z_up := filter f (z_up z), z_down := filter f (z_down z)\<rparr>
      in if f (z_focus new_stack) then Some new_stack
         else snd (remove_focused new_stack))"

definition zl_filter_unchecked :: "('a \<Rightarrow> bool) \<Rightarrow> 'a ziplist \<Rightarrow> 'a ziplist option" where
  "zl_filter_unchecked f z =
     (let z = z\<lparr>z_up := filter f (z_up z), z_down := filter f (z_down z)\<rparr>
      in if \<not> f (z_focus z) then map_option snd (remove_focused_unchecked z) else Some z)"

definition zl_extract :: "('a \<Rightarrow> bool) \<Rightarrow> 'a ziplist \<Rightarrow> 'a ziplist option \<times> 'a list" where
  "zl_extract f z =
     (let (up, extracted) =
            fold (\<lambda>t (up, extracted). if f t then (t # up, extracted) else (up, extracted @ [t]))
              (rev (z_up z)) ([], []);
          up_to_focus = length extracted;
          (down, extracted) =
            fold (\<lambda>t (down, extracted). if f t then (down @ [t], extracted)
                                       else (down, extracted @ [t]))
              (z_down z) ([], extracted);
          new_stack = \<lparr>z_up = up, z_focus = z_focus z, z_down = down\<rparr>
      in if f (z_focus new_stack) then (Some new_stack, extracted)
         else let (t, maybe_stack) = remove_focused new_stack
              in (maybe_stack, take up_to_focus extracted @ t # drop up_to_focus extracted))"

subsection \<open>Moving the focus\<close>

definition zl_reverse :: "'a ziplist \<Rightarrow> 'a ziplist" where
  "zl_reverse z = z\<lparr>z_up := z_down z, z_down := z_up z\<rparr>"

definition swap_focus :: "'a \<Rightarrow> 'a ziplist \<Rightarrow> 'a \<times> 'a ziplist" where
  "swap_focus new z = (z_focus z, z\<lparr>z_focus := new\<rparr>)"

definition rev_up :: "'a ziplist \<Rightarrow> 'a ziplist" where
  "rev_up z = z\<lparr>z_up := rev (z_up z)\<rparr>"

definition rev_down :: "'a ziplist \<Rightarrow> 'a ziplist" where
  "rev_down z = z\<lparr>z_down := rev (z_down z)\<rparr>"

definition focus_up :: "'a ziplist \<Rightarrow> 'a ziplist" where
  "focus_up z =
     (case (pop_front (z_up z), pop_back (z_down z)) of
        ((Some new, up), _) \<Rightarrow>
          let (old, z) = swap_focus new (z\<lparr>z_up := up\<rparr>) in z\<lparr>z_down := old # z_down z\<rparr>
      | ((None, _), (Some new, down)) \<Rightarrow>
          let (old, z) = swap_focus new (z\<lparr>z_down := down\<rparr>)
          in rev_up (zl_reverse (z\<lparr>z_down := old # z_down z\<rparr>))
      | ((None, _), (None, _)) \<Rightarrow> z)"

definition focus_down :: "'a ziplist \<Rightarrow> 'a ziplist" where
  "focus_down z =
     (case (pop_back (z_up z), pop_front (z_down z)) of
        (_, (Some new, down)) \<Rightarrow>
          let (old, z) = swap_focus new (z\<lparr>z_down := down\<rparr>) in z\<lparr>z_up := old # z_up z\<rparr>
      | ((Some new, up), (None, _)) \<Rightarrow>
          let (old, z) = swap_focus new (z\<lparr>z_up := up\<rparr>)
          in rev_down (zl_reverse (z\<lparr>z_up := old # z_up z\<rparr>))
      | ((None, _), (None, _)) \<Rightarrow> z)"

text \<open>\<open>for _ in 0..n { if f(&self.focus) { return true; } self.focus_down(); }\<close>\<close>

fun focus_loop :: "('a \<Rightarrow> bool) \<Rightarrow> nat \<Rightarrow> 'a ziplist \<Rightarrow> bool \<times> 'a ziplist" where
  "focus_loop f 0 z = (False, z)"
| "focus_loop f (Suc n) z = (if f (z_focus z) then (True, z) else focus_loop f n (focus_down z))"

definition focus_element_by :: "('a \<Rightarrow> bool) \<Rightarrow> 'a ziplist \<Rightarrow> bool \<times> 'a ziplist" where
  "focus_element_by f z = focus_loop f (zl_len z) z"

definition focus_element :: "'a \<Rightarrow> 'a ziplist \<Rightarrow> 'a ziplist" where
  "focus_element t z = snd (focus_element_by (\<lambda>e. e = t) z)"

definition zl_contains :: "'a \<Rightarrow> 'a ziplist \<Rightarrow> bool" where
  "zl_contains t z \<longleftrightarrow> z_focus z = t \<or> t \<in> set (z_up z) \<or> t \<in> set (z_down z)"

definition swap_up :: "'a ziplist \<Rightarrow> 'a ziplist" where
  "swap_up z =
     (case pop_front (z_up z) of
        (Some t, up) \<Rightarrow> z\<lparr>z_up := up, z_down := t # z_down z\<rparr>
      | (None, _) \<Rightarrow> rev_up (zl_reverse z))"

definition swap_down :: "'a ziplist \<Rightarrow> 'a ziplist" where
  "swap_down z =
     (case pop_front (z_down z) of
        (Some t, down) \<Rightarrow> z\<lparr>z_down := down, z_up := t # z_up z\<rparr>
      | (None, _) \<Rightarrow> rev_down (zl_reverse z))"

definition rotate_up :: "'a ziplist \<Rightarrow> 'a ziplist" where
  "rotate_up z =
     (case pop_back (z_up z) of
        (Some t, up) \<Rightarrow> z\<lparr>z_up := up, z_down := z_down z @ [t]\<rparr>
      | (None, _) \<Rightarrow> rev_up (zl_reverse z))"

definition rotate_down :: "'a ziplist \<Rightarrow> 'a ziplist" where
  "rotate_down z =
     (case pop_back (z_down z) of
        (Some t, down) \<Rightarrow> z\<lparr>z_down := down, z_up := z_up z @ [t]\<rparr>
      | (None, _) \<Rightarrow> rev_down (zl_reverse z))"

definition zl_index :: "'a ziplist \<Rightarrow> nat \<Rightarrow> 'a option" where
  "zl_index z i =
     (let nup = length (z_up z) in
      if i < nup then nth_opt (z_up z) (nup - i - 1)
      else if i = nup then Some (z_focus z)
      else nth_opt (z_down z) (i - nup - 1))"

subsection \<open>The sequence and the position of the focus\<close>

definition zl_list :: "'a ziplist \<Rightarrow> 'a list" where
  "zl_list z = rev (z_up z) @ z_focus z # z_down z"

definition zl_pos :: "'a ziplist \<Rightarrow> nat" where
  "zl_pos z = length (z_up z)"

named_theorems zl_simps "the sequence behind an operation"

lemmas zl_abs = zl_list_def zl_pos_def

lemma zl_pos_less: "zl_pos z < length (zl_list z)"
  by (simp add: zl_abs)

lemma zl_focus_nth: "z_focus z = zl_list z ! zl_pos z"
  by (simp add: zl_abs nth_append)

lemma zl_len_eq: "zl_len z = length (zl_list z)"
  by (simp add: zl_len_def zl_abs)

lemma zl_eqI: "zl_list z = zl_list w \<Longrightarrow> zl_pos z = zl_pos w \<Longrightarrow> z = (w :: 'a ziplist)"
  by (cases z; cases w) (auto simp: zl_abs)

lemma zl_iter_collect_eq:
  "map snd (zl_iter_collect \<lparr>zi_up = us, zi_focus = f, zi_down = ds\<rparr>) =
     rev us @ (case f of None \<Rightarrow> [] | Some x \<Rightarrow> [x]) @ ds"
proof (induction us rule: rev_induct)
  case Nil
  have down: "map snd (zl_iter_collect \<lparr>zi_up = [], zi_focus = None, zi_down = ds\<rparr>) = ds" for ds
    by (induction ds) (simp_all add: zl_iter_collect.simps[of "\<lparr>zi_up = [], zi_focus = _, zi_down = _\<rparr>"]
        zl_iter_next_def)
  then show ?case
    by (cases f) (simp_all add: zl_iter_collect.simps[of "\<lparr>zi_up = [], zi_focus = Some _, zi_down = _\<rparr>"]
        zl_iter_next_def)
next
  case (snoc u us)
  then show ?case
    by (simp add: zl_iter_collect.simps[of "\<lparr>zi_up = _ @ _, zi_focus = _, zi_down = _\<rparr>"]
        zl_iter_next_def)
qed

lemma flatten_eq [zl_simps]: "flatten z = zl_list z"
  by (simp add: flatten_def zl_iter_def zl_into_iter_def zl_iter_collect_eq zl_list_def)

lemma unravel_eq [zl_simps]: "mset (unravel z) = mset (zl_list z)"
  by (simp add: unravel_def zl_list_def)

lemma zl_index_eq: "zl_index z i = nth_opt (zl_list z) i"
  by (auto simp: zl_index_def zl_list_def nth_opt_def nth_append rev_nth Let_def nth_Cons'
      intro!: arg_cong[where f = "(!) (z_down z)"])

lemma zl_head_last: "zl_head z = hd (zl_list z)" "zl_last z = last (zl_list z)"
  by (cases "z_up z" rule: rev_cases; simp add: zl_head_def zl_list_def)
     (cases "z_down z" rule: rev_cases; simp add: zl_last_def zl_list_def)

lemma zl_contains_eq: "zl_contains t z \<longleftrightarrow> t \<in> set (zl_list z)"
  by (auto simp: zl_contains_def zl_list_def)

subsection \<open>Moving the focus\<close>

lemma mod_Suc_cases: "i < n \<Longrightarrow> (i + 1) mod n = (if i + 1 = n then 0 else i + 1)" for i n :: nat
  by auto

lemma focus_down_list [zl_simps]: "zl_list (focus_down z) = zl_list z"
  by (cases "z_down z"; cases "z_up z" rule: rev_cases)
     (auto simp: zl_abs focus_down_def swap_focus_def rev_down_def zl_reverse_def pop_back_def)

lemma focus_down_pos [zl_simps]: "zl_pos (focus_down z) = (zl_pos z + 1) mod zl_len z"
  by (cases "z_down z"; cases "z_up z" rule: rev_cases)
     (auto simp: zl_abs focus_down_def swap_focus_def rev_down_def zl_reverse_def zl_len_def pop_back_def)

lemma focus_up_list [zl_simps]: "zl_list (focus_up z) = zl_list z"
  by (cases "z_up z"; cases "z_down z" rule: rev_cases)
     (auto simp: zl_abs focus_up_def swap_focus_def rev_up_def zl_reverse_def pop_back_def)

lemma focus_up_pos [zl_simps]: "zl_pos (focus_up z) = (zl_pos z + zl_len z - 1) mod zl_len z"
  by (cases "z_up z"; cases "z_down z" rule: rev_cases)
     (auto simp: zl_abs focus_up_def swap_focus_def rev_up_def zl_reverse_def zl_len_def pop_back_def
        mod_if)

lemma focus_len [zl_simps]: "zl_len (focus_down z) = zl_len z" "zl_len (focus_up z) = zl_len z"
  by (simp_all add: zl_len_eq zl_simps)

lemma focus_head_eq [zl_simps]: "zl_list (focus_head z) = zl_list z" "zl_pos (focus_head z) = 0"
  by (cases "z_up z" rule: rev_cases; simp add: zl_abs focus_head_def)+

lemma focus_tail_eq [zl_simps]:
  "zl_list (focus_tail z) = zl_list z" "zl_pos (focus_tail z) = zl_len z - 1"
  by (cases "z_down z" rule: rev_cases; simp add: zl_abs focus_tail_def zl_len_def)+

end
