(* ===== verification/ZipListProperties.thy ===== *)
theory ZipListProperties
  imports ZipList
begin

subsection \<open>A ring with a focus\<close>

text \<open>
  What the editor needs of the focus: a sequence that moving does not change, and a position
  in it that a step moves forwards or backwards around the end.
\<close>

locale focus_ring =
  fixes items :: "'z \<Rightarrow> 'a list"
    and pos :: "'z \<Rightarrow> nat"
    and fwd :: "'z \<Rightarrow> 'z"
    and bwd :: "'z \<Rightarrow> 'z"
  assumes pos_less: "pos z < length (items z)"
    and fwd_items: "items (fwd z) = items z"
    and bwd_items: "items (bwd z) = items z"
    and fwd_pos: "pos (fwd z) = (pos z + 1) mod length (items z)"
    and bwd_pos: "pos (bwd z) = (pos z + length (items z) - 1) mod length (items z)"
    and ext: "items z = items w \<Longrightarrow> pos z = pos w \<Longrightarrow> z = w"
begin

lemma fwd_bwd: "fwd (bwd z) = z"
proof (rule ext)
  have "0 < length (items z)" using pos_less[of z] by linarith
  then show "pos (fwd (bwd z)) = pos z"
    using pos_less[of z] by (simp add: fwd_pos bwd_items bwd_pos mod_Suc_eq)
qed (simp add: fwd_items bwd_items)

lemma bwd_fwd: "bwd (fwd z) = z"
proof (rule ext)
  have len: "0 < length (items z)" using pos_less[of z] by linarith
  show "pos (bwd (fwd z)) = pos z"
  proof (cases "pos z + 1 = length (items z)")
    case True
    then show ?thesis using len by (simp add: fwd_items bwd_pos fwd_pos)
  next
    case False
    then have "pos z + 1 < length (items z)" using pos_less[of z] by linarith
    then show ?thesis by (simp add: fwd_items bwd_pos fwd_pos)
  qed
qed (simp add: fwd_items bwd_items)

lemma funpow_fwd:
  "items ((fwd ^^ n) z) = items z"
  "pos ((fwd ^^ n) z) = (pos z + n) mod length (items z)"
proof (induction n)
  case 0
  case 1
  show ?case by simp
next
  case 0
  case 2
  show ?case using pos_less[of z] by simp
next
  case (Suc n)
  case 1
  show ?case using Suc by (simp add: fwd_items)
next
  case (Suc n)
  case 2
  show ?case using Suc by (simp add: fwd_pos mod_Suc_eq)
qed

lemma full_turn: "(fwd ^^ length (items z)) z = z"
  by (rule ext) (use pos_less[of z] in \<open>simp_all add: funpow_fwd\<close>)

lemma turn_reaches: "i < length (items z) \<Longrightarrow> \<exists>n < length (items z). pos ((fwd ^^ n) z) = i"
proof -
  assume i: "i < length (items z)"
  let ?l = "length (items z)"
  let ?n = "(i + ?l - pos z) mod ?l"
  have "(pos z + ?n) mod ?l = (pos z + (i + ?l - pos z)) mod ?l" by (simp add: mod_add_right_eq)
  also have "pos z + (i + ?l - pos z) = i + ?l" using pos_less[of z] by simp
  finally have "(pos z + ?n) mod ?l = i" using i by simp
  moreover have "?n < ?l" by (rule mod_less_divisor) (use i in linarith)
  ultimately show ?thesis by (auto simp: funpow_fwd)
qed

end

interpretation zl: focus_ring zl_list zl_pos focus_down focus_up
  by unfold_locales (auto simp: zl_pos_less zl_simps zl_len_eq intro: zl_eqI)

subsection \<open>Searching by focus\<close>

lemma focus_loop_eq:
  "focus_loop f n z =
     (if \<exists>i<n. f (z_focus ((focus_down ^^ i) z))
      then (True, (focus_down ^^ (LEAST i. f (z_focus ((focus_down ^^ i) z)))) z)
      else (False, (focus_down ^^ n) z))"
proof (induction n arbitrary: z)
  case (Suc n)
  let ?P = "\<lambda>z i. f (z_focus ((focus_down ^^ i) z))"
  show ?case
  proof (cases "f (z_focus z)")
    case True
    then have "(LEAST i. ?P z i) = 0" by (intro Least_eq_0) simp
    then show ?thesis using True by (auto intro!: exI[of _ 0])
  next
    case False
    have shift: "?P (focus_down z) i = ?P z (Suc i)" for i by (simp add: funpow_swap1)
    have ex: "(\<exists>i<Suc n. ?P z i) \<longleftrightarrow> (\<exists>i<n. ?P (focus_down z) i)"
      using False unfolding shift by (metis Suc_less_eq gr0_conv_Suc less_Suc_eq_0_disj funpow_0)
    have least: "(LEAST i. ?P z i) = Suc (LEAST i. ?P (focus_down z) i)"
      if some: "\<exists>i<n. ?P (focus_down z) i"
    proof -
      obtain i where "?P z (Suc i)" using some unfolding shift by blast
      then show ?thesis unfolding shift by (rule Least_Suc) (use False in simp)
    qed
    show ?thesis
    proof (cases "\<exists>i<n. ?P (focus_down z) i")
      case True
      then show ?thesis
        using Suc.IH[of "focus_down z"] False ex least[OF True]
        by (simp add: funpow_Suc_right del: funpow.simps)
    next
      case none: False
      have "\<not> (\<exists>i<Suc n. ?P z i)" unfolding ex by (rule none)
      then have "focus_loop f (Suc n) z = (False, (focus_down ^^ n) (focus_down z))"
        using Suc.IH[of "focus_down z"] False none by simp
      then show ?thesis
        using \<open>\<not> (\<exists>i<Suc n. ?P z i)\<close> by (simp only: if_False funpow_Suc_right o_apply)
    qed
  qed
qed simp

lemma focus_element_by_eq:
  assumes "focus_element_by f z = (found, z')"
  shows "zl_list z' = zl_list z" "found \<longleftrightarrow> (\<exists>x \<in> set (zl_list z). f x)"
    "found \<Longrightarrow> f (z_focus z')" "\<not> found \<Longrightarrow> z' = z"
    "\<exists>n \<le> zl_len z. z' = (focus_down ^^ n) z \<and> (\<forall>i < n. \<not> f (z_focus ((focus_down ^^ i) z)))"
proof -
  let ?P = "\<lambda>i. f (z_focus ((focus_down ^^ i) z))"
  have foc: "z_focus ((focus_down ^^ i) z) = zl_list z ! ((zl_pos z + i) mod zl_len z)" for i
    by (simp add: zl_focus_nth zl.funpow_fwd zl_len_eq)
  have eq: "(found, z') = (if \<exists>i<zl_len z. ?P i then (True, (focus_down ^^ (LEAST i. ?P i)) z)
      else (False, (focus_down ^^ zl_len z) z))"
    using assms unfolding focus_element_by_def focus_loop_eq by simp
  have ex: "(\<exists>i<zl_len z. ?P i) \<longleftrightarrow> (\<exists>x \<in> set (zl_list z). f x)"
  proof
    assume "\<exists>i<zl_len z. ?P i"
    moreover have "(zl_pos z + i) mod zl_len z < length (zl_list z)" for i
      unfolding zl_len_eq by (rule mod_less_divisor) (use zl_pos_less[of z] in linarith)
    ultimately show "\<exists>x \<in> set (zl_list z). f x" unfolding foc by (meson nth_mem)
  next
    assume "\<exists>x \<in> set (zl_list z). f x"
    then obtain j where j: "j < length (zl_list z)" "f (zl_list z ! j)" by (metis in_set_conv_nth)
    obtain n where "n < length (zl_list z)" "zl_pos ((focus_down ^^ n) z) = j"
      using zl.turn_reaches[OF j(1)] by blast
    then show "\<exists>i<zl_len z. ?P i"
      using j(2) by (auto simp: zl_focus_nth zl.funpow_fwd zl_len_eq)
  qed
  show "zl_list z' = zl_list z" using eq by (auto simp: zl.funpow_fwd split: if_splits)
  show "found \<longleftrightarrow> (\<exists>x \<in> set (zl_list z). f x)" using eq ex by (auto split: if_splits)
  show "\<not> found \<Longrightarrow> z' = z" using eq zl.full_turn[of z] by (auto simp: zl_len_eq split: if_splits)
  show "found \<Longrightarrow> f (z_focus z')" using eq by (auto split: if_splits intro: LeastI)
  show "\<exists>n \<le> zl_len z. z' = (focus_down ^^ n) z \<and> (\<forall>i < n. \<not> ?P i)"
  proof (cases "\<exists>i<zl_len z. ?P i")
    case True
    then have "(LEAST i. ?P i) \<le> zl_len z"
      using Least_le[of ?P] by (meson le_trans less_imp_le)
    then show ?thesis
      using True eq not_less_Least[of _ ?P] by (auto intro!: exI[of _ "LEAST i. ?P i"])
  next
    case False
    then have "z' = (focus_down ^^ zl_len z) z"
      using eq unfolding if_not_P[OF False] by simp
    then show ?thesis using False by blast
  qed
qed

subsection \<open>Rotation and removal\<close>

lemma rotate_up_list: "zl_list (rotate_up z) = rotate1 (zl_list z)" "z_focus (rotate_up z) = z_focus z"
  by (cases "z_up z" rule: rev_cases;
      simp add: zl_list_def rotate_up_def rev_up_def zl_reverse_def)+

lemma rotate_inverse: "rotate_down (rotate_up z) = z" "rotate_up (rotate_down z) = z"
proof -
  obtain u f d where z: "z = \<lparr>z_up = u, z_focus = f, z_down = d\<rparr>" by (cases z)
  show "rotate_down (rotate_up z) = z"
    by (cases u rule: rev_cases; cases d rule: rev_cases)
       (simp_all add: z rotate_up_def rotate_down_def rev_up_def rev_down_def zl_reverse_def
          pop_back_def butlast_append)
  show "rotate_up (rotate_down z) = z"
    by (cases u rule: rev_cases; cases d rule: rev_cases)
       (simp_all add: z rotate_up_def rotate_down_def rev_up_def rev_down_def zl_reverse_def
          pop_back_def butlast_append)
qed

text \<open>A swap moves the focused element; the others keep their order.\<close>

definition zl_others :: "'a ziplist \<Rightarrow> 'a list" where
  "zl_others z = rev (z_up z) @ z_down z"

lemma swap_others:
  "zl_others (swap_up z) = zl_others z" "z_focus (swap_up z) = z_focus z"
  "zl_others (swap_down z) = zl_others z" "z_focus (swap_down z) = z_focus z"
  by (cases "z_up z"; cases "z_down z";
      simp add: zl_others_def swap_up_def swap_down_def rev_up_def rev_down_def zl_reverse_def)+

lemma swap_inverse: "swap_down (swap_up z) = z" "swap_up (swap_down z) = z"
proof -
  obtain u f d where z: "z = \<lparr>z_up = u, z_focus = f, z_down = d\<rparr>" by (cases z)
  show "swap_down (swap_up z) = z"
    by (cases u; cases d)
       (simp_all add: z swap_up_def swap_down_def rev_up_def rev_down_def zl_reverse_def)
  show "swap_up (swap_down z) = z"
    by (cases u; cases d)
       (simp_all add: z swap_up_def swap_down_def rev_up_def rev_down_def zl_reverse_def)
qed

lemma swap_focus_and_head_list:
  "zl_list z = h # xs @ z_focus z # ys \<Longrightarrow> length xs + 1 = zl_pos z \<Longrightarrow>
   zl_list (swap_focus_and_head z) = z_focus z # xs @ h # ys"
  by (cases "z_up z" rule: rev_cases) (auto simp: zl_abs swap_focus_and_head_def)

lemma fold_pop_where:
  "fold (\<lambda>item (popped, remaining).
      if P item then (Some item, remaining) else (popped, remaining @ [item])) xs (p, r) =
   (if filter P xs = [] then p else Some (last (filter P xs)), r @ filter (\<lambda>x. \<not> P x) xs)"
  by (induction xs arbitrary: p r) auto

lemma pop_where_eq:
  "pop_where P xs =
     (if filter P xs = [] then None else Some (last (filter P xs)), filter (\<lambda>x. \<not> P x) xs)"
  unfolding pop_where_def fold_pop_where by simp

lemma pop_next_None: "pop_next z = (None, z') \<longleftrightarrow> z_up z = [] \<and> z_down z = [] \<and> z' = z"
  by (auto simp: pop_next_def pop_front_def split: list.splits)

lemma remove_focused_list:
  "(case snd (remove_focused z) of
      None \<Rightarrow> zl_others z = []
    | Some z' \<Rightarrow> zl_list z' = zl_others z \<and>
        z_focus z' = (if z_down z = [] then hd (z_up z) else hd (z_down z)))"
  by (cases "z_down z"; cases "z_up z")
     (auto simp: remove_focused_def pop_next_def zl_others_def zl_list_def)

lemma zl_filter_eq:
  "(case zl_filter f z of
      None \<Rightarrow> filter f (zl_list z) = []
    | Some z' \<Rightarrow> zl_list z' = filter f (zl_list z) \<and>
        (if f (z_focus z) then z_focus z' = z_focus z
         else if filter f (z_down z) \<noteq> [] then z_focus z' = hd (filter f (z_down z))
         else z_focus z' = hd (filter f (z_up z))))"
proof (cases "f (z_focus z)")
  case True
  then show ?thesis by (simp add: zl_filter_def zl_list_def Let_def rev_filter)
next
  case False
  let ?w = "z\<lparr>z_up := filter f (z_up z), z_down := filter f (z_down z)\<rparr>"
  have "zl_others ?w = filter f (zl_list z)"
    using False by (simp add: zl_others_def zl_list_def rev_filter)
  then show ?thesis
    using False remove_focused_list[of ?w] by (auto simp: zl_filter_def split: option.splits)
qed

lemma fold_extract_up:
  "fold (\<lambda>t (up, ex). if f t then (t # up, ex) else (up, ex @ [t])) xs (us, es) =
     (rev (filter f xs) @ us, es @ filter (\<lambda>x. \<not> f x) xs)"
  by (induction xs arbitrary: us es) auto

lemma fold_extract_down:
  "fold (\<lambda>t (down, ex). if f t then (down @ [t], ex) else (down, ex @ [t])) xs (ds, es) =
     (ds @ filter f xs, es @ filter (\<lambda>x. \<not> f x) xs)"
  by (induction xs arbitrary: ds es) auto

lemma zl_extract_eq:
  "zl_extract f z = (zl_filter f z, filter (\<lambda>x. \<not> f x) (zl_list z))"
proof -
  let ?w = "\<lparr>z_up = filter f (z_up z), z_focus = z_focus z, z_down = filter f (z_down z)\<rparr>"
  have w: "?w = z\<lparr>z_up := filter f (z_up z), z_down := filter f (z_down z)\<rparr>" by simp
  have fst: "fst (remove_focused ?w) = z_focus z"
    by (auto simp: remove_focused_def split: prod.splits option.splits)
  show ?thesis
    unfolding zl_extract_def fold_extract_up fold_extract_down Let_def prod.case
    using fst by (cases "f (z_focus z)")
      (auto simp: zl_filter_def zl_list_def rev_filter simp flip: w split: prod.splits)
qed

subsection \<open>Properties\<close>

text \<open>
  C11: moving the focus keeps the sequence; down and up are inverse to each other and go
  around the ends; a full turn is the identity.
\<close>

theorem ziplist_focus_moves:
  "flatten (focus_down z) = flatten z \<and> flatten (focus_up z) = flatten z \<and>
   focus_up (focus_down z) = z \<and> focus_down (focus_up z) = z \<and>
   zl_pos (focus_down z) = (zl_pos z + 1) mod zl_len z \<and>
   (focus_down ^^ zl_len z) z = z \<and>
   flatten (focus_head z) = flatten z \<and> zl_pos (focus_head z) = 0 \<and>
   flatten (focus_tail z) = flatten z \<and> zl_pos (focus_tail z) = zl_len z - 1"
  using zl.full_turn[of z] zl.fwd_bwd[of z] zl.bwd_fwd[of z] by (simp add: zl_simps zl_len_eq)

text \<open>
  Searching by focus: \<open>focus_element_by\<close> reports whether any element satisfies the
  predicate, stops at the first one that does counting downwards from the focus, and leaves
  the zip list as it was when there is none.
\<close>

theorem ziplist_focus_element_by:
  assumes "focus_element_by f z = (found, z')"
  shows "flatten z' = flatten z \<and> (found \<longleftrightarrow> (\<exists>x \<in> set (flatten z). f x)) \<and>
    (found \<longrightarrow> f (zl_focused z')) \<and> (\<not> found \<longrightarrow> z' = z) \<and>
    (\<exists>n \<le> zl_len z. z' = (focus_down ^^ n) z \<and>
       (\<forall>i < n. \<not> f (zl_focused ((focus_down ^^ i) z))))"
  using focus_element_by_eq[OF assms] by (simp add: flatten_eq zl_focused_def)

lemma ziplist_focus_element_by_witness:
  "focus_element_by (\<lambda>x. x = 1) (zl_new [1, 2] 3 [4 :: nat]) = (True, zl_new [] 1 [2, 3, 4]) \<and>
   flatten (zl_new [] 1 [2, 3, 4 :: nat]) = flatten (zl_new [1, 2] 3 [4])"
proof -
  have "focus_element_by (\<lambda>x. x = 1) (zl_new [1, 2] 3 [4 :: nat]) = (True, zl_new [] 1 [2, 3, 4])"
    by code_simp
  then show ?thesis using ziplist_focus_element_by by blast
qed

text \<open>
  Rotations and swaps: rotating turns the sequence by one and keeps the focused
  element, swapping moves the focused element past the others and keeps their order, and
  each is undone by its opposite.
\<close>

theorem ziplist_rotate_swap:
  "flatten (rotate_up z) = rotate1 (flatten z) \<and> zl_focused (rotate_up z) = zl_focused z \<and>
   rotate_down (rotate_up z) = z \<and> rotate_up (rotate_down z) = z \<and>
   zl_others (swap_up z) = zl_others z \<and> zl_focused (swap_up z) = zl_focused z \<and>
   swap_down (swap_up z) = z \<and> swap_up (swap_down z) = z"
  using rotate_up_list[of z] rotate_inverse[of z] swap_others[of z] swap_inverse[of z]
  by (simp add: flatten_eq zl_focused_def)

text \<open>
  Filtering keeps exactly the elements that satisfy the predicate, in order, and is
  \<^const>\<open>None\<close> when there are none; the focus stays or moves to the next element behind it,
  else to the nearest in front of it. \<open>extract\<close> gives the same zip list and the rest.
\<close>

theorem ziplist_filter_extract:
  "(case zl_filter f z of
      None \<Rightarrow> filter f (flatten z) = []
    | Some z' \<Rightarrow> flatten z' = filter f (flatten z) \<and>
        zl_focused z' = (if f (zl_focused z) then zl_focused z
                         else if filter f (z_down z) \<noteq> [] then hd (filter f (z_down z))
                         else hd (filter f (z_up z)))) \<and>
   zl_extract f z = (zl_filter f z, filter (\<lambda>x. \<not> f x) (flatten z))"
  using zl_filter_eq[of f z] zl_extract_eq[of f z]
  by (auto simp: flatten_eq zl_focused_def split: option.splits)

subsection \<open>Removal by predicate\<close>

text \<open>
  \<open>remove\<close> and \<open>remove_where_with_default\<close> drop every match on the side where they find
  one, and return the last of them, not the first.
\<close>

lemma remove_where_drops_all:
  "remove_where_with_default (\<lambda>x. x < 10) (\<lambda>_. 0) (zl_new [] 20 [1, 2, 30 :: nat]) =
     (Some 2, zl_new [] 20 [30])"
  by code_simp

end
