(* ===== verification/BTree.thy ===== *)
theory BTree
  imports Prelude
begin

text \<open>
  The standard library's \<open>BTreeMap\<close> as the list of its entries in the order of their keys,
  with the operations the code calls; lookup is \<^const>\<open>map_of\<close>.
\<close>

type_synonym ('k, 'v) btree = "('k \<times> 'v) list"

text \<open>Inserting a key again replaces its value.\<close>

fun btree_insert :: "'k :: linorder \<Rightarrow> 'v \<Rightarrow> ('k \<times> 'v) list \<Rightarrow> ('k \<times> 'v) list" where
  "btree_insert k v [] = [(k, v)]"
| "btree_insert k v ((k', v') # m) =
     (if k < k' then (k, v) # (k', v') # m
      else if k = k' then (k, v) # m
      else (k', v') # btree_insert k v m)"

definition btree_extend :: "('k :: linorder \<times> 'v) list \<Rightarrow> ('k \<times> 'v) list \<Rightarrow> ('k \<times> 'v) list" where
  "btree_extend m pairs = fold (\<lambda>(k, v). btree_insert k v) pairs m"

definition btree_remove :: "'k \<Rightarrow> ('k, 'v) btree \<Rightarrow> ('k, 'v) btree" where
  "btree_remove k m = filter (\<lambda>(k', _). k' \<noteq> k) m"

text \<open>\<open>m.entry(k).or_insert(v)\<close>\<close>

definition btree_or_insert :: "'k :: linorder \<Rightarrow> 'v \<Rightarrow> ('k, 'v) btree \<Rightarrow> ('k, 'v) btree" where
  "btree_or_insert k v m = (if map_of m k = None then btree_insert k v m else m)"

definition btree_ok :: "('k :: linorder, 'v) btree \<Rightarrow> bool" where
  "btree_ok m \<longleftrightarrow> sorted_wrt (<) (map fst m)"

lemma btree_insert_keys: "fst ` set (btree_insert k v m) = insert k (fst ` set m)"
  by (induction k v m rule: btree_insert.induct) auto

lemma btree_insert_sorted:
  "sorted_wrt (<) (map fst m) \<Longrightarrow> sorted_wrt (<) (map fst (btree_insert k v m))"
proof (induction k v m rule: btree_insert.induct)
  case (2 k v k' v' m)
  have "\<forall>q \<in> fst ` set m. k' < q" using 2(2) by simp
  then have "\<forall>q \<in> fst ` set (btree_insert k v m). k' < q" if "k' < k"
    using that by (simp add: btree_insert_keys)
  then show ?case using 2 by (cases k k' rule: linorder_cases) (auto intro: less_trans)
qed simp

lemma btree_insert_map_of:
  "sorted_wrt (<) (map fst m) \<Longrightarrow> map_of (btree_insert k v m) = (map_of m)(k \<mapsto> v)"
  by (induction k v m rule: btree_insert.induct) (auto simp: fun_eq_iff)

lemma btree_extend:
  "sorted_wrt (<) (map fst m) \<Longrightarrow>
   sorted_wrt (<) (map fst (btree_extend m ps)) \<and>
   map_of (btree_extend m ps) = map_of m ++ map_of (rev ps)"
  unfolding btree_extend_def
proof (induction ps arbitrary: m)
  case (Cons p ps)
  obtain k v where "p = (k, v)" by (cases p)
  then show ?case
    using Cons.IH[of "btree_insert k v m"] btree_insert_sorted[OF Cons.prems, of k v]
      btree_insert_map_of[OF Cons.prems, of k v]
    by (simp add: fun_upd_def map_add_def fun_eq_iff split: option.splits)
qed simp

lemma map_of_rev: "distinct (map fst ps) \<Longrightarrow> map_of (rev ps) = map_of ps"
  by (metis distinct_rev map_of_inject_set rev_map set_rev)

lemma strict_sorted_distinct: "sorted_wrt (<) (xs :: 'a :: linorder list) \<Longrightarrow> distinct xs"
  by (induction xs) auto

lemma btree_ok_simps [simp]:
  "btree_ok []" "btree_ok m \<Longrightarrow> btree_ok (btree_insert k v m)"
  "btree_ok m \<Longrightarrow> btree_ok (btree_or_insert k v m)"
  by (simp_all add: btree_ok_def btree_insert_sorted btree_or_insert_def)

lemma btree_ok_remove [simp]: "btree_ok m \<Longrightarrow> btree_ok (btree_remove k m)"
  by (induction m) (auto simp: btree_ok_def btree_remove_def)

lemma map_of_btree_insert [simp]:
  "btree_ok m \<Longrightarrow> map_of (btree_insert k v m) = (map_of m)(k \<mapsto> v)"
  by (simp add: btree_ok_def btree_insert_map_of)

lemma map_of_btree_remove [simp]: "map_of (btree_remove k m) = (map_of m)(k := None)"
  by (induction m) (auto simp: btree_remove_def fun_eq_iff)

lemma map_of_btree_or_insert:
  "btree_ok m \<Longrightarrow>
   map_of (btree_or_insert k v m) = (if map_of m k = None then (map_of m)(k \<mapsto> v) else map_of m)"
  by (simp add: btree_or_insert_def)

lemma btree_dom: "btree_ok m \<Longrightarrow> fst ` set m = dom (map_of m)"
  by (simp add: dom_map_of_conv_image_fst)

end
