(* ===== verification/Trie.thy ===== *)
theory Trie
  imports BTree "HOL-Library.Multiset" "HOL-Library.Sublist" "HOL-Library.List_Lexorder"
begin

text \<open>
  The trie of src/trie.rs, which holds key bindings and completions. It is built as a tree
  of nodes, one list of children per level, and then flattened into one array of nodes in
  which the children of a node are a contiguous, sorted range, and one array of values.
  \<open>Ok\<close> and \<open>Err\<close> are \<^const>\<open>Inr\<close> and \<^const>\<open>Inl\<close>; a panic is \<^const>\<open>None\<close>.
\<close>

subsection \<open>Nodes\<close>

datatype trie_data = Internal nat nat | Leaf nat

record 'k trie_node =
  n_key :: 'k
  n_data :: trie_data

definition is_leaf :: "'k trie_node \<Rightarrow> bool" where
  "is_leaf n = (case n_data n of Leaf _ \<Rightarrow> True | Internal _ _ \<Rightarrow> False)"

record ('k, 'v) trie =
  t_nodes :: "'k trie_node list"
  t_values :: "'v list"
  t_n_roots :: nat

definition trie_default :: "('k, 'v) trie" where
  "trie_default = \<lparr>t_nodes = [], t_values = [], t_n_roots = 0\<rparr>"

text \<open>\<open>BuildNode\<close> with its \<open>BuildNodeData\<close>.\<close>

datatype ('k, 'v) build_node =
    BInternal (b_key: 'k) "('k, 'v) build_node list"
  | BLeaf (b_key: 'k) 'v

datatype 'v query_result = Val 'v | Partial | Missing

fun query_to_option :: "'v query_result \<Rightarrow> 'v option" where
  "query_to_option (Val v) = Some v"
| "query_to_option Partial = None"
| "query_to_option Missing = None"

subsection \<open>Building\<close>

abbreviation (input) err_duplicate :: string where
  "err_duplicate \<equiv> ''duplicate entry for key''"

abbreviation (input) err_value_node :: string where
  "err_value_node \<equiv> ''attempt to insert into value node''"

text \<open>
  \<open>insert\<close>: the scan of the level for the first element of the key, with the node pushed at
  the end of the level when there is none. Indexing an empty key panics.
\<close>

fun trie_insert ::
  "'k list \<Rightarrow> 'v \<Rightarrow> ('k, 'v) build_node list \<Rightarrow> (string + ('k, 'v) build_node list) option" where
  "trie_insert key v [] =
     (case key of
        [] \<Rightarrow> None
      | k # key \<Rightarrow>
          if key = [] then Some (Inr [BLeaf k v])
          else do {
            r \<leftarrow> trie_insert key v [];
            Some (case r of Inl e \<Rightarrow> Inl e | Inr children \<Rightarrow> Inr [BInternal k children])
          })"
| "trie_insert key v (n # ns) =
     (case key of
        [] \<Rightarrow> None
      | k # key' \<Rightarrow>
          if k = b_key n then
            (if key' = [] then Some (Inl err_duplicate)
             else case n of
               BInternal k nodes \<Rightarrow> do {
                 r \<leftarrow> trie_insert key' v nodes;
                 Some (case r of Inl e \<Rightarrow> Inl e | Inr nodes \<Rightarrow> Inr (BInternal k nodes # ns))
               }
             | BLeaf _ _ \<Rightarrow> Some (Inl err_value_node))
          else do {
            r \<leftarrow> trie_insert key v ns;
            Some (case r of Inl e \<Rightarrow> Inl e | Inr ns \<Rightarrow> Inr (n # ns))
          })"

subsection \<open>Flattening\<close>

text \<open>The first loop of \<open>flatten\<close>: one node per root, internal ones with a start of 0 for now.\<close>

fun push_roots ::
  "('k, 'v) build_node list \<Rightarrow> 'k trie_node list \<Rightarrow> 'v list \<Rightarrow>
   'k trie_node list \<times> 'v list \<times> (nat \<times> ('k, 'v) build_node list) list" where
  "push_roots [] nodes values = (nodes, values, [])"
| "push_roots (BInternal k children # roots) nodes values =
     (let i = length nodes;
          (nodes, values, child_stack) =
            push_roots roots (nodes @ [\<lparr>n_key = k, n_data = Internal 0 (length children)\<rparr>]) values
      in (nodes, values, (i, children) # child_stack))"
| "push_roots (BLeaf k v # roots) nodes values =
     push_roots roots (nodes @ [\<lparr>n_key = k, n_data = Leaf (length values)\<rparr>]) (values @ [v])"

definition set_child_start :: "nat \<Rightarrow> nat \<Rightarrow> 'k trie_node list \<Rightarrow> 'k trie_node list" where
  "set_child_start i start nodes =
     (case n_data (nodes ! i) of
        Internal _ n_children \<Rightarrow> nodes[i := (nodes ! i)\<lparr>n_data := Internal start n_children\<rparr>]
      | Leaf _ \<Rightarrow> nodes)"

fun node_size :: "('k, 'v) build_node \<Rightarrow> nat" where
  "node_size (BInternal k ns) = Suc (sum_list (map node_size ns))"
| "node_size (BLeaf k v) = 1"

lemma push_roots_stack:
  "sum_list (map (\<lambda>(i, ch). Suc (sum_list (map node_size ch))) (snd (snd (push_roots roots nodes vs))))
     \<le> sum_list (map node_size roots)"
  by (induction roots nodes vs rule: push_roots.induct) (auto split: prod.splits)

lemma node_size_sort: "sum_list (map node_size (sort_key f ns)) = sum_list (map node_size ns)"
  by (metis mset_map mset_sort sum_mset_sum_list)

lemma flatten_stack_less:
  "(a, y) = push_roots (sort_key f roots) nodes vs \<Longrightarrow> (b, stack) = y \<Longrightarrow>
   2 * (\<Sum>(i, ch)\<leftarrow>stack. Suc (sum_list (map node_size ch))) < Suc (2 * sum_list (map node_size roots))"
  using push_roots_stack[of "sort_key f roots" nodes vs]
  by (cases "push_roots (sort_key f roots) nodes vs") (auto simp: node_size_sort)

function trie_flatten ::
    "('k :: linorder, 'v) build_node list \<Rightarrow> 'k trie_node list \<Rightarrow> 'v list \<Rightarrow>
     (nat \<times> nat) \<times> 'k trie_node list \<times> 'v list"
  and flatten_children ::
    "(nat \<times> ('k, 'v) build_node list) list \<Rightarrow> 'k trie_node list \<Rightarrow> 'v list \<Rightarrow>
     'k trie_node list \<times> 'v list" where
  "trie_flatten roots nodes values =
     (let roots = sort_key b_key roots;
          child_start = length nodes;
          n_children = length roots
      in case push_roots roots nodes values of (nodes, values, child_stack) \<Rightarrow>
           ((child_start, n_children), flatten_children child_stack nodes values))"
| "flatten_children [] nodes values = (nodes, values)"
| "flatten_children ((i, children) # stack) nodes values =
     (case trie_flatten children nodes values of ((start, _), nodes, values) \<Rightarrow>
        flatten_children stack (set_child_start i start nodes) values)"
  by pat_completeness auto
termination
  by (relation "measure (\<lambda>x. case x of
    Inl (roots, _) \<Rightarrow> 2 * sum_list (map node_size roots) + 1
  | Inr (stack, _) \<Rightarrow> 2 * sum_list (map (\<lambda>(i, ch). Suc (sum_list (map node_size ch))) stack))")
     (simp_all add: flatten_stack_less)

declare trie_flatten.simps [simp del]

definition insert_pairs ::
  "('k list \<times> 'v) list \<Rightarrow> (string + ('k, 'v) build_node list) option" where
  "insert_pairs it =
     fold (\<lambda>(key, value) acc. do {
             r \<leftarrow> acc;
             case r of Inl e \<Rightarrow> Some (Inl e) | Inr roots \<Rightarrow> trie_insert key value roots
           }) it (Some (Inr []))"

definition trie_from_iter ::
  "('k :: linorder list \<times> 'v) list \<Rightarrow> (string + ('k, 'v) trie) option" where
  "trie_from_iter it = do {
     r \<leftarrow> insert_pairs it;
     Some (case r of
       Inl e \<Rightarrow> Inl e
     | Inr roots \<Rightarrow>
         if roots = [] then Inr trie_default
         else case trie_flatten roots [] [] of
           ((_, n_roots), nodes, values) \<Rightarrow>
             Inr \<lparr>t_nodes = nodes, t_values = values, t_n_roots = n_roots\<rparr>)
   }"

subsection \<open>Queries\<close>

text \<open>
  The inner loop of \<open>get\<close> over \<open>n\<close> nodes from \<open>i\<close>: the node with the target key, or
  nothing when the range ends or the keys have gone past the target.
\<close>

fun scan_level :: "('k :: linorder) trie_node list \<Rightarrow> 'k \<Rightarrow> nat \<Rightarrow> nat \<Rightarrow> 'k trie_node option option" where
  "scan_level nodes target i 0 = Some None"
| "scan_level nodes target i (Suc n) = do {
     node \<leftarrow> nth_opt nodes i;
     if n_key node = target then Some (Some node)
     else if target < n_key node then Some None
     else scan_level nodes target (i + 1) n
   }"

fun get_from :: "('k :: linorder, 'v) trie \<Rightarrow> nat \<Rightarrow> nat \<Rightarrow> 'k list \<Rightarrow> 'v query_result option" where
  "get_from t i n [] = Some Partial"
| "get_from t i n (target # key) = do {
     found \<leftarrow> scan_level (t_nodes t) target i n;
     case found of
       None \<Rightarrow> Some Missing
     | Some node \<Rightarrow>
         (case n_data node of
            Leaf j \<Rightarrow>
              if key = [] then do { v \<leftarrow> nth_opt (t_values t) j; Some (Val v) }
              else Some Missing
          | Internal child_start n_children \<Rightarrow> get_from t child_start n_children key)
   }"

definition trie_get :: "('k :: linorder, 'v) trie \<Rightarrow> 'k list \<Rightarrow> 'v query_result option" where
  "trie_get t key = (if key = [] then Some Missing else get_from t 0 (t_n_roots t) key)"

definition trie_get_exact :: "('k :: linorder, 'v) trie \<Rightarrow> 'k list \<Rightarrow> 'v option option" where
  "trie_get_exact t key = map_option query_to_option (trie_get t key)"

definition trie_len :: "('k, 'v) trie \<Rightarrow> nat" where
  "trie_len t = length (filter is_leaf (t_nodes t))"

definition trie_is_empty :: "('k, 'v) trie \<Rightarrow> bool" where
  "trie_is_empty t \<longleftrightarrow> t_nodes t = []"

subsection \<open>Merging\<close>

partial_function (option) extract_pairs ::
  "('k, 'v) trie \<Rightarrow> 'k list \<Rightarrow> nat \<Rightarrow> nat \<Rightarrow> ('k list \<times> 'v) list option" where
  "extract_pairs t key i n =
     (if n = 0 then Some []
      else do {
        node \<leftarrow> nth_opt (t_nodes t) i;
        pairs \<leftarrow> (case n_data node of
                    Leaf j \<Rightarrow> do { v \<leftarrow> nth_opt (t_values t) j; Some [(key @ [n_key node], v)] }
                  | Internal child_start n_children \<Rightarrow>
                      extract_pairs t (key @ [n_key node]) child_start n_children);
        rest \<leftarrow> extract_pairs t key (i + 1) (n - 1);
        Some (pairs @ rest)
      })"

declare extract_pairs.simps [code]

definition trie_pairs :: "('k, 'v) trie \<Rightarrow> ('k list \<times> 'v) list option" where
  "trie_pairs t = extract_pairs t [] 0 (t_n_roots t)"

definition trie_merge ::
  "('k :: linorder, 'v) trie \<Rightarrow> ('k, 'v) trie \<Rightarrow> (string + ('k, 'v) trie) option" where
  "trie_merge self other =
     (if trie_is_empty self then Some (Inr other)
      else if trie_is_empty other then Some (Inr self)
      else do {
        ps \<leftarrow> trie_pairs self;
        qs \<leftarrow> trie_pairs other;
        trie_from_iter (ps @ qs)
      })"

definition trie_merge_overriding ::
  "('k :: linorder, 'v) trie \<Rightarrow> ('k, 'v) trie \<Rightarrow> (string + ('k, 'v) trie) option" where
  "trie_merge_overriding self other =
     (if trie_is_empty self then Some (Inr other)
      else if trie_is_empty other then Some (Inr self)
      else do {
        ps \<leftarrow> trie_pairs self;
        let m = btree_extend [] ps;
        qs \<leftarrow> trie_pairs other;
        trie_from_iter (btree_extend m qs)
      })"

end
