(* ===== verification/TrieForest.thy ===== *)
theory TrieForest
  imports Trie
begin

text \<open>
  The tree that \<open>insert\<close> builds as a map from keys to query results, and what one insertion
  does to it.
\<close>

fun bt_get :: "'k list \<Rightarrow> ('k, 'v) build_node list \<Rightarrow> 'v query_result" where
  "bt_get [] f = Partial"
| "bt_get (k # ks) f =
     (case find (\<lambda>n. b_key n = k) f of
        None \<Rightarrow> Missing
      | Some (BLeaf _ v) \<Rightarrow> if ks = [] then Val v else Missing
      | Some (BInternal _ ch) \<Rightarrow> bt_get ks ch)"

fun node_ok :: "('k, 'v) build_node \<Rightarrow> bool" where
  "node_ok (BLeaf k v) \<longleftrightarrow> True"
| "node_ok (BInternal k ch) \<longleftrightarrow> ch \<noteq> [] \<and> distinct (map b_key ch) \<and> list_all node_ok ch"

definition forest_ok :: "('k, 'v) build_node list \<Rightarrow> bool" where
  "forest_ok f \<longleftrightarrow> distinct (map b_key f) \<and> list_all node_ok f"

lemma forest_ok_Nil [simp]: "forest_ok []"
  by (simp add: forest_ok_def)

lemma forest_ok_Cons:
  "forest_ok (n # f) \<longleftrightarrow> b_key n \<notin> b_key ` set f \<and> node_ok n \<and> forest_ok f"
  by (auto simp: forest_ok_def)

lemma node_ok_Internal: "node_ok (BInternal k ch) \<longleftrightarrow> ch \<noteq> [] \<and> forest_ok ch"
  by (auto simp: forest_ok_def)

text \<open>A key is in conflict with a tree when it is in it, or leads into it or through a leaf.\<close>

definition conflict :: "'k list \<Rightarrow> ('k, 'v) build_node list \<Rightarrow> bool" where
  "conflict key f \<longleftrightarrow> bt_get key f \<noteq> Missing \<or> (\<exists>p v. strict_prefix p key \<and> bt_get p f = Val v)"

lemma bt_get_Nil: "q \<noteq> [] \<Longrightarrow> bt_get q [] = Missing"
  by (cases q) auto

lemma bt_get_empty: "bt_get p [] \<noteq> Val w"
  by (cases p) auto

lemma bt_get_Cons:
  "bt_get (k # ks) (n # f) =
     (if b_key n = k then
        (case n of BLeaf _ v \<Rightarrow> if ks = [] then Val v else Missing | BInternal _ ch \<Rightarrow> bt_get ks ch)
      else bt_get (k # ks) f)"
  by (cases n) auto

definition insert_spec ::
  "'k list \<Rightarrow> 'v \<Rightarrow> ('k, 'v) build_node list \<Rightarrow> (string + ('k, 'v) build_node list) \<Rightarrow> bool" where
  "insert_spec key v f r \<longleftrightarrow>
     (case r of
        Inl _ \<Rightarrow> conflict key f
      | Inr f' \<Rightarrow> \<not> conflict key f \<and> forest_ok f' \<and> f' \<noteq> [] \<and>
          b_key ` set f' = insert (hd key) (b_key ` set f) \<and>
          (\<forall>q. bt_get q f' = (if q = key then Val v else if strict_prefix q key then Partial
                              else bt_get q f)))"

lemma conflict_Cons_ne: "b_key n \<noteq> k \<Longrightarrow> conflict (k # ks) (n # f) \<longleftrightarrow> conflict (k # ks) f"
proof -
  assume ne: "b_key n \<noteq> k"
  have "bt_get p (n # f) = bt_get p f" if "strict_prefix p (k # ks)" for p
    using that ne by (cases p) (auto simp: bt_get_Cons simp del: bt_get.simps(2))
  then show ?thesis using ne by (auto simp: conflict_def bt_get_Cons simp del: bt_get.simps)
qed

lemma conflict_Internal:
  "ks \<noteq> [] \<Longrightarrow> conflict (k # ks) (BInternal k ch # f) \<longleftrightarrow> conflict ks ch"
proof -
  assume "ks \<noteq> []"
  have "(\<exists>p v. strict_prefix p (k # ks) \<and> bt_get p (BInternal k ch # f) = Val v) \<longleftrightarrow>
        (\<exists>p v. strict_prefix p ks \<and> bt_get p ch = Val v)"
  proof
    assume "\<exists>p v. strict_prefix p (k # ks) \<and> bt_get p (BInternal k ch # f) = Val v"
    then obtain p v where p: "strict_prefix p (k # ks)" "bt_get p (BInternal k ch # f) = Val v" by blast
    then show "\<exists>p v. strict_prefix p ks \<and> bt_get p ch = Val v" by (cases p) auto
  next
    assume "\<exists>p v. strict_prefix p ks \<and> bt_get p ch = Val v"
    then obtain p v where "strict_prefix p ks" "bt_get p ch = Val v" by blast
    then show "\<exists>p v. strict_prefix p (k # ks) \<and> bt_get p (BInternal k ch # f) = Val v"
      by (intro exI[of _ "k # p"] exI[of _ v]) simp
  qed
  then show ?thesis by (simp add: conflict_def)
qed

lemma trie_insert_spec:
  "key \<noteq> [] \<Longrightarrow> forest_ok f \<Longrightarrow> \<exists>r. trie_insert key v f = Some r \<and> insert_spec key v f r"
proof (induction key v f rule: trie_insert.induct)
  case (1 key v)
  then obtain k ks where key: "key = k # ks" by (cases key) auto
  have nc: "\<not> conflict (k # ks) []"
    by (simp add: conflict_def bt_get_empty)
  show ?case
  proof (cases "ks = []")
    case True
    have "bt_get q [BLeaf k v] = (if q = [k] then Val v else if strict_prefix q [k] then Partial
        else bt_get q [])" for q
      by (cases q) (auto simp: strict_prefix_def)
    then show ?thesis using key True nc by (simp add: insert_spec_def forest_ok_def)
  next
    case False
    obtain r where r: "trie_insert ks v [] = Some r" "insert_spec ks v [] r"
      using 1(1)[OF key False] False by auto
    obtain ch where ch: "r = Inr ch"
      using r(2) False bt_get_Nil
      by (cases r) (auto simp: insert_spec_def conflict_def strict_prefix_def, metis bt_get.simps(1)
          bt_get_Nil query_result.distinct(1,3))
    have okch: "forest_ok ch" "ch \<noteq> []" and get: "\<And>q. bt_get q ch =
        (if q = ks then Val v else if strict_prefix q ks then Partial else bt_get q [])"
      using r(2) ch by (simp_all add: insert_spec_def)
    have "bt_get q [BInternal k ch] = (if q = k # ks then Val v
        else if strict_prefix q (k # ks) then Partial else bt_get q [])" for q
    proof (cases q)
      case (Cons x xs)
      then show ?thesis using get[of xs] bt_get_Nil[of xs] False by (cases "xs = []") (auto simp: strict_prefix_def)
    qed simp
    then show ?thesis
      using key False nc r(1) ch okch by (simp add: insert_spec_def forest_ok_Cons node_ok_Internal del: node_ok.simps)
  qed
next
  case (2 key v n ns)
  then obtain k ks where key: "key = k # ks" by (cases key) auto
  have ok: "node_ok n" "forest_ok ns" "b_key n \<notin> b_key ` set ns"
    using 2(4) by (simp_all add: forest_ok_Cons)
  show ?case
  proof (cases "k = b_key n")
    case eq: True
    show ?thesis
    proof (cases "ks = []")
      case True
      have "bt_get [k] (n # ns) \<noteq> Missing" using eq by (cases n) auto
      then show ?thesis using key eq True by (simp add: insert_spec_def conflict_def)
    next
      case False
      show ?thesis
      proof (cases n)
        case (BLeaf k' w)
        then have "strict_prefix [k] key" "bt_get [k] (n # ns) = Val w"
          using key eq False by (auto simp: strict_prefix_def)
        then have "conflict key (n # ns)" unfolding conflict_def by blast
        then show ?thesis using key eq False BLeaf by (auto simp: insert_spec_def)
      next
        case (BInternal k' ch)
        then have okch: "forest_ok ch" "ch \<noteq> []" using ok(1) by (simp_all add: node_ok_Internal del: node_ok.simps)
        obtain r where r: "trie_insert ks v ch = Some r" "insert_spec ks v ch r"
          using 2(1)[OF key eq False BInternal] False okch(1) by auto
        have cf: "conflict key (n # ns) \<longleftrightarrow> conflict ks ch"
          unfolding key BInternal using conflict_Internal[OF False] eq BInternal by auto
        show ?thesis
        proof (cases r)
          case (Inl e)
          then show ?thesis using r key eq False BInternal cf by (auto simp: insert_spec_def)
        next
          case (Inr ch')
          have get: "bt_get q ch' = (if q = ks then Val v else if strict_prefix q ks then Partial
              else bt_get q ch)" for q
            using r(2) Inr by (simp add: insert_spec_def)
          have "bt_get q (BInternal k' ch' # ns) = (if q = key then Val v
              else if strict_prefix q key then Partial else bt_get q (n # ns))" for q
          proof (cases q)
            case (Cons x xs)
            then show ?thesis using get[of xs] eq BInternal key by auto
          qed (use key in simp)
          moreover have "forest_ok (BInternal k' ch' # ns)"
            using ok r(2) Inr BInternal by (simp add: forest_ok_Cons node_ok_Internal insert_spec_def del: node_ok.simps)
          ultimately show ?thesis
            using r key eq False BInternal Inr cf by (auto simp: insert_spec_def)
        qed
      qed
    qed
  next
    case ne: False
    obtain r where r: "trie_insert key v ns = Some r" "insert_spec key v ns r"
      using 2(2)[OF key ne] 2(3) ok(2) key by auto
    have cf: "conflict key (n # ns) \<longleftrightarrow> conflict key ns"
      unfolding key using conflict_Cons_ne ne by metis
    show ?thesis
    proof (cases r)
      case (Inl e)
      then show ?thesis using r key ne cf by (auto simp: insert_spec_def)
    next
      case (Inr ns')
      have get: "bt_get q ns' = (if q = key then Val v else if strict_prefix q key then Partial
          else bt_get q ns)" for q
        using r(2) Inr by (simp add: insert_spec_def)
      have "bt_get q (n # ns') = (if q = key then Val v
          else if strict_prefix q key then Partial else bt_get q (n # ns))" for q
      proof (cases q)
        case (Cons x xs)
        then show ?thesis using get[of q] ne key by (auto simp: bt_get_Cons simp del: bt_get.simps)
      qed (use key in simp)
      moreover have "forest_ok (n # ns')"
        using ok r(2) Inr ne key by (auto simp: forest_ok_Cons insert_spec_def)
      moreover have "b_key ` set (n # ns') = insert (hd key) (b_key ` set (n # ns))"
        using r(2) Inr by (auto simp: insert_spec_def)
      ultimately show ?thesis
        using r key ne Inr cf by (auto simp: insert_spec_def)
    qed
  qed
qed

end
