(* ===== verification/TrieBuild.thy ===== *)
theory TrieBuild
  imports TrieForest
begin

text \<open>
  Building from pairs: the tree holds exactly the pairs, and building fails exactly when one
  key is a prefix of another.
\<close>

definition prefix_free :: "'k list list \<Rightarrow> bool" where
  "prefix_free ks \<longleftrightarrow> sorted_wrt parallel ks"

text \<open>What looking up a key in the pairs means.\<close>

definition pairs_get :: "('k list \<times> 'v) list \<Rightarrow> 'k list \<Rightarrow> 'v query_result" where
  "pairs_get ps q =
     (case map_of ps q of
        Some v \<Rightarrow> Val v
      | None \<Rightarrow> if \<exists>p \<in> set ps. strict_prefix q (fst p) then Partial else Missing)"

lemma prefix_free_Nil [simp]: "prefix_free []"
  by (simp add: prefix_free_def)

lemma prefix_free_snoc:
  "prefix_free (ks @ [k]) \<longleftrightarrow> prefix_free ks \<and> (\<forall>p \<in> set ks. p \<parallel> k)"
  by (auto simp: prefix_free_def sorted_wrt_append)

lemma prefix_free_append:
  "prefix_free (ks @ ls) \<longleftrightarrow> prefix_free ks \<and> prefix_free ls \<and> (\<forall>p \<in> set ks. \<forall>q \<in> set ls. p \<parallel> q)"
  by (auto simp: prefix_free_def sorted_wrt_append)

lemma prefix_free_distinct: "prefix_free ks \<Longrightarrow> distinct ks"
  by (induction ks) (auto simp: prefix_free_def parallel_def)

lemma prefix_free_iff:
  "prefix_free ks \<longleftrightarrow> distinct ks \<and> (\<forall>p \<in> set ks. \<forall>q \<in> set ks. \<not> strict_prefix p q)"
proof (induction ks rule: rev_induct)
  case (snoc k ks)
  have "(\<forall>p \<in> set ks. p \<parallel> k) \<longleftrightarrow> k \<notin> set ks \<and>
      (\<forall>p \<in> set ks. \<not> strict_prefix p k \<and> \<not> strict_prefix k p)"
    by (auto simp: parallel_def strict_prefix_def)
  then show ?case using snoc by (auto simp: prefix_free_snoc)
qed simp

lemma prefix_free_mset: "mset ks = mset ls \<Longrightarrow> prefix_free ks \<longleftrightarrow> prefix_free ls"
  by (metis mset_eq_imp_distinct_iff mset_eq_setD prefix_free_iff)

lemma pairs_get_snoc:
  "prefix_free (map fst (ps @ [(k, v)])) \<Longrightarrow>
   pairs_get (ps @ [(k, v)]) q =
     (if q = k then Val v else if strict_prefix q k then Partial else pairs_get ps q)"
proof -
  assume pf: "prefix_free (map fst (ps @ [(k, v)]))"
  then have par: "p \<parallel> k" if "p \<in> fst ` set ps" for p
    using that by (auto simp: prefix_free_snoc)
  have notin: "k \<notin> fst ` set ps" using par[of k] by auto
  have nopre: "q \<notin> fst ` set ps" if "strict_prefix q k"
    using par[of q] that by (auto simp: parallel_def strict_prefix_def)
  show ?thesis
    using notin nopre
    by (auto simp: pairs_get_def map_add_def split: option.splits dest: map_of_SomeD)
      (auto simp: map_of_eq_None_iff rev_image_eqI dest: map_of_SomeD)
qed

lemma conflict_pairs:
  assumes get: "\<And>q. q \<noteq> [] \<Longrightarrow> bt_get q f = pairs_get ps q"
    and keys: "[] \<notin> fst ` set ps" and k: "k \<noteq> []"
  shows "conflict k f \<longleftrightarrow> \<not> (\<forall>p \<in> fst ` set ps. p \<parallel> k)"
proof -
  have 1: "bt_get k f \<noteq> Missing \<longleftrightarrow> (\<exists>p \<in> fst ` set ps. prefix k p)"
  proof (cases "map_of ps k")
    case None
    then have "k \<notin> fst ` set ps" by (simp add: map_of_eq_None_iff)
    then show ?thesis using get[OF k] None by (auto simp: pairs_get_def strict_prefix_def)
  next
    case (Some v)
    then have "k \<in> fst ` set ps" by (auto dest: map_of_SomeD intro: rev_image_eqI)
    then show ?thesis using get[OF k] Some by (auto simp: pairs_get_def)
  qed
  have 2: "(\<exists>v. bt_get p f = Val v) \<longleftrightarrow> p \<in> fst ` set ps" for p
  proof (cases "p = []")
    case False
    have "(\<exists>v. pairs_get ps p = Val v) \<longleftrightarrow> (\<exists>v. map_of ps p = Some v)"
      by (auto simp: pairs_get_def split: option.splits)
    then show ?thesis using get[OF False] by (simp add: map_of_eq_None_iff not_None_eq[symmetric] del: not_None_eq)
  qed (use keys in simp)
  have "conflict k f \<longleftrightarrow> (\<exists>p \<in> fst ` set ps. prefix k p) \<or> (\<exists>p \<in> fst ` set ps. strict_prefix p k)"
    unfolding conflict_def 1 using 2 by blast
  then show ?thesis by (auto simp: parallel_def strict_prefix_def)
qed

subsection \<open>Building the tree\<close>

fun leaves :: "('k, 'v) build_node \<Rightarrow> nat" where
  "leaves (BInternal k ns) = sum_list (map leaves ns)"
| "leaves (BLeaf k v) = 1"

lemma bind_case_Inr:
  "(x \<bind> (\<lambda>r. Some (case r of Inl e \<Rightarrow> Inl e | Inr y \<Rightarrow> Inr (g y)))) = Some (Inr z) \<longleftrightarrow>
   (\<exists>y. x = Some (Inr y) \<and> z = g y)"
  by (cases x) (auto split: sum.splits)

lemma trie_insert_leaves:
  "trie_insert key v f = Some (Inr f') \<Longrightarrow> sum_list (map leaves f') = Suc (sum_list (map leaves f))"
proof (induction key v f arbitrary: f' rule: trie_insert.induct)
  case (1 key v)
  show ?case
  proof (cases key)
    case (Cons k ks)
    show ?thesis
    proof (cases "ks = []")
      case False
      then obtain ch where "trie_insert ks v [] = Some (Inr ch)" "f' = [BInternal k ch]"
        using 1(2) Cons
        by (auto simp: bind_case_Inr trie_insert.simps(1)[of "k # ks"] simp del: trie_insert.simps(1))
      then show ?thesis using 1(1)[OF Cons False] by simp
    qed (use 1(2) Cons in auto)
  qed (use 1(2) in simp)
next
  case (2 key v n ns)
  show ?case
  proof (cases key)
    case (Cons k ks)
    show ?thesis
    proof (cases "k = b_key n")
      case True
      then obtain k' ch ch' where "n = BInternal k' ch" "trie_insert ks v ch = Some (Inr ch')"
        "f' = BInternal k' ch' # ns" "ks \<noteq> []"
        using 2(3) Cons by (cases n) (auto split: if_splits simp: bind_case_Inr)
      then show ?thesis using 2(1)[OF Cons True] by simp
    next
      case False
      then obtain ns' where "trie_insert key v ns = Some (Inr ns')" "f' = n # ns'"
        using 2(3) Cons by (auto split: if_splits simp: bind_case_Inr)
      then show ?thesis using 2(2)[OF Cons False] Cons by simp
    qed
  qed (use 2(3) in simp)
qed

definition build_spec :: "('k list \<times> 'v) list \<Rightarrow> (string + ('k, 'v) build_node list) \<Rightarrow> bool" where
  "build_spec it r \<longleftrightarrow>
     (case r of
        Inl _ \<Rightarrow> \<not> prefix_free (map fst it)
      | Inr f \<Rightarrow> prefix_free (map fst it) \<and> forest_ok f \<and> (f = [] \<longleftrightarrow> it = []) \<and>
          sum_list (map leaves f) = length it \<and>
          (\<forall>q. q \<noteq> [] \<longrightarrow> bt_get q f = pairs_get it q))"

lemma insert_pairs_snoc:
  "insert_pairs (it @ [(k, v)]) =
     (case insert_pairs it of
        None \<Rightarrow> None
      | Some (Inl e) \<Rightarrow> Some (Inl e)
      | Some (Inr roots) \<Rightarrow> trie_insert k v roots)"
  by (auto simp: insert_pairs_def split: option.splits sum.splits)

lemma insert_pairs_spec:
  "[] \<notin> fst ` set it \<Longrightarrow> \<exists>r. insert_pairs it = Some r \<and> build_spec it r"
proof (induction it rule: rev_induct)
  case Nil
  then show ?case by (simp add: insert_pairs_def build_spec_def bt_get_Nil pairs_get_def)
next
  case (snoc p it)
  obtain k v where p: "p = (k, v)" by (cases p)
  have keys: "[] \<notin> fst ` set it" "k \<noteq> []" using snoc.prems p by auto
  obtain r where r: "insert_pairs it = Some r" "build_spec it r" using snoc.IH keys by auto
  show ?case
  proof (cases r)
    case (Inl e)
    then show ?thesis using r p by (simp add: insert_pairs_snoc build_spec_def prefix_free_snoc)
  next
    case (Inr f)
    have f: "prefix_free (map fst it)" "forest_ok f" "sum_list (map leaves f) = length it"
      and get: "\<And>q. q \<noteq> [] \<Longrightarrow> bt_get q f = pairs_get it q"
      using r(2) Inr by (simp_all add: build_spec_def)
    obtain r' where r': "trie_insert k v f = Some r'" "insert_spec k v f r'"
      using trie_insert_spec[OF keys(2) f(2)] by blast
    have conf: "conflict k f \<longleftrightarrow> \<not> prefix_free (map fst (it @ [(k, v)]))"
      using conflict_pairs[OF get keys] f(1) by (simp add: prefix_free_snoc)
    show ?thesis
    proof (cases r')
      case (Inl e)
      then show ?thesis
        using r Inr r' p conf by (auto simp: insert_pairs_snoc build_spec_def insert_spec_def)
    next
      case (Inr f')
      have pf: "prefix_free (map fst (it @ [(k, v)]))"
        using r'(2) Inr conf by (simp add: insert_spec_def)
      have "bt_get q f' = pairs_get (it @ [(k, v)]) q" if "q \<noteq> []" for q
        using r'(2) Inr get[OF that] pairs_get_snoc[OF pf, of q] by (simp add: insert_spec_def)
      moreover have "sum_list (map leaves f') = length (it @ [p])"
        using trie_insert_leaves[of k v f f'] r'(1) Inr f(3) by simp
      ultimately show ?thesis
        using r \<open>r = Inr f\<close> r' Inr p pf
        by (auto simp: insert_pairs_snoc build_spec_def insert_spec_def)
    qed
  qed
qed


text \<open>
  The flattened trie represents the tree it was made from: \<open>node_rep\<close> says that the node at
  an index stands for a node of the tree, with its children, sorted, in a range of the array
  that lies above \<open>lo\<close>.
\<close>

inductive node_rep ::
    "nat \<Rightarrow> 'k :: linorder trie_node list \<Rightarrow> 'v list \<Rightarrow> nat \<Rightarrow> ('k, 'v) build_node \<Rightarrow> bool"
  for lo nodes vs where
  node_rep_leaf:
    "lo \<le> i \<Longrightarrow> i < length nodes \<Longrightarrow> nodes ! i = \<lparr>n_key = k, n_data = Leaf j\<rparr> \<Longrightarrow>
     j < length vs \<Longrightarrow> vs ! j = v \<Longrightarrow> node_rep lo nodes vs i (BLeaf k v)"
| node_rep_internal:
    "lo \<le> i \<Longrightarrow> i < length nodes \<Longrightarrow> nodes ! i = \<lparr>n_key = k, n_data = Internal s (length ch)\<rparr> \<Longrightarrow>
     (\<And>j. j < length ch \<Longrightarrow> node_rep lo nodes vs (s + j) (sort_key b_key ch ! j)) \<Longrightarrow>
     node_rep lo nodes vs i (BInternal k ch)"

inductive_simps node_rep_leaf_simp: "node_rep lo nodes vs i (BLeaf k v)"
inductive_simps node_rep_internal_simp: "node_rep lo nodes vs i (BInternal k ch)"

definition level_rep ::
  "nat \<Rightarrow> 'k :: linorder trie_node list \<Rightarrow> 'v list \<Rightarrow> nat \<Rightarrow> ('k, 'v) build_node list \<Rightarrow> bool" where
  "level_rep lo nodes vs s ch \<longleftrightarrow>
     (\<forall>j < length ch. node_rep lo nodes vs (s + j) (sort_key b_key ch ! j))"

lemma node_rep_bound: "node_rep lo nodes vs i n \<Longrightarrow> lo \<le> i \<and> i < length nodes"
  by (induction rule: node_rep.induct) auto

lemma node_rep_key: "node_rep lo nodes vs i n \<Longrightarrow> n_key (nodes ! i) = b_key n"
  by (induction rule: node_rep.induct) auto

text \<open>Frame: only the part of the array above \<open>lo\<close> matters, and it may be extended.\<close>

lemma node_rep_frame:
  "node_rep lo nodes vs i n \<Longrightarrow> (\<And>k. lo \<le> k \<Longrightarrow> k < length nodes \<Longrightarrow> nodes' ! k = nodes ! k) \<Longrightarrow>
   length nodes \<le> length nodes' \<Longrightarrow> prefix vs vs' \<Longrightarrow> lo' \<le> lo \<Longrightarrow> node_rep lo' nodes' vs' i n"
proof (induction rule: node_rep.induct)
  case (node_rep_leaf i k j v)
  then show ?case by (intro node_rep.node_rep_leaf[where j = j]) (auto simp: prefix_def nth_append)
next
  case (node_rep_internal i k s ch)
  then show ?case by (intro node_rep.node_rep_internal[where s = s]) auto
qed

lemma level_rep_frame:
  "level_rep lo nodes vs s ch \<Longrightarrow> (\<And>k. lo \<le> k \<Longrightarrow> k < length nodes \<Longrightarrow> nodes' ! k = nodes ! k) \<Longrightarrow>
   length nodes \<le> length nodes' \<Longrightarrow> prefix vs vs' \<Longrightarrow> lo' \<le> lo \<Longrightarrow> level_rep lo' nodes' vs' s ch"
  unfolding level_rep_def by (blast intro: node_rep_frame)

subsection \<open>The roots of a level\<close>

definition root_at :: "'k trie_node list \<Rightarrow> 'v list \<Rightarrow> nat \<Rightarrow> ('k, 'v) build_node \<Rightarrow> bool" where
  "root_at nodes vs i n =
     (case n of
        BLeaf k v \<Rightarrow> \<exists>j < length vs. nodes ! i = \<lparr>n_key = k, n_data = Leaf j\<rparr> \<and> vs ! j = v
      | BInternal k ch \<Rightarrow> nodes ! i = \<lparr>n_key = k, n_data = Internal 0 (length ch)\<rparr>)"

lemma root_at_mono:
  "root_at nodes vs i n \<Longrightarrow> i < length nodes \<Longrightarrow> prefix nodes nodes' \<Longrightarrow> prefix vs vs' \<Longrightarrow>
   root_at nodes' vs' i n"
  by (auto simp: root_at_def prefix_def nth_append split: build_node.splits)

fun stack_of :: "nat \<Rightarrow> ('k, 'v) build_node list \<Rightarrow> (nat \<times> ('k, 'v) build_node list) list" where
  "stack_of i [] = []"
| "stack_of i (BInternal k ch # roots) = (i, ch) # stack_of (Suc i) roots"
| "stack_of i (BLeaf k v # roots) = stack_of (Suc i) roots"

lemma stack_of_ge: "(j, ch) \<in> set (stack_of i roots) \<Longrightarrow> i \<le> j"
  by (induction i roots rule: stack_of.induct) auto

lemma stack_of_distinct: "distinct (map fst (stack_of i roots))"
  by (induction i roots rule: stack_of.induct) (auto dest: stack_of_ge)

lemma stack_of_in:
  "(i, ch) \<in> set (stack_of s roots) \<longleftrightarrow>
   (\<exists>j < length roots. i = s + j \<and> (\<exists>k. roots ! j = BInternal k ch))"
  by (induction s roots rule: stack_of.induct) (auto simp: less_Suc_eq_0_disj)

lemma push_roots_spec:
  "push_roots roots nodes vs = (nodes', vs', stack) \<Longrightarrow>
   stack = stack_of (length nodes) roots \<and> length nodes' = length nodes + length roots \<and>
   prefix nodes nodes' \<and> prefix vs vs' \<and>
   (\<forall>j < length roots. root_at nodes' vs' (length nodes + j) (roots ! j))"
proof (induction roots nodes vs arbitrary: stack rule: push_roots.induct)
  case (1 nodes vs)
  then show ?case by simp
next
  case (2 k ch roots nodes vs)
  let ?n = "\<lparr>n_key = k, n_data = Internal 0 (length ch)\<rparr>"
  obtain stack' where p: "push_roots roots (nodes @ [?n]) vs = (nodes', vs', stack')"
    and stack: "stack = (length nodes, ch) # stack'"
    using 2(2) by (auto simp: Let_def split: prod.splits)
  note IH = 2(1)[OF refl p]
  have "root_at (nodes @ [?n]) vs (length nodes) (BInternal k ch)" by (simp add: root_at_def)
  then have "root_at nodes' vs' (length nodes) (BInternal k ch)"
    using IH by (auto intro: root_at_mono)
  then show ?case
    using IH stack by (auto simp: less_Suc_eq_0_disj append_prefixD)
next
  case (3 k v roots nodes vs)
  let ?n = "\<lparr>n_key = k, n_data = Leaf (length vs)\<rparr>"
  have p: "push_roots roots (nodes @ [?n]) (vs @ [v]) = (nodes', vs', stack)"
    using 3(2) by simp
  note IH = 3(1)[OF p]
  have "root_at (nodes @ [?n]) (vs @ [v]) (length nodes) (BLeaf k v)" by (simp add: root_at_def)
  then have "root_at nodes' vs' (length nodes) (BLeaf k v)"
    using IH by (auto intro: root_at_mono)
  then show ?case
    using IH by (auto simp: less_Suc_eq_0_disj append_prefixD)
qed

subsection \<open>Flattening represents the tree\<close>

lemma length_set_child_start [simp]: "length (set_child_start i s nodes) = length nodes"
  by (simp add: set_child_start_def split: trie_data.splits)

lemma set_child_start_other: "k \<noteq> i \<Longrightarrow> set_child_start i s nodes ! k = nodes ! k"
  by (simp add: set_child_start_def split: trie_data.splits)

lemma set_child_start_same:
  "i < length nodes \<Longrightarrow> nodes ! i = \<lparr>n_key = k, n_data = Internal s0 n\<rparr> \<Longrightarrow>
   set_child_start i s nodes ! i = \<lparr>n_key = k, n_data = Internal s n\<rparr>"
  by (simp add: set_child_start_def)

definition flat_post ::
  "('k :: linorder, 'v) build_node list \<Rightarrow> 'k trie_node list \<Rightarrow> 'v list \<Rightarrow>
   (nat \<times> nat) \<times> 'k trie_node list \<times> 'v list \<Rightarrow> bool" where
  "flat_post roots nodes vs r =
     (case r of ((s, n), nodes', vs') \<Rightarrow>
        s = length nodes \<and> n = length roots \<and> prefix nodes nodes' \<and> prefix vs vs' \<and>
        level_rep (length nodes) nodes' vs' s roots)"

definition stack_post ::
  "(nat \<times> ('k :: linorder, 'v) build_node list) list \<Rightarrow> 'k trie_node list \<Rightarrow> 'v list \<Rightarrow>
   'k trie_node list \<times> 'v list \<Rightarrow> bool" where
  "stack_post stack nodes vs r =
     (case r of (nodes', vs') \<Rightarrow>
        length nodes \<le> length nodes' \<and> prefix vs vs' \<and>
        (\<forall>k < length nodes. k \<notin> fst ` set stack \<longrightarrow> nodes' ! k = nodes ! k) \<and>
        (\<forall>i ch. (i, ch) \<in> set stack \<longrightarrow>
           (\<exists>s. nodes' ! i = \<lparr>n_key = n_key (nodes ! i), n_data = Internal s (length ch)\<rparr> \<and>
                level_rep (length nodes) nodes' vs' s ch)))"

definition stack_pre ::
  "(nat \<times> ('k, 'v) build_node list) list \<Rightarrow> 'k trie_node list \<Rightarrow> bool" where
  "stack_pre stack nodes \<longleftrightarrow> distinct (map fst stack) \<and>
     (\<forall>i ch. (i, ch) \<in> set stack \<longrightarrow> i < length nodes \<and>
        (\<exists>k. nodes ! i = \<lparr>n_key = k, n_data = Internal 0 (length ch)\<rparr>))"

lemma stack_step:
  assumes pre: "stack_pre ((i, ch) # stack) nodes"
    and flat: "flat_post ch nodes vs ((s, n), nodes1, vs1)"
    and rest: "stack_pre stack (set_child_start i s nodes1) \<Longrightarrow>
      stack_post stack (set_child_start i s nodes1) vs1 (nodes', vs')"
  shows "stack_post ((i, ch) # stack) nodes vs (nodes', vs')"
proof -
  let ?n2 = "set_child_start i s nodes1"
  have i: "i < length nodes" and fresh: "i \<notin> fst ` set stack"
    using pre by (auto simp: stack_pre_def)
  obtain k where k: "nodes ! i = \<lparr>n_key = k, n_data = Internal 0 (length ch)\<rparr>"
    using pre unfolding stack_pre_def by (metis list.set_intros(1))
  have f: "s = length nodes" "prefix nodes nodes1" "prefix vs vs1"
    and lev: "level_rep (length nodes) nodes1 vs1 s ch"
    using flat by (auto simp: flat_post_def)
  have len1: "length nodes \<le> length nodes1" using f(2) by (rule prefix_length_le)
  have old: "nodes1 ! j = nodes ! j" if "j < length nodes" for j
    using f(2) that by (auto simp: prefix_def nth_append)
  have other: "?n2 ! j = nodes ! j" if "j < length nodes" "j \<noteq> i" for j
    using old that by (simp add: set_child_start_other)
  have at_i: "?n2 ! i = \<lparr>n_key = k, n_data = Internal s (length ch)\<rparr>"
    using set_child_start_same[of i nodes1 k 0 "length ch" s] k old i len1 by simp
  have "stack_pre stack ?n2"
    unfolding stack_pre_def
  proof (intro conjI allI impI)
    show "distinct (map fst stack)" using pre by (simp add: stack_pre_def)
    fix j ch' assume j: "(j, ch') \<in> set stack"
    then have "j \<noteq> i" using fresh by force
    moreover have "j < length nodes" "\<exists>k. nodes ! j = \<lparr>n_key = k, n_data = Internal 0 (length ch')\<rparr>"
      using pre j by (auto simp: stack_pre_def)
    ultimately show "j < length ?n2" "\<exists>k. ?n2 ! j = \<lparr>n_key = k, n_data = Internal 0 (length ch')\<rparr>"
      using other len1 by auto
  qed
  then have post: "stack_post stack ?n2 vs1 (nodes', vs')" by (rule rest)
  then have len: "length nodes1 \<le> length nodes'" and vs: "prefix vs1 vs'"
    and keep: "\<And>j. j < length nodes1 \<Longrightarrow> j \<notin> fst ` set stack \<Longrightarrow> nodes' ! j = ?n2 ! j"
    and sub: "\<And>j c. (j, c) \<in> set stack \<Longrightarrow>
      \<exists>s. nodes' ! j = \<lparr>n_key = n_key (?n2 ! j), n_data = Internal s (length c)\<rparr> \<and>
          level_rep (length nodes1) nodes' vs' s c"
    by (auto simp: stack_post_def)
  have stack_low: "j < length nodes" if "j \<in> fst ` set stack" for j
    using pre that by (force simp: stack_pre_def)
  have high: "nodes' ! j = nodes1 ! j" if "length nodes \<le> j" "j < length nodes1" for j
    using keep[of j] stack_low[of j] that i by (fastforce simp: set_child_start_other)
  have lev': "level_rep (length nodes) nodes' vs' s ch"
    using level_rep_frame[OF lev high len vs] by simp
  have "nodes' ! i = \<lparr>n_key = n_key (nodes ! i), n_data = Internal s (length ch)\<rparr>"
    using keep[of i] at_i fresh i len1 k by simp
  moreover have "\<exists>s. nodes' ! j = \<lparr>n_key = n_key (nodes ! j), n_data = Internal s (length c)\<rparr> \<and>
      level_rep (length nodes) nodes' vs' s c" if jc: "(j, c) \<in> set stack" for j c
  proof -
    have j: "j < length nodes" "j \<noteq> i" using stack_low[of j] fresh jc by force+
    obtain s' where "nodes' ! j = \<lparr>n_key = n_key (?n2 ! j), n_data = Internal s' (length c)\<rparr>"
      "level_rep (length nodes1) nodes' vs' s' c" using sub[OF jc] by blast
    then show ?thesis
      using other[OF j] level_rep_frame[of "length nodes1" nodes' vs' s' c nodes' vs' "length nodes"] len1
      by auto
  qed
  moreover have "nodes' ! j = nodes ! j" if "j < length nodes" "j \<notin> fst ` set ((i, ch) # stack)" for j
    using keep[of j] other[of j] that len1 by auto
  ultimately show ?thesis
    using len len1 vs f(3) lev' by (auto simp: stack_post_def)
qed

lemma flat_step:
  assumes push: "push_roots (sort_key b_key roots) nodes vs = (nodes1, vs1, stack)"
    and rest: "stack_pre stack nodes1 \<Longrightarrow> stack_post stack nodes1 vs1 (nodes', vs')"
  shows "flat_post roots nodes vs ((length nodes, length roots), nodes', vs')"
proof -
  let ?r = "sort_key b_key roots"
  have stack: "stack = stack_of (length nodes) ?r"
    and len1: "length nodes1 = length nodes + length roots"
    and pre1: "prefix nodes nodes1" "prefix vs vs1"
    and root: "\<And>j. j < length roots \<Longrightarrow> root_at nodes1 vs1 (length nodes + j) (?r ! j)"
    using push_roots_spec[OF push] by auto
  have "stack_pre stack nodes1"
    using stack_of_distinct[of "length nodes" ?r] root len1
    by (fastforce simp: stack_pre_def stack stack_of_in root_at_def)
  then have post: "stack_post stack nodes1 vs1 (nodes', vs')" by (rule rest)
  then have len: "length nodes1 \<le> length nodes'" and vs: "prefix vs1 vs'"
    and keep: "\<And>j. j < length nodes1 \<Longrightarrow> j \<notin> fst ` set stack \<Longrightarrow> nodes' ! j = nodes1 ! j"
    and sub: "\<And>j c. (j, c) \<in> set stack \<Longrightarrow>
      \<exists>s. nodes' ! j = \<lparr>n_key = n_key (nodes1 ! j), n_data = Internal s (length c)\<rparr> \<and>
          level_rep (length nodes1) nodes' vs' s c"
    by (auto simp: stack_post_def)
  have "prefix nodes nodes'"
  proof -
    have "nodes' ! j = nodes ! j" if "j < length nodes" for j
      using keep[of j] stack_of_ge[of j _ "length nodes" ?r] that pre1(1) len1 stack
      by (fastforce simp: prefix_def nth_append)
    then have "take (length nodes) nodes' = nodes"
      using len len1 by (intro nth_equalityI) auto
    then show ?thesis by (metis take_is_prefix)
  qed
  moreover have "node_rep (length nodes) nodes' vs' (length nodes + j) (?r ! j)" if j: "j < length roots" for j
  proof (cases "?r ! j")
    case (BInternal k ch)
    then have "(length nodes + j, ch) \<in> set stack" using j by (auto simp: stack stack_of_in)
    then obtain s where s: "nodes' ! (length nodes + j) =
        \<lparr>n_key = n_key (nodes1 ! (length nodes + j)), n_data = Internal s (length ch)\<rparr>"
      "level_rep (length nodes1) nodes' vs' s ch" using sub by blast
    have "level_rep (length nodes) nodes' vs' s ch"
      using level_rep_frame[OF s(2), of nodes' vs' "length nodes"] len1 by simp
    then show ?thesis
      using s(1) root[OF j] j len len1 BInternal by (auto simp: node_rep_internal_simp root_at_def level_rep_def)
  next
    case (BLeaf k v)
    have "length nodes + j \<notin> fst ` set stack" using BLeaf by (auto simp: stack stack_of_in)
    then have "nodes' ! (length nodes + j) = nodes1 ! (length nodes + j)" using keep j len1 by simp
    then show ?thesis
      using root[OF j] j len len1 BLeaf vs
      by (auto simp: node_rep_leaf_simp root_at_def prefix_def nth_append)
  qed
  ultimately show ?thesis
    using pre1 vs by (auto simp: flat_post_def level_rep_def intro: prefix_order.trans)
qed

lemma flatten_rep:
  "flat_post roots nodes vs (trie_flatten roots nodes vs)"
  "stack_pre stack nodes \<Longrightarrow> stack_post stack nodes vs (flatten_children stack nodes vs)"
proof (induction roots nodes vs and stack nodes vs rule: trie_flatten_flatten_children.induct)
  case (1 roots nodes vs)
  obtain nodes1 vs1 stack where p: "push_roots (sort_key b_key roots) nodes vs = (nodes1, vs1, stack)"
    by (metis prod_cases3)
  obtain nodes' vs' where r: "flatten_children stack nodes1 vs1 = (nodes', vs')" by fastforce
  have "flat_post roots nodes vs ((length nodes, length roots), nodes', vs')"
    using flat_step[OF p] 1(1) p r by auto
  then show ?case using p r by (simp add: trie_flatten.simps)
next
  case (2 nodes vs)
  then show ?case by (simp add: stack_post_def)
next
  case (3 i ch stack nodes vs)
  obtain s n nodes1 vs1 where f: "trie_flatten ch nodes vs = ((s, n), nodes1, vs1)"
    by (metis prod_cases3 surj_pair)
  obtain nodes' vs' where r: "flatten_children stack (set_child_start i s nodes1) vs1 = (nodes', vs')"
    by fastforce
  have "stack_post ((i, ch) # stack) nodes vs (nodes', vs')"
    using stack_step[OF 3(3)] 3(1,2) f r by auto
  then show ?case using f r by simp
qed

end
