(* ===== verification/TriePairs.thy ===== *)
theory TriePairs
  imports TrieBuild
begin

text \<open>
  Reading the pairs back: \<open>extract_pairs\<close> walks the flattened trie in the order of the keys
  and returns the pairs the tree holds.
\<close>

subsection \<open>The pairs of a tree\<close>

fun node_pairs :: "('k :: linorder, 'v) build_node \<Rightarrow> ('k list \<times> 'v) list" where
  "node_pairs (BLeaf k v) = [([k], v)]"
| "node_pairs (BInternal k ch) =
     map (apfst (Cons k)) (concat (map node_pairs (sort_key b_key ch)))"

definition level_pairs :: "('k :: linorder, 'v) build_node list \<Rightarrow> ('k list \<times> 'v) list" where
  "level_pairs f = concat (map node_pairs (sort_key b_key f))"

lemma node_pairs_Internal: "node_pairs (BInternal k ch) = map (apfst (Cons k)) (level_pairs ch)"
  by (simp add: level_pairs_def)

lemma find_distinct:
  "distinct (map f xs) \<Longrightarrow> x \<in> set xs \<Longrightarrow> find (\<lambda>y. f y = f x) xs = Some x"
  by (induction xs) auto

lemma mem_map_Cons: "(k # q, v) \<in> set (map (apfst (Cons k)) ps) \<longleftrightarrow> (q, v) \<in> set ps"
  by (induction ps) auto

lemma node_pairs_heads: "p \<in> set (node_pairs n) \<Longrightarrow> \<exists>q. fst p = b_key n # q"
  by (cases n) auto

lemma node_pairs_ne: "node_ok n \<Longrightarrow> node_pairs n \<noteq> []"
proof (induction n rule: node_pairs.induct)
  case (2 k ch)
  then obtain c where "c \<in> set ch" by (cases ch) auto
  then show ?case using 2 by (auto simp: list_all_iff intro!: bexI[of _ c])
qed simp

lemma node_pairs_get:
  "node_ok n \<Longrightarrow> (b_key n # q, v) \<in> set (node_pairs n) \<longleftrightarrow> bt_get (b_key n # q) [n] = Val v"
proof (induction n arbitrary: q rule: node_pairs.induct)
  case (1 k w)
  then show ?case by auto
next
  case (2 k ch)
  have ok: "distinct (map b_key ch)" "\<And>c. c \<in> set ch \<Longrightarrow> node_ok c"
    using 2(2) by (auto simp: list_all_iff)
  have "(q, v) \<in> set (level_pairs ch) \<longleftrightarrow> bt_get q ch = Val v"
  proof (cases q)
    case Nil
    have "([], v) \<notin> set (level_pairs ch)"
      unfolding level_pairs_def using node_pairs_heads by fastforce
    then show ?thesis using Nil by simp
  next
    case (Cons x xs)
    show ?thesis
    proof (cases "x \<in> b_key ` set ch")
      case True
      then obtain c where c: "c \<in> set ch" "b_key c = x" by auto
      have uniq: "(q, v) \<in> set (node_pairs c') \<longleftrightarrow> c' = c \<and> (q, v) \<in> set (node_pairs c)"
        if "c' \<in> set ch" for c'
      proof -
        have "c' = c" if "(q, v) \<in> set (node_pairs c')"
        proof -
          have "b_key c' = b_key c" using node_pairs_heads[OF that] Cons c(2) by simp
          then show ?thesis by (metis ok(1) \<open>c' \<in> set ch\<close> c(1) distinct_map inj_onD)
        qed
        then show ?thesis by blast
      qed
      have "find (\<lambda>n. b_key n = x) ch = Some c"
        using find_distinct[OF ok(1) c(1)] c(2) by simp
      then have "bt_get q ch = bt_get q [c]" using Cons c(2) by simp
      moreover have "(q, v) \<in> set (level_pairs ch) \<longleftrightarrow> (q, v) \<in> set (node_pairs c)"
        using uniq c(1) unfolding level_pairs_def set_concat set_map set_sort by blast
      moreover have "(q, v) \<in> set (node_pairs c) \<longleftrightarrow> bt_get q [c] = Val v"
        using 2(1)[of c xs] c ok(2) Cons by simp
      ultimately show ?thesis by simp
    next
      case False
      then have "find (\<lambda>n. b_key n = x) ch = None" by (auto simp: find_None_iff)
      then have "bt_get q ch = Missing" using Cons by simp
      moreover have "(q, v) \<notin> set (level_pairs ch)"
        unfolding level_pairs_def using False Cons node_pairs_heads by fastforce
      ultimately show ?thesis by simp
    qed
  qed
  moreover have "bt_get (k # q) [BInternal k ch] = bt_get q ch" by simp
  ultimately show ?case
    by (simp add: node_pairs_Internal mem_map_Cons del: node_pairs.simps bt_get.simps(2) set_map)
qed

lemma node_pairs_prefix_free: "node_ok n \<Longrightarrow> prefix_free (map fst (node_pairs n))"
proof (induction n rule: node_pairs.induct)
  case (1 k v)
  then show ?case by (simp add: prefix_free_def)
next
  case (2 k ch)
  have ok: "distinct (map b_key ch)" "\<And>c. c \<in> set ch \<Longrightarrow> node_ok c"
    using 2(2) by (auto simp: list_all_iff)
  have pf: "prefix_free (map fst (concat (map node_pairs cs)))"
    if "distinct (map b_key cs)" "set cs \<subseteq> set ch" for cs
    using that
  proof (induction cs)
    case (Cons c cs)
    have "prefix_free (map fst (node_pairs c))" using 2(1)[of c] ok(2) Cons.prems(2) by simp
    moreover have "p \<parallel> q" if pin: "p \<in> fst ` set (node_pairs c)"
        and qin: "q \<in> fst ` set (concat (map node_pairs cs))" for p q
    proof -
      obtain p' where p: "p = b_key c # p'" using pin by (auto dest: node_pairs_heads)
      obtain c' where c': "c' \<in> set cs" "q \<in> fst ` set (node_pairs c')" using qin by auto
      obtain q' where q: "q = b_key c' # q'" using c'(2) by (auto dest: node_pairs_heads)
      have "b_key c \<noteq> b_key c'" using Cons.prems(1) c'(1) by auto
      then show ?thesis using p q by (auto simp: parallel_def)
    qed
    ultimately show ?case using Cons by (auto simp: prefix_free_append)
  qed simp
  have "distinct (map b_key (sort_key b_key ch))"
    using ok(1) by (metis distinct_map distinct_sort set_sort)
  then have "prefix_free (map fst (level_pairs ch))" by (simp add: level_pairs_def pf)
  then have "prefix_free (map (Cons k) (map fst (level_pairs ch)))"
    by (auto simp: prefix_free_def sorted_wrt_map parallel_def)
  then show ?case by (simp add: node_pairs_Internal comp_def del: node_pairs.simps)
qed

text \<open>A level is treated as the children of a node with any key.\<close>

lemma level_pairs_prefix_free:
  assumes "forest_ok f" shows "prefix_free (map fst (level_pairs f))"
proof (cases "f = []")
  case False
  have "prefix_free (map fst (node_pairs (BInternal undefined f)))"
    using assms False by (intro node_pairs_prefix_free) (simp add: node_ok_Internal del: node_ok.simps)
  then show ?thesis
    by (simp add: node_pairs_Internal prefix_free_def sorted_wrt_map parallel_def comp_def
        del: node_pairs.simps)
qed (simp add: level_pairs_def)

lemma level_pairs_get:
  assumes "forest_ok f" shows "(q, v) \<in> set (level_pairs f) \<longleftrightarrow> bt_get q f = Val v"
proof (cases "f = []")
  case False
  have "(undefined # q, v) \<in> set (node_pairs (BInternal undefined f)) \<longleftrightarrow>
      bt_get (undefined # q) [BInternal undefined f] = Val v"
    using assms False node_pairs_get[of "BInternal undefined f" q v]
    by (simp add: node_ok_Internal del: node_ok.simps node_pairs.simps)
  moreover have "(undefined # q, v) \<in> set (node_pairs (BInternal undefined f)) \<longleftrightarrow>
      (q, v) \<in> set (level_pairs f)"
    by (simp add: node_pairs_Internal mem_map_Cons del: node_pairs.simps set_map)
  ultimately show ?thesis by simp
qed (simp add: level_pairs_def bt_get_empty)

subsection \<open>Extracting them\<close>

definition entry_pairs :: "('k, 'v) trie \<Rightarrow> 'k list \<Rightarrow> 'k trie_node \<Rightarrow> ('k list \<times> 'v) list option" where
  "entry_pairs t key node =
     (case n_data node of
        Leaf j \<Rightarrow> do { v \<leftarrow> nth_opt (t_values t) j; Some [(key @ [n_key node], v)] }
      | Internal child_start n_children \<Rightarrow>
          extract_pairs t (key @ [n_key node]) child_start n_children)"

lemma extract_pairs_0: "extract_pairs t key i 0 = Some []"
  by (subst extract_pairs.simps) simp

lemma extract_pairs_Suc:
  "extract_pairs t key i (Suc n) = do {
     node \<leftarrow> nth_opt (t_nodes t) i;
     pairs \<leftarrow> entry_pairs t key node;
     rest \<leftarrow> extract_pairs t key (Suc i) n;
     Some (pairs @ rest)
   }"
  by (subst extract_pairs.simps) (simp add: entry_pairs_def)

lemma extract_pairs_list:
  assumes "\<And>j. j < length g \<Longrightarrow> i + j < length (t_nodes t) \<and>
      entry_pairs t key (t_nodes t ! (i + j)) = Some (map (apfst ((@) key)) (node_pairs (g ! j)))"
  shows "extract_pairs t key i (length g) =
    Some (map (apfst ((@) key)) (concat (map node_pairs g)))"
  using assms
proof (induction g arbitrary: i)
  case (Cons n g)
  have "extract_pairs t key (Suc i) (length g) = Some (map (apfst ((@) key)) (concat (map node_pairs g)))"
    by (intro Cons.IH) (use Cons.prems[of "Suc j" for j] in auto)
  then show ?case using Cons.prems[of 0] by (simp add: extract_pairs_Suc nth_opt_def)
qed (simp add: extract_pairs_0)

lemma entry_pairs_rep:
  "node_rep lo (t_nodes t) (t_values t) i n \<Longrightarrow>
   entry_pairs t key (t_nodes t ! i) = Some (map (apfst ((@) key)) (node_pairs n))"
proof (induction arbitrary: key rule: node_rep.induct)
  case (node_rep_leaf i k j v)
  then show ?case by (simp add: entry_pairs_def nth_opt_def)
next
  case (node_rep_internal i k s ch)
  have "extract_pairs t (key @ [k]) s (length (sort_key b_key ch)) =
      Some (map (apfst ((@) (key @ [k]))) (concat (map node_pairs (sort_key b_key ch))))"
    using node_rep_internal(4,5) node_rep_bound by (intro extract_pairs_list) fastforce
  then show ?case
    using node_rep_internal(3) by (simp add: entry_pairs_def comp_def apfst_def map_prod_def case_prod_unfold)
qed

lemma extract_pairs_rep:
  assumes "level_rep lo (t_nodes t) (t_values t) i f"
  shows "extract_pairs t [] i (length f) = Some (level_pairs f)"
proof -
  have "extract_pairs t [] i (length (sort_key b_key f)) =
      Some (map (apfst ((@) [])) (concat (map node_pairs (sort_key b_key f))))"
    using assms node_rep_bound entry_pairs_rep
    by (intro extract_pairs_list) (fastforce simp: level_rep_def)
  then show ?thesis by (simp add: level_pairs_def apfst_def map_prod_def case_prod_unfold)
qed

end
