(* ===== verification/TrieProperties.thy ===== *)
theory TrieProperties
  imports TriePairs
begin

text \<open>
  The trie as a map: building, looking up, reading the pairs back and merging, all stated
  over the pairs the trie was built from.
\<close>

subsection \<open>The number of entries\<close>

definition leaf_count :: "'k trie_node list \<Rightarrow> nat" where
  "leaf_count nodes = length (filter id (map is_leaf nodes))"

lemma leaf_count_append [simp]: "leaf_count (a @ b) = leaf_count a + leaf_count b"
  by (simp add: leaf_count_def)

lemma leaf_count_set_child_start [simp]: "leaf_count (set_child_start i s nodes) = leaf_count nodes"
proof (cases "i < length nodes")
  case True
  have "map is_leaf (set_child_start i s nodes) = map is_leaf nodes"
    using True
    by (intro nth_equalityI)
      (auto simp: set_child_start_def is_leaf_def nth_list_update split: trie_data.splits)
  then show ?thesis by (simp add: leaf_count_def)
qed (simp add: set_child_start_def list_update_beyond split: trie_data.splits)

lemma push_roots_leaves:
  "push_roots roots nodes vs = (nodes', vs', stack) \<Longrightarrow>
   leaf_count nodes' + sum_list (map (\<lambda>(i, ch). sum_list (map leaves ch)) stack) =
   leaf_count nodes + sum_list (map leaves roots)"
  by (induction roots nodes vs arbitrary: stack rule: push_roots.induct)
    (auto simp: Let_def leaf_count_def is_leaf_def split: prod.splits)

lemma leaves_sort: "sum_list (map leaves (sort_key f ns)) = sum_list (map leaves ns)"
  by (metis mset_map mset_sort sum_mset_sum_list)

lemma flatten_leaves:
  "leaf_count (fst (snd (trie_flatten roots nodes vs))) = leaf_count nodes + sum_list (map leaves roots)"
  "leaf_count (fst (flatten_children stack nodes vs)) =
   leaf_count nodes + sum_list (map (\<lambda>(i, ch). sum_list (map leaves ch)) stack)"
proof (induction roots nodes vs and stack nodes vs rule: trie_flatten_flatten_children.induct)
  case (1 roots nodes vs)
  obtain nodes1 vs1 stack where p: "push_roots (sort_key b_key roots) nodes vs = (nodes1, vs1, stack)"
    by (metis prod_cases3)
  then show ?case
    using 1(1)[OF refl refl refl p[symmetric] refl] push_roots_leaves[OF p]
    by (simp add: trie_flatten.simps leaves_sort)
next
  case (3 i ch stack nodes vs)
  obtain s n nodes1 vs1 where f: "trie_flatten ch nodes vs = ((s, n), nodes1, vs1)"
    by (metis prod_cases3 surj_pair)
  then show ?case using 3 by simp
qed simp

subsection \<open>Lookup\<close>

lemma scan_level_found:
  assumes "\<And>j. j < length g \<Longrightarrow> i + j < length nodes \<and> n_key (nodes ! (i + j)) = b_key (g ! j)"
    and "sorted (map b_key g)"
  shows "if target \<in> b_key ` set g
         then \<exists>j < length g. b_key (g ! j) = target \<and>
              scan_level nodes target i (length g) = Some (Some (nodes ! (i + j)))
         else scan_level nodes target i (length g) = Some None"
  using assms
proof (induction g arbitrary: i)
  case (Cons n g)
  have hd: "i < length nodes" "n_key (nodes ! i) = b_key n" using Cons.prems(1)[of 0] by auto
  have IH: "if target \<in> b_key ` set g
         then \<exists>j < length g. b_key (g ! j) = target \<and>
              scan_level nodes target (Suc i) (length g) = Some (Some (nodes ! (Suc i + j)))
         else scan_level nodes target (Suc i) (length g) = Some None"
    using Cons.prems(2) by (intro Cons.IH) (use Cons.prems(1)[of "Suc j" for j] in auto)
  consider "b_key n = target" | "target < b_key n" | "b_key n < target" by fastforce
  then show ?case
  proof cases
    case 1
    then show ?thesis using hd by (auto simp: nth_opt_def intro: exI[of _ 0])
  next
    case 2
    then have "target \<notin> b_key ` set (n # g)" using Cons.prems(2) by auto
    then show ?thesis using 2 hd by (auto simp: nth_opt_def)
  next
    case 3
    then have sc: "scan_level nodes target i (length (n # g)) = scan_level nodes target (Suc i) (length g)"
      using hd by (auto simp: nth_opt_def)
    show ?thesis
    proof (cases "target \<in> b_key ` set g")
      case True
      then obtain j where "j < length g" "b_key (g ! j) = target"
        "scan_level nodes target (Suc i) (length g) = Some (Some (nodes ! (Suc i + j)))"
        using IH by auto
      then show ?thesis using True sc by (auto intro!: exI[of _ "Suc j"])
    next
      case False
      then show ?thesis using 3 IH sc by auto
    qed
  qed
qed simp

lemma find_none_key: "k \<notin> f ` set xs \<Longrightarrow> find (\<lambda>y. f y = k) xs = None"
  by (auto simp: find_None_iff)

lemma get_from_rep:
  "level_rep lo (t_nodes t) (t_values t) i f \<Longrightarrow> forest_ok f \<Longrightarrow>
   get_from t i (length f) key = Some (bt_get key f)"
proof (induction key arbitrary: lo i f)
  case (Cons target key)
  let ?g = "sort_key b_key f"
  have at: "i + j < length (t_nodes t) \<and> n_key (t_nodes t ! (i + j)) = b_key (?g ! j)"
    if "j < length ?g" for j
    using Cons.prems(1) node_rep_bound node_rep_key that by (fastforce simp: level_rep_def)
  have scan: "if target \<in> b_key ` set f
         then \<exists>j < length f. b_key (?g ! j) = target \<and>
              scan_level (t_nodes t) target i (length f) = Some (Some (t_nodes t ! (i + j)))
         else scan_level (t_nodes t) target i (length f) = Some None"
    using scan_level_found[of ?g i "t_nodes t" target] at by (simp cong: if_cong)
  show ?case
  proof (cases "target \<in> b_key ` set f")
    case True
    then obtain j where j: "j < length f" "b_key (?g ! j) = target"
      and sc: "scan_level (t_nodes t) target i (length f) = Some (Some (t_nodes t ! (i + j)))"
      using scan by auto
    have mem: "?g ! j \<in> set f" using j(1) by (metis length_sort nth_mem set_sort)
    have fnd: "find (\<lambda>n. b_key n = target) f = Some (?g ! j)"
      using find_distinct[OF _ mem, of b_key] Cons.prems(2) j(2) by (simp add: forest_ok_def)
    have rep: "node_rep lo (t_nodes t) (t_values t) (i + j) (?g ! j)"
      using Cons.prems(1) j(1) by (simp add: level_rep_def)
    show ?thesis
    proof (cases "?g ! j")
      case (BLeaf k v)
      then show ?thesis using rep sc fnd by (auto simp: node_rep_leaf_simp nth_opt_def)
    next
      case (BInternal k ch)
      then obtain s where s: "t_nodes t ! (i + j) = \<lparr>n_key = k, n_data = Internal s (length ch)\<rparr>"
        "level_rep lo (t_nodes t) (t_values t) s ch"
        using rep by (auto simp: node_rep_internal_simp level_rep_def)
      have "forest_ok ch"
        using mem BInternal Cons.prems(2) by (force simp: forest_ok_def list_all_iff)
      then show ?thesis using Cons.IH[OF s(2)] s(1) sc fnd BInternal by simp
    qed
  next
    case False
    then show ?thesis using scan find_none_key[OF False] by simp
  qed
qed simp

subsection \<open>Building and looking up\<close>

definition trie_rep :: "('k :: linorder, 'v) trie \<Rightarrow> ('k, 'v) build_node list \<Rightarrow> bool" where
  "trie_rep t f \<longleftrightarrow> forest_ok f \<and> t_n_roots t = length f \<and> (t_nodes t = [] \<longleftrightarrow> f = []) \<and>
     leaf_count (t_nodes t) = sum_list (map leaves f) \<and> level_rep 0 (t_nodes t) (t_values t) 0 f"

lemma flatten_trie_rep:
  assumes "trie_flatten f [] [] = ((s, n), nodes, vs)" "forest_ok f"
  shows "trie_rep \<lparr>t_nodes = nodes, t_values = vs, t_n_roots = n\<rparr> f"
proof -
  have post: "flat_post f [] [] ((s, n), nodes, vs)" using flatten_rep(1)[of f "[]" "[]"] assms(1) by simp
  then have lev: "level_rep 0 nodes vs 0 f" and n: "n = length f" by (auto simp: flat_post_def)
  have "nodes \<noteq> []" if "f \<noteq> []"
    using lev that node_rep_bound by (fastforce simp: level_rep_def)
  moreover have "nodes = []" if "f = []"
    using assms(1) that by (simp add: trie_flatten.simps)
  ultimately show ?thesis
    using assms flatten_leaves(1)[of f "[]" "[]"] n lev by (auto simp: trie_rep_def leaf_count_def)
qed

lemma trie_from_iter_rep:
  assumes "[] \<notin> fst ` set it"
  shows "\<exists>r. trie_from_iter it = Some r \<and>
    (case r of
       Inl _ \<Rightarrow> \<not> prefix_free (map fst it)
     | Inr t \<Rightarrow> \<exists>f. trie_rep t f \<and> build_spec it (Inr f))"
proof -
  obtain r where r: "insert_pairs it = Some r" "build_spec it r"
    using insert_pairs_spec[OF assms] by blast
  show ?thesis
  proof (cases r)
    case (Inl e)
    then show ?thesis using r by (simp add: trie_from_iter_def build_spec_def)
  next
    case (Inr f)
    have ok: "forest_ok f" using r(2) Inr by (simp add: build_spec_def)
    obtain s n nodes vs where fl: "trie_flatten f [] [] = ((s, n), nodes, vs)"
      by (metis prod_cases3 surj_pair)
    have "trie_rep trie_default f" if "f = []"
      using that by (simp add: trie_rep_def trie_default_def leaf_count_def level_rep_def)
    then show ?thesis
      using r Inr flatten_trie_rep[OF fl ok] fl by (auto simp: trie_from_iter_def)
  qed
qed

lemma trie_get_rep:
  "trie_rep t f \<Longrightarrow> trie_get t q = Some (if q = [] then Missing else bt_get q f)"
  using get_from_rep[of 0 t 0 f q] by (simp add: trie_get_def trie_rep_def)

lemma trie_pairs_rep: "trie_rep t f \<Longrightarrow> trie_pairs t = Some (level_pairs f)"
  using extract_pairs_rep[of 0 t 0 f] by (simp add: trie_pairs_def trie_rep_def)

lemma level_pairs_mset:
  assumes "build_spec it (Inr f)" "[] \<notin> fst ` set it"
  shows "mset (level_pairs f) = mset it"
proof -
  have ok: "forest_ok f" and pf: "prefix_free (map fst it)"
    and get: "\<And>q. q \<noteq> [] \<Longrightarrow> bt_get q f = pairs_get it q"
    using assms(1) by (auto simp: build_spec_def)
  have d1: "distinct (map fst it)" using pf by (rule prefix_free_distinct)
  have d2: "distinct (map fst (level_pairs f))"
    using level_pairs_prefix_free[OF ok] by (rule prefix_free_distinct)
  have "(q, v) \<in> set (level_pairs f) \<longleftrightarrow> (q, v) \<in> set it" for q v
  proof (cases "q = []")
    case True
    then show ?thesis using assms(2) level_pairs_get[OF ok] by (force simp: rev_image_eqI)
  next
    case False
    have "pairs_get it q = Val v \<longleftrightarrow> map_of it q = Some v"
      by (auto simp: pairs_get_def split: option.splits)
    then show ?thesis
      using level_pairs_get[OF ok, of q v] get[OF False] d1 by (simp add: map_of_eq_Some_iff)
  qed
  then have "set (level_pairs f) = set it" by auto
  then show ?thesis using d1 d2 by (metis distinct_map set_eq_iff_mset_eq_distinct)
qed

lemma pairs_get_mset:
  assumes "mset ps = mset qs" "distinct (map fst ps)"
  shows "pairs_get ps q = pairs_get qs q"
proof -
  have "set ps = set qs" using assms(1) by (rule mset_eq_setD)
  moreover have "distinct (map fst qs)"
    using assms by (metis mset_eq_imp_distinct_iff mset_map)
  ultimately have "map_of ps = map_of qs" using assms(2) by (metis map_of_inject_set)
  then show ?thesis using \<open>set ps = set qs\<close> by (simp only: pairs_get_def)
qed

definition trie_holds :: "('k :: linorder list \<times> 'v) list \<Rightarrow> (string + ('k, 'v) trie) \<Rightarrow> bool" where
  "trie_holds it r \<longleftrightarrow>
     (case r of
        Inl _ \<Rightarrow> \<not> prefix_free (map fst it)
      | Inr t \<Rightarrow> prefix_free (map fst it) \<and> trie_len t = length it \<and>
          (trie_is_empty t \<longleftrightarrow> it = []) \<and>
          (\<forall>q. trie_get t q = Some (if q = [] then Missing else pairs_get it q)) \<and>
          (\<exists>ps. trie_pairs t = Some ps \<and> mset ps = mset it))"

lemma trie_from_iter_holds:
  assumes "[] \<notin> fst ` set it" shows "\<exists>r. trie_from_iter it = Some r \<and> trie_holds it r"
proof -
  obtain r where r: "trie_from_iter it = Some r" and spec: "case r of
       Inl _ \<Rightarrow> \<not> prefix_free (map fst it) | Inr t \<Rightarrow> \<exists>f. trie_rep t f \<and> build_spec it (Inr f)"
    using trie_from_iter_rep[OF assms] by blast
  have "trie_holds it r"
  proof (cases r)
    case (Inl e)
    then show ?thesis using spec by (simp add: trie_holds_def)
  next
    case (Inr t)
    then obtain f where f: "trie_rep t f" "build_spec it (Inr f)" using spec by auto
    have "trie_len t = length it"
      using f by (simp add: trie_rep_def build_spec_def trie_len_def leaf_count_def filter_map comp_def)
    then show ?thesis
      using f Inr trie_get_rep[OF f(1)] trie_pairs_rep[OF f(1)] level_pairs_mset[OF f(2) assms]
      by (simp add: trie_holds_def build_spec_def trie_is_empty_def trie_rep_def)
  qed
  then show ?thesis using r by blast
qed

lemma trie_holds_mset:
  "trie_holds ps r \<Longrightarrow> mset ps = mset qs \<Longrightarrow> trie_holds qs r"
  using pairs_get_mset[of ps qs] prefix_free_distinct[of "map fst ps"]
    prefix_free_mset[of "map fst ps" "map fst qs"] mset_eq_length[of ps qs]
  by (auto simp: trie_holds_def split: sum.splits)

subsection \<open>Merging\<close>

lemma trie_merge_holds:
  assumes "trie_holds a (Inr ta)" "trie_holds b (Inr tb)" "[] \<notin> fst ` set a" "[] \<notin> fst ` set b"
  shows "\<exists>r. trie_merge ta tb = Some r \<and> trie_holds (a @ b) r"
proof (cases "trie_is_empty ta \<or> trie_is_empty tb")
  case True
  then show ?thesis using assms by (auto simp: trie_merge_def trie_holds_def)
next
  case False
  obtain ps qs where p: "trie_pairs ta = Some ps" "mset ps = mset a"
    and q: "trie_pairs tb = Some qs" "mset qs = mset b"
    using assms(1,2) by (auto simp: trie_holds_def)
  have "[] \<notin> fst ` set (ps @ qs)"
    using assms(3,4) mset_eq_setD[OF p(2)] mset_eq_setD[OF q(2)] by (simp add: image_Un)
  then obtain r where r: "trie_from_iter (ps @ qs) = Some r" "trie_holds (ps @ qs) r"
    using trie_from_iter_holds by blast
  have "mset (ps @ qs) = mset (a @ b)" using p(2) q(2) by simp
  then show ?thesis
    using False p(1) q(1) r(1) trie_holds_mset[OF r(2)] by (simp add: trie_merge_def)
qed

text \<open>The pairs of the second list, and those of the first whose key the second lacks.\<close>

definition override :: "('k \<times> 'v) list \<Rightarrow> ('k \<times> 'v) list \<Rightarrow> ('k \<times> 'v) list" where
  "override a b = filter (\<lambda>(k, _). k \<notin> fst ` set b) a @ b"

lemma override_distinct:
  "distinct (map fst a) \<Longrightarrow> distinct (map fst b) \<Longrightarrow> distinct (map fst (override a b))"
  by (auto simp: override_def distinct_map_filter) (metis fst_conv image_eqI)

lemma map_of_filter_key:
  "map_of (filter (\<lambda>(k, _). P k) a) q = (if P q then map_of a q else None)"
  by (induction a) auto

lemma override_map_of: "map_of (override a b) = map_of a ++ map_of b"
proof
  fix q
  show "map_of (override a b) q = (map_of a ++ map_of b) q"
  proof (cases "map_of b q")
    case None
    then have "q \<notin> fst ` set b" by (simp add: map_of_eq_None_iff)
    then show ?thesis
      using None map_of_filter_key[of "\<lambda>k. k \<notin> fst ` set b" a q]
      by (simp add: override_def map_of_append map_add_def split: option.splits)
  next
    case (Some v)
    then have "q \<in> fst ` set b" by (auto dest: map_of_SomeD intro: rev_image_eqI)
    then show ?thesis
      using Some map_of_filter_key[of "\<lambda>k. k \<notin> fst ` set b" a q]
      by (simp add: override_def map_of_append map_add_def)
  qed
qed

lemma mset_map_of_eq:
  assumes "distinct (map fst ps)" "distinct (map fst qs)" "map_of ps = map_of qs"
  shows "mset ps = mset qs"
  using assms by (metis distinct_map map_of_inject_set set_eq_iff_mset_eq_distinct)

lemma trie_merge_overriding_holds:
  assumes "trie_holds a (Inr ta)" "trie_holds b (Inr tb)" "[] \<notin> fst ` set a" "[] \<notin> fst ` set b"
  shows "\<exists>r. trie_merge_overriding ta tb = Some r \<and> trie_holds (override a b) r"
proof (cases "trie_is_empty ta \<or> trie_is_empty tb")
  case True
  then show ?thesis using assms by (auto simp: trie_merge_overriding_def trie_holds_def override_def)
next
  case False
  obtain ps qs where p: "trie_pairs ta = Some ps" "mset ps = mset a"
    and q: "trie_pairs tb = Some qs" "mset qs = mset b"
    using assms(1,2) by (auto simp: trie_holds_def)
  have da: "distinct (map fst a)" and db: "distinct (map fst b)"
    using assms(1,2) prefix_free_distinct by (auto simp: trie_holds_def)
  have dp: "distinct (map fst ps)" using da p(2) by (metis mset_eq_imp_distinct_iff mset_map)
  have dq: "distinct (map fst qs)" using db q(2) by (metis mset_eq_imp_distinct_iff mset_map)
  define m where "m = btree_extend (btree_extend [] ps) qs"
  have s1: "sorted_wrt (<) (map fst (btree_extend [] ps))" and
    m1: "map_of (btree_extend [] ps) = map_of ps"
    using btree_extend[of "[]" ps] map_of_rev[OF dp] by auto
  have sm: "sorted_wrt (<) (map fst m)" and mm: "map_of m = map_of ps ++ map_of qs"
    using btree_extend[OF s1, of qs] m1 map_of_rev[OF dq] by (auto simp: m_def)
  have "map_of ps = map_of a" "map_of qs = map_of b"
    using p(2) q(2) da db dp dq by (metis map_of_inject_set mset_eq_setD)+
  then have "map_of m = map_of (override a b)" using mm by (simp add: override_map_of)
  then have "mset m = mset (override a b)"
    using strict_sorted_distinct[OF sm] override_distinct[OF da db] by (intro mset_map_of_eq)
  then have eq: "mset m = mset (override a b)" .
  have "[] \<notin> fst ` set m"
    using mset_eq_setD[OF eq] assms(3,4) by (auto simp: override_def)
  then obtain r where r: "trie_from_iter m = Some r" "trie_holds m r"
    using trie_from_iter_holds by blast
  then show ?thesis
    using False p(1) q(1) trie_holds_mset[OF r(2) eq] m_def
    by (simp add: trie_merge_overriding_def Let_def)
qed

subsection \<open>Properties\<close>

text \<open>
  C12: A trie is built from pairs exactly when no key is equal to or a prefix of another;
  then it has as many entries as there are pairs, and a lookup returns the value of a key,
  \<open>Partial\<close> for a proper prefix of a key and \<open>Missing\<close> for anything else, so that
  the exact lookup is the lookup in the pairs.
\<close>

theorem trie_from_iter_lookup:
  assumes "[] \<notin> fst ` set it"
  shows "\<exists>r. trie_from_iter it = Some r \<and>
    (case r of
       Inl _ \<Rightarrow> \<not> prefix_free (map fst it)
     | Inr t \<Rightarrow> prefix_free (map fst it) \<and> trie_len t = length it \<and>
         (\<forall>q. trie_get t q = Some (if q = [] then Missing else pairs_get it q)) \<and>
         (\<forall>q. trie_get_exact t q = Some (map_of it q)))"
proof -
  obtain r where r: "trie_from_iter it = Some r" "trie_holds it r"
    using trie_from_iter_holds[OF assms] by blast
  have "query_to_option (pairs_get it q) = map_of it q" for q
    by (auto simp: pairs_get_def split: option.splits)
  moreover have "map_of it [] = None" using assms by (simp add: map_of_eq_None_iff)
  ultimately show ?thesis
    using r by (auto simp: trie_holds_def trie_get_exact_def split: sum.splits)
qed

theorem trie_from_iter_lookup_witness:
  "\<exists>r. trie_from_iter [([1, 2], 10), ([1, 3 :: nat], 20 :: nat), ([4], 30)] = Some r \<and>
    (case r of
       Inl _ \<Rightarrow> \<not> prefix_free [[1, 2], [1, 3 :: nat], [4]]
     | Inr t \<Rightarrow> trie_get t [1] = Some Partial \<and> trie_get t [1, 3] = Some (Val 20) \<and>
         trie_get t [4, 4] = Some Missing \<and> trie_get_exact t [4] = Some (Some 30))"
  using trie_from_iter_lookup[of "[([1, 2], 10), ([1, 3 :: nat], 20 :: nat), ([4], 30)]"]
  by (auto simp: pairs_get_def strict_prefix_def split: sum.splits)

text \<open>
  C13: Merging two tries succeeds exactly when the keys of both together are prefix free,
  and the result is a trie of the pairs of both.
\<close>

theorem trie_merge_union:
  assumes "trie_from_iter a = Some (Inr ta)" "trie_from_iter b = Some (Inr tb)"
    and "[] \<notin> fst ` set a" "[] \<notin> fst ` set b"
  shows "\<exists>r. trie_merge ta tb = Some r \<and>
    (case r of
       Inl _ \<Rightarrow> \<not> prefix_free (map fst (a @ b))
     | Inr t \<Rightarrow> prefix_free (map fst (a @ b)) \<and> trie_len t = trie_len ta + trie_len tb \<and>
         (\<forall>q. q \<noteq> [] \<longrightarrow> trie_get t q = Some (pairs_get (a @ b) q)) \<and>
         (\<exists>ps. trie_pairs t = Some ps \<and> mset ps = mset (a @ b)))"
proof -
  have h: "trie_holds a (Inr ta)" "trie_holds b (Inr tb)"
    using trie_from_iter_holds[OF assms(3)] trie_from_iter_holds[OF assms(4)] assms(1,2) by auto
  obtain r where r: "trie_merge ta tb = Some r" "trie_holds (a @ b) r"
    using trie_merge_holds[OF h assms(3,4)] by blast
  then show ?thesis using h by (auto simp: trie_holds_def split: sum.splits)
qed

definition trie_of :: "('k :: linorder list \<times> 'v) list \<Rightarrow> ('k, 'v) trie" where
  "trie_of it = (case trie_from_iter it of Some (Inr t) \<Rightarrow> t | _ \<Rightarrow> trie_default)"

lemma trie_of: "prefix_free (map fst it) \<Longrightarrow> [] \<notin> fst ` set it \<Longrightarrow> trie_from_iter it = Some (Inr (trie_of it))"
proof -
  assume a: "prefix_free (map fst it)" "[] \<notin> fst ` set it"
  obtain r where r: "trie_from_iter it = Some r" "trie_holds it r"
    using trie_from_iter_holds[OF a(2)] by blast
  then obtain t where "r = Inr t" using a(1) by (cases r) (auto simp: trie_holds_def)
  then show ?thesis using r(1) by (simp add: trie_of_def)
qed

theorem trie_merge_union_witness:
  "\<exists>r. trie_merge (trie_of [([1 :: nat, 2], 10 :: nat)]) (trie_of [([1, 3], 20)]) = Some r \<and>
    (case r of Inl _ \<Rightarrow> False | Inr t \<Rightarrow> trie_get t [1, 3] = Some (Val 20))"
proof -
  have pf: "prefix_free [[1 :: nat, 2], [1, 3]]" by (simp add: prefix_free_def parallel_def)
  then obtain r where "trie_merge (trie_of [([1 :: nat, 2], 10 :: nat)]) (trie_of [([1, 3], 20)]) = Some r"
    "case r of Inl _ \<Rightarrow> False
     | Inr t \<Rightarrow> \<forall>q. q \<noteq> [] \<longrightarrow> trie_get t q = Some (pairs_get [([1 :: nat, 2], 10 :: nat), ([1, 3], 20)] q)"
    using trie_merge_union[of "[([1 :: nat, 2], 10 :: nat)]" "trie_of [([1 :: nat, 2], 10 :: nat)]"
        "[([1, 3], 20)]" "trie_of [([1, 3], 20)]"]
      trie_of[of "[([1 :: nat, 2], 10 :: nat)]"] trie_of[of "[([1 :: nat, 3], 20 :: nat)]"]
    by (fastforce simp: prefix_free_def split: sum.splits)
  then show ?thesis by (auto simp: pairs_get_def split: sum.splits)
qed

text \<open>
  Merging with \<open>merge_overriding\<close> keeps the pairs of the second trie and those of the
  first whose keys the second does not have; it fails exactly when these keys are not
  prefix free.
\<close>

theorem trie_merge_overriding_map:
  assumes "trie_from_iter a = Some (Inr ta)" "trie_from_iter b = Some (Inr tb)"
    and "[] \<notin> fst ` set a" "[] \<notin> fst ` set b"
  shows "\<exists>r. trie_merge_overriding ta tb = Some r \<and>
    (case r of
       Inl _ \<Rightarrow> \<not> prefix_free (map fst (override a b))
     | Inr t \<Rightarrow> prefix_free (map fst (override a b)) \<and>
         (\<forall>q. trie_get_exact t q = Some ((map_of a ++ map_of b) q)))"
proof -
  have h: "trie_holds a (Inr ta)" "trie_holds b (Inr tb)"
    using trie_from_iter_holds[OF assms(3)] trie_from_iter_holds[OF assms(4)] assms(1,2) by auto
  obtain r where r: "trie_merge_overriding ta tb = Some r" "trie_holds (override a b) r"
    using trie_merge_overriding_holds[OF h assms(3,4)] by blast
  have "query_to_option (pairs_get ps q) = map_of ps q" for ps :: "('a list \<times> 'b) list" and q
    by (auto simp: pairs_get_def split: option.splits)
  moreover have "map_of a [] = None" "map_of b [] = None"
    using assms(3,4) by (simp_all add: map_of_eq_None_iff)
  ultimately show ?thesis
    using r by (auto simp: trie_holds_def trie_get_exact_def override_map_of[symmetric] split: sum.splits)
      (simp_all add: override_map_of map_add_def)
qed

theorem trie_merge_overriding_map_witness:
  "\<exists>r. trie_merge_overriding (trie_of [([1 :: nat, 2], 10 :: nat), ([3], 5)]) (trie_of [([1, 2], 20)]) = Some r \<and>
    (case r of Inl _ \<Rightarrow> False
     | Inr t \<Rightarrow> trie_get_exact t [1, 2] = Some (Some 20) \<and> trie_get_exact t [3] = Some (Some 5))"
proof -
  have "prefix_free [[1 :: nat, 2], [3]]" "prefix_free [[3], [1 :: nat, 2]]"
    by (simp_all add: prefix_free_def parallel_def)
  then show ?thesis
    using trie_merge_overriding_map[of "[([1 :: nat, 2], 10 :: nat), ([3], 5)]"
        "trie_of [([1 :: nat, 2], 10 :: nat), ([3], 5)]" "[([1, 2], 20)]" "trie_of [([1, 2], 20)]"]
      trie_of[of "[([1 :: nat, 2], 10 :: nat), ([3], 5)]"] trie_of[of "[([1 :: nat, 2], 20 :: nat)]"]
    by (auto simp: prefix_free_def override_def split: sum.splits)
qed

end
