(* ===== verification/NinepProtocol.thy ===== *)
theory NinepProtocol
  imports Utf8
begin

text \<open>
  The 9P wire format of crates/ninep/src/sansio/protocol.rs: how values are written into a
  buffer and read back from a stream of bytes. Outcomes are \<^const>\<open>None\<close> for a panic (a slice
  out of range, a failed subtraction), \<^const>\<open>Inl\<close> for an error value and \<^const>\<open>Inr\<close> otherwise.

  A value is read by a coroutine that asks for a number of bytes at a time. It is driven in
  two ways: from a stream, where a missing byte is an error, and by \<open>parse_from_buffer\<close> inside
  a message that has already arrived, where the bytes are sliced out of the message and a
  missing byte is a panic. The flag \<open>stream\<close> tells them apart.
\<close>

definition MAX_SIZE_FIELD :: nat where "MAX_SIZE_FIELD = 2 ^ 16 - 1"
definition MAX_DATA_SIZE_FIELD :: nat where "MAX_DATA_SIZE_FIELD = 2 ^ 32 - 1"
definition MAX_DATA_LEN :: nat where "MAX_DATA_LEN = 32 * 1024 * 1024"

datatype write_error = DataLength nat | FieldLength nat

datatype read_error = UnexpectedEof | InvalidData

type_synonym write_result = "(write_error + u8 list) option"
type_synonym 'a read_result = "(read_error + 'a \<times> u8 list) option"

subsection \<open>The trait NineP\<close>

record 'a ninep =
  n_bytes :: "'a \<Rightarrow> nat"
  write_bytes :: "'a \<Rightarrow> u8 list \<Rightarrow> write_result"
  read_9p :: "bool \<Rightarrow> u8 list \<Rightarrow> 'a read_result"

definition write_9p_bytes :: "'a ninep \<Rightarrow> 'a \<Rightarrow> write_result" where
  "write_9p_bytes np x = write_bytes np x (replicate (n_bytes np x) 0)"

definition read_from :: "'a ninep \<Rightarrow> u8 list \<Rightarrow> 'a read_result" where
  "read_from np = read_9p np True"

definition parse_from_buffer :: "'a ninep \<Rightarrow> u8 list \<Rightarrow> 'a read_result" where
  "parse_from_buffer np = read_9p np False"

definition as_slice_to :: "bool \<Rightarrow> nat \<Rightarrow> u8 list \<Rightarrow> u8 list read_result" where
  "as_slice_to stream n bs =
     (if n \<le> length bs then Some (Inr (take n bs, drop n bs))
      else if stream then Some (Inl UnexpectedEof) else None)"

text \<open>\<open>w\<close> writes into \<open>&mut buf[i..]\<close>, or into \<open>&mut buf[..n]\<close>.\<close>

definition write_from :: "nat \<Rightarrow> (u8 list \<Rightarrow> write_result) \<Rightarrow> u8 list \<Rightarrow> write_result" where
  "write_from i w buf =
     (if i \<le> length buf
      then try_bind (w (drop i buf)) (\<lambda>b. Some (Inr (take i buf @ b)))
      else None)"

definition write_to :: "nat \<Rightarrow> (u8 list \<Rightarrow> write_result) \<Rightarrow> u8 list \<Rightarrow> write_result" where
  "write_to n w buf =
     (if n \<le> length buf
      then try_bind (w (take n buf)) (\<lambda>b. Some (Inr (b @ drop n buf)))
      else None)"

subsection \<open>Unsigned integers\<close>

fun le_bytes_of :: "nat \<Rightarrow> nat \<Rightarrow> u8 list" where
  "le_bytes_of 0 x = []"
| "le_bytes_of (Suc n) x = of_nat (x mod 256) # le_bytes_of n (x div 256)"

fun le_nat :: "u8 list \<Rightarrow> nat" where
  "le_nat [] = 0"
| "le_nat (b # bs) = unat b + 256 * le_nat bs"

text \<open>\<open>to_le_bytes\<close> and \<open>from_le_bytes\<close>.\<close>

definition to_le_bytes :: "nat \<Rightarrow> 'a :: len word \<Rightarrow> u8 list" where
  "to_le_bytes n x = le_bytes_of n (unat x)"

definition from_le_bytes :: "nat \<Rightarrow> u8 list \<Rightarrow> 'a :: len word" where
  "from_le_bytes n bs = of_nat (le_nat (take n bs))"

definition np_uint :: "nat \<Rightarrow> 'a :: len word ninep" where
  "np_uint n =
     \<lparr>n_bytes = (\<lambda>_. n),
      write_bytes = (\<lambda>x buf. if n \<le> length buf then Some (Inr (to_le_bytes n x @ drop n buf)) else None),
      read_9p = (\<lambda>stream bs. try_bind (as_slice_to stream n bs)
        (\<lambda>(b, bs). Some (Inr (from_le_bytes n b, bs))))\<rparr>"

definition np_u8 :: "u8 ninep" where "np_u8 = np_uint 1"
definition np_u16 :: "u16 ninep" where "np_u16 = np_uint 2"
definition np_u32 :: "u32 ninep" where "np_u32 = np_uint 4"
definition np_u64 :: "u64 ninep" where "np_u64 = np_uint 8"

subsection \<open>Strings, vectors and data\<close>

definition string_n_bytes :: "ustr \<Rightarrow> nat" where
  "string_n_bytes s = 2 + blen s"

definition string_write_bytes :: "ustr \<Rightarrow> u8 list \<Rightarrow> write_result" where
  "string_write_bytes s buf =
     (let len = blen s
      in if MAX_SIZE_FIELD < len then Some (Inl (FieldLength len))
         else try_bind (write_to 2 (write_bytes np_u16 (of_nat len)) buf)
           (\<lambda>buf. map_option Inr (if len + 2 \<le> length buf then copy_from_slice buf 2 (utf8 s) else None)))"

definition string_read_9p :: "bool \<Rightarrow> u8 list \<Rightarrow> ustr read_result" where
  "string_read_9p stream bs =
     try_bind (read_9p np_u16 stream bs) (\<lambda>(len, bs).
     try_bind (as_slice_to stream (unat len) bs) (\<lambda>(data, bs).
       case from_utf8 data of
         None \<Rightarrow> Some (Inl InvalidData)
       | Some s \<Rightarrow> Some (Inr (s, bs))))"

definition np_string :: "ustr ninep" where
  "np_string = \<lparr>n_bytes = string_n_bytes, write_bytes = string_write_bytes, read_9p = string_read_9p\<rparr>"

fun write_elems :: "'a ninep \<Rightarrow> 'a list \<Rightarrow> u8 list \<Rightarrow> write_result" where
  "write_elems np [] buf = Some (Inr buf)"
| "write_elems np (t # ts) buf =
     (let n = n_bytes np t
      in try_bind (write_bytes np t buf) (\<lambda>buf. write_from n (write_elems np ts) buf))"

fun read_elems :: "'a ninep \<Rightarrow> bool \<Rightarrow> nat \<Rightarrow> u8 list \<Rightarrow> 'a list read_result" where
  "read_elems np stream 0 bs = Some (Inr ([], bs))"
| "read_elems np stream (Suc n) bs =
     try_bind (read_9p np stream bs) (\<lambda>(t, bs).
     try_bind (read_elems np stream n bs) (\<lambda>(ts, bs). Some (Inr (t # ts, bs))))"

definition vec_write_bytes :: "'a ninep \<Rightarrow> 'a list \<Rightarrow> u8 list \<Rightarrow> write_result" where
  "vec_write_bytes np ts buf =
     (let n = sum_list (map (n_bytes np) ts)
      in if MAX_SIZE_FIELD < n then Some (Inl (FieldLength n))
         else try_bind (write_to 2 (write_bytes np_u16 (of_nat (length ts))) buf)
           (\<lambda>buf. write_from 2 (write_elems np ts) buf))"

definition vec_read_9p :: "'a ninep \<Rightarrow> bool \<Rightarrow> u8 list \<Rightarrow> 'a list read_result" where
  "vec_read_9p np stream bs =
     try_bind (read_9p np_u16 stream bs) (\<lambda>(len, bs). read_elems np stream (unat len) bs)"

definition np_vec :: "'a ninep \<Rightarrow> 'a list ninep" where
  "np_vec np =
     \<lparr>n_bytes = (\<lambda>ts. 2 + sum_list (map (n_bytes np) ts)),
      write_bytes = vec_write_bytes np, read_9p = vec_read_9p np\<rparr>"

text \<open>\<open>buf[4..].copy_from_slice(..)\<close> panics when the lengths differ.\<close>

definition data_write_bytes :: "u8 list \<Rightarrow> u8 list \<Rightarrow> write_result" where
  "data_write_bytes d buf =
     (let n = length d
      in if MAX_DATA_SIZE_FIELD < n then Some (Inl (DataLength n))
         else try_bind (write_to 4 (write_bytes np_u32 (of_nat n)) buf)
           (\<lambda>buf. write_from 4 (\<lambda>b. if length b = n then Some (Inr d) else None) buf))"

definition data_read_9p :: "bool \<Rightarrow> u8 list \<Rightarrow> u8 list read_result" where
  "data_read_9p stream bs =
     try_bind (read_9p np_u32 stream bs) (\<lambda>(len, bs).
       if MAX_DATA_LEN < unat len then Some (Inl InvalidData)
       else as_slice_to stream (unat len) bs)"

definition np_data :: "u8 list ninep" where
  "np_data = \<lparr>n_bytes = (\<lambda>d. 4 + length d), write_bytes = data_write_bytes, read_9p = data_read_9p\<rparr>"

subsection \<open>Records\<close>

text \<open>A field that is about to be written: its length and its \<open>write_bytes\<close>.\<close>

type_synonym writer = "nat \<times> (u8 list \<Rightarrow> write_result)"

definition writer :: "'a ninep \<Rightarrow> 'a \<Rightarrow> writer" where
  "writer np x = (n_bytes np x, write_bytes np x)"

text \<open>The macro \<open>write_fields!\<close>.\<close>

fun write_fields :: "writer list \<Rightarrow> u8 list \<Rightarrow> write_result" where
  "write_fields [] buf = Some (Inr buf)"
| "write_fields ((len, w) # ws) buf =
     try_bind (write_to len w buf) (\<lambda>buf. write_from len (write_fields ws) buf)"

record qid =
  q_ty :: u8
  q_version :: u32
  q_path :: u64

definition qid_from_bytes :: "u8 list \<Rightarrow> qid" where
  "qid_from_bytes bytes =
     \<lparr>q_ty = from_le_bytes 1 bytes, q_version = from_le_bytes 4 (drop 1 bytes),
      q_path = from_le_bytes 8 (drop 5 bytes)\<rparr>"

definition qid_writers :: "qid \<Rightarrow> writer list" where
  "qid_writers q = [writer np_u8 (q_ty q), writer np_u32 (q_version q), writer np_u64 (q_path q)]"

definition qid_read_9p :: "bool \<Rightarrow> u8 list \<Rightarrow> qid read_result" where
  "qid_read_9p stream bs =
     try_bind (read_9p np_u8 stream bs) (\<lambda>(ty, bs).
     try_bind (read_9p np_u32 stream bs) (\<lambda>(version, bs).
     try_bind (read_9p np_u64 stream bs) (\<lambda>(path, bs).
       Some (Inr (\<lparr>q_ty = ty, q_version = version, q_path = path\<rparr>, bs)))))"

definition np_qid :: "qid ninep" where
  "np_qid =
     \<lparr>n_bytes = (\<lambda>_. 1 + 4 + 8), write_bytes = (\<lambda>q. write_fields (qid_writers q)),
      read_9p = qid_read_9p\<rparr>"

record raw_stat =
  rs_size :: u16
  rs_ty :: u16
  rs_dev :: u32
  rs_qid :: qid
  rs_mode :: u32
  rs_atime :: u32
  rs_mtime :: u32
  rs_length :: u64
  rs_name :: ustr
  rs_uid :: ustr
  rs_gid :: ustr
  rs_muid :: ustr

definition raw_stat_n_bytes :: "raw_stat \<Rightarrow> nat" where
  "raw_stat_n_bytes r =
     41 + n_bytes np_string (rs_name r) + n_bytes np_string (rs_uid r) +
     n_bytes np_string (rs_gid r) + n_bytes np_string (rs_muid r)"

definition raw_stat_writers :: "raw_stat \<Rightarrow> writer list" where
  "raw_stat_writers r =
     [writer np_u16 (rs_size r), writer np_u16 (rs_ty r), writer np_u32 (rs_dev r),
      writer np_qid (rs_qid r), writer np_u32 (rs_mode r), writer np_u32 (rs_atime r),
      writer np_u32 (rs_mtime r), writer np_u64 (rs_length r), writer np_string (rs_name r),
      writer np_string (rs_uid r), writer np_string (rs_gid r), writer np_string (rs_muid r)]"

definition raw_stat_read_9p :: "bool \<Rightarrow> u8 list \<Rightarrow> raw_stat read_result" where
  "raw_stat_read_9p stream bs =
     try_bind (as_slice_to stream 41 bs) (\<lambda>(bytes, bs).
     try_bind (read_9p np_string stream bs) (\<lambda>(name, bs).
     try_bind (read_9p np_string stream bs) (\<lambda>(uid, bs).
     try_bind (read_9p np_string stream bs) (\<lambda>(gid, bs).
     try_bind (read_9p np_string stream bs) (\<lambda>(muid, bs).
       Some (Inr (\<lparr>rs_size = from_le_bytes 2 bytes, rs_ty = from_le_bytes 2 (drop 2 bytes),
         rs_dev = from_le_bytes 4 (drop 4 bytes), rs_qid = qid_from_bytes (drop 8 bytes),
         rs_mode = from_le_bytes 4 (drop 21 bytes), rs_atime = from_le_bytes 4 (drop 25 bytes),
         rs_mtime = from_le_bytes 4 (drop 29 bytes), rs_length = from_le_bytes 8 (drop 33 bytes),
         rs_name = name, rs_uid = uid, rs_gid = gid, rs_muid = muid\<rparr>, bs)))))))"

definition np_raw_stat :: "raw_stat ninep" where
  "np_raw_stat =
     \<lparr>n_bytes = raw_stat_n_bytes, write_bytes = (\<lambda>r. write_fields (raw_stat_writers r)),
      read_9p = raw_stat_read_9p\<rparr>"

lemma as_slice_to_length:
  "as_slice_to stream n bs = Some (Inr (x, bs')) \<Longrightarrow> length bs = length bs' + n"
  by (auto simp: as_slice_to_def split: if_splits)

lemma string_read_9p_length:
  "read_9p np_string stream bs = Some (Inr (s, bs')) \<Longrightarrow> length bs' \<le> length bs"
  by (auto simp: np_string_def string_read_9p_def np_u16_def np_uint_def try_bind_Inr
      split: option.splits dest!: as_slice_to_length)

lemma raw_stat_read_9p_length:
  "read_from np_raw_stat bs = Some (Inr (rs, bs')) \<Longrightarrow> length bs' < length bs"
  by (auto simp: read_from_def np_raw_stat_def raw_stat_read_9p_def try_bind_Inr
      dest!: as_slice_to_length string_read_9p_length)

text \<open>
  \<open>TryFrom<Data> for Vec<RawStat>\<close>. The size of the type in memory, by which the code skips
  after each entry, is the parameter \<open>size_of\<close>.
\<close>

function stats_from_data :: "nat \<Rightarrow> u8 list \<Rightarrow> (read_error + raw_stat list) option" where
  "stats_from_data size_of bytes =
     (case read_from np_raw_stat bytes of
        None \<Rightarrow> None
      | Some (Inl UnexpectedEof) \<Rightarrow> Some (Inr [])
      | Some (Inl e) \<Rightarrow> Some (Inl e)
      | Some (Inr (rs, bytes')) \<Rightarrow>
          if size_of \<le> length bytes' then
            try_bind (stats_from_data size_of (drop size_of bytes')) (\<lambda>rest. Some (Inr (rs # rest)))
          else None)"
  by pat_completeness auto
termination by (relation "measure (\<lambda>(_, bs). length bs)") (auto dest!: raw_stat_read_9p_length)

end
