(* ===== verification/NinepMessages.thy ===== *)
theory NinepMessages
  imports NinepProtocol
begin

text \<open>
  The messages of 9P: the enums \<open>Tdata\<close> and \<open>Rdata\<close>, and what the macro
  \<open>impl_message_format!\<close> of crates/ninep/src/sansio/protocol.rs generates for them.
\<close>

datatype tdata =
    TVersion (t_msize: u32) (t_version: ustr)
  | TAuth (t_afid: u32) (t_uname: ustr) (t_aname: ustr)
  | TAttach (t_fid: u32) (t_afid: u32) (t_uname: ustr) (t_aname: ustr)
  | TFlush (t_old_tag: u16)
  | TWalk (t_fid: u32) (t_new_fid: u32) (t_wnames: "ustr list")
  | TOpen (t_fid: u32) (t_mode: u8)
  | TCreate (t_fid: u32) (t_name: ustr) (t_perm: u32) (t_mode: u8)
  | TRead (t_fid: u32) (t_offset: u64) (t_count: u32)
  | TWrite (t_fid: u32) (t_offset: u64) (t_data: "u8 list")
  | TClunk (t_fid: u32)
  | TRemove (t_fid: u32)
  | TStat (t_fid: u32)
  | TWstat (t_fid: u32) (t_size: u16) (t_stat: raw_stat)

datatype rdata =
    RVersion u32 ustr
  | RAuth qid
  | RError ustr
  | RAttach qid
  | RFlush
  | RWalk "qid list"
  | ROpen qid u32
  | RCreate qid u32
  | RRead "u8 list"
  | RWrite u32
  | RClunk
  | RRemove
  | RStat u16 raw_stat
  | RWstat

record tmessage =
  tm_tag :: u16
  tm_content :: tdata

record rmessage =
  rm_tag :: u16
  rm_content :: rdata

subsection \<open>Message types\<close>

fun tdata_type :: "tdata \<Rightarrow> u8" where
  "tdata_type (TVersion _ _) = 100"
| "tdata_type (TAuth _ _ _) = 102"
| "tdata_type (TAttach _ _ _ _) = 104"
| "tdata_type (TFlush _) = 108"
| "tdata_type (TWalk _ _ _) = 110"
| "tdata_type (TOpen _ _) = 112"
| "tdata_type (TCreate _ _ _ _) = 114"
| "tdata_type (TRead _ _ _) = 116"
| "tdata_type (TWrite _ _ _) = 118"
| "tdata_type (TClunk _) = 120"
| "tdata_type (TRemove _) = 122"
| "tdata_type (TStat _) = 124"
| "tdata_type (TWstat _ _ _) = 126"

fun rdata_type :: "rdata \<Rightarrow> u8" where
  "rdata_type (RVersion _ _) = 101"
| "rdata_type (RAuth _) = 103"
| "rdata_type (RAttach _) = 105"
| "rdata_type (RError _) = 107"
| "rdata_type RFlush = 109"
| "rdata_type (RWalk _) = 111"
| "rdata_type (ROpen _ _) = 113"
| "rdata_type (RCreate _ _) = 115"
| "rdata_type (RRead _) = 117"
| "rdata_type (RWrite _) = 119"
| "rdata_type RClunk = 121"
| "rdata_type RRemove = 123"
| "rdata_type (RStat _ _) = 125"
| "rdata_type RWstat = 127"

subsection \<open>Writing\<close>

text \<open>The fields of each variant in the order in which they are declared.\<close>

fun tdata_writers :: "tdata \<Rightarrow> writer list" where
  "tdata_writers (TVersion msize version) = [writer np_u32 msize, writer np_string version]"
| "tdata_writers (TAuth afid uname aname) =
     [writer np_u32 afid, writer np_string uname, writer np_string aname]"
| "tdata_writers (TAttach fid afid uname aname) =
     [writer np_u32 fid, writer np_u32 afid, writer np_string uname, writer np_string aname]"
| "tdata_writers (TFlush old_tag) = [writer np_u16 old_tag]"
| "tdata_writers (TWalk fid new_fid wnames) =
     [writer np_u32 fid, writer np_u32 new_fid, writer (np_vec np_string) wnames]"
| "tdata_writers (TOpen fid mode) = [writer np_u32 fid, writer np_u8 mode]"
| "tdata_writers (TCreate fid name perm mode) =
     [writer np_u32 fid, writer np_string name, writer np_u32 perm, writer np_u8 mode]"
| "tdata_writers (TRead fid offset count) =
     [writer np_u32 fid, writer np_u64 offset, writer np_u32 count]"
| "tdata_writers (TWrite fid offset data) =
     [writer np_u32 fid, writer np_u64 offset, writer np_data data]"
| "tdata_writers (TClunk fid) = [writer np_u32 fid]"
| "tdata_writers (TRemove fid) = [writer np_u32 fid]"
| "tdata_writers (TStat fid) = [writer np_u32 fid]"
| "tdata_writers (TWstat fid sz stat) =
     [writer np_u32 fid, writer np_u16 sz, writer np_raw_stat stat]"

fun rdata_writers :: "rdata \<Rightarrow> writer list" where
  "rdata_writers (RVersion msize version) = [writer np_u32 msize, writer np_string version]"
| "rdata_writers (RAuth aqid) = [writer np_qid aqid]"
| "rdata_writers (RError ename) = [writer np_string ename]"
| "rdata_writers (RAttach aqid) = [writer np_qid aqid]"
| "rdata_writers RFlush = []"
| "rdata_writers (RWalk wqids) = [writer (np_vec np_qid) wqids]"
| "rdata_writers (ROpen qid iounit) = [writer np_qid qid, writer np_u32 iounit]"
| "rdata_writers (RCreate qid iounit) = [writer np_qid qid, writer np_u32 iounit]"
| "rdata_writers (RRead data) = [writer np_data data]"
| "rdata_writers (RWrite count) = [writer np_u32 count]"
| "rdata_writers RClunk = []"
| "rdata_writers RRemove = []"
| "rdata_writers (RStat sz stat) = [writer np_u16 sz, writer np_raw_stat stat]"
| "rdata_writers RWstat = []"

text \<open>The size of a message: size[4] type[1] tag[2] and the content.\<close>

definition message_n_bytes :: "writer list \<Rightarrow> nat" where
  "message_n_bytes ws = 4 + 1 + 2 + sum_list (map fst ws)"

fun write_content :: "writer list \<Rightarrow> nat \<Rightarrow> u8 list \<Rightarrow> write_result" where
  "write_content [] offset buf = Some (Inr buf)"
| "write_content ((n, w) # ws) offset buf =
     try_bind (write_from offset w buf) (\<lambda>buf. write_content ws (offset + n) buf)"

definition message_write_bytes :: "u8 \<Rightarrow> u16 \<Rightarrow> writer list \<Rightarrow> u8 list \<Rightarrow> write_result" where
  "message_write_bytes ty tag ws buf =
     try_bind (write_bytes np_u32 (of_nat (message_n_bytes ws)) buf) (\<lambda>buf.
     try_bind (write_from 4 (write_bytes np_u8 ty) buf) (\<lambda>buf.
     try_bind (write_from 5 (write_bytes np_u16 tag) buf) (\<lambda>buf.
       write_content ws 7 buf)))"

subsection \<open>Reading\<close>

abbreviation (input) parse where "parse \<equiv> parse_from_buffer"

definition parse_tdata :: "u8 \<Rightarrow> u8 list \<Rightarrow> tdata read_result" where
  "parse_tdata ty bs =
     (if ty = 100 then
        try_bind (parse np_u32 bs) (\<lambda>(msize, bs).
        try_bind (parse np_string bs) (\<lambda>(version, bs). Some (Inr (TVersion msize version, bs))))
      else if ty = 102 then
        try_bind (parse np_u32 bs) (\<lambda>(afid, bs).
        try_bind (parse np_string bs) (\<lambda>(uname, bs).
        try_bind (parse np_string bs) (\<lambda>(aname, bs). Some (Inr (TAuth afid uname aname, bs)))))
      else if ty = 104 then
        try_bind (parse np_u32 bs) (\<lambda>(fid, bs).
        try_bind (parse np_u32 bs) (\<lambda>(afid, bs).
        try_bind (parse np_string bs) (\<lambda>(uname, bs).
        try_bind (parse np_string bs) (\<lambda>(aname, bs). Some (Inr (TAttach fid afid uname aname, bs))))))
      else if ty = 108 then
        try_bind (parse np_u16 bs) (\<lambda>(old_tag, bs). Some (Inr (TFlush old_tag, bs)))
      else if ty = 110 then
        try_bind (parse np_u32 bs) (\<lambda>(fid, bs).
        try_bind (parse np_u32 bs) (\<lambda>(new_fid, bs).
        try_bind (parse (np_vec np_string) bs) (\<lambda>(wnames, bs). Some (Inr (TWalk fid new_fid wnames, bs)))))
      else if ty = 112 then
        try_bind (parse np_u32 bs) (\<lambda>(fid, bs).
        try_bind (parse np_u8 bs) (\<lambda>(mode, bs). Some (Inr (TOpen fid mode, bs))))
      else if ty = 114 then
        try_bind (parse np_u32 bs) (\<lambda>(fid, bs).
        try_bind (parse np_string bs) (\<lambda>(name, bs).
        try_bind (parse np_u32 bs) (\<lambda>(perm, bs).
        try_bind (parse np_u8 bs) (\<lambda>(mode, bs). Some (Inr (TCreate fid name perm mode, bs))))))
      else if ty = 116 then
        try_bind (parse np_u32 bs) (\<lambda>(fid, bs).
        try_bind (parse np_u64 bs) (\<lambda>(offset, bs).
        try_bind (parse np_u32 bs) (\<lambda>(count, bs). Some (Inr (TRead fid offset count, bs)))))
      else if ty = 118 then
        try_bind (parse np_u32 bs) (\<lambda>(fid, bs).
        try_bind (parse np_u64 bs) (\<lambda>(offset, bs).
        try_bind (parse np_data bs) (\<lambda>(data, bs). Some (Inr (TWrite fid offset data, bs)))))
      else if ty = 120 then
        try_bind (parse np_u32 bs) (\<lambda>(fid, bs). Some (Inr (TClunk fid, bs)))
      else if ty = 122 then
        try_bind (parse np_u32 bs) (\<lambda>(fid, bs). Some (Inr (TRemove fid, bs)))
      else if ty = 124 then
        try_bind (parse np_u32 bs) (\<lambda>(fid, bs). Some (Inr (TStat fid, bs)))
      else if ty = 126 then
        try_bind (parse np_u32 bs) (\<lambda>(fid, bs).
        try_bind (parse np_u16 bs) (\<lambda>(size, bs).
        try_bind (parse np_raw_stat bs) (\<lambda>(stat, bs). Some (Inr (TWstat fid size stat, bs)))))
      else Some (Inl InvalidData))"

definition parse_rdata :: "u8 \<Rightarrow> u8 list \<Rightarrow> rdata read_result" where
  "parse_rdata ty bs =
     (if ty = 101 then
        try_bind (parse np_u32 bs) (\<lambda>(msize, bs).
        try_bind (parse np_string bs) (\<lambda>(version, bs). Some (Inr (RVersion msize version, bs))))
      else if ty = 103 then
        try_bind (parse np_qid bs) (\<lambda>(aqid, bs). Some (Inr (RAuth aqid, bs)))
      else if ty = 107 then
        try_bind (parse np_string bs) (\<lambda>(ename, bs). Some (Inr (RError ename, bs)))
      else if ty = 105 then
        try_bind (parse np_qid bs) (\<lambda>(aqid, bs). Some (Inr (RAttach aqid, bs)))
      else if ty = 109 then Some (Inr (RFlush, bs))
      else if ty = 111 then
        try_bind (parse (np_vec np_qid) bs) (\<lambda>(wqids, bs). Some (Inr (RWalk wqids, bs)))
      else if ty = 113 then
        try_bind (parse np_qid bs) (\<lambda>(qid, bs).
        try_bind (parse np_u32 bs) (\<lambda>(iounit, bs). Some (Inr (ROpen qid iounit, bs))))
      else if ty = 115 then
        try_bind (parse np_qid bs) (\<lambda>(qid, bs).
        try_bind (parse np_u32 bs) (\<lambda>(iounit, bs). Some (Inr (RCreate qid iounit, bs))))
      else if ty = 117 then
        try_bind (parse np_data bs) (\<lambda>(data, bs). Some (Inr (RRead data, bs)))
      else if ty = 119 then
        try_bind (parse np_u32 bs) (\<lambda>(count, bs). Some (Inr (RWrite count, bs)))
      else if ty = 121 then Some (Inr (RClunk, bs))
      else if ty = 123 then Some (Inr (RRemove, bs))
      else if ty = 125 then
        try_bind (parse np_u16 bs) (\<lambda>(size, bs).
        try_bind (parse np_raw_stat bs) (\<lambda>(stat, bs). Some (Inr (RStat size stat, bs))))
      else if ty = 127 then Some (Inr (RWstat, bs))
      else Some (Inl InvalidData))"

text \<open>
  A message: its length, then that many bytes, which are parsed without asking for more.
  What the content leaves of them is dropped.
\<close>

definition message_read_9p ::
  "(u8 \<Rightarrow> u8 list \<Rightarrow> 'c read_result) \<Rightarrow> bool \<Rightarrow> u8 list \<Rightarrow> (u16 \<times> 'c) read_result" where
  "message_read_9p parse_content stream bs =
     try_bind (read_9p np_u32 stream bs) (\<lambda>(len, bs).
       case usub (unat len) 4 of
         None \<Rightarrow> None
       | Some n \<Rightarrow>
         try_bind (as_slice_to stream n bs) (\<lambda>(frame, bs).
         try_bind (as_slice_to False 3 frame) (\<lambda>(bytes, frame).
         try_bind (parse_content (from_le_bytes 1 bytes) frame) (\<lambda>(content, _).
           Some (Inr ((from_le_bytes 2 (drop 1 bytes), content), bs))))))"

definition np_tmessage :: "tmessage ninep" where
  "np_tmessage =
     \<lparr>n_bytes = (\<lambda>m. message_n_bytes (tdata_writers (tm_content m))),
      write_bytes = (\<lambda>m. message_write_bytes (tdata_type (tm_content m)) (tm_tag m) (tdata_writers (tm_content m))),
      read_9p = (\<lambda>stream bs. try_bind (message_read_9p parse_tdata stream bs)
        (\<lambda>((tag, content), bs). Some (Inr (\<lparr>tm_tag = tag, tm_content = content\<rparr>, bs))))\<rparr>"

definition np_rmessage :: "rmessage ninep" where
  "np_rmessage =
     \<lparr>n_bytes = (\<lambda>m. message_n_bytes (rdata_writers (rm_content m))),
      write_bytes = (\<lambda>m. message_write_bytes (rdata_type (rm_content m)) (rm_tag m) (rdata_writers (rm_content m))),
      read_9p = (\<lambda>stream bs. try_bind (message_read_9p parse_rdata stream bs)
        (\<lambda>((tag, content), bs). Some (Inr (\<lparr>rm_tag = tag, rm_content = content\<rparr>, bs))))\<rparr>"

end
