(* ===== verification/NinepCodec.thy ===== *)
theory NinepCodec
  imports NinepMessages
begin

text \<open>
  The laws of the wire format as interfaces. A value that fits has an encoding of exactly
  \<open>n_bytes\<close> bytes, writing produces it, and reading it back from any stream that starts with
  it gives the value and leaves the rest. \<open>wire\<close> is the contract of a value that is written
  into a buffer of its exact size, which is all that \<open>Data\<close> keeps; \<open>wire_prefix\<close> adds that it may
  be written into a longer buffer, which is what the elements of a vector need.
\<close>

subsection \<open>Little endian integers\<close>

lemma length_le_bytes_of [simp]: "length (le_bytes_of n x) = n"
  by (induction n arbitrary: x) auto

lemma length_to_le_bytes [simp]: "length (to_le_bytes n x) = n"
  by (simp add: to_le_bytes_def)

lemma le_nat_le_bytes_of: "x < 256 ^ n \<Longrightarrow> le_nat (le_bytes_of n x) = x"
proof (induction n arbitrary: x)
  case (Suc n)
  have "x div 256 < 256 ^ n" using Suc.prems by (simp add: less_mult_imp_div_less mult.commute)
  then show ?case using Suc.IH[of "x div 256"] by (simp add: unat_of_nat mod_mod_trivial)
qed simp

lemma le_bytes_le_nat: "length bs = n \<Longrightarrow> le_bytes_of n (le_nat bs) = bs"
proof (induction bs arbitrary: n)
  case (Cons b bs)
  have "unat b < 256" by (rule unat_u8_less)
  then have "(unat b + 256 * le_nat bs) mod 256 = unat b" "(unat b + 256 * le_nat bs) div 256 = le_nat bs"
    by simp_all
  then show ?case using Cons by (cases n) (auto simp: word_of_nat_eq_iff)
qed simp

lemma le_nat_less: "le_nat bs < 256 ^ length bs"
proof (induction bs)
  case (Cons b bs)
  have "unat b < 256" by (rule unat_u8_less)
  then show ?case using Cons by simp
qed simp

lemma from_to_le_bytes [simp]:
  fixes x :: "'a :: len word"
  assumes "LENGTH('a) = 8 * n"
  shows "from_le_bytes n (to_le_bytes n x @ bs) = x"
proof -
  have "unat x < 2 ^ LENGTH('a)" by (rule unsigned_less)
  then have "unat x < 256 ^ n" using assms by (simp add: power_mult)
  then show ?thesis by (simp add: from_le_bytes_def to_le_bytes_def le_nat_le_bytes_of)
qed

lemma from_le_bytes_self [simp]:
  fixes x :: "'a :: len word"
  assumes "LENGTH('a) = 8 * n"
  shows "from_le_bytes n (to_le_bytes n x) = x"
  using from_to_le_bytes[OF assms, of x "[]"] by simp

subsection \<open>The interfaces\<close>

locale wire =
  fixes np :: "'a ninep" and enc :: "'a \<Rightarrow> u8 list" and fits :: "'a \<Rightarrow> bool" and readable :: "'a \<Rightarrow> bool"
  assumes enc_length: "length (enc x) = n_bytes np x"
    and write_fits: "fits x \<Longrightarrow> length buf = n_bytes np x \<Longrightarrow> write_bytes np x buf = Some (Inr (enc x))"
    and write_unfit: "\<not> fits x \<Longrightarrow> length buf = n_bytes np x \<Longrightarrow> \<exists>e. write_bytes np x buf = Some (Inl e)"
    and read_enc: "readable x \<Longrightarrow> fits x \<Longrightarrow> read_9p np stream (enc x @ rest) = Some (Inr (x, rest))"
begin

lemma write_9p_bytes_enc: "fits x \<Longrightarrow> write_9p_bytes np x = Some (Inr (enc x))"
  by (simp add: write_9p_bytes_def write_fits)

lemma write_9p_bytes_cases:
  "write_9p_bytes np x = Some (Inr (enc x)) \<and> fits x \<or> (\<exists>e. write_9p_bytes np x = Some (Inl e)) \<and> \<not> fits x"
  using write_unfit[of x "replicate (n_bytes np x) 0"] write_9p_bytes_enc
  by (auto simp: write_9p_bytes_def)

lemma write_then_read:
  "write_9p_bytes np x = Some (Inr bs) \<Longrightarrow> readable x \<Longrightarrow> read_from np (bs @ rest) = Some (Inr (x, rest))"
  using write_9p_bytes_cases[of x] by (auto simp: read_from_def read_enc)

lemma parse_enc: "readable x \<Longrightarrow> fits x \<Longrightarrow> parse_from_buffer np (enc x @ rest) = Some (Inr (x, rest))"
  by (simp add: parse_from_buffer_def read_enc)

lemma parse_enc_end: "readable x \<Longrightarrow> fits x \<Longrightarrow> parse_from_buffer np (enc x) = Some (Inr (x, []))"
  using parse_enc[of x "[]"] by simp

lemma write_to_enc:
  "fits x \<Longrightarrow> length buf = n_bytes np x + k \<Longrightarrow>
   write_to (n_bytes np x) (write_bytes np x) buf = Some (Inr (enc x @ drop (n_bytes np x) buf))"
  by (simp add: write_to_def write_fits)

end

locale wire_prefix = wire +
  assumes write_prefix:
      "fits x \<Longrightarrow> n_bytes np x \<le> length buf \<Longrightarrow>
       write_bytes np x buf = Some (Inr (enc x @ drop (n_bytes np x) buf))"
    and write_prefix_unfit:
      "\<not> fits x \<Longrightarrow> n_bytes np x \<le> length buf \<Longrightarrow> \<exists>e. write_bytes np x buf = Some (Inl e)"
    and n_bytes_pos: "0 < n_bytes np x"

lemma wire_prefixI:
  fixes np :: "'a ninep"
  assumes "\<And>x. length (enc x) = n_bytes np x"
    and "\<And>x buf. fits x \<Longrightarrow> n_bytes np x \<le> length buf \<Longrightarrow>
       write_bytes np x buf = Some (Inr (enc x @ drop (n_bytes np x) buf))"
    and "\<And>x buf. \<not> fits x \<Longrightarrow> n_bytes np x \<le> length buf \<Longrightarrow> \<exists>e. write_bytes np x buf = Some (Inl e)"
    and "\<And>x stream rest. readable x \<Longrightarrow> fits x \<Longrightarrow> read_9p np stream (enc x @ rest) = Some (Inr (x, rest))"
    and "\<And>x. 0 < n_bytes np x"
  shows "wire_prefix np enc fits readable"
  using assms by unfold_locales auto

subsection \<open>Integers\<close>

lemma wire_prefix_uint:
  fixes np :: "'a :: len word ninep"
  assumes "LENGTH('a) = 8 * n" "np = np_uint n"
  shows "wire_prefix np (to_le_bytes n) (\<lambda>_. True) (\<lambda>_. True)"
proof -
  have "0 < LENGTH('a)" by simp
  then have "0 < n" using assms(1) by simp
  then show ?thesis
    unfolding assms(2)
    by (intro wire_prefixI) (auto simp: np_uint_def as_slice_to_def from_to_le_bytes[OF assms(1), of _ "[]", simplified])
qed

interpretation u8: wire_prefix np_u8 "to_le_bytes 1" "\<lambda>_. True" "\<lambda>_. True"
  by (rule wire_prefix_uint) (simp_all add: np_u8_def)

interpretation u16: wire_prefix np_u16 "to_le_bytes 2" "\<lambda>_. True" "\<lambda>_. True"
  by (rule wire_prefix_uint) (simp_all add: np_u16_def)

interpretation u32: wire_prefix np_u32 "to_le_bytes 4" "\<lambda>_. True" "\<lambda>_. True"
  by (rule wire_prefix_uint) (simp_all add: np_u32_def)

interpretation u64: wire_prefix np_u64 "to_le_bytes 8" "\<lambda>_. True" "\<lambda>_. True"
  by (rule wire_prefix_uint) (simp_all add: np_u64_def)

lemma n_bytes_uint [simp]:
  "n_bytes np_u8 a = 1" "n_bytes np_u16 b = 2" "n_bytes np_u32 c = 4" "n_bytes np_u64 d = 8"
  by (simp_all add: np_u8_def np_u16_def np_u32_def np_u64_def np_uint_def)

subsection \<open>Strings\<close>

definition enc_string :: "ustr \<Rightarrow> u8 list" where
  "enc_string s = to_le_bytes 2 (of_nat (blen s) :: u16) @ utf8 s"

definition string_fits :: "ustr \<Rightarrow> bool" where
  "string_fits s \<longleftrightarrow> blen s \<le> MAX_SIZE_FIELD"

lemma unat_u16_of_nat: "n \<le> MAX_SIZE_FIELD \<Longrightarrow> unat (of_nat n :: u16) = n"
  by (simp add: MAX_SIZE_FIELD_def unat_of_nat)

lemma unat_u32_of_nat: "n \<le> MAX_DATA_SIZE_FIELD \<Longrightarrow> unat (of_nat n :: u32) = n"
  by (simp add: MAX_DATA_SIZE_FIELD_def unat_of_nat)

interpretation string: wire_prefix np_string enc_string string_fits str_ok
proof (rule wire_prefixI)
  fix s :: ustr
  show "length (enc_string s) = n_bytes np_string s" "0 < n_bytes np_string s"
    by (simp_all add: enc_string_def np_string_def string_n_bytes_def)
next
  fix s :: ustr and buf :: "u8 list"
  assume "string_fits s" and len: "n_bytes np_string s \<le> length buf"
  then have n: "blen s \<le> MAX_SIZE_FIELD" "blen s + 2 \<le> length buf"
    by (simp_all add: string_fits_def np_string_def string_n_bytes_def)
  have w: "write_to 2 (write_bytes np_u16 (of_nat (blen s))) buf =
      Some (Inr (to_le_bytes 2 (of_nat (blen s) :: u16) @ drop 2 buf))"
    using u16.write_to_enc[where x = "of_nat (blen s)" and buf = buf and k = "length buf - 2"] n(2) by simp
  have "2 + (blen s + (length buf - (2 + blen s))) = length buf" using n(2) by simp
  then show "write_bytes np_string s buf = Some (Inr (enc_string s @ drop (n_bytes np_string s) buf))"
    using n w
    by (simp add: np_string_def string_n_bytes_def string_write_bytes_def enc_string_def copy_from_slice_def add.commute Let_def)
next
  fix s :: ustr and buf :: "u8 list"
  assume "\<not> string_fits s"
  then show "\<exists>e. write_bytes np_string s buf = Some (Inl e)"
    by (simp add: string_fits_def np_string_def string_write_bytes_def)
next
  fix s :: ustr and stream and rest :: "u8 list"
  assume "str_ok s" "string_fits s"
  then show "read_9p np_string stream (enc_string s @ rest) = Some (Inr (s, rest))"
    by (simp add: np_string_def string_read_9p_def enc_string_def u16.read_enc as_slice_to_def
        string_fits_def unat_u16_of_nat)
qed

lemma n_bytes_string [simp]: "n_bytes np_string s = 2 + blen s"
  by (simp add: np_string_def string_n_bytes_def)

subsection \<open>Vectors\<close>

definition enc_vec :: "('a \<Rightarrow> u8 list) \<Rightarrow> 'a list \<Rightarrow> u8 list" where
  "enc_vec enc xs = to_le_bytes 2 (of_nat (length xs) :: u16) @ concat (map enc xs)"

definition vec_fits :: "('a \<Rightarrow> u8 list) \<Rightarrow> ('a \<Rightarrow> bool) \<Rightarrow> 'a list \<Rightarrow> bool" where
  "vec_fits enc fits xs \<longleftrightarrow> length (concat (map enc xs)) \<le> MAX_SIZE_FIELD \<and> list_all fits xs"

context wire_prefix
begin

lemma sum_n_bytes: "sum_list (map (n_bytes np) xs) = length (concat (map enc xs))"
  by (induction xs) (simp_all add: enc_length)

lemma write_elems_fits:
  "list_all fits xs \<Longrightarrow> length (concat (map enc xs)) \<le> length buf \<Longrightarrow>
   write_elems np xs buf = Some (Inr (concat (map enc xs) @ drop (length (concat (map enc xs))) buf))"
proof (induction xs arbitrary: buf)
  case (Cons x xs)
  have x: "fits x" "n_bytes np x \<le> length buf" using Cons.prems by (simp_all add: enc_length)
  have "write_elems np xs (drop (n_bytes np x) buf) =
      Some (Inr (concat (map enc xs) @ drop (length (concat (map enc xs))) (drop (n_bytes np x) buf)))"
    using Cons.prems by (intro Cons.IH) (simp_all add: enc_length)
  then show ?case
    using write_prefix[OF x] x(2) by (simp add: write_from_def enc_length add.commute Let_def)
qed simp

lemma write_elems_unfit:
  "\<not> list_all fits xs \<Longrightarrow> length (concat (map enc xs)) \<le> length buf \<Longrightarrow>
   \<exists>e. write_elems np xs buf = Some (Inl e)"
proof (induction xs arbitrary: buf)
  case (Cons x xs)
  have len: "n_bytes np x \<le> length buf" using Cons.prems by (simp add: enc_length)
  show ?case
  proof (cases "fits x")
    case True
    have "\<exists>e. write_elems np xs (drop (n_bytes np x) buf) = Some (Inl e)"
      using Cons.prems True by (intro Cons.IH) (simp_all add: enc_length)
    then show ?thesis
      using write_prefix[OF True len] len by (auto simp: write_from_def enc_length Let_def)
  next
    case False
    then show ?thesis using write_prefix_unfit[OF False len] by (auto simp: Let_def)
  qed
qed simp

lemma read_elems_enc:
  "list_all fits xs \<Longrightarrow> list_all readable xs \<Longrightarrow>
   read_elems np stream (length xs) (concat (map enc xs) @ rest) = Some (Inr (xs, rest))"
  by (induction xs) (simp_all add: read_enc)

lemma length_vec: "length xs \<le> length (concat (map enc xs))"
proof (induction xs)
  case (Cons x xs)
  then show ?case using n_bytes_pos[of x] by (simp add: enc_length)
qed simp

lemma write_to_2:
  "2 \<le> length buf \<Longrightarrow>
   write_to 2 (write_bytes np_u16 k) buf = Some (Inr (to_le_bytes 2 k @ drop 2 buf))"
  using u16.write_to_enc[where x = k and buf = buf and k = "length buf - 2"] by simp

lemma wire_prefix_vec:
  "wire_prefix (np_vec np) (enc_vec enc) (vec_fits enc fits) (list_all readable)"
proof (rule wire_prefixI)
  fix xs
  show "length (enc_vec enc xs) = n_bytes (np_vec np) xs" "0 < n_bytes (np_vec np) xs"
    by (simp_all add: enc_vec_def np_vec_def sum_n_bytes)
next
  fix xs and buf :: "u8 list"
  assume fit: "vec_fits enc fits xs" and "n_bytes (np_vec np) xs \<le> length buf"
  then have len: "2 + length (concat (map enc xs)) \<le> length buf"
    by (simp add: np_vec_def sum_n_bytes)
  have "write_elems np xs (drop 2 buf) =
      Some (Inr (concat (map enc xs) @ drop (length (concat (map enc xs))) (drop 2 buf)))"
    using fit len by (intro write_elems_fits) (simp_all add: vec_fits_def)
  then show "write_bytes (np_vec np) xs buf = Some (Inr (enc_vec enc xs @ drop (n_bytes (np_vec np) xs) buf))"
    using fit len
    by (simp add: np_vec_def vec_write_bytes_def sum_n_bytes enc_vec_def vec_fits_def write_from_def
        write_to_2 add.commute Let_def del: length_concat)
next
  fix xs and buf :: "u8 list"
  assume unfit: "\<not> vec_fits enc fits xs" and "n_bytes (np_vec np) xs \<le> length buf"
  then have len: "2 + length (concat (map enc xs)) \<le> length buf"
    by (simp add: np_vec_def sum_n_bytes)
  show "\<exists>e. write_bytes (np_vec np) xs buf = Some (Inl e)"
  proof (cases "MAX_SIZE_FIELD < length (concat (map enc xs))")
    case False
    then have "\<exists>e. write_elems np xs (drop 2 buf) = Some (Inl e)"
      using unfit len by (intro write_elems_unfit) (auto simp: vec_fits_def)
    then show ?thesis
      using False len
      by (auto simp: np_vec_def vec_write_bytes_def sum_n_bytes write_from_def write_to_2 Let_def
          simp del: length_concat)
  qed (simp add: np_vec_def vec_write_bytes_def sum_n_bytes del: length_concat)
next
  fix xs and stream and rest :: "u8 list"
  assume "list_all readable xs" "vec_fits enc fits xs"
  moreover have "length xs \<le> MAX_SIZE_FIELD"
    using calculation(2) length_vec[of xs] by (simp add: vec_fits_def del: length_concat)
  ultimately show "read_9p (np_vec np) stream (enc_vec enc xs @ rest) = Some (Inr (xs, rest))"
    by (simp add: np_vec_def vec_read_9p_def enc_vec_def u16.read_enc unat_u16_of_nat read_elems_enc
        vec_fits_def)
qed

end

interpretation strings: wire_prefix "np_vec np_string" "enc_vec enc_string" "vec_fits enc_string string_fits" "list_all str_ok"
  by (rule string.wire_prefix_vec)

subsection \<open>Records\<close>

text \<open>
  What a writer does with a buffer: the bytes \<open>e\<close> when its value fits, and an error otherwise,
  for a buffer of the exact length or for any that is long enough.
\<close>

definition writes_exact :: "writer \<Rightarrow> u8 list \<times> bool \<Rightarrow> bool" where
  "writes_exact w ef \<longleftrightarrow> length (fst ef) = fst w \<and>
     (\<forall>buf. length buf = fst w \<longrightarrow>
        (if snd ef then snd w buf = Some (Inr (fst ef)) else \<exists>e. snd w buf = Some (Inl e)))"

definition writes_prefix :: "writer \<Rightarrow> u8 list \<times> bool \<Rightarrow> bool" where
  "writes_prefix w ef \<longleftrightarrow> length (fst ef) = fst w \<and>
     (\<forall>buf. fst w \<le> length buf \<longrightarrow>
        (if snd ef then snd w buf = Some (Inr (fst ef @ drop (fst w) buf)) else \<exists>e. snd w buf = Some (Inl e)))"

lemma writes_prefix_exact: "writes_prefix w ef \<Longrightarrow> writes_exact w ef"
  by (auto simp: writes_prefix_def writes_exact_def)

context wire
begin

lemma writes_exact: "writes_exact (writer np x) (enc x, fits x)"
  using write_unfit by (auto simp: writes_exact_def writer_def enc_length write_fits)

end

context wire_prefix
begin

lemma writes_prefix: "writes_prefix (writer np x) (enc x, fits x)"
  using write_prefix_unfit by (auto simp: writes_prefix_def writer_def enc_length write_prefix)

end

definition field_bytes :: "(u8 list \<times> bool) list \<Rightarrow> u8 list" where
  "field_bytes es = concat (map fst es)"

definition fields_fit :: "(u8 list \<times> bool) list \<Rightarrow> bool" where
  "fields_fit es \<longleftrightarrow> list_all snd es"

lemma field_bytes_simps [simp]:
  "field_bytes [] = []" "field_bytes (e # es) = fst e @ field_bytes es"
  "fields_fit []" "fields_fit (e # es) \<longleftrightarrow> snd e \<and> fields_fit es"
  by (simp_all add: field_bytes_def fields_fit_def)

lemma length_field_bytes:
  "list_all2 writes_exact ws es \<Longrightarrow> length (field_bytes es) = sum_list (map fst ws)"
  by (induction rule: list_all2_induct) (simp_all add: writes_exact_def)

lemma write_fields_writes:
  "list_all2 writes_exact ws es \<Longrightarrow> sum_list (map fst ws) \<le> length buf \<Longrightarrow>
   (if fields_fit es
    then write_fields ws buf = Some (Inr (field_bytes es @ drop (sum_list (map fst ws)) buf))
    else \<exists>e. write_fields ws buf = Some (Inl e))"
proof (induction ws es arbitrary: buf rule: list_all2_induct)
  case (Cons w ws ef es)
  obtain n f where w: "w = (n, f)" by (cases w)
  obtain e b where ef: "ef = (e, b)" by (cases ef)
  have n: "n \<le> length buf" "length (take n buf) = n" and e: "length e = n"
    using Cons(1,4) w ef by (auto simp: writes_exact_def)
  show ?case
  proof (cases b)
    case True
    have "f (take n buf) = Some (Inr e)" using Cons(1) w ef True n by (auto simp: writes_exact_def)
    then have wt: "write_to n f buf = Some (Inr (e @ drop n buf))" using n by (simp add: write_to_def)
    have "if fields_fit es
      then write_fields ws (drop n buf) =
        Some (Inr (field_bytes es @ drop (sum_list (map fst ws)) (drop n buf)))
      else \<exists>e. write_fields ws (drop n buf) = Some (Inl e)"
      using Cons(4) w by (intro Cons(3)) simp
    then show ?thesis using wt w ef True e by (auto simp: write_from_def add.commute)
  next
    case False
    then obtain e' where "f (take n buf) = Some (Inl e')"
      using Cons(1) w ef n by (auto simp: writes_exact_def dest!: spec[of _ "take n buf"])
    then show ?thesis using w ef False n by (simp add: write_to_def)
  qed
qed simp

text \<open>In the content of a message, only the last writer gets a buffer of its exact length.\<close>

fun content_writes :: "writer list \<Rightarrow> (u8 list \<times> bool) list \<Rightarrow> bool" where
  "content_writes [] es \<longleftrightarrow> es = []"
| "content_writes [w] es \<longleftrightarrow> (\<exists>e. es = [e] \<and> writes_exact w e)"
| "content_writes (w # ws) es \<longleftrightarrow> (\<exists>e es'. es = e # es' \<and> writes_prefix w e \<and> content_writes ws es')"

lemma content_writes_length:
  "content_writes ws es \<Longrightarrow> length (field_bytes es) = sum_list (map fst ws)"
  by (induction ws es rule: content_writes.induct) (auto simp: writes_prefix_def writes_exact_def)

lemma write_content_writes:
  "content_writes ws es \<Longrightarrow> length buf = offset + sum_list (map fst ws) \<Longrightarrow>
   (if fields_fit es then write_content ws offset buf = Some (Inr (take offset buf @ field_bytes es))
    else \<exists>e. write_content ws offset buf = Some (Inl e))"
proof (induction ws es arbitrary: offset buf rule: content_writes.induct)
  case (1 es)
  then show ?case by simp
next
  case (2 w es)
  obtain n f where w: "w = (n, f)" by (cases w)
  then show ?case using 2 by (auto simp: writes_exact_def write_from_def dest!: spec[of _ "drop offset buf"])
next
  case (3 w w' ws es)
  obtain n f where w: "w = (n, f)" by (cases w)
  obtain e b es' where es: "es = (e, b) # es'" "writes_prefix w (e, b)" "content_writes (w' # ws) es'"
    using 3(2) by auto
  have len: "length buf = offset + n + sum_list (map fst (w' # ws))" and e: "length e = n"
    using 3(3) w es(2) by (auto simp: writes_prefix_def)
  show ?case
  proof (cases b)
    case True
    define buf' where "buf' = take offset buf @ e @ drop n (drop offset buf)"
    have "f (drop offset buf) = Some (Inr (e @ drop n (drop offset buf)))"
      using es(2) w True len by (auto simp: writes_prefix_def)
    then have wf: "write_from offset f buf = Some (Inr buf')"
      using len by (simp add: write_from_def buf'_def)
    have len': "length buf' = offset + n + sum_list (map fst (w' # ws))"
      using len e by (simp add: buf'_def)
    have tk: "take (offset + n) buf' = take offset buf @ e" using len e by (simp add: buf'_def)
    show ?thesis using 3(1)[OF es(3) len'] wf tk w es(1) True by auto
  next
    case False
    then obtain e' where "f (drop offset buf) = Some (Inl e')"
      using es(2) w len False by (auto simp: writes_prefix_def dest!: spec[of _ "drop offset buf"])
    then show ?thesis using w es(1) False len by (simp add: write_from_def)
  qed
qed

subsection \<open>Qids and stats\<close>

definition qid_fields :: "qid \<Rightarrow> (u8 list \<times> bool) list" where
  "qid_fields q =
     [(to_le_bytes 1 (q_ty q), True), (to_le_bytes 4 (q_version q), True), (to_le_bytes 8 (q_path q), True)]"

definition enc_qid :: "qid \<Rightarrow> u8 list" where
  "enc_qid q = field_bytes (qid_fields q)"

lemma qid_writes: "list_all2 writes_exact (qid_writers q) (qid_fields q)"
  using u8.writes_exact u32.writes_exact u64.writes_exact by (simp add: qid_writers_def qid_fields_def)

lemma qid_sum: "sum_list (map fst (qid_writers q)) = 13"
  by (simp add: qid_writers_def writer_def)

interpretation qid: wire_prefix np_qid enc_qid "\<lambda>_. True" "\<lambda>_. True"
proof (rule wire_prefixI)
  fix q :: qid and buf :: "u8 list"
  assume "n_bytes np_qid q \<le> length buf"
  then show "write_bytes np_qid q buf = Some (Inr (enc_qid q @ drop (n_bytes np_qid q) buf))"
    using write_fields_writes[OF qid_writes, of q buf] qid_sum[of q]
    by (simp add: np_qid_def enc_qid_def) (simp add: qid_fields_def)
next
  fix q :: qid and stream and rest :: "u8 list"
  show "read_9p np_qid stream (enc_qid q @ rest) = Some (Inr (q, rest))"
    by (simp add: np_qid_def qid_read_9p_def enc_qid_def qid_fields_def u8.read_enc u32.read_enc u64.read_enc
        del: One_nat_def)
qed (simp_all add: np_qid_def enc_qid_def qid_fields_def)

lemma n_bytes_qid [simp]: "n_bytes np_qid q = 13"
  by (simp add: np_qid_def)

interpretation qids: wire_prefix "np_vec np_qid" "enc_vec enc_qid" "vec_fits enc_qid (\<lambda>_. True)" "list_all (\<lambda>_. True)"
  by (rule qid.wire_prefix_vec)

lemma qid_from_bytes_enc: "qid_from_bytes (enc_qid q @ rest) = q"
  by (simp add: qid_from_bytes_def enc_qid_def qid_fields_def)

definition raw_stat_fields :: "raw_stat \<Rightarrow> (u8 list \<times> bool) list" where
  "raw_stat_fields r =
     [(to_le_bytes 2 (rs_size r), True), (to_le_bytes 2 (rs_ty r), True), (to_le_bytes 4 (rs_dev r), True),
      (enc_qid (rs_qid r), True), (to_le_bytes 4 (rs_mode r), True), (to_le_bytes 4 (rs_atime r), True),
      (to_le_bytes 4 (rs_mtime r), True), (to_le_bytes 8 (rs_length r), True),
      (enc_string (rs_name r), string_fits (rs_name r)), (enc_string (rs_uid r), string_fits (rs_uid r)),
      (enc_string (rs_gid r), string_fits (rs_gid r)), (enc_string (rs_muid r), string_fits (rs_muid r))]"

definition enc_raw_stat :: "raw_stat \<Rightarrow> u8 list" where
  "enc_raw_stat r = field_bytes (raw_stat_fields r)"

definition raw_stat_fits :: "raw_stat \<Rightarrow> bool" where
  "raw_stat_fits r \<longleftrightarrow> fields_fit (raw_stat_fields r)"

definition raw_stat_readable :: "raw_stat \<Rightarrow> bool" where
  "raw_stat_readable r \<longleftrightarrow> str_ok (rs_name r) \<and> str_ok (rs_uid r) \<and> str_ok (rs_gid r) \<and> str_ok (rs_muid r)"

lemma raw_stat_writes: "list_all2 writes_exact (raw_stat_writers r) (raw_stat_fields r)"
  using u16.writes_exact u32.writes_exact u64.writes_exact qid.writes_exact string.writes_exact
  by (simp add: raw_stat_writers_def raw_stat_fields_def)

lemma raw_stat_sum: "sum_list (map fst (raw_stat_writers r)) = n_bytes np_raw_stat r"
  by (simp add: raw_stat_writers_def writer_def np_raw_stat_def raw_stat_n_bytes_def)

definition raw_stat_head :: "raw_stat \<Rightarrow> u8 list" where
  "raw_stat_head r =
     to_le_bytes 2 (rs_size r) @ to_le_bytes 2 (rs_ty r) @ to_le_bytes 4 (rs_dev r) @ enc_qid (rs_qid r) @
     to_le_bytes 4 (rs_mode r) @ to_le_bytes 4 (rs_atime r) @ to_le_bytes 4 (rs_mtime r) @
     to_le_bytes 8 (rs_length r)"

lemma length_enc_qid [simp]: "length (enc_qid q) = 13"
  by (simp add: enc_qid_def qid_fields_def)

lemma length_raw_stat_head [simp]: "length (raw_stat_head r) = 41"
  by (simp add: raw_stat_head_def)

lemma raw_stat_read:
  assumes "raw_stat_readable r" "raw_stat_fits r"
  shows "read_9p np_raw_stat stream (enc_raw_stat r @ rest) = Some (Inr (r, rest))"
proof -
  let ?strs = "enc_string (rs_name r) @ enc_string (rs_uid r) @ enc_string (rs_gid r) @ enc_string (rs_muid r) @ rest"
  have split: "enc_raw_stat r @ rest = raw_stat_head r @ ?strs"
    by (simp add: enc_raw_stat_def raw_stat_fields_def raw_stat_head_def)
  have "as_slice_to stream 41 (raw_stat_head r @ ?strs) = Some (Inr (raw_stat_head r, ?strs))"
    by (simp add: as_slice_to_def)
  then show ?thesis
    using assms unfolding split
    by (simp add: np_raw_stat_def raw_stat_read_9p_def string.read_enc raw_stat_readable_def
        raw_stat_fits_def raw_stat_fields_def)
      (simp add: raw_stat_head_def qid_from_bytes_enc)
qed

interpretation raw_stat: wire_prefix np_raw_stat enc_raw_stat raw_stat_fits raw_stat_readable
proof (rule wire_prefixI)
  fix r :: raw_stat and buf :: "u8 list"
  assume len: "n_bytes np_raw_stat r \<le> length buf"
  note w = write_fields_writes[OF raw_stat_writes, of r buf, unfolded raw_stat_sum, OF len]
  show "write_bytes np_raw_stat r buf = Some (Inr (enc_raw_stat r @ drop (n_bytes np_raw_stat r) buf))"
    if "raw_stat_fits r"
    using w that by (simp add: np_raw_stat_def enc_raw_stat_def raw_stat_fits_def)
  show "\<exists>e. write_bytes np_raw_stat r buf = Some (Inl e)" if "\<not> raw_stat_fits r"
    using w that by (simp add: np_raw_stat_def raw_stat_fits_def)
next
  fix r :: raw_stat
  show "length (enc_raw_stat r) = n_bytes np_raw_stat r"
    using length_field_bytes[OF raw_stat_writes, of r] raw_stat_sum[of r] by (simp add: enc_raw_stat_def)
  show "0 < n_bytes np_raw_stat r" by (simp add: np_raw_stat_def raw_stat_n_bytes_def)
qed (rule raw_stat_read)

subsection \<open>Data\<close>

definition enc_data :: "u8 list \<Rightarrow> u8 list" where
  "enc_data d = to_le_bytes 4 (of_nat (length d) :: u32) @ d"

interpretation data: wire np_data enc_data "\<lambda>d. length d \<le> MAX_DATA_SIZE_FIELD" "\<lambda>d. length d \<le> MAX_DATA_LEN"
proof unfold_locales
  fix d buf :: "u8 list"
  assume len: "length buf = n_bytes np_data d"
  then have "write_to 4 (write_bytes np_u32 (of_nat (length d))) buf =
      Some (Inr (to_le_bytes 4 (of_nat (length d) :: u32) @ drop 4 buf))"
    using u32.write_to_enc[where x = "of_nat (length d)" and buf = buf and k = "length d"]
    by (simp add: np_data_def)
  then show "write_bytes np_data d buf = Some (Inr (enc_data d))" if "length d \<le> MAX_DATA_SIZE_FIELD"
    using that len by (simp add: np_data_def data_write_bytes_def enc_data_def write_from_def)
  show "\<exists>e. write_bytes np_data d buf = Some (Inl e)" if "\<not> length d \<le> MAX_DATA_SIZE_FIELD"
    using that by (simp add: np_data_def data_write_bytes_def)
next
  fix d rest :: "u8 list" and stream
  assume "length d \<le> MAX_DATA_LEN" "length d \<le> MAX_DATA_SIZE_FIELD"
  then show "read_9p np_data stream (enc_data d @ rest) = Some (Inr (d, rest))"
    by (simp add: np_data_def data_read_9p_def enc_data_def u32.read_enc unat_u32_of_nat as_slice_to_def)
qed (simp add: np_data_def enc_data_def)

end
