(* ===== verification/NinepMessageCodec.thy ===== *)
theory NinepMessageCodec
  imports NinepCodec
begin

text \<open>
  The wire format of whole messages: what writing a message produces, when it fails, and
  that reading gives the message back from any stream that starts with it.
\<close>

fun tdata_fields :: "tdata \<Rightarrow> (u8 list \<times> bool) list" where
  "tdata_fields (TVersion msize version) =
     [(to_le_bytes 4 msize, True), (enc_string version, string_fits version)]"
| "tdata_fields (TAuth afid uname aname) =
     [(to_le_bytes 4 afid, True), (enc_string uname, string_fits uname), (enc_string aname, string_fits aname)]"
| "tdata_fields (TAttach fid afid uname aname) =
     [(to_le_bytes 4 fid, True), (to_le_bytes 4 afid, True), (enc_string uname, string_fits uname),
      (enc_string aname, string_fits aname)]"
| "tdata_fields (TFlush old_tag) = [(to_le_bytes 2 old_tag, True)]"
| "tdata_fields (TWalk fid new_fid wnames) =
     [(to_le_bytes 4 fid, True), (to_le_bytes 4 new_fid, True),
      (enc_vec enc_string wnames, vec_fits enc_string string_fits wnames)]"
| "tdata_fields (TOpen fid mode) = [(to_le_bytes 4 fid, True), (to_le_bytes 1 mode, True)]"
| "tdata_fields (TCreate fid name perm mode) =
     [(to_le_bytes 4 fid, True), (enc_string name, string_fits name), (to_le_bytes 4 perm, True),
      (to_le_bytes 1 mode, True)]"
| "tdata_fields (TRead fid offset count) =
     [(to_le_bytes 4 fid, True), (to_le_bytes 8 offset, True), (to_le_bytes 4 count, True)]"
| "tdata_fields (TWrite fid offset data) =
     [(to_le_bytes 4 fid, True), (to_le_bytes 8 offset, True), (enc_data data, length data \<le> MAX_DATA_SIZE_FIELD)]"
| "tdata_fields (TClunk fid) = [(to_le_bytes 4 fid, True)]"
| "tdata_fields (TRemove fid) = [(to_le_bytes 4 fid, True)]"
| "tdata_fields (TStat fid) = [(to_le_bytes 4 fid, True)]"
| "tdata_fields (TWstat fid sz stat) =
     [(to_le_bytes 4 fid, True), (to_le_bytes 2 sz, True), (enc_raw_stat stat, raw_stat_fits stat)]"

fun rdata_fields :: "rdata \<Rightarrow> (u8 list \<times> bool) list" where
  "rdata_fields (RVersion msize version) =
     [(to_le_bytes 4 msize, True), (enc_string version, string_fits version)]"
| "rdata_fields (RAuth aqid) = [(enc_qid aqid, True)]"
| "rdata_fields (RError ename) = [(enc_string ename, string_fits ename)]"
| "rdata_fields (RAttach aqid) = [(enc_qid aqid, True)]"
| "rdata_fields RFlush = []"
| "rdata_fields (RWalk wqids) = [(enc_vec enc_qid wqids, vec_fits enc_qid (\<lambda>_. True) wqids)]"
| "rdata_fields (ROpen qid iounit) = [(enc_qid qid, True), (to_le_bytes 4 iounit, True)]"
| "rdata_fields (RCreate qid iounit) = [(enc_qid qid, True), (to_le_bytes 4 iounit, True)]"
| "rdata_fields (RRead data) = [(enc_data data, length data \<le> MAX_DATA_SIZE_FIELD)]"
| "rdata_fields (RWrite count) = [(to_le_bytes 4 count, True)]"
| "rdata_fields RClunk = []"
| "rdata_fields RRemove = []"
| "rdata_fields (RStat sz stat) = [(to_le_bytes 2 sz, True), (enc_raw_stat stat, raw_stat_fits stat)]"
| "rdata_fields RWstat = []"

lemmas wire_writes =
  u8.writes_prefix u16.writes_prefix u32.writes_prefix u64.writes_prefix string.writes_prefix
  strings.writes_prefix qid.writes_prefix qids.writes_prefix raw_stat.writes_prefix
  u8.writes_exact u16.writes_exact u32.writes_exact u64.writes_exact string.writes_exact
  strings.writes_exact qid.writes_exact qids.writes_exact raw_stat.writes_exact data.writes_exact

lemma content_writes_step:
  "content_writes [w] [e] \<longleftrightarrow> writes_exact w e"
  "content_writes (w # w' # ws) (e # es) \<longleftrightarrow> writes_prefix w e \<and> content_writes (w' # ws) es"
  by simp_all

lemma tdata_content: "content_writes (tdata_writers d) (tdata_fields d)"
  by (cases d) (simp_all add: wire_writes content_writes_step del: content_writes.simps(2,3) One_nat_def)

lemma rdata_content: "content_writes (rdata_writers d) (rdata_fields d)"
  by (cases d) (simp_all add: wire_writes content_writes_step del: content_writes.simps(2,3) One_nat_def)

subsection \<open>Writing a message\<close>

definition enc_message :: "u8 \<Rightarrow> u16 \<Rightarrow> (u8 list \<times> bool) list \<Rightarrow> u8 list" where
  "enc_message ty tag es =
     to_le_bytes 4 (of_nat (7 + length (field_bytes es)) :: u32) @ to_le_bytes 1 ty @ to_le_bytes 2 tag @
     field_bytes es"

lemma message_write:
  assumes "content_writes ws es" "length buf = message_n_bytes ws"
  shows "if fields_fit es then message_write_bytes ty tag ws buf = Some (Inr (enc_message ty tag es))
    else \<exists>e. message_write_bytes ty tag ws buf = Some (Inl e)"
proof -
  let ?size = "to_le_bytes 4 (of_nat (message_n_bytes ws) :: u32)"
  define b1 where "b1 = ?size @ drop 4 buf"
  define b2 where "b2 = ?size @ to_le_bytes 1 ty @ drop 5 buf"
  define b3 where "b3 = ?size @ to_le_bytes 1 ty @ to_le_bytes 2 tag @ drop 7 buf"
  have len: "length buf = 7 + sum_list (map fst ws)" using assms(2) by (simp add: message_n_bytes_def)
  have 1: "write_bytes np_u32 (of_nat (message_n_bytes ws)) buf = Some (Inr b1)"
    using u32.write_prefix[where x = "of_nat (message_n_bytes ws)" and buf = buf] len by (simp add: b1_def)
  have 2: "write_from 4 (write_bytes np_u8 ty) b1 = Some (Inr b2)"
    using u8.write_prefix[where x = ty and buf = "drop 4 buf"] len
    by (simp add: b1_def b2_def write_from_def)
  have 3: "write_from 5 (write_bytes np_u16 tag) b2 = Some (Inr b3)"
    using u16.write_prefix[where x = tag and buf = "drop 5 buf"] len
    by (simp add: b2_def b3_def write_from_def)
  have "length b3 = 7 + sum_list (map fst ws)" using len by (simp add: b3_def)
  note w = write_content_writes[OF assms(1) this]
  have "take 7 b3 @ field_bytes es = enc_message ty tag es"
    using content_writes_length[OF assms(1)]
    by (simp add: b3_def enc_message_def message_n_bytes_def)
  then show ?thesis using w by (simp add: message_write_bytes_def 1 2 3)
qed

subsection \<open>Reading a message\<close>

fun tdata_readable :: "tdata \<Rightarrow> bool" where
  "tdata_readable (TVersion _ version) \<longleftrightarrow> str_ok version"
| "tdata_readable (TAuth _ uname aname) \<longleftrightarrow> str_ok uname \<and> str_ok aname"
| "tdata_readable (TAttach _ _ uname aname) \<longleftrightarrow> str_ok uname \<and> str_ok aname"
| "tdata_readable (TWalk _ _ wnames) \<longleftrightarrow> list_all str_ok wnames"
| "tdata_readable (TCreate _ name _ _) \<longleftrightarrow> str_ok name"
| "tdata_readable (TWrite _ _ data) \<longleftrightarrow> length data \<le> MAX_DATA_LEN"
| "tdata_readable (TWstat _ _ stat) \<longleftrightarrow> raw_stat_readable stat"
| "tdata_readable _ \<longleftrightarrow> True"

fun rdata_readable :: "rdata \<Rightarrow> bool" where
  "rdata_readable (RVersion _ version) \<longleftrightarrow> str_ok version"
| "rdata_readable (RError ename) \<longleftrightarrow> str_ok ename"
| "rdata_readable (RRead data) \<longleftrightarrow> length data \<le> MAX_DATA_LEN"
| "rdata_readable (RStat _ stat) \<longleftrightarrow> raw_stat_readable stat"
| "rdata_readable _ \<longleftrightarrow> True"

lemmas wire_parses =
  u8.parse_enc u16.parse_enc u32.parse_enc u64.parse_enc string.parse_enc strings.parse_enc
  qid.parse_enc qids.parse_enc raw_stat.parse_enc data.parse_enc
  u8.parse_enc_end u16.parse_enc_end u32.parse_enc_end u64.parse_enc_end string.parse_enc_end
  strings.parse_enc_end qid.parse_enc_end qids.parse_enc_end raw_stat.parse_enc_end data.parse_enc_end

lemma parse_tdata_enc:
  "tdata_readable d \<Longrightarrow> fields_fit (tdata_fields d) \<Longrightarrow>
   parse_tdata (tdata_type d) (field_bytes (tdata_fields d)) = Some (Inr (d, []))"
  by (cases d) (simp_all add: parse_tdata_def wire_parses del: One_nat_def)

lemma parse_rdata_enc:
  "rdata_readable d \<Longrightarrow> fields_fit (rdata_fields d) \<Longrightarrow>
   parse_rdata (rdata_type d) (field_bytes (rdata_fields d)) = Some (Inr (d, []))"
  by (cases d) (simp_all add: parse_rdata_def wire_parses list_all_iff del: One_nat_def)

lemma message_read:
  assumes "parse_content ty (field_bytes es) = Some (Inr (d, []))"
    and "7 + length (field_bytes es) < 2 ^ 32"
  shows "message_read_9p parse_content stream (enc_message ty tag es @ rest) =
    Some (Inr ((tag, d), rest))"
proof -
  let ?frame = "to_le_bytes 1 ty @ to_le_bytes 2 tag @ field_bytes es"
  have len: "unat (of_nat (7 + length (field_bytes es)) :: u32) = 7 + length (field_bytes es)"
    using assms(2) by (simp add: unat_of_nat del: of_nat_add)
  have split: "enc_message ty tag es @ rest =
      to_le_bytes 4 (of_nat (7 + length (field_bytes es)) :: u32) @ ?frame @ rest"
    by (simp add: enc_message_def)
  have "as_slice_to stream (3 + length (field_bytes es)) (?frame @ rest) = Some (Inr (?frame, rest))"
    by (simp add: as_slice_to_def)
  moreover have "as_slice_to False 3 ?frame = Some (Inr (to_le_bytes 1 ty @ to_le_bytes 2 tag, field_bytes es))"
    by (simp add: as_slice_to_def)
  moreover have "from_le_bytes 1 (to_le_bytes 1 ty @ to_le_bytes 2 tag) = ty"
    by simp
  moreover have "from_le_bytes 2 (drop 1 (to_le_bytes 1 ty @ to_le_bytes 2 tag)) = tag"
    by simp
  ultimately show ?thesis
    unfolding split message_read_9p_def
    using assms(1) len by (simp add: u32.read_enc usub_def del: One_nat_def)
qed

subsection \<open>The two kinds of messages\<close>

definition enc_tmessage :: "tmessage \<Rightarrow> u8 list" where
  "enc_tmessage m = enc_message (tdata_type (tm_content m)) (tm_tag m) (tdata_fields (tm_content m))"

definition enc_rmessage :: "rmessage \<Rightarrow> u8 list" where
  "enc_rmessage m = enc_message (rdata_type (rm_content m)) (rm_tag m) (rdata_fields (rm_content m))"

definition tmessage_fits :: "tmessage \<Rightarrow> bool" where
  "tmessage_fits m \<longleftrightarrow> fields_fit (tdata_fields (tm_content m))"

definition rmessage_fits :: "rmessage \<Rightarrow> bool" where
  "rmessage_fits m \<longleftrightarrow> fields_fit (rdata_fields (rm_content m))"

lemma length_enc_string: "length (enc_string s) = 2 + blen s"
  by (simp add: enc_string_def)

lemma length_enc_raw_stat: "length (enc_raw_stat r) = n_bytes np_raw_stat r"
  by (rule raw_stat.enc_length)

lemma length_enc_vec: "length (enc_vec e xs) = 2 + length (concat (map e xs))"
  by (simp add: enc_vec_def)

lemma length_enc_data: "length (enc_data d) = 4 + length d"
  by (simp add: enc_data_def)

lemmas size_simps =
  length_enc_string length_enc_raw_stat length_enc_vec length_enc_data string_fits_def vec_fits_def
  raw_stat_fits_def raw_stat_fields_def np_raw_stat_def raw_stat_n_bytes_def
  MAX_SIZE_FIELD_def MAX_DATA_LEN_def

lemma tmessage_size:
  "tdata_readable d \<Longrightarrow> fields_fit (tdata_fields d) \<Longrightarrow> 7 + length (field_bytes (tdata_fields d)) < 2 ^ 32"
  by (cases d) (auto simp: size_simps simp del: length_concat)

lemma rmessage_size:
  "rdata_readable d \<Longrightarrow> fields_fit (rdata_fields d) \<Longrightarrow> 7 + length (field_bytes (rdata_fields d)) < 2 ^ 32"
  by (cases d) (auto simp: size_simps simp del: length_concat)

interpretation tmessage: wire np_tmessage enc_tmessage tmessage_fits "\<lambda>m. tdata_readable (tm_content m)"
proof unfold_locales
  fix m :: tmessage and buf :: "u8 list"
  assume "length buf = n_bytes np_tmessage m"
  then have len: "length buf = message_n_bytes (tdata_writers (tm_content m))" by (simp add: np_tmessage_def)
  note w = message_write[OF tdata_content len, of "tdata_type (tm_content m)" "tm_tag m"]
  show "write_bytes np_tmessage m buf = Some (Inr (enc_tmessage m))" if "tmessage_fits m"
    using w that by (simp add: np_tmessage_def enc_tmessage_def tmessage_fits_def)
  show "\<exists>e. write_bytes np_tmessage m buf = Some (Inl e)" if "\<not> tmessage_fits m"
    using w that by (simp add: np_tmessage_def tmessage_fits_def)
next
  fix m :: tmessage and stream and rest :: "u8 list"
  assume "tdata_readable (tm_content m)" "tmessage_fits m"
  then show "read_9p np_tmessage stream (enc_tmessage m @ rest) = Some (Inr (m, rest))"
    using message_read[of parse_tdata "tdata_type (tm_content m)" "tdata_fields (tm_content m)" "tm_content m"
        stream "tm_tag m" rest, OF parse_tdata_enc tmessage_size]
    by (simp add: np_tmessage_def enc_tmessage_def tmessage_fits_def)
next
  fix m :: tmessage
  show "length (enc_tmessage m) = n_bytes np_tmessage m"
    using content_writes_length[OF tdata_content]
    by (simp add: enc_tmessage_def enc_message_def np_tmessage_def message_n_bytes_def)
qed

interpretation rmessage: wire np_rmessage enc_rmessage rmessage_fits "\<lambda>m. rdata_readable (rm_content m)"
proof unfold_locales
  fix m :: rmessage and buf :: "u8 list"
  assume "length buf = n_bytes np_rmessage m"
  then have len: "length buf = message_n_bytes (rdata_writers (rm_content m))" by (simp add: np_rmessage_def)
  note w = message_write[OF rdata_content len, of "rdata_type (rm_content m)" "rm_tag m"]
  show "write_bytes np_rmessage m buf = Some (Inr (enc_rmessage m))" if "rmessage_fits m"
    using w that by (simp add: np_rmessage_def enc_rmessage_def rmessage_fits_def)
  show "\<exists>e. write_bytes np_rmessage m buf = Some (Inl e)" if "\<not> rmessage_fits m"
    using w that by (simp add: np_rmessage_def rmessage_fits_def)
next
  fix m :: rmessage and stream and rest :: "u8 list"
  assume "rdata_readable (rm_content m)" "rmessage_fits m"
  then show "read_9p np_rmessage stream (enc_rmessage m @ rest) = Some (Inr (m, rest))"
    using message_read[of parse_rdata "rdata_type (rm_content m)" "rdata_fields (rm_content m)" "rm_content m"
        stream "rm_tag m" rest, OF parse_rdata_enc rmessage_size]
    by (simp add: np_rmessage_def enc_rmessage_def rmessage_fits_def)
next
  fix m :: rmessage
  show "length (enc_rmessage m) = n_bytes np_rmessage m"
    using content_writes_length[OF rdata_content]
    by (simp add: enc_rmessage_def enc_message_def np_rmessage_def message_n_bytes_def)
qed

end
