(* ===== verification/NinepFs.thy ===== *)
theory NinepFs
  imports NinepMessages
begin

text \<open>
  The types of files of crates/ninep/src/fs.rs: modes and permissions as bit sets, file types,
  metadata, and directory entries with their conversion to and from the wire form. A
  \<open>SystemTime\<close> is the number of nanoseconds since the epoch, negative before it.
\<close>

definition QID_ROOT :: u64 where "QID_ROOT = 0"

subsection \<open>Modes and permissions\<close>

text \<open>The type \<open>Mode\<close>: \<open>from_bits_truncate\<close> drops the bits that are not declared.\<close>

definition MODE_DIR :: u8 where "MODE_DIR = 0x80"
definition MODE_APPEND :: u8 where "MODE_APPEND = 0x40"
definition MODE_EXCLUSIVE :: u8 where "MODE_EXCLUSIVE = 0x20"
definition MODE_FILE :: u8 where "MODE_FILE = 0x00"

definition mode_all :: u8 where
  "mode_all = 0x80 OR 0x40 OR 0x20 OR 0x10 OR 0x08 OR 0x04 OR 0x02"

definition mode_new :: "u8 \<Rightarrow> u8" where
  "mode_new bits = bits AND mode_all"

definition PERM_DIR :: u32 where "PERM_DIR = 0x80000000"
definition PERM_APPEND :: u32 where "PERM_APPEND = 0x40000000"
definition PERM_EXCLUSIVE :: u32 where "PERM_EXCLUSIVE = 0x20000000"
definition PERM_FILE :: u32 where "PERM_FILE = 0x00000000"

definition perm_all :: u32 where
  "perm_all =
     0x80000000 OR 0x40000000 OR 0x20000000 OR 0x10000000 OR 0x08000000 OR 0x04000000 OR
     0x02000000 OR 0x00800000 OR 0x00200000 OR 0x00100000 OR 0x00080000 OR 0x00040000 OR
     0x100 OR 0x080 OR 0x040 OR 0x020 OR 0x010 OR 0x008 OR 0x004 OR 0x002 OR 0x001"

definition perm_new :: "u32 \<Rightarrow> u32" where
  "perm_new bits = bits AND perm_all"

datatype file_type = Directory | Regular | AppendOnly | Exclusive

fun mode_from_file_type :: "file_type \<Rightarrow> u8" where
  "mode_from_file_type Directory = MODE_DIR"
| "mode_from_file_type Regular = MODE_FILE"
| "mode_from_file_type AppendOnly = MODE_APPEND"
| "mode_from_file_type Exclusive = MODE_EXCLUSIVE"

fun perm_from_file_type :: "file_type \<Rightarrow> u32" where
  "perm_from_file_type Directory = PERM_DIR"
| "perm_from_file_type Regular = PERM_FILE"
| "perm_from_file_type AppendOnly = PERM_APPEND"
| "perm_from_file_type Exclusive = PERM_EXCLUSIVE"

subsection \<open>Text\<close>

text \<open>The formatting of numbers, in decimal and in octal.\<close>

fun digits :: "nat \<Rightarrow> nat \<Rightarrow> ustr" where
  "digits base n =
     (if base \<le> 1 \<or> n < base then [of_nat (48 + n)]
      else digits base (n div base) @ [of_nat (48 + n mod base)])"

declare digits.simps [simp del]

definition file_type_try_from_mode :: "u8 \<Rightarrow> ustr + file_type" where
  "file_type_try_from_mode m =
     (if m = MODE_DIR then Inr Directory
      else if m = MODE_FILE then Inr Regular
      else if m = MODE_APPEND then Inr AppendOnly
      else if m = MODE_EXCLUSIVE then Inr Exclusive
      else Inl (lit ''invalid mode value: '' @ digits 8 (unat m)))"

subsection \<open>Metadata\<close>

record file_meta =
  fm_name :: ustr
  fm_ty :: file_type
  fm_qid :: u64

definition as_qid :: "file_meta \<Rightarrow> qid" where
  "as_qid fm = \<lparr>q_ty = mode_from_file_type (fm_ty fm), q_version = 0, q_path = fm_qid fm\<rparr>"

definition fm_dir :: "ustr \<Rightarrow> u64 \<Rightarrow> file_meta" where
  "fm_dir name qid = \<lparr>fm_name = name, fm_ty = Directory, fm_qid = qid\<rparr>"

definition fm_file :: "ustr \<Rightarrow> u64 \<Rightarrow> file_meta" where
  "fm_file name qid = \<lparr>fm_name = name, fm_ty = Regular, fm_qid = qid\<rparr>"

definition fm_append_only_file :: "ustr \<Rightarrow> u64 \<Rightarrow> file_meta" where
  "fm_append_only_file name qid = \<lparr>fm_name = name, fm_ty = AppendOnly, fm_qid = qid\<rparr>"

definition fm_exclusive_file :: "ustr \<Rightarrow> u64 \<Rightarrow> file_meta" where
  "fm_exclusive_file name qid = \<lparr>fm_name = name, fm_ty = Exclusive, fm_qid = qid\<rparr>"

type_synonym system_time = int

definition systime_as_u32 :: "system_time \<Rightarrow> u32" where
  "systime_as_u32 t = (if 0 \<le> t then of_int (t div 10 ^ 9) else 0)"

definition systime_from_u32 :: "u32 \<Rightarrow> system_time" where
  "systime_from_u32 t = uint t * 10 ^ 9"

record stat =
  st_fm :: file_meta
  st_perms :: u32
  st_n_bytes :: u64
  st_last_accesses :: system_time
  st_last_modified :: system_time
  st_owner :: ustr
  st_group :: ustr
  st_last_modified_by :: ustr

subsection \<open>Directory entries on the wire\<close>

definition raw_stat_from_stat :: "stat \<Rightarrow> raw_stat" where
  "raw_stat_from_stat s =
     (let qid = \<lparr>q_ty = mode_from_file_type (fm_ty (st_fm s)), q_version = 0, q_path = fm_qid (st_fm s)\<rparr>;
          sz = of_nat (2 + 4 * 4 + n_bytes np_qid qid + n_bytes np_u64 (st_n_bytes s) +
                 n_bytes np_string (fm_name (st_fm s)) + n_bytes np_string (st_owner s) +
                 n_bytes np_string (st_group s) + n_bytes np_string (st_last_modified_by s))
      in \<lparr>rs_size = sz, rs_ty = 0, rs_dev = 0, rs_qid = qid,
          rs_mode = perm_from_file_type (fm_ty (st_fm s)) OR st_perms s,
          rs_atime = systime_as_u32 (st_last_accesses s), rs_mtime = systime_as_u32 (st_last_modified s),
          rs_length = st_n_bytes s, rs_name = fm_name (st_fm s), rs_uid = st_owner s,
          rs_gid = st_group s, rs_muid = st_last_modified_by s\<rparr>)"

definition stat_try_from_raw :: "raw_stat \<Rightarrow> ustr + stat" where
  "stat_try_from_raw r =
     (case file_type_try_from_mode (mode_new (q_ty (rs_qid r))) of
        Inl e \<Rightarrow> Inl e
      | Inr ty \<Rightarrow>
          Inr \<lparr>st_fm = \<lparr>fm_name = rs_name r, fm_ty = ty, fm_qid = q_path (rs_qid r)\<rparr>,
               st_perms = perm_new (rs_mode r AND 0x0000FFFF), st_n_bytes = rs_length r,
               st_last_accesses = systime_from_u32 (rs_atime r),
               st_last_modified = systime_from_u32 (rs_mtime r),
               st_owner = rs_uid r, st_group = rs_gid r, st_last_modified_by = rs_muid r\<rparr>)"

end
