(* ===== verification/NinepProperties.thy ===== *)
theory NinepProperties
  imports NinepMessageCodec NinepFs
begin

text \<open>
  What the wire format promises: messages survive the trip, writing fails exactly for values
  that do not fit, and directory entries survive it as far as the protocol has room for them.
\<close>

subsection \<open>Conversion of directory entries\<close>






subsection \<open>Properties\<close>

text \<open>
  C21: messages survive the trip. A T-message and an R-message that could be written, with
  strings of valid characters and data no longer than the limit of the reader, are read back
  from any stream that starts with the bytes written, and the rest of the stream is left.
\<close>

theorem message_roundtrip:
  assumes "write_9p_bytes np_tmessage t = Some (Inr tb)" "tdata_readable (tm_content t)"
    and "write_9p_bytes np_rmessage r = Some (Inr rb)" "rdata_readable (rm_content r)"
  shows "read_from np_tmessage (tb @ rest) = Some (Inr (t, rest)) \<and>
    read_from np_rmessage (rb @ rest) = Some (Inr (r, rest))"
  using tmessage.write_then_read[OF assms(1,2)] rmessage.write_then_read[OF assms(3,4)] by simp

theorem message_roundtrip_witness:
  "\<exists>tb rb. read_from np_tmessage (tb @ [1, 2]) =
       Some (Inr (\<lparr>tm_tag = 7, tm_content = TWalk 0 2 [[98, 97], [0x4E16]]\<rparr>, [1, 2])) \<and>
     read_from np_rmessage (rb @ [1, 2]) = Some (Inr (\<lparr>rm_tag = 7, rm_content = RRead [5, 6]\<rparr>, [1, 2]))"
proof -
  let ?t = "\<lparr>tm_tag = 7, tm_content = TWalk 0 2 [[98, 97], [0x4E16]]\<rparr>"
  let ?r = "\<lparr>rm_tag = 7, rm_content = RRead [5, 6]\<rparr>"
  have "tmessage_fits ?t" "tdata_readable (tm_content ?t)"
    by (simp_all add: tmessage_fits_def vec_fits_def string_fits_def MAX_SIZE_FIELD_def length_enc_string
        len_utf8_def uchar_ok_def)
  moreover have "rmessage_fits ?r" "rdata_readable (rm_content ?r)"
    by (simp_all add: rmessage_fits_def MAX_DATA_SIZE_FIELD_def MAX_DATA_LEN_def)
  ultimately show ?thesis
    using message_roundtrip[OF tmessage.write_9p_bytes_enc _ rmessage.write_9p_bytes_enc, of ?t ?r] by blast
qed

text \<open>
  C22: writing a message never panics. It succeeds exactly when every string, list and data
  field fits its length field, and then the result has the announced length, which the first
  four bytes hold; otherwise it is an error.
\<close>

theorem message_write_cases:
  "(case write_9p_bytes np_tmessage t of
      None \<Rightarrow> False
    | Some (Inl e) \<Rightarrow> \<not> tmessage_fits t
    | Some (Inr bs) \<Rightarrow> tmessage_fits t \<and> length bs = n_bytes np_tmessage t \<and>
        take 4 bs = to_le_bytes 4 (of_nat (length bs) :: u32)) \<and>
   (case write_9p_bytes np_rmessage r of
      None \<Rightarrow> False
    | Some (Inl e) \<Rightarrow> \<not> rmessage_fits r
    | Some (Inr bs) \<Rightarrow> rmessage_fits r \<and> length bs = n_bytes np_rmessage r \<and>
        take 4 bs = to_le_bytes 4 (of_nat (length bs) :: u32))"
proof -
  have len: "take 4 (enc_message ty tag es) = to_le_bytes 4 (of_nat (length (enc_message ty tag es)) :: u32)"
    for ty tag es by (simp add: enc_message_def)
  show ?thesis
    using tmessage.write_9p_bytes_cases[of t] rmessage.write_9p_bytes_cases[of r]
    by (auto simp: tmessage.enc_length[symmetric] rmessage.enc_length[symmetric] enc_tmessage_def enc_rmessage_def len
        split: option.splits sum.splits)
qed



subsection \<open>Messages that panic\<close>

text \<open>
  A message whose inner length field runs past its frame, and one whose size is below four,
  panic in the reader, which ends the thread that serves the connection.
\<close>

lemma frame_overrun_panics: "read_from np_tmessage [13, 0, 0, 0, 100, 0, 0, 0, 0, 0, 0, 5, 0] = None"
  by code_simp

lemma short_frame_panics: "read_from np_tmessage [3, 0, 0, 0, 100, 0, 0] = None"
  by code_simp

end
