(* ===== verification/NinepServer.thy ===== *)
theory NinepServer
  imports NinepFs BTree
begin

text \<open>
  The 9P server: sessions and message handlers of crates/ninep/src/sansio/server.rs and
  crates/ninep/src/sync/server.rs. The filesystem behind the server, an implementation of
  the trait \<open>Serve9p\<close>, is a parameter: a record of its methods over a state of its own, which
  every call may change. A request is answered by a reply, or, when a read blocks, by
  nothing until data arrives on a channel.
\<close>

subsection \<open>The filesystem\<close>

type_synonym client_id = nat

datatype read_outcome = Immediate "u8 list" | Blocked nat

record 's serve9p =
  fs_walk :: "client_id \<Rightarrow> u64 \<Rightarrow> ustr \<Rightarrow> ustr \<Rightarrow> 's \<Rightarrow> (ustr + file_meta) \<times> 's"
  fs_open :: "client_id \<Rightarrow> u64 \<Rightarrow> u8 \<Rightarrow> ustr \<Rightarrow> 's \<Rightarrow> (ustr + u32) \<times> 's"
  fs_clunk :: "client_id \<Rightarrow> u64 \<Rightarrow> 's \<Rightarrow> 's"
  fs_create :: "client_id \<Rightarrow> u64 \<Rightarrow> ustr \<Rightarrow> u32 \<Rightarrow> u8 \<Rightarrow> ustr \<Rightarrow> 's \<Rightarrow> (ustr + file_meta \<times> u32) \<times> 's"
  fs_read :: "client_id \<Rightarrow> u64 \<Rightarrow> nat \<Rightarrow> nat \<Rightarrow> ustr \<Rightarrow> 's \<Rightarrow> (ustr + read_outcome) \<times> 's"
  fs_read_dir :: "client_id \<Rightarrow> u64 \<Rightarrow> ustr \<Rightarrow> 's \<Rightarrow> (ustr + stat list) \<times> 's"
  fs_write :: "client_id \<Rightarrow> u64 \<Rightarrow> nat \<Rightarrow> u8 list \<Rightarrow> ustr \<Rightarrow> 's \<Rightarrow> (ustr + nat) \<times> 's"
  fs_remove :: "client_id \<Rightarrow> u64 \<Rightarrow> ustr \<Rightarrow> 's \<Rightarrow> (ustr + unit) \<times> 's"
  fs_stat :: "client_id \<Rightarrow> u64 \<Rightarrow> ustr \<Rightarrow> 's \<Rightarrow> (ustr + stat) \<times> 's"
  fs_write_stat :: "client_id \<Rightarrow> u64 \<Rightarrow> stat \<Rightarrow> ustr \<Rightarrow> 's \<Rightarrow> (ustr + unit) \<times> 's"

subsection \<open>Error messages\<close>

definition E_NO_VERSION_MESSAGE :: ustr where "E_NO_VERSION_MESSAGE = lit ''first message must be Tversion''"
definition E_UNATTACHED :: ustr where "E_UNATTACHED = lit ''session is not attached''"
definition E_ALREADY_ATTACHED :: ustr where "E_ALREADY_ATTACHED = lit ''session is already attached''"
definition E_AUTH_NOT_REQUIRED :: ustr where "E_AUTH_NOT_REQUIRED = lit ''authentication not required''"
definition E_DUPLICATE_FID :: ustr where "E_DUPLICATE_FID = lit ''duplicate fid''"
definition E_UNKNOWN_FID :: ustr where "E_UNKNOWN_FID = lit ''unknown fid''"
definition E_UNKNOWN_ROOT :: ustr where "E_UNKNOWN_ROOT = lit ''unknown root directory''"
definition E_WALK_NON_DIR :: ustr where "E_WALK_NON_DIR = lit ''walk in non-directory''"
definition E_CREATE_NON_DIR :: ustr where "E_CREATE_NON_DIR = lit ''create in non-directory''"
definition E_INVALID_OFFSET :: ustr where "E_INVALID_OFFSET = lit ''invalid offset for read on directory''"

definition UNKNOWN_VERSION :: ustr where "UNKNOWN_VERSION = lit ''unknown''"
definition SUPPORTED_VERSION :: ustr where "SUPPORTED_VERSION = lit ''9P2000''"

subsection \<open>Server and sessions\<close>

record server =
  sv_msize :: u32
  sv_roots :: "(ustr, u64) btree"
  sv_qids :: "(u64, file_meta) btree"
  sv_next_client_id :: nat

definition server_new_with_roots :: "(ustr, u64) btree \<Rightarrow> server" where
  "server_new_with_roots roots =
     \<lparr>sv_msize = of_nat MAX_DATA_LEN, sv_roots = roots,
      sv_qids = btree_extend [] (map (\<lambda>(p, qid). (qid, fm_dir p qid)) roots), sv_next_client_id = 0\<rparr>"

definition server_new :: server where
  "server_new = server_new_with_roots [([], QID_ROOT)]"

record session =
  ss_client_id :: client_id
  ss_msize :: u32
  ss_roots :: "(ustr, u64) btree"
  ss_qids :: "(u64, file_meta) btree"

record attached =
  at_uname :: ustr
  at_fids :: "(u32, u64) btree"

text \<open>The two type states of a session; an unattached one knows whether it has seen a version.\<close>

datatype session_type = Unattached bool | Attached attached

definition new_session :: "server \<Rightarrow> (session_type \<times> session) \<times> server" where
  "new_session sv =
     ((Unattached False, \<lparr>ss_client_id = sv_next_client_id sv, ss_msize = sv_msize sv,
       ss_roots = sv_roots sv, ss_qids = sv_qids sv\<rparr>),
      sv\<lparr>sv_next_client_id := sv_next_client_id sv + 1\<rparr>)"

definition attached_new :: "ustr \<Rightarrow> u32 \<Rightarrow> u64 \<Rightarrow> attached" where
  "attached_new uname root_fid root_qid = \<lparr>at_uname = uname, at_fids = [(root_fid, root_qid)]\<rparr>"

definition session_qid :: "session \<Rightarrow> u64 \<Rightarrow> qid option" where
  "session_qid ss qid = map_option as_qid (map_of (ss_qids ss) qid)"

text \<open>The state a handler works on: the attached session and the filesystem.\<close>

record 's server_state =
  x_att :: attached
  x_ses :: session
  x_fs :: 's

definition try_file_meta :: "'s server_state \<Rightarrow> u32 \<Rightarrow> ustr + file_meta" where
  "try_file_meta x fid =
     (case (case map_of (at_fids (x_att x)) fid of
              Some qid \<Rightarrow> map_of (ss_qids (x_ses x)) qid
            | None \<Rightarrow> None) of
        Some fm \<Rightarrow> Inr fm
      | None \<Rightarrow> Inl E_UNKNOWN_FID)"

definition insert_fid :: "u32 \<Rightarrow> u64 \<Rightarrow> 's server_state \<Rightarrow> 's server_state" where
  "insert_fid fid qid x = x\<lparr>x_att := (x_att x)\<lparr>at_fids := btree_insert fid qid (at_fids (x_att x))\<rparr>\<rparr>"

definition map_qids :: "((u64, file_meta) btree \<Rightarrow> (u64, file_meta) btree) \<Rightarrow> 's server_state \<Rightarrow> 's server_state" where
  "map_qids f x = x\<lparr>x_ses := (x_ses x)\<lparr>ss_qids := f (ss_qids (x_ses x))\<rparr>\<rparr>"

subsection \<open>Version, auth and attach\<close>

definition handle_version :: "session \<Rightarrow> u32 \<Rightarrow> ustr \<Rightarrow> rdata" where
  "handle_version ss msize version =
     (let server_version = if version \<noteq> SUPPORTED_VERSION then UNKNOWN_VERSION else SUPPORTED_VERSION
      in RVersion (min (ss_msize ss) msize) server_version)"

definition handle_auth :: "u32 \<Rightarrow> ustr \<Rightarrow> ustr \<Rightarrow> ustr + rdata" where
  "handle_auth afid uname aname = Inl E_AUTH_NOT_REQUIRED"

text \<open>\<open>expect("to have root qid")\<close> panics.\<close>

definition handle_attach :: "session \<Rightarrow> u32 \<Rightarrow> u32 \<Rightarrow> ustr \<Rightarrow> ustr \<Rightarrow> (ustr + attached \<times> qid) option" where
  "handle_attach ss root_fid afid uname aname =
     (case map_of (ss_roots ss) aname of
        None \<Rightarrow> Some (Inl E_UNKNOWN_ROOT)
      | Some root_qid \<Rightarrow> do {
          aqid \<leftarrow> session_qid ss root_qid;
          Some (Inr (attached_new uname root_fid root_qid, aqid))
        })"

text \<open>The reply to a message, and the session that goes on.\<close>

definition handle_tmessage_unattached ::
  "bool \<Rightarrow> session \<Rightarrow> tdata \<Rightarrow> ((ustr + rdata) \<times> session_type) option" where
  "handle_tmessage_unattached seen_version ss content =
     (case content of
        TVersion msize version \<Rightarrow>
          Some (Inr (handle_version ss msize version), Unattached (version = SUPPORTED_VERSION))
      | TAuth afid uname aname \<Rightarrow>
          if \<not> seen_version then Some (Inl E_NO_VERSION_MESSAGE, Unattached seen_version)
          else Some (handle_auth afid uname aname, Unattached seen_version)
      | TAttach fid afid uname aname \<Rightarrow>
          if \<not> seen_version then Some (Inl E_NO_VERSION_MESSAGE, Unattached seen_version)
          else do {
            r \<leftarrow> handle_attach ss fid afid uname aname;
            Some (case r of
                    Inl e \<Rightarrow> (Inl e, Unattached seen_version)
                  | Inr (st, aqid) \<Rightarrow> (Inr (RAttach aqid), Attached st))
          }
      | _ \<Rightarrow> Some (Inl E_UNATTACHED, Unattached seen_version))"

subsection \<open>Walk\<close>

text \<open>
  The loop over the names of a walk, with the call to the filesystem that its caller makes
  for each of them: an error of the filesystem ends the request.
\<close>

fun walk_names ::
  "'s serve9p \<Rightarrow> u64 \<Rightarrow> ustr list \<Rightarrow> qid list \<Rightarrow> 's server_state \<Rightarrow> (ustr + qid list) \<times> 's server_state" where
  "walk_names srv qid [] wqids x = (Inr wqids, x)"
| "walk_names srv qid (name # names) wqids x =
     (case fs_walk srv (ss_client_id (x_ses x)) qid name (at_uname (x_att x)) (x_fs x) of
        (Inl e, s) \<Rightarrow> (Inl e, x\<lparr>x_fs := s\<rparr>)
      | (Inr fm, s) \<Rightarrow>
          walk_names srv (fm_qid fm) names (wqids @ [as_qid fm])
            (map_qids (btree_insert (fm_qid fm) fm) (x\<lparr>x_fs := s\<rparr>)))"

definition handle_walk ::
  "'s serve9p \<Rightarrow> u32 \<Rightarrow> u32 \<Rightarrow> ustr list \<Rightarrow> 's server_state \<Rightarrow> (ustr + rdata) \<times> 's server_state" where
  "handle_walk srv fid new_fid wnames x =
     (if new_fid \<noteq> fid \<and> map_of (at_fids (x_att x)) new_fid \<noteq> None then (Inl E_DUPLICATE_FID, x)
      else case try_file_meta x fid of
        Inl e \<Rightarrow> (Inl e, x)
      | Inr fm \<Rightarrow>
          if wnames = [] then (Inr (RWalk []), insert_fid new_fid (fm_qid fm) x)
          else if fm_ty fm = Regular then (Inl E_WALK_NON_DIR, x)
          else case walk_names srv (fm_qid fm) wnames [] x of
            (Inl e, x) \<Rightarrow> (Inl e, x)
          | (Inr wqids, x) \<Rightarrow>
              (Inr (RWalk wqids),
               if length wqids = length wnames then insert_fid new_fid (q_path (last wqids)) x else x))"

subsection \<open>Files\<close>

definition handle_clunk :: "'s serve9p \<Rightarrow> u32 \<Rightarrow> 's server_state \<Rightarrow> (ustr + rdata) \<times> 's server_state" where
  "handle_clunk srv fid x =
     (case map_of (at_fids (x_att x)) fid of
        Some qid \<Rightarrow>
          (Inr RClunk,
           x\<lparr>x_att := (x_att x)\<lparr>at_fids := btree_remove fid (at_fids (x_att x))\<rparr>,
             x_fs := fs_clunk srv (ss_client_id (x_ses x)) qid (x_fs x)\<rparr>)
      | None \<Rightarrow> (Inl E_UNKNOWN_FID, x))"

text \<open>The sum of two \<open>u16\<close> panics when it overflows.\<close>

definition handle_stat ::
  "'s serve9p \<Rightarrow> u32 \<Rightarrow> 's server_state \<Rightarrow> ((ustr + rdata) \<times> 's server_state) option" where
  "handle_stat srv fid x =
     (case try_file_meta x fid of
        Inl e \<Rightarrow> Some (Inl e, x)
      | Inr fm \<Rightarrow>
          (case fs_stat srv (ss_client_id (x_ses x)) (fm_qid fm) (at_uname (x_att x)) (x_fs x) of
             (Inl e, s) \<Rightarrow> Some (Inl e, x\<lparr>x_fs := s\<rparr>)
           | (Inr st, s) \<Rightarrow>
               let stat = raw_stat_from_stat st
               in if unat (rs_size stat) + 2 < 2 ^ 16
                  then Some (Inr (RStat (rs_size stat + 2) stat), x\<lparr>x_fs := s\<rparr>) else None))"

definition handle_wstat ::
  "'s serve9p \<Rightarrow> u32 \<Rightarrow> raw_stat \<Rightarrow> 's server_state \<Rightarrow> (ustr + rdata) \<times> 's server_state" where
  "handle_wstat srv fid raw_stat x =
     (case stat_try_from_raw raw_stat of
        Inl e \<Rightarrow> (Inl e, x)
      | Inr stat \<Rightarrow>
          (case try_file_meta x fid of
             Inl e \<Rightarrow> (Inl e, x)
           | Inr fm \<Rightarrow>
               (case fs_write_stat srv (ss_client_id (x_ses x)) (fm_qid fm) stat (at_uname (x_att x)) (x_fs x) of
                  (Inl e, s) \<Rightarrow> (Inl e, x\<lparr>x_fs := s\<rparr>)
                | (Inr _, s) \<Rightarrow> (Inr RWstat, x\<lparr>x_fs := s\<rparr>))))"

definition handle_open ::
  "'s serve9p \<Rightarrow> u32 \<Rightarrow> u8 \<Rightarrow> 's server_state \<Rightarrow> (ustr + rdata) \<times> 's server_state" where
  "handle_open srv fid mode x =
     (case try_file_meta x fid of
        Inl e \<Rightarrow> (Inl e, x)
      | Inr fm \<Rightarrow>
          (case fs_open srv (ss_client_id (x_ses x)) (fm_qid fm) mode (at_uname (x_att x)) (x_fs x) of
             (Inl e, s) \<Rightarrow> (Inl e, x\<lparr>x_fs := s\<rparr>)
           | (Inr iounit, s) \<Rightarrow> (Inr (ROpen (as_qid fm) iounit), x\<lparr>x_fs := s\<rparr>)))"

definition handle_create ::
  "'s serve9p \<Rightarrow> u32 \<Rightarrow> ustr \<Rightarrow> u32 \<Rightarrow> u8 \<Rightarrow> 's server_state \<Rightarrow> (ustr + rdata) \<times> 's server_state" where
  "handle_create srv fid name perm mode x =
     (case try_file_meta x fid of
        Inl e \<Rightarrow> (Inl e, x)
      | Inr fm \<Rightarrow>
          if fm_ty fm \<noteq> Directory then (Inl E_CREATE_NON_DIR, x)
          else
            (case fs_create srv (ss_client_id (x_ses x)) (fm_qid fm) name perm mode (at_uname (x_att x)) (x_fs x) of
               (Inl e, s) \<Rightarrow> (Inl e, x\<lparr>x_fs := s\<rparr>)
             | (Inr (fm, iounit), s) \<Rightarrow>
                 (Inr (RCreate (as_qid fm) iounit),
                  map_qids (btree_or_insert (fm_qid fm) fm) (insert_fid fid (fm_qid fm) (x\<lparr>x_fs := s\<rparr>)))))"

definition offset_too_large :: "u64 \<Rightarrow> ustr" where
  "offset_too_large offset =
     lit ''offset too large: '' @ digits 10 (unat offset) @ lit '' > '' @ digits 10 (2 ^ 32 - 1)"

text \<open>
  The entries of a directory: those before the offset are skipped, and entries follow as long
  as they fit. An entry that cannot be written panics.
\<close>

fun read_entries ::
  "stat list \<Rightarrow> nat \<Rightarrow> nat \<Rightarrow> u8 list \<Rightarrow> (u64, file_meta) btree \<Rightarrow>
   ((ustr + u8 list) \<times> (u64, file_meta) btree) option" where
  "read_entries [] to_skip count buf qids = Some (Inr buf, qids)"
| "read_entries (stat # stats) to_skip count buf qids =
     (let qids = btree_or_insert (fm_qid (st_fm stat)) (st_fm stat) qids
      in case write_9p_bytes np_raw_stat (raw_stat_from_stat stat) of
           Some (Inr tmp) \<Rightarrow>
             if to_skip \<noteq> 0 then
               if to_skip < length tmp then Some (Inl E_INVALID_OFFSET, qids)
               else read_entries stats (to_skip - length tmp) count buf qids
             else if count < length buf + length tmp then Some (Inr buf, qids)
             else read_entries stats to_skip count (buf @ tmp) qids
         | _ \<Rightarrow> None)"

datatype read_reply = ReadReply rdata | ReadBlocked nat

definition handle_read ::
  "'s serve9p \<Rightarrow> u32 \<Rightarrow> u64 \<Rightarrow> u32 \<Rightarrow> 's server_state \<Rightarrow> ((ustr + read_reply) \<times> 's server_state) option" where
  "handle_read srv fid offset count x =
     (case try_file_meta x fid of
        Inl e \<Rightarrow> Some (Inl e, x)
      | Inr fm \<Rightarrow>
          if 2 ^ 32 - 1 < unat offset then Some (Inl (offset_too_large offset), x)
          else if fm_ty fm = Directory then
            (case fs_read_dir srv (ss_client_id (x_ses x)) (fm_qid fm) (at_uname (x_att x)) (x_fs x) of
               (Inl e, s) \<Rightarrow> Some (Inl e, x\<lparr>x_fs := s\<rparr>)
             | (Inr stats, s) \<Rightarrow>
                 (case read_entries stats (unat offset) (unat count) [] (ss_qids (x_ses x)) of
                    None \<Rightarrow> None
                  | Some (r, qids) \<Rightarrow>
                      Some (case r of Inl e \<Rightarrow> Inl e | Inr buf \<Rightarrow> Inr (ReadReply (RRead buf)),
                            map_qids (\<lambda>_. qids) (x\<lparr>x_fs := s\<rparr>))))
          else
            (case fs_read srv (ss_client_id (x_ses x)) (fm_qid fm) (unat offset) (unat count) (at_uname (x_att x)) (x_fs x) of
               (Inl e, s) \<Rightarrow> Some (Inl e, x\<lparr>x_fs := s\<rparr>)
             | (Inr (Immediate data), s) \<Rightarrow> Some (Inr (ReadReply (RRead data)), x\<lparr>x_fs := s\<rparr>)
             | (Inr (Blocked chan), s) \<Rightarrow> Some (Inr (ReadBlocked chan), x\<lparr>x_fs := s\<rparr>)))"

definition handle_write ::
  "'s serve9p \<Rightarrow> u32 \<Rightarrow> u64 \<Rightarrow> u8 list \<Rightarrow> 's server_state \<Rightarrow> (ustr + rdata) \<times> 's server_state" where
  "handle_write srv fid offset data x =
     (case try_file_meta x fid of
        Inl e \<Rightarrow> (Inl e, x)
      | Inr fm \<Rightarrow>
          if 2 ^ 32 - 1 < unat offset then (Inl (offset_too_large offset), x)
          else
            (case fs_write srv (ss_client_id (x_ses x)) (fm_qid fm) (unat offset) data (at_uname (x_att x)) (x_fs x) of
               (Inl e, s) \<Rightarrow> (Inl e, x\<lparr>x_fs := s\<rparr>)
             | (Inr count, s) \<Rightarrow> (Inr (RWrite (of_nat count)), x\<lparr>x_fs := s\<rparr>)))"

definition handle_remove :: "'s serve9p \<Rightarrow> u32 \<Rightarrow> 's server_state \<Rightarrow> (ustr + rdata) \<times> 's server_state" where
  "handle_remove srv fid x =
     (case try_file_meta x fid of
        Inl e \<Rightarrow> (Inl e, x)
      | Inr fm \<Rightarrow>
          (case fs_remove srv (ss_client_id (x_ses x)) (fm_qid fm) (at_uname (x_att x)) (x_fs x) of
             (Inl e, s) \<Rightarrow> (Inl e, x\<lparr>x_fs := s\<rparr>)
           | (Inr _, s) \<Rightarrow> (Inr RRemove, x\<lparr>x_fs := s\<rparr>)))"

definition clunk_and_clear :: "'s serve9p \<Rightarrow> 's server_state \<Rightarrow> 's server_state" where
  "clunk_and_clear srv x =
     x\<lparr>x_fs := fold (\<lambda>(_, qid). fs_clunk srv (ss_client_id (x_ses x)) qid) (at_fids (x_att x)) (x_fs x),
       x_att := (x_att x)\<lparr>at_fids := []\<rparr>\<rparr>"

subsection \<open>Connections\<close>

text \<open>The answer to a message: a reply, or a read that waits for a channel.\<close>

datatype answer = Reply "ustr + rdata" | Waiting nat

definition handle_attached ::
  "'s serve9p \<Rightarrow> tdata \<Rightarrow> 's server_state \<Rightarrow> (answer \<times> 's server_state) option" where
  "handle_attached srv content x =
     (case content of
        TAuth _ _ _ \<Rightarrow> Some (Reply (Inl E_ALREADY_ATTACHED), x)
      | TAttach _ _ _ _ \<Rightarrow> Some (Reply (Inl E_ALREADY_ATTACHED), x)
      | TFlush _ \<Rightarrow> Some (Reply (Inr RFlush), x)
      | TVersion msize version \<Rightarrow>
          Some (Reply (Inr (handle_version (x_ses x) msize version)), clunk_and_clear srv x)
      | TWalk fid new_fid wnames \<Rightarrow> Some (apfst Reply (handle_walk srv fid new_fid wnames x))
      | TClunk fid \<Rightarrow> Some (apfst Reply (handle_clunk srv fid x))
      | TStat fid \<Rightarrow> map_option (apfst Reply) (handle_stat srv fid x)
      | TOpen fid mode \<Rightarrow> Some (apfst Reply (handle_open srv fid (mode_new mode) x))
      | TCreate fid name perm mode \<Rightarrow>
          Some (apfst Reply (handle_create srv fid name (perm_new perm) (mode_new mode) x))
      | TRead fid offset count \<Rightarrow> do {
          (r, x) \<leftarrow> handle_read srv fid offset count x;
          Some (case r of
                  Inl e \<Rightarrow> Reply (Inl e)
                | Inr (ReadReply d) \<Rightarrow> Reply (Inr d)
                | Inr (ReadBlocked chan) \<Rightarrow> Waiting chan, x)
        }
      | TWrite fid offset data \<Rightarrow> Some (apfst Reply (handle_write srv fid offset data x))
      | TRemove fid \<Rightarrow> Some (apfst Reply (handle_remove srv fid x))
      | TWstat fid _ stat \<Rightarrow> Some (apfst Reply (handle_wstat srv fid stat x)))"

text \<open>A connection in either type state, and one round of its loop.\<close>

record 's connection =
  c_type :: session_type
  c_ses :: session
  c_fs :: 's

definition connection_step ::
  "'s serve9p \<Rightarrow> tmessage \<Rightarrow> 's connection \<Rightarrow> ((u16 \<times> answer) \<times> 's connection) option" where
  "connection_step srv m c =
     (case c_type c of
        Unattached seen_version \<Rightarrow> do {
          (resp, ty) \<leftarrow> handle_tmessage_unattached seen_version (c_ses c) (tm_content m);
          Some ((tm_tag m, Reply resp), c\<lparr>c_type := ty\<rparr>)
        }
      | Attached att \<Rightarrow> do {
          (ans, x) \<leftarrow> handle_attached srv (tm_content m) \<lparr>x_att = att, x_ses = c_ses c, x_fs = c_fs c\<rparr>;
          Some ((tm_tag m, ans), \<lparr>c_type = Attached (x_att x), c_ses = x_ses x, c_fs = x_fs x\<rparr>)
        })"

text \<open>
  \<open>reply\<close>: the bytes that are written to the stream. A message that cannot be written is
  dropped, since the result of \<open>write_to\<close> is ignored.
\<close>

definition rmessage_from :: "u16 \<Rightarrow> ustr + rdata \<Rightarrow> rmessage" where
  "rmessage_from tag resp =
     \<lparr>rm_tag = tag, rm_content = (case resp of Inl ename \<Rightarrow> RError ename | Inr d \<Rightarrow> d)\<rparr>"

definition reply_bytes :: "u16 \<Rightarrow> ustr + rdata \<Rightarrow> u8 list option" where
  "reply_bytes tag resp =
     (case write_9p_bytes np_rmessage (rmessage_from tag resp) of
        None \<Rightarrow> None
      | Some (Inl _) \<Rightarrow> Some []
      | Some (Inr bs) \<Rightarrow> Some bs)"

text \<open>What happens when no further message can be read: an attached session clunks its fids.\<close>

definition connection_end :: "'s serve9p \<Rightarrow> 's connection \<Rightarrow> 's connection" where
  "connection_end srv c =
     (case c_type c of
        Unattached _ \<Rightarrow> c
      | Attached att \<Rightarrow>
          let x = clunk_and_clear srv \<lparr>x_att = att, x_ses = c_ses c, x_fs = c_fs c\<rparr>
          in \<lparr>c_type = Attached (x_att x), c_ses = x_ses x, c_fs = x_fs x\<rparr>)"

lemma tmessage_read_length:
  "read_from np_tmessage bs = Some (Inr (m, bs')) \<Longrightarrow> length bs' < length bs"
  by (auto simp: read_from_def np_tmessage_def message_read_9p_def try_bind_Inr np_u32_def np_uint_def
      split: option.splits dest!: as_slice_to_length)

text \<open>
  \<open>handle_connection\<close> on everything a client sends: the bytes written back, the reads that are
  still waiting with their tags, and the connection at the end.
\<close>

function serve_stream ::
  "'s serve9p \<Rightarrow> u8 list \<Rightarrow> 's connection \<Rightarrow> (u8 list \<times> (u16 \<times> nat) list \<times> 's connection) option" where
  "serve_stream srv input c =
     (case read_from np_tmessage input of
        None \<Rightarrow> None
      | Some (Inl _) \<Rightarrow> Some ([], [], connection_end srv c)
      | Some (Inr (m, rest)) \<Rightarrow>
          (case connection_step srv m c of
             None \<Rightarrow> None
           | Some ((tag, ans), c) \<Rightarrow>
               (case ans of
                  Waiting chan \<Rightarrow> do {
                    (output, waiting, c) \<leftarrow> serve_stream srv rest c;
                    Some (output, (tag, chan) # waiting, c)
                  }
                | Reply resp \<Rightarrow> do {
                    bs \<leftarrow> reply_bytes tag resp;
                    (output, waiting, c) \<leftarrow> serve_stream srv rest c;
                    Some (bs @ output, waiting, c)
                  })))"
  by pat_completeness auto
termination
  by (relation "measure (\<lambda>(_, input, _). length input)") (auto dest!: tmessage_read_length)

declare serve_stream.simps [simp del]

end
