(* ===== verification/NinepSession.thy ===== *)
theory NinepSession
  imports NinepServer NinepMessageCodec
begin

text \<open>
  Sessions of the 9P server: the invariant of the fid table, runs of messages, and the
  behaviour of the handlers.
\<close>

subsection \<open>The invariant of a session\<close>

text \<open>
  Every fid names a file whose metadata the session holds under its own qid, and so does
  every root.
\<close>

definition qids_ok :: "(u64, file_meta) btree \<Rightarrow> bool" where
  "qids_ok qids \<longleftrightarrow> btree_ok qids \<and> (\<forall>q fm. map_of qids q = Some fm \<longrightarrow> fm_qid fm = q)"

definition session_ok :: "session \<Rightarrow> bool" where
  "session_ok ss \<longleftrightarrow> qids_ok (ss_qids ss) \<and> ran (map_of (ss_roots ss)) \<subseteq> dom (map_of (ss_qids ss))"

definition state_ok :: "'s server_state \<Rightarrow> bool" where
  "state_ok x \<longleftrightarrow> session_ok (x_ses x) \<and> btree_ok (at_fids (x_att x)) \<and>
     ran (map_of (at_fids (x_att x))) \<subseteq> dom (map_of (ss_qids (x_ses x)))"

definition connection_ok :: "'s connection \<Rightarrow> bool" where
  "connection_ok c \<longleftrightarrow>
     (case c_type c of
        Unattached _ \<Rightarrow> session_ok (c_ses c)
      | Attached att \<Rightarrow> state_ok \<lparr>x_att = att, x_ses = c_ses c, x_fs = c_fs c\<rparr>)"

named_theorems state_simps "the parts of a state after an update"

lemma state_updates [state_simps]:
  "state_ok (x\<lparr>x_fs := s\<rparr>) \<longleftrightarrow> state_ok x"
  "x_att (insert_fid fid q x) = (x_att x)\<lparr>at_fids := btree_insert fid q (at_fids (x_att x))\<rparr>"
  "x_ses (insert_fid fid q x) = x_ses x" "x_fs (insert_fid fid q x) = x_fs x"
  "x_att (map_qids f x) = x_att x" "x_fs (map_qids f x) = x_fs x"
  "x_ses (map_qids f x) = (x_ses x)\<lparr>ss_qids := f (ss_qids (x_ses x))\<rparr>"
  by (simp_all add: state_ok_def insert_fid_def map_qids_def)

lemma state_ok_eta [state_simps]:
  "state_ok \<lparr>x_att = x_att x, x_ses = x_ses x, x_fs = s\<rparr> \<longleftrightarrow> state_ok x"
  by (simp add: state_ok_def)

lemma qids_ok_insert: "qids_ok m \<Longrightarrow> fm_qid fm = q \<Longrightarrow> qids_ok (btree_insert q fm m)"
  by (auto simp: qids_ok_def)

lemma qids_ok_or_insert: "qids_ok m \<Longrightarrow> fm_qid fm = q \<Longrightarrow> qids_ok (btree_or_insert q fm m)"
  by (auto simp: qids_ok_insert btree_or_insert_def)

lemma dom_btree_insert: "qids_ok m \<Longrightarrow> dom (map_of (btree_insert q fm m)) = insert q (dom (map_of m))"
  by (simp add: qids_ok_def)

lemma dom_btree_or_insert:
  "qids_ok m \<Longrightarrow> dom (map_of (btree_or_insert q fm m)) = insert q (dom (map_of m))"
  by (auto simp: btree_or_insert_def dom_btree_insert)

lemma state_ok_map_qids:
  assumes "state_ok x" "qids_ok (f (ss_qids (x_ses x)))"
    and "dom (map_of (ss_qids (x_ses x))) \<subseteq> dom (map_of (f (ss_qids (x_ses x))))"
  shows "state_ok (map_qids f x)"
proof -
  note sub = subset_trans[OF _ assms(3)]
  show ?thesis
    using assms(1,2) by (simp add: state_ok_def session_ok_def state_simps sub)
qed

lemma state_ok_insert_qid:
  "state_ok x \<Longrightarrow> state_ok (map_qids (btree_insert (fm_qid fm) fm) x)"
  by (rule state_ok_map_qids)
    (auto simp: state_ok_def session_ok_def qids_ok_insert dom_btree_insert)

lemma state_ok_insert_fid:
  "state_ok x \<Longrightarrow> q \<in> dom (map_of (ss_qids (x_ses x))) \<Longrightarrow> state_ok (insert_fid fid q x)"
  by (auto simp: state_ok_def state_simps ran_def split: if_splits)

lemma try_file_meta_ok:
  "state_ok x \<Longrightarrow> try_file_meta x fid =
     (case map_of (at_fids (x_att x)) fid of
        None \<Rightarrow> Inl E_UNKNOWN_FID
      | Some q \<Rightarrow> Inr (the (map_of (ss_qids (x_ses x)) q)))"
  by (auto simp: try_file_meta_def state_ok_def ran_def split: option.splits)

lemma try_file_meta_qid:
  "state_ok x \<Longrightarrow> try_file_meta x fid = Inr fm \<Longrightarrow>
   map_of (at_fids (x_att x)) fid = Some (fm_qid fm) \<and> map_of (ss_qids (x_ses x)) (fm_qid fm) = Some fm"
  by (auto simp: try_file_meta_def state_ok_def session_ok_def qids_ok_def split: option.splits)

subsection \<open>Walk\<close>

lemma walk_names_spec:
  "walk_names srv qid names wqids x = (r, x') \<Longrightarrow> state_ok x \<Longrightarrow>
   state_ok x' \<and> x_att x' = x_att x \<and> ss_roots (x_ses x') = ss_roots (x_ses x) \<and>
   dom (map_of (ss_qids (x_ses x))) \<subseteq> dom (map_of (ss_qids (x_ses x'))) \<and>
   (case r of
      Inl e \<Rightarrow> True
    | Inr qs \<Rightarrow> \<exists>ws. qs = wqids @ ws \<and> length ws = length names \<and>
        (ws \<noteq> [] \<longrightarrow> q_path (last ws) \<in> dom (map_of (ss_qids (x_ses x')))))"
proof (induction srv qid names wqids x rule: walk_names.induct)
  case (1 srv qid wqids x)
  then show ?case by auto
next
  case (2 srv qid name names wqids x)
  obtain res s where res: "fs_walk srv (ss_client_id (x_ses x)) qid name (at_uname (x_att x)) (x_fs x) = (res, s)"
    by fastforce
  show ?case
  proof (cases res)
    case (Inl e)
    then show ?thesis using 2(2,3) res by (auto simp: state_simps)
  next
    case (Inr fm)
    let ?x = "map_qids (btree_insert (fm_qid fm) fm) (x\<lparr>x_fs := s\<rparr>)"
    have ok: "state_ok ?x" using 2(3) by (simp add: state_ok_insert_qid state_simps)
    have "walk_names srv (fm_qid fm) names (wqids @ [as_qid fm]) ?x = (r, x')"
      using 2(2) res Inr by simp
    note IH = 2(1)[OF res[symmetric] Inr this ok]
    have qids: "qids_ok (ss_qids (x_ses x))" using 2(3) by (simp add: state_ok_def session_ok_def)
    have "fm_qid fm \<in> dom (map_of (ss_qids (x_ses x')))"
      using IH dom_btree_insert[OF qids, of "fm_qid fm" fm] by (auto simp: state_simps)
    then show ?thesis
      using IH dom_btree_insert[OF qids, of "fm_qid fm" fm]
      by (auto simp: state_simps as_qid_def split: sum.splits) 
  qed
qed

text \<open>
  A walk: the fid table changes only when it succeeds, and then only at the new fid, which
  names the last file of the walk, or the file of the old fid when no names are given.
\<close>

lemma handle_walk_spec:
  assumes "handle_walk srv fid new_fid wnames x = (r, x')" "state_ok x"
  shows "state_ok x' \<and>
    (case r of
       Inl e \<Rightarrow> x_att x' = x_att x
     | Inr d \<Rightarrow> \<exists>wqids q. d = RWalk wqids \<and> length wqids = length wnames \<and>
         (new_fid = fid \<or> map_of (at_fids (x_att x)) new_fid = None) \<and>
         (if wnames = [] then map_of (at_fids (x_att x)) fid = Some q else q = q_path (last wqids)) \<and>
         x_att x' = (x_att x)\<lparr>at_fids := btree_insert new_fid q (at_fids (x_att x))\<rparr>)"
proof (cases "new_fid \<noteq> fid \<and> map_of (at_fids (x_att x)) new_fid \<noteq> None")
  case True
  then show ?thesis using assms by (auto simp: handle_walk_def)
next
  case free: False
  show ?thesis
  proof (cases "try_file_meta x fid")
    case (Inl e)
    then show ?thesis using assms free by (auto simp: handle_walk_def)
  next
    case (Inr fm)
    note fm = try_file_meta_qid[OF assms(2) Inr]
    show ?thesis
    proof (cases "wnames = [] \<or> fm_ty fm = Regular")
      case True
      then show ?thesis
        using assms free Inr fm state_ok_insert_fid[OF assms(2), of "fm_qid fm" new_fid]
        by (auto simp: handle_walk_def state_simps split: if_splits)
    next
      case False
      obtain res x1 where w: "walk_names srv (fm_qid fm) wnames [] x = (res, x1)" by fastforce
      note spec = walk_names_spec[OF w assms(2)]
      show ?thesis
      proof (cases res)
        case (Inl e)
        then show ?thesis using assms free Inr False w spec by (auto simp: handle_walk_def)
      next
        case (Inr ws)
        then have len: "length ws = length wnames" "ws \<noteq> []" "q_path (last ws) \<in> dom (map_of (ss_qids (x_ses x1)))"
          using spec False by auto
        have "r = Inr (RWalk ws)" "x' = insert_fid new_fid (q_path (last ws)) x1"
          using assms(1) free \<open>try_file_meta x fid = Inr fm\<close> False w Inr len
          by (auto simp: handle_walk_def split: if_splits)
        then show ?thesis
          using spec len free False state_ok_insert_fid[of x1 "q_path (last ws)" new_fid]
          by (auto simp: state_simps)
      qed
    qed
  qed
qed

subsection \<open>Every handler keeps the invariant\<close>

lemma handle_clunk_ok: "handle_clunk srv fid x = (r, x') \<Longrightarrow> state_ok x \<Longrightarrow> state_ok x'"
proof -
  have "ran (map_of (btree_remove fid m)) \<subseteq> ran (map_of m)" for m :: "(u32, u64) btree"
    by (auto simp: ran_def split: if_splits)
  note sub = subset_trans[OF this]
  show "handle_clunk srv fid x = (r, x') \<Longrightarrow> state_ok x \<Longrightarrow> state_ok x'"
    by (auto simp add: handle_clunk_def state_ok_def simp del: map_of_btree_remove split: option.splits dest: subsetD[OF sub])
qed

lemma handle_stat_ok: "handle_stat srv fid x = Some (r, x') \<Longrightarrow> state_ok x \<Longrightarrow> state_ok x'"
  by (auto simp: handle_stat_def Let_def state_simps split: sum.splits prod.splits if_splits)

lemma handle_wstat_ok: "handle_wstat srv fid raw x = (r, x') \<Longrightarrow> state_ok x \<Longrightarrow> state_ok x'"
  by (auto simp: handle_wstat_def state_simps split: sum.splits prod.splits if_splits)

lemma handle_open_ok: "handle_open srv fid mode x = (r, x') \<Longrightarrow> state_ok x \<Longrightarrow> state_ok x'"
  by (auto simp: handle_open_def state_simps split: sum.splits prod.splits if_splits)

lemma handle_write_ok: "handle_write srv fid offset data x = (r, x') \<Longrightarrow> state_ok x \<Longrightarrow> state_ok x'"
  by (auto simp: handle_write_def state_simps split: sum.splits prod.splits if_splits)

lemma handle_remove_ok: "handle_remove srv fid x = (r, x') \<Longrightarrow> state_ok x \<Longrightarrow> state_ok x'"
  by (auto simp: handle_remove_def state_simps split: sum.splits prod.splits if_splits)

lemma insert_created:
  assumes "state_ok x"
  shows "state_ok (map_qids (btree_or_insert (fm_qid fm) fm) (insert_fid fid (fm_qid fm) x))"
proof -
  have qids: "qids_ok (ss_qids (x_ses x))" using assms by (simp add: state_ok_def session_ok_def)
  have "state_ok (map_qids (btree_or_insert (fm_qid fm) fm) x)"
    using assms qids by (intro state_ok_map_qids) (auto simp: qids_ok_or_insert dom_btree_or_insert)
  then have "state_ok (insert_fid fid (fm_qid fm) (map_qids (btree_or_insert (fm_qid fm) fm) x))"
    using qids by (intro state_ok_insert_fid) (auto simp: state_simps dom_btree_or_insert)
  then show ?thesis by (cases x) (simp add: insert_fid_def map_qids_def)
qed

lemma handle_create_ok: "handle_create srv fid name perm mode x = (r, x') \<Longrightarrow> state_ok x \<Longrightarrow> state_ok x'"
  by (auto simp: handle_create_def state_simps insert_created split: sum.splits prod.splits if_splits)

lemma read_entries_ok:
  "read_entries stats skip count buf qids = Some (r, qids') \<Longrightarrow> qids_ok qids \<Longrightarrow>
   qids_ok qids' \<and> dom (map_of qids) \<subseteq> dom (map_of qids')"
proof (induction stats skip count buf qids rule: read_entries.induct)
  case (2 stat stats skip count buf qids)
  let ?q = "btree_or_insert (fm_qid (st_fm stat)) (st_fm stat) qids"
  have q: "qids_ok ?q" "dom (map_of qids) \<subseteq> dom (map_of ?q)"
    using 2(4) by (auto simp: qids_ok_or_insert dom_btree_or_insert)
  obtain tmp where tmp: "write_9p_bytes np_raw_stat (raw_stat_from_stat stat) = Some (Inr tmp)"
    using 2(3) by (auto simp: Let_def split: option.splits sum.splits)
  consider "qids' = ?q" | "read_entries stats (skip - length tmp) count buf ?q = Some (r, qids')" "skip \<noteq> 0" "\<not> skip < length tmp"
    | "read_entries stats skip count (buf @ tmp) ?q = Some (r, qids')" "\<not> skip \<noteq> 0" "\<not> count < length buf + length tmp"
    using 2(3) tmp by (auto simp: Let_def split: if_splits)
  then show ?case
  proof cases
    case 1
    then show ?thesis using q by simp
  next
    case 2
    then show ?thesis using "2.IH"(1)[OF refl tmp refl] q by auto
  next
    case 3
    then show ?thesis using "2.IH"(2)[OF refl tmp refl] q by auto
  qed
qed auto

lemma handle_read_ok:
  assumes "handle_read srv fid offset count x = Some (r, x')" "state_ok x"
  shows "state_ok x'"
proof -
  have qids: "qids_ok (ss_qids (x_ses x))" using assms(2) by (simp add: state_ok_def session_ok_def)
  have "state_ok (map_qids (\<lambda>_. qids) (x\<lparr>x_fs := s\<rparr>))"
    if "read_entries stats (unat offset) (unat count) [] (ss_qids (x_ses x)) = Some (res, qids)" for stats res qids s
    using read_entries_ok[OF that qids] assms(2) by (intro state_ok_map_qids) (simp_all add: state_simps)
  then show ?thesis
    using assms
    by (auto simp: handle_read_def state_simps
        split: sum.splits prod.splits if_splits option.splits read_outcome.splits)
qed

lemma clunk_and_clear_ok: "state_ok x \<Longrightarrow> state_ok (clunk_and_clear srv x)"
  by (auto simp: clunk_and_clear_def state_ok_def)

lemma handle_attached_ok:
  assumes "handle_attached srv content x = Some (a, x')" "state_ok x"
  shows "state_ok x'"
proof (cases content)
  case (TWalk fid new_fid wnames)
  then show ?thesis
    using assms handle_walk_spec[of srv fid new_fid wnames x] by (cases "handle_walk srv fid new_fid wnames x")
      (auto simp: handle_attached_def)
next
  case (TRead fid offset count)
  then show ?thesis
    using assms handle_read_ok[of srv fid offset count x] by (auto simp: handle_attached_def bind_eq_Some_conv)
next
  case (TClunk fid)
  then show ?thesis
    using assms handle_clunk_ok[of srv fid x] by (cases "handle_clunk srv fid x") (auto simp: handle_attached_def)
next
  case (TOpen fid mode)
  then show ?thesis
    using assms handle_open_ok[of srv fid "mode_new mode" x]
    by (cases "handle_open srv fid (mode_new mode) x") (auto simp: handle_attached_def)
next
  case (TCreate fid name perm mode)
  then show ?thesis
    using assms handle_create_ok[of srv fid name "perm_new perm" "mode_new mode" x]
    by (cases "handle_create srv fid name (perm_new perm) (mode_new mode) x") (auto simp: handle_attached_def)
next
  case (TWrite fid offset data)
  then show ?thesis
    using assms handle_write_ok[of srv fid offset data x]
    by (cases "handle_write srv fid offset data x") (auto simp: handle_attached_def)
next
  case (TRemove fid)
  then show ?thesis
    using assms handle_remove_ok[of srv fid x] by (cases "handle_remove srv fid x") (auto simp: handle_attached_def)
next
  case (TWstat fid sz stat)
  then show ?thesis
    using assms handle_wstat_ok[of srv fid stat x] by (cases "handle_wstat srv fid stat x") (auto simp: handle_attached_def)
next
  case (TStat fid)
  then show ?thesis using assms handle_stat_ok[of srv fid x] by (auto simp: handle_attached_def)
qed (use assms clunk_and_clear_ok[of x srv] in \<open>auto simp: handle_attached_def\<close>)

lemma handle_attach_ok:
  assumes "session_ok ss"
  shows "\<exists>r. handle_attach ss fid afid uname aname = Some r \<and>
    (case r of
       Inl e \<Rightarrow> map_of (ss_roots ss) aname = None \<and> e = E_UNKNOWN_ROOT
     | Inr (att, aqid) \<Rightarrow> map_of (ss_roots ss) aname = Some (q_path aqid) \<and>
         att = attached_new uname fid (q_path aqid) \<and>
         state_ok \<lparr>x_att = att, x_ses = ss, x_fs = s\<rparr>)"
proof (cases "map_of (ss_roots ss) aname")
  case None
  then show ?thesis by (simp add: handle_attach_def)
next
  case (Some q)
  then have "q \<in> dom (map_of (ss_qids ss))"
    using assms by (auto simp: session_ok_def ran_def)
  then obtain fm where fm: "map_of (ss_qids ss) q = Some fm" by auto
  moreover have "fm_qid fm = q" using assms fm by (simp add: session_ok_def qids_ok_def)
  ultimately show ?thesis
    using Some assms
    by (auto simp: handle_attach_def session_qid_def as_qid_def state_ok_def attached_new_def btree_ok_def)
qed

lemma connection_step_ok:
  assumes "connection_step srv m c = Some (a, c')" "connection_ok c"
  shows "connection_ok c'"
proof (cases "c_type c")
  case (Unattached seen)
  then have ok: "session_ok (c_ses c)" using assms(2) by (simp add: connection_ok_def)
  show ?thesis
  proof (cases "tm_content m")
    case (TAttach fid afid uname aname)
    obtain r where r: "handle_attach (c_ses c) fid afid uname aname = Some r"
      "case r of
         Inl e \<Rightarrow> map_of (ss_roots (c_ses c)) aname = None \<and> e = E_UNKNOWN_ROOT
       | Inr (att, aqid) \<Rightarrow> map_of (ss_roots (c_ses c)) aname = Some (q_path aqid) \<and>
           att = attached_new uname fid (q_path aqid) \<and>
           state_ok \<lparr>x_att = att, x_ses = c_ses c, x_fs = c_fs c\<rparr>"
      using handle_attach_ok[OF ok, of fid afid uname aname "c_fs c"] by blast
    then show ?thesis
      using assms(1) Unattached TAttach ok
      by (auto simp: connection_step_def handle_tmessage_unattached_def connection_ok_def
          split: if_splits sum.splits)
  qed (use assms(1) Unattached ok in
      \<open>auto simp: connection_step_def handle_tmessage_unattached_def connection_ok_def split: if_splits\<close>)
next
  case (Attached att)
  then show ?thesis
    using assms handle_attached_ok[of srv "tm_content m" "\<lparr>x_att = att, x_ses = c_ses c, x_fs = c_fs c\<rparr>"]
    by (auto simp: connection_step_def connection_ok_def bind_eq_Some_conv state_simps)
qed

subsection \<open>Runs\<close>

text \<open>The messages of a client one after the other: the tagged answers and the connection after them.\<close>

fun run_messages ::
  "'s serve9p \<Rightarrow> tmessage list \<Rightarrow> 's connection \<Rightarrow> ((u16 \<times> answer) list \<times> 's connection) option" where
  "run_messages srv [] c = Some ([], c)"
| "run_messages srv (m # ms) c = do {
     (a, c) \<leftarrow> connection_step srv m c;
     (as, c) \<leftarrow> run_messages srv ms c;
     Some (a # as, c)
   }"

lemma run_messages_ok:
  "run_messages srv ms c = Some (as, c') \<Longrightarrow> connection_ok c \<Longrightarrow> connection_ok c'"
proof (induction ms arbitrary: c as)
  case (Cons m ms)
  then show ?case using connection_step_ok by (fastforce simp: bind_eq_Some_conv)
qed simp

definition start :: "server \<Rightarrow> 's \<Rightarrow> 's connection" where
  "start sv s = (case new_session sv of ((ty, ss), _) \<Rightarrow> \<lparr>c_type = ty, c_ses = ss, c_fs = s\<rparr>)"

lemma server_qids:
  "qids_ok (btree_extend [] (map (\<lambda>(p, q). (q, fm_dir p q)) roots)) \<and>
   dom (map_of (btree_extend [] (map (\<lambda>(p, q). (q, fm_dir p q)) roots))) = snd ` set roots"
proof -
  let ?ps = "map (\<lambda>(p, q). (q, fm_dir p q)) roots"
  have e: "btree_ok (btree_extend [] ?ps)" "map_of (btree_extend [] ?ps) = map_of (rev ?ps)"
    using btree_extend[of "[]" ?ps] by (simp_all add: btree_ok_def)
  have "fm_qid fm = q" if "map_of (rev ?ps) q = Some fm" for q fm
    using map_of_SomeD[OF that] by (auto simp: fm_dir_def)
  moreover have "dom (map_of (rev ?ps)) = snd ` set roots"
    by (force simp: dom_map_of_conv_image_fst)
  ultimately show ?thesis using e by (simp add: qids_ok_def)
qed

lemma start_ok: "connection_ok (start (server_new_with_roots roots) s)"
proof -
  have "ran (map_of roots) \<subseteq> snd ` set roots"
    by (auto simp: ran_def dest!: map_of_SomeD intro: rev_image_eqI)
  then show ?thesis
    using server_qids[of roots]
    by (simp add: connection_ok_def start_def new_session_def server_new_with_roots_def session_ok_def)
qed

end
