(* ===== verification/NinepServerProperties.thy ===== *)
theory NinepServerProperties
  imports NinepSession
begin

text \<open>
  What the 9P server promises its clients and the filesystem behind it. The properties hold
  for any filesystem; their witnesses use a small one with one directory and one file, which
  records the qids it is asked to walk from.
\<close>

definition demo_fs :: "u64 list serve9p" where
  "demo_fs =
     \<lparr>fs_walk = (\<lambda>cid qid name uname s. (Inr (fm_file name 1), s @ [qid])),
      fs_open = (\<lambda>cid qid mode uname s. (Inr 0, s)),
      fs_clunk = (\<lambda>cid qid s. s),
      fs_create = (\<lambda>cid qid name perm mode uname s. (Inl (lit ''read only''), s)),
      fs_read = (\<lambda>cid qid offset count uname s. (Inr (Immediate [1, 2, 3]), s)),
      fs_read_dir = (\<lambda>cid qid uname s.
        (Inr [\<lparr>st_fm = fm_file (lit ''f'') 1, st_perms = 0x124, st_n_bytes = 3, st_last_accesses = 0,
               st_last_modified = 0, st_owner = lit ''u'', st_group = [], st_last_modified_by = []\<rparr>], s)),
      fs_write = (\<lambda>cid qid offset data uname s. (Inr (length data), s)),
      fs_remove = (\<lambda>cid qid uname s. (Inl (lit ''read only''), s)),
      fs_stat = (\<lambda>cid qid uname s. (Inl (lit ''no stat''), s)),
      fs_write_stat = (\<lambda>cid qid st uname s. (Inl (lit ''read only''), s))\<rparr>"

definition demo_messages :: "tmessage list" where
  "demo_messages =
     [\<lparr>tm_tag = 1, tm_content = TVersion 1024 SUPPORTED_VERSION\<rparr>,
      \<lparr>tm_tag = 2, tm_content = TAttach 0 0 (lit ''u'') []\<rparr>,
      \<lparr>tm_tag = 3, tm_content = TWalk 0 5 [lit ''f'']\<rparr>,
      \<lparr>tm_tag = 4, tm_content = TRead 5 0 100\<rparr>]"

lemmas server_simps =
  start_def new_session_def server_new_def server_new_with_roots_def connection_step_def
  handle_tmessage_unattached_def handle_version_def handle_attach_def session_qid_def attached_new_def
  handle_attached_def handle_walk_def handle_read_def try_file_meta_def insert_fid_def map_qids_def
  as_qid_def fm_dir_def fm_file_def QID_ROOT_def MODE_DIR_def MODE_FILE_def btree_extend_def
  MAX_DATA_LEN_def SUPPORTED_VERSION_def Let_def

lemma demo_run:
  "map_option fst (run_messages demo_fs demo_messages (start server_new [])) =
   Some [(1, Reply (Inr (RVersion 1024 SUPPORTED_VERSION))),
     (2, Reply (Inr (RAttach \<lparr>q_ty = 0x80, q_version = 0, q_path = 0\<rparr>))),
     (3, Reply (Inr (RWalk [\<lparr>q_ty = 0, q_version = 0, q_path = 1\<rparr>]))),
     (4, Reply (Inr (RRead [1, 2, 3])))]"
  by (simp add: demo_messages_def demo_fs_def server_simps)


definition demo_connection :: "u64 list connection" where
  "demo_connection = snd (the (run_messages demo_fs (take 2 demo_messages) (start server_new [])))"

lemma demo_connection:
  "demo_connection =
     \<lparr>c_type = Attached \<lparr>at_uname = lit ''u'', at_fids = [(0, 0)]\<rparr>,
      c_ses = \<lparr>ss_client_id = 0, ss_msize = 33554432, ss_roots = [([], 0)], ss_qids = [(0, fm_dir [] 0)]\<rparr>,
      c_fs = []\<rparr>"
  by (simp add: demo_connection_def demo_messages_def server_simps)

lemma demo_attach_run:
  "run_messages demo_fs (take 2 demo_messages) (start (server_new_with_roots [([], 0)]) []) =
   Some ([(1, Reply (Inr (RVersion 1024 SUPPORTED_VERSION))),
     (2, Reply (Inr (RAttach \<lparr>q_ty = 0x80, q_version = 0, q_path = 0\<rparr>)))], demo_connection)"
  by (simp add: demo_connection demo_messages_def server_simps)

subsection \<open>Runs\<close>

lemma connection_step_tag: "connection_step srv m c = Some ((tag, a), c') \<Longrightarrow> tag = tm_tag m"
  by (auto simp: connection_step_def bind_eq_Some_conv split: session_type.splits)

lemma run_messages_tags: "run_messages srv ms c = Some (as, c') \<Longrightarrow> map fst as = map tm_tag ms"
  by (induction ms arbitrary: c as) (auto simp: bind_eq_Some_conv dest!: connection_step_tag)

lemma attached_stays:
  "connection_step srv m c = Some (a, c') \<Longrightarrow> c_type c = Attached att \<Longrightarrow> \<exists>att'. c_type c' = Attached att'"
  by (auto simp: connection_step_def bind_eq_Some_conv)

text \<open>One round of an unattached connection.\<close>

lemma unattached_step:
  assumes "connection_step srv m c = Some ((tag, a), c')" "c_type c = Unattached seen"
  shows "c_fs c' = c_fs c \<and> c_ses c' = c_ses c \<and> (\<exists>r. a = Reply r) \<and>
    (case c_type c' of
       Unattached seen' \<Rightarrow> seen' \<longrightarrow> seen \<or> (\<exists>msize. tm_content m = TVersion msize SUPPORTED_VERSION)
     | Attached att \<Rightarrow> seen \<and> (\<exists>fid afid uname aname. tm_content m = TAttach fid afid uname aname \<and>
         at_uname att = uname \<and> map_of (ss_roots (c_ses c)) aname \<noteq> None))"
proof -
  obtain resp ty where h: "handle_tmessage_unattached seen (c_ses c) (tm_content m) = Some (resp, ty)"
    and c': "a = Reply resp" "c' = c\<lparr>c_type := ty\<rparr>"
    using assms by (auto simp: connection_step_def bind_eq_Some_conv)
  show ?thesis
  proof (cases "tm_content m")
    case (TAttach fid afid uname aname)
    show ?thesis
    proof (cases "seen")
      case True
      then obtain r where r: "handle_attach (c_ses c) fid afid uname aname = Some r"
        using h TAttach
        by (cases "handle_attach (c_ses c) fid afid uname aname") (auto simp: handle_tmessage_unattached_def)
      moreover have "(resp, ty) = (case r of Inl e \<Rightarrow> (Inl e, Unattached True)
          | Inr (st, aqid) \<Rightarrow> (Inr (RAttach aqid), Attached st))"
        using h TAttach True r by (auto simp: handle_tmessage_unattached_def)
      ultimately have r: "handle_attach (c_ses c) fid afid uname aname = Some r"
        "(resp, ty) = (case r of Inl e \<Rightarrow> (Inl e, Unattached True)
          | Inr (st, aqid) \<Rightarrow> (Inr (RAttach aqid), Attached st))" .
      show ?thesis
        using r c' TAttach True
        by (cases "map_of (ss_roots (c_ses c)) aname")
          (auto simp: handle_attach_def attached_new_def bind_eq_Some_conv)
    qed (use h c' TAttach in \<open>auto simp: handle_tmessage_unattached_def\<close>)
  qed (use h c' in \<open>auto simp: handle_tmessage_unattached_def split: if_splits\<close>)
qed

text \<open>What has happened before a connection is in its state.\<close>

definition history_ok :: "(ustr, u64) btree \<Rightarrow> 's \<Rightarrow> tmessage list \<Rightarrow> 's connection \<Rightarrow> bool" where
  "history_ok roots s ms c \<longleftrightarrow>
     (case c_type c of
        Unattached seen \<Rightarrow> c_fs c = s \<and> ss_roots (c_ses c) = roots \<and>
          (seen \<longrightarrow> (\<exists>m \<in> set ms. \<exists>msize. tm_content m = TVersion msize SUPPORTED_VERSION))
      | Attached att \<Rightarrow>
          \<exists>ms1 m ms2 fid afid uname aname. ms = ms1 @ m # ms2 \<and>
            tm_content m = TAttach fid afid uname aname \<and> map_of roots aname \<noteq> None \<and>
            (\<exists>m \<in> set ms1. \<exists>msize. tm_content m = TVersion msize SUPPORTED_VERSION))"

lemma history_step:
  assumes "history_ok roots s ms c" "connection_step srv m c = Some ((tag, a), c')"
  shows "history_ok roots s (ms @ [m]) c'"
proof (cases "c_type c")
  case (Unattached seen)
  note step = unattached_step[OF assms(2) Unattached]
  show ?thesis
  proof (cases "c_type c'")
    case (Unattached seen')
    then show ?thesis
      using step assms(1) \<open>c_type c = Unattached seen\<close> by (auto simp: history_ok_def)
  next
    case (Attached att)
    then obtain fid afid uname aname where "seen" "tm_content m = TAttach fid afid uname aname"
      "map_of roots aname \<noteq> None" "\<exists>m \<in> set ms. \<exists>msize. tm_content m = TVersion msize SUPPORTED_VERSION"
      using step assms(1) \<open>c_type c = Unattached seen\<close> by (auto simp: history_ok_def)
    then have "\<exists>ms1 m' ms2 fid afid uname aname. ms @ [m] = ms1 @ m' # ms2 \<and>
        tm_content m' = TAttach fid afid uname aname \<and> map_of roots aname \<noteq> None \<and>
        (\<exists>m \<in> set ms1. \<exists>msize. tm_content m = TVersion msize SUPPORTED_VERSION)"
      by blast
    then show ?thesis using Attached by (simp add: history_ok_def)
  qed
next
  case (Attached att)
  obtain att' where att': "c_type c' = Attached att'" using attached_stays[OF assms(2) Attached] by blast
  obtain ms1 m' ms2 fid afid uname aname where "ms = ms1 @ m' # ms2"
    "tm_content m' = TAttach fid afid uname aname" "map_of roots aname \<noteq> None"
    "\<exists>m \<in> set ms1. \<exists>msize. tm_content m = TVersion msize SUPPORTED_VERSION"
    using assms(1) Attached by (force simp: history_ok_def)
  then have "ms @ [m] = ms1 @ m' # (ms2 @ [m]) \<and> tm_content m' = TAttach fid afid uname aname \<and>
      map_of roots aname \<noteq> None \<and> (\<exists>m \<in> set ms1. \<exists>msize. tm_content m = TVersion msize SUPPORTED_VERSION)"
    by simp
  then show ?thesis unfolding history_ok_def att' session_type.case by blast
qed

lemma history_run:
  "run_messages srv ms c = Some (as, c') \<Longrightarrow> history_ok roots s hs c \<Longrightarrow> history_ok roots s (hs @ ms) c'"
proof (induction ms arbitrary: c as hs)
  case (Cons m ms)
  then obtain a c1 as' where step: "connection_step srv m c = Some (a, c1)" "run_messages srv ms c1 = Some (as', c')"
    by (auto simp: bind_eq_Some_conv)
  obtain tag ans where "a = (tag, ans)" by (cases a)
  then have "history_ok roots s (hs @ [m]) c1" using history_step[OF Cons.prems(2)] step(1) by simp
  then show ?case using Cons.IH[OF step(2), of "hs @ [m]"] by simp
qed simp

subsection \<open>Properties\<close>

text \<open>
  C24: the fid table of a session. After any run of messages on a new connection, a fid is
  known exactly when it is in the table, and the metadata found for it has the qid the table
  holds, whatever the filesystem answered.
\<close>

theorem fid_table_sound:
  assumes "run_messages srv ms (start (server_new_with_roots roots) s) = Some (as, c)"
    and "c_type c = Attached att"
  shows "\<forall>fid. case map_of (at_fids att) fid of
      None \<Rightarrow> try_file_meta \<lparr>x_att = att, x_ses = c_ses c, x_fs = c_fs c\<rparr> fid = Inl E_UNKNOWN_FID
    | Some q \<Rightarrow> \<exists>fm. try_file_meta \<lparr>x_att = att, x_ses = c_ses c, x_fs = c_fs c\<rparr> fid = Inr fm \<and> fm_qid fm = q"
proof
  fix fid
  let ?x = "\<lparr>x_att = att, x_ses = c_ses c, x_fs = c_fs c\<rparr>"
  have ok: "state_ok ?x"
    using run_messages_ok[OF assms(1) start_ok] assms(2) by (simp add: connection_ok_def)
  show "case map_of (at_fids att) fid of
      None \<Rightarrow> try_file_meta ?x fid = Inl E_UNKNOWN_FID
    | Some q \<Rightarrow> \<exists>fm. try_file_meta ?x fid = Inr fm \<and> fm_qid fm = q"
    using try_file_meta_ok[OF ok, of fid] try_file_meta_qid[OF ok, of fid] by (auto split: option.splits)
qed

theorem fid_table_sound_witness:
  "\<exists>fm. try_file_meta \<lparr>x_att = \<lparr>at_uname = lit ''u'', at_fids = [(0, 0)]\<rparr>, x_ses = c_ses demo_connection,
     x_fs = c_fs demo_connection\<rparr> 0 = Inr fm \<and> fm_qid fm = 0"
proof -
  have "c_type demo_connection = Attached \<lparr>at_uname = lit ''u'', at_fids = [(0, 0)]\<rparr>"
    by (simp add: demo_connection)
  from spec[OF fid_table_sound[OF demo_attach_run this], of 0] show ?thesis by simp
qed

text \<open>
  C25: nothing reaches the filesystem before a client has attached: as long as a connection
  is unattached, the state of the filesystem is the one it started with; and a connection is
  attached only after a message that negotiated the supported version and, behind it, one that
  attached to an existing root.
\<close>

theorem attach_before_access:
  assumes "run_messages srv ms (start (server_new_with_roots roots) s) = Some (as, c)"
  shows "case c_type c of
      Unattached _ \<Rightarrow> c_fs c = s
    | Attached _ \<Rightarrow> \<exists>ms1 v ms2 m ms3 msize fid afid uname aname.
        ms = ms1 @ v # ms2 @ m # ms3 \<and> tm_content v = TVersion msize SUPPORTED_VERSION \<and>
        tm_content m = TAttach fid afid uname aname \<and> map_of roots aname \<noteq> None"
proof -
  have "history_ok roots s [] (start (server_new_with_roots roots) s)"
    by (simp add: history_ok_def start_def new_session_def server_new_with_roots_def)
  then have h: "history_ok roots s ms c" using history_run[OF assms] by fastforce
  show ?thesis
  proof (cases "c_type c")
    case (Attached att)
    then obtain ms1 m ms2 fid afid uname aname v msize where
      m: "ms = ms1 @ m # ms2" "tm_content m = TAttach fid afid uname aname" "map_of roots aname \<noteq> None"
      and v: "v \<in> set ms1" "tm_content v = TVersion msize SUPPORTED_VERSION"
      using h by (auto simp: history_ok_def)
    obtain a b where "ms1 = a @ v # b" using v(1) by (auto simp: in_set_conv_decomp)
    then have "ms = a @ v # b @ m # ms2" using m(1) by simp
    then have "\<exists>ms1 v ms2 m ms3 msize fid afid uname aname.
        ms = ms1 @ v # ms2 @ m # ms3 \<and> tm_content v = TVersion msize SUPPORTED_VERSION \<and>
        tm_content m = TAttach fid afid uname aname \<and> map_of roots aname \<noteq> None"
      using m(2,3) v(2) by blast
    then show ?thesis using Attached by simp
  qed (use h in \<open>simp add: history_ok_def\<close>)
qed

theorem attach_before_access_witness:
  "\<exists>ms1 v ms2 m ms3 msize fid afid uname aname.
     take 2 demo_messages = ms1 @ v # ms2 @ m # ms3 \<and> tm_content v = TVersion msize SUPPORTED_VERSION \<and>
     tm_content m = TAttach fid afid uname aname \<and> map_of [([], 0 :: u64)] aname \<noteq> None"
  using attach_before_access[OF demo_attach_run] by (simp add: demo_connection)

text \<open>
  C26: a walk on a session whose tables are consistent. When it fails the fid table is as
  before; when it succeeds the reply has one qid for each name, the new fid was free or is
  the old one, and it names the last file reached, or the file of the old fid when there are
  no names.
\<close>

theorem walk_moves_fid:
  assumes "state_ok x" "handle_walk srv fid new_fid wnames x = (r, x')"
  shows "state_ok x' \<and>
    (case r of
       Inl e \<Rightarrow> x_att x' = x_att x
     | Inr d \<Rightarrow> \<exists>wqids q. d = RWalk wqids \<and> length wqids = length wnames \<and>
         (new_fid = fid \<or> map_of (at_fids (x_att x)) new_fid = None) \<and>
         (if wnames = [] then map_of (at_fids (x_att x)) fid = Some q else q = q_path (last wqids)) \<and>
         map_of (at_fids (x_att x')) = (map_of (at_fids (x_att x)))(new_fid \<mapsto> q))"
proof (cases r)
  case (Inr d)
  then obtain wqids q where w: "d = RWalk wqids" "length wqids = length wnames"
    "new_fid = fid \<or> map_of (at_fids (x_att x)) new_fid = None"
    "if wnames = [] then map_of (at_fids (x_att x)) fid = Some q else q = q_path (last wqids)"
    "x_att x' = (x_att x)\<lparr>at_fids := btree_insert new_fid q (at_fids (x_att x))\<rparr>" "state_ok x'"
    using handle_walk_spec[OF assms(2,1)] by auto
  have "btree_ok (at_fids (x_att x))" using assms(1) by (simp add: state_ok_def)
  then have "map_of (at_fids (x_att x')) = (map_of (at_fids (x_att x)))(new_fid \<mapsto> q)"
    using w(5) by simp
  then show ?thesis unfolding Inr sum.case using w by blast
qed (use handle_walk_spec[OF assms(2,1)] in simp)

definition demo_state :: "u64 list server_state" where
  "demo_state =
     \<lparr>x_att = \<lparr>at_uname = lit ''u'', at_fids = [(0, 0)]\<rparr>, x_ses = c_ses demo_connection, x_fs = []\<rparr>"

lemma demo_state_ok: "state_ok demo_state"
  by (simp add: demo_state_def demo_connection state_ok_def session_ok_def qids_ok_def btree_ok_def fm_dir_def)

lemma demo_walk:
  "handle_walk demo_fs 0 5 [lit ''f''] demo_state =
   (Inr (RWalk [\<lparr>q_ty = 0, q_version = 0, q_path = 1\<rparr>]), snd (handle_walk demo_fs 0 5 [lit ''f''] demo_state))"
  by (simp add: demo_state_def demo_connection demo_fs_def server_simps)

theorem walk_moves_fid_witness:
  "map_of (at_fids (x_att (snd (handle_walk demo_fs 0 5 [lit ''f''] demo_state)))) =
   (map_of (at_fids (x_att demo_state)))(5 \<mapsto> 1)"
  using walk_moves_fid[OF demo_state_ok demo_walk] by simp

subsection \<open>The server on bytes\<close>

definition message_ok :: "tmessage \<Rightarrow> bool" where
  "message_ok m \<longleftrightarrow> tmessage_fits m \<and> tdata_readable (tm_content m)"

fun answer_ok :: "u16 \<times> answer \<Rightarrow> bool" where
  "answer_ok (tag, Reply resp) \<longleftrightarrow> rmessage_fits (rmessage_from tag resp)"
| "answer_ok (tag, Waiting chan) \<longleftrightarrow> True"

text \<open>The replies of a run in order, and the reads that wait.\<close>

fun replies :: "(u16 \<times> answer) list \<Rightarrow> rmessage list" where
  "replies [] = []"
| "replies ((tag, Reply resp) # as) = rmessage_from tag resp # replies as"
| "replies ((tag, Waiting chan) # as) = replies as"

fun waiting_reads :: "(u16 \<times> answer) list \<Rightarrow> (u16 \<times> nat) list" where
  "waiting_reads [] = []"
| "waiting_reads ((tag, Reply resp) # as) = waiting_reads as"
| "waiting_reads ((tag, Waiting chan) # as) = (tag, chan) # waiting_reads as"

lemma read_empty: "read_from np_tmessage [] = Some (Inl UnexpectedEof)"
  by (simp add: read_from_def np_tmessage_def message_read_9p_def np_u32_def np_uint_def as_slice_to_def)

lemma reply_bytes_fits:
  "rmessage_fits (rmessage_from tag resp) \<Longrightarrow> reply_bytes tag resp = Some (enc_rmessage (rmessage_from tag resp))"
  by (simp add: reply_bytes_def rmessage.write_9p_bytes_enc)

lemma serve_stream_run:
  "run_messages srv ms c = Some (as, c') \<Longrightarrow> list_all message_ok ms \<Longrightarrow> list_all answer_ok as \<Longrightarrow>
   serve_stream srv (concat (map enc_tmessage ms)) c =
     Some (concat (map enc_rmessage (replies as)), waiting_reads as, connection_end srv c')"
proof (induction ms arbitrary: c as)
  case Nil
  then show ?case by (simp add: serve_stream.simps[of _ "[]"] read_empty)
next
  case (Cons m ms)
  then obtain tag a c1 as' where step: "connection_step srv m c = Some ((tag, a), c1)"
    and run: "run_messages srv ms c1 = Some (as', c')" and as: "as = (tag, a) # as'"
    by (auto simp: bind_eq_Some_conv)
  have rd: "read_from np_tmessage (enc_tmessage m @ concat (map enc_tmessage ms)) =
      Some (Inr (m, concat (map enc_tmessage ms)))"
    using Cons.prems(2) by (simp add: read_from_def tmessage.read_enc message_ok_def)
  note IH = Cons.IH[OF run]
  show ?case
    using IH Cons.prems(2,3) as step rd
    by (cases a) (simp_all add: serve_stream.simps[of _ "enc_tmessage m @ concat (map enc_tmessage ms)"]
        reply_bytes_fits)
qed

text \<open>
  C27: the server on bytes does what the handlers do on messages. For a client that sends the
  encodings of any messages that fit, the bytes written back are the encodings of the
  handlers' replies in order, every message is answered exactly once under its own tag (at
  once or, for a read that blocks, when its channel delivers), and when the client hangs up
  the fids of an attached session are clunked.
\<close>

theorem serve_stream_refines_run:
  assumes "run_messages srv ms c = Some (as, c')"
    and "list_all message_ok ms" "list_all answer_ok as"
  shows "serve_stream srv (concat (map enc_tmessage ms)) c =
      Some (concat (map enc_rmessage (replies as)), waiting_reads as, connection_end srv c') \<and>
    map fst as = map tm_tag ms \<and>
    length (replies as) + length (waiting_reads as) = length ms"
proof -
  have len: "length (replies as) + length (waiting_reads as) = length as"
    by (induction as rule: replies.induct) auto
  have tags: "map fst as = map tm_tag ms" using assms(1) by (rule run_messages_tags)
  then have "length as = length ms" by (metis length_map)
  then show ?thesis using serve_stream_run[OF assms] tags len by simp
qed

theorem serve_stream_refines_run_witness:
  "serve_stream demo_fs (concat (map enc_tmessage (take 2 demo_messages)))
     (start (server_new_with_roots [([], 0)]) []) =
   Some (enc_rmessage \<lparr>rm_tag = 1, rm_content = RVersion 1024 SUPPORTED_VERSION\<rparr> @
     enc_rmessage \<lparr>rm_tag = 2, rm_content = RAttach \<lparr>q_ty = 0x80, q_version = 0, q_path = 0\<rparr>\<rparr>,
     [], connection_end demo_fs demo_connection)"
  using serve_stream_refines_run[OF demo_attach_run]
  by (simp add: demo_messages_def message_ok_def tmessage_fits_def rmessage_fits_def rmessage_from_def
      string_fits_def MAX_SIZE_FIELD_def SUPPORTED_VERSION_def lit_def uchar_ok_def len_utf8_def)

subsection \<open>Reading directories\<close>

definition entry_bytes :: "stat \<Rightarrow> u8 list" where
  "entry_bytes s = enc_raw_stat (raw_stat_from_stat s)"

definition entry_fits :: "stat \<Rightarrow> bool" where
  "entry_fits s \<longleftrightarrow> raw_stat_fits (raw_stat_from_stat s)"

fun take_fitting :: "nat \<Rightarrow> 'a list list \<Rightarrow> 'a list list" where
  "take_fitting n [] = []"
| "take_fitting n (e # es) = (if length e \<le> n then e # take_fitting (n - length e) es else [])"

lemma entry_write: "entry_fits s \<Longrightarrow> write_9p_bytes np_raw_stat (raw_stat_from_stat s) = Some (Inr (entry_bytes s))"
  by (simp add: entry_fits_def entry_bytes_def raw_stat.write_9p_bytes_enc)

lemma entry_bytes_ne: "0 < length (entry_bytes s)"
  using raw_stat.n_bytes_pos[of "raw_stat_from_stat s"] by (simp add: entry_bytes_def raw_stat.enc_length)

lemma read_entries_fitting:
  "list_all entry_fits stats \<Longrightarrow> length buf \<le> count \<Longrightarrow>
   \<exists>qids'. read_entries stats 0 count buf qids =
     Some (Inr (buf @ concat (take_fitting (count - length buf) (map entry_bytes stats))), qids')"
proof (induction stats arbitrary: buf qids)
  case (Cons s stats)
  show ?case
  proof (cases "length buf + length (entry_bytes s) \<le> count")
    case True
    then show ?thesis
      using Cons.IH[of "buf @ entry_bytes s" "btree_or_insert (fm_qid (st_fm s)) (st_fm s) qids"] Cons.prems
      by (simp add: entry_write Let_def le_diff_conv2)
  next
    case False
    then show ?thesis using Cons.prems by (auto simp: entry_write Let_def)
  qed
qed simp

lemma read_entries_skip:
  "list_all entry_fits pre \<Longrightarrow>
   \<exists>qids'. read_entries (pre @ post) (length (concat (map entry_bytes pre)) + k) count buf qids =
     read_entries post k count buf qids'"
proof (induction pre arbitrary: qids)
  case (Cons s pre)
  then show ?case
    using Cons.IH[of "btree_or_insert (fm_qid (st_fm s)) (st_fm s) qids"] entry_bytes_ne[of s]
    by (simp add: entry_write Let_def)
qed auto

text \<open>
  C28: reading a directory. At the offset behind its first entries the reply holds the entries
  that follow, as many whole ones as fit into the count; at an offset that falls inside
  an entry the read is refused.
\<close>

theorem read_dir_pages:
  assumes "try_file_meta x fid = Inr fm" "fm_ty fm = Directory"
    and "fs_read_dir srv (ss_client_id (x_ses x)) (fm_qid fm) (at_uname (x_att x)) (x_fs x) = (Inr (pre @ post), s)"
    and "list_all entry_fits (pre @ post)"
    and "unat offset = length (concat (map entry_bytes pre)) + k" "unat offset \<le> 2 ^ 32 - 1"
  shows "(k = 0 \<longrightarrow> (\<exists>x'. handle_read srv fid offset count x =
       Some (Inr (ReadReply (RRead (concat (take_fitting (unat count) (map entry_bytes post))))), x'))) \<and>
    (\<forall>e es. 0 < k \<longrightarrow> post = e # es \<longrightarrow> k < length (entry_bytes e) \<longrightarrow>
       (\<exists>x'. handle_read srv fid offset count x = Some (Inl E_INVALID_OFFSET, x')))"
proof -
  have fits: "list_all entry_fits pre" "list_all entry_fits post" using assms(4) by simp_all
  obtain qids where skip: "read_entries (pre @ post) (unat offset) (unat count) [] (ss_qids (x_ses x)) =
      read_entries post k (unat count) [] qids"
    using read_entries_skip[OF fits(1), of post k "unat count" "[]" "ss_qids (x_ses x)"] assms(5) by auto
  have read: "handle_read srv fid offset count x =
      (case read_entries post k (unat count) [] qids of
         None \<Rightarrow> None
       | Some (r, qids) \<Rightarrow>
           Some (case r of Inl e \<Rightarrow> Inl e | Inr buf \<Rightarrow> Inr (ReadReply (RRead buf)),
             map_qids (\<lambda>_. qids) (x\<lparr>x_fs := s\<rparr>)))"
    using assms(1-3,6) skip by (simp add: handle_read_def)
  have "\<exists>qids'. read_entries post 0 (unat count) [] qids =
      Some (Inr (concat (take_fitting (unat count) (map entry_bytes post))), qids')"
    using read_entries_fitting[OF fits(2), of "[]" "unat count" qids] by simp
  moreover have "\<exists>qids'. read_entries post k (unat count) [] qids = Some (Inl E_INVALID_OFFSET, qids')"
    if "0 < k" "post = e # es" "k < length (entry_bytes e)" for e es
    using that fits(2) by (auto simp: entry_write Let_def)
  ultimately show ?thesis using read by fastforce
qed

theorem read_dir_pages_witness:
  "\<exists>x' e. handle_read demo_fs 0 0 100 demo_state =
     Some (Inr (ReadReply (RRead (concat (take_fitting 100 [entry_bytes e])))), x')"
proof -
  let ?e = "\<lparr>st_fm = fm_file (lit ''f'') 1, st_perms = 0x124, st_n_bytes = 3, st_last_accesses = 0,
    st_last_modified = 0, st_owner = lit ''u'', st_group = [], st_last_modified_by = []\<rparr>"
  have meta: "try_file_meta demo_state 0 = Inr (fm_dir [] 0)"
    by (simp add: demo_state_def demo_connection try_file_meta_def)
  have dir: "fs_read_dir demo_fs (ss_client_id (x_ses demo_state)) (fm_qid (fm_dir [] 0))
      (at_uname (x_att demo_state)) (x_fs demo_state) = (Inr ([] @ [?e]), [])"
    by (simp add: demo_fs_def demo_state_def)
  have "entry_fits ?e"
    by (simp add: entry_fits_def raw_stat_fits_def raw_stat_fields_def raw_stat_from_stat_def Let_def
        string_fits_def MAX_SIZE_FIELD_def lit_def fm_file_def len_utf8_def)
  then have "\<exists>x'. handle_read demo_fs 0 0 100 demo_state =
      Some (Inr (ReadReply (RRead (concat (take_fitting 100 [entry_bytes ?e])))), x')"
    using read_dir_pages[OF meta _ dir, of 0 0 100] by (simp add: fm_dir_def del: take_fitting.simps)
  then show ?thesis by blast
qed

subsection \<open>Walking through a file\<close>

text \<open>
  Only the file a walk starts from is checked, and only for being a regular one: the
  filesystem here is asked to walk from the regular file with qid 1.
\<close>

lemma walk_through_regular_file:
  "x_fs (snd (handle_walk demo_fs 0 5 [lit ''f'', lit ''g''] demo_state)) = [0, 1]"
  by (simp add: demo_state_def demo_connection demo_fs_def server_simps)

end
