(* ===== verification/RegexAst.thy ===== *)
theory RegexAst
  imports Utf8
begin

text \<open>
  The syntax of regular expressions: src/regex/ast.rs and the character classes and escapes of
  src/regex/mod.rs. An iterator over the characters of a pattern is the list of those that
  are left. The parser recurses over the pattern, so its functions take fuel; the bound that
  \<open>regex_parse\<close> passes is enough for every pattern (theory RegexParse).
\<close>

subsection \<open>Escapes\<close>

datatype regex_error =
    EmptyParens | EmptyRegex | InvalidClass | InvalidEscape uchar | InvalidRepetition | ReTooLong
  | UnbalancedAlt | UnbalancedParens | UnclosedGroupName ustr | UnknownGroupQualifier uchar

definition char_ix :: "uchar \<Rightarrow> nat" where
  "char_ix ch = unat (ch AND 0xFF)"

definition ESCAPES :: "(nat \<times> uchar) list" where
  "ESCAPES =
     map (\<lambda>c. (char_ix c, c)) (lit ''*+?.@()[]{}|'' @ [0x5C, 0x27, 0x22] @ lit ''^$-bBdDwWsS'') @
     [(char_ix (uc CHR ''n''), 0x0A), (char_ix (uc CHR ''r''), 0x0D), (char_ix (uc CHR ''t''), 0x09)]"

fun next_char :: "ustr \<Rightarrow> regex_error + (uchar \<times> bool) option \<times> ustr" where
  "next_char [] = Inr (None, [])"
| "next_char (ch # it) =
     (if ch \<noteq> 0x5C then Inr (Some (ch, False), it)
      else case it of
        [] \<Rightarrow> Inl (InvalidEscape 0)
      | ch # it \<Rightarrow>
          (case map_of ESCAPES (char_ix ch) of
             Some ch \<Rightarrow> Inr (Some (ch, True), it)
           | None \<Rightarrow> Inl (InvalidEscape ch)))"

text \<open>\<open>next_char(it)?.ok_or(e)?\<close>\<close>

definition next_char_or :: "regex_error \<Rightarrow> ustr \<Rightarrow> regex_error + (uchar \<times> bool) \<times> ustr" where
  "next_char_or e it =
     (case next_char it of
        Inl e \<Rightarrow> Inl e
      | Inr (None, it) \<Rightarrow> Inl e
      | Inr (Some c, it) \<Rightarrow> Inr (c, it))"

lemma next_char_length: "next_char it = Inr (Some c, it') \<Longrightarrow> length it' < length it"
  by (cases it) (auto split: if_splits list.splits option.splits)

lemma next_char_or_length [dest]: "next_char_or e it = Inr (c, it') \<Longrightarrow> length it' < length it"
  by (auto simp: next_char_or_def split: sum.splits option.splits dest: next_char_length)

subsection \<open>Character classes\<close>

record char_class =
  cls_negated :: bool
  cls_chars :: "uchar list"
  cls_ranges :: "(uchar \<times> uchar) list"

function class_loop ::
  "uchar list \<Rightarrow> (uchar \<times> uchar) list \<Rightarrow> ustr \<Rightarrow> regex_error + (uchar list \<times> (uchar \<times> uchar) list) \<times> ustr"
where
  "class_loop chars ranges it =
     (case next_char_or InvalidClass it of
        Inl e \<Rightarrow> Inl e
      | Inr ((ch, escaped), it) \<Rightarrow>
          if ch = uc CHR '']'' \<and> \<not> escaped then Inr ((chars, ranges), it)
          else if ch = uc CHR ''-'' \<and> \<not> escaped then
            if chars = [] then Inl InvalidClass
            else
              (case next_char_or InvalidClass it of
                 Inl e \<Rightarrow> Inl e
               | Inr ((end_ch, _), it) \<Rightarrow>
                   if end_ch \<le> last chars then Inl InvalidClass
                   else class_loop (butlast chars) (ranges @ [(last chars, end_ch)]) it)
          else class_loop (chars @ [ch]) ranges it)"
  by pat_completeness auto
termination
  by (relation "measure (\<lambda>(_, _, it). length it)") force+

declare class_loop.simps [simp del]

definition class_try_parse :: "ustr \<Rightarrow> regex_error + char_class \<times> ustr" where
  "class_try_parse it =
     (case next_char_or InvalidClass it of
        Inl e \<Rightarrow> Inl e
      | Inr ((ch, _), it) \<Rightarrow>
          let negated = (ch = uc CHR ''^'')
          in case (if negated then next_char_or InvalidClass it else Inr ((ch, False), it)) of
               Inl e \<Rightarrow> Inl e
             | Inr ((ch, _), it) \<Rightarrow>
                 (case class_loop [ch] [] it of
                    Inl e \<Rightarrow> Inl e
                  | Inr ((chars, ranges), it) \<Rightarrow>
                      Inr (\<lparr>cls_negated = negated, cls_chars = chars, cls_ranges = ranges\<rparr>, it)))"

definition class_matches :: "char_class \<Rightarrow> uchar \<Rightarrow> bool" where
  "class_matches cls ch =
     (if cls_negated cls \<and> ch = 0x0A then False
      else let res = ch \<in> set (cls_chars cls) \<or>
             list_ex (\<lambda>(s, e). s \<le> ch \<and> ch \<le> e) (cls_ranges cls)
        in if cls_negated cls then \<not> res else res)"

text \<open>The ranges that the parser makes are not empty, so the subtraction does not underflow.\<close>

definition class_size :: "char_class \<Rightarrow> nat" where
  "class_size cls =
     length (cls_chars cls) + sum_list (map (\<lambda>(s, e). unat e - unat s + 1) (cls_ranges cls))"

subsection \<open>The syntax tree\<close>

datatype comp =
    CChar uchar | CClass char_class | CAny | CTrueAny | CNumeric | CNonNumeric
  | CAlphaNumeric | CNonAlphaNumeric | CWhiteSpace | CNonWhiteSpace

datatype assertion = LineStart | LineEnd | WordBoundary | NonWordBoundary

datatype greed = Greedy | Lazy

datatype rep = Quest greed | Star greed | Plus greed

datatype sm_kind = Normal | Named ustr | NonCapturing

datatype ast =
    AComp comp
  | AAssertion assertion
  | AAlt "ast list"
  | ARep rep ast
  | AConcat "ast list"
  | ASubMatch sm_kind ast

text \<open>The character predicates of the standard library.\<close>

definition is_ascii_digit :: "uchar \<Rightarrow> bool" where
  "is_ascii_digit ch \<longleftrightarrow> 0x30 \<le> ch \<and> ch \<le> 0x39"

definition is_ascii_alphanumeric :: "uchar \<Rightarrow> bool" where
  "is_ascii_alphanumeric ch \<longleftrightarrow>
     is_ascii_digit ch \<or> (0x41 \<le> ch \<and> ch \<le> 0x5A) \<or> (0x61 \<le> ch \<and> ch \<le> 0x7A)"

definition is_whitespace :: "uchar \<Rightarrow> bool" where
  "is_whitespace ch \<longleftrightarrow>
     (0x09 \<le> ch \<and> ch \<le> 0x0D) \<or> (0x2000 \<le> ch \<and> ch \<le> 0x200A) \<or>
     ch \<in> set [0x20, 0x85, 0xA0, 0x1680, 0x2028, 0x2029, 0x202F, 0x205F, 0x3000]"

fun comp_matches :: "comp \<Rightarrow> uchar \<Rightarrow> bool" where
  "comp_matches (CChar c) ch \<longleftrightarrow> c = ch"
| "comp_matches (CClass cls) ch \<longleftrightarrow> class_matches cls ch"
| "comp_matches CAny ch \<longleftrightarrow> ch \<noteq> 0x0A"
| "comp_matches CTrueAny ch \<longleftrightarrow> True"
| "comp_matches CNumeric ch \<longleftrightarrow> is_ascii_digit ch"
| "comp_matches CNonNumeric ch \<longleftrightarrow> \<not> is_ascii_digit ch"
| "comp_matches CAlphaNumeric ch \<longleftrightarrow> is_ascii_alphanumeric ch \<or> ch = 0x5F"
| "comp_matches CNonAlphaNumeric ch \<longleftrightarrow> \<not> (is_ascii_alphanumeric ch \<or> ch = 0x5F)"
| "comp_matches CWhiteSpace ch \<longleftrightarrow> is_whitespace ch"
| "comp_matches CNonWhiteSpace ch \<longleftrightarrow> \<not> is_whitespace ch"

text \<open>
  Assertions. \<open>char::is_alphanumeric\<close> is the parameter \<open>alnum\<close>, the Unicode tables of the
  standard library.
\<close>

datatype char_kind = Word | Punctuation | Whitespace

definition char_kind :: "(uchar \<Rightarrow> bool) \<Rightarrow> uchar \<Rightarrow> char_kind" where
  "char_kind alnum ch =
     (if alnum ch \<or> ch = 0x5F then Word else if is_whitespace ch then Whitespace else Punctuation)"

definition is_word_boundary :: "(uchar \<Rightarrow> bool) \<Rightarrow> uchar \<Rightarrow> uchar \<Rightarrow> bool" where
  "is_word_boundary alnum prev ch \<longleftrightarrow>
     (case (char_kind alnum prev, char_kind alnum ch) of
        (Word, Punctuation) \<Rightarrow> True
      | (Punctuation, Word) \<Rightarrow> True
      | (Word, Whitespace) \<Rightarrow> True
      | (Punctuation, Whitespace) \<Rightarrow> True
      | (Whitespace, Word) \<Rightarrow> True
      | (Whitespace, Punctuation) \<Rightarrow> True
      | _ \<Rightarrow> False)"

definition holds_for ::
  "(uchar \<Rightarrow> bool) \<Rightarrow> assertion \<Rightarrow> uchar option \<Rightarrow> uchar \<Rightarrow> uchar option \<Rightarrow> bool" where
  "holds_for alnum a prev ch nxt =
     (case a of
        LineStart \<Rightarrow> prev = Some 0x0A \<or> prev = None
      | LineEnd \<Rightarrow> nxt = Some 0x0A \<or> nxt = None
      | WordBoundary \<Rightarrow>
          (case (prev, nxt) of
             (Some p, Some n) \<Rightarrow> is_word_boundary alnum p ch \<or> is_word_boundary alnum ch n
           | _ \<Rightarrow> True)
      | NonWordBoundary \<Rightarrow>
          (case (prev, nxt) of
             (Some p, Some n) \<Rightarrow> \<not> is_word_boundary alnum p ch \<and> \<not> is_word_boundary alnum ch n
           | _ \<Rightarrow> False))"

subsection \<open>Repetitions\<close>

fun rep_is_nullable :: "rep \<Rightarrow> bool" where
  "rep_is_nullable (Quest _) = True"
| "rep_is_nullable (Star _) = True"
| "rep_is_nullable (Plus _) = False"

fun make_lazy :: "rep \<Rightarrow> rep" where
  "make_lazy (Quest _) = Quest Lazy"
| "make_lazy (Star _) = Star Lazy"
| "make_lazy (Plus _) = Plus Lazy"

definition rep_apply :: "rep \<Rightarrow> ast list \<Rightarrow> regex_error + ast list" where
  "rep_apply r nodes =
     (if nodes = [] then Inl InvalidRepetition
      else Inr (butlast nodes @
        [case (r, last nodes) of
           (Quest _, ARep r node) \<Rightarrow> ARep (make_lazy r) node
         | (r, node) \<Rightarrow> ARep r node]))"

fun rep_op_len :: "rep \<Rightarrow> nat \<Rightarrow> nat" where
  "rep_op_len (Quest _) child_len = child_len + 1"
| "rep_op_len (Star _) child_len = child_len + 2"
| "rep_op_len (Plus _) child_len = child_len + 1"

datatype counted = CRep nat | CRepAtLeast nat | CRepBetween nat nat

text \<open>The subtractions \<open>n - 1\<close> and \<open>m - n\<close> panic when they underflow.\<close>

definition counted_apply :: "counted \<Rightarrow> ast list \<Rightarrow> (regex_error + ast list) option" where
  "counted_apply c nodes =
     (if nodes = [] then Some (Inl InvalidRepetition)
      else let node = last nodes; nodes = butlast nodes
        in case c of
             CRep n \<Rightarrow> Some (Inr (nodes @ replicate n node))
           | CRepAtLeast n \<Rightarrow> do {
               k \<leftarrow> usub n 1;
               Some (Inr (nodes @ replicate k node @ [ARep (Plus Greedy) node]))
             }
           | CRepBetween n m \<Rightarrow> do {
               k \<leftarrow> usub m n;
               Some (Inr (nodes @ replicate n node @ replicate k (ARep (Quest Greedy) node)))
             })"

subsection \<open>Parsing\<close>

fun take_digits :: "ustr \<Rightarrow> ustr \<times> ustr" where
  "take_digits [] = ([], [])"
| "take_digits (ch # it) =
     (if is_ascii_digit ch then let (s, it) = take_digits it in (ch # s, it) else ([], ch # it))"

definition parse_num :: "uchar \<Rightarrow> ustr \<Rightarrow> nat option \<times> ustr" where
  "parse_num initial it =
     (let (s, it) = take_digits it;
          n = foldl (\<lambda>n c. 10 * n + uint (c - 0x30)) 0 (initial # s)
      in (if n < 2 ^ 64 then Some (nat n) else None, it))"

definition try_parse_counted_repetition :: "ustr \<Rightarrow> regex_error + counted \<times> ustr" where
  "try_parse_counted_repetition it =
     (case next_char_or InvalidRepetition it of
        Inl e \<Rightarrow> Inl e
      | Inr ((ch, _), it) \<Rightarrow>
          if \<not> is_ascii_digit ch then Inl InvalidRepetition
          else case parse_num ch it of
            (None, _) \<Rightarrow> Inl InvalidRepetition
          | (Some n, it) \<Rightarrow>
              if n = 0 then Inl InvalidRepetition
              else case next_char_or InvalidRepetition it of
                Inl e \<Rightarrow> Inl e
              | Inr ((ch, _), it) \<Rightarrow>
                  if ch = uc CHR ''}'' then Inr (CRep n, it)
                  else if ch \<noteq> uc CHR '','' then Inl InvalidRepetition
                  else case next_char_or InvalidRepetition it of
                    Inl e \<Rightarrow> Inl e
                  | Inr ((ch, _), it) \<Rightarrow>
                      if ch = uc CHR ''}'' then Inr (CRepAtLeast n, it)
                      else if \<not> is_ascii_digit ch then Inl InvalidRepetition
                      else case parse_num ch it of
                        (None, _) \<Rightarrow> Inl InvalidRepetition
                      | (Some m, it) \<Rightarrow>
                          if m = 0 then Inl InvalidRepetition
                          else case next_char_or InvalidRepetition it of
                            Inl e \<Rightarrow> Inl e
                          | Inr ((ch, _), it) \<Rightarrow>
                              if ch = uc CHR ''}'' then Inr (CRepBetween n m, it)
                              else Inl InvalidRepetition)"

definition handle_escaped :: "uchar \<Rightarrow> ast" where
  "handle_escaped ch =
     (if ch = uc CHR ''b'' then AAssertion WordBoundary
      else if ch = uc CHR ''B'' then AAssertion NonWordBoundary
      else if ch = uc CHR ''d'' then AComp CNumeric
      else if ch = uc CHR ''D'' then AComp CNonNumeric
      else if ch = uc CHR ''w'' then AComp CAlphaNumeric
      else if ch = uc CHR ''W'' then AComp CNonAlphaNumeric
      else if ch = uc CHR ''s'' then AComp CWhiteSpace
      else if ch = uc CHR ''S'' then AComp CNonWhiteSpace
      else AComp (CChar ch))"

definition concat_or_node :: "ast list \<Rightarrow> ast" where
  "concat_or_node nodes = (case nodes of [n] \<Rightarrow> n | _ \<Rightarrow> AConcat nodes)"

text \<open>The qualifier behind an opening parenthesis.\<close>

definition group_kind :: "ustr \<Rightarrow> regex_error + sm_kind \<times> ustr" where
  "group_kind it =
     (case it of
        c # it' \<Rightarrow>
          if c \<noteq> uc CHR ''?'' then Inr (Normal, it)
          else
            (case it' of
               [] \<Rightarrow> Inl UnbalancedParens
             | ch # it \<Rightarrow>
                 if ch = uc CHR '':'' then Inr (NonCapturing, it)
                 else if ch = uc CHR ''<'' then
                   let name = takeWhile (\<lambda>c. c \<noteq> uc CHR ''>'') it;
                       it = tl (dropWhile (\<lambda>c. c \<noteq> uc CHR ''>'') it)
                   in if it = [] then Inl (UnclosedGroupName name) else Inr (Named name, it)
                 else Inl (UnknownGroupQualifier ch))
      | [] \<Rightarrow> Inr (Normal, it))"

datatype parse_end = Rparen | Eof

type_synonym 'a parsed = "(regex_error + 'a) option"

type_synonym parse_one = "ustr \<Rightarrow> ast list \<Rightarrow> (parse_end option \<times> ustr \<times> ast list) parsed"
type_synonym parse_all = "ustr \<Rightarrow> ast list \<Rightarrow> (parse_end \<times> ustr \<times> ast list) parsed"

text \<open>The functions that call back into the parser take it as an argument.\<close>

definition handle_subexp :: "parse_all \<Rightarrow> ustr \<Rightarrow> ast list \<Rightarrow> (ustr \<times> ast list) parsed" where
  "handle_subexp many it root =
     try_bind (Some (group_kind it)) (\<lambda>(kind, it).
     try_bind (many it []) (\<lambda>(p, it, sub).
       case p of
         Eof \<Rightarrow> Some (Inl UnbalancedParens)
       | Rparen \<Rightarrow>
           if sub = [] then Some (Inl EmptyParens)
           else Some (Inr (it, root @ [ASubMatch kind (concat_or_node sub)]))))"

definition handle_alt ::
  "(ustr \<Rightarrow> ast list \<Rightarrow> ast list \<Rightarrow> (ustr \<times> ast list) parsed) \<Rightarrow> ustr \<Rightarrow> ast list \<Rightarrow> (ustr \<times> ast list) parsed" where
  "handle_alt alts it root =
     (if root = [] then Some (Inl UnbalancedAlt)
      else try_bind (alts it [concat_or_node root] []) (\<lambda>(it, alt). Some (Inr (it, [AAlt alt]))))"

definition handle_char ::
  "parse_all \<Rightarrow> (ustr \<Rightarrow> ast list \<Rightarrow> ast list \<Rightarrow> (ustr \<times> ast list) parsed) \<Rightarrow> uchar \<Rightarrow> parse_one" where
  "handle_char many alts ch it root =
     (if ch = uc CHR ''|'' then
        try_bind (handle_alt alts it root) (\<lambda>(it, root). Some (Inr (None, it, root)))
      else if ch = uc CHR ''('' then
        try_bind (handle_subexp many it root) (\<lambda>(it, root). Some (Inr (None, it, root)))
      else if ch = uc CHR '')'' then Some (Inr (Some Rparen, it, root))
      else if ch = uc CHR ''?'' then
        try_bind (Some (rep_apply (Quest Greedy) root)) (\<lambda>root. Some (Inr (None, it, root)))
      else if ch = uc CHR ''*'' then
        try_bind (Some (rep_apply (Star Greedy) root)) (\<lambda>root. Some (Inr (None, it, root)))
      else if ch = uc CHR ''+'' then
        try_bind (Some (rep_apply (Plus Greedy) root)) (\<lambda>root. Some (Inr (None, it, root)))
      else if ch = uc CHR ''{'' then
        try_bind (Some (try_parse_counted_repetition it)) (\<lambda>(c, it).
        try_bind (counted_apply c root) (\<lambda>root. Some (Inr (None, it, root))))
      else if ch = uc CHR ''^'' then Some (Inr (None, it, root @ [AAssertion LineStart]))
      else if ch = uc CHR ''$'' then Some (Inr (None, it, root @ [AAssertion LineEnd]))
      else if ch = uc CHR ''['' then
        try_bind (Some (class_try_parse it)) (\<lambda>(cls, it). Some (Inr (None, it, root @ [AComp (CClass cls)])))
      else if ch = uc CHR ''.'' then Some (Inr (None, it, root @ [AComp CAny]))
      else if ch = uc CHR ''@'' then Some (Inr (None, it, root @ [AComp CTrueAny]))
      else Some (Inr (None, it, root @ [AComp (CChar ch)])))"

fun parse1 :: "nat \<Rightarrow> parse_one"
  and parse_many :: "nat \<Rightarrow> parse_all"
  and alt_loop :: "nat \<Rightarrow> ustr \<Rightarrow> ast list \<Rightarrow> ast list \<Rightarrow> (ustr \<times> ast list) parsed"
where
  "parse1 0 it root = None"
| "parse1 (Suc fuel) it root =
     (case next_char it of
        Inl e \<Rightarrow> Some (Inl e)
      | Inr (c, it) \<Rightarrow>
          (case c of
             Some (ch, escaped) \<Rightarrow>
               if escaped then Some (Inr (None, it, root @ [handle_escaped ch]))
               else handle_char (parse_many fuel) (alt_loop fuel) ch it root
           | None \<Rightarrow> Some (Inr (Some Eof, it, root))))"
| "parse_many 0 it root = None"
| "parse_many (Suc fuel) it root =
     try_bind (parse1 fuel it root) (\<lambda>(p, it, root).
       case p of
         Some p \<Rightarrow> Some (Inr (p, it, root))
       | None \<Rightarrow> parse_many fuel it root)"
| "alt_loop 0 it alt buf = None"
| "alt_loop (Suc fuel) it alt buf =
     try_bind (parse1 fuel it buf) (\<lambda>(p, it, buf).
       if p \<noteq> None then
         if buf = [] then Some (Inl UnbalancedAlt) else Some (Inr (it, alt @ [concat_or_node buf]))
       else if it \<noteq> [] \<and> hd it = uc CHR ''|'' then alt_loop fuel (tl it) (alt @ [concat_or_node buf]) []
       else if it \<noteq> [] \<and> hd it = uc CHR '')'' then Some (Inr (it, alt @ [concat_or_node buf]))
       else alt_loop fuel it alt buf)"

fun contains_named_submatch :: "ast \<Rightarrow> bool" where
  "contains_named_submatch (ASubMatch k node) \<longleftrightarrow>
     (case k of Named _ \<Rightarrow> True | _ \<Rightarrow> contains_named_submatch node)"
| "contains_named_submatch (ARep _ node) \<longleftrightarrow> contains_named_submatch node"
| "contains_named_submatch (AAlt nodes) \<longleftrightarrow> list_ex contains_named_submatch nodes"
| "contains_named_submatch (AConcat nodes) \<longleftrightarrow> list_ex contains_named_submatch nodes"
| "contains_named_submatch _ \<longleftrightarrow> False"

fun named_submatch_only :: "ast \<Rightarrow> ast" where
  "named_submatch_only (ASubMatch k node) =
     ASubMatch (case k of Normal \<Rightarrow> NonCapturing | k \<Rightarrow> k) (named_submatch_only node)"
| "named_submatch_only (AAlt nodes) = AAlt (map named_submatch_only nodes)"
| "named_submatch_only (AConcat nodes) = AConcat (map named_submatch_only nodes)"
| "named_submatch_only (ARep r node) = ARep r (named_submatch_only node)"
| "named_submatch_only a = a"

definition parse_fuel :: "ustr \<Rightarrow> nat" where
  "parse_fuel re = 2 * length re + 2"

definition regex_parse :: "ustr \<Rightarrow> ast parsed" where
  "regex_parse re =
     try_bind (parse_many (parse_fuel re) re []) (\<lambda>(_, _, nodes).
       if nodes = [] then Some (Inl EmptyRegex)
       else let root = concat_or_node nodes
         in Some (Inr (if contains_named_submatch root then named_submatch_only root else root)))"

subsection \<open>Transformations\<close>

text \<open>
  \<open>op_len\<close>: the number of instructions of a node. For an alternation without branches the code
  panics, here and when it is compiled.
\<close>

fun op_len :: "ast \<Rightarrow> nat" where
  "op_len (AComp _) = 1"
| "op_len (AAssertion _) = 1"
| "op_len (AAlt nodes) = sum_list (map op_len nodes) + (length nodes - 1) * 2"
| "op_len (ARep r node) = rep_op_len r (op_len node)"
| "op_len (AConcat nodes) = sum_list (map op_len nodes)"
| "op_len (ASubMatch NonCapturing node) = op_len node"
| "op_len (ASubMatch _ node) = op_len node + 2"

fun ast_reverse :: "ast \<Rightarrow> ast" where
  "ast_reverse (AAssertion LineStart) = AAssertion LineEnd"
| "ast_reverse (AAssertion LineEnd) = AAssertion LineStart"
| "ast_reverse (AAlt nodes) = AAlt (map ast_reverse (rev nodes))"
| "ast_reverse (ARep r node) = ARep r (ast_reverse node)"
| "ast_reverse (AConcat nodes) = AConcat (map ast_reverse (rev nodes))"
| "ast_reverse (ASubMatch k node) = ASubMatch k (ast_reverse node)"
| "ast_reverse a = a"

definition replace_common_classes :: "comp \<Rightarrow> comp \<times> bool" where
  "replace_common_classes c =
     (case c of
        CClass cls \<Rightarrow>
          let neg = cls_negated cls; chars = cls_chars cls; ranges = cls_ranges cls
          in if chars = [] \<and> ranges = [(0x30, 0x39)] then (if neg then CNonNumeric else CNumeric, True)
             else if chars = [0x5F] \<and> (0x30, 0x39) \<in> set ranges \<and> (0x61, 0x7A) \<in> set ranges \<and>
               (0x41, 0x5A) \<in> set ranges then (if neg then CNonAlphaNumeric else CAlphaNumeric, True)
             else (c, False)
      | _ \<Rightarrow> (c, False))"

fun is_concat :: "ast \<Rightarrow> bool" where
  "is_concat (AConcat _) = True"
| "is_concat _ = False"

fun flatten_concat :: "ast \<Rightarrow> ast list" where
  "flatten_concat (AConcat children) = children"
| "flatten_concat node = [node]"

text \<open>\<open>compress_cats\<close>: the nodes, and whether any of them was flattened.\<close>

function compress_loop :: "ast list \<Rightarrow> ast list \<times> bool" where
  "compress_loop nodes =
     (if list_ex is_concat nodes
      then (fst (compress_loop (concat (map flatten_concat nodes))), True)
      else (nodes, False))"
  by pat_completeness auto

lemma size_flatten_concat: "size_list size (flatten_concat n) \<le> size_list size [n]"
  by (cases n) auto

lemma size_list_append: "size_list f (xs @ ys) = size_list f xs + size_list f ys"
  by (induction xs) auto

lemma size_flatten_less:
  "list_ex is_concat nodes \<Longrightarrow> size_list size (concat (map flatten_concat nodes)) < size_list size nodes"
proof (induction nodes)
  case (Cons n nodes)
  have le: "size_list size (concat (map flatten_concat ns)) \<le> size_list size ns" for ns
  proof (induction ns)
    case (Cons n ns)
    then show ?case using size_flatten_concat[of n] by (simp add: size_list_append)
  qed simp
  have less: "size_list size (flatten_concat n) < size_list size [n]" if "is_concat n"
    using that by (cases n) auto
  show ?case
  proof (cases "is_concat n")
    case True
    then show ?thesis using less le[of nodes] by (simp add: size_list_append)
  next
    case False
    then show ?thesis using Cons size_flatten_concat[of n] by (simp add: size_list_append)
  qed
qed simp

termination compress_loop
  by (relation "measure (size_list size)") (use size_flatten_less in auto)

declare compress_loop.simps [simp del]

text \<open>
  The loop of \<open>optimise\<close> runs again after a change; a second round finds nothing, since a
  replaced class is none and the flattened nodes hold no concatenation.
\<close>

definition ast_optimise_step :: "ast \<Rightarrow> ast \<times> bool" where
  "ast_optimise_step a =
     (case a of
        AComp c \<Rightarrow> apfst AComp (replace_common_classes c)
      | AConcat nodes \<Rightarrow> apfst AConcat (compress_loop nodes)
      | _ \<Rightarrow> (a, False))"

lemma compress_loop_flat: "\<not> list_ex is_concat (fst (compress_loop nodes))"
proof (induction nodes rule: compress_loop.induct)
  case (1 nodes)
  then show ?case by (subst compress_loop.simps) simp
qed

lemma ast_optimise_step_twice: "snd (ast_optimise_step (fst (ast_optimise_step a))) = False"
proof (cases a)
  case (AConcat nodes)
  have "compress_loop (fst (compress_loop nodes)) = (fst (compress_loop nodes), False)"
    by (subst compress_loop.simps) (simp add: compress_loop_flat)
  then show ?thesis using AConcat by (simp add: ast_optimise_step_def)
qed (auto simp: ast_optimise_step_def replace_common_classes_def Let_def split: comp.splits)

function ast_optimise :: "ast \<Rightarrow> ast" where
  "ast_optimise a = (case ast_optimise_step a of (a, True) \<Rightarrow> ast_optimise a | (a, False) \<Rightarrow> a)"
  by pat_completeness auto
termination
  by (relation "measure (\<lambda>a. if snd (ast_optimise_step a) then 1 else 0)")
    (use ast_optimise_step_twice in \<open>auto simp: prod_eq_iff\<close>)

declare ast_optimise.simps [simp del]

subsection \<open>Leading literals\<close>

definition MAX_LEADING_LITERALS :: nat where "MAX_LEADING_LITERALS = 50"

definition combine :: "ustr set \<Rightarrow> ustr set \<Rightarrow> ustr set" where
  "combine lits node_lits = (\<Union>l \<in> lits. (\<lambda>nl. l @ nl) ` node_lits)"

definition class_literals :: "char_class \<Rightarrow> ustr set" where
  "class_literals cls =
     (\<lambda>c. [c]) ` set (cls_chars cls) \<union>
     (\<Union>(s, e) \<in> set (cls_ranges cls). (\<lambda>n. [of_nat n]) ` set [unat s..<unat e + 1])"

fun leading_literals_inner :: "ast \<Rightarrow> ustr set \<times> bool"
  and leading_literals_for_alt :: "ustr set \<Rightarrow> ast list \<Rightarrow> ustr set \<times> bool"
  and leading_literals_for_concat :: "ustr set \<Rightarrow> ast list \<Rightarrow> ustr set \<times> bool"
where
  "leading_literals_inner (AComp c) =
     (case c of
        CChar c \<Rightarrow> ({[c]}, True)
      | CNumeric \<Rightarrow> ((\<lambda>n. [of_nat n]) ` set [0x30..<0x3A], True)
      | CClass cls \<Rightarrow>
          if \<not> cls_negated cls \<and> class_size cls \<le> MAX_LEADING_LITERALS then (class_literals cls, True)
          else ({}, False)
      | _ \<Rightarrow> ({}, False))"
| "leading_literals_inner (AAssertion _) = ({}, False)"
| "leading_literals_inner (ASubMatch _ node) = leading_literals_inner node"
| "leading_literals_inner (AConcat nodes) = leading_literals_for_concat {[]} nodes"
| "leading_literals_inner (AAlt nodes) = leading_literals_for_alt {} nodes"
| "leading_literals_inner (ARep r node) =
     (let lits = fst (leading_literals_inner node) - {[]}
      in (if rep_is_nullable r \<and> lits \<noteq> {} then insert [] lits else lits, False))"
| "leading_literals_for_alt lits [] = (lits, True)"
| "leading_literals_for_alt lits (node # nodes) =
     (let lits = lits \<union> (fst (leading_literals_inner node) - {[]})
      in if MAX_LEADING_LITERALS < card lits then ({}, False) else leading_literals_for_alt lits nodes)"
| "leading_literals_for_concat lits [] = (lits, True)"
| "leading_literals_for_concat lits (node # nodes) =
     (case node of
        AAssertion _ \<Rightarrow> (lits, False)
      | _ \<Rightarrow>
         (let (node_lits, ongoing) = leading_literals_inner node
          in case node of
               ARep (Plus _) _ \<Rightarrow>
                 let lits = combine lits node_lits
                 in if MAX_LEADING_LITERALS < card lits then ({}, False) else (lits, ongoing)
             | ARep (Star _) _ \<Rightarrow>
                 let lits =
                   (if node_lits = {} then lits
                    else combine lits node_lits \<union>
                      combine lits (fst (leading_literals_for_concat {[]} nodes)))
                 in if MAX_LEADING_LITERALS < card lits then ({}, False) else (lits - {[]}, ongoing)
             | _ \<Rightarrow>
                 let lits = combine lits node_lits
                 in if MAX_LEADING_LITERALS < card lits then ({}, False)
                    else if ongoing then leading_literals_for_concat lits nodes
                    else (lits, ongoing)))"

definition leading_literals :: "ast \<Rightarrow> ustr set" where
  "leading_literals a = fst (leading_literals_inner a) - {[]}"

end
