(* ===== verification/RegexCompile.thy ===== *)
theory RegexCompile
  imports RegexAst
begin

text \<open>
  The compiler of src/regex/compile.rs: from a syntax tree to the instructions of the virtual
  machine, and the optimiser of instructions.
\<close>

subsection \<open>Instructions\<close>

datatype op =
    OComp comp | OAssertion assertion | OSplit nat nat | OJump nat | OSave nat | ORSave nat | OMatch

fun is_control :: "op \<Rightarrow> bool" where
  "is_control (OJump _) = True"
| "is_control (OSplit _ _) = True"
| "is_control OMatch = True"
| "is_control _ = False"

subsection \<open>Compilation\<close>

record sm_details =
  sm_n :: nat
  sm_names :: "ustr list"

fun rep_ops :: "rep \<Rightarrow> nat \<Rightarrow> nat \<Rightarrow> op list \<Rightarrow> op list" where
  "rep_ops (Quest greed) offset len ops =
     (let (l1, l2) = (offset + 1, offset + 1 + len);
          (l1, l2) = (if greed = Lazy then (l2, l1) else (l1, l2))
      in OSplit l1 l2 # ops)"
| "rep_ops (Star greed) offset len ops =
     (let (l1, l2) = (offset + 1, offset + 2 + len);
          (l1, l2) = (if greed = Lazy then (l2, l1) else (l1, l2))
      in OSplit l1 l2 # ops @ [OJump offset])"
| "rep_ops (Plus greed) offset len ops =
     (let (l1, l2) = (offset, offset + 1 + len);
          (l1, l2) = (if greed = Lazy then (l2, l1) else (l1, l2))
      in ops @ [OSplit l1 l2])"

text \<open>Where the code of the node of a repetition starts.\<close>

fun rep_node_offset :: "rep \<Rightarrow> nat \<Rightarrow> nat" where
  "rep_node_offset (Plus _) offset = offset"
| "rep_node_offset _ offset = offset + 1"

definition alt_len :: "ast list \<Rightarrow> nat" where
  "alt_len nodes = sum_list (map op_len nodes) + (length nodes - 1) * 2"

definition saves_push :: "sm_kind \<Rightarrow> sm_details \<Rightarrow> sm_details" where
  "saves_push kind saves =
     (let saves = (case kind of Named name \<Rightarrow> saves\<lparr>sm_names := sm_names saves @ [name]\<rparr> | _ \<Rightarrow> saves)
      in saves\<lparr>sm_n := sm_n saves + 1\<rparr>)"

text \<open>
  \<open>alt_ops\<close> is the loop over the branches of an alternation that ends at \<open>end_pc\<close>; there is a
  panic when it has none.
\<close>

fun into_ops :: "bool \<Rightarrow> ast \<Rightarrow> nat \<Rightarrow> sm_details \<Rightarrow> (op list \<times> sm_details) option"
  and alt_ops :: "bool \<Rightarrow> nat \<Rightarrow> ast list \<Rightarrow> nat \<Rightarrow> sm_details \<Rightarrow> (op list \<times> sm_details) option"
  and concat_ops :: "bool \<Rightarrow> ast list \<Rightarrow> nat \<Rightarrow> sm_details \<Rightarrow> (op list \<times> sm_details) option"
where
  "into_ops rv (AComp c) offset saves = Some ([OComp c], saves)"
| "into_ops rv (AAssertion a) offset saves = Some ([OAssertion a], saves)"
| "into_ops rv (AAlt nodes) offset saves = alt_ops rv (offset + alt_len nodes) nodes offset saves"
| "into_ops rv (AConcat nodes) offset saves = concat_ops rv nodes offset saves"
| "into_ops rv (ARep r node) offset saves = do {
     (ops, saves) \<leftarrow> into_ops rv node (rep_node_offset r offset) saves;
     Some (rep_ops r offset (op_len node) ops, saves)
   }"
| "into_ops rv (ASubMatch kind node) offset saves =
     (if kind = NonCapturing then into_ops rv node offset saves
      else do {
        let saves = saves_push kind saves;
        let s = sm_n saves * 2;
        (ops, saves) \<leftarrow> into_ops rv node (offset + 1) saves;
        Some ([if rv then ORSave (s + 1) else OSave s] @ ops @ [if rv then ORSave s else OSave (s + 1)], saves)
      })"
| "alt_ops rv end_pc [] base saves = None"
| "alt_ops rv end_pc (node # nodes) base saves =
     (if nodes = [] then into_ops rv node base saves
      else do {
        (ops, saves) \<leftarrow> into_ops rv node (base + 1) saves;
        let buf = [OSplit (base + 1) (base + 2 + op_len node)] @ ops @ [OJump end_pc];
        (rest, saves) \<leftarrow> alt_ops rv end_pc nodes (base + length buf) saves;
        Some (buf @ rest, saves)
      })"
| "concat_ops rv [] offset saves = Some ([], saves)"
| "concat_ops rv (node # nodes) offset saves = do {
     (ops, saves) \<leftarrow> into_ops rv node offset saves;
     (rest, saves) \<leftarrow> concat_ops rv nodes (offset + length ops) saves;
     Some (ops @ rest, saves)
   }"

fun shift_op :: "nat \<Rightarrow> op \<Rightarrow> op" where
  "shift_op n (OJump j) = OJump (j + n)"
| "shift_op n (OSplit l1 l2) = OSplit (l1 + n) (l2 + n)"
| "shift_op n op = op"

record compiled_ops =
  co_ops :: "op list"
  co_n_submatches :: nat
  co_submatch_names :: "ustr list"

definition compile_prefix :: "bool \<Rightarrow> op list" where
  "compile_prefix rv = [OSplit 3 1, OComp CTrueAny, OSplit 3 1, if rv then ORSave 1 else OSave 0]"

definition compile_ast :: "ast \<Rightarrow> bool \<Rightarrow> compiled_ops option" where
  "compile_ast ast rv = do {
     let ast = (if rv then ast_reverse ast else ast);
     (prog, saves) \<leftarrow> into_ops rv ast 0 \<lparr>sm_n = 0, sm_names = []\<rparr>;
     Some \<lparr>co_ops = compile_prefix rv @ map (shift_op 4) prog @ [if rv then ORSave 0 else OSave 1, OMatch],
           co_n_submatches = sm_n saves, co_submatch_names = sm_names saves\<rparr>
   }"

subsection \<open>Optimisation of instructions\<close>

fun jump_target :: "op \<Rightarrow> nat \<Rightarrow> nat" where
  "jump_target (OJump j) s = j"
| "jump_target _ s = s"

definition inline_jumps :: "op list \<Rightarrow> nat \<Rightarrow> (op list \<times> bool) option" where
  "inline_jumps ops i = do {
     op \<leftarrow> nth_opt ops i;
     case op of
       OJump j \<Rightarrow> do {
         tgt \<leftarrow> nth_opt ops j;
         Some (case tgt of
                 OJump l1 \<Rightarrow> (ops[i := OJump l1], True)
               | OSplit l1 l2 \<Rightarrow> (ops[i := OSplit l1 l2], True)
               | OMatch \<Rightarrow> (ops[i := OMatch], True)
               | _ \<Rightarrow> (ops, False))
       }
     | OSplit s1 s2 \<Rightarrow> do {
         op1 \<leftarrow> nth_opt ops s1;
         op2 \<leftarrow> nth_opt ops s2;
         if op1 = OMatch \<and> op2 = OMatch then Some (ops[i := OMatch], True)
         else
           let new_s1 = jump_target op1 s1; new_s2 = jump_target op2 s2
           in Some (if new_s1 \<noteq> s1 \<or> new_s2 \<noteq> s2 then (ops[i := OSplit new_s1 new_s2], True)
                    else (ops, False))
       }
     | _ \<Rightarrow> Some (ops, False)
   }"

fun inline_pass :: "nat list \<Rightarrow> op list \<Rightarrow> bool \<Rightarrow> (op list \<times> bool) option" where
  "inline_pass [] ops optimising = Some (ops, optimising)"
| "inline_pass (i # is) ops optimising = do {
     (ops, changed) \<leftarrow> inline_jumps ops i;
     inline_pass is ops (optimising \<or> changed)
   }"

partial_function (option) inline_loop :: "op list \<Rightarrow> op list option" where
  "inline_loop ops = do {
     (ops, optimising) \<leftarrow> inline_pass [0..<length ops] ops False;
     if optimising then inline_loop ops else Some ops
   }"

text \<open>Every target of an instruction, with the instruction.\<close>

fun op_targets :: "op \<Rightarrow> nat list" where
  "op_targets (OJump j) = [j]"
| "op_targets (OSplit l1 l2) = [l1, l2]"
| "op_targets _ = []"

definition to_from :: "op list \<Rightarrow> (nat \<times> nat) list" where
  "to_from ops = concat (map (\<lambda>(i, op). map (\<lambda>j. (j, i)) (op_targets op)) (enumerate 0 ops))"

text \<open>The correction of one target for the removal of instruction \<open>i\<close>.\<close>

fun retarget_op :: "nat \<Rightarrow> op \<Rightarrow> op option" where
  "retarget_op i (OJump x) = map_option OJump (usub x 1)"
| "retarget_op i (OSplit x y) =
     Some (if i < x then OSplit (x - 1) y else if i < y then OSplit x (y - 1) else OSplit x y)"
| "retarget_op i op = Some op"

fun retarget :: "nat \<Rightarrow> (nat \<times> nat) list \<Rightarrow> op list \<Rightarrow> ((nat \<times> nat) list \<times> op list) option" where
  "retarget i [] ops = Some ([], ops)"
| "retarget i ((to, from_pc) # tf) ops = do {
     ops \<leftarrow> (if i < to then do {
               op \<leftarrow> nth_opt ops from_pc;
               op \<leftarrow> retarget_op i op;
               Some (ops[from_pc := op])
             } else Some ops);
     (tf, ops) \<leftarrow> retarget i tf ops;
     Some ((to, if i < from_pc then from_pc - 1 else from_pc) # tf, ops)
   }"

text \<open>The loop that removes instructions, from the last but one down to the second.\<close>

fun strip_loop :: "nat \<Rightarrow> nat list \<Rightarrow> (nat \<times> nat) list \<Rightarrow> op list \<Rightarrow> op list option" where
  "strip_loop 0 jumps tf ops = Some ops"
| "strip_loop (Suc i) jumps tf ops = do {
     prev \<leftarrow> nth_opt ops i;
     if \<not> is_control prev \<or> Suc i \<in> set jumps then strip_loop i jumps tf ops
     else do {
       (tf, ops) \<leftarrow> retarget (Suc i) tf ops;
       strip_loop i jumps tf (take (Suc i) ops @ drop (Suc (Suc i)) ops)
     }
   }"

definition strip_unreachable_instructions :: "op list \<Rightarrow> op list option" where
  "strip_unreachable_instructions ops = do {
     n \<leftarrow> usub (length ops) 1;
     strip_loop (n - 1) (concat (map op_targets ops)) (to_from ops) ops
   }"

definition ops_optimise :: "op list \<Rightarrow> op list option" where
  "ops_optimise ops = do {
     ops \<leftarrow> inline_loop ops;
     strip_unreachable_instructions ops
   }"

end
