(* ===== verification/RegexVm.thy ===== *)
theory RegexVm
  imports RegexCompile
begin

text \<open>
  The virtual machine of src/regex/vm.rs, and the matches of src/regex/matches.rs. The thread
  lists are arrays of the length of the program with the index \<open>p\<close> up to which the next one is
  filled. \<open>add_thread\<close> recurses at most once per instruction that is not yet on the list, and
  its fuel is the length of the program and one more. The alphanumeric characters of the
  standard library are the parameter \<open>alnum\<close>.
\<close>

subsection \<open>State\<close>

definition N_SLOTS :: nat where "N_SLOTS = 30"

record match =
  m_n_submatches :: nat
  m_sub_matches :: "nat list"
  m_submatch_names :: "ustr list"

record inst =
  in_op :: op
  in_generation :: nat

record thread =
  th_pc :: nat
  th_assertion :: "assertion option"
  th_sm :: nat

record sub_matches =
  sm_refs :: nat
  sm_inner :: "nat list"

record regex_inner =
  rx_prog :: "inst list"
  rx_fast_start :: "ustr set option"
  rx_n_submatches :: nat
  rx_submatch_names :: "ustr list"
  rx_clist :: "thread list"
  rx_nlist :: "thread list"
  rx_sms :: "sub_matches list"
  rx_free_sms :: "nat list"
  rx_track_submatches :: bool
  rx_generation :: nat
  rx_p :: nat
  rx_prev :: "uchar option"
  rx_next :: "uchar option"

definition thread_default :: thread where
  "thread_default = \<lparr>th_pc = 0, th_assertion = None, th_sm = 0\<rparr>"

definition match_synthetic :: "nat \<Rightarrow> nat \<Rightarrow> match" where
  "match_synthetic from_idx to =
     \<lparr>m_n_submatches = 0, m_sub_matches = (replicate N_SLOTS 0)[0 := from_idx, 1 := to], m_submatch_names = []\<rparr>"

definition regex_new :: "op list \<Rightarrow> nat \<Rightarrow> ustr list \<Rightarrow> ustr set \<Rightarrow> regex_inner option" where
  "regex_new ops n_submatches submatch_names leading_lits = do {
     ops \<leftarrow> ops_optimise ops;
     let n = length ops;
     Some \<lparr>rx_prog = map (\<lambda>op. \<lparr>in_op = op, in_generation = 0\<rparr>) ops,
           rx_fast_start = (if leading_lits = {} then None else Some leading_lits),
           rx_n_submatches = n_submatches, rx_submatch_names = submatch_names,
           rx_clist = replicate n thread_default, rx_nlist = replicate n thread_default,
           rx_sms = replicate n \<lparr>sm_refs = 0, sm_inner = replicate N_SLOTS 0\<rparr>,
           rx_free_sms = [1..<n], rx_track_submatches = True, rx_generation = 0, rx_p = 0,
           rx_prev = None, rx_next = None\<rparr>
   }"

definition regex_compile :: "ustr \<Rightarrow> (regex_error + regex_inner) option" where
  "regex_compile re =
     try_bind (regex_parse re) (\<lambda>ast.
       let ast = ast_optimise ast; lits = leading_literals ast
       in do {
         co \<leftarrow> compile_ast ast False;
         map_option Inr (regex_new (co_ops co) (co_n_submatches co) (co_submatch_names co) lits)
       })"

definition rev_regex_compile :: "ustr \<Rightarrow> (regex_error + regex_inner) option" where
  "rev_regex_compile re =
     try_bind (regex_parse re) (\<lambda>ast. do {
         co \<leftarrow> compile_ast (ast_optimise ast) True;
         map_option Inr (regex_new (co_ops co) (co_n_submatches co) (co_submatch_names co) {})
       })"

subsection \<open>Submatches\<close>

definition sm_dec_ref :: "nat \<Rightarrow> regex_inner \<Rightarrow> regex_inner option" where
  "sm_dec_ref i rx =
     (if \<not> rx_track_submatches rx then Some rx
      else do {
        sm \<leftarrow> nth_opt (rx_sms rx) i;
        refs \<leftarrow> usub (sm_refs sm) 1;
        Some (rx\<lparr>rx_sms := (rx_sms rx)[i := sm\<lparr>sm_refs := refs\<rparr>],
                 rx_free_sms := (if refs = 0 then rx_free_sms rx @ [i] else rx_free_sms rx)\<rparr>)
      })"

text \<open>\<open>Vec::swap_remove(0)\<close>\<close>

definition swap_remove_first :: "'a list \<Rightarrow> ('a \<times> 'a list) option" where
  "swap_remove_first xs =
     (case xs of
        [] \<Rightarrow> None
      | [x] \<Rightarrow> Some (x, [])
      | x # ys \<Rightarrow> Some (x, last ys # butlast ys))"

definition sm_update :: "nat \<Rightarrow> nat \<Rightarrow> nat \<Rightarrow> regex_inner \<Rightarrow> (nat \<times> regex_inner) option" where
  "sm_update i s sp rx =
     (if \<not> rx_track_submatches rx \<or> N_SLOTS \<le> s then Some (i, rx)
      else do {
        sm \<leftarrow> nth_opt (rx_sms rx) i;
        (i, rx) \<leftarrow>
          (if sm_refs sm = 1 then Some (i, rx)
           else do {
             rx \<leftarrow> sm_dec_ref i rx;
             (j, free) \<leftarrow> swap_remove_first (rx_free_sms rx);
             smi \<leftarrow> nth_opt (rx_sms rx) i;
             _ \<leftarrow> nth_opt (rx_sms rx) j;
             Some (j, rx\<lparr>rx_sms := (rx_sms rx)[j := \<lparr>sm_refs = 1, sm_inner = sm_inner smi\<rparr>],
                         rx_free_sms := free\<rparr>)
           });
        sm \<leftarrow> nth_opt (rx_sms rx) i;
        _ \<leftarrow> nth_opt (sm_inner sm) s;
        Some (i, rx\<lparr>rx_sms := (rx_sms rx)[i := sm\<lparr>sm_inner := (sm_inner sm)[s := sp]\<rparr>]\<rparr>)
      })"

subsection \<open>Threads\<close>

text \<open>What is constant while a thread is added: the offset, the character and the two flags.\<close>

definition assertion_fails :: "(uchar \<Rightarrow> bool) \<Rightarrow> thread \<Rightarrow> uchar \<Rightarrow> regex_inner \<Rightarrow> bool" where
  "assertion_fails alnum t ch rx \<longleftrightarrow>
     (case th_assertion t of None \<Rightarrow> False | Some a \<Rightarrow> \<not> holds_for alnum a (rx_prev rx) ch (rx_next rx))"

definition handle_save ::
  "(thread \<Rightarrow> regex_inner \<Rightarrow> regex_inner option) \<Rightarrow> (uchar \<Rightarrow> bool) \<Rightarrow> nat \<Rightarrow> uchar \<Rightarrow> bool \<Rightarrow>
   thread \<Rightarrow> nat \<Rightarrow> bool \<Rightarrow> regex_inner \<Rightarrow> regex_inner option" where
  "handle_save add alnum sp ch initial t s rv rx =
     (let inc_bytes = (if \<not> initial \<and> \<not> rv then len_utf8 ch else 0)
      in if (\<not> rv \<and> even s) \<or> (rv \<and> odd s) then do {
           (sm, rx) \<leftarrow> sm_update (th_sm t) s (sp + inc_bytes) rx;
           add \<lparr>th_pc = th_pc t + 1, th_assertion = th_assertion t, th_sm = sm\<rparr> rx
         }
         else if assertion_fails alnum t ch rx then sm_dec_ref (th_sm t) rx
         else do {
           (sm, rx) \<leftarrow> sm_update (th_sm t) s (sp + inc_bytes) rx;
           add \<lparr>th_pc = th_pc t + 1, th_assertion = None, th_sm = sm\<rparr> rx
         })"

primrec add_thread ::
  "nat \<Rightarrow> (uchar \<Rightarrow> bool) \<Rightarrow> nat \<Rightarrow> uchar \<Rightarrow> bool \<Rightarrow> thread \<Rightarrow> regex_inner \<Rightarrow> regex_inner option" where
  "add_thread 0 alnum sp ch initial t rx = None"
| "add_thread (Suc fuel) alnum sp ch initial t rx = do {
     inst \<leftarrow> nth_opt (rx_prog rx) (th_pc t);
     if in_generation inst = rx_generation rx then sm_dec_ref (th_sm t) rx
     else do {
       let rx = rx\<lparr>rx_prog := (rx_prog rx)[th_pc t := inst\<lparr>in_generation := rx_generation rx\<rparr>]\<rparr>;
       case in_op inst of
         OJump l1 \<Rightarrow> add_thread fuel alnum sp ch initial (t\<lparr>th_pc := l1\<rparr>) rx
       | OSplit l1 l2 \<Rightarrow> do {
           sm \<leftarrow> nth_opt (rx_sms rx) (th_sm t);
           let rx = rx\<lparr>rx_sms := (rx_sms rx)[th_sm t := sm\<lparr>sm_refs := sm_refs sm + 1\<rparr>]\<rparr>;
           rx \<leftarrow> add_thread fuel alnum sp ch initial (t\<lparr>th_pc := l1\<rparr>) rx;
           add_thread fuel alnum sp ch initial (t\<lparr>th_pc := l2\<rparr>) rx
         }
       | OAssertion a \<Rightarrow>
           add_thread fuel alnum sp ch initial (t\<lparr>th_pc := th_pc t + 1, th_assertion := Some a\<rparr>) rx
       | OSave s \<Rightarrow> handle_save (add_thread fuel alnum sp ch initial) alnum sp ch initial t s False rx
       | ORSave s \<Rightarrow> handle_save (add_thread fuel alnum sp ch initial) alnum sp ch initial t s True rx
       | _ \<Rightarrow>
           if rx_p rx < length (rx_nlist rx)
           then Some (rx\<lparr>rx_nlist := (rx_nlist rx)[rx_p rx := t], rx_p := rx_p rx + 1\<rparr>) else None
     }
   }"

definition vm_fuel :: "regex_inner \<Rightarrow> nat" where
  "vm_fuel rx = length (rx_prog rx) + 1"

definition step_thread ::
  "(uchar \<Rightarrow> bool) \<Rightarrow> nat \<Rightarrow> nat \<Rightarrow> uchar \<Rightarrow> regex_inner \<Rightarrow> (nat option \<times> regex_inner) option" where
  "step_thread alnum i sp ch rx = do {
     t \<leftarrow> nth_opt (rx_clist rx) i;
     inst \<leftarrow> nth_opt (rx_prog rx) (th_pc t);
     case in_op inst of
       OComp cmp \<Rightarrow>
         if comp_matches cmp ch \<and> \<not> assertion_fails alnum t ch rx then do {
           rx \<leftarrow> add_thread (vm_fuel rx) alnum sp ch False
                  \<lparr>th_pc = th_pc t + 1, th_assertion = None, th_sm = th_sm t\<rparr> rx;
           Some (None, rx)
         }
         else map_option (Pair None) (sm_dec_ref (th_sm t) rx)
     | OMatch \<Rightarrow> Some (Some (th_sm t), rx)
     | _ \<Rightarrow> map_option (Pair None) (sm_dec_ref (th_sm t) rx)
   }"

fun dec_refs :: "nat list \<Rightarrow> regex_inner \<Rightarrow> regex_inner option" where
  "dec_refs [] rx = Some rx"
| "dec_refs (j # js) rx = do {
     t \<leftarrow> nth_opt (rx_clist rx) j;
     rx \<leftarrow> sm_dec_ref (th_sm t) rx;
     dec_refs js rx
   }"

text \<open>
  The threads of one round, up to the first one that matches. The result is the submatches of
  that one; without tracking the run ends there.
\<close>

fun step_threads ::
  "(uchar \<Rightarrow> bool) \<Rightarrow> nat list \<Rightarrow> nat \<Rightarrow> uchar \<Rightarrow> regex_inner \<Rightarrow> (nat list option \<times> regex_inner) option" where
  "step_threads alnum [] sp ch rx = Some (None, rx)"
| "step_threads alnum (i # is) sp ch rx = do {
     (r, rx) \<leftarrow> step_thread alnum i sp ch rx;
     case r of
       None \<Rightarrow> step_threads alnum is sp ch rx
     | Some sm \<Rightarrow>
         if \<not> rx_track_submatches rx then Some (Some [], rx)
         else do {
           sub \<leftarrow> nth_opt (rx_sms rx) sm;
           rx \<leftarrow> dec_refs (i # is) rx;
           Some (Some (sm_inner sub), rx)
         }
   }"

definition swap_lists :: "regex_inner \<Rightarrow> regex_inner" where
  "swap_lists rx = rx\<lparr>rx_clist := rx_nlist rx, rx_nlist := rx_clist rx\<rparr>"

text \<open>
  The loop over the input: the number of threads, the submatches of the match found so far, and
  whether the run ends before the input does because nothing is tracked.
\<close>

fun vm_loop ::
  "(uchar \<Rightarrow> bool) \<Rightarrow> (nat \<times> uchar) list \<Rightarrow> nat \<Rightarrow> nat list option \<Rightarrow> regex_inner \<Rightarrow>
   (bool \<times> nat \<times> nat list option \<times> regex_inner) option" where
  "vm_loop alnum [] n matched rx = Some (False, n, matched, rx)"
| "vm_loop alnum ((sp, ch) # input) n matched rx = do {
     let rx = rx\<lparr>rx_next := (case input of [] \<Rightarrow> None | (_, c) # _ \<Rightarrow> Some c)\<rparr>;
     (r, rx) \<leftarrow> step_threads alnum [0..<n] sp ch rx;
     if r \<noteq> None \<and> \<not> rx_track_submatches rx then Some (True, n, r, rx)
     else
       let matched = (if r \<noteq> None then r else matched);
           rx = (swap_lists rx)\<lparr>rx_prev := Some ch, rx_generation := rx_generation rx + 1\<rparr>;
           n = rx_p rx
       in if n = 0 then Some (False, n, matched, rx)
          else vm_loop alnum input n matched (rx\<lparr>rx_p := 0\<rparr>)
   }"

text \<open>The threads left at the end of the input: the first at a match no shorter than the one found.\<close>

fun final_match :: "thread list \<Rightarrow> nat list option \<Rightarrow> regex_inner \<Rightarrow> nat list option option" where
  "final_match [] matched rx = Some matched"
| "final_match (t # ts) matched rx = do {
     inst \<leftarrow> nth_opt (rx_prog rx) (th_pc t);
     if in_op inst \<noteq> OMatch then final_match ts matched rx
     else do {
       sub \<leftarrow> nth_opt (rx_sms rx) (th_sm t);
       if (case matched of None \<Rightarrow> 0 | Some m \<Rightarrow> m ! 1) \<le> sm_inner sub ! 1
       then Some (Some (sm_inner sub)) else final_match ts matched rx
     }
   }"

definition vm_start :: "(uchar \<Rightarrow> bool) \<Rightarrow> nat \<Rightarrow> regex_inner \<Rightarrow> regex_inner option" where
  "vm_start alnum sp rx = do {
     _ \<leftarrow> nth_opt (rx_sms rx) 0;
     let rx = rx\<lparr>rx_free_sms := [1..<length (rx_prog rx)],
                 rx_sms := (rx_sms rx)[0 := \<lparr>sm_refs = 1, sm_inner = replicate N_SLOTS 0\<rparr>],
                 rx_generation := rx_generation rx + 1\<rparr>;
     rx \<leftarrow> add_thread (vm_fuel rx) alnum sp 0 True thread_default rx;
     let rx = swap_lists rx;
     Some (rx\<lparr>rx_generation := rx_generation rx + 1\<rparr>)
   }"

definition run_vm ::
  "(uchar \<Rightarrow> bool) \<Rightarrow> (nat \<times> uchar) list \<Rightarrow> nat \<Rightarrow> regex_inner \<Rightarrow> (match option \<times> regex_inner) option" where
  "run_vm alnum input sp rx = do {
     rx \<leftarrow> vm_start alnum sp rx;
     (early, n, matched, rx) \<leftarrow>
       vm_loop alnum input (rx_p rx) None (rx\<lparr>rx_p := 0, rx_prev := None, rx_next := None\<rparr>);
     if early then Some (Some (match_synthetic 0 0), rx)
     else do {
       let rx = rx\<lparr>rx_prev := None, rx_next := None\<rparr>;
       matched \<leftarrow> final_match (take n (rx_clist rx)) matched rx;
       Some (map_option (\<lambda>sub. \<lparr>m_n_submatches = rx_n_submatches rx, m_sub_matches = sub,
               m_submatch_names = rx_submatch_names rx\<rparr>) matched, rx)
     }
   }"

subsection \<open>Matches\<close>

definition match_loc :: "match \<Rightarrow> (nat \<times> nat) option" where
  "match_loc m =
     (let (s, e) = (m_sub_matches m ! 0, m_sub_matches m ! 1)
      in do { rust_assert (s \<le> e); Some (s, e) })"

definition sub_loc :: "match \<Rightarrow> nat \<Rightarrow> (nat \<times> nat) option option" where
  "sub_loc m n =
     (if N_SLOTS \<le> 2 * n + 1 then Some None
      else let (s, e) = (m_sub_matches m ! (2 * n), m_sub_matches m ! (2 * n + 1))
        in if 0 < n \<and> s = 0 \<and> e = 0 then Some None
           else do { rust_assert (s \<le> e); Some (Some (s, e)) })"

fun position_of :: "('a \<Rightarrow> bool) \<Rightarrow> 'a list \<Rightarrow> nat option" where
  "position_of P [] = None"
| "position_of P (x # xs) = (if P x then Some 0 else map_option Suc (position_of P xs))"

definition sub_loc_by_name :: "match \<Rightarrow> ustr \<Rightarrow> (nat \<times> nat) option option" where
  "sub_loc_by_name m name =
     (case position_of (\<lambda>s. s = name) (m_submatch_names m) of
        None \<Rightarrow> Some None
      | Some n \<Rightarrow> sub_loc m (n + 1))"

fun named_matches_from :: "match \<Rightarrow> ustr list \<Rightarrow> ustr list option" where
  "named_matches_from m [] = Some []"
| "named_matches_from m (name # names) = do {
     loc \<leftarrow> sub_loc_by_name m name;
     rest \<leftarrow> named_matches_from m names;
     Some (if loc \<noteq> None then name # rest else rest)
   }"

definition named_matches :: "match \<Rightarrow> ustr list option" where
  "named_matches m = named_matches_from m (m_submatch_names m)"

fun locs_from :: "match \<Rightarrow> nat list \<Rightarrow> (nat \<times> nat) option list option" where
  "locs_from m [] = Some []"
| "locs_from m (n # ns) = do {
     loc \<leftarrow> sub_loc m n;
     rest \<leftarrow> locs_from m ns;
     Some (loc # rest)
   }"

definition iter_locs :: "match \<Rightarrow> (nat \<times> nat) option list option" where
  "iter_locs m = locs_from m [0..<m_n_submatches m + 1]"

end
