(* ===== verification/RegexLang.thy ===== *)
theory RegexLang
  imports RegexVm
begin

text \<open>
  What a regular expression means, and that the compiled instructions mean the same. The
  meaning of a syntax tree without assertions is the set of strings it matches. The meaning of
  a program is its paths: the strings that are consumed from one instruction to another.
\<close>

subsection \<open>Syntax trees\<close>

fun no_assertions :: "ast \<Rightarrow> bool" where
  "no_assertions (AComp _) \<longleftrightarrow> True"
| "no_assertions (AAssertion _) \<longleftrightarrow> False"
| "no_assertions (AAlt nodes) \<longleftrightarrow> list_all no_assertions nodes"
| "no_assertions (ARep _ node) \<longleftrightarrow> no_assertions node"
| "no_assertions (AConcat nodes) \<longleftrightarrow> list_all no_assertions nodes"
| "no_assertions (ASubMatch _ node) \<longleftrightarrow> no_assertions node"

text \<open>The alternations that the parser makes have branches.\<close>

fun alts_ok :: "ast \<Rightarrow> bool" where
  "alts_ok (AComp _) \<longleftrightarrow> True"
| "alts_ok (AAssertion _) \<longleftrightarrow> True"
| "alts_ok (AAlt nodes) \<longleftrightarrow> nodes \<noteq> [] \<and> list_all alts_ok nodes"
| "alts_ok (ARep _ node) \<longleftrightarrow> alts_ok node"
| "alts_ok (AConcat nodes) \<longleftrightarrow> list_all alts_ok nodes"
| "alts_ok (ASubMatch _ node) \<longleftrightarrow> alts_ok node"

inductive matches :: "ast \<Rightarrow> ustr \<Rightarrow> bool" where
  m_comp: "comp_matches c ch \<Longrightarrow> matches (AComp c) [ch]"
| m_alt: "n \<in> set nodes \<Longrightarrow> matches n w \<Longrightarrow> matches (AAlt nodes) w"
| m_nil: "matches (AConcat []) []"
| m_cons: "matches n u \<Longrightarrow> matches (AConcat nodes) v \<Longrightarrow> matches (AConcat (n # nodes)) (u @ v)"
| m_quest_skip: "matches (ARep (Quest g) n) []"
| m_quest: "matches n w \<Longrightarrow> matches (ARep (Quest g) n) w"
| m_star_done: "matches (ARep (Star g) n) []"
| m_star: "matches n u \<Longrightarrow> matches (ARep (Star g) n) v \<Longrightarrow> matches (ARep (Star g) n) (u @ v)"
| m_plus: "matches n u \<Longrightarrow> matches (ARep (Star g) n) v \<Longrightarrow> matches (ARep (Plus g) n) (u @ v)"
| m_sub: "matches n w \<Longrightarrow> matches (ASubMatch k n) w"

declare matches.intros [intro]

inductive_simps matches_simps [simp]:
  "matches (AComp c) w" "matches (AAssertion a) w" "matches (AAlt nodes) w"
  "matches (AConcat []) w" "matches (AConcat (n # nodes)) w"
  "matches (ARep (Quest g) n) w" "matches (ARep (Plus g) n) w" "matches (ASubMatch k n) w"

subsection \<open>Programs\<close>

fun eps_targets :: "op \<Rightarrow> nat \<Rightarrow> nat list" where
  "eps_targets (OJump j) pc = [j]"
| "eps_targets (OSplit l1 l2) pc = [l1, l2]"
| "eps_targets (OSave _) pc = [Suc pc]"
| "eps_targets (ORSave _) pc = [Suc pc]"
| "eps_targets _ pc = []"

text \<open>A path of a number of steps, from one instruction over a string to another.\<close>

inductive path :: "op list \<Rightarrow> nat \<Rightarrow> nat \<Rightarrow> ustr \<Rightarrow> nat \<Rightarrow> bool" for prog where
  path_done: "path prog 0 pc [] pc"
| path_eps: "nth_opt prog pc = Some op \<Longrightarrow> q \<in> set (eps_targets op pc) \<Longrightarrow> path prog k q w r \<Longrightarrow>
    path prog (Suc k) pc w r"
| path_comp: "nth_opt prog pc = Some (OComp c) \<Longrightarrow> comp_matches c ch \<Longrightarrow> path prog k (Suc pc) w r \<Longrightarrow>
    path prog (Suc k) pc (ch # w) r"

inductive_simps path_zero [simp]: "path prog 0 pc w r"
inductive_cases path_Suc: "path prog (Suc k) pc w r"

definition accepts :: "op list \<Rightarrow> nat \<Rightarrow> ustr \<Rightarrow> bool" where
  "accepts prog pc w \<longleftrightarrow> (\<exists>k q. path prog k pc w q \<and> nth_opt prog q = Some OMatch)"

lemma path_first_step:
  assumes "path prog k pc w r" "r \<noteq> pc"
  obtains k' where "k = Suc k'"
  using assms by (cases rule: path.cases) auto

lemma path_Jump: "path prog k pc w r \<Longrightarrow> nth_opt prog pc = Some (OJump j) \<Longrightarrow> r \<noteq> pc \<Longrightarrow>
    \<exists>k'. k = Suc k' \<and> path prog k' j w r"
  by (cases rule: path.cases) auto

lemma path_Split: "path prog k pc w r \<Longrightarrow> nth_opt prog pc = Some (OSplit l1 l2) \<Longrightarrow> r \<noteq> pc \<Longrightarrow>
    \<exists>k'. k = Suc k' \<and> (path prog k' l1 w r \<or> path prog k' l2 w r)"
  by (cases rule: path.cases) auto

lemma path_Save: "path prog k pc w r \<Longrightarrow> nth_opt prog pc = Some op \<Longrightarrow> op = OSave s \<or> op = ORSave s \<Longrightarrow> r \<noteq> pc \<Longrightarrow>
    \<exists>k'. k = Suc k' \<and> path prog k' (Suc pc) w r"
  by (cases rule: path.cases) auto

lemma path_Comp: "path prog k pc w r \<Longrightarrow> nth_opt prog pc = Some (OComp c) \<Longrightarrow> r \<noteq> pc \<Longrightarrow>
    \<exists>k' ch v. k = Suc k' \<and> w = ch # v \<and> comp_matches c ch \<and> path prog k' (Suc pc) v r"
  by (cases rule: path.cases) auto

lemma path_Match: "path prog k pc w r \<Longrightarrow> nth_opt prog pc = Some OMatch \<Longrightarrow> k = 0 \<and> w = [] \<and> r = pc"
  by (cases rule: path.cases) auto

subsection \<open>Code at an offset\<close>

fun code_at :: "op list \<Rightarrow> nat \<Rightarrow> op list \<Rightarrow> bool" where
  "code_at prog off [] \<longleftrightarrow> True"
| "code_at prog off (op # ops) \<longleftrightarrow> nth_opt prog off = Some op \<and> code_at prog (Suc off) ops"

lemma code_at_append [simp]:
  "code_at prog off (xs @ ys) \<longleftrightarrow> code_at prog off xs \<and> code_at prog (off + length xs) ys"
  by (induction xs arbitrary: off) auto

lemma code_at_middle: "code_at (pre @ ops @ post) (length pre) ops"
proof (induction ops arbitrary: pre)
  case (Cons op ops)
  from Cons.IH[of "pre @ [op]"] show ?case by (simp add: nth_opt_def)
qed simp

subsection \<open>The compiler without its local bindings\<close>

lemma alt_ops_single: "alt_ops rv end_pc [n] base s = into_ops rv n base s"
  by simp

lemma alt_ops_more:
  "alt_ops rv end_pc (n # m # nodes) base s =
     do { (ops, s1) \<leftarrow> into_ops rv n (Suc base) s;
          (rest, s2) \<leftarrow> alt_ops rv end_pc (m # nodes) (Suc (Suc (base + length ops))) s1;
          Some (OSplit (Suc base) (Suc (Suc (base + op_len n))) # ops @ OJump end_pc # rest, s2) }"
  by (subst alt_ops.simps(2)) (simp add: Let_def del: alt_ops.simps)

lemma into_ops_sub:
  "into_ops rv (ASubMatch kind n) off s =
     (if kind = NonCapturing then into_ops rv n off s
      else map_option (apfst (\<lambda>ops.
        [if rv then ORSave (sm_n (saves_push kind s) * 2 + 1) else OSave (sm_n (saves_push kind s) * 2)] @ ops @
        [if rv then ORSave (sm_n (saves_push kind s) * 2) else OSave (sm_n (saves_push kind s) * 2 + 1)]))
        (into_ops rv n (Suc off) (saves_push kind s)))"
  by (auto simp: Let_def split: option.splits bind_splits)

lemmas compile_simps = into_ops.simps(1-5) into_ops_sub alt_ops.simps(1) alt_ops_single alt_ops_more
  concat_ops.simps

declare into_ops.simps [simp del] alt_ops.simps [simp del] concat_ops.simps [simp del]
declare compile_simps [simp]

text \<open>Induction over a tree and the lists of its nodes.\<close>

lemma ast_list_induct [case_names comp assertion alt rep concat sub none single more nil cons]:
  assumes "\<And>c. P (AComp c)" "\<And>a. P (AAssertion a)" "\<And>nodes. A nodes \<Longrightarrow> P (AAlt nodes)"
    "\<And>r n. P n \<Longrightarrow> P (ARep r n)" "\<And>nodes. C nodes \<Longrightarrow> P (AConcat nodes)" "\<And>k n. P n \<Longrightarrow> P (ASubMatch k n)"
    and "A []" "\<And>n. P n \<Longrightarrow> A [n]" "\<And>n m nodes. P n \<Longrightarrow> A (m # nodes) \<Longrightarrow> A (n # m # nodes)"
    and "C []" "\<And>n nodes. P n \<Longrightarrow> C nodes \<Longrightarrow> C (n # nodes)"
  shows "P a" "A nodes" "C nodes"
proof -
  have lists: "A ns \<and> C ns" if "\<And>n. n \<in> set ns \<Longrightarrow> P n" for ns
    using that
  proof (induction ns)
    case (Cons n ns)
    then show ?case by (cases ns) (auto intro: assms)
  qed (auto intro: assms)
  show P: "P a" for a
    by (induction a) (auto intro: assms lists[THEN conjunct1] lists[THEN conjunct2])
  show "A nodes" "C nodes" using lists P by auto
qed

subsection \<open>The length of compiled code\<close>

lemma length_rep_ops [simp]: "length (rep_ops r off len ops) = rep_op_len r (length ops)"
  by (cases r) (auto simp: Let_def)

lemma length_into_ops:
  "into_ops rv a off s = Some (ops, s') \<Longrightarrow> length ops = op_len a"
  "alt_ops rv end_pc nodes off s = Some (ops, s') \<Longrightarrow> length ops = alt_len nodes"
  "concat_ops rv nodes off s = Some (ops, s') \<Longrightarrow> length ops = sum_list (map op_len nodes)"
proof (induction a and nodes and nodes arbitrary: off s ops s' and off s ops s' end_pc and off s ops s'
    rule: ast_list_induct)
  case (alt nodes)
  from alt.IH alt.prems show ?case by (fastforce simp: alt_len_def)
next
  case (sub k n)
  then show ?case by (cases k) fastforce+
next
  case (more n m nodes)
  from more.prems obtain ops1 s1 rest where
    "into_ops rv n (Suc off) s = Some (ops1, s1)"
    "alt_ops rv end_pc (m # nodes) (Suc (Suc (off + length ops1))) s1 = Some (rest, s')"
    "length ops = length ops1 + 2 + length rest"
    by (auto simp: bind_eq_Some_conv)
  then show ?case using more.IH by (simp add: alt_len_def)
next
  case (cons n nodes)
  then show ?case by (fastforce simp: bind_eq_Some_conv)
qed (fastforce simp: bind_eq_Some_conv alt_len_def)+

lemma into_ops_total:
  "alts_ok a \<Longrightarrow> \<exists>ops s'. into_ops rv a off s = Some (ops, s')"
  "nodes \<noteq> [] \<Longrightarrow> list_all alts_ok nodes \<Longrightarrow> \<exists>ops s'. alt_ops rv end_pc nodes off s = Some (ops, s')"
  "list_all alts_ok nodes \<Longrightarrow> \<exists>ops s'. concat_ops rv nodes off s = Some (ops, s')"
proof (induction a and nodes and nodes arbitrary: off s and off s end_pc and off s rule: ast_list_induct)
  case (rep r n)
  from rep.IH[of "rep_node_offset r off" s] rep.prems show ?case by auto
next
  case (sub k n)
  from sub.IH[of off s] sub.IH[of "Suc off" "saves_push k s"] sub.prems show ?case by auto
next
  case (more n m nodes)
  from more.IH(1)[of "Suc off" s] more.prems obtain ops s1 where ops: "into_ops rv n (Suc off) s = Some (ops, s1)"
    by auto
  from more.IH(2)[where off = "Suc (Suc (off + length ops))" and s = s1] more.prems obtain rest s2 where
    "alt_ops rv end_pc (m # nodes) (Suc (Suc (off + length ops))) s1 = Some (rest, s2)" by fastforce
  with ops show ?case by simp
next
  case (cons n nodes)
  from cons.IH(1)[of off s] cons.prems obtain ops s1 where ops: "into_ops rv n off s = Some (ops, s1)" by auto
  from cons.IH(2)[of "off + length ops" s1] cons.prems ops show ?case by auto
qed auto

subsection \<open>Compiled code can be moved\<close>

lemma shift_rep_ops:
  "map (shift_op n) (rep_ops r off len ops) = rep_ops r (off + n) len (map (shift_op n) ops)"
  by (cases r) (auto simp: Let_def)

lemma rep_node_offset_add: "rep_node_offset r (off + n) = rep_node_offset r off + n"
  by (cases r) auto

lemma into_ops_shift:
  "into_ops rv a off s = Some (ops, s') \<Longrightarrow> into_ops rv a (off + k) s = Some (map (shift_op k) ops, s')"
  "alt_ops rv end_pc nodes off s = Some (ops, s') \<Longrightarrow>
   alt_ops rv (end_pc + k) nodes (off + k) s = Some (map (shift_op k) ops, s')"
  "concat_ops rv nodes off s = Some (ops, s') \<Longrightarrow> concat_ops rv nodes (off + k) s = Some (map (shift_op k) ops, s')"
proof (induction a and nodes and nodes arbitrary: off s ops s' and off s ops s' end_pc and off s ops s'
    rule: ast_list_induct)
  case (alt nodes)
  from alt.IH[of "off + alt_len nodes" off s ops s'] alt.prems
  have "alt_ops rv (off + alt_len nodes + k) nodes (off + k) s = Some (map (shift_op k) ops, s')" by simp
  moreover have "off + alt_len nodes + k = off + k + alt_len nodes" by simp
  ultimately show ?case by (simp only: into_ops.simps)
next
  case (rep r n)
  then show ?case by (fastforce simp: bind_eq_Some_conv rep_node_offset_add shift_rep_ops)
next
  case (sub kind n)
  then show ?case
    using sub.IH[of "Suc off" "saves_push kind s"] by (fastforce split: if_splits)
next
  case (more n m nodes)
  from more.prems obtain ops1 s1 rest where ops:
    "into_ops rv n (Suc off) s = Some (ops1, s1)"
    "alt_ops rv end_pc (m # nodes) (Suc (Suc (off + length ops1))) s1 = Some (rest, s')"
    "ops = OSplit (Suc off) (Suc (Suc (off + op_len n))) # ops1 @ OJump end_pc # rest"
    by (auto simp: bind_eq_Some_conv)
  from more.IH(1)[OF ops(1)] more.IH(2)[OF ops(2)] ops(3) show ?case by (simp add: ac_simps)
next
  case (cons n nodes)
  from cons.prems obtain ops1 s1 rest where ops:
    "into_ops rv n off s = Some (ops1, s1)" "concat_ops rv nodes (off + length ops1) s1 = Some (rest, s')"
    "ops = ops1 @ rest"
    by (auto simp: bind_eq_Some_conv)
  from cons.IH(1)[OF ops(1)] cons.IH(2)[OF ops(2)] ops(3) show ?case by (simp add: ac_simps)
qed auto

subsection \<open>Compiled code has the paths of the strings it matches\<close>

text \<open>
  \<open>seg prog off len P\<close>: the code of \<open>len\<close> instructions at \<open>off\<close> consumes the strings that satisfy
  \<open>P\<close>: it can be run through over any of them, and a path that leaves it does so at its end, after
  one of them and in no more steps.
\<close>

definition seg :: "op list \<Rightarrow> nat \<Rightarrow> nat \<Rightarrow> (ustr \<Rightarrow> bool) \<Rightarrow> bool" where
  "seg prog off len P \<longleftrightarrow>
     (\<forall>u k v r. P u \<longrightarrow> path prog k (off + len) v r \<longrightarrow> (\<exists>k'. path prog k' off (u @ v) r)) \<and>
     (\<forall>k w r. path prog k off w r \<longrightarrow> r < off \<or> off + len \<le> r \<longrightarrow>
        (\<exists>u v k'. k' \<le> k \<and> w = u @ v \<and> P u \<and> path prog k' (off + len) v r))"

lemma seg_through:
  "seg prog off len P \<Longrightarrow> P u \<Longrightarrow> path prog k (off + len) v r \<Longrightarrow> \<exists>k'. path prog k' off (u @ v) r"
  unfolding seg_def by blast

lemma seg_leave:
  assumes "seg prog off len P" "path prog k off w r" "r < off \<or> off + len \<le> r"
  obtains u v k' where "k' \<le> k" "w = u @ v" "P u" "path prog k' (off + len) v r"
  using assms unfolding seg_def by blast

lemma segI:
  assumes "\<And>u k v r. P u \<Longrightarrow> path prog k (off + len) v r \<Longrightarrow> \<exists>k'. path prog k' off (u @ v) r"
    and "\<And>k w r. path prog k off w r \<Longrightarrow> r < off \<or> off + len \<le> r \<Longrightarrow>
      \<exists>u v k'. k' \<le> k \<and> w = u @ v \<and> P u \<and> path prog k' (off + len) v r"
  shows "seg prog off len P"
  using assms unfolding seg_def by blast

lemma path_eps_at:
  "nth_opt prog pc = Some op \<Longrightarrow> q \<in> set (eps_targets op pc) \<Longrightarrow> \<exists>k. path prog k q w r \<Longrightarrow> \<exists>k. path prog k pc w r"
  using path_eps by blast

lemma seg_cong: "seg prog off len P \<Longrightarrow> (\<And>w. P w \<longleftrightarrow> Q w) \<Longrightarrow> seg prog off len Q"
  unfolding seg_def by simp

lemma seg_comp: "nth_opt prog off = Some (OComp c) \<Longrightarrow> seg prog off 1 (matches (AComp c))"
proof (rule segI, goal_cases)
  case (1 u k v r)
  then obtain ch where "u = [ch]" "comp_matches c ch" by auto
  with 1 path_comp[of prog off c ch k v r] show ?case by auto
next
  case (2 k w r)
  then obtain k' ch v where "k = Suc k'" "w = [ch] @ v" "comp_matches c ch" "path prog k' (off + 1) v r"
    using path_Comp[of prog k off w r c] by auto
  then show ?case by (metis Suc_n_not_le_n linear m_comp)
qed

lemma seg_save:
  "nth_opt prog off = Some op \<Longrightarrow> op = OSave s \<or> op = ORSave s \<Longrightarrow> seg prog off 1 (\<lambda>w. w = [])"
proof (rule segI, goal_cases)
  case (1 u k v r)
  then show ?case using path_eps[of prog off op "Suc off" k v r] by auto
next
  case (2 k w r)
  then obtain k' where "k = Suc k'" "path prog k' (off + 1) w r" using path_Save[of prog k off w r op s] by auto
  then show ?case by (intro exI[of _ "[]"] exI[of _ w] exI[of _ k']) simp
qed

text \<open>Code that is run one behind the other.\<close>

lemma seg_seq:
  assumes "seg prog off len1 P" "seg prog (off + len1) len2 Q"
  shows "seg prog off (len1 + len2) (\<lambda>w. \<exists>u v. w = u @ v \<and> P u \<and> Q v)"
proof (rule segI, goal_cases)
  case (1 u k v r)
  then obtain u1 u2 where u: "u = u1 @ u2" "P u1" "Q u2" by auto
  obtain k' where "path prog k' (off + len1) (u2 @ v) r"
    using seg_through[OF assms(2) u(3), of k v r] 1(2) by (auto simp: add.assoc)
  then show ?case using seg_through[OF assms(1) u(2)] u(1) by fastforce
next
  case (2 k w r)
  obtain u1 v1 k1 where w: "k1 \<le> k" "w = u1 @ v1" "P u1" "path prog k1 (off + len1) v1 r"
    by (rule seg_leave[OF assms(1) 2(1)]) (use 2(2) in auto)
  obtain u2 v2 k2 where "k2 \<le> k1" "v1 = u2 @ v2" "Q u2" "path prog k2 (off + len1 + len2) v2 r"
    by (rule seg_leave[OF assms(2) w(4)]) (use 2(2) in auto)
  with w have "k2 \<le> k" "w = (u1 @ u2) @ v2" "path prog k2 (off + (len1 + len2)) v2 r"
    by (simp_all add: add.assoc)
  with w(3) \<open>Q u2\<close> show ?case by blast
qed

lemma seg_empty: "seg prog off 0 (\<lambda>w. w = [])"
  by (rule segI) auto

text \<open>A split, whichever of its targets comes first.\<close>

lemma split_enter:
  "nth_opt prog off = Some (OSplit l1 l2) \<Longrightarrow> {l1, l2} = {a, b} \<Longrightarrow> q = a \<or> q = b \<Longrightarrow> path prog k q w r \<Longrightarrow>
   \<exists>k'. path prog k' off w r"
  using path_eps[of prog off "OSplit l1 l2" q k w r] by auto

lemma split_leave:
  assumes "path prog k off w r" "nth_opt prog off = Some (OSplit l1 l2)" "{l1, l2} = {a, b}" "r \<noteq> off"
  obtains k' where "k = Suc k'" "path prog k' a w r" | k' where "k = Suc k'" "path prog k' b w r"
  using path_Split[OF assms(1,2,4)] assms(3) by (auto simp: doubleton_eq_iff)

text \<open>Branches: either of two segments, both of which go on behind the second.\<close>

lemma seg_branch:
  assumes split: "nth_opt prog off = Some (OSplit l1 l2)" "{l1, l2} = {Suc off, off + len1 + 2}"
    and first: "seg prog (Suc off) len1 P" "nth_opt prog (Suc (off + len1)) = Some (OJump (off + len1 + 2 + len2))"
    and second: "seg prog (off + len1 + 2) len2 Q"
  shows "seg prog off (len1 + 2 + len2) (\<lambda>w. P w \<or> Q w)"
proof (rule segI, goal_cases)
  case (1 u k v r)
  have out: "path prog k (off + len1 + 2 + len2) v r" using 1(2) by (simp add: add.assoc)
  show ?case
  proof (cases "P u")
    case True
    have "path prog (Suc k) (Suc off + len1) v r"
      using path_eps[OF first(2) _ out] by simp
    then show ?thesis using seg_through[OF first(1) True] split_enter[OF split] by blast
  next
    case False
    then have "Q u" using 1(1) by simp
    then show ?thesis using seg_through[OF second _ out] split_enter[OF split] by blast
  qed
next
  case (2 k w r)
  have "r \<noteq> off" using 2(2) by auto
  with 2(1) split show ?case
  proof (cases rule: split_leave)
    case (1 k')
    obtain u v k1 where u: "k1 \<le> k'" "w = u @ v" "P u" "path prog k1 (Suc off + len1) v r"
      by (rule seg_leave[OF first(1) 1(2)]) (use 2(2) in auto)
    have "r \<noteq> Suc off + len1" using 2(2) by auto
    then obtain k2 where "k1 = Suc k2" "path prog k2 (off + len1 + 2 + len2) v r"
      using path_Jump[OF u(4)] first(2) by auto
    then show ?thesis
      using u 1(1) by (intro exI[of _ u] exI[of _ v] exI[of _ k2]) (simp add: add.assoc)
  next
    case (2 k')
    obtain u v k1 where "k1 \<le> k'" "w = u @ v" "Q u" "path prog k1 (off + len1 + 2 + len2) v r"
      by (rule seg_leave[OF second 2(2)]) (use \<open>r < off \<or> off + (len1 + 2 + len2) \<le> r\<close> in auto)
    then show ?thesis
      using 2(1) by (intro exI[of _ u] exI[of _ v] exI[of _ k1]) (simp add: add.assoc)
  qed
qed

text \<open>Repetitions.\<close>

lemma seg_quest:
  assumes split: "nth_opt prog off = Some (OSplit l1 l2)" "{l1, l2} = {Suc off, Suc off + len}"
    and body: "seg prog (Suc off) len P"
  shows "seg prog off (len + 1) (\<lambda>w. w = [] \<or> P w)"
proof (rule segI, goal_cases)
  case (1 u k v r)
  have out: "path prog k (Suc off + len) v r" using 1(2) by simp
  show ?case
  proof (cases "u = []")
    case True
    then show ?thesis using split_enter[OF split _ out] by simp
  next
    case False
    then show ?thesis using 1(1) seg_through[OF body _ out] split_enter[OF split] by blast
  qed
next
  case (2 k w r)
  have "r \<noteq> off" using 2(2) by auto
  with 2(1) split show ?case
  proof (cases rule: split_leave)
    case (1 k')
    obtain u v k1 where "k1 \<le> k'" "w = u @ v" "P u" "path prog k1 (Suc off + len) v r"
      by (rule seg_leave[OF body 1(2)]) (use 2(2) in auto)
    then show ?thesis using 1(1) by (intro exI[of _ u] exI[of _ v] exI[of _ k1]) simp
  next
    case (2 k')
    then show ?thesis by (intro exI[of _ "[]"] exI[of _ w] exI[of _ k']) simp
  qed
qed

inductive starred :: "(ustr \<Rightarrow> bool) \<Rightarrow> ustr \<Rightarrow> bool" for P where
  starred_done [intro]: "starred P []"
| starred_more [intro]: "P u \<Longrightarrow> starred P v \<Longrightarrow> starred P (u @ v)"

lemma seg_star:
  assumes split: "nth_opt prog off = Some (OSplit l1 l2)" "{l1, l2} = {Suc off, off + (len + 2)}"
    and body: "seg prog (Suc off) len P" "nth_opt prog (Suc off + len) = Some (OJump off)"
  shows "seg prog off (len + 2) (starred P)"
proof (rule segI, goal_cases)
  case (1 u k v r)
  from 1(1) show ?case
  proof induction
    case starred_done
    then show ?case using split_enter[OF split _ 1(2)] by simp
  next
    case (starred_more u1 u2)
    then obtain k1 where "path prog k1 off (u2 @ v) r" by blast
    then have "path prog (Suc k1) (Suc off + len) (u2 @ v) r" using path_eps[OF body(2)] by simp
    then obtain k2 where "path prog k2 (Suc off) (u1 @ u2 @ v) r"
      using seg_through[OF body(1) starred_more.hyps(1)] by blast
    then show ?case using split_enter[OF split] by (metis append.assoc)
  qed
next
  case (2 k w r)
  then show ?case
  proof (induction k arbitrary: w rule: less_induct)
    case (less k)
    have "r \<noteq> off" using less.prems(2) by auto
    with less.prems(1) split show ?case
    proof (cases rule: split_leave)
      case (1 k')
      obtain u v k1 where u: "k1 \<le> k'" "w = u @ v" "P u" "path prog k1 (Suc off + len) v r"
        by (rule seg_leave[OF body(1) 1(2)]) (use less.prems(2) in auto)
      have "r \<noteq> Suc off + len" using less.prems(2) by auto
      then obtain k2 where k2: "k1 = Suc k2" "path prog k2 off v r" using path_Jump[OF u(4) body(2)] by auto
      then have "k2 < k" using u(1) 1(1) by simp
      then obtain u' v' k3 where "k3 \<le> k2" "v = u' @ v'" "starred P u'" "path prog k3 (off + (len + 2)) v' r"
        using less.IH[OF _ k2(2) less.prems(2)] by blast
      then show ?thesis
        using u(2,3) \<open>k2 < k\<close> by (intro exI[of _ "u @ u'"] exI[of _ v'] exI[of _ k3]) auto
    next
      case (2 k')
      then show ?thesis by (intro exI[of _ "[]"] exI[of _ w] exI[of _ k']) auto
    qed
  qed
qed

lemma seg_plus:
  assumes body: "seg prog off len P"
    and split: "nth_opt prog (off + len) = Some (OSplit l1 l2)" "{l1, l2} = {off, off + (len + 1)}"
  shows "seg prog off (len + 1) (\<lambda>w. \<exists>u v. w = u @ v \<and> P u \<and> starred P v)"
proof (rule segI, goal_cases)
  case (1 u k v r)
  then obtain u1 u2 where u: "u = u1 @ u2" "P u1" "starred P u2" by auto
  from u(3) have "\<exists>k. path prog k (off + len) (u2 @ v) r"
  proof induction
    case starred_done
    then show ?case using split_enter[OF split _ 1(2)] by simp
  next
    case (starred_more v1 v2)
    then obtain k2 where "path prog k2 off (v1 @ v2 @ v) r" using seg_through[OF body] by blast
    then show ?case using split_enter[OF split] by (metis append.assoc)
  qed
  then show ?case using seg_through[OF body u(2)] u(1) by fastforce
next
  case (2 k w r)
  then show ?case
  proof (induction k arbitrary: w rule: less_induct)
    case (less k)
    obtain u v k1 where u: "k1 \<le> k" "w = u @ v" "P u" "path prog k1 (off + len) v r"
      by (rule seg_leave[OF body less.prems(1)]) (use less.prems(2) in auto)
    have "r \<noteq> off + len" using less.prems(2) by auto
    with u(4) split show ?case
    proof (cases rule: split_leave)
      case (1 k2)
      then have "k2 < k" using u(1) by simp
      then obtain u1 u2 v' k3 where v: "k3 \<le> k2" "v = (u1 @ u2) @ v'" "P u1" "starred P u2"
        "path prog k3 (off + (len + 1)) v' r"
        using less.IH[OF _ 1(2) less.prems(2)] by blast
      then have "starred P (u1 @ u2)" by blast
      then show ?thesis
        using u(2,3) v \<open>k2 < k\<close> by (intro exI[of _ "u @ u1 @ u2"] exI[of _ v'] exI[of _ k3]) auto
    next
      case (2 k2)
      then show ?thesis
        using u(1-3) by (intro exI[of _ u] exI[of _ v] exI[of _ k2]) auto
    qed
  qed
qed

lemma matches_star: "matches (ARep (Star g) n) w \<longleftrightarrow> starred (matches n) w"
proof
  assume "matches (ARep (Star g) n) w"
  then show "starred (matches n) w"
    by (induction "ARep (Star g) n" w) auto
next
  assume "starred (matches n) w"
  then show "matches (ARep (Star g) n) w" by induction auto
qed

subsection \<open>Correctness of the compiler\<close>

lemma rep_seg:
  assumes body: "code_at prog (rep_node_offset r off) ops \<Longrightarrow> seg prog (rep_node_offset r off) (length ops) (matches n)"
    and code: "code_at prog off (rep_ops r off (length ops) ops)"
  shows "seg prog off (length (rep_ops r off (length ops) ops)) (matches (ARep r n))"
proof (cases r)
  case (Quest g)
  obtain l1 l2 where split: "nth_opt prog off = Some (OSplit l1 l2)" "{l1, l2} = {Suc off, Suc off + length ops}"
    and "code_at prog (Suc off) ops"
    using code Quest by (auto simp: Let_def split: if_splits)
  then have "seg prog (Suc off) (length ops) (matches n)" using body Quest by simp
  from seg_quest[OF split this] show ?thesis
    by (auto simp: Quest Let_def elim: seg_cong)
next
  case (Star g)
  obtain l1 l2 where split: "nth_opt prog off = Some (OSplit l1 l2)" "{l1, l2} = {Suc off, off + (length ops + 2)}"
    and rest: "code_at prog (Suc off) ops" "nth_opt prog (Suc off + length ops) = Some (OJump off)"
    using code Star by (auto simp: Let_def split: if_splits)
  then have "seg prog (Suc off) (length ops) (matches n)" using body Star by simp
  from seg_star[OF split this rest(2)] show ?thesis
    by (auto simp: Star Let_def matches_star elim: seg_cong)
next
  case (Plus g)
  obtain l1 l2 where split: "nth_opt prog (off + length ops) = Some (OSplit l1 l2)"
      "{l1, l2} = {off, off + (length ops + 1)}"
    and "code_at prog off ops"
    using code Plus by (auto simp: Let_def split: if_splits)
  then have "seg prog off (length ops) (matches n)" using body Plus by simp
  moreover have "matches (ARep r n) = (\<lambda>w. \<exists>u v. w = u @ v \<and> matches n u \<and> starred (matches n) v)"
    by (auto simp: Plus matches_star fun_eq_iff)
  ultimately show ?thesis
    using seg_plus[OF _ split] by (auto simp: Plus Let_def)
qed

lemma compile_seg:
  "into_ops rv a off s = Some (ops, s') \<Longrightarrow> no_assertions a \<Longrightarrow> code_at prog off ops \<Longrightarrow>
   seg prog off (length ops) (matches a)"
  "alt_ops rv (off + alt_len nodes) nodes off s = Some (ops, s') \<Longrightarrow> list_all no_assertions nodes \<Longrightarrow>
   code_at prog off ops \<Longrightarrow> seg prog off (length ops) (\<lambda>w. \<exists>n \<in> set nodes. matches n w)"
  "concat_ops rv nodes off s = Some (ops, s') \<Longrightarrow> list_all no_assertions nodes \<Longrightarrow>
   code_at prog off ops \<Longrightarrow> seg prog off (length ops) (matches (AConcat nodes))"
proof (induction a and nodes and nodes arbitrary: off s ops s' and off s ops s' and off s ops s'
    rule: ast_list_induct)
  case (comp c)
  then show ?case using seg_comp[of prog off c] by (auto simp del: matches_simps)
next
  case (alt nodes)
  then show ?case by (fastforce intro: seg_cong)
next
  case (rep r n)
  from rep.prems(1) obtain body s1 where body: "into_ops rv n (rep_node_offset r off) s = Some (body, s1)"
    "ops = rep_ops r off (op_len n) body"
    by (auto simp: bind_eq_Some_conv)
  have "op_len n = length body" using length_into_ops(1)[OF body(1)] by simp
  then show ?case
    using rep_seg[of prog r off body n] rep.IH[OF body(1)] rep.prems(2,3) body(2) by simp
next
  case (sub k n)
  show ?case
  proof (cases "k = NonCapturing")
    case True
    then show ?thesis using sub by (auto intro: seg_cong)
  next
    case False
    then obtain body s1 p q where body: "into_ops rv n (Suc off) (saves_push k s) = Some (body, s1)"
      "ops = p # body @ [q]" "\<exists>i. p = OSave i \<or> p = ORSave i" "\<exists>i. q = OSave i \<or> q = ORSave i"
      using sub.prems(1) by (auto split: if_splits)
    then have p: "seg prog off 1 (\<lambda>w. w = [])" and q: "seg prog (off + (1 + length body)) 1 (\<lambda>w. w = [])"
      using sub.prems(3) seg_save by auto
    have "seg prog (off + 1) (length body) (matches n)"
      using sub.IH[OF body(1)] sub.prems(2,3) body(2) by simp
    from seg_seq[OF seg_seq[OF p this] q] show ?thesis
      using body(2) by (auto elim: seg_cong)
  qed
next
  case none
  then show ?case by simp
next
  case (single n)
  then show ?case by (fastforce intro: seg_cong)
next
  case (more n m nodes)
  from more.prems(1) obtain first s1 rest where ops:
    "into_ops rv n (Suc off) s = Some (first, s1)"
    "alt_ops rv (off + alt_len (n # m # nodes)) (m # nodes) (Suc (Suc (off + length first))) s1 = Some (rest, s')"
    "ops = OSplit (Suc off) (Suc (Suc (off + op_len n))) # first @ OJump (off + alt_len (n # m # nodes)) # rest"
    by (auto simp: bind_eq_Some_conv)
  have len: "op_len n = length first" "length rest = alt_len (m # nodes)"
    using length_into_ops(1)[OF ops(1)] length_into_ops(2)[OF ops(2)] by simp_all
  then have tot: "off + alt_len (n # m # nodes) = off + length first + 2 + length rest"
    "off + alt_len (n # m # nodes) = Suc (Suc (off + length first)) + alt_len (m # nodes)"
    by (simp_all add: alt_len_def)
  have "seg prog (Suc off) (length first) (matches n)"
    using more.IH(1)[OF ops(1)] more.prems(2,3) ops(3) by simp
  moreover have "seg prog (off + length first + 2) (length rest) (\<lambda>w. \<exists>n \<in> set (m # nodes). matches n w)"
    using more.IH(2)[OF ops(2)[unfolded tot(2)]] more.prems(2,3) ops(3) by simp
  ultimately have "seg prog off (length first + 2 + length rest)
      (\<lambda>w. matches n w \<or> (\<exists>n \<in> set (m # nodes). matches n w))"
    using more.prems(3) ops(3) len(1) tot(1) by (intro seg_branch) auto
  moreover have "length first + 2 + length rest = length ops" using ops(3) by simp
  ultimately show ?case by (auto elim: seg_cong)
next
  case nil
  then show ?case by (auto intro: seg_cong[OF seg_empty])
next
  case (cons n nodes)
  from cons.prems(1) obtain first s1 rest where ops:
    "into_ops rv n off s = Some (first, s1)" "concat_ops rv nodes (off + length first) s1 = Some (rest, s')"
    "ops = first @ rest"
    by (auto simp: bind_eq_Some_conv)
  have "seg prog off (length first + length rest) (\<lambda>w. \<exists>u v. w = u @ v \<and> matches n u \<and> matches (AConcat nodes) v)"
    using cons.IH(1)[OF ops(1)] cons.IH(2)[OF ops(2)] cons.prems(2,3) ops(3) by (intro seg_seq) auto
  then show ?case using ops(3) by (auto elim: seg_cong)
qed auto

end
