(* ===== verification/RegexProgram.thy ===== *)
theory RegexProgram
  imports RegexLang
begin

text \<open>
  Whole programs: a compiled expression accepts the strings that end in one the expression
  matches, read backwards for a reversed one; and the inlining of jumps returns and changes
  neither that nor the length of the program.
\<close>

subsection \<open>Reversal\<close>

lemma starred_append: "starred P u \<Longrightarrow> starred P v \<Longrightarrow> starred P (u @ v)"
  by (induction rule: starred.induct) auto

lemma starred_rev: "starred P w \<Longrightarrow> starred (\<lambda>w. P (rev w)) (rev w)"
proof (induction rule: starred.induct)
  case (starred_more u v)
  have "starred (\<lambda>w. P (rev w)) (rev u @ [])" using starred_more.hyps(1) by (intro starred.intros) auto
  then show ?case using starred_more.IH starred_append by fastforce
qed auto

lemma starred_single: "P v \<Longrightarrow> starred P v"
  using starred_more[of P v "[]"] starred_done[of P] by simp

lemma starred_front: "starred P v \<Longrightarrow> P u \<Longrightarrow> \<exists>a b. u @ v = a @ b \<and> starred P a \<and> P b"
proof (induction arbitrary: u rule: starred.induct)
  case starred_done
  then show ?case by (intro exI[of _ "[]"] exI[of _ u]) auto
next
  case (starred_more u' v')
  from starred_more.IH[OF starred_more.hyps(1)] obtain a b where "u' @ v' = a @ b" "starred P a" "P b" by blast
  then show ?case using starred_more.prems by (intro exI[of _ "u @ a"] exI[of _ b]) auto
qed

lemma starred_back: "starred P u \<Longrightarrow> P v \<Longrightarrow> \<exists>a b. u @ v = a @ b \<and> P a \<and> starred P b"
proof (induction rule: starred.cases)
  case starred_done
  then show ?case by (intro exI[of _ v] exI[of _ "[]"]) auto
next
  case (starred_more u' v')
  then show ?case
    by (intro exI[of _ u'] exI[of _ "v' @ v"]) (auto intro: starred_append starred_single)
qed

lemma plus_commute:
  "(\<exists>u v. x = u @ v \<and> P u \<and> starred P v) \<longleftrightarrow> (\<exists>u v. x = u @ v \<and> starred P u \<and> P v)"
  using starred_front[of P] starred_back[of P] by (metis (no_types))

lemma matches_append:
  "matches (AConcat (xs @ ys)) w \<longleftrightarrow> (\<exists>u v. w = u @ v \<and> matches (AConcat xs) u \<and> matches (AConcat ys) v)"
proof (induction xs arbitrary: w)
  case (Cons x xs)
  have "matches (AConcat ((x # xs) @ ys)) w \<longleftrightarrow>
      (\<exists>u v u' v'. w = u @ u' @ v' \<and> v = u' @ v' \<and> matches x u \<and> matches (AConcat xs) u' \<and> matches (AConcat ys) v')"
    by (auto simp: Cons.IH)
  also have "\<dots> \<longleftrightarrow> (\<exists>u v. w = u @ v \<and> matches (AConcat (x # xs)) u \<and> matches (AConcat ys) v)"
    by (simp, metis append.assoc)
  finally show ?case .
qed simp

lemma ex_rev_split:
  "(\<exists>u v. w = u @ v \<and> P (rev u) \<and> Q (rev v)) \<longleftrightarrow> (\<exists>u v. rev w = v @ u \<and> P u \<and> Q v)"
proof
  assume "\<exists>u v. rev w = v @ u \<and> P u \<and> Q v"
  then obtain u v where "rev w = v @ u" "P u" "Q v" by blast
  then have "w = rev u @ rev v" using rev_rev_ident[of w] by (metis rev_append)
  with \<open>P u\<close> \<open>Q v\<close> show "\<exists>u v. w = u @ v \<and> P (rev u) \<and> Q (rev v)"
    by (intro exI[of _ "rev u"] exI[of _ "rev v"]) simp
next
  assume "\<exists>u v. w = u @ v \<and> P (rev u) \<and> Q (rev v)"
  then show "\<exists>u v. rev w = v @ u \<and> P u \<and> Q v" by (metis rev_append)
qed

lemma rep_reverse:
  assumes "\<And>w. matches (ast_reverse n) w \<longleftrightarrow> matches n (rev w)"
  shows "matches (ARep r (ast_reverse n)) w \<longleftrightarrow> matches (ARep r n) (rev w)"
proof (cases r)
  case (Quest g)
  then show ?thesis using assms by auto
next
  have eq: "matches (ast_reverse n) = (\<lambda>w. matches n (rev w))" using assms by auto
  have star: "starred (\<lambda>w. matches n (rev w)) w \<longleftrightarrow> starred (matches n) (rev w)" for w
    using starred_rev[of "matches n" "rev w"] starred_rev[of "\<lambda>w. matches n (rev w)" w] by auto
  {
    case (Star g)
    then show ?thesis using star eq by (simp add: matches_star)
  next
    case (Plus g)
    have "matches (ARep r (ast_reverse n)) w \<longleftrightarrow> (\<exists>u v. w = u @ v \<and> matches n (rev u) \<and> starred (matches n) (rev v))"
      by (simp add: Plus matches_star eq star)
    also have "\<dots> \<longleftrightarrow> (\<exists>u v. rev w = v @ u \<and> matches n u \<and> starred (matches n) v)"
      by (rule ex_rev_split)
    also have "\<dots> \<longleftrightarrow> (\<exists>u v. rev w = u @ v \<and> starred (matches n) u \<and> matches n v)" by blast
    finally show ?thesis using plus_commute[of "rev w" "matches n"] by (simp add: Plus matches_star)
  }
qed

lemma concat_reverse:
  "(\<And>n w. n \<in> set nodes \<Longrightarrow> matches (ast_reverse n) w \<longleftrightarrow> matches n (rev w)) \<Longrightarrow>
   matches (AConcat (map ast_reverse (rev nodes))) w \<longleftrightarrow> matches (AConcat nodes) (rev w)"
proof (induction nodes arbitrary: w)
  case (Cons n nodes)
  have "matches (AConcat (map ast_reverse (rev (n # nodes)))) w \<longleftrightarrow>
      (\<exists>u v. w = u @ v \<and> matches (AConcat nodes) (rev u) \<and> matches n (rev v))"
    using Cons by (simp add: matches_append)
  also have "\<dots> \<longleftrightarrow> (\<exists>u v. rev w = v @ u \<and> matches (AConcat nodes) u \<and> matches n v)"
    by (rule ex_rev_split)
  finally show ?case by auto
qed simp

lemma matches_reverse: "no_assertions a \<Longrightarrow> matches (ast_reverse a) w \<longleftrightarrow> matches a (rev w)"
proof (induction a arbitrary: w)
  case (AComp c)
  then show ?case by (auto simp: rev_eq_Cons_iff)
next
  case (ARep r n)
  then show ?case using rep_reverse[of n r w] by (simp del: matches_simps)
next
  case (AConcat nodes)
  then show ?case using concat_reverse[of nodes w] by (simp add: list_all_iff del: matches_simps)
next
  case (AAlt nodes)
  then show ?case by (auto simp: list_all_iff)
qed simp_all

lemma no_assertions_reverse: "no_assertions (ast_reverse a) \<longleftrightarrow> no_assertions a"
proof (induction a)
  case (AAssertion a)
  then show ?case by (cases a) auto
qed (auto simp: list_all_iff)

subsection \<open>Compiled programs\<close>

lemma accepts_simps:
  "nth_opt prog pc = Some OMatch \<Longrightarrow> accepts prog pc w \<longleftrightarrow> w = []"
  "nth_opt prog pc = Some (OJump j) \<Longrightarrow> accepts prog pc w \<longleftrightarrow> accepts prog j w"
  "nth_opt prog pc = Some (OSplit l1 l2) \<Longrightarrow> accepts prog pc w \<longleftrightarrow> accepts prog l1 w \<or> accepts prog l2 w"
  "nth_opt prog pc = Some (OSave s) \<Longrightarrow> accepts prog pc w \<longleftrightarrow> accepts prog (Suc pc) w"
  "nth_opt prog pc = Some (ORSave s) \<Longrightarrow> accepts prog pc w \<longleftrightarrow> accepts prog (Suc pc) w"
  "nth_opt prog pc = Some (OComp c) \<Longrightarrow>
     accepts prog pc w \<longleftrightarrow> (\<exists>ch v. w = ch # v \<and> comp_matches c ch \<and> accepts prog (Suc pc) v)"
  "nth_opt prog pc = Some (OAssertion a) \<Longrightarrow> \<not> accepts prog pc w"
  "nth_opt prog pc = None \<Longrightarrow> \<not> accepts prog pc w"
proof -
  have eps: "accepts prog pc w" if "nth_opt prog pc = Some op" "q \<in> set (eps_targets op pc)" "accepts prog q w" for op q
    using that path_eps unfolding accepts_def by blast
  have step: "(\<exists>q \<in> set (eps_targets op pc). accepts prog q w) \<or>
      (\<exists>c ch v. op = OComp c \<and> w = ch # v \<and> comp_matches c ch \<and> accepts prog (Suc pc) v)"
    if op: "nth_opt prog pc = Some op" "op \<noteq> OMatch" and acc: "accepts prog pc w" for op
  proof -
    obtain k q where k: "path prog k pc w q" "nth_opt prog q = Some OMatch"
      using acc unfolding accepts_def by blast
    from k(1) show ?thesis
      by (cases rule: path.cases) (use op k(2) in \<open>auto simp: accepts_def\<close>)
  qed
  show "nth_opt prog pc = Some OMatch \<Longrightarrow> accepts prog pc w \<longleftrightarrow> w = []"
    unfolding accepts_def using path_Match path_done by metis
  show "nth_opt prog pc = Some (OJump j) \<Longrightarrow> accepts prog pc w \<longleftrightarrow> accepts prog j w"
    "nth_opt prog pc = Some (OSplit l1 l2) \<Longrightarrow> accepts prog pc w \<longleftrightarrow> accepts prog l1 w \<or> accepts prog l2 w"
    "nth_opt prog pc = Some (OSave s) \<Longrightarrow> accepts prog pc w \<longleftrightarrow> accepts prog (Suc pc) w"
    "nth_opt prog pc = Some (ORSave s) \<Longrightarrow> accepts prog pc w \<longleftrightarrow> accepts prog (Suc pc) w"
    using eps step by fastforce+
  show "nth_opt prog pc = Some (OComp c) \<Longrightarrow>
     accepts prog pc w \<longleftrightarrow> (\<exists>ch v. w = ch # v \<and> comp_matches c ch \<and> accepts prog (Suc pc) v)"
    using step[of "OComp c"] path_comp unfolding accepts_def by fastforce
  show "nth_opt prog pc = Some (OAssertion a) \<Longrightarrow> \<not> accepts prog pc w"
    using step by fastforce
  show "nth_opt prog pc = None \<Longrightarrow> \<not> accepts prog pc w"
    unfolding accepts_def by (auto elim: path.cases)
qed

lemma accepts_seg:
  assumes "seg prog off len P" "\<And>q. nth_opt prog q = Some OMatch \<Longrightarrow> q < off \<or> off + len \<le> q"
  shows "accepts prog off w \<longleftrightarrow> (\<exists>u v. w = u @ v \<and> P u \<and> accepts prog (off + len) v)"
  using assms unfolding seg_def accepts_def by (metis (no_types))


subsection \<open>The shape of compiled code\<close>

definition is_split_at :: "op list \<Rightarrow> nat \<Rightarrow> bool" where
  "is_split_at prog j \<longleftrightarrow> (\<exists>l1 l2. nth_opt prog j = Some (OSplit l1 l2))"

text \<open>
  An instruction of a compiled node: no end of the program, its targets in the code of the node
  or just behind it, and a jump that goes forward or to a split.
\<close>

definition op_ok :: "op list \<Rightarrow> nat \<Rightarrow> nat \<Rightarrow> nat \<Rightarrow> op \<Rightarrow> bool" where
  "op_ok prog lo hi i op \<longleftrightarrow>
     op \<noteq> OMatch \<and> (\<forall>t \<in> set (op_targets op). lo \<le> t \<and> t \<le> hi) \<and>
     (\<forall>j. op = OJump j \<longrightarrow> i < j \<or> is_split_at prog j)"

lemma op_ok_simps [simp]:
  "op_ok prog lo hi i (OComp c)" "op_ok prog lo hi i (OAssertion a)" "op_ok prog lo hi i (OSave n)"
  "op_ok prog lo hi i (ORSave n)" "\<not> op_ok prog lo hi i OMatch"
  "op_ok prog lo hi i (OSplit l1 l2) \<longleftrightarrow> lo \<le> l1 \<and> l1 \<le> hi \<and> lo \<le> l2 \<and> l2 \<le> hi"
  "op_ok prog lo hi i (OJump j) \<longleftrightarrow> lo \<le> j \<and> j \<le> hi \<and> (i < j \<or> is_split_at prog j)"
  by (auto simp: op_ok_def)

fun code_all :: "(nat \<Rightarrow> op \<Rightarrow> bool) \<Rightarrow> nat \<Rightarrow> op list \<Rightarrow> bool" where
  "code_all P off [] \<longleftrightarrow> True"
| "code_all P off (op # ops) \<longleftrightarrow> P off op \<and> code_all P (Suc off) ops"

lemma code_all_append [simp]: "code_all P off (xs @ ys) \<longleftrightarrow> code_all P off xs \<and> code_all P (off + length xs) ys"
  by (induction xs arbitrary: off) auto

lemma code_all_mono: "code_all P off ops \<Longrightarrow> (\<And>i op. P i op \<Longrightarrow> Q i op) \<Longrightarrow> code_all Q off ops"
  by (induction ops arbitrary: off) auto

lemma code_all_nth: "code_all P off ops \<Longrightarrow> nth_opt ops i = Some op \<Longrightarrow> P (off + i) op"
proof (induction ops arbitrary: off i)
  case (Cons x ops)
  show ?case
  proof (cases i)
    case (Suc i)
    then show ?thesis using Cons.IH[of "Suc off" i] Cons.prems by (auto simp: nth_opt_def split: if_splits)
  qed (use Cons.prems in \<open>auto simp: nth_opt_def\<close>)
qed (simp add: nth_opt_def)

lemma op_ok_widen: "op_ok prog lo hi i op \<Longrightarrow> lo' \<le> lo \<Longrightarrow> hi \<le> hi' \<Longrightarrow> op_ok prog lo' hi' i op"
  unfolding op_ok_def by fastforce

lemma code_ok_widen:
  "code_all (op_ok prog lo hi) off ops \<Longrightarrow> lo' \<le> lo \<Longrightarrow> hi \<le> hi' \<Longrightarrow> code_all (op_ok prog lo' hi') off ops"
  by (erule code_all_mono) (rule op_ok_widen)

lemma rep_ops_ok:
  assumes "code_at prog off (rep_ops r off (length ops) ops)"
    and "code_all (op_ok prog (rep_node_offset r off) (rep_node_offset r off + length ops)) (rep_node_offset r off) ops"
  shows "code_all (op_ok prog off (off + rep_op_len r (length ops))) off (rep_ops r off (length ops) ops)"
proof -
  have "code_all (op_ok prog off (off + rep_op_len r (length ops))) (rep_node_offset r off) ops"
    by (rule code_ok_widen[OF assms(2)]) (cases r; simp)+
  then show ?thesis
    using assms(1) by (cases r) (auto simp: Let_def is_split_at_def split: if_splits)
qed

lemma into_ops_ok:
  "into_ops rv a off s = Some (ops, s') \<Longrightarrow> code_at prog off ops \<Longrightarrow>
   code_all (op_ok prog off (off + length ops)) off ops"
  "alt_ops rv (off + alt_len nodes) nodes off s = Some (ops, s') \<Longrightarrow> code_at prog off ops \<Longrightarrow>
   code_all (op_ok prog off (off + length ops)) off ops"
  "concat_ops rv nodes off s = Some (ops, s') \<Longrightarrow> code_at prog off ops \<Longrightarrow>
   code_all (op_ok prog off (off + length ops)) off ops"
proof (induction a and nodes and nodes arbitrary: off s ops s' and off s ops s' and off s ops s'
    rule: ast_list_induct)
  case (rep r n)
  from rep.prems(1) obtain body s1 where body: "into_ops rv n (rep_node_offset r off) s = Some (body, s1)"
    "ops = rep_ops r off (length body) body"
    using length_into_ops(1) by (fastforce simp: bind_eq_Some_conv)
  have "code_at prog (rep_node_offset r off) body"
    using rep.prems(2) body(2) by (cases r) (auto simp: Let_def split: if_splits)
  then show ?case using rep.IH[OF body(1)] rep.prems(2) body(2) rep_ops_ok by simp
next
  case (sub k n)
  show ?case
  proof (cases "k = NonCapturing")
    case False
    then obtain body s1 p q where body: "into_ops rv n (Suc off) (saves_push k s) = Some (body, s1)"
      "ops = p # body @ [q]" "\<exists>i. p = OSave i \<or> p = ORSave i" "\<exists>i. q = OSave i \<or> q = ORSave i"
      using sub.prems(1) by (auto split: if_splits)
    then have "code_all (op_ok prog off (off + length ops)) (Suc off) body"
      using sub.IH[OF body(1)] sub.prems(2) by (auto elim: code_ok_widen)
    then show ?thesis using body(2-4) by auto
  qed (use sub in auto)
next
  case (more n m nodes)
  from more.prems(1) obtain first s1 rest where ops:
    "into_ops rv n (Suc off) s = Some (first, s1)"
    "alt_ops rv (off + alt_len (n # m # nodes)) (m # nodes) (Suc (Suc (off + length first))) s1 = Some (rest, s')"
    "ops = OSplit (Suc off) (Suc (Suc (off + op_len n))) # first @ OJump (off + alt_len (n # m # nodes)) # rest"
    by (auto simp: bind_eq_Some_conv)
  have len: "op_len n = length first" "length rest = alt_len (m # nodes)"
    using length_into_ops(1)[OF ops(1)] length_into_ops(2)[OF ops(2)] by simp_all
  then have tot: "off + alt_len (n # m # nodes) = Suc (Suc (off + length first)) + alt_len (m # nodes)"
    by (simp add: alt_len_def)
  have "code_all (op_ok prog off (off + length ops)) (Suc off) first"
    by (rule code_ok_widen[OF more.IH(1)[OF ops(1)]]) (use more.prems(2) ops(3) in auto)
  moreover have "code_all (op_ok prog off (off + length ops)) (Suc (Suc (off + length first))) rest"
    by (rule code_ok_widen[OF more.IH(2)[OF ops(2)[unfolded tot]]]) (use more.prems(2) ops(3) in auto)
  ultimately show ?case using ops(3) len tot by simp
next
  case (cons n nodes)
  from cons.prems(1) obtain first s1 rest where ops:
    "into_ops rv n off s = Some (first, s1)" "concat_ops rv nodes (off + length first) s1 = Some (rest, s')"
    "ops = first @ rest"
    by (auto simp: bind_eq_Some_conv)
  have "code_all (op_ok prog off (off + length ops)) off first"
    by (rule code_ok_widen[OF cons.IH(1)[OF ops(1)]]) (use cons.prems(2) ops(3) in auto)
  moreover have "code_all (op_ok prog off (off + length ops)) (off + length first) rest"
    by (rule code_ok_widen[OF cons.IH(2)[OF ops(2)]]) (use cons.prems(2) ops(3) in auto)
  ultimately show ?case using ops(3) by simp
qed auto

text \<open>
  What the optimiser relies on, and the machine: every target is an instruction, behind any but
  the last there is another, and a jump to a jump goes forward.
\<close>

definition prog_ok :: "op list \<Rightarrow> bool" where
  "prog_ok prog \<longleftrightarrow>
     (\<forall>i op. nth_opt prog i = Some op \<longrightarrow> (\<forall>t \<in> set (op_targets op). t < length prog)) \<and>
     (\<forall>i j k. nth_opt prog i = Some (OJump j) \<longrightarrow> nth_opt prog j = Some (OJump k) \<longrightarrow> i < j) \<and>
     (\<exists>p. prog = p @ [OMatch])"

lemma compile_ast_shape:
  assumes "compile_ast a rv = Some co"
  obtains ops s' where "into_ops rv (if rv then ast_reverse a else a) 4 \<lparr>sm_n = 0, sm_names = []\<rparr> = Some (ops, s')"
    "co_ops co = compile_prefix rv @ ops @ [if rv then ORSave 0 else OSave 1, OMatch]"
    "code_at (co_ops co) 4 ops"
proof -
  obtain prog s' where prog: "into_ops rv (if rv then ast_reverse a else a) 0 \<lparr>sm_n = 0, sm_names = []\<rparr> = Some (prog, s')"
    "co_ops co = compile_prefix rv @ map (shift_op 4) prog @ [if rv then ORSave 0 else OSave 1, OMatch]"
    using assms by (auto simp: compile_ast_def bind_eq_Some_conv Let_def)
  moreover have "code_at (co_ops co) 4 (map (shift_op 4) prog)"
    using code_at_middle[of "compile_prefix rv" "map (shift_op 4) prog"] prog(2)
    by (simp add: compile_prefix_def numeral_eq_Suc del: One_nat_def)
  moreover have "into_ops rv (if rv then ast_reverse a else a) 4 \<lparr>sm_n = 0, sm_names = []\<rparr> =
      Some (map (shift_op 4) prog, s')"
    using into_ops_shift(1)[OF prog(1), of 4] by simp
  ultimately show ?thesis using that by blast
qed

lemma nth_opt_Cons: "nth_opt (x # xs) i = (case i of 0 \<Rightarrow> Some x | Suc j \<Rightarrow> nth_opt xs j)"
  by (auto simp: nth_opt_def split: nat.splits)

lemma nth_opt_two:
  "nth_opt (xs @ [x, y]) j =
     (if j < length xs then nth_opt xs j else if j = length xs then Some x
      else if j = Suc (length xs) then Some y else None)"
  by (auto simp: nth_opt_def nth_append less_Suc_eq)

lemma nth_opt_cases4:
  assumes "nth_opt (a # b # c # d # xs @ [x, y]) i = Some op"
  shows "(i = 0 \<and> op = a) \<or> (i = 1 \<and> op = b) \<or> (i = 2 \<and> op = c) \<or> (i = 3 \<and> op = d) \<or>
    (\<exists>j. i = 4 + j \<and> j < length xs \<and> nth_opt xs j = Some op) \<or> (i = 4 + length xs \<and> op = x) \<or>
    (i = 5 + length xs \<and> op = y)"
  using assms by (auto simp: nth_opt_Cons nth_opt_two split: nat.splits if_splits)

lemma compile_prog_ok:
  assumes "compile_ast a rv = Some co"
  shows "prog_ok (co_ops co)" "\<And>q. nth_opt (co_ops co) q = Some OMatch \<Longrightarrow> q = length (co_ops co) - 1"
proof -
  obtain ops s' where ops: "into_ops rv (if rv then ast_reverse a else a) 4 \<lparr>sm_n = 0, sm_names = []\<rparr> = Some (ops, s')"
    "co_ops co = compile_prefix rv @ ops @ [if rv then ORSave 0 else OSave 1, OMatch]"
    "code_at (co_ops co) 4 ops"
    by (rule compile_ast_shape[OF assms])
  let ?p = "co_ops co"
  have all: "code_all (op_ok ?p 4 (4 + length ops)) 4 ops" by (rule into_ops_ok(1)[OF ops(1,3)])
  have ok: "op_ok ?p 4 (4 + length ops) (4 + j) op" if "nth_opt ops j = Some op" for j op
    using code_all_nth[OF all that] .
  have shape: "?p = OSplit 3 1 # OComp CTrueAny # OSplit 3 1 # (if rv then ORSave 1 else OSave 0) # ops @
      [if rv then ORSave 0 else OSave 1, OMatch]"
    using ops(2) by (simp add: compile_prefix_def)
  have len: "length ?p = 6 + length ops" by (simp add: shape)
  have pcases: "(i = 0 \<and> op = OSplit 3 1) \<or> (i = 1 \<and> op = OComp CTrueAny) \<or> (i = 2 \<and> op = OSplit 3 1) \<or>
      (\<exists>s. op = OSave s \<or> op = ORSave s) \<or>
      (\<exists>j. i = 4 + j \<and> j < length ops \<and> nth_opt ops j = Some op) \<or> (i = 5 + length ops \<and> op = OMatch)"
    if "nth_opt ?p i = Some op" for i op
    using nth_opt_cases4[OF that[unfolded shape]] by (auto split: if_splits)
  show "\<And>q. nth_opt ?p q = Some OMatch \<Longrightarrow> q = length ?p - 1"
  proof -
    fix q assume "nth_opt ?p q = Some OMatch"
    from pcases[OF this] show "q = length ?p - 1"
      using len by (auto dest!: ok split: if_splits)
  qed
  have "\<forall>t \<in> set (op_targets op). t < length ?p" if "nth_opt ?p i = Some op" for i op
    using pcases[OF that] ok len by (fastforce simp: op_ok_def)
  moreover have "i < j" if "nth_opt ?p i = Some (OJump j)" "nth_opt ?p j = Some (OJump k)" for i j k
    using pcases[OF that(1)] that(2) by (auto simp: is_split_at_def dest!: ok)
  moreover have "\<exists>p. ?p = p @ [OMatch]" using ops(2) by auto
  ultimately show "prog_ok ?p" unfolding prog_ok_def by blast
qed

text \<open>
  The prefix of the program skips any number of characters, so it accepts the strings that end
  in one the expression matches.
\<close>

lemma compile_body_accepts:
  assumes co: "compile_ast a rv = Some co" and a: "no_assertions a"
  shows "accepts (co_ops co) 4 w \<longleftrightarrow> matches a (if rv then rev w else w)"
proof -
  let ?a = "if rv then ast_reverse a else a"
  obtain ops s' where ops: "into_ops rv ?a 4 \<lparr>sm_n = 0, sm_names = []\<rparr> = Some (ops, s')"
    "co_ops co = compile_prefix rv @ ops @ [if rv then ORSave 0 else OSave 1, OMatch]"
    "code_at (co_ops co) 4 ops"
    by (rule compile_ast_shape[OF co])
  let ?p = "co_ops co"
  have na: "no_assertions ?a" using a by (cases rv) (simp_all add: no_assertions_reverse)
  have seg: "seg ?p 4 (length ops) (matches ?a)" by (rule compile_seg(1)[OF ops(1) na ops(3)])
  have last: "q < 4 \<or> 4 + length ops \<le> q" if "nth_opt ?p q = Some OMatch" for q
    using compile_prog_ok(2)[OF co that] ops(2) by (simp add: compile_prefix_def)
  have at: "nth_opt ?p (4 + length ops) = Some (if rv then ORSave 0 else OSave 1)"
    "nth_opt ?p (Suc (4 + length ops)) = Some OMatch"
    by (simp_all add: ops(2) compile_prefix_def nth_opt_def nth_append)
  have "accepts ?p (4 + length ops) v \<longleftrightarrow> v = []" for v
    using accepts_simps(4,5)[of ?p "4 + length ops" _ v] accepts_simps(1)[OF at(2), of v] at(1)
    by (cases rv) simp_all
  then have "accepts ?p 4 w \<longleftrightarrow> matches ?a w" using accepts_seg[OF seg last] by auto
  then show ?thesis using matches_reverse[OF a] by simp
qed

lemma compile_accepts:
  assumes co: "compile_ast a rv = Some co" and a: "no_assertions a"
  shows "accepts (co_ops co) 0 w \<longleftrightarrow> (\<exists>x u. w = x @ u \<and> matches a (if rv then rev u else u))"
proof -
  let ?p = "co_ops co"
  obtain ops s' where ops: "co_ops co = compile_prefix rv @ ops @ [if rv then ORSave 0 else OSave 1, OMatch]"
    by (rule compile_ast_shape[OF co])
  have at: "nth_opt ?p 0 = Some (OSplit 3 1)" "nth_opt ?p 1 = Some (OComp CTrueAny)"
    "nth_opt ?p 2 = Some (OSplit 3 1)" "nth_opt ?p 3 = Some (if rv then ORSave 1 else OSave 0)"
    by (simp_all add: ops compile_prefix_def nth_opt_def nth_append)
  have "accepts ?p 3 v \<longleftrightarrow> accepts ?p 4 v" for v
    using accepts_simps(4,5)[of ?p 3 _ v] at(4) by (cases rv) simp_all
  then have three: "accepts ?p 3 v \<longleftrightarrow> matches a (if rv then rev v else v)" for v
    using compile_body_accepts[OF co a] by simp
  have skip: "accepts ?p 1 [] \<longleftrightarrow> False" "accepts ?p 1 (c # v) \<longleftrightarrow> accepts ?p 2 v" for c v
    using accepts_simps(6)[OF at(2), of "[]"] accepts_simps(6)[OF at(2), of "c # v"] by (simp_all add: numeral_2_eq_2)
  have "accepts ?p 2 w \<longleftrightarrow> (\<exists>x u. w = x @ u \<and> accepts ?p 3 u)"
  proof (induction w)
    case Nil
    then show ?case using accepts_simps(3)[OF at(3), of "[]"] skip(1) by simp
  next
    case (Cons c w)
    then show ?case using accepts_simps(3)[OF at(3), of "c # w"] skip(2)[of c w] by (auto simp: Cons_eq_append_conv)
  qed
  moreover have "accepts ?p 0 w \<longleftrightarrow> accepts ?p 2 w"
    using accepts_simps(3)[OF at(1), of w] accepts_simps(3)[OF at(3), of w] by simp
  ultimately show ?thesis using three by simp
qed

subsection \<open>Inlining of jumps\<close>

text \<open>One change: the instruction at \<open>i\<close> is replaced by one that accepts the same.\<close>

lemma path_replace:
  assumes "path prog k pc w q" "nth_opt prog q = Some OMatch"
    and "\<And>pc op. nth_opt prog pc = Some op \<Longrightarrow> nth_opt prog' pc = Some op \<or>
      (\<forall>w. (op = OMatch \<longrightarrow> accepts prog' pc []) \<and>
        ((\<exists>t \<in> set (eps_targets op pc). accepts prog' t w) \<longrightarrow> accepts prog' pc w) \<and> (\<forall>c. op \<noteq> OComp c))"
  shows "accepts prog' pc w"
  using assms(1,2)
proof (induction rule: path.induct)
  case (path_done pc)
  then show ?case using assms(3)[of pc OMatch] accepts_simps(1)[of prog' pc] by auto
next
  case (path_eps pc op t k w r)
  have t: "accepts prog' t w" using path_eps.IH path_eps.prems .
  from assms(3)[OF path_eps.hyps(1)] show ?case
  proof
    assume "nth_opt prog' pc = Some op"
    then show ?thesis using t path_eps.hyps(2) path.path_eps unfolding accepts_def by blast
  next
    assume "\<forall>w. (op = OMatch \<longrightarrow> accepts prog' pc []) \<and>
        ((\<exists>t \<in> set (eps_targets op pc). accepts prog' t w) \<longrightarrow> accepts prog' pc w) \<and> (\<forall>c. op \<noteq> OComp c)"
    then show ?thesis using t path_eps.hyps(2) by blast
  qed
next
  case (path_comp pc c ch k w r)
  then have "nth_opt prog' pc = Some (OComp c)" using assms(3)[OF path_comp.hyps(1)] by auto
  then show ?case using path_comp.IH path_comp.prems path_comp.hyps(2) accepts_simps(6) by blast
qed

lemma nth_opt_update: "nth_opt (xs[i := x]) j = (if j = i \<and> i < length xs then Some x else nth_opt xs j)"
  by (auto simp: nth_opt_def)

lemma replace_accepts:
  assumes old: "nth_opt ops i = Some old" "\<And>c. old \<noteq> OComp c" "old \<noteq> OMatch" and new: "\<And>c. new \<noteq> OComp c"
    and fwd: "\<And>t w. t \<in> set (eps_targets old i) \<Longrightarrow> accepts (ops[i := new]) t w \<Longrightarrow> accepts (ops[i := new]) i w"
    and bwd: "\<And>t w. t \<in> set (eps_targets new i) \<Longrightarrow> accepts ops t w \<Longrightarrow> accepts ops i w"
      "new = OMatch \<Longrightarrow> accepts ops i []"
  shows "accepts (ops[i := new]) pc w \<longleftrightarrow> accepts ops pc w"
proof
  have i: "i < length ops" using old(1) by (simp add: nth_opt_def split: if_splits)
  assume "accepts (ops[i := new]) pc w"
  then obtain k q where k: "path (ops[i := new]) k pc w q" "nth_opt (ops[i := new]) q = Some OMatch"
    unfolding accepts_def by blast
  show "accepts ops pc w"
  proof (rule path_replace[OF k])
    fix pc op assume "nth_opt (ops[i := new]) pc = Some op"
    then show "nth_opt ops pc = Some op \<or> (\<forall>w. (op = OMatch \<longrightarrow> accepts ops pc []) \<and>
        ((\<exists>t \<in> set (eps_targets op pc). accepts ops t w) \<longrightarrow> accepts ops pc w) \<and> (\<forall>c. op \<noteq> OComp c))"
      using bwd new i by (auto simp: nth_opt_update split: if_splits)
  qed
next
  have i: "i < length ops" using old(1) by (simp add: nth_opt_def split: if_splits)
  assume "accepts ops pc w"
  then obtain k q where k: "path ops k pc w q" "nth_opt ops q = Some OMatch"
    unfolding accepts_def by blast
  show "accepts (ops[i := new]) pc w"
  proof (rule path_replace[OF k])
    fix pc op assume "nth_opt ops pc = Some op"
    then show "nth_opt (ops[i := new]) pc = Some op \<or> (\<forall>w. (op = OMatch \<longrightarrow> accepts (ops[i := new]) pc []) \<and>
        ((\<exists>t \<in> set (eps_targets op pc). accepts (ops[i := new]) t w) \<longrightarrow> accepts (ops[i := new]) pc w) \<and>
        (\<forall>c. op \<noteq> OComp c))"
      using fwd old i by (auto simp: nth_opt_update split: if_splits)
  qed
qed

text \<open>The changes that \<open>inline_jumps\<close> makes.\<close>

inductive inlined :: "op list \<Rightarrow> nat \<Rightarrow> op \<Rightarrow> bool" for ops i where
  jump_jump: "nth_opt ops i = Some (OJump j) \<Longrightarrow> nth_opt ops j = Some (OJump l) \<Longrightarrow> inlined ops i (OJump l)"
| jump_split: "nth_opt ops i = Some (OJump j) \<Longrightarrow> nth_opt ops j = Some (OSplit l1 l2) \<Longrightarrow> inlined ops i (OSplit l1 l2)"
| jump_match: "nth_opt ops i = Some (OJump j) \<Longrightarrow> nth_opt ops j = Some OMatch \<Longrightarrow> inlined ops i OMatch"
| split_match: "nth_opt ops i = Some (OSplit s1 s2) \<Longrightarrow> nth_opt ops s1 = Some OMatch \<Longrightarrow>
    nth_opt ops s2 = Some OMatch \<Longrightarrow> inlined ops i OMatch"
| split_jump: "nth_opt ops i = Some (OSplit s1 s2) \<Longrightarrow> nth_opt ops s1 = Some op1 \<Longrightarrow> nth_opt ops s2 = Some op2 \<Longrightarrow>
    jump_target op1 s1 \<noteq> s1 \<or> jump_target op2 s2 \<noteq> s2 \<Longrightarrow>
    inlined ops i (OSplit (jump_target op1 s1) (jump_target op2 s2))"

lemma inline_jumps_inlined:
  assumes "inline_jumps ops i = Some (ops', b)"
  shows "if b then \<exists>op. inlined ops i op \<and> ops' = ops[i := op] else ops' = ops"
proof (cases "nth_opt ops i")
  case (Some op)
  show ?thesis
  proof (cases op)
    case (OSplit s1 s2)
    obtain op1 op2 where "nth_opt ops s1 = Some op1" "nth_opt ops s2 = Some op2"
      using assms Some OSplit by (auto simp: inline_jumps_def bind_eq_Some_conv)
    then show ?thesis
      using assms inlined.intros(4,5)[of ops i s1 s2] Some OSplit
      by (auto simp: inline_jumps_def Let_def split: if_splits)
  next
    case (OJump j)
    obtain op1 where "nth_opt ops j = Some op1"
      using assms Some OJump by (auto simp: inline_jumps_def bind_eq_Some_conv)
    then show ?thesis
      using assms inlined.intros(1-3)[of ops i j] Some OJump by (cases op1) (auto simp: inline_jumps_def)
  qed (use assms Some in \<open>auto simp: inline_jumps_def\<close>)
qed (use assms in \<open>simp add: inline_jumps_def\<close>)

lemma nth_opt_SomeD: "nth_opt xs i = Some x \<Longrightarrow> i < length xs"
  by (simp add: nth_opt_def split: if_splits)

lemma prog_ok_target: "prog_ok ops \<Longrightarrow> nth_opt ops i = Some op \<Longrightarrow> t \<in> set (op_targets op) \<Longrightarrow> \<exists>op'. nth_opt ops t = Some op'"
proof -
  assume "prog_ok ops" "nth_opt ops i = Some op" "t \<in> set (op_targets op)"
  then have "t < length ops" unfolding prog_ok_def by blast
  then show ?thesis by (simp add: nth_opt_def)
qed

lemma inline_jumps_total: "prog_ok ops \<Longrightarrow> i < length ops \<Longrightarrow> inline_jumps ops i \<noteq> None"
proof -
  assume ok: "prog_ok ops" and "i < length ops"
  then obtain op where op: "nth_opt ops i = Some op" by (simp add: nth_opt_def)
  show ?thesis
  proof (cases op)
    case (OSplit s1 s2)
    then obtain op1 op2 where "nth_opt ops s1 = Some op1" "nth_opt ops s2 = Some op2"
      using prog_ok_target[OF ok op, of s1] prog_ok_target[OF ok op, of s2] by auto
    then show ?thesis using op OSplit by (simp add: inline_jumps_def Let_def del: not_None_eq)
  next
    case (OJump j)
    then obtain op1 where "nth_opt ops j = Some op1" using prog_ok_target[OF ok op, of j] by auto
    then show ?thesis using op OJump by (simp add: inline_jumps_def del: not_None_eq)
  qed (use op in \<open>simp_all add: inline_jumps_def del: not_None_eq\<close>)
qed

lemma accepts_jump_target:
  "nth_opt ops s = Some op \<Longrightarrow> accepts ops (jump_target op s) w \<longleftrightarrow> accepts ops s w"
  by (cases op) (auto simp: accepts_simps(2))

lemma jump_target_neq: "nth_opt ops i = Some (OSplit a b) \<Longrightarrow> nth_opt ops s = Some op \<Longrightarrow>
    nth_opt (ops[i := OSplit c d]) s = Some op \<or> jump_target op s = s"
  by (auto simp: nth_opt_update)

lemma inlined_accepts:
  assumes ok: "prog_ok ops" and "inlined ops i op"
  shows "accepts (ops[i := op]) pc w \<longleftrightarrow> accepts ops pc w"
  using assms(2)
proof cases
  case (jump_jump j l)
  have ij: "i < j" using ok jump_jump(2,3) by (auto simp: prog_ok_def)
  have i: "i < length ops" using nth_opt_SomeD[OF jump_jump(2)] .
  have new: "nth_opt (ops[i := OJump l]) i = Some (OJump l)" "nth_opt (ops[i := OJump l]) j = Some (OJump l)"
    using ij i jump_jump by (auto simp: nth_opt_update)
  show ?thesis
    unfolding jump_jump(1)
    by (rule replace_accepts[OF jump_jump(2)])
      (use new jump_jump(2,3) in \<open>auto simp: accepts_simps(2)[OF new(1)] accepts_simps(2)[OF new(2)]
        accepts_simps(2)[OF jump_jump(2)] accepts_simps(2)[OF jump_jump(3)]\<close>)
next
  case (jump_split j l1 l2)
  have i: "i < length ops" using nth_opt_SomeD[OF jump_split(2)] .
  have new: "nth_opt (ops[i := OSplit l1 l2]) i = Some (OSplit l1 l2)" "nth_opt (ops[i := OSplit l1 l2]) j = Some (OSplit l1 l2)"
    using i jump_split by (auto simp: nth_opt_update)
  show ?thesis
    unfolding jump_split(1)
    by (rule replace_accepts[OF jump_split(2)])
      (use new jump_split(2,3) in \<open>auto simp: accepts_simps(3)[OF new(1)] accepts_simps(3)[OF new(2)]
        accepts_simps(2)[OF jump_split(2)] accepts_simps(3)[OF jump_split(3)]\<close>)
next
  case (jump_match j)
  have i: "i < length ops" using nth_opt_SomeD[OF jump_match(2)] .
  have new: "nth_opt (ops[i := OMatch]) i = Some OMatch" "nth_opt (ops[i := OMatch]) j = Some OMatch"
    using i jump_match by (auto simp: nth_opt_update)
  show ?thesis
    unfolding jump_match(1)
    by (rule replace_accepts[OF jump_match(2)])
      (use new jump_match(2,3) in \<open>auto simp: accepts_simps(1)[OF new(1)] accepts_simps(1)[OF new(2)]
        accepts_simps(2)[OF jump_match(2)] accepts_simps(1)[OF jump_match(3)]\<close>)
next
  case (split_match s1 s2)
  have i: "i < length ops" using nth_opt_SomeD[OF split_match(2)] .
  have new: "nth_opt (ops[i := OMatch]) i = Some OMatch" "nth_opt (ops[i := OMatch]) s1 = Some OMatch"
    "nth_opt (ops[i := OMatch]) s2 = Some OMatch"
    using i split_match by (auto simp: nth_opt_update)
  show ?thesis
    unfolding split_match(1)
    by (rule replace_accepts[OF split_match(2)])
      (use new split_match(2,3) in \<open>auto simp: accepts_simps(1)[OF new(1)] accepts_simps(1)[OF new(2)]
        accepts_simps(1)[OF new(3)] accepts_simps(3)[OF split_match(2)] accepts_simps(1)[OF split_match(3)]\<close>)
next
  case (split_jump s1 s2 op1 op2)
  have i: "i < length ops" using nth_opt_SomeD[OF split_jump(2)] .
  have new: "nth_opt (ops[i := op]) i = Some (OSplit (jump_target op1 s1) (jump_target op2 s2))"
    using i split_jump by (auto simp: nth_opt_update)
  have acc: "accepts (ops[i := op]) (jump_target o1 s) w \<longleftrightarrow> accepts (ops[i := op]) s w"
    if "nth_opt ops s = Some o1" for s o1 w
    using jump_target_neq[OF split_jump(2) that] accepts_jump_target split_jump(1) by metis
  show ?thesis
  proof (rule replace_accepts[OF split_jump(2)])
    fix t w assume "t \<in> set (eps_targets (OSplit s1 s2) i)" "accepts (ops[i := op]) t w"
    then show "accepts (ops[i := op]) i w"
      using accepts_simps(3)[OF new] acc split_jump(3,4) by auto
  next
    fix t w assume "t \<in> set (eps_targets op i)" "accepts ops t w"
    then show "accepts ops i w"
      using accepts_simps(3)[OF split_jump(2)] accepts_jump_target split_jump(1,3,4) by auto
  qed (use split_jump(1) in auto)
qed

subsection \<open>The inlining ends\<close>

text \<open>
  Every change removes a jump, or a split, or moves a target from a jump to one behind it or to
  another instruction.
\<close>

definition n_jumps :: "op list \<Rightarrow> nat" where
  "n_jumps ops = length (filter (\<lambda>op. \<exists>j. op = OJump j) ops)"

definition n_splits :: "op list \<Rightarrow> nat" where
  "n_splits ops = length (filter (\<lambda>op. \<exists>l1 l2. op = OSplit l1 l2) ops)"

definition target_weight :: "op list \<Rightarrow> nat \<Rightarrow> nat" where
  "target_weight ops t = (if \<exists>j. nth_opt ops t = Some (OJump j) then length ops - t else 0)"

definition op_weight :: "op list \<Rightarrow> op \<Rightarrow> nat" where
  "op_weight ops op = sum_list (map (target_weight ops) (op_targets op))"

definition inline_measure :: "op list \<Rightarrow> nat \<times> nat \<times> nat" where
  "inline_measure ops = (n_jumps ops, n_splits ops, sum_list (map (op_weight ops) ops))"

abbreviation inline_order :: "(nat \<times> nat \<times> nat) rel" where
  "inline_order \<equiv> less_than <*lex*> less_than <*lex*> less_than"

lemma inline_order: "wf inline_order" "trans inline_order"
  by (auto intro: trans_lex_prod)

lemma count_update:
  "i < length xs \<Longrightarrow> length (filter P (xs[i := x])) + (if P (xs ! i) then 1 else 0) =
    length (filter P xs) + (if P x then 1 else 0)"
proof (induction xs arbitrary: i)
  case (Cons y xs)
  then show ?case using Cons.IH[of "i - 1"] by (cases i) auto
qed simp

lemma sum_update: "i < length xs \<Longrightarrow> sum_list (map f (xs[i := x])) + f (xs ! i) = sum_list (map f xs) + (f x :: nat)"
  by (induction xs arbitrary: i) (auto split: nat.splits)

lemma target_weight_same:
  "nth_opt ops i = Some old \<Longrightarrow> (\<exists>j. old = OJump j) \<longleftrightarrow> (\<exists>j. new = OJump j) \<Longrightarrow>
   target_weight (ops[i := new]) = target_weight ops"
  by (auto simp: target_weight_def nth_opt_update fun_eq_iff)

lemma jump_target_weight:
  assumes ok: "prog_ok ops" and s: "nth_opt ops s = Some op"
  shows "target_weight ops (jump_target op s) \<le> target_weight ops s"
    "jump_target op s \<noteq> s \<Longrightarrow> target_weight ops (jump_target op s) < target_weight ops s"
proof -
  have "target_weight ops j < target_weight ops s" if "op = OJump j" for j
  proof -
    have "\<And>k. nth_opt ops j = Some (OJump k) \<Longrightarrow> s < j" using ok s that unfolding prog_ok_def by blast
    then show ?thesis using s that nth_opt_SomeD[OF s] by (auto simp: target_weight_def dest: nth_opt_SomeD)
  qed
  then show "target_weight ops (jump_target op s) \<le> target_weight ops s"
    "jump_target op s \<noteq> s \<Longrightarrow> target_weight ops (jump_target op s) < target_weight ops s"
    by (cases op; simp add: less_imp_le)+
qed

lemma weight_decreases:
  assumes "nth_opt ops i = Some old" "(\<exists>j. old = OJump j) \<longleftrightarrow> (\<exists>j. new = OJump j)"
    and "(\<exists>l1 l2. old = OSplit l1 l2) \<longleftrightarrow> (\<exists>l1 l2. new = OSplit l1 l2)" "op_weight ops new < op_weight ops old"
  shows "(inline_measure (ops[i := new]), inline_measure ops) \<in> inline_order"
proof -
  have i: "i < length ops" "ops ! i = old" using assms(1) by (auto simp: nth_opt_def split: if_splits)
  have "op_weight (ops[i := new]) = op_weight ops"
    by (intro ext) (simp add: op_weight_def target_weight_same[OF assms(1,2)])
  then have "sum_list (map (op_weight (ops[i := new])) (ops[i := new])) < sum_list (map (op_weight ops) ops)"
    using sum_update[OF i(1), of "op_weight ops" new] i(2) assms(4) by simp
  moreover have "n_jumps (ops[i := new]) = n_jumps ops" "n_splits (ops[i := new]) = n_splits ops"
    using count_update[OF i(1), of "\<lambda>op. \<exists>j. op = OJump j" new] i(2) assms(2,3)
      count_update[OF i(1), of "\<lambda>op. \<exists>l1 l2. op = OSplit l1 l2" new]
    by (simp_all add: n_jumps_def n_splits_def)
  ultimately show ?thesis by (simp add: inline_measure_def)
qed

lemma inlined_measure:
  assumes ok: "prog_ok ops" and "inlined ops i op"
  shows "(inline_measure (ops[i := op]), inline_measure ops) \<in> inline_order"
  using assms(2)
proof cases
  case (jump_jump j l)
  have "target_weight ops l < target_weight ops j"
    using jump_target_weight(2)[OF ok jump_jump(3)] ok jump_jump(3) by (fastforce simp: prog_ok_def)
  then show ?thesis
    using jump_jump by (intro weight_decreases[OF jump_jump(2)]) (auto simp: op_weight_def)
next
  case (jump_split j l1 l2)
  have i: "i < length ops" "ops ! i = OJump j" using jump_split(2) by (auto simp: nth_opt_def split: if_splits)
  then show ?thesis
    using count_update[OF i(1), of "\<lambda>op. \<exists>j. op = OJump j" op] jump_split(1)
    by (auto simp: inline_measure_def n_jumps_def)
next
  case (jump_match j)
  have i: "i < length ops" "ops ! i = OJump j" using jump_match(2) by (auto simp: nth_opt_def split: if_splits)
  then show ?thesis
    using count_update[OF i(1), of "\<lambda>op. \<exists>j. op = OJump j" op] jump_match(1)
    by (auto simp: inline_measure_def n_jumps_def)
next
  case (split_match s1 s2)
  have i: "i < length ops" "ops ! i = OSplit s1 s2" using split_match(2) by (auto simp: nth_opt_def split: if_splits)
  then show ?thesis
    using count_update[OF i(1), of "\<lambda>op. \<exists>j. op = OJump j" op]
      count_update[OF i(1), of "\<lambda>op. \<exists>l1 l2. op = OSplit l1 l2" op] split_match(1)
    by (auto simp: inline_measure_def n_jumps_def n_splits_def)
next
  case (split_jump s1 s2 op1 op2)
  have "op_weight ops op < op_weight ops (OSplit s1 s2)"
    using jump_target_weight[OF ok split_jump(3)] jump_target_weight[OF ok split_jump(4)] split_jump(1,5)
    by (auto simp: op_weight_def)
  then show ?thesis
    using split_jump(1) by (intro weight_decreases[OF split_jump(2)]) auto
qed

lemma inlined_prog_ok:
  assumes ok: "prog_ok ops" and "inlined ops i op"
  shows "prog_ok (ops[i := op])"
proof -
  have targets: "t < length ops" if "nth_opt ops j = Some op'" "t \<in> set (op_targets op')" for j op' t
    using ok that unfolding prog_ok_def by blast
  have fwd: "j < k" if "nth_opt ops j = Some (OJump k)" "nth_opt ops k = Some (OJump l)" for j k l
    using ok that unfolding prog_ok_def by blast
  have tgt: "jump_target op' s < length ops" if "nth_opt ops s = Some op'" for s op'
    using targets[OF that] nth_opt_SomeD[OF that] by (cases op') auto
  have i: "i < length ops" using assms(2) by cases (auto dest: nth_opt_SomeD)
  have old: "nth_opt ops i \<noteq> Some OMatch" using assms(2) by cases auto
  obtain p where p: "ops = p @ [OMatch]" using ok unfolding prog_ok_def by blast
  then have "i < length p" using i old by (auto simp: nth_opt_def nth_append less_Suc_eq)
  then have 1: "\<exists>p. ops[i := op] = p @ [OMatch]" using p by (simp add: list_update_append)
  have 2: "t < length ops" if "t \<in> set (op_targets op)" for t
    using assms(2) that by cases (auto dest: targets tgt)
  have 3: "j < k" if j: "nth_opt (ops[i := op]) j = Some (OJump k)" and k: "nth_opt (ops[i := op]) k = Some (OJump l)" for j k l
  proof -
    have jump: "\<exists>l'. nth_opt ops m = Some (OJump l')" if "nth_opt (ops[i := op]) m = Some (OJump l)" for m l
      using assms(2) that by cases (auto simp: nth_opt_update split: if_splits)
    obtain l' where l': "nth_opt ops k = Some (OJump l')" using jump k by blast
    show ?thesis
    proof (cases "j = i")
      case True
      then have "op = OJump k" using j i by (simp add: nth_opt_update)
      with assms(2) obtain m where "nth_opt ops i = Some (OJump m)" "nth_opt ops m = Some (OJump k)"
        by cases auto
      then show ?thesis using fwd l' True by (meson less_trans)
    next
      case False
      then show ?thesis using j fwd[OF _ l'] by (simp add: nth_opt_update)
    qed
  qed
  have 4: "t < length ops" if "nth_opt (ops[i := op]) j = Some op'" "t \<in> set (op_targets op')" for j op' t
    using that targets 2 by (cases "j = i \<and> i < length ops") (auto simp: nth_opt_update)
  show ?thesis
    unfolding prog_ok_def length_list_update using 1 3 4 by blast
qed

text \<open>One pass over the program.\<close>

lemma inline_pass_ok:
  assumes "prog_ok ops" "\<forall>i \<in> set is. i < length ops"
  shows "\<exists>ops' b'. inline_pass is ops b = Some (ops', b') \<and> prog_ok ops' \<and> length ops' = length ops \<and>
    (\<forall>pc w. accepts ops' pc w \<longleftrightarrow> accepts ops pc w) \<and> (b \<longrightarrow> b') \<and>
    (ops' = ops \<or> (b' \<and> (inline_measure ops', inline_measure ops) \<in> inline_order)) \<and>
    (b' \<longrightarrow> b \<or> ops' \<noteq> ops)"
  using assms
proof (induction "is" arbitrary: ops b)
  case (Cons i "is")
  obtain ops1 c where step: "inline_jumps ops i = Some (ops1, c)"
    using inline_jumps_total[OF Cons.prems(1), of i] Cons.prems(2) by auto
  note inl = inline_jumps_inlined[OF step]
  show ?case
  proof (cases c)
    case False
    then have "ops1 = ops" using inl by simp
    then show ?thesis using Cons.IH[of ops b] Cons.prems step False by auto
  next
    case True
    then obtain op where op: "inlined ops i op" "ops1 = ops[i := op]" using inl by auto
    have m: "(inline_measure ops1, inline_measure ops) \<in> inline_order"
      using inlined_measure[OF Cons.prems(1) op(1)] op(2) by simp
    have ok: "prog_ok ops1" "\<forall>i \<in> set is. i < length ops1"
      using inlined_prog_ok[OF Cons.prems(1) op(1)] op(2) Cons.prems(2) by auto
    obtain ops' b' where r: "inline_pass is ops1 True = Some (ops', b')" "prog_ok ops'" "length ops' = length ops1"
      "\<forall>pc w. accepts ops' pc w \<longleftrightarrow> accepts ops1 pc w" "b'"
      "ops' = ops1 \<or> (inline_measure ops', inline_measure ops1) \<in> inline_order"
      using Cons.IH[OF ok, of True] by auto
    have tr: "(inline_measure ops', inline_measure ops) \<in> inline_order"
      using r(6) m transD[OF inline_order(2)] by metis
    then have "ops' \<noteq> ops" using wf_irrefl[OF inline_order(1)] by metis
    then show ?thesis
      using r tr step True op(2) inlined_accepts[OF Cons.prems(1) op(1)] by (simp, blast)
  qed
qed simp

lemma inline_loop_ok:
  "prog_ok ops \<Longrightarrow>
   \<exists>ops'. inline_loop ops = Some ops' \<and> prog_ok ops' \<and> length ops' = length ops \<and>
     (\<forall>pc w. accepts ops' pc w \<longleftrightarrow> accepts ops pc w)"
proof (induction "inline_measure ops" arbitrary: ops rule: wf_induct_rule[OF inline_order(1)])
  case (1 ops)
  obtain ops1 b where pass: "inline_pass [0..<length ops] ops False = Some (ops1, b)" "prog_ok ops1"
    "length ops1 = length ops" "\<forall>pc w. accepts ops1 pc w \<longleftrightarrow> accepts ops pc w"
    "ops1 = ops \<or> (inline_measure ops1, inline_measure ops) \<in> inline_order" "b \<longrightarrow> ops1 \<noteq> ops"
    using inline_pass_ok[OF 1(2), of "[0..<length ops]" False] by auto
  show ?case
  proof (cases b)
    case True
    then have "(inline_measure ops1, inline_measure ops) \<in> inline_order" using pass(5,6) by simp
    from 1(1)[OF this pass(2)] obtain ops2 where "inline_loop ops1 = Some ops2" "prog_ok ops2"
      "length ops2 = length ops1" "\<forall>pc w. accepts ops2 pc w \<longleftrightarrow> accepts ops1 pc w" by blast
    then show ?thesis using pass True by (subst inline_loop.simps) simp
  next
    case False
    then show ?thesis using pass by (subst inline_loop.simps) simp
  qed
qed

end
