(* ===== verification/RegexPike.thy ===== *)
theory RegexPike
  imports RegexProgram "HOL-Library.Multiset"
begin

text \<open>
  The machine without its memory management: threads carry their submatches by value, the
  instructions already on the list are a set, and nothing can panic. The machine of the code,
  with its reference counted slots and generations, refines it.
\<close>

subsection \<open>The machine by value\<close>

record pthread =
  pt_pc :: nat
  pt_assertion :: "assertion option"
  pt_caps :: "nat list"

type_synonym pike = "nat set \<times> pthread list"

definition pike_fails :: "(uchar \<Rightarrow> bool) \<Rightarrow> uchar option \<Rightarrow> uchar \<Rightarrow> uchar option \<Rightarrow> pthread \<Rightarrow> bool" where
  "pike_fails alnum prev ch nxt t \<longleftrightarrow>
     (case pt_assertion t of None \<Rightarrow> False | Some a \<Rightarrow> \<not> holds_for alnum a prev ch nxt)"

definition pike_save ::
  "(pthread \<Rightarrow> pike \<Rightarrow> pike) \<Rightarrow> (pthread \<Rightarrow> bool) \<Rightarrow> nat \<Rightarrow> uchar \<Rightarrow> bool \<Rightarrow> pthread \<Rightarrow> nat \<Rightarrow> bool \<Rightarrow> pike \<Rightarrow> pike" where
  "pike_save add fails sp ch initial t s rv st =
     (let caps = (pt_caps t)[s := sp + (if \<not> initial \<and> \<not> rv then len_utf8 ch else 0)]
      in if (\<not> rv \<and> even s) \<or> (rv \<and> odd s) then add (t\<lparr>pt_pc := pt_pc t + 1, pt_caps := caps\<rparr>) st
         else if fails t then st
         else add \<lparr>pt_pc = pt_pc t + 1, pt_assertion = None, pt_caps = caps\<rparr> st)"

primrec pike_add ::
  "nat \<Rightarrow> op list \<Rightarrow> (pthread \<Rightarrow> bool) \<Rightarrow> nat \<Rightarrow> uchar \<Rightarrow> bool \<Rightarrow> pthread \<Rightarrow> pike \<Rightarrow> pike" where
  "pike_add 0 ops fails sp ch initial t st = st"
| "pike_add (Suc fuel) ops fails sp ch initial t st =
     (if pt_pc t \<in> fst st then st
      else
        let add = pike_add fuel ops fails sp ch initial;
            st = (insert (pt_pc t) (fst st), snd st)
        in case ops ! pt_pc t of
             OJump l1 \<Rightarrow> add (t\<lparr>pt_pc := l1\<rparr>) st
           | OSplit l1 l2 \<Rightarrow> add (t\<lparr>pt_pc := l2\<rparr>) (add (t\<lparr>pt_pc := l1\<rparr>) st)
           | OAssertion a \<Rightarrow> add (t\<lparr>pt_pc := pt_pc t + 1, pt_assertion := Some a\<rparr>) st
           | OSave s \<Rightarrow> pike_save add fails sp ch initial t s False st
           | ORSave s \<Rightarrow> pike_save add fails sp ch initial t s True st
           | _ \<Rightarrow> (fst st, snd st @ [t]))"

subsection \<open>Slots\<close>

text \<open>
  The tokens of a state are the slots its threads refer to, with the submatches they stand for.
  While submatches are tracked, a slot in use holds those submatches and the number of its
  tokens, and the free slots are the others, each once.
\<close>

type_synonym tokens = "(nat \<times> nat list) multiset"

definition slots :: "tokens \<Rightarrow> nat set" where
  "slots P = fst ` set_mset P"

definition slots_ok :: "regex_inner \<Rightarrow> tokens \<Rightarrow> bool" where
  "slots_ok rx P \<longleftrightarrow>
     slots P \<subseteq> {..<length (rx_sms rx)} \<and>
     (\<forall>sm \<in> set (rx_sms rx). length (sm_inner sm) = N_SLOTS) \<and>
     (rx_track_submatches rx \<longrightarrow>
        (\<forall>i c. (i, c) \<in># P \<longrightarrow> sm_inner (rx_sms rx ! i) = c) \<and>
        (\<forall>i \<in> slots P. sm_refs (rx_sms rx ! i) = count (image_mset fst P) i) \<and>
        set (rx_free_sms rx) = {..<length (rx_sms rx)} - slots P \<and> distinct (rx_free_sms rx))"

definition same_but_slots :: "regex_inner \<Rightarrow> regex_inner \<Rightarrow> bool" where
  "same_but_slots rx rx' \<longleftrightarrow> length (rx_sms rx') = length (rx_sms rx) \<and>
     (\<exists>sms free. rx' = rx\<lparr>rx_sms := sms, rx_free_sms := free\<rparr>)"

lemma slots_simps [simp]: "slots (add_mset (i, c) P) = insert i (slots P)" "slots {#} = {}" "slots (P + Q) = slots P \<union> slots Q"
  by (auto simp: slots_def)

lemma finite_slots [simp]: "finite (slots P)"
  by (simp add: slots_def)

lemma count_slots: "i \<in> slots P \<longleftrightarrow> count (image_mset fst P) i \<noteq> 0"
  by (auto simp: slots_def count_eq_zero_iff)

lemma slots_ok_inner:
  "slots_ok rx P \<Longrightarrow> rx_track_submatches rx \<Longrightarrow> (i, c) \<in># P \<Longrightarrow> sm_inner (rx_sms rx ! i) = c"
  unfolding slots_ok_def by blast

lemma slots_ok_dest:
  assumes "slots_ok rx P"
  shows "slots P \<subseteq> {..<length (rx_sms rx)}" "sm \<in> set (rx_sms rx) \<Longrightarrow> length (sm_inner sm) = N_SLOTS"
    "rx_track_submatches rx \<Longrightarrow> i \<in> slots P \<Longrightarrow> sm_refs (rx_sms rx ! i) = count (image_mset fst P) i"
    "rx_track_submatches rx \<Longrightarrow> set (rx_free_sms rx) = {..<length (rx_sms rx)} - slots P"
    "rx_track_submatches rx \<Longrightarrow> distinct (rx_free_sms rx)"
  using assms unfolding slots_ok_def by blast+

lemma slots_okI:
  assumes "slots P \<subseteq> {..<length (rx_sms rx)}" "\<And>sm. sm \<in> set (rx_sms rx) \<Longrightarrow> length (sm_inner sm) = N_SLOTS"
    "\<And>i c. (i, c) \<in># P \<Longrightarrow> sm_inner (rx_sms rx ! i) = c"
    "\<And>i. i \<in> slots P \<Longrightarrow> sm_refs (rx_sms rx ! i) = count (image_mset fst P) i"
    "set (rx_free_sms rx) = {..<length (rx_sms rx)} - slots P" "distinct (rx_free_sms rx)"
  shows "slots_ok rx P"
  using assms unfolding slots_ok_def by blast

lemma same_but_slots_simps:
  "same_but_slots rx rx' \<Longrightarrow> rx_prog rx' = rx_prog rx \<and> rx_clist rx' = rx_clist rx \<and> rx_nlist rx' = rx_nlist rx \<and>
     rx_track_submatches rx' = rx_track_submatches rx \<and> rx_generation rx' = rx_generation rx \<and> rx_p rx' = rx_p rx \<and>
     rx_prev rx' = rx_prev rx \<and> rx_next rx' = rx_next rx \<and> length (rx_sms rx') = length (rx_sms rx) \<and>
     rx_n_submatches rx' = rx_n_submatches rx \<and> rx_submatch_names rx' = rx_submatch_names rx \<and>
     rx_fast_start rx' = rx_fast_start rx"
  by (auto simp: same_but_slots_def)

lemma same_but_slots_refl [simp]: "same_but_slots rx rx"
  by (cases rx) (auto simp: same_but_slots_def)

lemma same_but_slotsI:
  "length sms = length (rx_sms rx) \<Longrightarrow> same_but_slots rx (rx\<lparr>rx_sms := sms\<rparr>)"
  "length sms = length (rx_sms rx) \<Longrightarrow> same_but_slots rx (rx\<lparr>rx_sms := sms, rx_free_sms := free\<rparr>)"
  by (cases rx; auto simp: same_but_slots_def)+

lemma same_but_slots_trans: "same_but_slots rx rx' \<Longrightarrow> same_but_slots rx' rx'' \<Longrightarrow> same_but_slots rx rx''"
  unfolding same_but_slots_def by (elim conjE exE) (simp, blast)

lemma nth_opt_lt: "i < length xs \<Longrightarrow> nth_opt xs i = Some (xs ! i)"
  by (simp add: nth_opt_def)

lemma set_update_all: "\<forall>x \<in> set xs. P x \<Longrightarrow> P y \<Longrightarrow> \<forall>x \<in> set (xs[i := y]). P x"
  using set_update_subset_insert[of xs i y] by auto

lemma sm_dec_ref_ok:
  assumes ok: "slots_ok rx (add_mset (i, c) P)"
  shows "\<exists>rx'. sm_dec_ref i rx = Some rx' \<and> slots_ok rx' P \<and> same_but_slots rx rx'"
proof (cases "rx_track_submatches rx")
  case False
  then show ?thesis using ok by (auto simp: sm_dec_ref_def slots_ok_def)
next
  case True
  let ?sm = "rx_sms rx ! i"
  note d = slots_ok_dest[OF ok]
  have i: "i < length (rx_sms rx)" and refs: "sm_refs ?sm = Suc (count (image_mset fst P) i)"
    using d(1) d(3)[OF True, of i] by auto
  let ?rx = "rx\<lparr>rx_sms := (rx_sms rx)[i := ?sm\<lparr>sm_refs := count (image_mset fst P) i\<rparr>],
      rx_free_sms := (if count (image_mset fst P) i = 0 then rx_free_sms rx @ [i] else rx_free_sms rx)\<rparr>"
  have "sm_dec_ref i rx = Some ?rx"
    using True i refs by (simp add: sm_dec_ref_def nth_opt_lt usub_def)
  moreover have "slots_ok ?rx P"
  proof (rule slots_okI)
    show "slots P \<subseteq> {..<length (rx_sms ?rx)}" using d(1) by simp
    show "length (sm_inner sm) = N_SLOTS" if "sm \<in> set (rx_sms ?rx)" for sm
      using that d(2) nth_mem[OF i] set_update_subset_insert[of "rx_sms rx" i] by fastforce
    show "sm_inner (rx_sms ?rx ! j) = e" if "(j, e) \<in># P" for j e
      using slots_ok_inner[OF ok True, of j e] that i by (simp add: nth_list_update)
    show "sm_refs (rx_sms ?rx ! j) = count (image_mset fst P) j" if "j \<in> slots P" for j
      using d(3)[OF True, of j] that i by (simp add: nth_list_update)
    have "i \<in> slots P \<longleftrightarrow> count (image_mset fst P) i \<noteq> 0" by (rule count_slots)
    then show "set (rx_free_sms ?rx) = {..<length (rx_sms ?rx)} - slots P" "distinct (rx_free_sms ?rx)"
      using d(4,5)[OF True] i by (cases "i \<in> slots P"; simp add: insert_absorb; blast)+
  qed
  ultimately show ?thesis using same_but_slotsI(2) by (metis length_list_update)
qed

lemma ref_added_ok:
  assumes ok: "slots_ok rx (add_mset (i, c) P)"
  shows "slots_ok (rx\<lparr>rx_sms := (rx_sms rx)[i := (rx_sms rx ! i)\<lparr>sm_refs := sm_refs (rx_sms rx ! i) + 1\<rparr>]\<rparr>)
    (add_mset (i, c) (add_mset (i, c) P))"
proof -
  have i: "i < length (rx_sms rx)" and inner: "\<forall>sm \<in> set (rx_sms rx). length (sm_inner sm) = N_SLOTS"
    using ok by (auto simp: slots_ok_def)
  then have "\<forall>sm \<in> set ((rx_sms rx)[i := (rx_sms rx ! i)\<lparr>sm_refs := sm_refs (rx_sms rx ! i) + 1\<rparr>]).
      length (sm_inner sm) = N_SLOTS"
    by (intro set_update_all[OF inner]) (use inner nth_mem[OF i] in auto)
  then show ?thesis using ok i by (auto simp: slots_ok_def nth_list_update)
qed

lemma swap_remove_first_ok:
  "xs \<noteq> [] \<Longrightarrow> distinct xs \<Longrightarrow>
   \<exists>x ys. swap_remove_first xs = Some (x, ys) \<and> x \<in> set xs \<and> set ys = set xs - {x} \<and> distinct ys"
proof (cases xs)
  case (Cons x zs)
  assume "distinct xs"
  moreover have "set (last zs # butlast zs) = set zs \<and> (distinct zs \<longrightarrow> distinct (last zs # butlast zs))" if "zs \<noteq> []"
    using that append_butlast_last_id[OF that]
    by (metis distinct1_rotate list.simps(15) rotate1.simps(2) set_rotate1 distinct.simps(2) append_Cons
        append_Nil distinct_append insert_is_Un list.set(1) list.set(2) set_append sup_commute inf_commute)
  ultimately show ?thesis using Cons by (cases zs) (auto simp: swap_remove_first_def)
qed simp

text \<open>A slot that only one thread uses is written, and a shared one is left to the others.\<close>

lemma write_slot_ok:
  assumes ok: "slots_ok rx (add_mset (i, c) P)" and own: "i \<notin> slots P" and track: "rx_track_submatches rx"
  shows "slots_ok (rx\<lparr>rx_sms := (rx_sms rx)[i := (rx_sms rx ! i)\<lparr>sm_inner := c[s := v]\<rparr>]\<rparr>) (add_mset (i, c[s := v]) P)"
proof -
  have i: "i < length (rx_sms rx)" and inner: "\<forall>sm \<in> set (rx_sms rx). length (sm_inner sm) = N_SLOTS"
    and c: "sm_inner (rx_sms rx ! i) = c"
    using ok track slots_ok_inner[OF ok track] by (auto simp: slots_ok_def)
  have len: "length c = N_SLOTS" using inner c nth_mem[OF i] by blast
  note d = slots_ok_dest[OF ok]
  let ?sms = "(rx_sms rx)[i := (rx_sms rx ! i)\<lparr>sm_inner := c[s := v]\<rparr>]"
  have ni: "j \<noteq> i" if "(j, e) \<in># P" for j e using own that by (force simp: slots_def)
  show ?thesis
  proof (rule slots_okI)
    show "slots (add_mset (i, c[s := v]) P) \<subseteq> {..<length (rx_sms (rx\<lparr>rx_sms := ?sms\<rparr>))}" using d(1) by simp
    show "length (sm_inner sm) = N_SLOTS" if "sm \<in> set (rx_sms (rx\<lparr>rx_sms := ?sms\<rparr>))" for sm
      using that d(2) len set_update_subset_insert[of "rx_sms rx" i] by fastforce
    show "sm_inner (rx_sms (rx\<lparr>rx_sms := ?sms\<rparr>) ! j) = e" if "(j, e) \<in># add_mset (i, c[s := v]) P" for j e
      using slots_ok_inner[OF ok track, of j e] that i ni[of j e] by (auto simp: nth_list_update)
    show "sm_refs (rx_sms (rx\<lparr>rx_sms := ?sms\<rparr>) ! j) = count (image_mset fst (add_mset (i, c[s := v]) P)) j"
      if "j \<in> slots (add_mset (i, c[s := v]) P)" for j
      using d(3)[OF track, of j] that i by (auto simp: nth_list_update)
    show "set (rx_free_sms (rx\<lparr>rx_sms := ?sms\<rparr>)) = {..<length (rx_sms (rx\<lparr>rx_sms := ?sms\<rparr>))} - slots (add_mset (i, c[s := v]) P)"
      "distinct (rx_free_sms (rx\<lparr>rx_sms := ?sms\<rparr>))"
      using d(4,5)[OF track] by simp_all
  qed
qed

lemma copy_slot_ok:
  assumes ok: "slots_ok rx P" and track: "rx_track_submatches rx" and i: "(i, c) \<in># P"
    and room: "card (slots P) < length (rx_sms rx)"
  obtains j free where "swap_remove_first (rx_free_sms rx) = Some (j, free)" "j < length (rx_sms rx)" "j \<notin> slots P"
    "slots_ok (rx\<lparr>rx_sms := (rx_sms rx)[j := \<lparr>sm_refs = 1, sm_inner = c\<rparr>], rx_free_sms := free\<rparr>) (add_mset (j, c) P)"
proof -
  have free: "set (rx_free_sms rx) = {..<length (rx_sms rx)} - slots P" "distinct (rx_free_sms rx)"
    using ok track by (auto simp: slots_ok_def)
  have "{..<length (rx_sms rx)} - slots P \<noteq> {}"
    using room card_mono[OF finite_slots[of P], of "{..<length (rx_sms rx)}"] by auto
  then have "rx_free_sms rx \<noteq> []" using free(1) by (metis list.set(1))
  then obtain j ys where j: "swap_remove_first (rx_free_sms rx) = Some (j, ys)" "j \<in> set (rx_free_sms rx)"
    "set ys = set (rx_free_sms rx) - {j}" "distinct ys"
    using swap_remove_first_ok[of "rx_free_sms rx"] free by auto
  then have jn: "j < length (rx_sms rx)" "j \<notin> slots P" using free(1) by auto
  note d = slots_ok_dest[OF ok]
  have il: "i < length (rx_sms rx)" "sm_inner (rx_sms rx ! i) = c"
    using d(1) i slots_ok_inner[OF ok track i] by (auto simp: slots_def)
  then have len: "length c = N_SLOTS" using d(2) nth_mem by blast
  let ?rx = "rx\<lparr>rx_sms := (rx_sms rx)[j := \<lparr>sm_refs = 1, sm_inner = c\<rparr>], rx_free_sms := ys\<rparr>"
  have nj: "k \<noteq> j" if "(k, e) \<in># P" for k e using jn(2) that by (force simp: slots_def)
  have cnt: "count (image_mset fst P) j = 0" using jn(2) count_slots by blast
  have "slots_ok ?rx (add_mset (j, c) P)"
  proof (rule slots_okI)
    show "slots (add_mset (j, c) P) \<subseteq> {..<length (rx_sms ?rx)}" using d(1) jn(1) by simp
    show "length (sm_inner sm) = N_SLOTS" if "sm \<in> set (rx_sms ?rx)" for sm
      using that d(2) len set_update_subset_insert[of "rx_sms rx" j] by fastforce
    show "sm_inner (rx_sms ?rx ! k) = e" if "(k, e) \<in># add_mset (j, c) P" for k e
      using slots_ok_inner[OF ok track, of k e] that jn(1) nj[of k e] by (auto simp: nth_list_update)
    show "sm_refs (rx_sms ?rx ! k) = count (image_mset fst (add_mset (j, c) P)) k" if "k \<in> slots (add_mset (j, c) P)" for k
      using d(3)[OF track, of k] that jn cnt by (cases "k = j") (simp_all add: nth_list_update)
    show "set (rx_free_sms ?rx) = {..<length (rx_sms ?rx)} - slots (add_mset (j, c) P)" "distinct (rx_free_sms ?rx)"
      using d(4)[OF track] j(3,4) by auto
  qed
  then show ?thesis using that j(1) jn by blast
qed

lemma sm_update_ok:
  assumes ok: "slots_ok rx (add_mset (i, c) P)"
    and room: "rx_track_submatches rx \<Longrightarrow> card (insert i (slots P)) < length (rx_sms rx)"
  shows "\<exists>j rx'. sm_update i s v rx = Some (j, rx') \<and> slots_ok rx' (add_mset (j, c[s := v]) P) \<and> same_but_slots rx rx' \<and>
    (rx_track_submatches rx \<longrightarrow> card (insert j (slots P)) \<le> Suc (card (insert i (slots P))))"
proof -
  have inner: "\<forall>sm \<in> set (rx_sms rx). length (sm_inner sm) = N_SLOTS" and i: "i < length (rx_sms rx)"
    using ok by (auto simp: slots_ok_def)
  consider "\<not> rx_track_submatches rx" | "rx_track_submatches rx" "N_SLOTS \<le> s"
    | "rx_track_submatches rx" "s < N_SLOTS" "i \<notin> slots P" | "rx_track_submatches rx" "s < N_SLOTS" "i \<in> slots P"
    by fastforce
  then show ?thesis
  proof cases
    case 1
    then show ?thesis using ok by (auto simp: sm_update_def slots_ok_def)
  next
    case 2
    have "length c = N_SLOTS" using slots_ok_inner[OF ok 2(1)] inner nth_mem[OF i] by fastforce
    then show ?thesis using ok 2 by (auto simp: sm_update_def list_update_beyond)
  next
    case 3
    have refs: "sm_refs (rx_sms rx ! i) = 1" and c: "sm_inner (rx_sms rx ! i) = c"
      using ok 3 count_slots[of i P] slots_ok_inner[OF ok 3(1)] by (auto simp: slots_ok_def)
    have "length c = N_SLOTS" using c inner i nth_mem by blast
    then have "sm_update i s v rx =
        Some (i, rx\<lparr>rx_sms := (rx_sms rx)[i := (rx_sms rx ! i)\<lparr>sm_inner := c[s := v]\<rparr>]\<rparr>)"
      using 3 i refs c by (simp add: sm_update_def nth_opt_lt)
    then show ?thesis using write_slot_ok[OF ok 3(3,1), of s v] by (auto intro: same_but_slotsI)
  next
    case 4
    have "Suc 0 < Suc (count (image_mset fst P) i)" using 4(3) count_slots[of i P] by simp
    then have refs: "sm_refs (rx_sms rx ! i) \<noteq> 1" and c: "sm_inner (rx_sms rx ! i) = c"
      using ok 4 slots_ok_inner[OF ok 4(1)] by (auto simp: slots_ok_def)
    obtain rx1 where rx1: "sm_dec_ref i rx = Some rx1" "slots_ok rx1 P" "same_but_slots rx rx1"
      using sm_dec_ref_ok[OF ok] by blast
    note eq = same_but_slots_simps[OF rx1(3)]
    obtain d where d: "(i, d) \<in># P" using 4(3) by (auto simp: slots_def)
    obtain j free where j: "swap_remove_first (rx_free_sms rx1) = Some (j, free)" "j < length (rx_sms rx1)" "j \<notin> slots P"
      "slots_ok (rx1\<lparr>rx_sms := (rx_sms rx1)[j := \<lparr>sm_refs = 1, sm_inner = d\<rparr>], rx_free_sms := free\<rparr>) (add_mset (j, d) P)"
      using copy_slot_ok[OF rx1(2) _ d] 4 room eq by (auto simp: insert_absorb)
    have "(i, d) \<in># add_mset (i, c) P" using d by simp
    then have dc: "d = c" using slots_ok_inner[OF ok 4(1)] c by blast
    have i1: "sm_inner (rx_sms rx1 ! i) = c" using slots_ok_inner[OF rx1(2) _ d] dc 4(1) eq by simp
    let ?rx = "rx1\<lparr>rx_sms := (rx_sms rx1)[j := \<lparr>sm_refs = 1, sm_inner = c\<rparr>], rx_free_sms := free\<rparr>"
    have len: "length c = N_SLOTS" using c inner i nth_mem by blast
    have "sm_update i s v rx =
        Some (j, ?rx\<lparr>rx_sms := (rx_sms ?rx)[j := (rx_sms ?rx ! j)\<lparr>sm_inner := c[s := v]\<rparr>]\<rparr>)"
      using 4 i refs rx1(1) j(1,2) i1 eq len by (simp add: sm_update_def nth_opt_lt)
    moreover have "slots_ok (?rx\<lparr>rx_sms := (rx_sms ?rx)[j := (rx_sms ?rx ! j)\<lparr>sm_inner := c[s := v]\<rparr>]\<rparr>)
        (add_mset (j, c[s := v]) P)"
      by (rule write_slot_ok) (use j 4 dc eq in auto)
    moreover have "same_but_slots rx (?rx\<lparr>rx_sms := (rx_sms ?rx)[j := (rx_sms ?rx ! j)\<lparr>sm_inner := c[s := v]\<rparr>]\<rparr>)"
      by (rule same_but_slots_trans[OF same_but_slots_trans[OF rx1(3) same_but_slotsI(2)] same_but_slotsI(1)]) simp_all
    moreover have "card (insert j (slots P)) \<le> Suc (card (insert i (slots P)))"
      using 4(3) by (simp add: card_insert_if insert_absorb)
    ultimately show ?thesis by blast
  qed
qed

subsection \<open>Adding a thread\<close>

fun is_save :: "op \<Rightarrow> bool" where
  "is_save (OSave _) \<longleftrightarrow> True"
| "is_save (ORSave _) \<longleftrightarrow> True"
| "is_save _ \<longleftrightarrow> False"

fun is_final :: "op \<Rightarrow> bool" where
  "is_final (OComp _) \<longleftrightarrow> True"
| "is_final OMatch \<longleftrightarrow> True"
| "is_final _ \<longleftrightarrow> False"

definition pcs :: "(op \<Rightarrow> bool) \<Rightarrow> op list \<Rightarrow> nat set" where
  "pcs Q ops = {pc. pc < length ops \<and> Q (ops ! pc)}"

text \<open>There is an instruction besides comparisons, the end and the saves, so a slot is always free.\<close>

definition prog_room :: "op list \<Rightarrow> bool" where
  "prog_room ops \<longleftrightarrow> card (pcs is_final ops) + card (pcs is_save ops) < length ops"

definition vm_inv :: "op list \<Rightarrow> regex_inner \<Rightarrow> nat set \<Rightarrow> pthread list \<Rightarrow> bool" where
  "vm_inv ops rx V L \<longleftrightarrow>
     map in_op (rx_prog rx) = ops \<and> length (rx_clist rx) = length ops \<and> length (rx_nlist rx) = length ops \<and>
     length (rx_sms rx) = length ops \<and>
     (\<forall>pc < length ops. in_generation (rx_prog rx ! pc) \<le> rx_generation rx) \<and>
     V = {pc. pc < length ops \<and> in_generation (rx_prog rx ! pc) = rx_generation rx} \<and>
     rx_p rx = length L \<and>
     (\<forall>k < length L. th_pc (rx_nlist rx ! k) = pt_pc (L ! k) \<and> th_assertion (rx_nlist rx ! k) = pt_assertion (L ! k)) \<and>
     distinct (map pt_pc L) \<and> set (map pt_pc L) \<subseteq> V \<inter> pcs is_final ops"

definition list_tokens :: "regex_inner \<Rightarrow> pthread list \<Rightarrow> tokens" where
  "list_tokens rx L = mset (zip (map th_sm (take (length L) (rx_nlist rx))) (map pt_caps L))"

text \<open>The slots in use are those of a bounded number of threads and those of the saves run so far.\<close>

definition budget :: "op list \<Rightarrow> regex_inner \<Rightarrow> nat set \<Rightarrow> tokens \<Rightarrow> bool" where
  "budget ops rx V T \<longleftrightarrow>
     (rx_track_submatches rx \<longrightarrow> card (slots T) \<le> card (pcs is_final ops) + card (V \<inter> pcs is_save ops))"

definition same_but_list :: "regex_inner \<Rightarrow> regex_inner \<Rightarrow> bool" where
  "same_but_list rx rx' \<longleftrightarrow>
     rx_clist rx' = rx_clist rx \<and> rx_track_submatches rx' = rx_track_submatches rx \<and>
     rx_generation rx' = rx_generation rx \<and> rx_prev rx' = rx_prev rx \<and> rx_next rx' = rx_next rx \<and>
     rx_n_submatches rx' = rx_n_submatches rx \<and> rx_submatch_names rx' = rx_submatch_names rx \<and>
     rx_fast_start rx' = rx_fast_start rx"

definition thread_abs :: "thread \<Rightarrow> nat list \<Rightarrow> pthread" where
  "thread_abs t c = \<lparr>pt_pc = th_pc t, pt_assertion = th_assertion t, pt_caps = c\<rparr>"

definition added ::
  "op list \<Rightarrow> regex_inner \<Rightarrow> nat set \<Rightarrow> tokens \<Rightarrow> pike \<Rightarrow> regex_inner option \<Rightarrow> bool" where
  "added ops rx V P st r \<longleftrightarrow>
     (\<exists>rx'. r = Some rx' \<and> vm_inv ops rx' (fst st) (snd st) \<and> slots_ok rx' (list_tokens rx' (snd st) + P) \<and>
        budget ops rx' (fst st) (list_tokens rx' (snd st) + P) \<and> same_but_list rx rx' \<and> V \<subseteq> fst st)"

lemma finite_pcs [simp]: "finite (pcs Q ops)"
  by (simp add: pcs_def)

lemma card_slots_mono: "slots P \<subseteq> slots Q \<Longrightarrow> card (slots P) \<le> card (slots Q)"
  by (simp add: card_mono)

lemma list_tokens_nlist: "rx_nlist rx' = rx_nlist rx \<Longrightarrow> list_tokens rx' L = list_tokens rx L"
  by (simp add: list_tokens_def)

lemma vm_inv_slots: "same_but_slots rx rx' \<Longrightarrow> vm_inv ops rx V L \<Longrightarrow> vm_inv ops rx' V L"
  by (auto dest: same_but_slots_simps simp: vm_inv_def)

lemma vm_inv_finite: "vm_inv ops rx V L \<Longrightarrow> finite V \<and> V \<subseteq> {..<length ops} \<and> card V \<le> length ops"
proof -
  assume "vm_inv ops rx V L"
  then have "V \<subseteq> {..<length ops}" by (auto simp: vm_inv_def)
  then show ?thesis using finite_subset[of V "{..<length ops}"] card_mono[of "{..<length ops}" V] by auto
qed

text \<open>Marking an instruction as being on the list.\<close>

definition mark :: "nat \<Rightarrow> regex_inner \<Rightarrow> regex_inner" where
  "mark pc rx = rx\<lparr>rx_prog := (rx_prog rx)[pc := (rx_prog rx ! pc)\<lparr>in_generation := rx_generation rx\<rparr>]\<rparr>"

lemma mark_simps [simp]:
  "rx_nlist (mark pc rx) = rx_nlist rx" "rx_clist (mark pc rx) = rx_clist rx" "rx_sms (mark pc rx) = rx_sms rx"
  "rx_track_submatches (mark pc rx) = rx_track_submatches rx" "rx_generation (mark pc rx) = rx_generation rx"
  "rx_p (mark pc rx) = rx_p rx" "rx_prev (mark pc rx) = rx_prev rx" "rx_next (mark pc rx) = rx_next rx"
  "rx_free_sms (mark pc rx) = rx_free_sms rx" "rx_n_submatches (mark pc rx) = rx_n_submatches rx"
  "rx_submatch_names (mark pc rx) = rx_submatch_names rx" "rx_fast_start (mark pc rx) = rx_fast_start rx" "list_tokens (mark pc rx) L = list_tokens rx L"
  "slots_ok (mark pc rx) T \<longleftrightarrow> slots_ok rx T" "budget ops (mark pc rx) V T \<longleftrightarrow> budget ops rx V T"
  "same_but_list rx (mark pc rx)"
  by (simp_all add: mark_def list_tokens_def slots_ok_def budget_def same_but_list_def)

lemma vm_inv_mark:
  assumes "vm_inv ops rx V L" "pc < length ops"
  shows "vm_inv ops (mark pc rx) (insert pc V) L"
proof -
  have len: "length (rx_prog rx) = length ops" using assms(1) by (auto simp: vm_inv_def)
  have "map in_op (rx_prog (mark pc rx)) = map in_op (rx_prog rx)"
    by (rule nth_equalityI) (use assms(2) len in \<open>auto simp: mark_def nth_list_update\<close>)
  moreover have "in_generation (rx_prog (mark pc rx) ! i) =
      (if i = pc then rx_generation rx else in_generation (rx_prog rx ! i))" if "i < length ops" for i
    using that len assms(2) by (auto simp: mark_def nth_list_update)
  ultimately show ?thesis using assms unfolding vm_inv_def by auto
qed

lemma push_thread:
  assumes inv: "vm_inv ops rx (insert pc V) L" and pc: "pc < length ops" "pc \<notin> V" "is_final (ops ! pc)"
    and L: "set (map pt_pc L) \<subseteq> V" and t: "th_pc t = pc"
    and ok: "slots_ok rx (add_mset (th_sm t, c) (list_tokens rx L + P))"
    and bud: "budget ops rx (insert pc V) (add_mset (th_sm t, c) (list_tokens rx L + P))"
  defines "rx' \<equiv> rx\<lparr>rx_nlist := (rx_nlist rx)[rx_p rx := t], rx_p := rx_p rx + 1\<rparr>"
  shows "rx_p rx < length (rx_nlist rx) \<and> added ops rx V P (insert pc V, L @ [thread_abs t c]) (Some rx')"
proof -
  have len: "length (rx_nlist rx) = length ops" "rx_p rx = length L" using inv by (auto simp: vm_inv_def)
  have dist: "distinct (map pt_pc L)" using inv by (simp add: vm_inv_def)
  have "pc \<notin> set (map pt_pc L)" using pc(2) L by blast
  moreover have "insert pc (set (map pt_pc L)) \<subseteq> {..<length ops}"
    using L pc(1) inv by (auto simp: vm_inv_def)
  ultimately have "Suc (length L) \<le> length ops"
    using card_mono[of "{..<length ops}" "insert pc (set (map pt_pc L))"] distinct_card[OF dist] by simp
  then have room: "rx_p rx < length (rx_nlist rx)" using len by simp
  have toks: "list_tokens rx' (L @ [thread_abs t c]) = add_mset (th_sm t, c) (list_tokens rx L)"
    using room len by (simp add: list_tokens_def rx'_def take_Suc_conv_app_nth thread_abs_def)
  have "vm_inv ops rx' (insert pc V) (L @ [thread_abs t c])"
    using inv room len t pc \<open>pc \<notin> set (map pt_pc L)\<close>
    by (auto simp: vm_inv_def rx'_def thread_abs_def nth_append nth_list_update less_Suc_eq pcs_def)
  moreover have "slots_ok rx' (list_tokens rx' (L @ [thread_abs t c]) + P)"
    using ok toks by (simp add: rx'_def slots_ok_def)
  moreover have "budget ops rx' (insert pc V) (list_tokens rx' (L @ [thread_abs t c]) + P)"
    using bud toks by (simp add: rx'_def budget_def)
  moreover have "same_but_list rx rx'" by (simp add: same_but_list_def rx'_def)
  ultimately show ?thesis using room by (auto simp: added_def)
qed

lemma next_pc: "prog_ok ops \<Longrightarrow> pc < length ops \<Longrightarrow> ops ! pc \<noteq> OMatch \<Longrightarrow> Suc pc < length ops"
  unfolding prog_ok_def by (auto simp: nth_append less_Suc_eq)

lemma target_pc: "prog_ok ops \<Longrightarrow> pc < length ops \<Longrightarrow> j \<in> set (op_targets (ops ! pc)) \<Longrightarrow> j < length ops"
  unfolding prog_ok_def by (metis nth_opt_lt)

lemma added_trans: "same_but_list rx rx1 \<Longrightarrow> V \<subseteq> V1 \<Longrightarrow> added ops rx1 V1 P st r \<Longrightarrow> added ops rx V P st r"
  by (auto simp: added_def same_but_list_def)

lemma assertion_fails_abs:
  "assertion_fails alnum t ch rx = pike_fails alnum (rx_prev rx) ch (rx_next rx) (thread_abs t c)"
  by (simp add: assertion_fails_def pike_fails_def thread_abs_def)

text \<open>The induction hypothesis for a smaller fuel, and the saves with it.\<close>

definition add_ok :: "op list \<Rightarrow> (uchar \<Rightarrow> bool) \<Rightarrow> nat \<Rightarrow> uchar \<Rightarrow> bool \<Rightarrow> nat \<Rightarrow> bool" where
  "add_ok ops alnum sp ch initial fuel \<longleftrightarrow>
     (\<forall>rx V L P t c. vm_inv ops rx V L \<longrightarrow> slots_ok rx (add_mset (th_sm t, c) (list_tokens rx L + P)) \<longrightarrow>
        budget ops rx V (add_mset (th_sm t, c) (list_tokens rx L + P)) \<longrightarrow> th_pc t < length ops \<longrightarrow>
        length ops < fuel + card V \<longrightarrow>
        added ops rx V P
          (pike_add fuel ops (pike_fails alnum (rx_prev rx) ch (rx_next rx)) sp ch initial (thread_abs t c) (V, L))
          (add_thread fuel alnum sp ch initial t rx))"

lemma add_okD:
  "add_ok ops alnum sp ch initial fuel \<Longrightarrow> vm_inv ops rx V L \<Longrightarrow>
   slots_ok rx (add_mset (th_sm t, c) (list_tokens rx L + P)) \<Longrightarrow>
   budget ops rx V (add_mset (th_sm t, c) (list_tokens rx L + P)) \<Longrightarrow> th_pc t < length ops \<Longrightarrow>
   length ops < fuel + card V \<Longrightarrow>
   added ops rx V P
     (pike_add fuel ops (pike_fails alnum (rx_prev rx) ch (rx_next rx)) sp ch initial (thread_abs t c) (V, L))
     (add_thread fuel alnum sp ch initial t rx)"
  unfolding add_ok_def by blast

lemma handle_save_ok:
  fixes s :: nat and rv :: bool
  assumes IH: "add_ok ops alnum sp ch initial fuel" and ok: "prog_ok ops" "prog_room ops"
    and inv: "vm_inv ops rx (insert (th_pc t) V) L"
    and slots: "slots_ok rx (add_mset (th_sm t, c) (list_tokens rx L + P))"
    and bud: "budget ops rx V (add_mset (th_sm t, c) (list_tokens rx L + P))"
    and pc: "th_pc t < length ops" "th_pc t \<notin> V" "is_save (ops ! th_pc t)"
    and fuel: "length ops < fuel + card (insert (th_pc t) V)"
  defines "caps \<equiv> c[s := sp + (if \<not> initial \<and> \<not> rv then len_utf8 ch else 0)]"
    and "add \<equiv> pike_add fuel ops (pike_fails alnum (rx_prev rx) ch (rx_next rx)) sp ch initial"
  shows "added ops rx V P
    (pike_save add (pike_fails alnum (rx_prev rx) ch (rx_next rx)) sp ch initial (thread_abs t c) s rv (insert (th_pc t) V, L))
    (handle_save (add_thread fuel alnum sp ch initial) alnum sp ch initial t s rv rx)"
proof -
  let ?V = "insert (th_pc t) V" and ?T = "list_tokens rx L + P"
  have fin: "finite V" "V \<subseteq> {..<length ops}" using vm_inv_finite[OF inv] by auto
  have saves: "?V \<inter> pcs is_save ops = insert (th_pc t) (V \<inter> pcs is_save ops)" using pc by (auto simp: pcs_def)
  have cardV: "card (?V \<inter> pcs is_save ops) = Suc (card (V \<inter> pcs is_save ops))"
    using saves fin(1) pc(2) by simp
  have "card (?V \<inter> pcs is_save ops) \<le> card (pcs is_save ops)" by (rule card_mono) auto
  then have room: "rx_track_submatches rx \<Longrightarrow> card (insert (th_sm t) (slots ?T)) < length (rx_sms rx)"
    using bud ok(2) inv cardV by (simp add: budget_def prog_room_def vm_inv_def)
  have next_pc: "Suc (th_pc t) < length ops" using next_pc[OF ok(1) pc(1)] pc(3) by (cases "ops ! th_pc t") auto
  obtain j rx1 where up: "sm_update (th_sm t) s (sp + (if \<not> initial \<and> \<not> rv then len_utf8 ch else 0)) rx = Some (j, rx1)"
    "slots_ok rx1 (add_mset (j, caps) ?T)" "same_but_slots rx rx1"
    "rx_track_submatches rx \<longrightarrow> card (insert j (slots ?T)) \<le> Suc (card (insert (th_sm t) (slots ?T)))"
    using sm_update_ok[OF slots room] unfolding caps_def by blast
  note eq = same_but_slots_simps[OF up(3)]
  have toks: "list_tokens rx1 L = list_tokens rx L" using list_tokens_nlist eq by blast
  have sbl: "same_but_list rx rx1" using eq by (simp add: same_but_list_def)
  have go: "added ops rx V P (add (thread_abs \<lparr>th_pc = th_pc t + 1, th_assertion = a, th_sm = j\<rparr> caps) (?V, L))
      (add_thread fuel alnum sp ch initial \<lparr>th_pc = th_pc t + 1, th_assertion = a, th_sm = j\<rparr> rx1)" for a
  proof (rule added_trans[OF sbl, of _ ?V])
    have "budget ops rx1 ?V (add_mset (j, caps) ?T)"
      using bud up(4) eq cardV by (auto simp: budget_def)
    then show "added ops rx1 ?V P (add (thread_abs \<lparr>th_pc = th_pc t + 1, th_assertion = a, th_sm = j\<rparr> caps) (?V, L))
        (add_thread fuel alnum sp ch initial \<lparr>th_pc = th_pc t + 1, th_assertion = a, th_sm = j\<rparr> rx1)"
      using add_okD[OF IH vm_inv_slots[OF up(3) inv], of "\<lparr>th_pc = th_pc t + 1, th_assertion = a, th_sm = j\<rparr>" caps P]
        up(2) toks next_pc fuel eq
      by (simp add: add_def)
  qed auto
  have stop: "added ops rx V P (?V, L) (sm_dec_ref (th_sm t) rx)"
  proof -
    obtain rx2 where rx2: "sm_dec_ref (th_sm t) rx = Some rx2" "slots_ok rx2 ?T" "same_but_slots rx rx2"
      using sm_dec_ref_ok[OF slots] by blast
    note eq2 = same_but_slots_simps[OF rx2(3)]
    have "list_tokens rx2 L = list_tokens rx L" using list_tokens_nlist eq2 by blast
    moreover have "budget ops rx2 ?V ?T"
      using bud eq2 cardV card_insert_le[of "slots ?T" "th_sm t"]
      by (auto simp: budget_def)
    ultimately show ?thesis
      using rx2 vm_inv_slots[OF rx2(3) inv] eq2 by (auto simp: added_def same_but_list_def)
  qed
  show ?thesis
    using go[of "th_assertion t"] go[of None] stop up(1)
    by (simp add: handle_save_def pike_save_def Let_def thread_abs_def caps_def assertion_fails_abs[of _ t _ _ c])
qed

theorem add_thread_ok:
  assumes ok: "prog_ok ops" "prog_room ops"
  shows "add_ok ops alnum sp ch initial fuel"
proof (induction fuel)
  case 0
  show ?case unfolding add_ok_def using vm_inv_finite by fastforce
next
  case (Suc fuel)
  show ?case
    unfolding add_ok_def
  proof (intro allI impI)
    fix rx :: regex_inner and V L P and t :: thread and c
    assume inv: "vm_inv ops rx V L"
      and slots: "slots_ok rx (add_mset (th_sm t, c) (list_tokens rx L + P))"
      and bud: "budget ops rx V (add_mset (th_sm t, c) (list_tokens rx L + P))"
      and pc: "th_pc t < length ops" and fuel: "length ops < Suc fuel + card V"
    let ?pc = "th_pc t" and ?V = "insert (th_pc t) V" and ?T = "list_tokens rx L + P"
    let ?fails = "pike_fails alnum (rx_prev rx) ch (rx_next rx)"
    have prog: "length (rx_prog rx) = length ops" "in_op (rx_prog rx ! ?pc) = ops ! ?pc"
      "?pc \<in> V \<longleftrightarrow> in_generation (rx_prog rx ! ?pc) = rx_generation rx"
      using inv pc by (auto simp: vm_inv_def)
    show "added ops rx V P (pike_add (Suc fuel) ops ?fails sp ch initial (thread_abs t c) (V, L))
        (add_thread (Suc fuel) alnum sp ch initial t rx)"
    proof (cases "?pc \<in> V")
      case True
      obtain rx2 where rx2: "sm_dec_ref (th_sm t) rx = Some rx2" "slots_ok rx2 ?T" "same_but_slots rx rx2"
        using sm_dec_ref_ok[OF slots] by blast
      note eq2 = same_but_slots_simps[OF rx2(3)]
      have "list_tokens rx2 L = list_tokens rx L" using list_tokens_nlist eq2 by blast
      moreover have "budget ops rx2 V ?T"
        using bud eq2 card_insert_le[of "slots ?T" "th_sm t"] by (auto simp: budget_def)
      ultimately show ?thesis
        using True prog pc rx2 vm_inv_slots[OF rx2(3) inv] eq2
        by (auto simp: added_def same_but_list_def thread_abs_def nth_opt_lt)
    next
      case False
      let ?rx = "mark ?pc rx"
      have fin: "finite V" using vm_inv_finite[OF inv] by blast
      have inv': "vm_inv ops ?rx ?V L" by (rule vm_inv_mark[OF inv pc])
      have L: "set (map pt_pc L) \<subseteq> V" using inv by (auto simp: vm_inv_def)
      have fuel': "length ops < fuel + card ?V" using fuel False fin by simp
      have bud': "budget ops ?rx ?V (add_mset (th_sm t, c) ?T)"
      proof -
        have "card (V \<inter> pcs is_save ops) \<le> card (?V \<inter> pcs is_save ops)" by (rule card_mono) auto
        then show ?thesis using bud by (auto simp: budget_def)
      qed
      have slots': "slots_ok ?rx (add_mset (th_sm t, c) (list_tokens ?rx L + P))" using slots by simp
      have mono: "added ops rx V P st r" if "added ops ?rx ?V P st r" for st r
        using added_trans[of rx ?rx V ?V ops P st r] that by auto
      have goto: "added ops rx V P (pike_add fuel ops ?fails sp ch initial (thread_abs t' c) (?V, L))
          (add_thread fuel alnum sp ch initial t' ?rx)" if "th_sm t' = th_sm t" "th_pc t' < length ops" for t'
        using mono add_okD[OF Suc.IH inv', of t' c P] slots' bud' that fuel' by simp
      have step: "add_thread (Suc fuel) alnum sp ch initial t rx =
        (case ops ! ?pc of
           OJump l1 \<Rightarrow> add_thread fuel alnum sp ch initial (t\<lparr>th_pc := l1\<rparr>) ?rx
         | OSplit l1 l2 \<Rightarrow> do {
             sm \<leftarrow> nth_opt (rx_sms ?rx) (th_sm t);
             let rx = ?rx\<lparr>rx_sms := (rx_sms ?rx)[th_sm t := sm\<lparr>sm_refs := sm_refs sm + 1\<rparr>]\<rparr>;
             rx \<leftarrow> add_thread fuel alnum sp ch initial (t\<lparr>th_pc := l1\<rparr>) rx;
             add_thread fuel alnum sp ch initial (t\<lparr>th_pc := l2\<rparr>) rx
           }
         | OAssertion a \<Rightarrow>
             add_thread fuel alnum sp ch initial (t\<lparr>th_pc := ?pc + 1, th_assertion := Some a\<rparr>) ?rx
         | OSave s \<Rightarrow> handle_save (add_thread fuel alnum sp ch initial) alnum sp ch initial t s False ?rx
         | ORSave s \<Rightarrow> handle_save (add_thread fuel alnum sp ch initial) alnum sp ch initial t s True ?rx
         | _ \<Rightarrow>
             if rx_p ?rx < length (rx_nlist ?rx)
             then Some (?rx\<lparr>rx_nlist := (rx_nlist ?rx)[rx_p ?rx := t], rx_p := rx_p ?rx + 1\<rparr>) else None)"
      proof -
        have "nth_opt (rx_prog rx) ?pc = Some (rx_prog rx ! ?pc)" using prog(1) pc by (simp add: nth_opt_lt)
        moreover have "(in_generation (rx_prog rx ! ?pc) = rx_generation rx) = False" using False prog(3) by simp
        ultimately show ?thesis
          by (simp only: add_thread.simps(2) Option.bind.simps(2) if_False Let_def mark_def[symmetric] prog(2))
      qed
      have pike: "?pc \<notin> fst (V, L)" "pt_pc (thread_abs t c) = ?pc" using False by (simp_all add: thread_abs_def)
      show ?thesis
      proof (cases "ops ! ?pc")
        case (OJump l1)
        have "l1 < length ops" using target_pc[OF ok(1) pc, of l1] OJump by simp
        then show ?thesis
          using goto[of "t\<lparr>th_pc := l1\<rparr>"] OJump False by (simp only: step) (simp add: thread_abs_def)
      next
        case (OAssertion a)
        have "Suc ?pc < length ops" using next_pc[OF ok(1) pc] OAssertion by simp
        then show ?thesis
          using goto[of "t\<lparr>th_pc := ?pc + 1, th_assertion := Some a\<rparr>"] OAssertion False
          by (simp only: step) (simp add: thread_abs_def)
      next
        case (OSave s)
        have "added ops ?rx V P
            (pike_add (Suc fuel) ops ?fails sp ch initial (thread_abs t c) (V, L))
            (handle_save (add_thread fuel alnum sp ch initial) alnum sp ch initial t s False ?rx)"
          using handle_save_ok[OF Suc.IH ok inv' slots' _ pc False _ fuel', where s = s and rv = False] bud OSave False
          by (simp add: thread_abs_def Let_def)
        then show ?thesis using OSave by (simp only: step) (simp add: added_trans[of rx ?rx V V])
      next
        case (ORSave s)
        have "added ops ?rx V P
            (pike_add (Suc fuel) ops ?fails sp ch initial (thread_abs t c) (V, L))
            (handle_save (add_thread fuel alnum sp ch initial) alnum sp ch initial t s True ?rx)"
          using handle_save_ok[OF Suc.IH ok inv' slots' _ pc False _ fuel', where s = s and rv = True] bud ORSave False
          by (simp add: thread_abs_def Let_def)
        then show ?thesis using ORSave by (simp only: step) (simp add: added_trans[of rx ?rx V V])
      next
        case (OComp cmp)
        then show ?thesis
          using push_thread[OF inv' pc False _ L _ slots'] bud' added_trans[of rx ?rx V V] False
          by (simp only: step) (simp add: thread_abs_def)
      next
        case OMatch
        then show ?thesis
          using push_thread[OF inv' pc False _ L _ slots'] bud' added_trans[of rx ?rx V V] False
          by (simp only: step) (simp add: thread_abs_def)
      next
        case (OSplit l1 l2)
        have l: "l1 < length ops" "l2 < length ops" using target_pc[OF ok(1) pc] OSplit by auto
        let ?rx1 = "?rx\<lparr>rx_sms := (rx_sms ?rx)[th_sm t := (rx_sms ?rx ! th_sm t)\<lparr>sm_refs := sm_refs (rx_sms ?rx ! th_sm t) + 1\<rparr>]\<rparr>"
        have i: "th_sm t < length (rx_sms ?rx)" using slots_ok_dest(1)[OF slots] by simp
        have eq: "same_but_slots ?rx ?rx1" by (rule same_but_slotsI) simp
        have "slots_ok ?rx1 (add_mset (th_sm t, c) (add_mset (th_sm t, c) ?T))"
          using ref_added_ok[OF slots'] by simp
        then have s1: "slots_ok ?rx1 (add_mset (th_sm t, c) (list_tokens ?rx1 L + add_mset (th_sm t, c) P))"
          by (simp add: list_tokens_def)
        have b1: "budget ops ?rx1 ?V (add_mset (th_sm t, c) (list_tokens ?rx1 L + add_mset (th_sm t, c) P))"
          using bud' by (simp add: budget_def list_tokens_def)
        obtain V2 L2 where st2: "pike_add fuel ops ?fails sp ch initial (thread_abs (t\<lparr>th_pc := l1\<rparr>) c) (?V, L) = (V2, L2)"
          by fastforce
        obtain rx2 where rx2: "add_thread fuel alnum sp ch initial (t\<lparr>th_pc := l1\<rparr>) ?rx1 = Some rx2"
          "vm_inv ops rx2 V2 L2" "slots_ok rx2 (list_tokens rx2 L2 + add_mset (th_sm t, c) P)"
          "budget ops rx2 V2 (list_tokens rx2 L2 + add_mset (th_sm t, c) P)" "same_but_list ?rx1 rx2" "?V \<subseteq> V2"
          using add_okD[OF Suc.IH vm_inv_slots[OF eq inv'], of "t\<lparr>th_pc := l1\<rparr>" c "add_mset (th_sm t, c) P"]
            s1 b1 l(1) fuel' st2 by (auto simp: added_def)
        have "card ?V \<le> card V2" using rx2(6) vm_inv_finite[OF rx2(2)] by (intro card_mono) auto
        then have f2: "length ops < fuel + card V2" using fuel' by simp
        have "added ops rx2 V2 P (pike_add fuel ops (pike_fails alnum (rx_prev rx2) ch (rx_next rx2)) sp ch initial
            (thread_abs (t\<lparr>th_pc := l2\<rparr>) c) (V2, L2)) (add_thread fuel alnum sp ch initial (t\<lparr>th_pc := l2\<rparr>) rx2)"
          using add_okD[OF Suc.IH rx2(2), of "t\<lparr>th_pc := l2\<rparr>" c P] rx2(3,4) l(2) f2 by simp
        moreover have "same_but_list rx rx2" using rx2(5) by (simp add: same_but_list_def)
        ultimately have "added ops rx V P (pike_add fuel ops ?fails sp ch initial
            (thread_abs (t\<lparr>th_pc := l2\<rparr>) c) (V2, L2)) (add_thread fuel alnum sp ch initial (t\<lparr>th_pc := l2\<rparr>) rx2)"
          using added_trans[of rx rx2 V V2] rx2(6) by (simp add: same_but_list_def)
        then show ?thesis
          using OSplit False rx2(1) st2 i by (simp only: step) (simp add: thread_abs_def nth_opt_lt)
      qed
    qed
  qed
qed

end
