(* ===== verification/RegexRun.thy ===== *)
theory RegexRun
  imports RegexPike
begin

text \<open>
  A run of the machine by value, and that \<open>run_vm\<close> returns with its result, for any program with
  room for its submatches: no slot is missing, no reference count underflows, no list overflows.
\<close>

subsection \<open>The run by value\<close>

fun pike_steps ::
  "nat \<Rightarrow> op list \<Rightarrow> (pthread \<Rightarrow> bool) \<Rightarrow> nat \<Rightarrow> uchar \<Rightarrow> pthread list \<Rightarrow> pike \<Rightarrow> nat list option \<times> pike" where
  "pike_steps fuel ops fails sp ch [] st = (None, st)"
| "pike_steps fuel ops fails sp ch (t # ts) st =
     (case ops ! pt_pc t of
        OMatch \<Rightarrow> (Some (pt_caps t), st)
      | OComp c \<Rightarrow>
          pike_steps fuel ops fails sp ch ts
            (if comp_matches c ch \<and> \<not> fails t
             then pike_add fuel ops fails sp ch False
                    \<lparr>pt_pc = pt_pc t + 1, pt_assertion = None, pt_caps = pt_caps t\<rparr> st
             else st)
      | _ \<Rightarrow> pike_steps fuel ops fails sp ch ts st)"

fun pike_loop ::
  "(uchar \<Rightarrow> bool) \<Rightarrow> op list \<Rightarrow> (nat \<times> uchar) list \<Rightarrow> uchar option \<Rightarrow> pthread list \<Rightarrow> nat list option \<Rightarrow>
   pthread list \<times> nat list option" where
  "pike_loop alnum ops [] prev L matched = (L, matched)"
| "pike_loop alnum ops ((sp, ch) # input) prev L matched =
     (let nxt = (case input of [] \<Rightarrow> None | (_, c) # _ \<Rightarrow> Some c);
          (r, (_, L')) = pike_steps (length ops + 1) ops (pike_fails alnum prev ch nxt) sp ch L ({}, []);
          matched = (if r \<noteq> None then r else matched)
      in if L' = [] then ([], matched) else pike_loop alnum ops input (Some ch) L' matched)"

fun pike_final :: "op list \<Rightarrow> pthread list \<Rightarrow> nat list option \<Rightarrow> nat list option" where
  "pike_final ops [] matched = matched"
| "pike_final ops (t # ts) matched =
     (if ops ! pt_pc t = OMatch \<and> (case matched of None \<Rightarrow> 0 | Some m \<Rightarrow> m ! 1) \<le> pt_caps t ! 1
      then Some (pt_caps t) else pike_final ops ts matched)"

definition pike_start :: "(uchar \<Rightarrow> bool) \<Rightarrow> op list \<Rightarrow> nat \<Rightarrow> pthread list" where
  "pike_start alnum ops sp =
     snd (pike_add (length ops + 1) ops (pike_fails alnum None 0 None) sp 0 True
       \<lparr>pt_pc = 0, pt_assertion = None, pt_caps = replicate N_SLOTS 0\<rparr> ({}, []))"

definition pike_run :: "(uchar \<Rightarrow> bool) \<Rightarrow> op list \<Rightarrow> (nat \<times> uchar) list \<Rightarrow> nat \<Rightarrow> nat list option" where
  "pike_run alnum ops input sp =
     (case pike_loop alnum ops input None (pike_start alnum ops sp) None of
        (L, matched) \<Rightarrow> pike_final ops L matched)"

subsection \<open>The threads that are left of a round\<close>

definition clist_rel :: "op list \<Rightarrow> regex_inner \<Rightarrow> pthread list \<Rightarrow> bool" where
  "clist_rel ops rx L \<longleftrightarrow>
     length L \<le> length (rx_clist rx) \<and> distinct (map pt_pc L) \<and> set (map pt_pc L) \<subseteq> pcs is_final ops \<and>
     (\<forall>k < length L. th_pc (rx_clist rx ! k) = pt_pc (L ! k) \<and> th_assertion (rx_clist rx ! k) = pt_assertion (L ! k))"

definition clist_tokens :: "regex_inner \<Rightarrow> nat \<Rightarrow> pthread list \<Rightarrow> tokens" where
  "clist_tokens rx k L = mset (zip (map th_sm (drop k (take (length L) (rx_clist rx)))) (map pt_caps (drop k L)))"

lemma clist_rel_nth:
  assumes "clist_rel ops rx L" "k < length L"
  shows "th_pc (rx_clist rx ! k) = pt_pc (L ! k)" "th_assertion (rx_clist rx ! k) = pt_assertion (L ! k)"
    "pt_pc (L ! k) < length ops" "is_final (ops ! pt_pc (L ! k))"
proof -
  have "pt_pc (L ! k) \<in> pcs is_final ops"
    using assms nth_mem[of k L] unfolding clist_rel_def by auto
  then show "pt_pc (L ! k) < length ops" "is_final (ops ! pt_pc (L ! k))" by (simp_all add: pcs_def)
qed (use assms in \<open>simp_all add: clist_rel_def\<close>)

lemma clist_tokens_step:
  "length L \<le> length (rx_clist rx) \<Longrightarrow> k < length L \<Longrightarrow>
   clist_tokens rx k L = add_mset (th_sm (rx_clist rx ! k), pt_caps (L ! k)) (clist_tokens rx (Suc k) L)"
  by (simp add: clist_tokens_def Cons_nth_drop_Suc[symmetric])

lemma clist_tokens_end [simp]: "length L \<le> k \<Longrightarrow> clist_tokens rx k L = {#}"
  by (simp add: clist_tokens_def)

lemma clist_tokens_cong: "rx_clist rx' = rx_clist rx \<Longrightarrow> clist_tokens rx' k L = clist_tokens rx k L"
  by (simp add: clist_tokens_def)

lemma dec_refs_ok:
  assumes "k \<le> length L" "length L \<le> length (rx_clist rx)" "slots_ok rx (T + clist_tokens rx k L)"
  shows "\<exists>rx'. dec_refs [k..<length L] rx = Some rx' \<and> slots_ok rx' T \<and> same_but_slots rx rx'"
  using assms
proof (induction "length L - k" arbitrary: k rx)
  case 0
  then show ?case by simp
next
  case (Suc n)
  then have k: "k < length L" by simp
  note step = clist_tokens_step[OF Suc.prems(2) k]
  obtain rx1 where rx1: "sm_dec_ref (th_sm (rx_clist rx ! k)) rx = Some rx1"
    "slots_ok rx1 (T + clist_tokens rx (Suc k) L)" "same_but_slots rx rx1"
    using sm_dec_ref_ok[of rx _ _ "T + clist_tokens rx (Suc k) L"] Suc.prems(3) step by force
  note eq = same_but_slots_simps[OF rx1(3)]
  have "slots_ok rx1 (T + clist_tokens rx1 (Suc k) L)"
    using rx1(2) eq clist_tokens_cong[of rx1 rx] by simp
  moreover have "n = length L - Suc k" "Suc k \<le> length L" "length L \<le> length (rx_clist rx1)"
    using Suc.hyps(2) k Suc.prems(2) eq by simp_all
  ultimately obtain rx2 where "dec_refs [Suc k..<length L] rx1 = Some rx2" "slots_ok rx2 T" "same_but_slots rx1 rx2"
    using Suc.hyps(1)[of "Suc k" rx1] by blast
  then show ?case
    using k Suc.prems(2) rx1(1) same_but_slots_trans[OF rx1(3)] by (auto simp: upt_conv_Cons nth_opt_lt)
qed

subsection \<open>A round\<close>

definition round_ok :: "op list \<Rightarrow> regex_inner \<Rightarrow> nat list option \<times> pike \<Rightarrow> (nat list option \<times> regex_inner) option \<Rightarrow> bool" where
  "round_ok ops rx p r \<longleftrightarrow>
     (case p of (m, (V, N)) \<Rightarrow> \<exists>rx'. r = Some (if rx_track_submatches rx then m else map_option (\<lambda>_. []) m, rx') \<and>
        vm_inv ops rx' V N \<and> slots_ok rx' (list_tokens rx' N) \<and> same_but_list rx rx')"

lemma round_ok_trans: "same_but_list rx rx1 \<Longrightarrow> round_ok ops rx1 p r \<Longrightarrow> round_ok ops rx p r"
  by (fastforce simp: round_ok_def same_but_list_def)

lemma is_final_cases: "is_final op \<Longrightarrow> (\<exists>c. op = OComp c) \<or> op = OMatch"
  by (cases op) auto

lemma same_but_slots_list: "same_but_slots rx rx' \<Longrightarrow> same_but_list rx rx'"
  by (auto simp: same_but_list_def dest: same_but_slots_simps)

lemma step_threads_ok:
  assumes ok: "prog_ok ops" "prog_room ops"
    and "vm_inv ops rx V N" "clist_rel ops rx L" "k \<le> length L"
    and "slots_ok rx (list_tokens rx N + clist_tokens rx k L)"
    and "budget ops rx V (list_tokens rx N + clist_tokens rx k L)"
  shows "round_ok ops rx
    (pike_steps (length ops + 1) ops (pike_fails alnum (rx_prev rx) ch (rx_next rx)) sp ch (drop k L) (V, N))
    (step_threads alnum [k..<length L] sp ch rx)"
  using assms(3-7)
proof (induction "length L - k" arbitrary: k rx V N)
  case 0
  then show ?case by (simp add: round_ok_def same_but_list_def)
next
  case (Suc n)
  then have k: "k < length L" by simp
  have len: "length L \<le> length (rx_clist rx)" using Suc.prems(2) by (simp add: clist_rel_def)
  let ?t = "rx_clist rx ! k" and ?p = "L ! k" and ?T = "list_tokens rx N" and ?C = "clist_tokens rx (Suc k) L"
  let ?fails = "pike_fails alnum (rx_prev rx) ch (rx_next rx)"
  note step = clist_tokens_step[OF len k]
  have t: "th_pc ?t = pt_pc ?p" "th_assertion ?t = pt_assertion ?p" "pt_pc ?p < length ops" "is_final (ops ! pt_pc ?p)"
    by (rule clist_rel_nth[OF Suc.prems(2) k])+
  have abs: "thread_abs ?t (pt_caps ?p) = ?p" using t by (simp add: thread_abs_def)
  have prog: "nth_opt (rx_prog rx) (pt_pc ?p) = Some (rx_prog rx ! pt_pc ?p)" "in_op (rx_prog rx ! pt_pc ?p) = ops ! pt_pc ?p"
    using Suc.prems(1) t(3) by (auto simp: vm_inv_def nth_opt_lt)
  have slots: "slots_ok rx (add_mset (th_sm ?t, pt_caps ?p) (?T + ?C))" using Suc.prems(4) step by simp
  have bud: "budget ops rx V (add_mset (th_sm ?t, pt_caps ?p) (?T + ?C))" using Suc.prems(5) step by simp
  have st: "step_thread alnum k sp ch rx =
    (case ops ! pt_pc ?p of
       OComp cmp \<Rightarrow>
         if comp_matches cmp ch \<and> \<not> ?fails ?p then do {
           rx \<leftarrow> add_thread (vm_fuel rx) alnum sp ch False
                  \<lparr>th_pc = pt_pc ?p + 1, th_assertion = None, th_sm = th_sm ?t\<rparr> rx;
           Some (None, rx)
         }
         else map_option (Pair None) (sm_dec_ref (th_sm ?t) rx)
     | OMatch \<Rightarrow> Some (Some (th_sm ?t), rx)
     | _ \<Rightarrow> map_option (Pair None) (sm_dec_ref (th_sm ?t) rx))"
    using k len prog t(1) assertion_fails_abs[of alnum ?t ch rx "pt_caps ?p"] abs
    by (cases "ops ! pt_pc ?p") (simp_all add: step_thread_def nth_opt_lt)
  have upt: "[k..<length L] = k # [Suc k..<length L]" "drop k L = ?p # drop (Suc k) L"
    using k by (simp_all add: upt_conv_Cons Cons_nth_drop_Suc)
  have go: "round_ok ops rx
      (pike_steps (length ops + 1) ops ?fails sp ch (drop (Suc k) L) (V1, N1)) (step_threads alnum [Suc k..<length L] sp ch rx1)"
    if "vm_inv ops rx1 V1 N1" "same_but_list rx rx1" "slots_ok rx1 (list_tokens rx1 N1 + ?C)"
      "budget ops rx1 V1 (list_tokens rx1 N1 + ?C)" for rx1 V1 N1
  proof (rule round_ok_trans[OF that(2)])
    have "clist_rel ops rx1 L" "clist_tokens rx1 (Suc k) L = ?C"
      using Suc.prems(2) that(2) by (simp_all add: clist_rel_def clist_tokens_def same_but_list_def)
    then show "round_ok ops rx1 (pike_steps (length ops + 1) ops ?fails sp ch (drop (Suc k) L) (V1, N1))
        (step_threads alnum [Suc k..<length L] sp ch rx1)"
      using Suc.hyps(1)[of "Suc k" rx1 V1 N1] Suc.hyps(2) that k by (simp add: same_but_list_def)
  qed
  have drop_it: "\<exists>rx1. sm_dec_ref (th_sm ?t) rx = Some rx1 \<and> round_ok ops rx
      (pike_steps (length ops + 1) ops ?fails sp ch (drop (Suc k) L) (V, N)) (step_threads alnum [Suc k..<length L] sp ch rx1)"
  proof -
    obtain rx1 where rx1: "sm_dec_ref (th_sm ?t) rx = Some rx1" "slots_ok rx1 (?T + ?C)" "same_but_slots rx rx1"
      using sm_dec_ref_ok[OF slots] by blast
    note eq = same_but_slots_simps[OF rx1(3)]
    have toks: "list_tokens rx1 N = ?T" using list_tokens_nlist eq by blast
    have "budget ops rx1 V (?T + ?C)"
      using bud eq card_insert_le[of "slots (?T + ?C)" "th_sm ?t"] by (auto simp: budget_def)
    then show ?thesis
      using go[OF vm_inv_slots[OF rx1(3) Suc.prems(1)] same_but_slots_list[OF rx1(3)]] rx1(1,2) toks by simp
  qed
  from is_final_cases[OF t(4)] show ?case
  proof
    assume "\<exists>c. ops ! pt_pc ?p = OComp c"
    then obtain cmp where cmp: "ops ! pt_pc ?p = OComp cmp" by blast
    show ?case
    proof (cases "comp_matches cmp ch \<and> \<not> ?fails ?p")
      case True
      let ?t' = "\<lparr>th_pc = pt_pc ?p + 1, th_assertion = None, th_sm = th_sm ?t\<rparr>"
      obtain V1 N1 where p1: "pike_add (length ops + 1) ops ?fails sp ch False (thread_abs ?t' (pt_caps ?p)) (V, N) = (V1, N1)"
        by fastforce
      have "pt_pc ?p + 1 < length ops" using next_pc[OF ok(1) t(3)] cmp by simp
      then have "added ops rx V ?C (V1, N1) (add_thread (length ops + 1) alnum sp ch False ?t' rx)"
        using add_okD[OF add_thread_ok[OF ok] Suc.prems(1), of ?t' "pt_caps ?p" ?C "length ops + 1"] slots bud
        unfolding p1[symmetric] by (simp del: pike_add.simps add_thread.simps)
      moreover have "vm_fuel rx = length ops + 1" using Suc.prems(1) by (auto simp: vm_inv_def vm_fuel_def)
      ultimately have "added ops rx V ?C (V1, N1) (add_thread (vm_fuel rx) alnum sp ch False ?t' rx)" by simp
      then obtain rx1 where "add_thread (vm_fuel rx) alnum sp ch False ?t' rx = Some rx1" "vm_inv ops rx1 V1 N1"
        "slots_ok rx1 (list_tokens rx1 N1 + ?C)" "budget ops rx1 V1 (list_tokens rx1 N1 + ?C)" "same_but_list rx rx1"
        by (auto simp: added_def)
      then show ?thesis using go[of rx1 V1 N1] True cmp p1 st upt by (simp add: thread_abs_def)
    next
      case False
      then show ?thesis using drop_it cmp st upt by auto
    qed
  next
    assume m: "ops ! pt_pc ?p = OMatch"
    show ?case
    proof (cases "rx_track_submatches rx")
      case True
      have i: "th_sm ?t < length (rx_sms rx)" using slots_ok_dest(1)[OF slots] by simp
      have inner: "sm_inner (rx_sms rx ! th_sm ?t) = pt_caps ?p" using slots_ok_inner[OF slots True] by simp
      obtain rx1 where rx1: "dec_refs [k..<length L] rx = Some rx1" "slots_ok rx1 ?T" "same_but_slots rx rx1"
        using dec_refs_ok[of k L rx ?T] Suc.prems(4) k len by auto
      have "list_tokens rx1 N = ?T" using list_tokens_nlist same_but_slots_simps[OF rx1(3)] by blast
      then show ?thesis
        using m True st upt i inner rx1 vm_inv_slots[OF rx1(3) Suc.prems(1)] same_but_slots_list[OF rx1(3)]
        by (simp add: round_ok_def nth_opt_lt)
    next
      case False
      then have "slots_ok rx ?T" using slots by (simp add: slots_ok_def)
      then show ?thesis
        using m False st upt Suc.prems(1) by (simp add: round_ok_def same_but_list_def)
    qed
  qed
qed

subsection \<open>The loop\<close>

text \<open>Between two rounds: the next generation, an empty list to fill and the threads to step.\<close>

definition between :: "op list \<Rightarrow> regex_inner \<Rightarrow> pthread list \<Rightarrow> bool" where
  "between ops rx L \<longleftrightarrow>
     vm_inv ops rx {} [] \<and> clist_rel ops rx L \<and> slots_ok rx (clist_tokens rx 0 L)"

lemma card_slots_le: "card (slots T) \<le> size T"
  by (induction T) (auto simp: slots_def card_insert_if)

lemma clist_budget:
  assumes "clist_rel ops rx L"
  shows "card (slots (clist_tokens rx k L)) \<le> card (pcs is_final ops)"
proof -
  have "card (slots (clist_tokens rx k L)) \<le> length L"
    using card_slots_le[of "clist_tokens rx k L"] by (simp add: clist_tokens_def)
  also have "length L = card (set (map pt_pc L))" using assms distinct_card[of "map pt_pc L"] by (simp add: clist_rel_def)
  also have "\<dots> \<le> card (pcs is_final ops)" using assms by (intro card_mono) (auto simp: clist_rel_def)
  finally show ?thesis .
qed

lemma next_round:
  assumes inv: "vm_inv ops rx V N" and slots: "slots_ok rx (list_tokens rx N)"
  shows "between ops ((swap_lists rx)\<lparr>rx_prev := p, rx_generation := rx_generation rx + 1, rx_p := 0\<rparr>) N"
proof -
  let ?rx = "(swap_lists rx)\<lparr>rx_prev := p, rx_generation := rx_generation rx + 1, rx_p := 0\<rparr>"
  have "vm_inv ops ?rx {} []" using inv by (auto simp: vm_inv_def swap_lists_def)
  moreover have "length N \<le> length ops"
  proof -
    have "length N = card (set (map pt_pc N))" using inv distinct_card[of "map pt_pc N"] by (simp add: vm_inv_def)
    also have "\<dots> \<le> card {..<length ops}" using inv by (intro card_mono) (auto simp: vm_inv_def)
    finally show ?thesis by simp
  qed
  then have "clist_rel ops ?rx N" using inv by (auto simp: clist_rel_def vm_inv_def swap_lists_def)
  moreover have "slots_ok ?rx (clist_tokens ?rx 0 N)"
    using slots by (simp add: clist_tokens_def list_tokens_def swap_lists_def slots_ok_def)
  ultimately show ?thesis by (simp add: between_def)
qed

text \<open>The fields that a run does not change.\<close>

definition same_regex :: "regex_inner \<Rightarrow> regex_inner \<Rightarrow> bool" where
  "same_regex rx rx' \<longleftrightarrow> rx_track_submatches rx' = rx_track_submatches rx \<and>
     rx_n_submatches rx' = rx_n_submatches rx \<and> rx_submatch_names rx' = rx_submatch_names rx \<and>
     rx_fast_start rx' = rx_fast_start rx"

lemma same_regex_trans: "same_regex rx rx1 \<Longrightarrow> same_regex rx1 rx2 \<Longrightarrow> same_regex rx rx2"
  by (simp add: same_regex_def)

text \<open>
  With tracking the loop is that of the machine by value; without, it ends at the first match,
  if there is one.
\<close>

definition loop_ok :: "op list \<Rightarrow> regex_inner \<Rightarrow> pthread list \<times> nat list option \<Rightarrow>
    (bool \<times> nat \<times> nat list option \<times> regex_inner) option \<Rightarrow> bool" where
  "loop_ok ops rx p r \<longleftrightarrow>
     (\<exists>early n matched rx'. r = Some (early, n, matched, rx') \<and> same_regex rx rx' \<and>
        (early \<longrightarrow> \<not> rx_track_submatches rx \<and> snd p \<noteq> None) \<and>
        (\<not> early \<longrightarrow> between ops rx' (fst p) \<and> n = length (fst p) \<and> matched = snd p \<and>
           (matched = None \<or> rx_track_submatches rx)))"

lemma loop_ok_trans: "same_regex rx rx1 \<Longrightarrow> loop_ok ops rx1 p r \<Longrightarrow> loop_ok ops rx p r"
  by (fastforce simp: loop_ok_def same_regex_def)

lemma pike_loop_matched: "matched \<noteq> None \<Longrightarrow> snd (pike_loop alnum ops input prev L matched) \<noteq> None"
  by (induction alnum ops input prev L matched rule: pike_loop.induct)
    (auto simp: Let_def split: prod.splits if_splits)

lemma vm_loop_ok:
  assumes ok: "prog_ok ops" "prog_room ops"
    and "between ops rx L" "matched = None \<or> rx_track_submatches rx"
  shows "loop_ok ops rx (pike_loop alnum ops input (rx_prev rx) L matched)
    (vm_loop alnum input (length L) matched rx)"
  using assms(3,4)
proof (induction input arbitrary: rx L matched)
  case Nil
  then show ?case by (simp add: loop_ok_def same_regex_def ex_bool_eq)
next
  case (Cons x input)
  obtain sp ch where x: "x = (sp, ch)" by fastforce
  let ?nxt = "case input of [] \<Rightarrow> None | (_, c) # _ \<Rightarrow> Some c"
  let ?rx = "rx\<lparr>rx_next := ?nxt\<rparr>"
  have bt: "between ops ?rx L"
  proof -
    have "vm_inv ops ?rx {} [] = vm_inv ops rx {} []" "clist_rel ops ?rx L = clist_rel ops rx L"
      "slots_ok ?rx (clist_tokens ?rx 0 L) = slots_ok rx (clist_tokens rx 0 L)"
      by (simp_all add: vm_inv_def clist_rel_def slots_ok_def clist_tokens_def)
    then show ?thesis using Cons.prems(1) by (simp add: between_def)
  qed
  obtain r V N where p: "pike_steps (length ops + 1) ops (pike_fails alnum (rx_prev rx) ch ?nxt) sp ch L ({}, []) = (r, (V, N))"
    by (metis surj_pair)
  have inv: "vm_inv ops ?rx {} []" "clist_rel ops ?rx L" "slots_ok ?rx (clist_tokens ?rx 0 L)"
    using bt by (simp_all add: between_def)
  have "list_tokens ?rx [] = {#}" by (simp add: list_tokens_def)
  then have "slots_ok ?rx (list_tokens ?rx [] + clist_tokens ?rx 0 L)"
    "budget ops ?rx {} (list_tokens ?rx [] + clist_tokens ?rx 0 L)"
    using inv(3) clist_budget[OF inv(2), of 0] by (auto simp: budget_def)
  from step_threads_ok[OF ok inv(1,2) _ this, of alnum ch sp] obtain rx1 where
    rx1: "step_threads alnum [0..<length L] sp ch ?rx =
      Some (if rx_track_submatches rx then r else map_option (\<lambda>_. []) r, rx1)"
    "vm_inv ops rx1 V N" "slots_ok rx1 (list_tokens rx1 N)" "same_but_list ?rx rx1"
    using p by (auto simp: round_ok_def)
  have trk: "rx_track_submatches rx1 = rx_track_submatches rx" using rx1(4) by (simp add: same_but_list_def)
  have same: "same_regex rx rx1" using rx1(4) by (simp add: same_regex_def same_but_list_def)
  show ?case
  proof (cases "r \<noteq> None \<and> \<not> rx_track_submatches rx")
    case True
    then have "vm_loop alnum (x # input) (length L) matched rx = Some (True, length L, map_option (\<lambda>_. []) r, rx1)"
      using rx1(1) trk x by auto
    moreover have "snd (pike_loop alnum ops (x # input) (rx_prev rx) L matched) \<noteq> None"
      using p True x pike_loop_matched by (auto simp: Let_def)
    ultimately show ?thesis using True same by (auto simp: loop_ok_def)
  next
    case False
    let ?m = "if r \<noteq> None then r else matched"
    let ?rx2 = "(swap_lists rx1)\<lparr>rx_prev := Some ch, rx_generation := rx_generation rx1 + 1, rx_p := 0\<rparr>"
    have bt2: "between ops ?rx2 N" by (rule next_round[OF rx1(2,3)])
    have p1: "rx_p rx1 = length N" using rx1(2) by (simp add: vm_inv_def)
    have eq: "rx_track_submatches ?rx2 = rx_track_submatches rx" "same_regex rx ?rx2"
      using trk same by (simp_all add: swap_lists_def same_regex_def)
    have r: "(if rx_track_submatches rx then r else map_option (\<lambda>_. []) r) = r" using False by auto
    have vm: "vm_loop alnum (x # input) (length L) matched rx =
      (if N = [] then Some (False, 0, ?m, ?rx2) else vm_loop alnum input (length N) ?m ?rx2)"
      using rx1(1) False trk x p1 r by (auto simp: Let_def swap_lists_def)
    have pk: "pike_loop alnum ops (x # input) (rx_prev rx) L matched =
      (if N = [] then ([], ?m) else pike_loop alnum ops input (Some ch) N ?m)"
      using p x by (simp add: Let_def)
    have m: "?m = None \<or> rx_track_submatches ?rx2" using Cons.prems(2) False eq(1) by auto
    show ?thesis
    proof (cases "N = []")
      case True
      then show ?thesis using vm pk bt2 eq m by (simp add: loop_ok_def ex_bool_eq del: not_None_eq)
    next
      case False
      from m show ?thesis
        using loop_ok_trans[OF eq(2) Cons.IH[OF bt2]] False vm pk by simp
    qed
  qed
qed

subsection \<open>The whole run\<close>

lemma final_match_ok:
  assumes slots: "slots_ok rx (clist_tokens rx 0 L)" and rel: "clist_rel ops rx L" and prog: "map in_op (rx_prog rx) = ops"
    and "k \<le> length L" and trk: "matched = None \<or> rx_track_submatches rx"
  shows "\<exists>r. final_match (take (length L - k) (drop k (rx_clist rx))) matched rx = Some r \<and>
    (r = None \<longleftrightarrow> pike_final ops (drop k L) matched = None) \<and>
    (rx_track_submatches rx \<longrightarrow> r = pike_final ops (drop k L) matched)"
  using assms(4)
proof (induction "length L - k" arbitrary: k)
  case 0
  then show ?case by simp
next
  case (Suc n)
  then have k: "k < length L" "k < length (rx_clist rx)" using rel by (auto simp: clist_rel_def)
  let ?t = "rx_clist rx ! k" and ?p = "L ! k"
  have t: "th_pc ?t = pt_pc ?p" "pt_pc ?p < length ops"
    by (rule clist_rel_nth[OF rel k(1)])+
  have op: "nth_opt (rx_prog rx) (pt_pc ?p) = Some (rx_prog rx ! pt_pc ?p)" "in_op (rx_prog rx ! pt_pc ?p) = ops ! pt_pc ?p"
    using prog t(2) by (auto simp: nth_opt_lt)
  have mem: "(th_sm ?t, pt_caps ?p) \<in># clist_tokens rx 0 L"
    using k by (force simp: clist_tokens_def set_zip)
  then have sm: "nth_opt (rx_sms rx) (th_sm ?t) = Some (rx_sms rx ! th_sm ?t)"
    using slots_ok_dest(1)[OF slots] by (force simp: nth_opt_lt slots_def)
  have inner: "sm_inner (rx_sms rx ! th_sm ?t) = pt_caps ?p" if "rx_track_submatches rx"
    by (rule slots_ok_inner[OF slots that mem])
  have "take (length L - k) (drop k (rx_clist rx)) = ?t # take (length L - Suc k) (drop (Suc k) (rx_clist rx))"
    using k by (simp add: Cons_nth_drop_Suc[symmetric] take_Cons')
  moreover have "drop k L = ?p # drop (Suc k) L" using k by (simp add: Cons_nth_drop_Suc)
  moreover have "n = length L - Suc k" "Suc k \<le> length L" using Suc.hyps(2) k by simp_all
  ultimately show ?case
    using Suc.hyps(1)[of "Suc k"] op sm t(1) trk inner by (cases "rx_track_submatches rx") auto
qed

lemma pike_final_matched: "matched \<noteq> None \<Longrightarrow> pike_final ops L matched \<noteq> None"
  by (induction L) auto

text \<open>What a machine has to be to start a run: nothing is left over from the last one.\<close>

definition vm_ready :: "op list \<Rightarrow> regex_inner \<Rightarrow> bool" where
  "vm_ready ops rx \<longleftrightarrow>
     map in_op (rx_prog rx) = ops \<and> length (rx_clist rx) = length ops \<and> length (rx_nlist rx) = length ops \<and>
     length (rx_sms rx) = length ops \<and> (\<forall>sm \<in> set (rx_sms rx). length (sm_inner sm) = N_SLOTS) \<and>
     (\<forall>inst \<in> set (rx_prog rx). in_generation inst \<le> rx_generation rx) \<and>
     rx_p rx = 0 \<and> rx_prev rx = None \<and> rx_next rx = None"

definition vm_started :: "regex_inner \<Rightarrow> regex_inner" where
  "vm_started rx = rx\<lparr>rx_free_sms := [1..<length (rx_prog rx)],
     rx_sms := (rx_sms rx)[0 := \<lparr>sm_refs = 1, sm_inner = replicate N_SLOTS 0\<rparr>],
     rx_generation := rx_generation rx + 1\<rparr>"

lemma vm_start_ok:
  assumes ok: "prog_ok ops" "prog_room ops" and ready: "vm_ready ops rx"
  shows "\<exists>rx'. vm_start alnum sp rx = Some rx' \<and> rx_p rx' = length (pike_start alnum ops sp) \<and> same_regex rx rx' \<and>
    between ops (rx'\<lparr>rx_p := 0, rx_prev := None, rx_next := None\<rparr>) (pike_start alnum ops sp)"
proof -
  let ?rx = "vm_started rx" and ?c = "replicate N_SLOTS 0 :: nat list"
  have len: "length (rx_prog rx) = length ops" "length (rx_sms rx) = length ops" "0 < length ops"
    using ready ok(2) by (auto simp: vm_ready_def prog_room_def)
  have gens: "in_generation (rx_prog rx ! pc) \<le> rx_generation rx" if "pc < length ops" for pc
    using ready that len(1) nth_mem[of pc "rx_prog rx"] by (simp add: vm_ready_def)
  then have new: "in_generation (rx_prog rx ! pc) \<noteq> Suc (rx_generation rx)" "in_generation (rx_prog rx ! pc) \<le> Suc (rx_generation rx)"
    if "pc < length ops" for pc using gens[OF that] by simp_all
  have "vm_inv ops ?rx {} []"
    using ready len new by (simp add: vm_inv_def vm_ready_def vm_started_def)
  moreover have toks: "list_tokens ?rx [] = {#}" by (simp add: list_tokens_def)
  have "slots_ok ?rx {#(0, ?c)#}"
  proof (rule slots_okI)
    show "length (sm_inner sm) = N_SLOTS" if "sm \<in> set (rx_sms ?rx)" for sm
      using that ready set_update_subset_insert[of "rx_sms rx" 0] by (fastforce simp: vm_started_def vm_ready_def)
  qed (use len in \<open>auto simp: vm_started_def\<close>)
  moreover have "1 \<le> card (pcs is_final ops)"
  proof -
    have "length ops - 1 \<in> pcs is_final ops"
      using ok(1) len(3) by (auto simp: prog_ok_def pcs_def nth_append)
    then show ?thesis using card_gt_0_iff[of "pcs is_final ops"] by (auto simp: Suc_le_eq)
  qed
  then have "budget ops ?rx {} {#(0, ?c)#}" by (simp add: budget_def)
  ultimately have add: "added ops ?rx {} {#} (pike_add (length ops + 1) ops (pike_fails alnum (rx_prev ?rx) 0 (rx_next ?rx)) sp 0 True
      (thread_abs thread_default ?c) ({}, [])) (add_thread (length ops + 1) alnum sp 0 True thread_default ?rx)"
    using len(3) by (intro add_okD[OF add_thread_ok[OF ok]]) (simp_all add: toks thread_default_def)
  have pn: "rx_prev ?rx = None" "rx_next ?rx = None" using ready by (simp_all add: vm_ready_def vm_started_def)
  have abs: "thread_abs thread_default ?c = \<lparr>pt_pc = 0, pt_assertion = None, pt_caps = ?c\<rparr>"
    by (simp add: thread_abs_def thread_default_def)
  obtain V N where p: "pike_add (length ops + 1) ops (pike_fails alnum None 0 None) sp 0 True
      \<lparr>pt_pc = 0, pt_assertion = None, pt_caps = ?c\<rparr> ({}, []) = (V, N)" by fastforce
  have start: "pike_start alnum ops sp = N" unfolding pike_start_def p by simp
  obtain rx1 where rx1: "add_thread (length ops + 1) alnum sp 0 True thread_default ?rx = Some rx1"
    "vm_inv ops rx1 V N" "slots_ok rx1 (list_tokens rx1 N)" "same_but_list ?rx rx1"
    using add unfolding pn abs p by (auto simp: added_def)
  let ?rx2 = "(swap_lists rx1)\<lparr>rx_generation := rx_generation rx1 + 1\<rparr>"
  have "vm_start alnum sp rx = Some ?rx2"
    using rx1(1) len unfolding vm_start_def vm_started_def vm_fuel_def
    by (simp add: nth_opt_lt Let_def swap_lists_def del: add_thread.simps)
  moreover have "?rx2\<lparr>rx_p := 0, rx_prev := None, rx_next := None\<rparr> =
      (swap_lists rx1)\<lparr>rx_prev := None, rx_generation := rx_generation rx1 + 1, rx_p := 0\<rparr>"
    using rx1(4) pn(2) by (simp add: swap_lists_def same_but_list_def)
  then have "between ops (?rx2\<lparr>rx_p := 0, rx_prev := None, rx_next := None\<rparr>) N"
    using next_round[OF rx1(2,3), of None] by simp
  moreover have "rx_p ?rx2 = length N" using rx1(2) by (simp add: vm_inv_def swap_lists_def)
  moreover have "same_regex rx ?rx2" using rx1(4) by (simp add: same_regex_def same_but_list_def vm_started_def swap_lists_def)
  ultimately show ?thesis unfolding start by (intro exI[of _ ?rx2]) simp
qed

text \<open>
  A run returns. With tracking its match is the one of the machine by value and it leaves the
  machine ready; without tracking it only tells whether there is one.
\<close>

theorem run_vm_ok:
  assumes ok: "prog_ok ops" "prog_room ops" and ready: "vm_ready ops rx"
  shows "\<exists>m rx'. run_vm alnum input sp rx = Some (m, rx') \<and> same_regex rx rx' \<and>
    (m = None \<longleftrightarrow> pike_run alnum ops input sp = None) \<and>
    (rx_track_submatches rx \<longrightarrow> vm_ready ops rx' \<and>
       m = map_option (\<lambda>sub. \<lparr>m_n_submatches = rx_n_submatches rx, m_sub_matches = sub,
             m_submatch_names = rx_submatch_names rx\<rparr>) (pike_run alnum ops input sp))"
proof -
  let ?L = "pike_start alnum ops sp"
  obtain rx1 where rx1: "vm_start alnum sp rx = Some rx1" "rx_p rx1 = length ?L" "same_regex rx rx1"
    "between ops (rx1\<lparr>rx_p := 0, rx_prev := None, rx_next := None\<rparr>) ?L"
    using vm_start_ok[OF ok ready] by blast
  let ?rx1 = "rx1\<lparr>rx_p := 0, rx_prev := None, rx_next := None\<rparr>"
  obtain L matched where p: "pike_loop alnum ops input None ?L None = (L, matched)" by fastforce
  obtain early n m rx2 where loop: "vm_loop alnum input (length ?L) None ?rx1 = Some (early, n, m, rx2)"
    "same_regex ?rx1 rx2" "early \<longrightarrow> \<not> rx_track_submatches rx1 \<and> matched \<noteq> None"
    "\<not> early \<longrightarrow> between ops rx2 L \<and> n = length L \<and> m = matched \<and> (matched = None \<or> rx_track_submatches rx1)"
    using vm_loop_ok[OF ok rx1(4), of None alnum input] p by (auto simp: loop_ok_def simp del: not_None_eq)
  have same: "same_regex rx rx2" using loop(2) rx1(3) by (simp add: same_regex_def)
  have run: "pike_run alnum ops input sp = pike_final ops L matched" by (simp add: pike_run_def p)
  show ?thesis
  proof (cases early)
    case True
    then have "pike_run alnum ops input sp \<noteq> None" "\<not> rx_track_submatches rx"
      using loop(3) run pike_final_matched[of matched ops L] rx1(3) by (auto simp: same_regex_def)
    then show ?thesis using rx1(1,2) loop(1) True same by (simp add: run_vm_def)
  next
    case False
    let ?rx2 = "rx2\<lparr>rx_prev := None, rx_next := None\<rparr>"
    have bt: "between ops rx2 L" and n: "n = length L" "m = matched" using loop(4) False by auto
    have ready2: "vm_ready ops ?rx2"
      using bt by (auto simp: between_def vm_inv_def vm_ready_def slots_ok_def in_set_conv_nth)
    have trk: "rx_track_submatches rx2 = rx_track_submatches rx" using same by (simp add: same_regex_def)
    have "matched = None \<or> rx_track_submatches rx"
      using loop(4) False rx1(3) by (simp add: same_regex_def)
    then have "\<exists>r. final_match (take (length L - 0) (drop 0 (rx_clist rx2))) matched ?rx2 = Some r \<and>
        (r = None \<longleftrightarrow> pike_final ops (drop 0 L) matched = None) \<and> (rx_track_submatches rx2 \<longrightarrow> r = pike_final ops (drop 0 L) matched)"
    proof -
      have "clist_rel ops ?rx2 L = clist_rel ops rx2 L" "slots_ok ?rx2 (clist_tokens ?rx2 0 L) = slots_ok rx2 (clist_tokens rx2 0 L)"
        by (simp_all add: clist_rel_def clist_tokens_def slots_ok_def)
      then show ?thesis
        using final_match_ok[of ?rx2 L ops 0 matched] bt trk \<open>matched = None \<or> rx_track_submatches rx\<close>
        by (simp add: between_def vm_inv_def)
    qed
    then obtain r where "final_match (take (length L) (rx_clist rx2)) matched ?rx2 = Some r"
      "r = None \<longleftrightarrow> pike_final ops L matched = None" "rx_track_submatches rx2 \<longrightarrow> r = pike_final ops L matched" by auto
    then have "run_vm alnum input sp rx = Some (map_option (\<lambda>sub. \<lparr>m_n_submatches = rx_n_submatches rx, m_sub_matches = sub,
        m_submatch_names = rx_submatch_names rx\<rparr>) r, ?rx2) \<and> (r = None \<longleftrightarrow> pike_run alnum ops input sp = None) \<and>
        (rx_track_submatches rx \<longrightarrow> r = pike_run alnum ops input sp)"
      using rx1(1,2) loop(1) False n same trk run by (simp add: run_vm_def same_regex_def)
    then show ?thesis using ready2 same by (auto simp: same_regex_def)
  qed
qed

end
