(* ===== verification/RegexSearch.thy ===== *)
theory RegexSearch
  imports RegexRun
begin

text \<open>
  What the machine by value finds, for programs without assertions that search forwards: the
  first string of the input that the program accepts from behind its prefix, with its offsets.
\<close>

subsection \<open>Adding a thread\<close>

definition plain_op :: "op \<Rightarrow> bool" where
  "plain_op op \<longleftrightarrow> (case op of OAssertion _ \<Rightarrow> False | ORSave _ \<Rightarrow> False | _ \<Rightarrow> True)"

text \<open>The threads that one becomes before the next character is read.\<close>

definition succs :: "op list \<Rightarrow> nat \<Rightarrow> pthread \<Rightarrow> pthread list" where
  "succs ops pos t =
     (case ops ! pt_pc t of
        OJump j \<Rightarrow> [t\<lparr>pt_pc := j\<rparr>]
      | OSplit l1 l2 \<Rightarrow> [t\<lparr>pt_pc := l1\<rparr>, t\<lparr>pt_pc := l2\<rparr>]
      | OSave s \<Rightarrow> [t\<lparr>pt_pc := Suc (pt_pc t), pt_caps := (pt_caps t)[s := pos]\<rparr>]
      | _ \<Rightarrow> [])"

lemma succs_targets: "plain_op (ops ! pt_pc t) \<Longrightarrow> map pt_pc (succs ops pos t) = eps_targets (ops ! pt_pc t) (pt_pc t)"
  by (simp add: succs_def plain_op_def split: op.splits)

text \<open>A property of threads that goes from a thread to those it becomes.\<close>

definition kept :: "op list \<Rightarrow> nat \<Rightarrow> (pthread \<Rightarrow> bool) \<Rightarrow> bool" where
  "kept ops pos I \<longleftrightarrow>
     (\<forall>t. I t \<longrightarrow> pt_pc t < length ops \<and> plain_op (ops ! pt_pc t) \<and> pt_assertion t = None \<and>
        (\<forall>u \<in> set (succs ops pos t). I u))"

definition grown :: "op list \<Rightarrow> (pthread \<Rightarrow> bool) \<Rightarrow> pthread \<Rightarrow> pike \<Rightarrow> pike \<Rightarrow> bool" where
  "grown ops I t st st' \<longleftrightarrow>
     (\<exists>M. snd st' = snd st @ M \<and> fst st \<subseteq> fst st' \<and> fst st' \<subseteq> {..<length ops} \<and> pt_pc t \<in> fst st' \<and>
        (\<forall>p \<in> fst st' - fst st. set (eps_targets (ops ! p) p) \<subseteq> fst st' \<and> (\<exists>u. I u \<and> pt_pc u = p)) \<and>
        pt_pc ` set M = {p \<in> fst st' - fst st. is_final (ops ! p)} \<and> distinct (map pt_pc M) \<and>
        (\<forall>u \<in> set M. I u))"

lemma grown_done: "pt_pc t \<in> V \<Longrightarrow> V \<subseteq> {..<length ops} \<Longrightarrow> grown ops I t (V, N) (V, N)"
  by (auto simp: grown_def)

lemma grown_none:
  assumes "I t" "pt_pc t \<notin> V" "pt_pc t < length ops" "V \<subseteq> {..<length ops}" "is_final (ops ! pt_pc t)"
  shows "grown ops I t (V, N) (insert (pt_pc t) V, N @ [t])"
  using assms unfolding grown_def by (intro exI[of _ "[t]"]) (cases "ops ! pt_pc t"; auto)

lemma grown_one:
  assumes "grown ops I u (insert (pt_pc t) V, N) st'" "I t" "pt_pc t \<notin> V" "\<not> is_final (ops ! pt_pc t)"
    and "set (eps_targets (ops ! pt_pc t) (pt_pc t)) \<subseteq> {pt_pc u}"
  shows "grown ops I t (V, N) st'"
proof -
  obtain M where M: "snd st' = N @ M" "insert (pt_pc t) V \<subseteq> fst st'" "fst st' \<subseteq> {..<length ops}" "pt_pc u \<in> fst st'"
    "\<forall>p \<in> fst st' - insert (pt_pc t) V. set (eps_targets (ops ! p) p) \<subseteq> fst st' \<and> (\<exists>u. I u \<and> pt_pc u = p)"
    "pt_pc ` set M = {p \<in> fst st' - insert (pt_pc t) V. is_final (ops ! p)}" "distinct (map pt_pc M)" "\<forall>u \<in> set M. I u"
    using assms(1) by (auto simp: grown_def)
  have "set (eps_targets (ops ! p) p) \<subseteq> fst st' \<and> (\<exists>u. I u \<and> pt_pc u = p)" if "p \<in> fst st' - V" for p
    using that M(4,5) assms(2,5) by (cases "p = pt_pc t") auto
  moreover have "pt_pc ` set M = {p \<in> fst st' - V. is_final (ops ! p)}" using M(6) assms(4) by auto
  ultimately show ?thesis using M unfolding grown_def by (intro exI[of _ M]) auto
qed

lemma grown_two:
  assumes "grown ops I u1 (insert (pt_pc t) V, N) st1" "grown ops I u2 st1 st'" "I t" "pt_pc t \<notin> V" "\<not> is_final (ops ! pt_pc t)"
    and "set (eps_targets (ops ! pt_pc t) (pt_pc t)) \<subseteq> {pt_pc u1, pt_pc u2}"
  shows "grown ops I t (V, N) st'"
proof -
  obtain M1 where M1: "snd st1 = N @ M1" "insert (pt_pc t) V \<subseteq> fst st1" "fst st1 \<subseteq> {..<length ops}" "pt_pc u1 \<in> fst st1"
    "\<forall>p \<in> fst st1 - insert (pt_pc t) V. set (eps_targets (ops ! p) p) \<subseteq> fst st1 \<and> (\<exists>u. I u \<and> pt_pc u = p)"
    "pt_pc ` set M1 = {p \<in> fst st1 - insert (pt_pc t) V. is_final (ops ! p)}" "distinct (map pt_pc M1)" "\<forall>u \<in> set M1. I u"
    using assms(1) by (auto simp: grown_def)
  obtain M2 where M2: "snd st' = snd st1 @ M2" "fst st1 \<subseteq> fst st'" "fst st' \<subseteq> {..<length ops}" "pt_pc u2 \<in> fst st'"
    "\<forall>p \<in> fst st' - fst st1. set (eps_targets (ops ! p) p) \<subseteq> fst st' \<and> (\<exists>u. I u \<and> pt_pc u = p)"
    "pt_pc ` set M2 = {p \<in> fst st' - fst st1. is_final (ops ! p)}" "distinct (map pt_pc M2)" "\<forall>u \<in> set M2. I u"
    using assms(2) by (auto simp: grown_def)
  have "set (eps_targets (ops ! p) p) \<subseteq> fst st' \<and> (\<exists>u. I u \<and> pt_pc u = p)" if p: "p \<in> fst st' - V" for p
  proof -
    consider "p = pt_pc t" | "p \<in> fst st1 - insert (pt_pc t) V" | "p \<in> fst st' - fst st1" using p by blast
    then show ?thesis using M1(4,5) M2(2,4,5) assms(3,6) by cases (blast+)
  qed
  moreover have "pt_pc ` set (M1 @ M2) = {p \<in> fst st' - V. is_final (ops ! p)}"
    using M1(2,6) M2(2,6) assms(5) by (auto simp: image_Un)
  moreover have "distinct (map pt_pc (M1 @ M2))"
  proof -
    have "set (map pt_pc M1) \<inter> set (map pt_pc M2) = {}" using M1(6) M2(6) by auto
    then show ?thesis using M1(7) M2(7) by simp
  qed
  ultimately show ?thesis using M1 M2 unfolding grown_def by (intro exI[of _ "M1 @ M2"]) auto
qed

lemma pike_save_plain:
  "pt_assertion t = None \<Longrightarrow> \<not> fails t \<Longrightarrow>
   pike_save add fails sp ch initial t s False st =
     add (t\<lparr>pt_pc := Suc (pt_pc t), pt_caps := (pt_caps t)[s := sp + (if initial then 0 else len_utf8 ch)]\<rparr>) st"
  by (cases t) (auto simp: pike_save_def Let_def)

lemma pike_fails_plain: "pt_assertion t = None \<Longrightarrow> \<not> pike_fails alnum prev ch nxt t"
  by (simp add: pike_fails_def)

lemma pike_add_grown:
  assumes kept: "kept ops (sp + (if initial then 0 else len_utf8 ch)) I"
  shows "I t \<Longrightarrow> V \<subseteq> {..<length ops} \<Longrightarrow> length ops < fuel + card V \<Longrightarrow>
    grown ops I t (V, N) (pike_add fuel ops (pike_fails alnum prev ch nxt) sp ch initial t (V, N))"
proof (induction fuel arbitrary: t V N)
  case 0
  then show ?case using card_mono[of "{..<length ops}" V] by simp
next
  case (Suc fuel)
  let ?pos = "sp + (if initial then 0 else len_utf8 ch)" and ?pc = "pt_pc t"
  let ?add = "pike_add fuel ops (pike_fails alnum prev ch nxt) sp ch initial"
  have t: "?pc < length ops" "plain_op (ops ! ?pc)" "pt_assertion t = None" "\<And>u. u \<in> set (succs ops ?pos t) \<Longrightarrow> I u"
    using kept Suc.prems(1) unfolding kept_def by blast+
  show ?case
  proof (cases "?pc \<in> V")
    case True
    then show ?thesis using grown_done[OF True Suc.prems(2)] by simp
  next
    case new: False
    have fin: "finite V" using Suc.prems(2) finite_subset by blast
    have V: "insert ?pc V \<subseteq> {..<length ops}" "length ops < fuel + card (insert ?pc V)"
      using Suc.prems(2,3) t(1) new fin by auto
    note step = Suc.IH[OF _ V]
    have one: "grown ops I t (V, N) (?add u (insert ?pc V, N))" if "succs ops ?pos t = [u]" for u
      using grown_one[OF step[of u] Suc.prems(1) new] that t(4) succs_targets[OF t(2), of ?pos] t(2)
      by (cases "ops ! ?pc") (auto simp: succs_def plain_op_def)
    show ?thesis
    proof (cases "ops ! ?pc")
      case (OSplit l1 l2)
      obtain V1 N1 where st1: "?add (t\<lparr>pt_pc := l1\<rparr>) (insert ?pc V, N) = (V1, N1)" by fastforce
      have "I (t\<lparr>pt_pc := l1\<rparr>)" "I (t\<lparr>pt_pc := l2\<rparr>)" using t(4) OSplit by (auto simp: succs_def)
      moreover from this have g1: "grown ops I (t\<lparr>pt_pc := l1\<rparr>) (insert ?pc V, N) (V1, N1)"
        using step[of "t\<lparr>pt_pc := l1\<rparr>" N] st1 by simp
      moreover have V1: "insert ?pc V \<subseteq> V1" "V1 \<subseteq> {..<length ops}" using g1 by (auto simp: grown_def)
      moreover have "card (insert ?pc V) \<le> card V1"
        using V1 finite_subset[OF V1(2)] by (intro card_mono) auto
      ultimately have "grown ops I (t\<lparr>pt_pc := l2\<rparr>) (V1, N1) (?add (t\<lparr>pt_pc := l2\<rparr>) (V1, N1))"
        using Suc.IH[of "t\<lparr>pt_pc := l2\<rparr>" V1 N1] V(2) by simp
      then show ?thesis using grown_two[OF g1 _ Suc.prems(1) new] OSplit st1 new by (simp add: Let_def)
    next
      case (OComp c)
      then show ?thesis using grown_none[of I t V ops N] Suc.prems t(1) new by simp
    next
      case OMatch
      then show ?thesis using grown_none[of I t V ops N] Suc.prems t(1) new by simp
    next
      case (OJump j)
      then show ?thesis using one new by (simp add: succs_def Let_def)
    next
      case (OSave s)
      then show ?thesis
        using one new t(3) by (simp add: succs_def pike_save_plain pike_fails_plain Let_def)
    qed (use t(2) in \<open>simp_all add: plain_op_def\<close>)
  qed
qed

subsection \<open>What is reached\<close>

definition reach :: "op list \<Rightarrow> nat \<Rightarrow> ustr \<Rightarrow> nat \<Rightarrow> bool" where
  "reach ops p w q \<longleftrightarrow> (\<exists>k. path ops k p w q)"

lemma reach_refl [simp, intro]: "reach ops p [] p"
  unfolding reach_def using path_done by blast

lemma path_append: "path ops k p u q \<Longrightarrow> path ops l q v r \<Longrightarrow> path ops (k + l) p (u @ v) r"
  by (induction rule: path.induct) (auto intro: path_eps path_comp)

lemma reach_trans: "reach ops p u q \<Longrightarrow> reach ops q v r \<Longrightarrow> reach ops p (u @ v) r"
  unfolding reach_def using path_append by blast

lemma reach_eps: "p < length ops \<Longrightarrow> q \<in> set (eps_targets (ops ! p) p) \<Longrightarrow> reach ops p [] q"
  unfolding reach_def by (metis nth_opt_lt path_done path_eps)

lemma reach_comp: "p < length ops \<Longrightarrow> ops ! p = OComp c \<Longrightarrow> comp_matches c ch \<Longrightarrow> reach ops p [ch] (Suc p)"
  unfolding reach_def by (metis nth_opt_lt path_comp path_done)

lemma reach_snoc:
  assumes "reach ops p (u @ [ch]) r"
  shows "\<exists>q c. reach ops p u q \<and> q < length ops \<and> ops ! q = OComp c \<and> comp_matches c ch \<and> reach ops (Suc q) [] r"
proof -
  have "\<exists>q c. reach ops p u q \<and> q < length ops \<and> ops ! q = OComp c \<and> comp_matches c ch \<and> reach ops (Suc q) [] r"
    if "path ops k p w r" "w = u @ [ch]" for k w
    using that
  proof (induction k p w r arbitrary: u rule: path.induct)
    case (path_eps pc op q k w r)
    then obtain q' c where "reach ops q u q'" "q' < length ops" "ops ! q' = OComp c" "comp_matches c ch" "reach ops (Suc q') [] r"
      by blast
    moreover have "reach ops pc [] q" using path_eps.hyps(1,2) by (auto simp: nth_opt_def intro: reach_eps split: if_splits)
    ultimately show ?case using reach_trans[of ops pc "[]" q u q'] by auto
  next
    case (path_comp pc c c' k w r)
    have pc: "pc < length ops" "ops ! pc = OComp c" using path_comp.hyps(1) by (auto simp: nth_opt_def split: if_splits)
    show ?case
    proof (cases u)
      case Nil
      then have "w = []" "c' = ch" using path_comp.prems by auto
      then show ?thesis using pc path_comp.hyps Nil unfolding reach_def by (metis path_done)
    next
      case (Cons d u')
      then obtain q' e where q': "reach ops (Suc pc) u' q'" "q' < length ops" "ops ! q' = OComp e" "comp_matches e ch"
        "reach ops (Suc q') [] r"
        using path_comp.IH[of u'] path_comp.prems by auto
      have "reach ops pc [c'] (Suc pc)" using pc path_comp.hyps(2) by (rule reach_comp)
      then have "reach ops pc u q'" using reach_trans[OF _ q'(1)] Cons path_comp.prems by force
      then show ?thesis using q' by blast
    qed
  qed simp
  then show ?thesis using assms unfolding reach_def by blast
qed

definition closed :: "op list \<Rightarrow> nat set \<Rightarrow> bool" where
  "closed ops V \<longleftrightarrow> (\<forall>p \<in> V. set (eps_targets (ops ! p) p) \<subseteq> V)"

lemma reach_closed: "reach ops p [] q \<Longrightarrow> closed ops V \<Longrightarrow> p \<in> V \<Longrightarrow> q \<in> V"
proof -
  have "q \<in> V" if "path ops k p w q" "w = []" "closed ops V" "p \<in> V" for k w
    using that
  proof (induction rule: path.induct)
    case (path_eps pc op q k w r)
    moreover from path_eps have "ops ! pc = op" by (simp add: nth_opt_def split: if_splits)
    ultimately show ?case unfolding closed_def by blast
  qed simp_all
  then show "reach ops p [] q \<Longrightarrow> closed ops V \<Longrightarrow> p \<in> V \<Longrightarrow> q \<in> V" unfolding reach_def by blast
qed

end
