(* ===== verification/RegexLeftmost.thy ===== *)
theory RegexLeftmost
  imports RegexSearch
begin

text \<open>
  The invariant of a forward search: every thread stands for a string of the input that leads to
  its instruction, the threads are ordered by where that string starts, and no string is missed
  that starts before the match found so far.
\<close>

subsection \<open>Programs that search\<close>

definition body_op :: "op list \<Rightarrow> op \<Rightarrow> bool" where
  "body_op ops op \<longleftrightarrow>
     (\<forall>t \<in> set (op_targets op). 4 \<le> t \<and> t \<le> length ops - 2) \<and> plain_op op \<and> op \<noteq> OMatch \<and>
     (\<forall>s. op = OSave s \<longrightarrow> 2 \<le> s)"

definition search_prog :: "op list \<Rightarrow> bool" where
  "search_prog ops \<longleftrightarrow>
     prog_ok ops \<and> 6 \<le> length ops \<and> ops ! 0 = OSplit 3 1 \<and> ops ! 1 = OComp CTrueAny \<and>
     ops ! 2 = OSplit 3 1 \<and> ops ! 3 = OSave 0 \<and> ops ! (length ops - 2) = OSave 1 \<and>
     (\<forall>i. 4 \<le> i \<longrightarrow> i < length ops - 2 \<longrightarrow> body_op ops (ops ! i))"

lemma search_prog_dest:
  assumes "search_prog ops"
  shows "prog_ok ops" "6 \<le> length ops" "ops ! 0 = OSplit 3 1" "ops ! 1 = OComp CTrueAny"
    "ops ! 2 = OSplit 3 1" "ops ! 3 = OSave 0" "ops ! (length ops - 2) = OSave 1"
    "\<And>i. 4 \<le> i \<Longrightarrow> i < length ops - 2 \<Longrightarrow> body_op ops (ops ! i)"
  using assms unfolding search_prog_def by blast+

lemma search_prog_last: "search_prog ops \<Longrightarrow> ops ! (length ops - 1) = OMatch"
  using search_prog_dest(1) unfolding prog_ok_def by (metis append_is_Nil_conv last_conv_nth last_snoc not_Cons_self2)

lemma search_pc_cases:
  assumes "search_prog ops" "p < length ops"
  obtains "p < 4" | "4 \<le> p" "p < length ops - 2" "body_op ops (ops ! p)"
    | "p = length ops - 2" "ops ! p = OSave 1" | "p = length ops - 1" "ops ! p = OMatch"
proof -
  consider "p < 4" | "4 \<le> p" "p < length ops - 2" | "p = length ops - 2" | "p = length ops - 1"
    using assms search_prog_dest(2)[OF assms(1)] by linarith
  then show ?thesis using that search_prog_dest(7,8)[OF assms(1)] search_prog_last[OF assms(1)] by cases blast+
qed

lemma search_match_pc: "search_prog ops \<Longrightarrow> p < length ops \<Longrightarrow> ops ! p = OMatch \<longleftrightarrow> p = length ops - 1"
proof
  assume ops: "search_prog ops" "p < length ops" and m: "ops ! p = OMatch"
  show "p = length ops - 1"
  proof (rule search_pc_cases[OF ops])
    assume "p < 4"
    then consider "p = 0" | "p = 1" | "p = 2" | "p = 3" by linarith
    then show ?thesis using m search_prog_dest(3-6)[OF ops(1)] by cases simp_all
  qed (use m in \<open>simp_all add: body_op_def\<close>)
next
  assume "search_prog ops" "p = length ops - 1"
  then show "ops ! p = OMatch" using search_prog_last by simp
qed

lemma search_comp_pc:
  assumes "search_prog ops" "p < length ops" "4 \<le> p" "ops ! p = OComp c"
  shows "Suc p < length ops - 1"
  using assms(1,2) by (rule search_pc_cases) (use assms(3,4) in auto)

lemma search_plain:
  assumes ops: "search_prog ops" and "p < length ops"
  shows "plain_op (ops ! p)"
  using assms
proof (rule search_pc_cases)
  assume "p < 4"
  then consider "p = 0" | "p = 1" | "p = 2" | "p = 3" by linarith
  then show ?thesis using search_prog_dest(3-6)[OF ops] by cases (simp_all add: plain_op_def)
qed (simp_all add: body_op_def plain_op_def)

lemma search_room: "search_prog ops \<Longrightarrow> prog_room ops"
proof -
  assume ops: "search_prog ops"
  let ?F = "pcs is_final ops" and ?S = "pcs is_save ops"
  have "?F \<inter> ?S = {}"
  proof -
    have "\<not> (is_final op \<and> is_save op)" for op by (cases op) auto
    then show ?thesis by (auto simp: pcs_def)
  qed
  moreover have "?F \<union> ?S \<subseteq> {1..<length ops}"
  proof
    fix p assume p: "p \<in> ?F \<union> ?S"
    then have "p \<noteq> 0" using search_prog_dest(3)[OF ops] by (auto simp: pcs_def intro!: gr0I)
    then show "p \<in> {1..<length ops}" using p by (auto simp: pcs_def)
  qed
  then have "card (?F \<union> ?S) \<le> length ops - 1" using card_mono[of "{1..<length ops}"] by simp
  ultimately show ?thesis
    using search_prog_dest(2)[OF ops] by (simp add: prog_room_def card_Un_disjoint)
qed

subsection \<open>Threads of the body\<close>

text \<open>
  A thread inside the body of the program, with the start of its match, from where it is added:
  at the end the offset behind the match is saved as well.
\<close>

definition body_thread :: "op list \<Rightarrow> nat \<Rightarrow> nat \<Rightarrow> nat \<Rightarrow> pthread \<Rightarrow> bool" where
  "body_thread ops pos p0 a t \<longleftrightarrow>
     pt_assertion t = None \<and> 4 \<le> pt_pc t \<and> pt_pc t < length ops \<and> length (pt_caps t) = N_SLOTS \<and>
     pt_caps t ! 0 = a \<and> reach ops p0 [] (pt_pc t) \<and> (pt_pc t = length ops - 1 \<longrightarrow> pt_caps t ! 1 = pos)"

lemma body_thread_kept:
  assumes ops: "search_prog ops"
  shows "kept ops pos (body_thread ops pos p0 a)"
  unfolding kept_def
proof (intro allI impI conjI ballI)
  fix t assume t: "body_thread ops pos p0 a t"
  let ?pc = "pt_pc t"
  show pc: "?pc < length ops" and "plain_op (ops ! ?pc)" "pt_assertion t = None"
    using t search_plain[OF ops] by (simp_all add: body_thread_def)
  fix u assume u: "u \<in> set (succs ops pos t)"
  have tgt: "pt_pc u \<in> set (eps_targets (ops ! ?pc) ?pc)"
    using u succs_targets[OF search_plain[OF ops pc], of pos] by (metis image_eqI set_map)
  then have reach: "reach ops p0 [] (pt_pc u)"
    using reach_trans[OF _ reach_eps[OF pc tgt], of p0 "[]"] t by (simp add: body_thread_def)
  have N: "N_SLOTS = 30" by (simp add: N_SLOTS_def)
  from ops pc show "body_thread ops pos p0 a u"
  proof (rule search_pc_cases)
    assume "?pc < 4"
    then show ?thesis using t by (simp add: body_thread_def)
  next
    assume body: "4 \<le> ?pc" "?pc < length ops - 2" "body_op ops (ops ! ?pc)"
    have "4 \<le> pt_pc u \<and> pt_pc u \<le> length ops - 2"
      using tgt body by (cases "ops ! ?pc") (auto simp: body_op_def)
    moreover have "pt_caps u ! 0 = a \<and> length (pt_caps u) = N_SLOTS \<and> pt_assertion u = None"
      using u t body by (cases "ops ! ?pc") (auto simp: succs_def body_thread_def body_op_def)
    moreover from calculation(1) have "pt_pc u < length ops" "pt_pc u \<noteq> length ops - 1"
      using search_prog_dest(2)[OF ops] by linarith+
    ultimately show ?thesis using reach by (simp add: body_thread_def)
  next
    assume "?pc = length ops - 2" "ops ! ?pc = OSave 1"
    then show ?thesis
      using u t reach N search_prog_dest(2)[OF ops] by (auto simp: succs_def body_thread_def)
  next
    assume "?pc = length ops - 1" "ops ! ?pc = OMatch"
    then show ?thesis using u by (simp add: succs_def)
  qed
qed

subsection \<open>The invariant\<close>

definition thread_sound :: "op list \<Rightarrow> nat \<Rightarrow> ustr \<Rightarrow> pthread \<Rightarrow> bool" where
  "thread_sound ops off x t \<longleftrightarrow>
     pt_assertion t = None \<and> pt_pc t < length ops \<and> length (pt_caps t) = N_SLOTS \<and>
     (pt_pc t = 1 \<or>
      4 \<le> pt_pc t \<and> (\<exists>y u. x = y @ u \<and> pt_caps t ! 0 = off + blen y \<and> reach ops 4 u (pt_pc t)) \<and>
      (pt_pc t = length ops - 1 \<longrightarrow> pt_caps t ! 1 = off + blen x))"

text \<open>Where the match of a thread starts; behind the input for the one that skips characters.\<close>

definition start_key :: "nat \<Rightarrow> pthread \<Rightarrow> nat" where
  "start_key K t = (if pt_pc t = 1 then K else pt_caps t ! 0)"

definition found :: "op list \<Rightarrow> nat \<Rightarrow> ustr \<Rightarrow> nat list \<Rightarrow> bool" where
  "found ops off x m \<longleftrightarrow>
     (\<exists>y u z. x = y @ u @ z \<and> m ! 0 = off + blen y \<and> m ! 1 = off + blen (y @ u) \<and> reach ops 4 u (length ops - 1))"

text \<open>The list under construction, behind the instructions visited so far.\<close>

definition list_ok :: "op list \<Rightarrow> nat \<Rightarrow> nat \<Rightarrow> ustr \<Rightarrow> nat set \<Rightarrow> pthread list \<Rightarrow> bool" where
  "list_ok ops off K x V N \<longleftrightarrow>
     V \<subseteq> {..<length ops} \<and> closed ops V \<and> pt_pc ` set N = {p \<in> V. is_final (ops ! p)} \<and>
     distinct (map pt_pc N) \<and> (\<forall>t \<in> set N. thread_sound ops off x t) \<and> sorted (map (start_key K) N)"

definition search_inv :: "op list \<Rightarrow> nat \<Rightarrow> nat \<Rightarrow> ustr \<Rightarrow> pthread list \<Rightarrow> nat list option \<Rightarrow> bool" where
  "search_inv ops off K x L matched \<longleftrightarrow>
     (\<exists>V. list_ok ops off K x V L) \<and>
     (\<forall>y u p. x = y @ u \<longrightarrow> reach ops 4 u p \<longrightarrow> p < length ops \<longrightarrow> is_final (ops ! p) \<longrightarrow>
        (\<exists>t \<in> set L. pt_pc t = p \<and> start_key K t \<le> off + blen y) \<or> (\<exists>m. matched = Some m \<and> m ! 0 \<le> off + blen y)) \<and>
     (matched = None \<longrightarrow> 1 \<in> pt_pc ` set L) \<and>
     (\<forall>m. matched = Some m \<longrightarrow> found ops off x m \<and> (\<forall>t \<in> set L. start_key K t \<le> m ! 0)) \<and>
     (\<forall>y u z. x = y @ u @ z \<longrightarrow> z \<noteq> [] \<longrightarrow> reach ops 4 u (length ops - 1) \<longrightarrow>
        (\<exists>m. matched = Some m \<and> m ! 0 \<le> off + blen y))"

lemma sound_key_le: "thread_sound ops off x t \<Longrightarrow> pt_pc t \<noteq> 1 \<Longrightarrow> start_key K t \<le> off + blen x"
  by (auto simp: thread_sound_def start_key_def)

lemma closed_extend:
  "closed ops V \<Longrightarrow> (\<And>p. p \<in> V' - V \<Longrightarrow> set (eps_targets (ops ! p) p) \<subseteq> V') \<Longrightarrow> V \<subseteq> V' \<Longrightarrow> closed ops V'"
  unfolding closed_def by blast

text \<open>What a thread of the body adds to the list, if its match starts at \<open>a\<close>.\<close>

lemma grown_body:
  assumes p0: "reach ops 4 u p0" "x = y @ u" "a = off + blen y"
    and g: "grown ops (body_thread ops (off + blen x) p0 a) t (V, N) (V', N')"
  obtains M where "N' = N @ M" "V \<subseteq> V'" "V' \<subseteq> {..<length ops}" "pt_pc t \<in> V'"
    "\<And>p. p \<in> V' - V \<Longrightarrow> set (eps_targets (ops ! p) p) \<subseteq> V' \<and> 4 \<le> p"
    "pt_pc ` set M = {p \<in> V' - V. is_final (ops ! p)}" "distinct (map pt_pc M)"
    "\<And>s. s \<in> set M \<Longrightarrow> thread_sound ops off x s" "map (start_key K) M = replicate (length M) a"
proof -
  obtain M where M: "N' = N @ M" "V \<subseteq> V'" "V' \<subseteq> {..<length ops}" "pt_pc t \<in> V'"
    "\<And>p. p \<in> V' - V \<Longrightarrow> set (eps_targets (ops ! p) p) \<subseteq> V' \<and> (\<exists>u. body_thread ops (off + blen x) p0 a u \<and> pt_pc u = p)"
    "pt_pc ` set M = {p \<in> V' - V. is_final (ops ! p)}" "distinct (map pt_pc M)"
    "\<forall>u \<in> set M. body_thread ops (off + blen x) p0 a u"
    using g by (auto simp: grown_def)
  have sound: "thread_sound ops off x s \<and> start_key K s = a" if "s \<in> set M" for s
  proof -
    have s: "body_thread ops (off + blen x) p0 a s" using M(8) that by blast
    then have "reach ops 4 u (pt_pc s)" using reach_trans[OF p0(1), of "[]" "pt_pc s"] by (simp add: body_thread_def)
    then show ?thesis
      using s p0(2,3) by (auto simp: thread_sound_def body_thread_def start_key_def)
  qed
  have "map (start_key K) M = replicate (length M) a"
    using sound by (simp add: map_eq_conv map_replicate_const[symmetric])
  moreover have "4 \<le> p" if "p \<in> V' - V" for p using M(5)[OF that] by (auto simp: body_thread_def)
  ultimately show ?thesis using M(5) sound by (intro that[OF M(1-4) _ M(6,7)]) auto
qed

text \<open>A thread of the body is added, whose match starts no earlier than those of the list.\<close>

lemma add_body:
  assumes ok: "list_ok ops off K x V N" and V: "V \<subseteq> {4..}"
    and p0: "reach ops 4 u p0" "x = y @ u" "a = off + blen y"
    and N: "\<forall>s \<in> set N. start_key K s \<le> a"
    and g: "grown ops (body_thread ops (off + blen x) p0 a) t (V, N) (V', N')"
  shows "list_ok ops off K x V' N' \<and> V \<subseteq> V' \<and> pt_pc t \<in> V' \<and> V' \<subseteq> {4..} \<and> set N \<subseteq> set N' \<and> (\<forall>s \<in> set N'. start_key K s \<le> a)"
proof -
  obtain M where M: "N' = N @ M" "V \<subseteq> V'" "V' \<subseteq> {..<length ops}" "pt_pc t \<in> V'"
    "\<And>p. p \<in> V' - V \<Longrightarrow> set (eps_targets (ops ! p) p) \<subseteq> V' \<and> 4 \<le> p"
    "pt_pc ` set M = {p \<in> V' - V. is_final (ops ! p)}" "distinct (map pt_pc M)"
    "\<And>s. s \<in> set M \<Longrightarrow> thread_sound ops off x s" "map (start_key K) M = replicate (length M) a"
    by (rule grown_body[OF p0 g]) (rule that)
  have key: "start_key K s = a" if "s \<in> set M" for s
    using M(9) that by (metis in_set_replicate image_eqI set_map)
  have V4: "V' \<subseteq> {4..}" using V M(5) by auto
  have disj: "pt_pc ` set N \<inter> pt_pc ` set M = {}" using M(6) ok by (auto simp: list_ok_def)
  have "closed ops V'" by (rule closed_extend[of ops V]) (use ok M(2,5) in \<open>auto simp: list_ok_def\<close>)
  moreover have "pt_pc ` set N' = {p \<in> V'. is_final (ops ! p)}"
    using M(1,2,6) ok by (auto simp: list_ok_def image_Un)
  moreover have "distinct (map pt_pc N')" using M(1,7) ok disj by (auto simp: list_ok_def)
  moreover have "sorted (map (start_key K) N')"
    using M(1,9) ok N by (auto simp: list_ok_def sorted_append)
  moreover have "\<forall>s \<in> set N'. thread_sound ops off x s" using M(1,8) ok by (auto simp: list_ok_def)
  moreover have "\<forall>s \<in> set N'. start_key K s \<le> a" using M(1) N key by auto
  ultimately show ?thesis using M(1-4) V4 by (auto simp: list_ok_def)
qed

text \<open>
  A thread at the prefix is added: a match that starts here, and the thread that skips the next
  character.
\<close>

lemma add_prefix:
  assumes ops: "search_prog ops" and ok: "list_ok ops off K x V N" and V: "V \<subseteq> {4..}"
    and t: "pt_pc t = 0 \<or> pt_pc t = 2" "pt_assertion t = None" "length (pt_caps t) = N_SLOTS"
    and pos: "sp + (if initial then 0 else len_utf8 ch) = off + blen x" and K: "off + blen x < K"
    and fuel: "length ops < fuel + card V"
    and add: "pike_add fuel ops (pike_fails alnum prev ch nxt) sp ch initial t (V, N) = (V', N')"
  shows "list_ok ops off K x V' N' \<and> V \<subseteq> V' \<and> pt_pc t \<in> V' \<and> set N \<subseteq> set N'"
proof -
  let ?add = "\<lambda>fuel. pike_add fuel ops (pike_fails alnum prev ch nxt) sp ch initial"
  let ?pos = "off + blen x" and ?V0 = "insert 3 (insert (pt_pc t) V)"
  let ?u = "t\<lparr>pt_pc := 4, pt_caps := (pt_caps t)[0 := ?pos]\<rparr>"
  note d = search_prog_dest[OF ops]
  have Vn: "V \<subseteq> {4..<length ops}" using ok V by (auto simp: list_ok_def)
  then have "card V \<le> length ops - 4" using card_mono[OF _ Vn] by simp
  then have "2 \<le> fuel" using fuel d(2) by linarith
  then obtain f where f: "fuel = Suc (Suc f)" by (metis add_2_eq_Suc le_Suc_ex)
  have fin: "finite V" using Vn finite_subset by blast
  have split: "ops ! pt_pc t = OSplit 3 1" "pt_pc t \<notin> V" "pt_pc t \<noteq> 3" "3 \<notin> V" "pt_pc t < length ops"
    using t(1) d(2,3,5) V by auto
  have fuel0: "length ops < f + card ?V0" using fuel f fin split by simp
  have "4 \<noteq> length ops - 1" "4 < length ops" using d(2) by linarith+
  then have u: "body_thread ops ?pos 4 ?pos ?u" using t(2,3) by (simp add: body_thread_def N_SLOTS_def)
  obtain V1 N1 where st1: "?add f ?u (?V0, N) = (V1, N1)" by fastforce
  have kept: "kept ops (sp + (if initial then 0 else len_utf8 ch)) (body_thread ops ?pos 4 ?pos)"
    unfolding pos by (rule body_thread_kept[OF ops])
  have V0: "?V0 \<subseteq> {..<length ops}" using Vn split(5) d(2) by auto
  have g: "grown ops (body_thread ops ?pos 4 ?pos) ?u (?V0, N) (V1, N1)"
    unfolding st1[symmetric] by (rule pike_add_grown[OF kept u V0 fuel0])
  obtain M where M: "N1 = N @ M" "?V0 \<subseteq> V1" "V1 \<subseteq> {..<length ops}" "pt_pc ?u \<in> V1"
    "\<And>p. p \<in> V1 - ?V0 \<Longrightarrow> set (eps_targets (ops ! p) p) \<subseteq> V1 \<and> 4 \<le> p"
    "pt_pc ` set M = {p \<in> V1 - ?V0. is_final (ops ! p)}" "distinct (map pt_pc M)"
    "\<And>s. s \<in> set M \<Longrightarrow> thread_sound ops off x s" "map (start_key K) M = replicate (length M) ?pos"
    using grown_body[OF reach_refl _ _ g, of x K] by auto
  let ?t1 = "t\<lparr>pt_pc := 1\<rparr>"
  have "1 \<notin> ?V0" using V t(1) by auto
  then have one: "1 \<notin> V1" using M(5)[of 1] by auto
  have "?add (Suc f) (t\<lparr>pt_pc := 3\<rparr>) (insert (pt_pc t) V, N) = ?add f ?u (?V0, N)"
    using split d(6) t(2) pos by (simp add: Let_def pike_save_plain pike_fails_plain)
  then have "?add fuel t (V, N) = ?add (Suc f) ?t1 (V1, N1)"
    using f split st1 by (simp add: Let_def)
  then have res: "V' = insert 1 V1" "N' = N @ M @ [?t1]" using add one d(4) M(1) by auto
  have N1: "start_key K s \<le> ?pos" if "s \<in> set N" for s
  proof -
    have "pt_pc s \<in> V" using ok that by (auto simp: list_ok_def)
    then show ?thesis using V ok that sound_key_le[of ops off x s K] by (auto simp: list_ok_def)
  qed
  have key: "start_key K s = ?pos" if "s \<in> set M" for s
    using M(9) that by (metis in_set_replicate image_eqI set_map)
  have "\<not> is_final (ops ! 3)" "\<not> is_final (ops ! pt_pc t)" using d(6) split(1) by simp_all
  then have pcM: "pt_pc ` set M = {p \<in> V1 - V. is_final (ops ! p)}"
    unfolding M(6) by blast
  have pcN: "pt_pc ` set N = {p \<in> V. is_final (ops ! p)}" using ok by (simp add: list_ok_def)
  have sub: "V \<subseteq> V1" "3 \<in> V1" "pt_pc t \<in> V1" using M(2) by auto
  have "closed ops V'"
  proof -
    have "set (eps_targets (ops ! p) p) \<subseteq> V'" if p: "p \<in> V'" for p
    proof -
      consider "p = 1" | "p = 3" | "p = pt_pc t" | "p \<in> V" | "p \<in> V1 - ?V0" using p res(1) by blast
      then show ?thesis
      proof cases
        case 4
        then have "set (eps_targets (ops ! p) p) \<subseteq> V" using ok by (auto simp: list_ok_def closed_def)
        then show ?thesis using sub(1) res(1) by blast
      next
        case 5
        then show ?thesis using M(5) res(1) by blast
      qed (use d(4,6) split(1) sub M(4) res(1) in simp_all)
    qed
    then show ?thesis by (simp add: closed_def)
  qed
  moreover have "pt_pc ` set N' = {p \<in> V'. is_final (ops ! p)}"
    using pcM pcN res sub(1) d(4) by (auto simp: image_Un)
  moreover have "distinct (map pt_pc N')"
  proof -
    have "pt_pc ` set N \<inter> pt_pc ` set M = {}" "1 \<notin> pt_pc ` set N" "1 \<notin> pt_pc ` set M"
      using pcM pcN one sub(1) by auto
    then show ?thesis using res(2) M(7) ok by (auto simp: list_ok_def)
  qed
  moreover have "sorted (map (start_key K) N')"
  proof -
    have "start_key K ?t1 = K" by (simp add: start_key_def)
    moreover have "start_key K s \<le> K" if "s \<in> set N" for s using N1[OF that] K by simp
    ultimately show ?thesis
      using res(2) M(9) ok N1 key K by (auto simp: list_ok_def sorted_append)
  qed
  moreover have "thread_sound ops off x ?t1" using t(2,3) d(2) by (simp add: thread_sound_def)
  then have "\<forall>s \<in> set N'. thread_sound ops off x s" using res(2) M(8) ok by (auto simp: list_ok_def)
  moreover have "V' \<subseteq> {..<length ops}" using res(1) M(3) d(2) by auto
  ultimately show ?thesis using res sub by (auto simp: list_ok_def)
qed

subsection \<open>A round\<close>

text \<open>
  What stepping a list of threads does: the threads in front of the first match make their
  successors, and everything these reach is on the new list for a start no later.
\<close>

definition stepped :: "op list \<Rightarrow> nat \<Rightarrow> uchar \<Rightarrow> pthread list \<Rightarrow> nat list option \<Rightarrow> pthread list \<Rightarrow> pthread list \<Rightarrow> bool" where
  "stepped ops K ch L r N N' \<longleftrightarrow>
     (\<exists>L1 L2. L = L1 @ L2 \<and>
        (L2 = [] \<and> r = None \<or> (\<exists>t L3. L2 = t # L3 \<and> ops ! pt_pc t = OMatch \<and> r = Some (pt_caps t))) \<and>
        (\<forall>t \<in> set L1. ops ! pt_pc t \<noteq> OMatch \<and>
           (\<forall>c p. ops ! pt_pc t = OComp c \<longrightarrow> comp_matches c ch \<longrightarrow> reach ops (Suc (pt_pc t)) [] p \<longrightarrow>
              is_final (ops ! p) \<longrightarrow> (\<exists>u \<in> set N'. pt_pc u = p \<and> start_key K u \<le> start_key K t))) \<and>
        (\<forall>u \<in> set N'. u \<in> set N \<or> (\<exists>t \<in> set L1. start_key K u \<le> start_key K t)))"

lemma stepped_stop: "ops ! pt_pc t = OMatch \<Longrightarrow> stepped ops K ch (t # L) (Some (pt_caps t)) N N"
  unfolding stepped_def by (rule exI[of _ "[]"]) auto

lemma stepped_cons:
  assumes "stepped ops K ch L r N1 N'" "ops ! pt_pc t \<noteq> OMatch"
    and "\<And>c p. ops ! pt_pc t = OComp c \<Longrightarrow> comp_matches c ch \<Longrightarrow> reach ops (Suc (pt_pc t)) [] p \<Longrightarrow>
      is_final (ops ! p) \<Longrightarrow> \<exists>u \<in> set N1. pt_pc u = p \<and> start_key K u \<le> start_key K t"
    and "set N1 \<subseteq> set N'" "\<And>u. u \<in> set N1 \<Longrightarrow> u \<in> set N \<or> start_key K u \<le> start_key K t"
  shows "stepped ops K ch (t # L) r N N'"
proof -
  obtain L1 L2 where L: "L = L1 @ L2"
    "L2 = [] \<and> r = None \<or> (\<exists>t L3. L2 = t # L3 \<and> ops ! pt_pc t = OMatch \<and> r = Some (pt_caps t))"
    "\<forall>t \<in> set L1. ops ! pt_pc t \<noteq> OMatch \<and>
       (\<forall>c p. ops ! pt_pc t = OComp c \<longrightarrow> comp_matches c ch \<longrightarrow> reach ops (Suc (pt_pc t)) [] p \<longrightarrow>
          is_final (ops ! p) \<longrightarrow> (\<exists>u \<in> set N'. pt_pc u = p \<and> start_key K u \<le> start_key K t))"
    "\<forall>u \<in> set N'. u \<in> set N1 \<or> (\<exists>t \<in> set L1. start_key K u \<le> start_key K t)"
    using assms(1) unfolding stepped_def by blast
  show ?thesis
    unfolding stepped_def
  proof (rule exI[of _ "t # L1"], rule exI[of _ L2], intro conjI ballI)
    show "t # L = (t # L1) @ L2" using L(1) by simp
    show "L2 = [] \<and> r = None \<or> (\<exists>t L3. L2 = t # L3 \<and> ops ! pt_pc t = OMatch \<and> r = Some (pt_caps t))" by (rule L(2))
    show "ops ! pt_pc s \<noteq> OMatch" if "s \<in> set (t # L1)" for s using that L(3) assms(2) by auto
    show "\<forall>c p. ops ! pt_pc s = OComp c \<longrightarrow> comp_matches c ch \<longrightarrow> reach ops (Suc (pt_pc s)) [] p \<longrightarrow>
        is_final (ops ! p) \<longrightarrow> (\<exists>u \<in> set N'. pt_pc u = p \<and> start_key K u \<le> start_key K s)" if "s \<in> set (t # L1)" for s
    proof (cases "s = t")
      case True
      then show ?thesis using assms(3,4) by blast
    next
      case False
      then show ?thesis using that L(3) by simp
    qed
    show "u \<in> set N \<or> (\<exists>s \<in> set (t # L1). start_key K u \<le> start_key K s)" if "u \<in> set N'" for u
      using that L(4) assms(5)[of u] by auto
  qed
qed

lemma steps_ok:
  assumes ops: "search_prog ops" and K: "off + blen (x @ [ch]) < K" and sp: "sp = off + blen x"
  shows "sorted (map (start_key K) L) \<Longrightarrow> distinct (map pt_pc L) \<Longrightarrow> \<forall>t \<in> set L. thread_sound ops off x t \<and> is_final (ops ! pt_pc t) \<Longrightarrow>
    list_ok ops off K (x @ [ch]) V N \<Longrightarrow> \<forall>s \<in> set N. \<forall>t \<in> set L. start_key K s \<le> start_key K t \<Longrightarrow>
    L \<noteq> [] \<Longrightarrow> V \<subseteq> {4..} \<Longrightarrow>
    pike_steps (length ops + 1) ops (pike_fails alnum prev ch nxt) sp ch L (V, N) = (r, (V', N')) \<Longrightarrow>
    list_ok ops off K (x @ [ch]) V' N' \<and> set N \<subseteq> set N' \<and> stepped ops K ch L r N N'"
proof (induction L arbitrary: V N)
  case (Cons t L)
  let ?steps = "pike_steps (length ops + 1) ops (pike_fails alnum prev ch nxt) sp ch"
  let ?add = "pike_add (length ops + 1) ops (pike_fails alnum prev ch nxt) sp ch False"
  let ?x = "x @ [ch]"
  have pos: "sp + len_utf8 ch = off + blen ?x" using sp by (simp add: length_encode_utf8)
  have t: "thread_sound ops off x t" "is_final (ops ! pt_pc t)" "pt_assertion t = None" "pt_pc t < length ops"
    "length (pt_caps t) = N_SLOTS"
    using Cons.prems(3) by (auto simp: thread_sound_def)
  have rest: "list_ok ops off K ?x V' N' \<and> set N1 \<subseteq> set N' \<and> stepped ops K ch L r N1 N'"
    if "list_ok ops off K ?x V1 N1" "L = [] \<or> V1 \<subseteq> {4..} \<and> (\<forall>s \<in> set N1. start_key K s \<le> start_key K t)"
      "?steps L (V1, N1) = (r, (V', N'))" for V1 N1
  proof (cases "L = []")
    case True
    then show ?thesis using that by (auto simp: stepped_def)
  next
    case False
    then have "\<forall>s \<in> set N1. \<forall>u \<in> set L. start_key K s \<le> start_key K u"
      using that(2) Cons.prems(1) by fastforce
    then show ?thesis using Cons.IH[OF _ _ _ that(1)] that Cons.prems(1-3) False by simp
  qed
  from is_final_cases[OF t(2)] show ?case
  proof
    assume m: "ops ! pt_pc t = OMatch"
    then show ?thesis using Cons.prems(4,8) stepped_stop[OF m] by simp
  next
    assume "\<exists>c. ops ! pt_pc t = OComp c"
    then obtain c where c: "ops ! pt_pc t = OComp c" by blast
    show ?thesis
    proof (cases "comp_matches c ch")
      case False
      then have "?steps L (V, N) = (r, (V', N'))" using Cons.prems(8) c by simp
      moreover have "\<forall>s \<in> set N. start_key K s \<le> start_key K t" using Cons.prems(5) by simp
      ultimately have "list_ok ops off K ?x V' N' \<and> set N \<subseteq> set N' \<and> stepped ops K ch L r N N'"
        using rest[OF Cons.prems(4)] Cons.prems(7) by blast
      then show ?thesis using stepped_cons[of ops K ch L r N N' t N] c False by auto
    next
      case True
      let ?t = "\<lparr>pt_pc = pt_pc t + 1, pt_assertion = None, pt_caps = pt_caps t\<rparr>"
      obtain V1 N1 where add: "?add ?t (V, N) = (V1, N1)" by fastforce
      then have steps: "?steps L (V1, N1) = (r, (V', N'))"
        using Cons.prems(8) c True t(3) by (simp add: pike_fails_plain del: pike_add.simps)
      have N: "\<forall>s \<in> set N. start_key K s \<le> start_key K t" using Cons.prems(5) by simp
      have V: "V \<subseteq> {..<length ops}" using Cons.prems(4) by (simp add: list_ok_def)
      have "list_ok ops off K ?x V1 N1 \<and> set N \<subseteq> set N1 \<and> Suc (pt_pc t) \<in> V1 \<and>
          (L = [] \<or> V1 \<subseteq> {4..} \<and> (\<forall>s \<in> set N1. start_key K s \<le> start_key K t)) \<and>
          (\<forall>s \<in> set N1. start_key K s \<le> start_key K t)"
      proof (cases "pt_pc t = 1")
        case True
        have "L = []"
        proof (rule ccontr)
          assume "L \<noteq> []"
          then obtain s where s: "s \<in> set L" by (cases L) auto
          then have "K \<le> start_key K s" "pt_pc s \<noteq> 1" "thread_sound ops off x s"
            using Cons.prems(1-3) True by (force simp: start_key_def)+
          then show False using sound_key_le[of ops off x s K] K by simp
        qed
        moreover have "start_key K s \<le> start_key K t" if "list_ok ops off K ?x V1 N1" "s \<in> set N1" for s
          using that sound_key_le[of ops off ?x s K] K True by (cases "pt_pc s = 1") (auto simp: list_ok_def start_key_def)
        moreover have "list_ok ops off K ?x V1 N1 \<and> V \<subseteq> V1 \<and> pt_pc ?t \<in> V1 \<and> set N \<subseteq> set N1"
          by (rule add_prefix[OF ops Cons.prems(4,7) _ _ _ _ K _ add]) (use True t(5) pos in auto)
        ultimately show ?thesis by simp
      next
        case False
        then obtain y u where u: "x = y @ u" "pt_caps t ! 0 = off + blen y" "reach ops 4 u (pt_pc t)" "4 \<le> pt_pc t"
          using t(1) by (auto simp: thread_sound_def)
        let ?a = "off + blen y"
        have reach: "reach ops 4 (u @ [ch]) (Suc (pt_pc t))"
          by (rule reach_trans[OF u(3) reach_comp[OF t(4) c True]])
        have pc: "Suc (pt_pc t) < length ops - 1"
          by (rule search_comp_pc[OF ops t(4) u(4) c])
        have "body_thread ops (off + blen ?x) (Suc (pt_pc t)) ?a ?t"
          using pc u t(5) by (auto simp: body_thread_def)
        then have g: "grown ops (body_thread ops (off + blen ?x) (Suc (pt_pc t)) ?a) ?t (V, N) (V1, N1)"
          unfolding add[symmetric]
          by (intro pike_add_grown) (use body_thread_kept[OF ops] V in \<open>simp_all add: pos del: utf8_simps\<close>)
        have "start_key K t = ?a" using False u(2) by (simp add: start_key_def)
        then show ?thesis
          using add_body[OF Cons.prems(4,7) reach _ refl _ g] N u(1) by simp
      qed
      then have new: "list_ok ops off K ?x V1 N1" "set N \<subseteq> set N1" "Suc (pt_pc t) \<in> V1"
          "L = [] \<or> V1 \<subseteq> {4..} \<and> (\<forall>s \<in> set N1. start_key K s \<le> start_key K t)"
          "\<forall>s \<in> set N1. start_key K s \<le> start_key K t" by blast+
      have "\<exists>u \<in> set N1. pt_pc u = p \<and> start_key K u \<le> start_key K t"
        if "reach ops (Suc (pt_pc t)) [] p" "is_final (ops ! p)" for p
      proof -
        have "p \<in> V1" using reach_closed[OF that(1)] new(1,3) by (simp add: list_ok_def)
        then have "p \<in> pt_pc ` set N1" using new(1) that(2) by (simp add: list_ok_def)
        then show ?thesis using new(5) by blast
      qed
      then show ?thesis
        using rest[OF new(1,4) steps] new(2,5) stepped_cons[of ops K ch L r N1 N' t N] c by auto
    qed
  qed
qed simp

lemma reach_prefix:
  assumes ops: "search_prog ops"
  shows "reach ops 2 [] 1" "reach ops 2 [] 4"
proof -
  note d = search_prog_dest[OF ops]
  show "reach ops 2 [] 1" using reach_eps[of 2 ops 1] d(2,5) by simp
  have "reach ops 2 [] 3" "reach ops 3 [] 4" using reach_eps[of 2 ops 3] reach_eps[of 3 ops 4] d(2,5,6) by simp_all
  then show "reach ops 2 [] 4" using reach_trans by fastforce
qed

lemma reach_body:
  assumes ops: "search_prog ops" and "reach ops 4 w q"
  shows "4 \<le> q"
proof -
  have "4 \<le> q" if "path ops k p w q" "4 \<le> p" for k p
    using that
  proof (induction rule: path.induct)
    case (path_eps pc op q k w r)
    have pc: "pc < length ops" "ops ! pc = op" using path_eps.hyps(1) by (simp_all add: nth_opt_def split: if_splits)
    have "4 \<le> q"
      by (rule search_pc_cases[OF ops pc(1)]; use pc path_eps in \<open>cases op\<close>; auto simp: body_op_def)
    then show ?case using path_eps.IH by blast
  qed auto
  then show ?thesis using assms(2) unfolding reach_def by blast
qed

text \<open>The unique thread at the end of the program.\<close>

lemma match_thread:
  assumes ops: "search_prog ops" and ok: "list_ok ops off K x V L" and t: "t \<in> set L" "ops ! pt_pc t = OMatch"
  obtains y u where "x = y @ u" "reach ops 4 u (length ops - 1)" "pt_caps t ! 0 = off + blen y"
    "pt_caps t ! 1 = off + blen x" "start_key K t = off + blen y"
    "\<And>s. s \<in> set L \<Longrightarrow> pt_pc s = length ops - 1 \<Longrightarrow> s = t"
proof -
  have s: "thread_sound ops off x t" "distinct (map pt_pc L)" using ok t(1) by (auto simp: list_ok_def)
  then have pc: "pt_pc t = length ops - 1" using search_match_pc[OF ops, of "pt_pc t"] t(2) by (simp add: thread_sound_def)
  then have "pt_pc t \<noteq> 1" using search_prog_dest(2)[OF ops] by simp
  then obtain y u where "x = y @ u" "pt_caps t ! 0 = off + blen y" "reach ops 4 u (pt_pc t)" "pt_caps t ! 1 = off + blen x"
    using s(1) pc by (auto simp: thread_sound_def)
  moreover have "s = t" if "s \<in> set L" "pt_pc s = length ops - 1" for s
    using that t(1) pc s(2) by (metis distinct_map inj_onD)
  ultimately show ?thesis using that pc \<open>pt_pc t \<noteq> 1\<close> by (auto simp: start_key_def)
qed

lemma search_inv_dest:
  assumes "search_inv ops off K x L matched"
  obtains V where "list_ok ops off K x V L"
    "\<And>y u p. x = y @ u \<Longrightarrow> reach ops 4 u p \<Longrightarrow> p < length ops \<Longrightarrow> is_final (ops ! p) \<Longrightarrow>
        (\<exists>t \<in> set L. pt_pc t = p \<and> start_key K t \<le> off + blen y) \<or> (\<exists>m. matched = Some m \<and> m ! 0 \<le> off + blen y)"
    "matched = None \<Longrightarrow> 1 \<in> pt_pc ` set L"
    "\<And>m. matched = Some m \<Longrightarrow> found ops off x m"
    "\<And>m t. matched = Some m \<Longrightarrow> t \<in> set L \<Longrightarrow> start_key K t \<le> m ! 0"
    "\<And>y u z. x = y @ u @ z \<Longrightarrow> z \<noteq> [] \<Longrightarrow> reach ops 4 u (length ops - 1) \<Longrightarrow>
        \<exists>m. matched = Some m \<and> m ! 0 \<le> off + blen y"
proof -
  from assms obtain V where V: "list_ok ops off K x V L" unfolding search_inv_def by (elim conjE exE)
  note c = assms[unfolded search_inv_def, THEN conjunct2]
  show ?thesis
    by (rule that[OF V c[THEN conjunct1, rule_format] c[THEN conjunct2, THEN conjunct1, rule_format]
        c[THEN conjunct2, THEN conjunct2, THEN conjunct1, rule_format, THEN conjunct1]
        c[THEN conjunct2, THEN conjunct2, THEN conjunct1, rule_format, THEN conjunct2, rule_format]
        c[THEN conjunct2, THEN conjunct2, THEN conjunct2, rule_format]])
qed

lemma round_inv:
  assumes ops: "search_prog ops" and K: "off + blen (x @ [ch]) < K"
    and inv: "search_inv ops off K x L matched"
    and steps: "pike_steps (length ops + 1) ops (pike_fails alnum prev ch nxt) (off + blen x) ch L ({}, []) = (r, (V', N'))"
  shows "search_inv ops off K (x @ [ch]) N' (if r \<noteq> None then r else matched)"
proof -
  let ?x = "x @ [ch]" and ?m = "if r \<noteq> None then r else matched"
  obtain V where i: "list_ok ops off K x V L"
    "\<And>y u p. x = y @ u \<Longrightarrow> reach ops 4 u p \<Longrightarrow> p < length ops \<Longrightarrow> is_final (ops ! p) \<Longrightarrow>
        (\<exists>t \<in> set L. pt_pc t = p \<and> start_key K t \<le> off + blen y) \<or> (\<exists>m. matched = Some m \<and> m ! 0 \<le> off + blen y)"
    "matched = None \<Longrightarrow> 1 \<in> pt_pc ` set L"
    "\<And>m. matched = Some m \<Longrightarrow> found ops off x m"
    "\<And>m t. matched = Some m \<Longrightarrow> t \<in> set L \<Longrightarrow> start_key K t \<le> m ! 0"
    "\<And>y u z. x = y @ u @ z \<Longrightarrow> z \<noteq> [] \<Longrightarrow> reach ops 4 u (length ops - 1) \<Longrightarrow>
        \<exists>m. matched = Some m \<and> m ! 0 \<le> off + blen y"
    by (rule search_inv_dest[OF inv]) (rule that)
  have L: "sorted (map (start_key K) L)" "distinct (map pt_pc L)" "\<forall>t \<in> set L. thread_sound ops off x t \<and> is_final (ops ! pt_pc t)"
    using i(1) by (auto simp: list_ok_def)
  have empty: "list_ok ops off K ?x {} []" by (simp add: list_ok_def closed_def)
  have "list_ok ops off K ?x V' N' \<and> stepped ops K ch L r [] N'"
  proof (cases "L = []")
    case True
    then show ?thesis using steps empty by (auto simp: stepped_def)
  next
    case False
    then show ?thesis using steps_ok[OF ops K refl L empty _ False _ steps] by simp
  qed
  then obtain L1 L2 where ok: "list_ok ops off K ?x V' N'" and s: "L = L1 @ L2"
    "L2 = [] \<and> r = None \<or> (\<exists>t L3. L2 = t # L3 \<and> ops ! pt_pc t = OMatch \<and> r = Some (pt_caps t))"
    "\<And>t. t \<in> set L1 \<Longrightarrow> ops ! pt_pc t \<noteq> OMatch"
    "\<And>t c p. t \<in> set L1 \<Longrightarrow> ops ! pt_pc t = OComp c \<Longrightarrow> comp_matches c ch \<Longrightarrow> reach ops (Suc (pt_pc t)) [] p \<Longrightarrow>
       is_final (ops ! p) \<Longrightarrow> \<exists>u \<in> set N'. pt_pc u = p \<and> start_key K u \<le> start_key K t"
    "\<And>u. u \<in> set N' \<Longrightarrow> \<exists>t \<in> set L1. start_key K u \<le> start_key K t"
    unfolding stepped_def by force
  have hit: "\<exists>t. t \<in> set L \<and> ops ! pt_pc t = OMatch \<and> c = pt_caps t \<and> (\<forall>s \<in> set L1. start_key K s \<le> start_key K t)"
    if r: "r = Some c" for c
  proof -
    obtain t L3 where "L2 = t # L3" "ops ! pt_pc t = OMatch" "c = pt_caps t" using s(2) r by auto
    then show ?thesis using s(1) L(1) by (intro exI[of _ t]) (auto simp: sorted_append)
  qed
  have better: "\<exists>m'. ?m = Some m' \<and> m' ! 0 \<le> a" if m: "matched = Some m" "m ! 0 \<le> a" for m a
  proof (cases r)
    case (Some c)
    then obtain t where t: "t \<in> set L" "ops ! pt_pc t = OMatch" "c = pt_caps t" using hit by blast
    obtain y where "start_key K t = off + blen y" "pt_caps t ! 0 = off + blen y"
      by (rule match_thread[OF ops i(1) t(1,2)])
    then show ?thesis using i(5)[OF m(1) t(1)] m(2) Some t(3) by simp
  qed (use m in simp)
  have dropped: "(\<exists>t \<in> set L1. P t) \<or> (\<exists>m. ?m = Some m \<and> m ! 0 \<le> a)"
    if t: "t \<in> set L" "P t" "start_key K t \<le> a" for P t a
  proof (cases "t \<in> set L1")
    case False
    then have "t \<in> set L2" using t(1) s(1) by simp
    then obtain tm L3 where tm: "L2 = tm # L3" "ops ! pt_pc tm = OMatch" "r = Some (pt_caps tm)" "start_key K tm \<le> start_key K t"
      using s(1,2) L(1) by (auto simp: sorted_append)
    have "tm \<in> set L" using tm(1) s(1) by simp
    then obtain y where "start_key K tm = off + blen y" "pt_caps tm ! 0 = off + blen y"
      by (rule match_thread[OF ops i(1) _ tm(2)])
    then show ?thesis using tm(3,4) t(3) by auto
  qed (use t in blast)
  have found: "found ops off ?x m" if m: "?m = Some m" for m
  proof (cases r)
    case None
    then obtain y u z where "x = y @ u @ z" "m ! 0 = off + blen y" "m ! 1 = off + blen (y @ u)" "reach ops 4 u (length ops - 1)"
      using i(4) m unfolding found_def by auto
    then show ?thesis unfolding found_def by (intro exI[of _ y] exI[of _ u] exI[of _ "z @ [ch]"]) simp
  next
    case (Some c)
    then obtain t where t: "t \<in> set L" "ops ! pt_pc t = OMatch" "c = pt_caps t" using hit by blast
    obtain y u where "x = y @ u" "reach ops 4 u (length ops - 1)" "pt_caps t ! 0 = off + blen y" "pt_caps t ! 1 = off + blen x"
      by (rule match_thread[OF ops i(1) t(1,2)])
    then show ?thesis using m Some t(3) unfolding found_def by (intro exI[of _ y] exI[of _ u] exI[of _ "[ch]"]) simp
  qed
  show ?thesis
    unfolding search_inv_def
  proof (intro conjI allI impI)
    show "\<exists>V. list_ok ops off K ?x V N'" using ok by blast
  next
    fix y u p
    assume u: "?x = y @ u" "reach ops 4 u p" "p < length ops" "is_final (ops ! p)"
    show "(\<exists>t \<in> set N'. pt_pc t = p \<and> start_key K t \<le> off + blen y) \<or> (\<exists>m. ?m = Some m \<and> m ! 0 \<le> off + blen y)"
    proof (cases u rule: rev_cases)
      case Nil
      show ?thesis
      proof (cases ?m)
        case (Some m)
        then have "m ! 0 \<le> off + blen y" using found[of m] u(1) Nil by (auto simp: found_def)
        then show ?thesis using Some by blast
      next
        case None
        then have "r = None" "matched = None" by (auto split: if_splits)
        then obtain t where t: "t \<in> set L1" "pt_pc t = 1" using i(3) s(1,2) by auto
        have "reach ops 2 [] p" using reach_trans[OF reach_prefix(2)[OF ops] u(2)] Nil by simp
        then obtain v where v: "v \<in> set N'" "pt_pc v = p"
          using s(4)[OF t(1), of CTrueAny p] t(2) u(4) search_prog_dest(4)[OF ops] by (auto simp: numeral_2_eq_2)
        have "p \<noteq> 1" using reach_body[OF ops u(2)] by simp
        then have "start_key K v \<le> off + blen y"
          using sound_key_le[of ops off ?x v K] ok v u(1) Nil by (auto simp: list_ok_def)
        then show ?thesis using v by blast
      qed
    next
      case (snoc u' d)
      then have x: "x = y @ u'" "d = ch" using u(1) by auto
      obtain q c where q: "reach ops 4 u' q" "q < length ops" "ops ! q = OComp c" "comp_matches c ch" "reach ops (Suc q) [] p"
        using reach_snoc[of ops 4 u' ch p] u(2) snoc x(2) by blast
      have "is_final (ops ! q)" using q(3) by simp
      from i(2)[OF x(1) q(1,2) this] show ?thesis
      proof
        assume "\<exists>t \<in> set L. pt_pc t = q \<and> start_key K t \<le> off + blen y"
        then have "(\<exists>t \<in> set L1. pt_pc t = q \<and> start_key K t \<le> off + blen y) \<or> (\<exists>m. ?m = Some m \<and> m ! 0 \<le> off + blen y)"
          using dropped[of _ "\<lambda>t. pt_pc t = q \<and> start_key K t \<le> off + blen y" "off + blen y"] by blast
        then show ?thesis
        proof
          assume "\<exists>t \<in> set L1. pt_pc t = q \<and> start_key K t \<le> off + blen y"
          then obtain t where t: "t \<in> set L1" "pt_pc t = q" "start_key K t \<le> off + blen y" by blast
          then show ?thesis using s(4)[OF t(1), of c p] q(3-5) u(4) by force
        qed blast
      next
        assume "\<exists>m. matched = Some m \<and> m ! 0 \<le> off + blen y"
        then show ?thesis using better by blast
      qed
    qed
  next
    assume "?m = None"
    then have "r = None" "matched = None" by (auto split: if_splits)
    then obtain t where t: "t \<in> set L1" "pt_pc t = 1" using i(3) s(1,2) by auto
    then show "1 \<in> pt_pc ` set N'"
      using s(4)[OF t(1), of CTrueAny 1] t(2) search_prog_dest(4)[OF ops] reach_prefix(1)[OF ops]
      by (force simp: numeral_2_eq_2)
  next
    fix m assume "?m = Some m"
    then show "found ops off ?x m" by (rule found)
  next
    fix m assume m: "?m = Some m"
    show "\<forall>t \<in> set N'. start_key K t \<le> m ! 0"
    proof
      fix v assume "v \<in> set N'"
      then obtain t where t: "t \<in> set L1" "start_key K v \<le> start_key K t" using s(5) by blast
      show "start_key K v \<le> m ! 0"
      proof (cases r)
        case None
        then show ?thesis using i(5)[of m t] m t s(1) by simp
      next
        case (Some c)
        then obtain tm where tm: "tm \<in> set L" "ops ! pt_pc tm = OMatch" "c = pt_caps tm" "start_key K t \<le> start_key K tm"
          using hit t(1) by blast
        obtain y where "start_key K tm = off + blen y" "pt_caps tm ! 0 = off + blen y"
          by (rule match_thread[OF ops i(1) tm(1,2)])
        then show ?thesis using t(2) tm(3,4) m Some by simp
      qed
    qed
  next
    fix y u z
    assume yuz: "?x = y @ u @ z" "z \<noteq> []" "reach ops 4 u (length ops - 1)"
    then obtain z' where z': "z = z' @ [ch]" "x = y @ u @ z'" by (metis append_assoc append_butlast_last_id butlast_append butlast_snoc last_appendR last_snoc)
    show "\<exists>m. ?m = Some m \<and> m ! 0 \<le> off + blen y"
    proof (cases "z' = []")
      case False
      then show ?thesis using i(6)[OF z'(2) False yuz(3)] better by blast
    next
      case True
      have fin: "length ops - 1 < length ops" "is_final (ops ! (length ops - 1))"
        using search_prog_last[OF ops] search_prog_dest(2)[OF ops] by auto
      have "x = y @ u" using z' True by simp
      from i(2)[OF this yuz(3) fin] show ?thesis
      proof
        assume "\<exists>t \<in> set L. pt_pc t = length ops - 1 \<and> start_key K t \<le> off + blen y"
        then show ?thesis
          using dropped[of _ "\<lambda>t. ops ! pt_pc t = OMatch" "off + blen y"] s(3) search_prog_last[OF ops] by metis
      next
        assume "\<exists>m. matched = Some m \<and> m ! 0 \<le> off + blen y"
        then show ?thesis using better by blast
      qed
    qed
  qed
qed

end
