(* ===== verification/RegexFind.thy ===== *)
theory RegexFind
  imports RegexLeftmost GapBuffer
begin

text \<open>
  The whole search: over the characters of a string with their offsets, a run by value finds the
  first string that the program accepts, and compiled and optimised programs are of the shape
  that this needs.
\<close>

subsection \<open>The run over a string\<close>

lemma reach_start: "search_prog ops \<Longrightarrow> reach ops 0 [] 1 \<and> reach ops 0 [] 4"
proof -
  assume ops: "search_prog ops"
  note d = search_prog_dest[OF ops]
  have "0 < length ops" using d(2) by linarith
  then have "reach ops 0 [] 1" "reach ops 0 [] 3" "reach ops 3 [] 4"
    using reach_eps[of 0 ops 1] reach_eps[of 0 ops 3] reach_eps[of 3 ops 4] d(2,3,6) by simp_all
  then show ?thesis using reach_trans by fastforce
qed

lemma start_inv:
  assumes ops: "search_prog ops" and K: "off < K"
  shows "search_inv ops off K [] (pike_start alnum ops off) None"
proof -
  let ?t = "\<lparr>pt_pc = 0, pt_assertion = None, pt_caps = replicate N_SLOTS 0\<rparr>"
  obtain V N where add: "pike_add (length ops + 1) ops (pike_fails alnum None 0 None) off 0 True ?t ({}, []) = (V, N)"
    by fastforce
  have N: "pike_start alnum ops off = N" by (simp only: pike_start_def add snd_conv)
  have "list_ok ops off K [] V N \<and> {} \<subseteq> V \<and> pt_pc ?t \<in> V \<and> set [] \<subseteq> set N"
    by (rule add_prefix[OF ops _ _ _ _ _ _ _ _ add]) (use K in \<open>simp_all add: list_ok_def closed_def\<close>)
  then have ok: "list_ok ops off K [] V N" "0 \<in> V" by simp_all
  have V: "q \<in> V" if "reach ops 0 [] q" for q
    using reach_closed[OF that _ ok(2)] ok(1) by (simp add: list_ok_def)
  have "1 \<in> V" using V reach_start[OF ops] by blast
  moreover have "is_final (ops ! 1)" using search_prog_dest(4)[OF ops] by simp
  ultimately have one: "1 \<in> pt_pc ` set N" using ok(1) by (simp add: list_ok_def)
  have "\<exists>t \<in> set N. pt_pc t = p \<and> start_key K t \<le> off" if p: "reach ops 4 [] p" "is_final (ops ! p)" for p
  proof -
    have "p \<in> V" using V reach_trans[OF _ p(1), of 0 "[]"] reach_start[OF ops] by simp
    then obtain t where t: "t \<in> set N" "pt_pc t = p" using ok(1) p(2) by (force simp: list_ok_def)
    then show ?thesis
      using reach_body[OF ops p(1)] sound_key_le[of ops off "[]" t K] ok(1) by (auto simp: list_ok_def)
  qed
  then show ?thesis using ok(1) one by (auto simp: search_inv_def N)
qed

lemma pike_loop_Nil: "pike_loop alnum ops input prev [] matched = ([], matched)"
  by (cases input) (auto simp: Let_def)

lemma loop_inv:
  assumes ops: "search_prog ops"
  shows "search_inv ops off K x L matched \<Longrightarrow> off + blen (x @ s) < K \<Longrightarrow>
    pike_loop alnum ops (char_indices_from (off + blen x) s) prev L matched = (L', m) \<Longrightarrow>
    search_inv ops off K (x @ s) L' m"
proof (induction s arbitrary: x L matched prev)
  case (Cons ch s)
  let ?nxt = "case char_indices_from (off + blen x + len_utf8 ch) s of [] \<Rightarrow> None | (_, c) # _ \<Rightarrow> Some c"
  obtain r V N where steps: "pike_steps (length ops + 1) ops (pike_fails alnum prev ch ?nxt) (off + blen x) ch L ({}, []) = (r, (V, N))"
    by (metis surj_pair)
  let ?m = "if r \<noteq> None then r else matched"
  have K: "off + blen (x @ [ch]) < K" using Cons.prems(2) by simp
  have inv: "search_inv ops off K (x @ [ch]) N ?m"
    by (rule round_inv[OF ops K Cons.prems(1) steps])
  have "pike_loop alnum ops (char_indices_from (off + blen (x @ [ch])) s) (Some ch) N ?m = (L', m)"
  proof (cases "N = []")
    case True
    then show ?thesis using Cons.prems(3) steps by (simp add: pike_loop_Nil Let_def del: not_None_eq)
  next
    case False
    then show ?thesis using Cons.prems(3) steps by (simp add: Let_def add.assoc del: not_None_eq)
  qed
  then show ?case using Cons.IH[OF inv] Cons.prems(2) by simp
qed simp

lemma prefix_length_le: "s = y @ z \<Longrightarrow> s = y' @ z' \<Longrightarrow> blen y \<le> blen y' \<Longrightarrow> length y \<le> length y'"
proof (rule ccontr)
  assume s: "s = y @ z" "s = y' @ z'" "blen y \<le> blen y'" and "\<not> length y \<le> length y'"
  then obtain d where "y = y' @ d" "d \<noteq> []" by (auto simp: append_eq_append_conv2)
  then show False using s(3) by simp
qed

theorem pike_run_ok:
  assumes ops: "search_prog ops"
  shows "case pike_run alnum ops (char_indices_from off s) off of
    None \<Rightarrow> \<nexists>y u z. s = y @ u @ z \<and> reach ops 4 u (length ops - 1)
  | Some c \<Rightarrow> \<exists>y u z. s = y @ u @ z \<and> reach ops 4 u (length ops - 1) \<and> c ! 0 = off + blen y \<and> c ! 1 = off + blen (y @ u) \<and>
      (\<forall>y' u' z'. s = y' @ u' @ z' \<longrightarrow> reach ops 4 u' (length ops - 1) \<longrightarrow> length y \<le> length y')"
proof -
  let ?K = "Suc (off + blen s)" and ?n = "length ops - 1"
  obtain L m where loop: "pike_loop alnum ops (char_indices_from off s) None (pike_start alnum ops off) None = (L, m)"
    by fastforce
  have run: "pike_run alnum ops (char_indices_from off s) off = pike_final ops L m" by (simp add: pike_run_def loop)
  have start: "search_inv ops off ?K [] (pike_start alnum ops off) None" by (rule start_inv[OF ops]) simp
  have "search_inv ops off ?K ([] @ s) L m" by (rule loop_inv[OF ops start]) (use loop in simp_all)
  then have inv: "search_inv ops off ?K s L m" by simp
  obtain V where i: "list_ok ops off ?K s V L"
    "\<And>y u p. s = y @ u \<Longrightarrow> reach ops 4 u p \<Longrightarrow> p < length ops \<Longrightarrow> is_final (ops ! p) \<Longrightarrow>
        (\<exists>t \<in> set L. pt_pc t = p \<and> start_key ?K t \<le> off + blen y) \<or> (\<exists>c. m = Some c \<and> c ! 0 \<le> off + blen y)"
    "m = None \<Longrightarrow> 1 \<in> pt_pc ` set L"
    "\<And>c. m = Some c \<Longrightarrow> found ops off s c"
    "\<And>c t. m = Some c \<Longrightarrow> t \<in> set L \<Longrightarrow> start_key ?K t \<le> c ! 0"
    "\<And>y u z. s = y @ u @ z \<Longrightarrow> z \<noteq> [] \<Longrightarrow> reach ops 4 u (length ops - 1) \<Longrightarrow>
        \<exists>c. m = Some c \<and> c ! 0 \<le> off + blen y"
    by (rule search_inv_dest[OF inv]) (rule that)
  have fin: "?n < length ops" "is_final (ops ! ?n)"
    using search_prog_last[OF ops] search_prog_dest(2)[OF ops] by auto
  have hits: "(\<exists>t \<in> set L. pt_pc t = ?n \<and> start_key ?K t \<le> off + blen y) \<or> (\<exists>c. m = Some c \<and> c ! 0 \<le> off + blen y)"
    if "s = y @ u @ z" "reach ops 4 u ?n" for y u z
    using i(2)[of y u ?n, OF _ that(2) fin] i(6)[OF that(1) _ that(2)] that(1) by (cases "z = []") auto
  have pcs: "pt_pc t = ?n \<longleftrightarrow> ops ! pt_pc t = OMatch" if "t \<in> set L" for t
    using i(1) that search_match_pc[OF ops] by (auto simp: list_ok_def thread_sound_def)
  have final: "pike_final ops L m =
      (case find (\<lambda>t. ops ! pt_pc t = OMatch) L of Some t \<Rightarrow> Some (pt_caps t) | None \<Rightarrow> m)"
  proof -
    have le: "(case m of None \<Rightarrow> 0 | Some m \<Rightarrow> m ! 1) \<le> pt_caps t ! 1" if t: "t \<in> set L" "ops ! pt_pc t = OMatch" for t
    proof -
      obtain y u where "pt_caps t ! 1 = off + blen s" by (rule match_thread[OF ops i(1) t])
      then show ?thesis using i(4) by (cases m) (auto simp: found_def)
    qed
    have "pike_final ops L' m = (case find (\<lambda>t. ops ! pt_pc t = OMatch) L' of Some t \<Rightarrow> Some (pt_caps t) | None \<Rightarrow> m)"
      if "set L' \<subseteq> set L" for L'
      using that le by (induction L') auto
    then show ?thesis by simp
  qed
  show ?thesis
  proof (cases "find (\<lambda>t. ops ! pt_pc t = OMatch) L")
    case (Some t)
    then have t: "t \<in> set L" "ops ! pt_pc t = OMatch" by (auto simp: find_Some_iff)
    obtain y u where u: "s = y @ u" "reach ops 4 u ?n" "pt_caps t ! 0 = off + blen y"
      "pt_caps t ! 1 = off + blen s" "start_key ?K t = off + blen y"
      "\<And>v. v \<in> set L \<Longrightarrow> pt_pc v = ?n \<Longrightarrow> v = t"
      by (rule match_thread[OF ops i(1) t]) (rule that)
    have "length y \<le> length y'" if y': "s = y' @ u' @ z'" "reach ops 4 u' ?n" for y' u' z'
    proof (rule prefix_length_le[OF u(1) y'(1)])
      show "blen y \<le> blen y'"
        using hits[OF y'] u(5,6) i(5)[OF _ t(1)] by force
    qed
    then show ?thesis
      using run final Some u by (simp, intro exI[of _ y] exI[of _ u]) auto
  next
    case None
    then have no: "\<not> (\<exists>t \<in> set L. pt_pc t = ?n \<and> start_key ?K t \<le> a)" for a
      using pcs by (auto simp: find_None_iff)
    show ?thesis
    proof (cases m)
      case None
      then show ?thesis using run final \<open>find _ L = None\<close> hits no by force
    next
      case (Some c)
      obtain y u z where u: "s = y @ u @ z" "c ! 0 = off + blen y" "c ! 1 = off + blen (y @ u)" "reach ops 4 u ?n"
        using i(4)[OF Some] by (auto simp: found_def)
      have "length y \<le> length y'" if y': "s = y' @ u' @ z'" "reach ops 4 u' ?n" for y' u' z'
        using prefix_length_le[OF u(1) y'(1)] hits[OF y'] no Some u(2) by auto
      then show ?thesis using run final \<open>find _ L = None\<close> Some u by (simp, blast)
    qed
  qed
qed

end
