(* ===== verification/RegexCompiled.thy ===== *)
theory RegexCompiled
  imports RegexFind
begin

text \<open>
  Compiled programs are of the shape that the search needs: compilation makes it, inlining keeps
  it, and so does the removal of instructions when there are none to remove. What they accept
  behind their prefix is what the syntax tree matches.
\<close>

subsection \<open>Compilation\<close>

definition forward_op :: "op \<Rightarrow> bool" where
  "forward_op op \<longleftrightarrow> plain_op op \<and> (\<forall>s. op = OSave s \<longrightarrow> 2 \<le> s)"

lemma forward_op_simps [simp]:
  "forward_op (OComp c)" "forward_op (OSplit l1 l2)" "forward_op (OJump j)" "forward_op OMatch"
  "forward_op (OSave s) \<longleftrightarrow> 2 \<le> s" "\<not> forward_op (OAssertion a)" "\<not> forward_op (ORSave s)"
  by (auto simp: forward_op_def plain_op_def)

lemma saves_push_pos: "kind \<noteq> NonCapturing \<Longrightarrow> 1 \<le> sm_n (saves_push kind s)"
  by (cases kind) (auto simp: saves_push_def)

lemma into_ops_forward:
  "into_ops False a off s = Some (ops, s') \<Longrightarrow> no_assertions a \<Longrightarrow> list_all forward_op ops"
  "alt_ops False end_pc nodes off s = Some (ops, s') \<Longrightarrow> list_all no_assertions nodes \<Longrightarrow> list_all forward_op ops"
  "concat_ops False nodes off s = Some (ops, s') \<Longrightarrow> list_all no_assertions nodes \<Longrightarrow> list_all forward_op ops"
proof (induction a and nodes and nodes arbitrary: off s ops s' and end_pc off s ops s' and off s ops s'
    rule: ast_list_induct)
  case (rep r n)
  then show ?case by (cases r) (fastforce simp: bind_eq_Some_conv Let_def)+
next
  case (sub k n)
  then show ?case using saves_push_pos[of k s] by (fastforce split: if_splits)
qed (fastforce simp: bind_eq_Some_conv)+

lemma compile_search_prog:
  assumes co: "compile_ast a False = Some co" and a: "no_assertions a"
  shows "search_prog (co_ops co)"
proof -
  obtain ops s' where ops: "into_ops False a 4 \<lparr>sm_n = 0, sm_names = []\<rparr> = Some (ops, s')"
    "co_ops co = compile_prefix False @ ops @ [OSave 1, OMatch]" "code_at (co_ops co) 4 ops"
    by (rule compile_ast_shape[OF co]) auto
  let ?p = "co_ops co"
  have len: "length ?p = length ops + 6" by (simp add: ops(2) compile_prefix_def)
  have nth: "?p ! (i + 4) = (ops @ [OSave 1, OMatch]) ! i" for i
    by (simp add: ops(2) compile_prefix_def)
  have "body_op ?p (?p ! i)" if i: "4 \<le> i" "i < length ?p - 2" for i
  proof -
    obtain j where "i = 4 + j" using le_Suc_ex[OF i(1)] by blast
    then have j: "i = j + 4" "j < length ops" using i(2) len by simp_all
    then have "ops ! j = ?p ! i" using nth[of j] by (simp add: nth_append)
    moreover have "op_ok ?p 4 (4 + length ops) (4 + j) (ops ! j)"
      using code_all_nth[OF into_ops_ok(1)[OF ops(1,3)], of j] j(2) by (simp add: nth_opt_def)
    moreover have "forward_op (ops ! j)"
      using into_ops_forward(1)[OF ops(1) a] j(2) by (simp add: list_all_length)
    ultimately show ?thesis using len by (auto simp: body_op_def op_ok_def forward_op_def)
  qed
  moreover have "?p ! 0 = OSplit 3 1" "?p ! 1 = OComp CTrueAny" "?p ! 2 = OSplit 3 1" "?p ! 3 = OSave 0"
    by (simp_all add: ops(2) compile_prefix_def)
  moreover have "?p ! (length ?p - 2) = OSave 1" using nth[of "length ops"] len by (simp add: add.commute)
  ultimately show ?thesis using compile_prog_ok(1)[OF co] len by (simp add: search_prog_def)
qed

subsection \<open>Optimisation\<close>

lemma inlined_body:
  assumes ops: "search_prog ops" and inl: "inlined ops i op"
  shows "4 \<le> i \<and> i < length ops - 2 \<and> body_op ops op"
proof -
  note d = search_prog_dest[OF ops]
  have body: "4 \<le> i \<and> i < length ops - 2 \<and> body_op ops (ops ! i)"
  proof -
    have i: "i < length ops" using inl by cases (auto dest: nth_opt_SomeD)
    have op: "(\<exists>j. ops ! i = OJump j) \<or> (\<exists>s1 s2. ops ! i = OSplit s1 s2)"
      using inl by cases (auto simp: nth_opt_def split: if_splits)
    from ops i show ?thesis
    proof (rule search_pc_cases)
      assume "i < 4"
      then consider "i = 0" | "i = 1" | "i = 2" | "i = 3" by linarith
      then have "ops ! i = OSplit 3 1" using op d(3-6) by cases simp_all
      then have at: "nth_opt ops i = Some (OSplit 3 1)" "nth_opt ops 3 = Some (OSave 0)" "nth_opt ops 1 = Some (OComp CTrueAny)"
        using i d(2,4,6) by (simp_all add: nth_opt_def)
      from inl have False by cases (use at in auto)
      then show ?thesis ..
    qed (use op in auto)
  qed
  have target: "4 \<le> t \<and> t \<le> length ops - 2" if "t \<in> set (op_targets (ops ! i))" for t
    using body that by (auto simp: body_op_def)
  have target_op: "body_op ops op'" if "nth_opt ops t = Some op'" "t \<in> set (op_targets (ops ! i))" "\<forall>s. op' \<noteq> OSave s" for t op'
  proof -
    have op': "op' = ops ! t" using that(1) by (simp add: nth_opt_def split: if_splits)
    then have "t \<noteq> length ops - 2" using d(7) that(3) by metis
    then show ?thesis using target[OF that(2)] d(8)[of t] op' by simp
  qed
  have jt: "4 \<le> jump_target op' t \<and> jump_target op' t \<le> length ops - 2"
    if "nth_opt ops t = Some op'" "t \<in> set (op_targets (ops ! i))" for t op'
    using target[OF that(2)] target_op[OF that] by (cases op') (auto simp: body_op_def)
  from inl have "body_op ops op"
  proof cases
    case (jump_jump j l)
    then show ?thesis using target_op[of j "OJump l"] by (simp add: nth_opt_def split: if_splits)
  next
    case (jump_split j l1 l2)
    then show ?thesis using target_op[of j "OSplit l1 l2"] by (simp add: nth_opt_def split: if_splits)
  next
    case (jump_match j)
    then show ?thesis using target_op[of j OMatch] by (simp add: nth_opt_def body_op_def split: if_splits)
  next
    case (split_match s1 s2)
    then show ?thesis using target_op[of s1 OMatch] by (simp add: nth_opt_def body_op_def split: if_splits)
  next
    case (split_jump s1 s2 op1 op2)
    then have "s1 \<in> set (op_targets (ops ! i))" "s2 \<in> set (op_targets (ops ! i))"
      by (auto simp: nth_opt_def split: if_splits)
    then show ?thesis using split_jump jt by (simp add: body_op_def plain_op_def)
  qed
  then show ?thesis using body by blast
qed

lemma inlined_search_prog:
  assumes ops: "search_prog ops" and inl: "inlined ops i op"
  shows "search_prog (ops[i := op])"
proof -
  note b = inlined_body[OF assms]
  have "body_op (ops[i := op]) o' = body_op ops o'" for o' by (simp add: body_op_def)
  then show ?thesis
    using ops b inlined_prog_ok[OF search_prog_dest(1)[OF ops] inl]
    by (auto simp: search_prog_def nth_list_update)
qed

lemma inline_pass_search_prog:
  "inline_pass is ops b = Some (ops', b') \<Longrightarrow> search_prog ops \<Longrightarrow> search_prog ops'"
proof (induction "is" arbitrary: ops b)
  case (Cons i "is")
  then obtain ops1 c where step: "inline_jumps ops i = Some (ops1, c)" "inline_pass is ops1 (b \<or> c) = Some (ops', b')"
    by (auto simp: bind_eq_Some_conv)
  have "search_prog ops1"
    using inline_jumps_inlined[OF step(1)] inlined_search_prog[OF Cons.prems(2)] Cons.prems(2) by (auto split: if_splits)
  then show ?case using Cons.IH[OF step(2)] by simp
qed simp

lemma inline_loop_search_prog: "inline_loop ops = Some ops' \<Longrightarrow> search_prog ops \<Longrightarrow> search_prog ops'"
proof -
  have "search_prog ops \<longrightarrow> search_prog ops'" if "inline_loop ops = Some ops'" for ops ops'
    by (rule inline_loop.raw_induct[OF _ that, of "\<lambda>x y. search_prog x \<longrightarrow> search_prog y"])
      (auto simp: bind_eq_Some_conv split: if_splits dest: inline_pass_search_prog)
  then show "inline_loop ops = Some ops' \<Longrightarrow> search_prog ops \<Longrightarrow> search_prog ops'" by blast
qed

lemma length_retarget: "retarget i tf ops = Some (tf', ops') \<Longrightarrow> length ops' = length ops"
  by (induction i tf ops arbitrary: tf' ops' rule: retarget.induct)
    (fastforce simp: bind_eq_Some_conv split: if_splits)+

lemma strip_loop_length:
  "strip_loop i jumps tf ops = Some ops' \<Longrightarrow> i < length ops \<Longrightarrow>
   length ops' \<le> length ops \<and> (length ops' = length ops \<longrightarrow> ops' = ops)"
proof (induction i jumps tf ops arbitrary: ops' rule: strip_loop.induct)
  case (2 i jumps tf ops)
  obtain prev where prev: "nth_opt ops i = Some prev" using 2(4) by (simp add: nth_opt_def)
  show ?case
  proof (cases "\<not> is_control prev \<or> Suc i \<in> set jumps")
    case True
    then show ?thesis using 2(1)[OF prev True] 2(3,4) prev by simp
  next
    case False
    then obtain tf1 ops1 where r: "retarget (Suc i) tf ops = Some (tf1, ops1)"
      "strip_loop i jumps tf1 (take (Suc i) ops1 @ drop (Suc (Suc i)) ops1) = Some ops'"
      using 2(3) prev by (auto simp: bind_eq_Some_conv)
    have len: "length ops1 = length ops" by (rule length_retarget[OF r(1)])
    then have l: "length (take (Suc i) ops1 @ drop (Suc (Suc i)) ops1) = length ops - 1"
      using 2(4) by simp
    then have "length ops' \<le> length (take (Suc i) ops1 @ drop (Suc (Suc i)) ops1)"
      using 2(2)[OF prev False r(1) refl r(2)] 2(4) by linarith
    then have "length ops' \<le> length ops - 1" unfolding l .
    then show ?thesis using 2(4) by linarith
  qed
qed simp

text \<open>Nothing is removed when no instruction is unreachable.\<close>

lemma optimise_same_length:
  assumes "prog_ok ops" "ops_optimise ops = Some ops'" "length ops' = length ops"
  shows "inline_loop ops = Some ops'"
proof -
  obtain ops1 where o1: "inline_loop ops = Some ops1" "length ops1 = length ops"
    "strip_unreachable_instructions ops1 = Some ops'"
    using assms(2) inline_loop_ok[OF assms(1)] by (auto simp: ops_optimise_def)
  have "1 \<le> length ops1" using o1(2) assms(1) by (auto simp: prog_ok_def)
  then have "ops' = ops1"
    using o1(2,3) strip_loop_length[of "length ops1 - 1 - 1" _ _ ops1 ops'] assms(3)
    by (auto simp: strip_unreachable_instructions_def usub_def)
  then show ?thesis using o1(1) by simp
qed

subsection \<open>Compiled regular expressions\<close>

lemma regex_new_ready: "regex_new ops n names lits = Some rx \<Longrightarrow> \<exists>ops'. ops_optimise ops = Some ops' \<and> vm_ready ops' rx \<and>
    rx_track_submatches rx \<and> rx_n_submatches rx = n \<and> rx_submatch_names rx = names \<and>
    rx_fast_start rx = (if lits = {} then None else Some lits)"
  by (auto simp: regex_new_def vm_ready_def bind_eq_Some_conv Let_def comp_def)

lemma search_accepts: "search_prog ops \<Longrightarrow> accepts ops 4 w \<longleftrightarrow> reach ops 4 w (length ops - 1)"
proof -
  assume ops: "search_prog ops"
  have "nth_opt ops q = Some OMatch \<longleftrightarrow> q = length ops - 1" for q
    using search_match_pc[OF ops, of q] search_prog_dest(2)[OF ops] by (auto simp: nth_opt_def)
  then show ?thesis by (auto simp: accepts_def reach_def)
qed

theorem regex_compile_ok:
  assumes "regex_compile re = Some (Inr rx)" "regex_parse re = Some (Inr ast)"
    and a: "no_assertions (ast_optimise ast)" and co: "compile_ast (ast_optimise ast) False = Some co"
    and len: "length (rx_prog rx) = length (co_ops co)"
  shows "\<exists>ops. search_prog ops \<and> vm_ready ops rx \<and> rx_track_submatches rx \<and>
    (\<forall>u. reach ops 4 u (length ops - 1) \<longleftrightarrow> matches (ast_optimise ast) u)"
proof -
  have "regex_new (co_ops co) (co_n_submatches co) (co_submatch_names co) (leading_literals (ast_optimise ast)) = Some rx"
    using assms(1,2) co by (auto simp: regex_compile_def Let_def)
  then obtain ops where ops: "ops_optimise (co_ops co) = Some ops" "vm_ready ops rx" "rx_track_submatches rx"
    using regex_new_ready by blast
  have sp: "search_prog (co_ops co)" by (rule compile_search_prog[OF co a])
  have "length ops = length (co_ops co)" using ops(2) len by (auto simp: vm_ready_def)
  then have inl: "inline_loop (co_ops co) = Some ops" using optimise_same_length[OF search_prog_dest(1)[OF sp] ops(1)] by simp
  then have "search_prog ops" using inline_loop_search_prog sp by blast
  moreover have "accepts ops 4 u \<longleftrightarrow> matches (ast_optimise ast) u" for u
    using inline_loop_ok[OF search_prog_dest(1)[OF sp]] inl compile_body_accepts[OF co a] by simp
  ultimately show ?thesis using ops search_accepts by blast
qed

end
