(* ===== verification/RegexHaystack.thy ===== *)
theory RegexHaystack
  imports RegexCompiled TextStore
begin

text \<open>
  What can be searched (src/regex/haystack.rs), the searches of src/regex/vm.rs and the iterator
  over the matches of src/regex/matches.rs. A haystack is its methods; \<open>haystack_impl\<close> is
  what a search needs of them, and string slices and gap buffers provide it.
\<close>

record haystack =
  hs_contiguous :: bool
  hs_len :: nat
  hs_substr_from :: "nat \<Rightarrow> ustr option option"
  hs_substr :: "nat \<Rightarrow> nat \<Rightarrow> ustr option"
  hs_byte_to_char :: "nat \<Rightarrow> nat option option"
  hs_char_to_byte :: "nat \<Rightarrow> nat option option"
  hs_iter_from :: "nat \<Rightarrow> (nat \<times> uchar) list option option"
  hs_iter_between :: "nat \<Rightarrow> nat \<Rightarrow> (nat \<times> uchar) list option"
  hs_rev_iter_between :: "nat \<Rightarrow> nat \<Rightarrow> (nat \<times> uchar) list option"

subsection \<open>String slices\<close>

text \<open>\<open>str::is_char_boundary\<close> and indexing with a range, which panics away from a boundary.\<close>

definition is_char_boundary :: "ustr \<Rightarrow> nat \<Rightarrow> bool" where
  "is_char_boundary s i \<longleftrightarrow>
     i = 0 \<or> i = blen s \<or> (i < blen s \<and> \<not> utf8_is_cont_byte (utf8 s ! i))"

definition str_index :: "ustr \<Rightarrow> nat \<Rightarrow> nat \<Rightarrow> ustr option" where
  "str_index s from to = do {
     rust_assert (from \<le> to \<and> is_char_boundary s from \<and> is_char_boundary s to);
     bs \<leftarrow> subslice (utf8 s) from to;
     from_utf8 bs
   }"

definition str_haystack :: "ustr \<Rightarrow> haystack" where
  "str_haystack s =
     \<lparr>hs_contiguous = True, hs_len = blen s,
      hs_substr_from = (\<lambda>offset.
        if blen s < offset then Some None else map_option Some (from_utf8 (drop offset (utf8 s)))),
      hs_substr = str_index s,
      hs_byte_to_char = (\<lambda>byte_idx.
        Some (Some (length (takeWhile (\<lambda>(idx, _). idx < byte_idx) (char_indices_from 0 s))))),
      hs_char_to_byte = (\<lambda>char_idx. Some (map_option fst (nth_opt (char_indices_from 0 s) char_idx))),
      hs_iter_from = (\<lambda>from.
        if blen s \<le> from then Some None
        else map_option (Some \<circ> char_indices_from from) (str_index s from (blen s))),
      hs_iter_between = (\<lambda>from to. map_option (char_indices_from from) (str_index s from to)),
      hs_rev_iter_between = (\<lambda>from to. map_option (rev \<circ> char_indices_from from) (str_index s from to))\<rparr>"

subsection \<open>Gap buffers\<close>

definition gap_substr_from :: "gap_buffer \<Rightarrow> nat \<Rightarrow> ustr option" where
  "gap_substr_from gb byte_offset = do {
     bs \<leftarrow> subslice (gb_data gb) (gb_gap_end gb + byte_offset) (length (gb_data gb));
     from_utf8 bs
   }"

definition gap_chars_between :: "gap_buffer \<Rightarrow> nat \<Rightarrow> nat \<Rightarrow> ustr option" where
  "gap_chars_between gb from to = do {
     sl \<leftarrow> slice_from_byte_offsets gb from to;
     chars_collect (Suc (sl_len sl)) (slice_chars sl)
   }"

definition gap_rev_chars_between :: "gap_buffer \<Rightarrow> nat \<Rightarrow> nat \<Rightarrow> ustr option" where
  "gap_rev_chars_between gb from to = do {
     sl \<leftarrow> slice_from_byte_offsets gb from to;
     rev_chars_collect (Suc (sl_len sl)) (slice_rev_chars sl)
   }"

text \<open>The offsets of characters that are read backwards from \<open>acc\<close>.\<close>

fun rev_char_indices :: "nat \<Rightarrow> ustr \<Rightarrow> (nat \<times> uchar) list option" where
  "rev_char_indices acc [] = Some []"
| "rev_char_indices acc (c # s) = do {
     acc \<leftarrow> usub acc (len_utf8 c);
     rest \<leftarrow> rev_char_indices acc s;
     Some ((acc, c) # rest)
   }"

definition gap_haystack :: "gap_buffer \<Rightarrow> haystack" where
  "gap_haystack gb =
     \<lparr>hs_contiguous = is_contiguous gb, hs_len = gb_len gb,
      hs_substr_from = (\<lambda>offset.
        if gb_len gb < offset then Some None else map_option Some (gap_substr_from gb offset)),
      hs_substr = (\<lambda>from to. do { sl \<leftarrow> slice_from_byte_offsets gb from to; sl_to_cow sl }),
      hs_byte_to_char = (\<lambda>byte_idx.
        if gb_len gb < byte_idx then Some None else map_option Some (byte_to_char gb byte_idx)),
      hs_char_to_byte = (\<lambda>char_idx.
        if len_chars gb < char_idx then Some None
        else map_option (Some \<circ> fst) (char_to_byte gb char_idx)),
      hs_iter_from = (\<lambda>from.
        if gb_len gb \<le> from then Some None
        else map_option (Some \<circ> char_indices_from from) (gap_chars_between gb from (gb_len gb))),
      hs_iter_between = (\<lambda>from to. map_option (char_indices_from from) (gap_chars_between gb from to)),
      hs_rev_iter_between = (\<lambda>from to. do { s \<leftarrow> gap_rev_chars_between gb from to; rev_char_indices to s })\<rparr>"

subsection \<open>Searching\<close>

text \<open>
  The search for leading literals is that of another package: \<open>ac lits text\<close> is the offset of
  a literal in the text.
\<close>

type_synonym literal_search = "ustr set \<Rightarrow> ustr \<Rightarrow> nat option"

definition fast_update_byte_offset ::
  "literal_search \<Rightarrow> haystack \<Rightarrow> nat \<Rightarrow> regex_inner \<Rightarrow> nat option option" where
  "fast_update_byte_offset ac hs byte_offset rx = do {
     rust_assert (hs_contiguous hs);
     case rx_fast_start rx of
       None \<Rightarrow> Some None
     | Some lits \<Rightarrow> do {
         sub \<leftarrow> hs_substr_from hs byte_offset;
         Some (case sub of
                 None \<Rightarrow> None
               | Some txt \<Rightarrow> Some (case ac lits txt of None \<Rightarrow> byte_offset | Some st \<Rightarrow> byte_offset + st))
       }
   }"

definition match_from_byte_offset ::
  "literal_search \<Rightarrow> (uchar \<Rightarrow> bool) \<Rightarrow> haystack \<Rightarrow> nat \<Rightarrow> regex_inner \<Rightarrow> (match option \<times> regex_inner) option" where
  "match_from_byte_offset ac alnum hs offset rx = do {
     offset \<leftarrow>
       (if hs_contiguous hs then do {
          new \<leftarrow> fast_update_byte_offset ac hs offset rx;
          Some (case new of None \<Rightarrow> offset | Some offset \<Rightarrow> offset)
        } else Some offset);
     it \<leftarrow> hs_iter_from hs offset;
     case it of
       None \<Rightarrow> Some (None, rx)
     | Some input \<Rightarrow> run_vm alnum input offset rx
   }"

definition match_between_byte_offsets ::
  "literal_search \<Rightarrow> (uchar \<Rightarrow> bool) \<Rightarrow> haystack \<Rightarrow> nat \<Rightarrow> nat \<Rightarrow> regex_inner \<Rightarrow> (match option \<times> regex_inner) option" where
  "match_between_byte_offsets ac alnum hs from to rx = do {
     new \<leftarrow> (if hs_contiguous hs then fast_update_byte_offset ac hs from rx else Some None);
     let run = (\<lambda>from. do { input \<leftarrow> hs_iter_between hs from to; run_vm alnum input from rx });
     case new of
       None \<Rightarrow> run from
     | Some new_from \<Rightarrow> if to < new_from then Some (None, rx) else run new_from
   }"

definition track :: "bool \<Rightarrow> regex_inner \<Rightarrow> regex_inner" where
  "track b rx = rx\<lparr>rx_track_submatches := b\<rparr>"

definition regex_matches_from ::
  "literal_search \<Rightarrow> (uchar \<Rightarrow> bool) \<Rightarrow> haystack \<Rightarrow> nat \<Rightarrow> regex_inner \<Rightarrow> (bool \<times> regex_inner) option" where
  "regex_matches_from ac alnum hs offset rx =
     map_option (apfst (\<lambda>m. m \<noteq> None)) (match_from_byte_offset ac alnum hs offset (track False rx))"

definition regex_matches ::
  "literal_search \<Rightarrow> (uchar \<Rightarrow> bool) \<Rightarrow> haystack \<Rightarrow> regex_inner \<Rightarrow> (bool \<times> regex_inner) option" where
  "regex_matches ac alnum hs rx =
     map_option (apfst (\<lambda>m. m \<noteq> None)) (match_from_byte_offset ac alnum hs 0 (track False rx))"

definition regex_matches_between ::
  "literal_search \<Rightarrow> (uchar \<Rightarrow> bool) \<Rightarrow> haystack \<Rightarrow> nat \<Rightarrow> nat \<Rightarrow> regex_inner \<Rightarrow> (bool \<times> regex_inner) option" where
  "regex_matches_between ac alnum hs from to rx =
     map_option (apfst (\<lambda>m. m \<noteq> None)) (match_between_byte_offsets ac alnum hs from to (track False rx))"

definition regex_find ::
  "literal_search \<Rightarrow> (uchar \<Rightarrow> bool) \<Rightarrow> haystack \<Rightarrow> regex_inner \<Rightarrow> (match option \<times> regex_inner) option" where
  "regex_find ac alnum hs rx = match_from_byte_offset ac alnum hs 0 (track True rx)"

definition regex_find_from ::
  "literal_search \<Rightarrow> (uchar \<Rightarrow> bool) \<Rightarrow> haystack \<Rightarrow> nat \<Rightarrow> regex_inner \<Rightarrow> (match option \<times> regex_inner) option" where
  "regex_find_from ac alnum hs offset rx = match_from_byte_offset ac alnum hs offset (track True rx)"

definition regex_find_between ::
  "literal_search \<Rightarrow> (uchar \<Rightarrow> bool) \<Rightarrow> haystack \<Rightarrow> nat \<Rightarrow> nat \<Rightarrow> regex_inner \<Rightarrow> (match option \<times> regex_inner) option" where
  "regex_find_between ac alnum hs from to rx = match_between_byte_offsets ac alnum hs from to (track True rx)"

definition find_rev_from ::
  "(uchar \<Rightarrow> bool) \<Rightarrow> haystack \<Rightarrow> nat \<Rightarrow> regex_inner \<Rightarrow> (match option \<times> regex_inner) option" where
  "find_rev_from alnum hs offset rx = do {
     input \<leftarrow> hs_rev_iter_between hs 0 offset;
     run_vm alnum input offset (track True rx)
   }"

subsection \<open>The text of a match, and the iterator over matches\<close>

definition match_text :: "haystack \<Rightarrow> match \<Rightarrow> ustr option" where
  "match_text hs m = do { (from, to) \<leftarrow> match_loc m; hs_substr hs from to }"

definition submatch_text :: "haystack \<Rightarrow> nat \<Rightarrow> match \<Rightarrow> ustr option option" where
  "submatch_text hs n m = do {
     loc \<leftarrow> sub_loc m n;
     case loc of None \<Rightarrow> Some None | Some (from, to) \<Rightarrow> map_option Some (hs_substr hs from to)
   }"

definition submatch_text_by_name :: "haystack \<Rightarrow> ustr \<Rightarrow> match \<Rightarrow> ustr option option" where
  "submatch_text_by_name hs name m = do {
     loc \<leftarrow> sub_loc_by_name m name;
     case loc of None \<Rightarrow> Some None | Some (from, to) \<Rightarrow> map_option Some (hs_substr hs from to)
   }"

definition match_iter_next ::
  "literal_search \<Rightarrow> (uchar \<Rightarrow> bool) \<Rightarrow> haystack \<Rightarrow> nat \<times> regex_inner \<Rightarrow> (match option \<times> nat \<times> regex_inner) option" where
  "match_iter_next ac alnum hs it = (case it of (self_from, rx) \<Rightarrow> do {
     (m, rx) \<leftarrow> regex_find_from ac alnum hs self_from rx;
     case m of
       None \<Rightarrow> Some (None, self_from, rx)
     | Some m \<Rightarrow> do {
         (_, from) \<leftarrow> match_loc m;
         if from = self_from then do {
           sub \<leftarrow> hs_substr_from hs from;
           txt \<leftarrow> sub;
           c \<leftarrow> nth_opt txt 0;
           Some (Some m, self_from + len_utf8 c, rx)
         } else Some (Some m, from, rx)
       }
   })"

text \<open>All the matches, with fuel for their number.\<close>

fun match_iter_collect ::
  "literal_search \<Rightarrow> (uchar \<Rightarrow> bool) \<Rightarrow> haystack \<Rightarrow> nat \<Rightarrow> nat \<times> regex_inner \<Rightarrow> (match list \<times> regex_inner) option" where
  "match_iter_collect ac alnum hs 0 it = None"
| "match_iter_collect ac alnum hs (Suc n) it = do {
     (m, from, rx) \<leftarrow> match_iter_next ac alnum hs it;
     case m of
       None \<Rightarrow> Some ([], rx)
     | Some m \<Rightarrow> do {
         (ms, rx) \<leftarrow> match_iter_collect ac alnum hs n (from, rx);
         Some (m # ms, rx)
       }
   }"

end
