(* ===== verification/RegexApi.thy ===== *)
theory RegexApi
  imports RegexHaystack
begin

text \<open>
  Searching through the interface of a haystack. The client, proved once inside the locale: a
  regular expression that is ready finds the first match behind an offset, on any haystack that
  has the text. The providers: string slices, and gap buffers wherever their gap is.
\<close>

subsection \<open>Regular expressions that are ready for a search\<close>

definition regex_ok :: "ast \<Rightarrow> regex_inner \<Rightarrow> bool" where
  "regex_ok a rx \<longleftrightarrow>
     (\<exists>ops. search_prog ops \<and> vm_ready ops rx \<and> (\<forall>u. reach ops 4 u (length ops - 1) \<longleftrightarrow> matches a u))"

text \<open>The first match of an expression in a text, at an offset.\<close>

definition first_match :: "ast \<Rightarrow> nat \<Rightarrow> ustr \<Rightarrow> nat \<times> nat \<Rightarrow> bool" where
  "first_match a off t loc \<longleftrightarrow>
     (\<exists>y u z. t = y @ u @ z \<and> matches a u \<and> loc = (off + blen y, off + blen (y @ u)) \<and>
        (\<forall>y' u' z'. t = y' @ u' @ z' \<longrightarrow> matches a u' \<longrightarrow> length y \<le> length y'))"

definition has_match :: "ast \<Rightarrow> ustr \<Rightarrow> bool" where
  "has_match a t \<longleftrightarrow> (\<exists>y u z. t = y @ u @ z \<and> matches a u)"

definition find_ok :: "ast \<Rightarrow> nat \<Rightarrow> ustr \<Rightarrow> match option \<Rightarrow> bool" where
  "find_ok a off t m \<longleftrightarrow>
     (case m of None \<Rightarrow> \<not> has_match a t | Some m \<Rightarrow> \<exists>loc. match_loc m = Some loc \<and> first_match a off t loc)"

lemma regex_ok_track [simp]: "regex_ok a (track b rx) \<longleftrightarrow> regex_ok a rx"
  by (simp add: regex_ok_def track_def vm_ready_def)

lemma track_simps [simp]: "rx_track_submatches (track b rx) = b" "rx_fast_start (track b rx) = rx_fast_start rx"
  by (simp_all add: track_def)

lemma run_vm_first_match:
  assumes "regex_ok a rx" and trk: "rx_track_submatches rx"
  shows "\<exists>m rx'. run_vm alnum (char_indices_from off t) off rx = Some (m, rx') \<and> find_ok a off t m \<and>
    regex_ok a rx' \<and> same_regex rx rx'"
proof -
  obtain ops where ops: "search_prog ops" "vm_ready ops rx" "\<And>u. reach ops 4 u (length ops - 1) \<longleftrightarrow> matches a u"
    using assms(1) unfolding regex_ok_def by blast
  obtain m rx' where run: "run_vm alnum (char_indices_from off t) off rx = Some (m, rx')" "same_regex rx rx'" "vm_ready ops rx'"
    "m = map_option (\<lambda>sub. \<lparr>m_n_submatches = rx_n_submatches rx, m_sub_matches = sub,
       m_submatch_names = rx_submatch_names rx\<rparr>) (pike_run alnum ops (char_indices_from off t) off)"
    using run_vm_ok[OF search_prog_dest(1)[OF ops(1)] search_room[OF ops(1)] ops(2)] trk by metis
  have "find_ok a off t m"
  proof (cases "pike_run alnum ops (char_indices_from off t) off")
    case None
    then show ?thesis
      using pike_run_ok[OF ops(1), where alnum = alnum and off = off and s = t] run(4) ops(3) by (simp add: find_ok_def has_match_def)
  next
    case (Some c)
    then have "\<exists>y u z. t = y @ u @ z \<and> matches a u \<and> c ! 0 = off + blen y \<and> c ! 1 = off + blen (y @ u) \<and>
        (\<forall>y' u' z'. t = y' @ u' @ z' \<longrightarrow> matches a u' \<longrightarrow> length y \<le> length y')"
      using pike_run_ok[OF ops(1), where alnum = alnum and off = off and s = t] unfolding ops(3) by simp
    then obtain y u z where u: "t = y @ u @ z" "matches a u" "c ! 0 = off + blen y" "c ! 1 = off + blen (y @ u)"
      "\<And>y' u' z'. t = y' @ u' @ z' \<Longrightarrow> matches a u' \<Longrightarrow> length y \<le> length y'"
      by blast
    have "first_match a off t (c ! 0, c ! 1)"
      unfolding first_match_def u(3,4) using u(1,2,5) by blast
    moreover have "match_loc \<lparr>m_n_submatches = n, m_sub_matches = c, m_submatch_names = names\<rparr> = Some (c ! 0, c ! 1)" for n names
      using u(3,4) by (simp add: match_loc_def rust_assert_def)
    ultimately show ?thesis using Some run(4) by (simp add: find_ok_def)
  qed
  then show ?thesis using run(1-3) ops(1,3) unfolding regex_ok_def by blast
qed

lemma run_vm_has_match:
  assumes "regex_ok a rx"
  shows "\<exists>m rx'. run_vm alnum (char_indices_from off t) off rx = Some (m, rx') \<and> (m \<noteq> None \<longleftrightarrow> has_match a t)"
proof -
  obtain ops where ops: "search_prog ops" "vm_ready ops rx" "\<And>u. reach ops 4 u (length ops - 1) \<longleftrightarrow> matches a u"
    using assms(1) unfolding regex_ok_def by blast
  obtain m rx' where run: "run_vm alnum (char_indices_from off t) off rx = Some (m, rx')"
    "m = None \<longleftrightarrow> pike_run alnum ops (char_indices_from off t) off = None"
    using run_vm_ok[OF search_prog_dest(1)[OF ops(1)] search_room[OF ops(1)] ops(2)] by metis
  have "pike_run alnum ops (char_indices_from off t) off = None \<longleftrightarrow> \<not> has_match a t"
    using pike_run_ok[OF ops(1), where alnum = alnum and off = off and s = t] ops(3)
    by (cases "pike_run alnum ops (char_indices_from off t) off") (auto simp: has_match_def)
  then have "m \<noteq> None \<longleftrightarrow> has_match a t" using run(2) by simp
  then show ?thesis using run(1) by blast
qed

subsection \<open>The interface\<close>

locale haystack_impl =
  fixes view :: "'h \<Rightarrow> haystack" and holds :: "'h \<Rightarrow> ustr \<Rightarrow> bool"
  assumes len: "holds h s \<Longrightarrow> hs_len (view h) = blen s"
    and iter_from: "holds h (x @ t) \<Longrightarrow>
      hs_iter_from (view h) (blen x) = Some (if t = [] then None else Some (char_indices_from (blen x) t))"
    and iter_between: "holds h (x @ t @ y) \<Longrightarrow>
      hs_iter_between (view h) (blen x) (blen (x @ t)) = Some (char_indices_from (blen x) t)"
    and rev_iter_between: "holds h (x @ t @ y) \<Longrightarrow>
      hs_rev_iter_between (view h) (blen x) (blen (x @ t)) = Some (rev (char_indices_from (blen x) t))"
    and substr: "holds h (x @ t @ y) \<Longrightarrow> hs_substr (view h) (blen x) (blen (x @ t)) = Some t"
begin

text \<open>A search that does not start at a leading literal.\<close>

definition slow :: "'h \<Rightarrow> regex_inner \<Rightarrow> bool" where
  "slow h rx \<longleftrightarrow> \<not> hs_contiguous (view h) \<or> rx_fast_start rx = None"

lemma slow_track [simp]: "slow h (track b rx) \<longleftrightarrow> slow h rx"
  by (simp add: slow_def)

lemma match_from_eq:
  assumes "holds h (x @ t)" "slow h rx"
  shows "match_from_byte_offset ac alnum (view h) (blen x) rx =
    (if t = [] then Some (None, rx) else run_vm alnum (char_indices_from (blen x) t) (blen x) rx)"
  using iter_from[OF assms(1)] assms(2)
  by (auto simp: match_from_byte_offset_def fast_update_byte_offset_def slow_def rust_assert_def)

lemma match_between_eq:
  assumes "holds h (x @ t @ y)" "slow h rx"
  shows "match_between_byte_offsets ac alnum (view h) (blen x) (blen (x @ t)) rx =
    run_vm alnum (char_indices_from (blen x) t) (blen x) rx"
  using iter_between[OF assms(1)] assms(2)
  by (auto simp: match_between_byte_offsets_def fast_update_byte_offset_def slow_def rust_assert_def Let_def)

lemma find_from:
  assumes "holds h (x @ t)" "slow h rx" "regex_ok a rx" "t \<noteq> []"
  shows "\<exists>m rx'. regex_find_from ac alnum (view h) (blen x) rx = Some (m, rx') \<and> find_ok a (blen x) t m \<and>
    regex_ok a rx' \<and> slow h rx'"
  using run_vm_first_match[of a "track True rx" alnum "blen x" t] match_from_eq[of h x t "track True rx"] assms
  by (fastforce simp: regex_find_from_def slow_def same_regex_def)

lemma find_between:
  assumes "holds h (x @ t @ y)" "slow h rx" "regex_ok a rx"
  shows "\<exists>m rx'. regex_find_between ac alnum (view h) (blen x) (blen (x @ t)) rx = Some (m, rx') \<and>
    find_ok a (blen x) t m \<and> regex_ok a rx' \<and> slow h rx'"
  using run_vm_first_match[of a "track True rx" alnum "blen x" t] match_between_eq[of h x t y "track True rx"] assms
  by (fastforce simp: regex_find_between_def slow_def same_regex_def)

lemma matches_from:
  assumes "holds h (x @ t)" "slow h rx" "regex_ok a rx" "t \<noteq> []"
  shows "\<exists>rx'. regex_matches_from ac alnum (view h) (blen x) rx = Some (has_match a t, rx')"
  using run_vm_has_match[of a "track False rx" alnum "blen x" t] match_from_eq[of h x t "track False rx"] assms
  by (fastforce simp: regex_matches_from_def)

lemma match_text_first:
  assumes "holds h (x @ t)" "find_ok a (blen x) t (Some m)"
  shows "\<exists>u. match_text (view h) m = Some u \<and> matches a u"
proof -
  obtain loc y u z where u: "match_loc m = Some loc" "t = y @ u @ z" "matches a u" "loc = (blen x + blen y, blen x + blen (y @ u))"
    using assms(2) by (auto simp: find_ok_def first_match_def)
  have "hs_substr (view h) (blen (x @ y)) (blen ((x @ y) @ u)) = Some u"
    using substr[of h "x @ y" u z] assms(1) u(2) by simp
  then show ?thesis using u by (simp add: match_text_def add.assoc)
qed

end

subsection \<open>The providers\<close>

lemma encode_utf8_hd_no_cont: "\<not> utf8_is_cont_byte (hd (encode_utf8 c))"
proof (cases "c < 0x80")
  case True
  then have "\<not> bit c 7" by (intro bit_beyond[OF uchar_bounds(1)]) simp_all
  then show ?thesis using True by (simp add: encode_utf8_def is_cont_byte_bits bit_simps)
next
  case False
  then show ?thesis by (auto simp: encode_utf8_def is_cont_byte_bits bit_simps)
qed

lemma is_char_boundary_utf8: "str_ok (x @ t) \<Longrightarrow> is_char_boundary (x @ t) (blen x)"
proof (cases t)
  case (Cons c t')
  assume "str_ok (x @ t)"
  moreover have "encode_utf8 c \<noteq> []" using len_utf8_bounds(1)[of c] length_encode_utf8[of c] by (cases "encode_utf8 c") auto
  then have "utf8 (x @ t) ! blen x = hd (encode_utf8 c)" using Cons len_utf8_bounds(3)[of c] by (auto simp: nth_append hd_conv_nth)
  ultimately show ?thesis
    using Cons encode_utf8_hd_no_cont[of c] len_utf8_bounds(1)[of c] by (simp add: is_char_boundary_def)
qed (simp add: is_char_boundary_def)

lemma str_index_utf8: "str_ok (x @ t @ y) \<Longrightarrow> str_index (x @ t @ y) (blen x) (blen (x @ t)) = Some t"
proof -
  assume ok: "str_ok (x @ t @ y)"
  have "is_char_boundary (x @ t @ y) (blen x)" using is_char_boundary_utf8[of x "t @ y"] ok by simp
  moreover have "is_char_boundary (x @ t @ y) (blen (x @ t))" using is_char_boundary_utf8[of "x @ t" y] ok by simp
  ultimately show ?thesis using ok by (simp add: str_index_def rust_assert_def subslice_def)
qed

lemma slice_from_byte_offsets_holds:
  assumes "gb_holds gb (x @ t @ y)"
  shows "\<exists>sl. slice_from_byte_offsets gb (blen x) (blen (x @ t)) = Some sl \<and> sl_holds sl t"
proof (cases "t = []")
  case True
  then show ?thesis by (simp add: slice_from_byte_offsets_def)
next
  case False
  obtain s1 s2 where s: "x @ t @ y = s1 @ s2" "gb_rel gb s1 s2" using assms by (rule gb_holdsE)
  have gs: "gb_gap_start gb = blen s1" by (rule gb_relE[OF s(2)])
  have anch: "anchor (gb_gap gb) s1 s2 (byte_to_raw_byte gb (blen w)) (length w)" if w: "w @ v = s1 @ s2" for w v
  proof -
    have take: "take (length w) (s1 @ s2) = w" using w[symmetric] by simp
    show ?thesis
    proof (cases "length w \<le> length s1")
      case True
      then have "take (length w) s1 = w" using take by simp
      then show ?thesis using True blen_take_le[of "length w" s1] gs by (simp add: anchor_def byte_to_raw_byte_def)
    next
      case nle: False
      let ?v = "take (length w - length s1) s2"
      have w': "w = s1 @ ?v" using take nle by simp
      then have len: "blen w = blen s1 + blen ?v" by (metis length_append utf8_simps(3))
      have "?v \<noteq> []" using nle w' by auto
      then have "0 < blen ?v" by simp
      moreover have "length w \<le> length (s1 @ s2)" unfolding w[symmetric] by simp
      ultimately show ?thesis using nle len gs by (simp add: anchor_def byte_to_raw_byte_def)
    qed
  qed
  have a: "anchor (gb_gap gb) s1 s2 (byte_to_raw_byte gb (blen x)) (length x)" by (rule anch[OF s(1)])
  have b: "anchor (gb_gap gb) s1 s2 (byte_to_raw_byte gb (blen (x @ t))) (length (x @ t))"
    using anch[of "x @ t" y] s(1) by simp
  have "length x < length (x @ t)" using False by simp
  then obtain sl where sl: "slice_from_raw_offsets (byte_to_raw_byte gb (blen x)) (byte_to_raw_byte gb (blen (x @ t))) gb = Some sl"
    "sl_holds sl (drop (length x) (take (length (x @ t)) (s1 @ s2)))"
    using slice_from_anchors[OF s(2) a b] by blast
  moreover have "drop (length x) (take (length (x @ t)) (s1 @ s2)) = t" unfolding s(1)[symmetric] by simp
  ultimately show ?thesis using False by (simp add: slice_from_byte_offsets_def)
qed

lemma rev_char_indices_rev: "rev_char_indices (off + blen s) (rev s) = Some (rev (char_indices_from off s))"
proof (induction s rule: rev_induct)
  case (snoc c s)
  have "char_indices_from off (s @ [c]) = char_indices_from off s @ [(off + blen s, c)]" for off
    by (induction s arbitrary: off) (simp_all add: add.assoc)
  then show ?case using snoc.IH by (simp add: usub_def)
qed simp

interpretation str: haystack_impl str_haystack "\<lambda>h s. h = s \<and> str_ok s"
proof unfold_locales
  fix h x t y :: ustr
  show "hs_len (str_haystack h) = blen t" if "h = t \<and> str_ok t" using that by (simp add: str_haystack_def)
  show "hs_iter_from (str_haystack h) (blen x) = Some (if t = [] then None else Some (char_indices_from (blen x) t))"
    if "h = x @ t \<and> str_ok (x @ t)"
    using that str_index_utf8[of x t "[]"] by (auto simp: str_haystack_def)
  assume h: "h = x @ t @ y \<and> str_ok (x @ t @ y)"
  then show "hs_iter_between (str_haystack h) (blen x) (blen (x @ t)) = Some (char_indices_from (blen x) t)"
    "hs_rev_iter_between (str_haystack h) (blen x) (blen (x @ t)) = Some (rev (char_indices_from (blen x) t))"
    "hs_substr (str_haystack h) (blen x) (blen (x @ t)) = Some t"
    using str_index_utf8[of x t y] by (simp_all add: str_haystack_def)
qed

interpretation gap: haystack_impl gap_haystack gb_holds
proof unfold_locales
  fix gb :: gap_buffer and x t y :: ustr
  show "hs_len (gap_haystack gb) = blen t" if "gb_holds gb t"
    using gb_holds_len[OF that] by (simp add: gap_haystack_def)
  have chars: "gap_chars_between gb (blen x) (blen (x @ t)) = Some t"
    "gap_rev_chars_between gb (blen x) (blen (x @ t)) = Some (rev t)" 
    "hs_substr (gap_haystack gb) (blen x) (blen (x @ t)) = Some t" if h: "gb_holds gb (x @ t @ y)" for y
  proof -
    obtain sl where sl: "slice_from_byte_offsets gb (blen x) (blen (x @ t)) = Some sl" "sl_holds sl t"
      using slice_from_byte_offsets_holds[OF h] by blast
    then show "gap_chars_between gb (blen x) (blen (x @ t)) = Some t"
      "gap_rev_chars_between gb (blen x) (blen (x @ t)) = Some (rev t)"
      "hs_substr (gap_haystack gb) (blen x) (blen (x @ t)) = Some t"
      using chars_collect_holds[OF sl(2)] rev_chars_collect_holds[OF sl(2)] sl_to_string_holds[OF sl(2)]
      by (simp_all add: gap_chars_between_def gap_rev_chars_between_def gap_haystack_def sl_to_cow_eq del: utf8_simps)
  qed
  show "hs_iter_from (gap_haystack gb) (blen x) = Some (if t = [] then None else Some (char_indices_from (blen x) t))"
    if "gb_holds gb (x @ t)"
    using that gb_holds_len[OF that] chars(1)[of "[]"] by (simp add: gap_haystack_def)
  assume h: "gb_holds gb (x @ t @ y)"
  show "hs_iter_between (gap_haystack gb) (blen x) (blen (x @ t)) = Some (char_indices_from (blen x) t)"
    "hs_rev_iter_between (gap_haystack gb) (blen x) (blen (x @ t)) = Some (rev (char_indices_from (blen x) t))"
    "hs_substr (gap_haystack gb) (blen x) (blen (x @ t)) = Some t"
    using chars[OF h] rev_char_indices_rev[of "blen x" t] by (simp_all add: gap_haystack_def)
qed


text \<open>
  The iterator over the matches of a text. Its client needs the rest of the text from an offset
  as well, which string slices provide, and gap buffers whose gap is in front of the text.
\<close>

text \<open>
  The matches that an iteration yields: each the first behind the one before, and one character
  is skipped behind an empty match at the offset that the search started from.
\<close>

inductive match_seq :: "ast \<Rightarrow> nat \<Rightarrow> ustr \<Rightarrow> match list \<Rightarrow> bool" for a where
  seq_done: "t = [] \<or> \<not> has_match a t \<Longrightarrow> match_seq a off t []"
| seq_next: "first_match a off (w @ z) (from, off + blen w) \<Longrightarrow> match_loc m = Some (from, off + blen w) \<Longrightarrow> w \<noteq> [] \<Longrightarrow>
    match_seq a (off + blen w) z ms \<Longrightarrow> match_seq a off (w @ z) (m # ms)"
| seq_skip: "first_match a off (c # z) (off, off) \<Longrightarrow> match_loc m = Some (off, off) \<Longrightarrow>
    match_seq a (off + len_utf8 c) z ms \<Longrightarrow> match_seq a off (c # z) (m # ms)"

text \<open>Matches of an iteration do not overlap and are in order.\<close>

lemma match_seq_bounds:
  "match_seq a off t ms \<Longrightarrow> \<forall>m \<in> set ms. \<exists>s e. match_loc m = Some (s, e) \<and> off \<le> s \<and> s \<le> e \<and> e \<le> off + blen t"
proof (induction rule: match_seq.induct)
  case (seq_next off w z "from" m ms)
  then have "off \<le> from \<and> from \<le> off + blen w" by (auto simp: first_match_def)
  then show ?case using seq_next by fastforce
next
  case (seq_skip off c z m ms)
  then show ?case using seq_skip by fastforce
qed simp

lemma match_seq_sorted:
  "match_seq a off t ms \<Longrightarrow> sorted_wrt (\<lambda>m m'. \<exists>s e s' e'. match_loc m = Some (s, e) \<and> match_loc m' = Some (s', e') \<and> e \<le> s') ms"
proof (induction rule: match_seq.induct)
  case (seq_next off w z "from" m ms)
  then show ?case using match_seq_bounds[OF seq_next.hyps(4)] by fastforce
next
  case (seq_skip off c z m ms)
  then show ?case using match_seq_bounds[OF seq_skip.hyps(3)] by fastforce
qed simp

locale haystack_rest = haystack_impl +
  assumes substr_from: "holds h (x @ t) \<Longrightarrow> hs_substr_from (view h) (blen x) = Some (Some t)"
begin

lemma iter_next_none:
  assumes "holds h (x @ t)" "slow h rx" "regex_ok a rx" "t = [] \<or> \<not> has_match a t"
  shows "\<exists>rx'. match_iter_next ac alnum (view h) (blen x, rx) = Some (None, blen x, rx') \<and> regex_ok a rx'"
proof (cases "t = []")
  case True
  then show ?thesis
    using match_from_eq[OF assms(1), of "track True rx"] assms(2,3)
    by (simp add: match_iter_next_def regex_find_from_def)
next
  case False
  obtain m rx' where find: "regex_find_from ac alnum (view h) (blen x) rx = Some (m, rx')" "find_ok a (blen x) t m" "regex_ok a rx'"
    using find_from[OF assms(1-3) False] by blast
  have "m = None" using find(2) assms(4) False by (auto simp: find_ok_def first_match_def has_match_def split: option.splits)
  then show ?thesis using find by (simp add: match_iter_next_def)
qed

lemma iter_next_some:
  assumes "holds h (x @ t)" "slow h rx" "regex_ok a rx" "t \<noteq> []" "has_match a t"
  shows "\<exists>m w z rx'. match_iter_next ac alnum (view h) (blen x, rx) = Some (Some m, blen (x @ w), rx') \<and>
    t = w @ z \<and> w \<noteq> [] \<and> regex_ok a rx' \<and> slow h rx' \<and>
    (\<forall>ms. match_seq a (blen (x @ w)) z ms \<longrightarrow> match_seq a (blen x) t (m # ms))"
proof -
  obtain m' rx' where find: "regex_find_from ac alnum (view h) (blen x) rx = Some (m', rx')" "find_ok a (blen x) t m'"
    "regex_ok a rx'" "slow h rx'"
    using find_from[OF assms(1-4)] by blast
  obtain m loc where m: "m' = Some m" "match_loc m = Some loc" "first_match a (blen x) t loc"
    using find(2) assms(5) by (auto simp: find_ok_def split: option.splits)
  obtain y u z where u: "t = y @ u @ z" "loc = (blen x + blen y, blen x + blen (y @ u))"
    using m(3) by (auto simp: first_match_def)
  show ?thesis
  proof (cases "y @ u = []")
    case False
    then have "match_iter_next ac alnum (view h) (blen x, rx) = Some (Some m, blen (x @ y @ u), rx')"
      using find(1) m(1,2) u(2) by (auto simp: match_iter_next_def)
    moreover have "match_seq a (blen x) t (m # ms)" if "match_seq a (blen (x @ y @ u)) z ms" for ms
      using seq_next[of a "blen x" "y @ u" z "blen x + blen y" m ms] m(2,3) u False that by simp
    ultimately show ?thesis using u(1) False find(3,4) by (intro exI[of _ m] exI[of _ "y @ u"] exI[of _ z]) auto
  next
    case True
    obtain c z' where t: "t = c # z'" using assms(4) by (cases t) auto
    have "hs_substr_from (view h) (blen x) = Some (Some t)" by (rule substr_from[OF assms(1)])
    then have "match_iter_next ac alnum (view h) (blen x, rx) = Some (Some m, blen (x @ [c]), rx')"
      using find(1) m(1,2) u(2) True t by (simp add: match_iter_next_def nth_opt_def)
    moreover have "match_seq a (blen x) t (m # ms)" if "match_seq a (blen (x @ [c])) z' ms" for ms
      unfolding t by (rule seq_skip) (use m(2,3) u True t that in simp_all)
    ultimately show ?thesis using t find(3,4) by (intro exI[of _ m] exI[of _ "[c]"] exI[of _ z']) auto
  qed
qed

lemma iter_collect:
  "holds h (x @ t) \<Longrightarrow> slow h rx \<Longrightarrow> regex_ok a rx \<Longrightarrow> length t < n \<Longrightarrow>
   \<exists>ms rx'. match_iter_collect ac alnum (view h) n (blen x, rx) = Some (ms, rx') \<and> match_seq a (blen x) t ms \<and> regex_ok a rx'"
proof (induction n arbitrary: x t rx)
  case (Suc n)
  show ?case
  proof (cases "t = [] \<or> \<not> has_match a t")
    case True
    obtain rx' where "match_iter_next ac alnum (view h) (blen x, rx) = Some (None, blen x, rx')" "regex_ok a rx'"
      using iter_next_none[OF Suc.prems(1-3) True] by blast
    then show ?thesis using seq_done[OF True] by simp
  next
    case False
    then have ne: "t \<noteq> []" "has_match a t" by simp_all
    obtain m w z rx1 where next1: "match_iter_next ac alnum (view h) (blen x, rx) = Some (Some m, blen (x @ w), rx1)"
      "t = w @ z" "w \<noteq> []" "regex_ok a rx1" "slow h rx1"
      "\<forall>ms. match_seq a (blen (x @ w)) z ms \<longrightarrow> match_seq a (blen x) t (m # ms)"
      using iter_next_some[OF Suc.prems(1-3) ne, of ac alnum] by (elim exE conjE) (rule that)
    have "holds h ((x @ w) @ z)" "length z < n" using Suc.prems(1,4) next1(2,3) by (auto simp: neq_Nil_conv)
    then obtain ms rx2 where "match_iter_collect ac alnum (view h) n (blen (x @ w), rx1) = Some (ms, rx2)"
      "match_seq a (blen (x @ w)) z ms" "regex_ok a rx2"
      using Suc.IH[OF _ next1(5,4)] by blast
    then show ?thesis using next1(1,6) by (intro exI[of _ "m # ms"] exI[of _ rx2]) simp
  qed
qed simp

end

interpretation str: haystack_rest str_haystack "\<lambda>h s. h = s \<and> str_ok s"
proof unfold_locales
  fix h x t :: ustr
  assume "h = x @ t \<and> str_ok (x @ t)"
  then show "hs_substr_from (str_haystack h) (blen x) = Some (Some t)" by (simp add: str_haystack_def)
qed

interpretation front: haystack_rest gap_haystack "\<lambda>gb s. gb_rel gb [] s"
proof unfold_locales
  fix gb :: gap_buffer and x t y :: ustr
  have h: "gb_holds gb s" if "gb_rel gb [] s" for s using gb_holdsI[OF that] by simp
  show "hs_len (gap_haystack gb) = blen t" if "gb_rel gb [] t" by (rule gap.len[OF h[OF that]])
  show "hs_iter_from (gap_haystack gb) (blen x) = Some (if t = [] then None else Some (char_indices_from (blen x) t))"
    "hs_substr_from (gap_haystack gb) (blen x) = Some (Some t)" if r: "gb_rel gb [] (x @ t)"
  proof -
    show "hs_iter_from (gap_haystack gb) (blen x) = Some (if t = [] then None else Some (char_indices_from (blen x) t))"
      by (rule gap.iter_from[OF h[OF r]])
    show "hs_substr_from (gap_haystack gb) (blen x) = Some (Some t)"
      by (rule gb_relE[OF r]) (simp add: gap_haystack_def gap_substr_from_def subslice_def)
  qed
  assume r: "gb_rel gb [] (x @ t @ y)"
  show "hs_iter_between (gap_haystack gb) (blen x) (blen (x @ t)) = Some (char_indices_from (blen x) t)"
    by (rule gap.iter_between[OF h[OF r]])
  show "hs_rev_iter_between (gap_haystack gb) (blen x) (blen (x @ t)) = Some (rev (char_indices_from (blen x) t))"
    by (rule gap.rev_iter_between[OF h[OF r]])
  show "hs_substr (gap_haystack gb) (blen x) (blen (x @ t)) = Some t"
    by (rule gap.substr[OF h[OF r]])
qed

end
