(* ===== verification/RegexParse.thy ===== *)
theory RegexParse
  imports RegexProgram "HOL-Library.Sublist"
begin

text \<open>
  The parser: the trees that it makes can be compiled, and its fuel is enough. A pattern without
  counted repetitions is parsed or rejected; with them the parser can panic as well.
\<close>

subsection \<open>What the parser makes\<close>

lemma alts_ok_concat_or_node: "list_all alts_ok nodes \<Longrightarrow> alts_ok (concat_or_node nodes)"
  by (auto simp: concat_or_node_def split: list.splits)

lemma list_all_butlast_last: "list_all P xs \<Longrightarrow> xs \<noteq> [] \<Longrightarrow> list_all P (butlast xs) \<and> P (last xs)"
  by (auto simp: list_all_iff dest: in_set_butlastD)

lemma rep_apply_alts:
  assumes "rep_apply r nodes = Inr nodes'" "list_all alts_ok nodes"
  shows "list_all alts_ok nodes'"
proof -
  have ne: "nodes \<noteq> []" and nodes': "nodes' = butlast nodes @ [case (r, last nodes) of
      (Quest _, ARep r node) \<Rightarrow> ARep (make_lazy r) node | (r, node) \<Rightarrow> ARep r node]"
    using assms(1) by (auto simp: rep_apply_def split: if_splits)
  have "list_all alts_ok (butlast nodes)" "alts_ok (last nodes)"
    using list_all_butlast_last[OF assms(2) ne] by simp_all
  then show ?thesis unfolding nodes' by (cases r; cases "last nodes") simp_all
qed

lemma counted_apply_alts:
  assumes "counted_apply c nodes = Some (Inr nodes')" "list_all alts_ok nodes"
  shows "list_all alts_ok nodes'"
proof -
  have ne: "nodes \<noteq> []" using assms(1) by (auto simp: counted_apply_def)
  show ?thesis
    using assms(1) ne list_all_butlast_last[OF assms(2) ne]
    by (cases c) (auto simp: counted_apply_def Let_def bind_eq_Some_conv list_all_iff)
qed

definition many_alts :: "parse_all \<Rightarrow> bool" where
  "many_alts many \<longleftrightarrow>
     (\<forall>it root p it' root'. many it root = Some (Inr (p, it', root')) \<longrightarrow> list_all alts_ok root \<longrightarrow> list_all alts_ok root')"

definition loop_alts :: "(ustr \<Rightarrow> ast list \<Rightarrow> ast list \<Rightarrow> (ustr \<times> ast list) parsed) \<Rightarrow> bool" where
  "loop_alts alts \<longleftrightarrow>
     (\<forall>it alt buf it' alt'. alts it alt buf = Some (Inr (it', alt')) \<longrightarrow> alt \<noteq> [] \<longrightarrow> list_all alts_ok alt \<longrightarrow>
        list_all alts_ok buf \<longrightarrow> alt' \<noteq> [] \<and> list_all alts_ok alt')"

lemma handle_subexp_alts:
  assumes many: "many_alts many" and h: "handle_subexp many it root = Some (Inr (it', root'))"
    and root: "list_all alts_ok root"
  shows "list_all alts_ok root'"
proof -
  obtain kind it1 p it2 sub where sub: "many it1 [] = Some (Inr (p, it2, sub))"
    and root': "root' = root @ [ASubMatch kind (concat_or_node sub)]"
    using h
    by (auto simp: handle_subexp_def try_bind_Inr split: parse_end.splits if_splits)
      (metis parse_end.exhaust)+
  have "list_all alts_ok sub" using many[unfolded many_alts_def, rule_format, OF sub] by simp
  then show ?thesis using root by (simp add: root' alts_ok_concat_or_node)
qed

lemma handle_alt_alts:
  assumes loop: "loop_alts alts" and h: "handle_alt alts it root = Some (Inr (it', root'))"
    and root: "list_all alts_ok root"
  shows "list_all alts_ok root'"
proof -
  obtain alt where alt: "alts it [concat_or_node root] [] = Some (Inr (it', alt))" and root': "root' = [AAlt alt]"
    using h by (auto simp: handle_alt_def try_bind_Inr split: if_splits)
  have "alt \<noteq> [] \<and> list_all alts_ok alt"
    using loop[unfolded loop_alts_def, rule_format, OF alt] alts_ok_concat_or_node[OF root] by simp
  then show ?thesis by (simp add: root')
qed

lemma handle_char_alts:
  assumes many: "many_alts many" and loop: "loop_alts alts"
    and h: "handle_char many alts ch it root = Some (Inr (p, it', root'))" and root: "list_all alts_ok root"
  shows "list_all alts_ok root'"
  using h root
  by (auto simp: handle_char_def try_bind_Inr split: if_splits
      dest: rep_apply_alts counted_apply_alts handle_subexp_alts[OF many] handle_alt_alts[OF loop])

lemma parse_alts:
  "parse1 fuel it root = Some (Inr (p, it', root')) \<Longrightarrow> list_all alts_ok root \<Longrightarrow> list_all alts_ok root'"
  "many_alts (parse_many fuel)" "loop_alts (alt_loop fuel)"
proof (induction fuel arbitrary: it root p it' root')
  case (Suc fuel)
  {
    case 1
    have esc: "alts_ok (handle_escaped ch)" for ch by (simp add: handle_escaped_def)
    from 1 show ?case
      using handle_char_alts[OF Suc.IH(2,3)] esc by (auto split: sum.splits option.splits if_splits)
  next
    case 2
    show ?case
      unfolding many_alts_def using Suc.IH(1,2) unfolding many_alts_def
      by (auto simp: try_bind_Inr split: option.splits)
  next
    case 3
    show ?case
      unfolding loop_alts_def
    proof (intro allI impI)
      fix it alt buf it' alt'
      assume l: "alt_loop (Suc fuel) it alt buf = Some (Inr (it', alt'))" "alt \<noteq> []" "list_all alts_ok alt" "list_all alts_ok buf"
      then obtain p it1 buf1 where p: "parse1 fuel it buf = Some (Inr (p, it1, buf1))"
        by (auto simp: try_bind_Inr)
      then have buf: "list_all alts_ok buf1" using Suc.IH(1) l(4) by blast
      then have node: "alts_ok (concat_or_node buf1)" by (rule alts_ok_concat_or_node)
      show "alt' \<noteq> [] \<and> list_all alts_ok alt'"
        using l p buf node Suc.IH(3) by (auto simp: try_bind_Inr loop_alts_def split: if_splits)
    qed
  }
qed (simp_all add: many_alts_def loop_alts_def)

lemma alts_ok_named: "alts_ok a \<Longrightarrow> alts_ok (named_submatch_only a)"
  by (induction a rule: named_submatch_only.induct) (auto simp: list_all_iff)

lemma regex_parse_alts: "regex_parse re = Some (Inr a) \<Longrightarrow> alts_ok a"
  using parse_alts(2)[of "parse_fuel re"]
  by (fastforce simp: regex_parse_def try_bind_Inr many_alts_def Let_def split: if_splits
      intro: alts_ok_named alts_ok_concat_or_node)

subsection \<open>Optimisation of trees\<close>

lemma compress_loop_alts: "list_all alts_ok nodes \<Longrightarrow> list_all alts_ok (fst (compress_loop nodes))"
proof (induction nodes rule: compress_loop.induct)
  case (1 nodes)
  have "list_all alts_ok (flatten_concat n)" if "alts_ok n" for n using that by (cases n) auto
  then have "list_all alts_ok (concat (map flatten_concat nodes))" using 1(2) by (auto simp: list_all_iff)
  then show ?case using 1 by (subst compress_loop.simps) auto
qed

lemma alts_ok_optimise: "alts_ok a \<Longrightarrow> alts_ok (ast_optimise a)"
proof (induction a rule: ast_optimise.induct)
  case (1 a)
  have step: "alts_ok (fst (ast_optimise_step a))"
    using 1(2) compress_loop_alts by (cases a) (auto simp: ast_optimise_step_def)
  show ?case
    using 1(1) step by (subst ast_optimise.simps) (auto split: prod.splits bool.splits)
qed

lemma alts_ok_reverse: "alts_ok a \<Longrightarrow> alts_ok (ast_reverse a)"
  by (induction a rule: ast_reverse.induct) (auto simp: list_all_iff)

lemma compile_total: "alts_ok a \<Longrightarrow> \<exists>co. compile_ast a rv = Some co"
proof -
  assume "alts_ok a"
  then have "alts_ok (if rv then ast_reverse a else a)" using alts_ok_reverse by simp
  then show ?thesis
    using into_ops_total(1)[of _ rv 0 "\<lparr>sm_n = 0, sm_names = []\<rparr>"] by (fastforce simp: compile_ast_def)
qed

subsection \<open>The fuel of the parser\<close>

text \<open>What is left of the pattern: never longer, and of the same characters.\<close>

definition rest :: "ustr \<Rightarrow> ustr \<Rightarrow> bool" where
  "rest it' it \<longleftrightarrow> length it' \<le> length it \<and> set it' \<subseteq> set it"

lemma rest_refl [simp]: "rest it it" by (simp add: rest_def)

lemma rest_Cons [simp]: "rest it (c # it)" "rest it (c # d # it)" by (auto simp: rest_def)

lemma rest_trans [trans]: "rest a b \<Longrightarrow> rest b c \<Longrightarrow> rest a c" by (auto simp: rest_def)

lemma rest_tl [simp]: "rest (tl it) it" by (cases it) (auto simp: rest_def)

lemma rest_dropWhile [simp]: "rest (dropWhile P it) it"
  by (auto simp: rest_def length_dropWhile_le dest: set_dropWhileD)

lemma next_char_rest: "next_char it = Inr (c, it') \<Longrightarrow> rest it' it"
  by (cases it) (auto split: if_splits list.splits option.splits)

lemma next_char_or_rest: "next_char_or e it = Inr (c, it') \<Longrightarrow> rest it' it"
  by (auto simp: next_char_or_def split: sum.splits option.splits dest: next_char_rest)

lemma class_loop_rest: "class_loop chars ranges it = Inr (r, it') \<Longrightarrow> rest it' it"
proof (induction "length it" arbitrary: chars ranges it rule: less_induct)
  case less
  obtain ch escaped it1 where ch: "next_char_or InvalidClass it = Inr ((ch, escaped), it1)"
    using less.prems by (subst (asm) class_loop.simps) (auto split: sum.splits)
  then have len: "length it1 < length it" "rest it1 it" by (auto dest: next_char_or_rest)
  consider (close) "ch = uc CHR '']'' \<and> \<not> escaped" | (range) "\<not> (ch = uc CHR '']'' \<and> \<not> escaped)" "ch = uc CHR ''-'' \<and> \<not> escaped"
    | (char) "\<not> (ch = uc CHR '']'' \<and> \<not> escaped)" "\<not> (ch = uc CHR ''-'' \<and> \<not> escaped)" by blast
  then show ?case
  proof cases
    case close
    then show ?thesis using less.prems ch len by (subst (asm) class_loop.simps) simp
  next
    case range
    then have ne: "chars \<noteq> []" using less.prems ch by (subst (asm) class_loop.simps) auto
    obtain e esc it2 where e: "next_char_or InvalidClass it1 = Inr ((e, esc), it2)" "\<not> e \<le> last chars"
        "class_loop (butlast chars) (ranges @ [(last chars, e)]) it2 = Inr (r, it')"
      using less.prems ch range ne by (subst (asm) class_loop.simps) (auto split: sum.splits if_splits)
    have it2: "length it2 < length it" "rest it2 it1" using e(1) len by (auto dest: next_char_or_rest)
    have "rest it' it2" by (rule less.hyps[OF it2(1) e(3)])
    then show ?thesis using it2(2) len(2) by (blast intro: rest_trans)
  next
    case char
    then have "class_loop (chars @ [ch]) ranges it1 = Inr (r, it')"
      using less.prems ch by (subst (asm) class_loop.simps) (auto split: if_splits)
    from less.hyps[OF len(1) this] show ?thesis using len(2) by (rule rest_trans)
  qed
qed

lemma class_try_parse_rest: "class_try_parse it = Inr (r, it') \<Longrightarrow> rest it' it"
  by (auto simp: class_try_parse_def Let_def split: sum.splits prod.splits if_splits
      dest!: next_char_or_rest class_loop_rest intro: rest_trans)

lemma take_digits_rest: "take_digits it = (s, it') \<Longrightarrow> rest it' it"
  by (induction it arbitrary: s) (auto simp: rest_def le_SucI split: if_splits prod.splits)

lemma parse_num_rest: "parse_num ch it = (n, it') \<Longrightarrow> rest it' it"
  by (auto simp: parse_num_def Let_def split: prod.splits if_splits dest: take_digits_rest)

lemma counted_rest: "try_parse_counted_repetition it = Inr (c, it') \<Longrightarrow> rest it' it"
  by (auto simp: try_parse_counted_repetition_def split: sum.splits prod.splits if_splits option.splits
      dest!: next_char_or_rest parse_num_rest) (meson rest_trans)+

lemma group_kind_rest: "group_kind it = Inr (k, it') \<Longrightarrow> rest it' it"
proof -
  have tl: "rest (tl (dropWhile P xs)) xs" for P xs
    using rest_tl rest_dropWhile by (rule rest_trans)
  show "group_kind it = Inr (k, it') \<Longrightarrow> rest it' it"
    by (auto simp: group_kind_def Let_def split: list.splits if_splits intro: rest_trans[OF tl])
qed

definition many_rest :: "parse_all \<Rightarrow> bool" where
  "many_rest many \<longleftrightarrow> (\<forall>it root p it' root'. many it root = Some (Inr (p, it', root')) \<longrightarrow> rest it' it)"

definition loop_rest :: "(ustr \<Rightarrow> ast list \<Rightarrow> ast list \<Rightarrow> (ustr \<times> ast list) parsed) \<Rightarrow> bool" where
  "loop_rest alts \<longleftrightarrow>
     (\<forall>it alt buf it' alt'. alts it alt buf = Some (Inr (it', alt')) \<longrightarrow> rest it' it)"

lemma handle_subexp_rest:
  assumes many: "many_rest many" and h: "handle_subexp many it root = Some (Inr (it', root'))"
  shows "rest it' it"
proof -
  obtain k it1 p sub where s: "group_kind it = Inr (k, it1)" "many it1 [] = Some (Inr (p, it', sub))"
    using h
    by (auto simp: handle_subexp_def try_bind_Inr split: parse_end.splits if_splits)
      (metis parse_end.exhaust)+
  have "rest it' it1" using many s(2) unfolding many_rest_def by blast
  then show ?thesis using group_kind_rest[OF s(1)] by (rule rest_trans)
qed

lemma handle_alt_rest:
  assumes loop: "loop_rest alts" and h: "handle_alt alts it root = Some (Inr (it', root'))"
  shows "rest it' it"
proof -
  obtain alt where "alts it [concat_or_node root] [] = Some (Inr (it', alt))"
    using h by (auto simp: handle_alt_def try_bind_Inr split: if_splits)
  then show ?thesis using loop unfolding loop_rest_def by blast
qed

lemma handle_char_rest:
  assumes "many_rest many" "loop_rest alts" "handle_char many alts ch it root = Some (Inr (p, it', root'))"
  shows "rest it' it"
  using assms(3)
  by (auto simp: handle_char_def try_bind_Inr split: if_splits
      dest: handle_subexp_rest[OF assms(1)] handle_alt_rest[OF assms(2)] counted_rest class_try_parse_rest)

lemma parse_rest:
  "parse1 fuel it root = Some (Inr (p, it', root')) \<Longrightarrow> rest it' it \<and> (p = None \<longrightarrow> length it' < length it)"
  "many_rest (parse_many fuel)" "loop_rest (alt_loop fuel)"
proof (induction fuel arbitrary: it root p it' root')
  case (Suc fuel)
  {
    case 1
    obtain c it1 where c: "next_char it = Inr (c, it1)" using 1 by (auto split: sum.splits)
    show ?case
    proof (cases c)
      case None
      then show ?thesis using 1 c next_char_rest by auto
    next
      case (Some x)
      obtain ch escaped where x: "x = (ch, escaped)" by (cases x)
      have it1: "rest it1 it" "length it1 < length it" using c Some next_char_rest next_char_length by auto
      have "rest it' it1"
        using 1 c Some x handle_char_rest[OF Suc.IH(2,3)] by (auto split: if_splits)
      then show ?thesis using it1 by (auto simp: rest_def)
    qed
  next
    case 2
    show ?case
      unfolding many_rest_def
    proof (intro allI impI)
      fix it root p it' root'
      assume m: "parse_many (Suc fuel) it root = Some (Inr (p, it', root'))"
      then obtain q it1 root1 where q: "parse1 fuel it root = Some (Inr (q, it1, root1))"
        by (auto simp: try_bind_Inr)
      have "rest it' it1"
        using m q Suc.IH(2)[unfolded many_rest_def, rule_format] by (cases q) auto
      then show "rest it' it" using Suc.IH(1)[OF q] rest_trans by blast
    qed
  next
    case 3
    show ?case
      unfolding loop_rest_def
    proof (intro allI impI)
      fix it alt buf it' alt'
      assume l: "alt_loop (Suc fuel) it alt buf = Some (Inr (it', alt'))"
      then obtain p it1 buf1 where p: "parse1 fuel it buf = Some (Inr (p, it1, buf1))"
        by (auto simp: try_bind_Inr)
      have IH: "rest r' r" if l: "alt_loop fuel r a b = Some (Inr (r', a'))" for r a b r' a'
        using Suc.IH(3) l unfolding loop_rest_def by blast
      have "rest it' it1 \<or> rest it' (tl it1)"
        using l p by (auto split: if_splits dest: IH)
      then have "rest it' it1" using rest_tl rest_trans by blast
      then show "rest it' it" using Suc.IH(1)[OF p] rest_trans by blast
    qed
  }
qed (simp_all add: many_rest_def loop_rest_def)

text \<open>Only a counted repetition can panic.\<close>

lemma try_bind_not_None:
  "try_bind m f \<noteq> None \<longleftrightarrow> m \<noteq> None \<and> (\<forall>x. m = Some (Inr x) \<longrightarrow> f x \<noteq> None)"
  by (auto simp: try_bind_def split: option.splits sum.splits)

lemma handle_subexp_total:
  assumes "\<And>it'. rest it' it \<Longrightarrow> many it' [] \<noteq> None"
  shows "handle_subexp many it root \<noteq> None"
  using assms group_kind_rest
  by (auto simp: handle_subexp_def try_bind_not_None simp del: not_None_eq split: parse_end.splits)

lemma handle_char_total:
  assumes many: "\<And>it'. rest it' it \<Longrightarrow> many it' [] \<noteq> None"
    and loop: "\<And>a. alts it a [] \<noteq> None"
    and ch: "ch \<noteq> uc CHR ''{''"
  shows "handle_char many alts ch it root \<noteq> None"
  using handle_subexp_total[of it many root, OF many] loop ch
  by (auto simp: handle_char_def handle_alt_def try_bind_not_None simp del: not_None_eq)

lemma parse_total:
  "2 * length it + 1 \<le> fuel \<Longrightarrow> uc CHR ''{'' \<notin> set it \<Longrightarrow> parse1 fuel it root \<noteq> None"
  "2 * length it + 2 \<le> fuel \<Longrightarrow> uc CHR ''{'' \<notin> set it \<Longrightarrow> parse_many fuel it root \<noteq> None"
  "2 * length it + 2 \<le> fuel \<Longrightarrow> uc CHR ''{'' \<notin> set it \<Longrightarrow> alt_loop fuel it alt buf \<noteq> None"
proof (induction fuel arbitrary: it root alt buf)
  case (Suc fuel)
  have less: "2 * length it' + 2 \<le> fuel" if "2 * length it + 2 \<le> Suc fuel" "length it' < length it" for it' it :: ustr
    using that by linarith
  {
    case 1
    show ?case
    proof (cases it)
      case Nil
      then show ?thesis by simp
    next
      case (Cons c it0)
      have esc: ?thesis if "c = 0x5C" using that Cons by (simp split: list.split option.split)
      have len: "2 * length it0 + 2 \<le> fuel" and c: "c \<noteq> uc CHR ''{''" "uc CHR ''{'' \<notin> set it0"
        using 1 Cons by auto
      have "handle_char (parse_many fuel) (alt_loop fuel) c it0 root \<noteq> None"
      proof (rule handle_char_total[OF _ _ c(1)])
        fix it' assume "rest it' it0"
        then show "parse_many fuel it' [] \<noteq> None"
          using Suc.IH(2)[of it'] len c(2) by (auto simp: rest_def simp del: not_None_eq)
      qed (use Suc.IH(3) len c(2) in blast)
      then show ?thesis using esc Cons by (cases "c = 0x5C") simp_all
    qed
  next
    case 2
    have fuel: "2 * length it + 1 \<le> fuel" using 2(1) by simp
    have rec: "parse_many fuel it' root' \<noteq> None"
      if p: "parse1 fuel it root = Some (Inr (None, it', root'))" for it' root'
    proof -
      have "length it' < length it" "set it' \<subseteq> set it" using parse_rest(1)[OF p] by (auto simp: rest_def)
      then show ?thesis using Suc.IH(2)[of it' root'] less[OF 2(1)] 2(2) by blast
    qed
    show ?case
      using Suc.IH(1)[OF fuel 2(2)] rec
      by (auto simp: try_bind_not_None simp del: not_None_eq split: option.split)
  next
    case 3
    have fuel: "2 * length it + 1 \<le> fuel" using 3(1) by simp
    have IH: "alt_loop fuel it' alt' buf' \<noteq> None"
      if "length it' < length it" "set it' \<subseteq> set it" for it' alt' buf'
      using Suc.IH(3)[of it' alt' buf'] less[OF 3(1) that(1)] that(2) 3(2) by blast
    have rec: "alt_loop fuel it' alt' buf' \<noteq> None" "alt_loop fuel (tl it') alt' buf' \<noteq> None"
      if p: "parse1 fuel it buf = Some (Inr (None, it', r))" for it' alt' buf' r
    proof -
      have it': "length it' < length it" "set it' \<subseteq> set it" using parse_rest(1)[OF p] by (auto simp: rest_def)
      then show "alt_loop fuel it' alt' buf' \<noteq> None" by (rule IH)
      have "length (tl it') < length it" "set (tl it') \<subseteq> set it"
        using it' rest_tl[of it'] by (auto simp: rest_def)
      then show "alt_loop fuel (tl it') alt' buf' \<noteq> None" by (rule IH)
    qed
    show ?case
      using Suc.IH(1)[OF fuel 3(2)] rec
      by (auto simp: try_bind_not_None simp del: not_None_eq)
  }
qed simp_all

text \<open>A pattern without counted repetitions is parsed or rejected.\<close>

lemma regex_parse_total: "uc CHR ''{'' \<notin> set re \<Longrightarrow> regex_parse re \<noteq> None"
  using parse_total(2)[of re "parse_fuel re" "[]"]
  by (auto simp: regex_parse_def try_bind_not_None parse_fuel_def Let_def simp del: not_None_eq)

end
