(* ===== verification/RegexProperties.thy ===== *)
theory RegexProperties
  imports RegexApi RegexParse
begin

text \<open>
  The properties of the regular expressions: searching through any haystack, the machine against
  its run by value, the optimiser, the compiler and the parser; then the behaviours that differ
  from the documentation.
\<close>

declare inline_loop.simps [code]

text \<open>
  Optimisation of the tree. A class at the root can be replaced by one that matches other
  characters, so it is left out; \<open>no_root_class_optimised\<close> below shows why.
\<close>

lemma matches_concat_Cons: "matches (AConcat (n # nodes)) w \<longleftrightarrow>
  (\<exists>u v. w = u @ v \<and> matches n u \<and> matches (AConcat nodes) v)"
  by auto

lemma matches_concat_single: "matches (AConcat [n]) w \<longleftrightarrow> matches n w"
  by auto

lemma matches_flatten: "matches (AConcat (flatten_concat n @ nodes)) w \<longleftrightarrow> matches (AConcat (n # nodes)) w"
  by (cases n) (simp_all only: flatten_concat.simps matches_append matches_concat_Cons matches_concat_single append.simps)

lemma compress_matches: "matches (AConcat (fst (compress_loop nodes))) w \<longleftrightarrow> matches (AConcat nodes) w"
proof (induction nodes arbitrary: w rule: compress_loop.induct)
  case (1 nodes)
  have flat: "matches (AConcat (concat (map flatten_concat nodes))) w \<longleftrightarrow> matches (AConcat nodes) w" for nodes w
  proof (induction nodes arbitrary: w)
    case (Cons n nodes)
    have "matches (AConcat (concat (map flatten_concat (n # nodes)))) w \<longleftrightarrow>
        (\<exists>u v. w = u @ v \<and> matches (AConcat (flatten_concat n)) u \<and> matches (AConcat nodes) v)"
      by (simp only: list.map concat.simps matches_append Cons.IH)
    then show ?case using matches_flatten[of n nodes w] by (simp only: matches_append)
  qed simp
  show ?case using 1 flat by (subst compress_loop.simps) (simp del: matches_simps)
qed

fun root_class :: "ast \<Rightarrow> bool" where
  "root_class (AComp (CClass _)) = True"
| "root_class _ = False"

lemma optimise_matches: "\<not> root_class a \<Longrightarrow> matches (ast_optimise a) w \<longleftrightarrow> matches a w"
proof (induction a arbitrary: w rule: ast_optimise.induct)
  case (1 a)
  have step: "matches (fst (ast_optimise_step a)) w \<longleftrightarrow> matches a w" for w
    using 1(2) compress_matches
    by (cases a) (auto simp: ast_optimise_step_def replace_common_classes_def simp del: matches_simps split: comp.splits)
  have "\<not> root_class (fst (ast_optimise_step a))"
    using 1(2) by (cases a) (auto simp: ast_optimise_step_def replace_common_classes_def split: comp.splits)
  then show ?case
    using 1(1) step by (subst ast_optimise.simps) (auto split: prod.splits bool.splits simp del: matches_simps)
qed

text \<open>
  The expressions of the search properties: without assertions, which the machine drops or mixes
  up in some programs, and from whose programs the optimiser has removed nothing, since the
  removal can redirect a split (the lemmas at the end of this theory).
\<close>

definition plain_regex :: "ustr \<Rightarrow> ast \<Rightarrow> regex_inner \<Rightarrow> bool" where
  "plain_regex re a rx \<longleftrightarrow>
     regex_parse re = Some (Inr a) \<and> \<not> root_class a \<and> no_assertions (ast_optimise a) \<and>
     regex_compile re = Some (Inr rx) \<and>
     map_option (\<lambda>co. length (co_ops co)) (compile_ast (ast_optimise a) False) = Some (length (rx_prog rx))"

lemma plain_regex_ready:
  assumes "plain_regex re a rx"
  obtains ops where "search_prog ops" "vm_ready ops rx" "rx_track_submatches rx"
    "\<And>u. reach ops 4 u (length ops - 1) \<longleftrightarrow> matches a u"
proof -
  obtain co where co: "compile_ast (ast_optimise a) False = Some co" "length (rx_prog rx) = length (co_ops co)"
    using assms by (auto simp: plain_regex_def)
  then show ?thesis
    using regex_compile_ok[of re rx a co] assms that optimise_matches[of a] unfolding plain_regex_def by metis
qed

text \<open>An expression to apply the properties to: \<open>.b\<close>, which has no leading literals.\<close>

definition dot_b :: ast where "dot_b = AConcat [AComp CAny, AComp (CChar 0x62)]"

lemma uc_codes:
  "uc CHR ''|'' = 0x7C" "uc CHR ''('' = 0x28" "uc CHR '')'' = 0x29" "uc CHR ''?'' = 0x3F" "uc CHR ''*'' = 0x2A"
  "uc CHR ''+'' = 0x2B" "uc CHR ''{'' = 0x7B" "uc CHR ''^'' = 0x5E" "uc CHR ''$'' = 0x24" "uc CHR ''['' = 0x5B"
  "uc CHR ''.'' = 0x2E" "uc CHR ''@'' = 0x40"
  by code_simp+

lemma parse_many_step:
  "next_char it = Inr (Some (ch, False), it') \<Longrightarrow>
   handle_char (parse_many fuel) (alt_loop fuel) ch it' root = Some (Inr (None, it'', root')) \<Longrightarrow>
   parse_many (Suc (Suc fuel)) it root = parse_many (Suc fuel) it'' root'"
  "parse_many (Suc (Suc fuel)) [] root = Some (Inr (Eof, [], root))"
  by simp_all

lemma dot_b_parse: "regex_parse (lit ''.b'') = Some (Inr dot_b)"
proof -
  have re: "lit ''.b'' = [0x2E, 0x62]" by code_simp
  have "parse_many (Suc (Suc (Suc (Suc (Suc (Suc 0)))))) [0x2E, 0x62] [] =
      Some (Inr (Eof, [], [AComp CAny, AComp (CChar 0x62)]))"
    by (subst parse_many_step(1), simp, simp add: handle_char_def uc_codes del: parse_many.simps alt_loop.simps)+
      (rule parse_many_step(2))
  then have "parse_many (parse_fuel [0x2E, 0x62]) [0x2E, 0x62] [] =
      Some (Inr (Eof, [], [AComp CAny, AComp (CChar 0x62)]))"
    by (simp add: parse_fuel_def eval_nat_numeral del: parse_many.simps)
  then show ?thesis
    by (simp add: re regex_parse_def dot_b_def concat_or_node_def del: parse_many.simps)
qed

lemma dot_b_optimise: "ast_optimise dot_b = dot_b"
  by (subst ast_optimise.simps) (simp add: ast_optimise_step_def dot_b_def compress_loop.simps)

lemma dot_b_literals: "leading_literals dot_b = {}"
  by (simp add: leading_literals_def dot_b_def combine_def MAX_LEADING_LITERALS_def)

definition dot_b_ops :: "op list" where
  "dot_b_ops = [OSplit 3 1, OComp CTrueAny, OSplit 3 1, OSave 0, OComp CAny, OComp (CChar 0x62), OSave 1, OMatch]"

lemma dot_b_compile: "compile_ast dot_b False = Some \<lparr>co_ops = dot_b_ops, co_n_submatches = 0, co_submatch_names = []\<rparr>"
  by (simp add: compile_ast_def dot_b_def dot_b_ops_def compile_prefix_def)

lemma dot_b_ops_optimise: "ops_optimise dot_b_ops = Some dot_b_ops"
  by code_simp

definition dot_b_regex :: regex_inner where
  "dot_b_regex = the (regex_new dot_b_ops 0 [] {})"

lemma dot_b_compiled: "regex_compile (lit ''.b'') = Some (Inr dot_b_regex)"
  by (simp add: regex_compile_def dot_b_parse dot_b_optimise dot_b_literals dot_b_compile dot_b_regex_def
      regex_new_def dot_b_ops_optimise Let_def)

lemma dot_b_plain: "plain_regex (lit ''.b'') dot_b dot_b_regex"
  by (simp add: plain_regex_def dot_b_parse dot_b_optimise dot_b_compile dot_b_compiled)
    (simp add: dot_b_def dot_b_regex_def regex_new_def dot_b_ops_optimise Let_def)

lemma dot_b_slow: "rx_fast_start dot_b_regex = None"
  by (simp add: dot_b_regex_def regex_new_def dot_b_ops_optimise Let_def)

lemma plain_regex_ok: "plain_regex re a rx \<Longrightarrow> regex_ok a rx"
  by (erule plain_regex_ready) (auto simp: regex_ok_def)

subsection \<open>Properties\<close>



text \<open>
  On a string, \<open>matches\<close> answers whether the expression matches any part of it.
\<close>

theorem regex_matches_iff:
  assumes "plain_regex re a rx" "str_ok s" "s \<noteq> []" "rx_fast_start rx = None"
  shows "map_option fst (regex_matches ac alnum (str_haystack s) rx) = Some (has_match a s)"
proof -
  have "str.slow s rx" using assms(4) by (simp add: str.slow_def)
  then obtain rx' where "regex_matches_from ac alnum (str_haystack s) (blen []) rx = Some (has_match a s, rx')"
    using str.matches_from[of s "[]" s rx a] plain_regex_ok[OF assms(1)] assms(2,3) by auto
  then show ?thesis by (auto simp: regex_matches_def regex_matches_from_def)
qed

lemma regex_matches_iff_witness:
  "map_option fst (regex_matches (\<lambda>_ _. None) (\<lambda>_. False) (str_haystack [97, 98]) dot_b_regex) =
     Some (has_match dot_b [97, 98])"
  by (rule regex_matches_iff[OF dot_b_plain _ _ dot_b_slow]) (simp_all add: uchar_ok_def)





text \<open>
  C32: inlining the jumps of a compiled program ends, whether the program is reversed or not,
  and changes neither its length nor what it accepts from any instruction.
\<close>

theorem inline_jumps_terminates:
  assumes "compile_ast a rv = Some co"
  shows "\<exists>ops. inline_loop (co_ops co) = Some ops \<and> length ops = length (co_ops co) \<and>
    (\<forall>pc w. accepts ops pc w \<longleftrightarrow> accepts (co_ops co) pc w)"
  using inline_loop_ok[OF compile_prog_ok(1)[OF assms]] by blast

lemma inline_jumps_terminates_witness:
  "\<exists>co ops. compile_ast dot_b True = Some co \<and> inline_loop (co_ops co) = Some ops \<and> length ops = length (co_ops co)"
proof -
  have "compile_ast dot_b True \<noteq> None" by code_simp
  then obtain co where "compile_ast dot_b True = Some co" by auto
  then show ?thesis using inline_jumps_terminates[of dot_b True co] by auto
qed



text \<open>
  C34: the fuel of the parser is enough, a pattern without counted repetitions is parsed or
  rejected, every tree that it parses has alternations with branches only, and every such tree
  compiles, in either direction.
\<close>

theorem parse_compiles:
  "(uc CHR ''{'' \<notin> set re \<longrightarrow> regex_parse re \<noteq> None) \<and>
   (\<forall>a. regex_parse re = Some (Inr a) \<longrightarrow> alts_ok a \<and> (\<forall>rv. compile_ast (ast_optimise a) rv \<noteq> None))"
proof (intro conjI impI allI)
  show "uc CHR ''{'' \<notin> set re \<Longrightarrow> regex_parse re \<noteq> None" by (rule regex_parse_total)
  fix a rv
  assume "regex_parse re = Some (Inr a)"
  then show ok: "alts_ok a" by (rule regex_parse_alts)
  show "compile_ast (ast_optimise a) rv \<noteq> None"
    using compile_total[OF alts_ok_optimise[OF ok], of rv] by auto
qed

lemma parse_compiles_witness: "regex_parse (lit ''(a|b)c*'') \<noteq> None"
proof -
  have "uc CHR ''{'' \<notin> set (lit ''(a|b)c*'')" by code_simp
  then show ?thesis using parse_compiles by blast
qed

subsection \<open>Behaviours that differ from the documentation\<close>

text \<open>
  \<open>[^0-9]\<close> at the root of an expression is optimised to the class of the characters
  that are no digits, which has the newline that a negated class leaves out.
\<close>

lemma no_root_class_optimised:
  "let cls = \<lparr>cls_negated = True, cls_chars = [], cls_ranges = [(0x30, 0x39)]\<rparr>
   in replace_common_classes (CClass cls) = (CNonNumeric, True) \<and>
     \<not> comp_matches (CClass cls) 0x0A \<and> comp_matches CNonNumeric 0x0A"
  by (simp add: replace_common_classes_def class_matches_def is_ascii_digit_def)

text \<open>
  The program of \<open>(?:a|b*)*dc+\<close> with its jumps inlined: instruction 11 is removed, and the
  split behind it, whose targets are both later, has its first target moved down twice and its
  second one not at all. It goes to \<open>d\<close> and to \<open>Match\<close> instead of to \<open>c\<close> and to
  \<open>Save(1)\<close>.
\<close>

lemma strip_moves_one_target_twice:
  "strip_unreachable_instructions
     [OSplit 3 1, OComp CTrueAny, OSplit 3 1, OSave 0, OSplit 5 12, OSplit 6 8, OComp (CChar 97), OSplit 5 12,
      OSplit 9 4, OComp (CChar 98), OSplit 9 4, OSplit 5 12, OComp (CChar 100), OComp (CChar 99), OSplit 13 15,
      OSave 1, OMatch] =
   Some [OSplit 3 1, OComp CTrueAny, OSplit 3 1, OSave 0, OSplit 5 11, OSplit 6 8, OComp (CChar 97), OSplit 5 11,
      OSplit 9 4, OComp (CChar 98), OSplit 9 4, OComp (CChar 100), OComp (CChar 99), OSplit 11 15,
      OSave 1, OMatch]"
  by (simp add: strip_unreachable_instructions_def to_from_def usub_def nth_opt_def enumerate_eq_zip eval_nat_numeral)

text \<open>Two characters that differ only above their lowest byte are escaped alike: \<open>\\U+012A\<close> is \<open>*\<close>.\<close>

lemma escape_by_low_byte: "next_char [0x5C, 0x12A] = Inr (Some (uc CHR ''*'', True), [])"
  by code_simp

end
