(* ===== verification/Keys.thy ===== *)
theory Keys
  imports Utf8
begin

text \<open>
  Key presses and mouse events, and how they are read off the escape sequences of a terminal
  (src/key.rs).
\<close>

datatype arrow = AUp | ADown | ALeft | ARight

fun arrow_flip :: "arrow \<Rightarrow> arrow" where
  "arrow_flip AUp = ADown"
| "arrow_flip ADown = AUp"
| "arrow_flip ALeft = ARight"
| "arrow_flip ARight = ALeft"

datatype mouse_button = MLeft | MMiddle | MRight | MWheelUp | MWheelDown

datatype mouse_mod = NoMod | AltMod | CtrlMod | AltCtrlMod

datatype mouse_event_kind = MPress | MHold | MRelease

record mouse_event =
  me_k :: mouse_event_kind
  me_m :: mouse_mod
  me_b :: mouse_button
  me_x :: nat
  me_y :: nat

datatype input =
    IChar uchar | ICtrl uchar | IAlt uchar | ICtrlAlt uchar | ITab | IBackTab | IAltReturn | IReturn
  | IBackspace | IArrow arrow | IDel | IHome | IEnd | IPageUp | IPageDown | IEsc | IMouse mouse_event

definition input_from_char :: "uchar \<Rightarrow> input" where
  "input_from_char c =
     (if c = 0x1B then IEsc
      else if c = 0x0A \<or> c = 0x0D then IReturn
      else if c = 0x7F then IBackspace
      else if c = 0x09 then ITab
      else if 0x01 \<le> c \<and> c \<le> 0x1A then ICtrl (c - 0x01 + uc CHR ''a'')
      else if 0x1C \<le> c \<and> c \<le> 0x1F then ICtrl (c - 0x1C + uc CHR ''4'')
      else IChar c)"

definition try_from_seq2 :: "uchar \<Rightarrow> uchar \<Rightarrow> input option" where
  "try_from_seq2 c1 c2 =
     (if c1 = uc CHR ''O'' \<and> c2 = uc CHR ''H'' then Some IHome
      else if c1 = uc CHR ''O'' \<and> c2 = uc CHR ''F'' then Some IEnd
      else if c1 = uc CHR ''['' \<and> c2 = uc CHR ''A'' then Some (IArrow AUp)
      else if c1 = uc CHR ''['' \<and> c2 = uc CHR ''B'' then Some (IArrow ADown)
      else if c1 = uc CHR ''['' \<and> c2 = uc CHR ''C'' then Some (IArrow ARight)
      else if c1 = uc CHR ''['' \<and> c2 = uc CHR ''D'' then Some (IArrow ALeft)
      else if c1 = uc CHR ''['' \<and> c2 = uc CHR ''H'' then Some IHome
      else if c1 = uc CHR ''['' \<and> c2 = uc CHR ''Z'' then Some IBackTab
      else if c1 = 0x1B \<and> c2 < 0x80 then
        (case input_from_char c2 of
           IChar c \<Rightarrow> Some (IAlt c)
         | ICtrl c \<Rightarrow> Some (ICtrlAlt c)
         | IReturn \<Rightarrow> Some IAltReturn
         | _ \<Rightarrow> None)
      else None)"

definition try_from_bracket_tilde :: "uchar \<Rightarrow> input option" where
  "try_from_bracket_tilde c =
     (if c = uc CHR ''1'' \<or> c = uc CHR ''7'' then Some IHome
      else if c = uc CHR ''4'' \<or> c = uc CHR ''8'' then Some IEnd
      else if c = uc CHR ''3'' then Some IDel
      else if c = uc CHR ''5'' then Some IPageUp
      else if c = uc CHR ''6'' then Some IPageDown
      else None)"

text \<open>The table of \<open>try_from_raw\<close>: a press ends in \<open>M\<close>, a release in \<open>m\<close>, a drag in either.\<close>

definition mouse_table :: "(nat \<times> bool option \<times> mouse_event_kind \<times> mouse_mod \<times> mouse_button) list" where
  "mouse_table =
     [(0, Some True, MPress, NoMod, MLeft), (1, Some True, MPress, NoMod, MMiddle),
      (2, Some True, MPress, NoMod, MRight), (64, Some True, MPress, NoMod, MWheelUp),
      (65, Some True, MPress, NoMod, MWheelDown),
      (0, Some False, MRelease, NoMod, MLeft), (3, None, MRelease, NoMod, MLeft),
      (1, Some False, MRelease, NoMod, MMiddle), (2, Some False, MRelease, NoMod, MRight),
      (64, Some False, MRelease, NoMod, MWheelUp), (65, Some False, MRelease, NoMod, MWheelDown),
      (32, None, MHold, NoMod, MLeft), (33, None, MHold, NoMod, MMiddle), (34, None, MHold, NoMod, MRight),
      (8, Some True, MPress, AltMod, MLeft), (9, Some True, MPress, AltMod, MMiddle),
      (10, Some True, MPress, AltMod, MRight), (72, Some True, MPress, AltMod, MWheelUp),
      (73, Some True, MPress, AltMod, MWheelDown),
      (8, Some False, MRelease, AltMod, MLeft), (9, Some False, MRelease, AltMod, MMiddle),
      (10, Some False, MRelease, AltMod, MRight), (72, Some False, MRelease, AltMod, MWheelUp),
      (73, Some False, MRelease, AltMod, MWheelDown),
      (40, None, MHold, AltMod, MLeft), (41, None, MHold, AltMod, MMiddle), (42, None, MHold, AltMod, MRight),
      (16, Some True, MPress, CtrlMod, MLeft), (17, Some True, MPress, CtrlMod, MMiddle),
      (18, Some True, MPress, CtrlMod, MRight), (80, Some True, MPress, CtrlMod, MWheelUp),
      (81, Some True, MPress, CtrlMod, MWheelDown),
      (16, Some False, MRelease, CtrlMod, MLeft), (17, Some False, MRelease, CtrlMod, MMiddle),
      (18, Some False, MRelease, CtrlMod, MRight), (80, Some False, MRelease, CtrlMod, MWheelUp),
      (81, Some False, MRelease, CtrlMod, MWheelDown),
      (48, None, MHold, CtrlMod, MLeft), (49, None, MHold, CtrlMod, MMiddle), (50, None, MHold, CtrlMod, MRight),
      (24, Some True, MPress, AltCtrlMod, MLeft), (25, Some True, MPress, AltCtrlMod, MMiddle),
      (26, Some True, MPress, AltCtrlMod, MRight), (88, Some True, MPress, AltCtrlMod, MWheelUp),
      (89, Some True, MPress, AltCtrlMod, MWheelDown),
      (24, Some False, MRelease, AltCtrlMod, MLeft), (25, Some False, MRelease, AltCtrlMod, MMiddle),
      (26, Some False, MRelease, AltCtrlMod, MRight), (88, Some False, MRelease, AltCtrlMod, MWheelUp),
      (89, Some False, MRelease, AltCtrlMod, MWheelDown),
      (56, None, MHold, AltCtrlMod, MLeft), (57, None, MHold, AltCtrlMod, MMiddle),
      (58, None, MHold, AltCtrlMod, MRight)]"

definition try_from_raw :: "nat \<Rightarrow> nat \<Rightarrow> nat \<Rightarrow> uchar \<Rightarrow> mouse_event option" where
  "try_from_raw b x y c =
     (case find (\<lambda>(b', end_c, _). b' = b \<and>
            (case end_c of None \<Rightarrow> True
             | Some press \<Rightarrow> c = (if press then uc CHR ''M'' else uc CHR ''m''))) mouse_table of
        None \<Rightarrow> None
      | Some (_, _, k, m, b) \<Rightarrow> Some \<lparr>me_k = k, me_m = m, me_b = b, me_x = x, me_y = y\<rparr>)"

end
