(* ===== verification/Motion.thy ===== *)
theory Motion
  imports Buffer RegexAst Keys
begin

text \<open>
  The moves of a cursor (src/dot/cur.rs, src/dot/range.rs) and the searches for a simple target
  (src/dot/find.rs, src/dot/text_object.rs). Reading a line of a buffer leaves the buffer as it
  is; slicing it at character offsets updates the cache of its gap buffer, which is returned.
\<close>

subsection \<open>Display columns\<close>

text \<open>
  The part of the configuration that moves and raw input read, and the width of a character on
  the screen, from the tables of the unicode-width package.
\<close>

record display =
  d_tabstop :: nat
  d_expand_tab :: bool
  d_match_indent :: bool
  d_width :: "uchar \<Rightarrow> nat option"

definition tab_pad :: "display \<Rightarrow> nat \<Rightarrow> nat option" where
  "tab_pad d rx = do {
     t \<leftarrow> usub (d_tabstop d) 1;
     pad \<leftarrow> usub t (rx mod d_tabstop d);
     Some (rx + pad)
   }"

fun x_scan :: "display \<Rightarrow> nat \<Rightarrow> nat \<Rightarrow> nat \<Rightarrow> ustr \<Rightarrow> nat option" where
  "x_scan d buf_rx rx cx [] = Some cx"
| "x_scan d buf_rx rx cx (c # cs) =
     (if c = newline then Some cx
      else do {
        rx \<leftarrow> (if c = 9 then tab_pad d rx else Some rx);
        let rx = rx + (case d_width d c of None \<Rightarrow> 1 | Some w \<Rightarrow> w);
        if buf_rx < rx then Some cx else x_scan d buf_rx rx (cx + 1) cs
      })"

definition line_chars :: "buffer \<Rightarrow> nat \<Rightarrow> ustr option" where
  "line_chars b y = do {
     sl \<leftarrow> gb_line (b_txt b) y;
     chars_collect (Suc (sl_len sl)) (slice_chars sl)
   }"

definition x_from_provided_rx :: "display \<Rightarrow> nat \<Rightarrow> nat \<Rightarrow> buffer \<Rightarrow> nat option" where
  "x_from_provided_rx d y buf_rx b =
     (if buf_is_empty b then Some 0
      else do { cs \<leftarrow> line_chars b y; x_scan d buf_rx 0 0 cs })"

definition x_from_rx :: "display \<Rightarrow> nat \<Rightarrow> buffer \<Rightarrow> nat option" where
  "x_from_rx d y b = x_from_provided_rx d y (b_cached_rx b) b"

subsection \<open>Cursors\<close>

definition cur_buffer_end :: "buffer \<Rightarrow> cur" where
  "cur_buffer_end b = Cur (len_chars (b_txt b))"

definition as_yx :: "cur \<Rightarrow> buffer \<Rightarrow> (nat \<times> nat) option" where
  "as_yx c b = do {
     y \<leftarrow> char_to_line (b_txt b) (cur_idx c);
     line_start \<leftarrow> line_to_char (b_txt b) y;
     x \<leftarrow> usub (cur_idx c) line_start;
     Some (y, x)
   }"

definition from_yx :: "nat \<Rightarrow> nat \<Rightarrow> buffer \<Rightarrow> cur option" where
  "from_yx y_idx x_idx b = do {
     line_start \<leftarrow> line_to_char (b_txt b) y_idx;
     x_max \<leftarrow> line_len_chars (b_txt b) y_idx;
     n \<leftarrow> len_lines (b_txt b);
     last_line \<leftarrow> usub n 1;
     x_max \<leftarrow> (if y_idx < last_line then usub x_max 1 else Some x_max);
     Some (Cur (line_start + min x_idx x_max))
   }"

definition cur_arr :: "display \<Rightarrow> arrow \<Rightarrow> cur \<Rightarrow> buffer \<Rightarrow> cur option" where
  "cur_arr d arr c b =
     (case arr of
        AUp \<Rightarrow> do {
          (y, _) \<leftarrow> as_yx c b;
          if y \<noteq> 0 then do {
            line_start \<leftarrow> line_to_char (b_txt b) (y - 1);
            x \<leftarrow> x_from_rx d (y - 1) b;
            Some (Cur (line_start + x))
          } else Some c
        }
      | ADown \<Rightarrow> do {
          (y, _) \<leftarrow> as_yx c b;
          n \<leftarrow> len_lines (b_txt b);
          last_line \<leftarrow> usub n 1;
          if \<not> buf_is_empty b \<and> y < last_line then do {
            line_start \<leftarrow> line_to_char (b_txt b) (y + 1);
            x \<leftarrow> x_from_rx d (y + 1) b;
            Some (Cur (line_start + x))
          } else Some c
        }
      | ALeft \<Rightarrow> Some (Cur (cur_idx c - 1))
      | ARight \<Rightarrow> Some (Cur (min (cur_idx c + 1) (len_chars (b_txt b)))))"

fun arr_times :: "display \<Rightarrow> arrow \<Rightarrow> nat \<Rightarrow> cur \<Rightarrow> buffer \<Rightarrow> cur option" where
  "arr_times d arr 0 c b = Some c"
| "arr_times d arr (Suc n) c b = do { c \<leftarrow> cur_arr d arr c b; arr_times d arr n c b }"

definition arr_w_count :: "display \<Rightarrow> arrow \<Rightarrow> nat \<Rightarrow> cur \<Rightarrow> buffer \<Rightarrow> cur option" where
  "arr_w_count d arr count c b = do {
     c \<leftarrow> arr_times d arr count c b;
     Some (cur_clamp_idx c (len_chars (b_txt b)))
   }"

definition move_to_line_start :: "cur \<Rightarrow> buffer \<Rightarrow> cur option" where
  "move_to_line_start c b = do {
     y \<leftarrow> char_to_line (b_txt b) (cur_idx c);
     line_start \<leftarrow> line_to_char (b_txt b) y;
     Some (Cur line_start)
   }"

definition move_to_line_end :: "cur \<Rightarrow> buffer \<Rightarrow> cur option" where
  "move_to_line_end c b = do {
     y \<leftarrow> char_to_line (b_txt b) (cur_idx c);
     line_start \<leftarrow> line_to_char (b_txt b) y;
     n \<leftarrow> line_len_chars (b_txt b) y;
     lines \<leftarrow> len_lines (b_txt b);
     Some (Cur (if y < lines - 1 then line_start + n - 1 else line_start + n))
   }"

definition extend_to_line_start :: "dot_range \<Rightarrow> buffer \<Rightarrow> dot_range option" where
  "extend_to_line_start r b = do {
     c \<leftarrow> move_to_line_start (r_start r) b;
     Some (r\<lparr>r_start := c\<rparr>)
   }"

definition extend_to_line_end :: "dot_range \<Rightarrow> buffer \<Rightarrow> dot_range option" where
  "extend_to_line_end r b = do {
     c \<leftarrow> move_to_line_end (r_end r) b;
     Some (r\<lparr>r_end := c\<rparr>)
   }"

subsection \<open>Addresses as text\<close>

text \<open>\<open>format!("{}", n)\<close>\<close>

function show_nat :: "nat \<Rightarrow> ustr" where
  "show_nat n = (if n < 10 then [] else show_nat (n div 10)) @ [of_nat (48 + n mod 10)]"
  by pat_completeness auto
termination by (relation "measure id") auto

declare show_nat.simps [simp del]

definition cur_string_addr :: "cur \<Rightarrow> buffer \<Rightarrow> ustr option" where
  "cur_string_addr c b = do {
     (y, x) \<leftarrow> as_yx c b;
     Some (show_nat (y + 1) @ uc CHR '':'' # show_nat (x + 1))
   }"

definition range_string_addr :: "dot_range \<Rightarrow> buffer \<Rightarrow> ustr option" where
  "range_string_addr r b = do {
     s \<leftarrow> cur_string_addr (r_start r) b;
     e \<leftarrow> cur_string_addr (r_end r) b;
     Some (s @ uc CHR '','' # e)
   }"

definition dot_addr :: "dot \<Rightarrow> buffer \<Rightarrow> ustr option" where
  "dot_addr d b = (case d of DotCur c \<Rightarrow> cur_string_addr c b | DotRange r \<Rightarrow> range_string_addr r b)"

subsection \<open>Searches\<close>

text \<open>
  \<open>iter_between_chars\<close> and \<open>rev_iter_between_chars\<close>: the characters with their indices. The code
  reads them as far as it needs; a slice of a buffer decodes to its end, so all are read here.
\<close>

definition iter_between_chars :: "nat \<Rightarrow> nat \<Rightarrow> buffer \<Rightarrow> ((nat \<times> uchar) list \<times> buffer) option" where
  "iter_between_chars char_from char_to b = do {
     (sl, txt) \<leftarrow> gb_slice_chars (b_txt b) char_from char_to;
     it \<leftarrow> indexed_chars sl char_from False;
     ics \<leftarrow> idx_chars_collect (Suc (sl_len sl)) it;
     Some (ics, b\<lparr>b_txt := txt\<rparr>)
   }"

definition rev_iter_between_chars :: "nat \<Rightarrow> nat \<Rightarrow> buffer \<Rightarrow> ((nat \<times> uchar) list \<times> buffer) option" where
  "rev_iter_between_chars char_from char_to b = do {
     (sl, txt) \<leftarrow> gb_slice_chars (b_txt b) char_to char_from;
     it \<leftarrow> indexed_chars sl char_to True;
     ics \<leftarrow> idx_chars_collect (Suc (sl_len sl)) it;
     Some (ics, b\<lparr>b_txt := txt\<rparr>)
   }"

text \<open>
  The implementations of \<open>Find\<close>: predicates on characters, characters, strings, and the ends of
  delimited text, paragraphs and words. A flag is set for the reverse of the last three.
\<close>

datatype finder =
    FindPred "uchar \<Rightarrow> bool" | FindCh uchar | FindStr ustr
  | FindDelimited ustr ustr bool | FindParagraph bool | FindWord bool

fun reversed :: "finder \<Rightarrow> finder" where
  "reversed (FindPred f) = FindPred f"
| "reversed (FindCh c) = FindCh c"
| "reversed (FindStr s) = FindStr (rev s)"
| "reversed (FindDelimited l r rv) = FindDelimited l r (\<not> rv)"
| "reversed (FindParagraph bck) = FindParagraph (\<not> bck)"
| "reversed (FindWord bck) = FindWord (\<not> bck)"

fun find_pred :: "(uchar \<Rightarrow> bool) \<Rightarrow> (nat \<times> uchar) list \<Rightarrow> (nat \<times> nat) option" where
  "find_pred f [] = None"
| "find_pred f ((i, ch) # it) = (if f ch then Some (i, i) else find_pred f it)"

fun find_str :: "ustr \<Rightarrow> nat \<Rightarrow> nat \<Rightarrow> (nat \<times> uchar) list \<Rightarrow> (nat \<times> nat) option option" where
  "find_str chars cix start [] = Some None"
| "find_str chars cix start ((i, ch) # it) = do {
     c \<leftarrow> nth_opt chars cix;
     if ch \<noteq> c then find_str chars 0 0 it
     else
       let start = (if cix = 0 then i else start)
       in if cix = length chars - 1 then Some (Some (start, i))
          else find_str chars (cix + 1) start it
   }"

fun find_delimited :: "ustr \<Rightarrow> ustr \<Rightarrow> bool \<Rightarrow> nat \<Rightarrow> (nat \<times> uchar) list \<Rightarrow> (nat \<times> nat) option option" where
  "find_delimited target other rv skips [] = Some None"
| "find_delimited target other rv skips ((i, ch) # it) =
     (if ch \<in> set other \<and> target \<noteq> other then find_delimited target other rv (skips + 1) it
      else if skips = 0 \<and> ch \<in> set target then do {
        ix \<leftarrow> (if rv then Some (i + 1) else usub i 1);
        Some (Some (ix, ix))
      }
      else if ch \<in> set target then find_delimited target other rv (skips - 1) it
      else find_delimited target other rv skips it)"

fun find_paragraph :: "bool \<Rightarrow> bool \<Rightarrow> nat \<Rightarrow> (nat \<times> uchar) list \<Rightarrow> nat \<times> nat" where
  "find_paragraph bck prev_was_newline pos [] = (pos, pos)"
| "find_paragraph bck prev_was_newline pos ((i, ch) # it) =
     (if ch = newline \<and> prev_was_newline then (if bck then (i + 1, i + 1) else (i, i))
      else find_paragraph bck (ch = newline) i it)"

text \<open>\<open>CharKind::from\<close>\<close>

definition dot_kind :: "(uchar \<Rightarrow> bool) \<Rightarrow> uchar \<Rightarrow> char_kind" where
  "dot_kind alnum ch =
     (if alnum ch \<or> ch = uc CHR ''_'' then Word else if is_whitespace ch then Whitespace else Punctuation)"

text \<open>The ends of words: where one of these kinds of characters is followed by the other.\<close>

fun word_ends :: "char_kind \<Rightarrow> char_kind \<Rightarrow> bool" where
  "word_ends Word Punctuation = True"
| "word_ends Punctuation Word = True"
| "word_ends Word Whitespace = True"
| "word_ends Punctuation Whitespace = True"
| "word_ends _ _ = False"

fun find_word :: "(uchar \<Rightarrow> bool) \<Rightarrow> bool \<Rightarrow> char_kind \<Rightarrow> (nat \<times> uchar) list \<Rightarrow> (nat \<times> nat) option option" where
  "find_word alnum bck prev [] = Some None"
| "find_word alnum bck prev ((i, ch) # it) =
     (let kind = dot_kind alnum ch
      in if word_ends prev kind then do {
           ix \<leftarrow> (if bck then Some (i + 1) else usub i 1);
           Some (Some (ix, ix))
         }
         else find_word alnum bck kind it)"

definition find_word_from :: "(uchar \<Rightarrow> bool) \<Rightarrow> bool \<Rightarrow> (nat \<times> uchar) list \<Rightarrow> (nat \<times> nat) option option" where
  "find_word_from alnum bck it =
     (case it of
        [] \<Rightarrow> Some None
      | (_, ch) # it' \<Rightarrow>
          let prev = dot_kind alnum ch
          in if prev \<noteq> Whitespace \<and> \<not> bck
             then (case it' of
                     [] \<Rightarrow> Some None
                   | (_, ch) # _ \<Rightarrow> find_word alnum bck (dot_kind alnum ch) it')
             else find_word alnum bck prev it)"

definition try_find :: "(uchar \<Rightarrow> bool) \<Rightarrow> finder \<Rightarrow> (nat \<times> uchar) list \<Rightarrow> (nat \<times> nat) option option" where
  "try_find alnum f it =
     (case f of
        FindPred p \<Rightarrow> Some (find_pred p it)
      | FindCh c \<Rightarrow> Some (find_pred (\<lambda>ch. ch = c) it)
      | FindStr s \<Rightarrow> find_str s 0 0 it
      | FindDelimited l r rv \<Rightarrow> if rv then find_delimited l r rv 0 it else find_delimited r l rv 0 it
      | FindParagraph bck \<Rightarrow> Some (Some (find_paragraph bck False 0 it))
      | FindWord bck \<Rightarrow> find_word_from alnum bck it)"

definition match_to_dot :: "(nat \<times> nat) option \<Rightarrow> dot option" where
  "match_to_dot m =
     (case m of
        Some (start, end_idx) \<Rightarrow>
          Some (if start = end_idx then DotCur (Cur start) else dot_from_char_indices start end_idx)
      | None \<Rightarrow> None)"

definition find_between ::
  "(uchar \<Rightarrow> bool) \<Rightarrow> finder \<Rightarrow> nat \<Rightarrow> nat \<Rightarrow> buffer \<Rightarrow> (dot option \<times> buffer) option" where
  "find_between alnum f from to b = do {
     (it, b) \<leftarrow> iter_between_chars from to b;
     m \<leftarrow> try_find alnum f it;
     Some (match_to_dot m, b)
   }"

definition rev_find_between ::
  "(uchar \<Rightarrow> bool) \<Rightarrow> finder \<Rightarrow> nat \<Rightarrow> nat \<Rightarrow> buffer \<Rightarrow> (dot option \<times> buffer) option" where
  "rev_find_between alnum f from to b = do {
     ch_from \<leftarrow> byte_to_char (b_txt b) from;
     ch_to \<leftarrow> byte_to_char (b_txt b) to;
     (it, b) \<leftarrow> rev_iter_between_chars ch_from ch_to b;
     m \<leftarrow> try_find alnum (reversed f) it;
     Some (match_to_dot m, b)
   }"

definition find_forward :: "(uchar \<Rightarrow> bool) \<Rightarrow> finder \<Rightarrow> cur \<Rightarrow> buffer \<Rightarrow> (dot option \<times> buffer) option" where
  "find_forward alnum f c b = find_between alnum f (cur_idx c) (len_chars (b_txt b)) b"

definition find_forward_end :: "(uchar \<Rightarrow> bool) \<Rightarrow> finder \<Rightarrow> cur \<Rightarrow> buffer \<Rightarrow> (cur \<times> buffer) option" where
  "find_forward_end alnum f c b = do {
     (m, b) \<leftarrow> find_forward alnum f c b;
     Some (last_cur (case m of Some d \<Rightarrow> d | None \<Rightarrow> DotCur (cur_buffer_end b)), b)
   }"

definition find_forward_wrapping :: "(uchar \<Rightarrow> bool) \<Rightarrow> finder \<Rightarrow> buffer \<Rightarrow> (dot option \<times> buffer) option" where
  "find_forward_wrapping alnum f b = do {
     let from = cur_idx (last_cur (b_dot b));
     (m, b) \<leftarrow> find_between alnum f from (len_chars (b_txt b)) b;
     case m of
       Some d \<Rightarrow> Some (Some d, b)
     | None \<Rightarrow> find_between alnum f 0 from b
   }"

definition find_backward :: "(uchar \<Rightarrow> bool) \<Rightarrow> finder \<Rightarrow> cur \<Rightarrow> buffer \<Rightarrow> (dot option \<times> buffer) option" where
  "find_backward alnum f c b = rev_find_between alnum f (cur_idx c) 0 b"

definition find_backward_start :: "(uchar \<Rightarrow> bool) \<Rightarrow> finder \<Rightarrow> cur \<Rightarrow> buffer \<Rightarrow> (cur \<times> buffer) option" where
  "find_backward_start alnum f c b = do {
     (m, b) \<leftarrow> find_backward alnum f c b;
     Some (first_cur (case m of Some d \<Rightarrow> d | None \<Rightarrow> dot_default), b)
   }"

end
