(* ===== verification/Address.thy ===== *)
theory Address
  imports Motion RegexHaystack
begin

text \<open>
  Input of the hand-written parsers (src/parse.rs), and the addresses that select a part of a text
  (src/exec/addr.rs): their parser and how an address is resolved to a dot, for gap buffers and for
  buffers.
\<close>

subsection \<open>Parser input\<close>

text \<open>The text of an input is cut at the position: the offset counts the bytes in front of it.\<close>

record parse_input =
  in_done :: ustr
  in_rest :: ustr
  in_line :: nat
  in_column :: nat

record parse_position = pp_offset :: nat   pp_line :: nat   pp_column :: nat

record span = span_start :: parse_position   span_end :: parse_position

record 'k parse_error = pe_kind :: 'k   pe_source :: ustr   pe_span :: span

definition parse_input_new :: "ustr \<Rightarrow> parse_input" where
  "parse_input_new s = \<lparr>in_done = [], in_rest = s, in_line = 1, in_column = 1\<rparr>"

definition in_text :: "parse_input \<Rightarrow> ustr" where "in_text s = in_done s @ in_rest s"
definition in_offset :: "parse_input \<Rightarrow> nat" where "in_offset s = blen (in_done s)"
definition at_bof :: "parse_input \<Rightarrow> bool" where "at_bof s \<longleftrightarrow> in_offset s = 0"
definition at_eof :: "parse_input \<Rightarrow> bool" where "at_eof s \<longleftrightarrow> in_offset s = blen (in_text s)"

definition in_char :: "parse_input \<Rightarrow> uchar option" where
  "in_char s = (case in_rest s of [] \<Rightarrow> None | c # _ \<Rightarrow> Some c)"

definition try_char :: "parse_input \<Rightarrow> uchar option option" where
  "try_char s = (if at_eof s then Some None else map_option Some (in_char s))"

definition in_pos :: "parse_input \<Rightarrow> parse_position" where
  "in_pos s = \<lparr>pp_offset = in_offset s, pp_line = in_line s, pp_column = in_column s\<rparr>"

definition in_span :: "parse_input \<Rightarrow> span" where
  "in_span s = \<lparr>span_start = in_pos s, span_end = in_pos s\<rparr>"

definition advance :: "parse_input \<Rightarrow> parse_input" where
  "advance s =
     (case in_rest s of
        [] \<Rightarrow> s
      | c # r \<Rightarrow>
          if c = newline
          then s\<lparr>in_done := in_done s @ [c], in_rest := r, in_line := in_line s + 1, in_column := 1\<rparr>
          else s\<lparr>in_done := in_done s @ [c], in_rest := r, in_column := in_column s + 1\<rparr>)"

definition parse_error_new :: "'k \<Rightarrow> ustr \<Rightarrow> span \<Rightarrow> 'k parse_error option" where
  "parse_error_new kind source sp = do {
     src \<leftarrow> str_index source (pp_offset (span_start sp)) (pp_offset (span_end sp));
     Some \<lparr>pe_kind = kind, pe_source = src, pe_span = sp\<rparr>
   }"

text \<open>A parser returns an error or a value, and the input behind it either way; it can panic.\<close>

type_synonym ('k, 'a) parser = "parse_input \<Rightarrow> (('k parse_error + 'a) \<times> parse_input) option"

definition p_ok :: "'a \<Rightarrow> ('k, 'a) parser" where
  "p_ok x s = Some (Inr x, s)"

definition p_error :: "'k \<Rightarrow> ('k, 'a) parser" where
  "p_error kind s = do { e \<leftarrow> parse_error_new kind (in_text s) (in_span s); Some (Inl e, s) }"

definition p_bind :: "('k, 'a) parser \<Rightarrow> ('a \<Rightarrow> ('k, 'b) parser) \<Rightarrow> ('k, 'b) parser" where
  "p_bind p f s =
     (case p s of
        None \<Rightarrow> None
      | Some (Inl e, s) \<Rightarrow> Some (Inl e, s)
      | Some (Inr x, s) \<Rightarrow> f x s)"

subsection \<open>Addresses\<close>

datatype addr_error =
    InvalidRegex regex_error | InvalidSuffix | NotAnAddress | UnclosedDelimiter
  | UnexpectedCharacter uchar | UnexpectedEof | ZeroIndexedLineOrColumn

datatype addr_base =
    BCurrent | BCurrentLine | BBol | BEol | BBof | BEof | BLine nat | BRelativeLine int | BChar nat
  | BRelativeChar int | BLineAndColumn nat nat | BRegex regex_inner | BRegexBack regex_inner

record simple_addr = sa_base :: addr_base   sa_suffixes :: "addr_base list"

datatype addr = Explicit dot | Simple simple_addr | Compound simple_addr simple_addr

definition simple_from_base :: "addr_base \<Rightarrow> simple_addr" where
  "simple_from_base ab = \<lparr>sa_base = ab, sa_suffixes = []\<rparr>"

definition is_valid_suffix :: "addr_base \<Rightarrow> bool" where
  "is_valid_suffix ab =
     (case ab of BBol \<Rightarrow> True | BEol \<Rightarrow> True | BCurrentLine \<Rightarrow> True | BRelativeLine _ \<Rightarrow> True
      | BRelativeChar _ \<Rightarrow> True | BRegex _ \<Rightarrow> True | BRegexBack _ \<Rightarrow> True | _ \<Rightarrow> False)"

definition addr_from_dot :: "dot \<Rightarrow> buffer \<Rightarrow> addr option" where
  "addr_from_dot d b =
     (case d of
        DotCur c \<Rightarrow> do {
          (y, x) \<leftarrow> as_yx c b;
          Some (Simple (simple_from_base (BLineAndColumn y x)))
        }
      | DotRange r \<Rightarrow> do {
          (y1, x1) \<leftarrow> as_yx (r_start r) b;
          (y2, x2) \<leftarrow> as_yx (r_end r) b;
          Some (Compound (simple_from_base (BLineAndColumn y1 x1)) (simple_from_base (BLineAndColumn y2 x2)))
        })"

definition addr_full :: addr where
  "addr_full = Compound (simple_from_base BBof) (simple_from_base BEof)"

subsection \<open>The parser of addresses\<close>

datatype dir = Fwd | Bck

text \<open>\<open>usize as isize\<close>, \<open>isize as usize\<close>, and the arithmetic of \<open>isize\<close>, which panics on overflow.\<close>

definition as_isize :: "nat \<Rightarrow> int" where
  "as_isize n = sint (word_of_nat n :: 64 word)"

definition as_usize :: "int \<Rightarrow> nat" where
  "as_usize i = unat (word_of_int i :: 64 word)"

definition isize_checked :: "int \<Rightarrow> int option" where
  "isize_checked i = (if - (2 ^ 63) \<le> i \<and> i < 2 ^ 63 then Some i else None)"

function push_digits :: "parse_input \<Rightarrow> ustr \<Rightarrow> ustr \<times> parse_input" where
  "push_digits s acc =
     (case in_rest s of
        [] \<Rightarrow> (acc, s)
      | c # _ \<Rightarrow> if is_ascii_digit c then push_digits (advance s) (acc @ [c]) else (acc, s))"
  by pat_completeness auto
termination
  by (relation "measure (\<lambda>(s, _). length (in_rest s))") (auto simp: advance_def)

declare push_digits.simps [simp del]

definition parse_usize :: "ustr \<Rightarrow> nat option" where
  "parse_usize s =
     (let n = foldl (\<lambda>n c. 10 * n + nat (uint (c - 0x30))) 0 s in if n < 2 ^ 64 then Some n else None)"

definition try_parse_num :: "(addr_error, nat) parser" where
  "try_parse_num s = do {
     c \<leftarrow> in_char s;
     rust_assert (is_ascii_digit c);
     let (digits, s) = push_digits (advance s) [c];
     case parse_usize digits of
       None \<Rightarrow> p_error NotAnAddress s
     | Some n \<Rightarrow> p_ok n s
   }"

function delimited_loop :: "dir \<Rightarrow> uchar \<Rightarrow> ustr \<Rightarrow> (addr_error, addr_base) parser" where
  "delimited_loop dir prev acc s =
     (case in_rest s of
        [] \<Rightarrow> p_error UnclosedDelimiter s
      | ch # _ \<Rightarrow>
          if ch = uc CHR ''/'' \<and> prev \<noteq> 0x5C then
            (let s = advance s
             in case dir of
                  Fwd \<Rightarrow> do {
                    rx \<leftarrow> regex_compile acc;
                    case rx of Inl e \<Rightarrow> p_error (InvalidRegex e) s | Inr rx \<Rightarrow> p_ok (BRegex rx) s
                  }
                | Bck \<Rightarrow> do {
                    rx \<leftarrow> rev_regex_compile acc;
                    case rx of Inl e \<Rightarrow> p_error (InvalidRegex e) s | Inr rx \<Rightarrow> p_ok (BRegexBack rx) s
                  })
          else delimited_loop dir ch (acc @ [ch]) (advance s))"
  by pat_completeness auto
termination
  by (relation "measure (\<lambda>(_, _, _, s). length (in_rest s))") (auto simp: advance_def)

declare delimited_loop.simps [simp del]

definition parse_delimited_regex :: "dir \<Rightarrow> (addr_error, addr_base) parser" where
  "parse_delimited_regex dir s = do {
     c \<leftarrow> in_char s;
     rust_assert (c = uc CHR ''/'');
     delimited_loop dir (uc CHR ''/'') [] (advance s)
   }"

text \<open>The arms of \<open>parse_base\<close> for \<open>#\<close> and for digits.\<close>

definition parse_char_base :: "dir option \<Rightarrow> (addr_error, addr_base) parser" where
  "parse_char_base dir s =
     (let s = advance s
      in if (case in_rest s of [] \<Rightarrow> True | c # _ \<Rightarrow> \<not> is_ascii_digit c) then p_error NotAnAddress s
         else p_bind try_parse_num (\<lambda>ix s.
           case dir of
             None \<Rightarrow> p_ok (BChar ix) s
           | Some Fwd \<Rightarrow> p_ok (BRelativeChar (as_isize ix)) s
           | Some Bck \<Rightarrow> do { i \<leftarrow> isize_checked (- as_isize ix); p_ok (BRelativeChar i) s }) s)"

definition parse_line_base :: "dir option \<Rightarrow> (addr_error, addr_base) parser" where
  "parse_line_base dir =
     p_bind try_parse_num (\<lambda>line s.
       if line = 0 then p_error ZeroIndexedLineOrColumn s
       else do {
         ch \<leftarrow> try_char s;
         if ch = Some (uc CHR '':'') then
           (if dir \<noteq> None then p_error NotAnAddress s
            else
              let s = advance s
              in case in_rest s of
                   [] \<Rightarrow> p_error NotAnAddress s
                 | c # _ \<Rightarrow>
                     if \<not> is_ascii_digit c then p_error (UnexpectedCharacter c) s
                     else p_bind try_parse_num (\<lambda>col s.
                       if col = 0 then p_error ZeroIndexedLineOrColumn s
                       else p_ok (BLineAndColumn (line - 1) (col - 1)) s) s)
         else case dir of
           None \<Rightarrow> p_ok (BLine (line - 1)) s
         | Some Fwd \<Rightarrow> p_ok (BRelativeLine (as_isize line)) s
         | Some Bck \<Rightarrow> do { i \<leftarrow> isize_checked (- as_isize line); p_ok (BRelativeLine i) s }
       })"

definition parse_base_from :: "dir option \<Rightarrow> uchar \<Rightarrow> (addr_error, addr_base) parser" where
  "parse_base_from dir c s =
     (if c \<in> set (lit ''.0$'') \<and> dir \<noteq> None then p_error NotAnAddress s
      else if (c = uc CHR ''-'' \<and> dir = Some Fwd) \<or> (c = uc CHR ''+'' \<and> dir = Some Bck)
      then p_ok BCurrentLine (advance s)
      else if c = uc CHR ''.'' then p_ok BCurrent (advance s)
      else if c = uc CHR ''0'' then p_ok BBof (advance s)
      else if c = uc CHR ''$'' then p_ok BEof (advance s)
      else if c = uc CHR ''#'' then parse_char_base dir s
      else if is_ascii_digit c then parse_line_base dir s
      else if c = uc CHR ''/'' then
        parse_delimited_regex (case dir of None \<Rightarrow> Fwd | Some dir \<Rightarrow> dir) s
      else if dir = Some Fwd then p_ok BEol s
      else if dir = Some Bck then p_ok BBol s
      else p_error NotAnAddress s)"

definition parse_base :: "(addr_error, addr_base) parser" where
  "parse_base s =
     (case in_rest s of
        [] \<Rightarrow> p_error UnexpectedEof s
      | c # _ \<Rightarrow>
          if c = uc CHR ''-'' then
            (let s = advance s
             in case in_rest s of [] \<Rightarrow> p_ok BBol s | c # _ \<Rightarrow> parse_base_from (Some Bck) c s)
          else if c = uc CHR ''+'' then
            (let s = advance s
             in case in_rest s of [] \<Rightarrow> p_ok BEol s | c # _ \<Rightarrow> parse_base_from (Some Fwd) c s)
          else parse_base_from None c s)"

text \<open>The loop over suffixes, with fuel for the characters that are left: each suffix consumes one.\<close>

fun suffix_loop :: "nat \<Rightarrow> addr_base list \<Rightarrow> (addr_error, addr_base list) parser" where
  "suffix_loop 0 suffixes s = (if in_rest s = [] then p_ok suffixes s else None)"
| "suffix_loop (Suc n) suffixes s =
     (case in_rest s of
        [] \<Rightarrow> p_ok suffixes s
      | c # _ \<Rightarrow>
          if c \<notin> set (lit ''-+'') then p_ok suffixes s
          else p_bind parse_base (\<lambda>ab s.
            if \<not> is_valid_suffix ab then p_error InvalidSuffix s
            else suffix_loop n (suffixes @ [ab]) s) s)"

definition parse_simple :: "(addr_error, simple_addr) parser" where
  "parse_simple =
     p_bind parse_base (\<lambda>base s.
       p_bind (suffix_loop (length (in_rest s)) []) (\<lambda>suffixes.
         p_ok \<lparr>sa_base = base, sa_suffixes = suffixes\<rparr>) s)"

definition addr_parse_from :: "(addr_error, addr) parser" where
  "addr_parse_from s = do {
     (start, s) \<leftarrow> parse_simple s;
     ch \<leftarrow> try_char s;
     start \<leftarrow> Some (case start of
                 Inr a \<Rightarrow> Inr (Some a)
               | Inl e \<Rightarrow> if at_bof s \<and> ch = Some (uc CHR '','') then Inr None else Inl e);
     case start of
       Inl e \<Rightarrow> Some (Inl e, s)
     | Inr start \<Rightarrow>
         if ch = None \<or> ch = Some 0x20 then
           (case start of None \<Rightarrow> p_error NotAnAddress s | Some a \<Rightarrow> p_ok (Simple a) s)
         else if ch = Some (uc CHR '','') then
           (let s = advance s;
                start = (case start of None \<Rightarrow> simple_from_base BBof | Some a \<Rightarrow> a)
            in if (case in_rest s of [] \<Rightarrow> True | c # _ \<Rightarrow> is_whitespace c)
               then p_ok (Compound start (simple_from_base BEof)) s
               else p_bind parse_simple (\<lambda>end_addr. p_ok (Compound start end_addr)) s)
         else p_error NotAnAddress s
   }"

definition addr_parse :: "ustr \<Rightarrow> (addr_error parse_error + addr) option" where
  "addr_parse s = map_option fst (addr_parse_from (parse_input_new s))"

subsection \<open>Resolving an address\<close>

text \<open>
  The methods of \<open>Address\<close>. An expression in an address is searched for in the state it was
  compiled to: the state that a search leaves behind gives the same answers.
\<close>

record address =
  ad_haystack :: haystack
  ad_current_dot :: dot
  ad_len_chars :: nat
  ad_line_to_char :: "nat \<Rightarrow> nat option option"
  ad_char_to_line :: "nat \<Rightarrow> nat option option"
  ad_char_to_line_end :: "nat \<Rightarrow> nat option option"
  ad_char_to_line_start :: "nat \<Rightarrow> nat option option"

definition max_iter :: "address \<Rightarrow> nat" where "max_iter h = ad_len_chars h"

text \<open>The operator \<open>?\<close> on an option that a call returns.\<close>

definition opt_bind :: "'a option option \<Rightarrow> ('a \<Rightarrow> 'b option option) \<Rightarrow> 'b option option" where
  "opt_bind m f = (case m of None \<Rightarrow> None | Some None \<Rightarrow> Some None | Some (Some x) \<Rightarrow> f x)"

definition full_line :: "address \<Rightarrow> nat \<Rightarrow> dot option option" where
  "full_line h line_idx =
     opt_bind (ad_line_to_char h line_idx) (\<lambda>from.
     opt_bind (ad_char_to_line_end h from) (\<lambda>to.
       Some (Some (dot_from_char_indices from (to - 1)))))"

definition match_dot :: "address \<Rightarrow> (match option \<times> regex_inner) option \<Rightarrow> dot option option" where
  "match_dot h res =
     opt_bind (map_option fst res) (\<lambda>m. do {
       (byte_from, byte_to) \<leftarrow> match_loc m;
       from \<leftarrow> Option.bind (hs_byte_to_char (ad_haystack h) byte_from) (\<lambda>from. from);
       to \<leftarrow> Option.bind (hs_byte_to_char (ad_haystack h) byte_to) (\<lambda>to. to);
       Some (Some (dot_from_char_indices from (to - 1)))
     })"

definition map_addr_base ::
  "literal_search \<Rightarrow> (uchar \<Rightarrow> bool) \<Rightarrow> address \<Rightarrow> addr_base \<Rightarrow> dot \<Rightarrow> dot option option" where
  "map_addr_base ac alnum h ab cur_dot =
     (let start = cur_idx (r_start (as_range cur_dot)); end_idx = cur_idx (r_end (as_range cur_dot));
          active = cur_idx (active_cur cur_dot)
      in case ab of
        BCurrent \<Rightarrow> Some (Some cur_dot)
      | BBof \<Rightarrow> Some (Some (DotCur (Cur 0)))
      | BEof \<Rightarrow> Some (Some (DotCur (Cur (max_iter h))))
      | BBol \<Rightarrow> opt_bind (ad_char_to_line_start h start) (\<lambda>from.
          Some (Some (dot_from_char_indices from end_idx)))
      | BEol \<Rightarrow> opt_bind (ad_char_to_line_end h end_idx) (\<lambda>to.
          Some (Some (dot_from_char_indices start to)))
      | BCurrentLine \<Rightarrow>
          opt_bind (ad_char_to_line_start h start) (\<lambda>from.
          opt_bind (ad_char_to_line_end h end_idx) (\<lambda>to.
            Some (Some (dot_from_char_indices from to))))
      | BLine line_idx \<Rightarrow> full_line h line_idx
      | BRelativeLine offset \<Rightarrow>
          opt_bind (ad_char_to_line h active) (\<lambda>line_idx. do {
            i \<leftarrow> isize_checked (as_isize line_idx + offset);
            full_line h (as_usize i)
          })
      | BChar idx \<Rightarrow> Some (Some (DotCur (Cur idx)))
      | BRelativeChar offset \<Rightarrow> do {
          i \<leftarrow> isize_checked (as_isize active + offset);
          Some (Some (DotCur (Cur (as_usize i))))
        }
      | BLineAndColumn line col \<Rightarrow>
          opt_bind (ad_line_to_char h line) (\<lambda>idx. Some (Some (DotCur (Cur (idx + col)))))
      | BRegex rx \<Rightarrow>
          match_dot h (regex_find_from ac alnum (ad_haystack h) (cur_idx (last_cur cur_dot)) rx)
      | BRegexBack rx \<Rightarrow>
          match_dot h (find_rev_from alnum (ad_haystack h) (cur_idx (first_cur cur_dot)) rx))"

fun map_suffixes ::
  "literal_search \<Rightarrow> (uchar \<Rightarrow> bool) \<Rightarrow> address \<Rightarrow> addr_base list \<Rightarrow> dot \<Rightarrow> dot option option" where
  "map_suffixes ac alnum h [] d = Some (Some d)"
| "map_suffixes ac alnum h (suffix # suffixes) d =
     opt_bind (map_addr_base ac alnum h suffix d) (map_suffixes ac alnum h suffixes)"

definition map_simple_addr ::
  "literal_search \<Rightarrow> (uchar \<Rightarrow> bool) \<Rightarrow> address \<Rightarrow> simple_addr \<Rightarrow> dot \<Rightarrow> dot option option" where
  "map_simple_addr ac alnum h a cur_dot =
     opt_bind (map_addr_base ac alnum h (sa_base a) cur_dot) (map_suffixes ac alnum h (sa_suffixes a))"

definition map_compound_addr ::
  "literal_search \<Rightarrow> (uchar \<Rightarrow> bool) \<Rightarrow> address \<Rightarrow> simple_addr \<Rightarrow> simple_addr \<Rightarrow> dot option option" where
  "map_compound_addr ac alnum h from to =
     opt_bind (map_simple_addr ac alnum h from (ad_current_dot h)) (\<lambda>d1.
     opt_bind (map_simple_addr ac alnum h to (ad_current_dot h)) (\<lambda>d2.
       Some (Some (DotRange (range_from_cursors (first_cur d1) (last_cur d2) False)))))"

definition map_addr :: "literal_search \<Rightarrow> (uchar \<Rightarrow> bool) \<Rightarrow> address \<Rightarrow> addr \<Rightarrow> dot option" where
  "map_addr ac alnum h a = do {
     maybe_dot \<leftarrow>
       (case a of
          Explicit d \<Rightarrow> Some (Some d)
        | Simple a \<Rightarrow> map_simple_addr ac alnum h a (ad_current_dot h)
        | Compound from to \<Rightarrow> map_compound_addr ac alnum h from to);
     Some (dot_clamp_idx (case maybe_dot of None \<Rightarrow> dot_default | Some d \<Rightarrow> d) (max_iter h))
   }"

subsection \<open>Gap buffers and buffers\<close>

definition gap_char_to_line_end :: "gap_buffer \<Rightarrow> nat \<Rightarrow> nat option option" where
  "gap_char_to_line_end gb char_idx =
     opt_bind (try_char_to_line gb char_idx) (\<lambda>line_idx. do {
       nxt \<leftarrow> try_line_to_char gb (line_idx + 1);
       case nxt of
         None \<Rightarrow> map_option Some (usub (len_chars gb) 1)
       | Some idx \<Rightarrow> Some (Some idx)
     })"

definition gap_char_to_line_start :: "gap_buffer \<Rightarrow> nat \<Rightarrow> nat option option" where
  "gap_char_to_line_start gb char_idx =
     opt_bind (try_char_to_line gb char_idx) (\<lambda>line_idx. map_option Some (line_to_char gb line_idx))"

definition gap_address :: "gap_buffer \<Rightarrow> address" where
  "gap_address gb =
     \<lparr>ad_haystack = gap_haystack gb, ad_current_dot = dot_from_char_indices 0 (len_chars gb - 1),
      ad_len_chars = len_chars gb, ad_line_to_char = try_line_to_char gb,
      ad_char_to_line = try_char_to_line gb, ad_char_to_line_end = gap_char_to_line_end gb,
      ad_char_to_line_start = gap_char_to_line_start gb\<rparr>"

definition buffer_haystack :: "buffer \<Rightarrow> haystack" where
  "buffer_haystack b = gap_haystack (b_txt b)"

definition buffer_char_to_line_end :: "buffer \<Rightarrow> nat \<Rightarrow> nat option option" where
  "buffer_char_to_line_end b char_idx =
     opt_bind (try_char_to_line (b_txt b) char_idx) (\<lambda>line_idx. do {
       nxt \<leftarrow> try_line_to_char (b_txt b) (line_idx + 1);
       case nxt of
         None \<Rightarrow> map_option Some (usub (len_chars (b_txt b)) 1)
       | Some idx \<Rightarrow> Some (Some idx)
     })"

definition buffer_char_to_line_start :: "buffer \<Rightarrow> nat \<Rightarrow> nat option option" where
  "buffer_char_to_line_start b char_idx =
     opt_bind (try_char_to_line (b_txt b) char_idx) (\<lambda>line_idx. map_option Some (line_to_char (b_txt b) line_idx))"

definition buffer_address :: "buffer \<Rightarrow> address" where
  "buffer_address b =
     \<lparr>ad_haystack = buffer_haystack b, ad_current_dot = b_dot b, ad_len_chars = len_chars (b_txt b),
      ad_line_to_char = try_line_to_char (b_txt b), ad_char_to_line = try_char_to_line (b_txt b),
      ad_char_to_line_end = buffer_char_to_line_end b,
      ad_char_to_line_start = buffer_char_to_line_start b\<rparr>"

end
