(* ===== verification/AddressParse.thy ===== *)
theory AddressParse
  imports Address
begin

text \<open>
  What the parser of addresses reads: numbers, lines, and lines with columns, up to the first
  character that is not a digit.
\<close>

subsection \<open>Parser input\<close>

lemma at_eof_iff [simp]: "at_eof s \<longleftrightarrow> in_rest s = []"
  by (simp add: at_eof_def in_offset_def in_text_def)

lemma try_char_eq: "try_char s = Some (case in_rest s of [] \<Rightarrow> None | c # _ \<Rightarrow> Some c)"
  by (simp add: try_char_def in_char_def split: list.split)

lemma advance_rest [simp]: "in_rest (advance s) = tl (in_rest s)"
  by (simp add: advance_def split: list.split)

lemma p_bind_simps:
  "p s = Some (Inr x, s') \<Longrightarrow> p_bind p f s = f x s'"
  "p s = Some (Inl e, s') \<Longrightarrow> p_bind p f s = Some (Inl e, s')"
  by (simp_all add: p_bind_def)

text \<open>\<open>reads p w x\<close>: in front of anything but a digit, \<open>p\<close> consumes \<open>w\<close> and returns \<open>x\<close>.\<close>

definition stops :: "ustr \<Rightarrow> bool" where
  "stops r \<longleftrightarrow> (case r of [] \<Rightarrow> True | c # _ \<Rightarrow> \<not> is_ascii_digit c)"

definition reads :: "('k, 'a) parser \<Rightarrow> ustr \<Rightarrow> 'a \<Rightarrow> bool" where
  "reads p w x \<longleftrightarrow> (\<forall>s r. in_rest s = w @ r \<longrightarrow> stops r \<longrightarrow> (\<exists>s'. p s = Some (Inr x, s') \<and> in_rest s' = r))"

lemma readsE:
  assumes "reads p w x" "in_rest s = w @ r" "stops r"
  obtains s' where "p s = Some (Inr x, s')" "in_rest s' = r"
  using assms unfolding reads_def by blast

subsection \<open>Numbers\<close>

lemma digit_word:
  assumes "d < 10"
  shows "is_ascii_digit (of_nat (48 + d))" "unat (of_nat (48 + d) - 0x30 :: uchar) = d"
    "(of_nat (48 + d) = (0x30 :: uchar)) = (d = 0)"
proof -
  have "d \<in> {0, 1, 2, 3, 4, 5, 6, 7, 8, 9}" using assms by auto
  then show "is_ascii_digit (of_nat (48 + d))" "unat (of_nat (48 + d) - 0x30 :: uchar) = d"
    "(of_nat (48 + d) = (0x30 :: uchar)) = (d = 0)"
    by (auto simp: is_ascii_digit_def)
qed

definition digits_value :: "ustr \<Rightarrow> nat" where
  "digits_value s = foldl (\<lambda>n c. 10 * n + unat (c - 0x30)) 0 s"

lemma show_nat_digits:
  "show_nat n \<noteq> []" "list_all is_ascii_digit (show_nat n)" "digits_value (show_nat n) = n"
  "0 < n \<Longrightarrow> hd (show_nat n) \<noteq> 0x30"
proof (induction n rule: show_nat.induct)
  case (1 n)
  let ?d = "of_nat (48 + n mod 10) :: uchar"
  have d: "n mod 10 < 10" by simp
  have eq: "show_nat n = (if n < 10 then [] else show_nat (n div 10)) @ [?d]" by (rule show_nat.simps)
  show "show_nat n \<noteq> []" unfolding eq by simp
  show "list_all is_ascii_digit (show_nat n)"
    unfolding eq using 1(2) digit_word(1)[OF d] by simp
  show "digits_value (show_nat n) = n"
    unfolding eq using 1(3) digit_word(2)[OF d] by (cases "n < 10") (simp_all add: digits_value_def del: of_nat_add)
  show "hd (show_nat n) \<noteq> 0x30" if "0 < n"
  proof (cases "n < 10")
    case True
    then show ?thesis unfolding eq using that digit_word(3)[OF d] by simp
  next
    case False
    then show ?thesis unfolding eq using 1(1,4) by simp
  qed
qed

lemma parse_usize_show: "n < 2 ^ 64 \<Longrightarrow> parse_usize (show_nat n) = Some n"
  using show_nat_digits(3)[of n] by (simp add: parse_usize_def digits_value_def Let_def)

lemma push_digits_run:
  fixes s :: parse_input
  shows "in_rest s = ds @ r \<Longrightarrow> list_all is_ascii_digit ds \<Longrightarrow> stops r \<Longrightarrow>
   \<exists>s'. push_digits s acc = (acc @ ds, s') \<and> in_rest s' = r"
proof (induction ds arbitrary: s acc)
  case Nil
  then show ?case by (subst push_digits.simps) (auto simp: stops_def split: list.splits)
next
  case (Cons d ds)
  then show ?case using Cons.IH[of "advance s" "acc @ [d]"] by (subst push_digits.simps) auto
qed

lemma reads_num:
  "n < 2 ^ 64 \<Longrightarrow> reads try_parse_num (show_nat n) n"
proof (unfold reads_def, intro allI impI)
  fix s :: parse_input and r assume n: "n < 2 ^ 64" and s: "in_rest s = show_nat n @ r" "stops r"
  obtain d ds where d: "show_nat n = d # ds" using show_nat_digits(1) by (metis list.exhaust)
  have dig: "is_ascii_digit d" "list_all is_ascii_digit ds" using show_nat_digits(2)[of n] unfolding d by simp_all
  obtain s' where "push_digits (advance s) [d] = (d # ds, s')" "in_rest s' = r"
    using push_digits_run[of "advance s" ds r "[d]"] s dig unfolding d by auto
  then show "\<exists>s'. try_parse_num s = Some (Inr n, s') \<and> in_rest s' = r"
    using s dig parse_usize_show[OF n] unfolding d by (simp add: try_parse_num_def in_char_def p_ok_def)
qed

subsection \<open>Lines and columns\<close>

lemma show_nat_pos:
  obtains d ds where "show_nat (n + 1) = d # ds" "is_ascii_digit d" "d \<noteq> 0x30"
  using show_nat_digits[of "n + 1"] that by (cases "show_nat (n + 1)") auto

lemma digit_not_sign:
  "is_ascii_digit d \<Longrightarrow> d \<noteq> uc CHR ''-'' \<and> d \<noteq> uc CHR ''+'' \<and> d \<noteq> uc CHR ''.'' \<and> d \<noteq> uc CHR ''$'' \<and> d \<noteq> uc CHR ''#''"
  by (auto simp: is_ascii_digit_def uc_def)

lemma parse_base_digit:
  assumes "in_rest s = d # r" "is_ascii_digit d" "d \<noteq> 0x30"
  shows "parse_base s = parse_line_base None s"
proof -
  have "d \<noteq> uc CHR ''0''" using assms(3) by (simp add: uc_def)
  then show ?thesis using assms digit_not_sign[OF assms(2)] by (simp add: parse_base_def parse_base_from_def)
qed

lemma colon_stops: "stops (uc CHR '':'' # r)"
  by (simp add: stops_def is_ascii_digit_def uc_def)

lemma reads_line_column:
  assumes "y + 1 < 2 ^ 64" "x + 1 < 2 ^ 64"
  shows "reads parse_base (show_nat (y + 1) @ uc CHR '':'' # show_nat (x + 1)) (BLineAndColumn y x)"
proof (unfold reads_def, intro allI impI)
  fix s :: parse_input and r assume s: "in_rest s = (show_nat (y + 1) @ uc CHR '':'' # show_nat (x + 1)) @ r" "stops r"
  obtain d ds where d: "show_nat (y + 1) = d # ds" "is_ascii_digit d" "d \<noteq> 0x30" by (rule show_nat_pos)
  obtain d' ds' where d': "show_nat (x + 1) = d' # ds'" "is_ascii_digit d'" "d' \<noteq> 0x30" by (rule show_nat_pos)
  obtain s1 where s1: "try_parse_num s = Some (Inr (y + 1), s1)" "in_rest s1 = uc CHR '':'' # show_nat (x + 1) @ r"
    by (rule readsE[OF reads_num[OF assms(1)] _ colon_stops, of s "show_nat (x + 1) @ r"])
       (simp_all only: s(1) append.simps append_assoc)
  have "in_rest (advance s1) = show_nat (x + 1) @ r" using s1(2) by simp
  then obtain s2 where s2: "try_parse_num (advance s1) = Some (Inr (x + 1), s2)" "in_rest s2 = r"
    using readsE[OF reads_num[OF assms(2)] _ s(2)] by blast
  have "parse_base s = parse_line_base None s" using s d by (intro parse_base_digit) auto
  then show "\<exists>s'. parse_base s = Some (Inr (BLineAndColumn y x), s') \<and> in_rest s' = r"
    using s1 s2 d'
    by (simp add: parse_line_base_def p_bind_simps(1)[where p = try_parse_num, OF s1(1)] try_char_eq p_bind_simps(1)[where p = try_parse_num, OF s2(1)] p_ok_def)
qed

lemma reads_line:
  fixes s :: parse_input
  assumes "y + 1 < 2 ^ 64"
  shows "in_rest s = show_nat (y + 1) @ r \<Longrightarrow> r = [] \<or> hd r = uc CHR '','' \<Longrightarrow>
    \<exists>s'. parse_base s = Some (Inr (BLine y), s') \<and> in_rest s' = r"
proof -
  assume s: "in_rest s = show_nat (y + 1) @ r" "r = [] \<or> hd r = uc CHR '',''"
  have r: "stops r" using s(2) by (cases r) (auto simp: stops_def is_ascii_digit_def uc_def)
  obtain d ds where d: "show_nat (y + 1) = d # ds" "is_ascii_digit d" "d \<noteq> 0x30" by (rule show_nat_pos)
  obtain s1 where s1: "try_parse_num s = Some (Inr (y + 1), s1)" "in_rest s1 = r"
    using readsE[OF reads_num[OF assms] s(1) r] .
  have "uc CHR '','' \<noteq> uc CHR '':''" by (simp add: uc_def)
  moreover have "parse_base s = parse_line_base None s" using s d by (intro parse_base_digit) auto
  ultimately show ?thesis
    using s1 s(2)
    by (auto simp: parse_line_base_def p_bind_simps(1)[where p = try_parse_num, OF s1(1)] try_char_eq p_ok_def split: list.splits)
qed

subsection \<open>Whole addresses\<close>

lemma parse_simple_no_suffix:
  assumes "parse_base s = Some (Inr ab, s')" "in_rest s' = [] \<or> hd (in_rest s') = uc CHR '',''"
  shows "parse_simple s = Some (Inr (simple_from_base ab), s')"
proof -
  have "uc CHR '','' \<notin> set (lit ''-+'')" by (simp add: uc_def lit_def)
  then have "suffix_loop (length (in_rest s')) [] s' = Some (Inr [], s')"
    using assms(2) by (cases "in_rest s'") (auto simp: p_ok_def)
  then show ?thesis
    using assms(1) by (simp add: parse_simple_def p_bind_def p_ok_def simple_from_base_def)
qed

lemma addr_parse_simple:
  assumes "parse_base (parse_input_new t) = Some (Inr ab, s')" "in_rest s' = []"
  shows "addr_parse t = Some (Inr (Simple (simple_from_base ab)))"
  using assms parse_simple_no_suffix[OF assms(1)]
  by (simp add: addr_parse_def addr_parse_from_def try_char_eq p_ok_def)

lemma addr_parse_compound:
  assumes "parse_base (parse_input_new t) = Some (Inr ab, s1)" "in_rest s1 = uc CHR '','' # r"
    "r \<noteq> []" "\<not> is_whitespace (hd r)"
    "parse_base (advance s1) = Some (Inr ab', s2)" "in_rest s2 = []"
  shows "addr_parse t = Some (Inr (Compound (simple_from_base ab) (simple_from_base ab')))"
proof -
  have comma: "uc CHR '','' \<noteq> 0x20" by (simp add: uc_def)
  have "parse_simple (parse_input_new t) = Some (Inr (simple_from_base ab), s1)"
    using assms(2) by (intro parse_simple_no_suffix[OF assms(1)]) simp
  moreover have "parse_simple (advance s1) = Some (Inr (simple_from_base ab'), s2)"
    using assms(6) by (intro parse_simple_no_suffix[OF assms(5)]) simp
  ultimately show ?thesis
    using assms(2-4) comma
    by (cases r) (simp_all add: addr_parse_def addr_parse_from_def try_char_eq p_ok_def p_bind_def)
qed

lemma digit_not_whitespace: "is_ascii_digit d \<Longrightarrow> \<not> is_whitespace d"
  by (auto simp: is_ascii_digit_def is_whitespace_def word_le_nat_alt)

end
