(* ===== verification/TextObject.thy ===== *)
theory TextObject
  imports Motion
begin

text \<open>
  Text objects (src/dot/text_object.rs) and how a buffer moves its dot by them, expands it and
  takes raw input (src/buffer/mod.rs).
\<close>

datatype text_object =
    TArr arrow | TBufferEnd | TBufferStart | TCharacter | TFindChar uchar | TDelimited uchar uchar
  | TLine | TLineEnd | TLineStart | TParagraph | TWord

definition close_range :: "cur \<Rightarrow> cur \<Rightarrow> bool \<Rightarrow> dot" where
  "close_range start end_cur start_active =
     collapse_null_range (DotRange (range_from_cursors start end_cur start_active))"

subsection \<open>Expansion\<close>

definition find_expand :: "(uchar \<Rightarrow> bool) \<Rightarrow> finder \<Rightarrow> dot \<Rightarrow> buffer \<Rightarrow> (dot \<times> buffer) option" where
  "find_expand alnum f d b = do {
     let r = as_range d;
     (start, b) \<leftarrow> find_backward_start alnum f (r_start r) b;
     (end_cur, b) \<leftarrow> find_forward_end alnum f (r_end r) b;
     Some (close_range start end_cur (r_start_active r), b)
   }"

definition buf_char :: "nat \<Rightarrow> buffer \<Rightarrow> (uchar \<times> buffer) option" where
  "buf_char i b = do { (ch, txt) \<leftarrow> gb_char (b_txt b) i; Some (ch, b\<lparr>b_txt := txt\<rparr>) }"

text \<open>The loop over whitespace in front of a word: at most \<open>max_idx - start\<close> characters.\<close>

fun skip_whitespace :: "(uchar \<Rightarrow> bool) \<Rightarrow> nat \<Rightarrow> nat \<Rightarrow> nat \<Rightarrow> nat \<Rightarrow> buffer \<Rightarrow> ((nat \<times> nat) \<times> buffer) option" where
  "skip_whitespace alnum 0 max_idx start end_idx b = None"
| "skip_whitespace alnum (Suc n) max_idx start end_idx b = do {
     (ch, b) \<leftarrow> buf_char start b;
     if dot_kind alnum ch = Whitespace then
       (if start + 1 = max_idx then Some ((start + 1, max_idx), b)
        else skip_whitespace alnum n max_idx (start + 1) end_idx b)
     else Some ((start, end_idx), b)
   }"

definition word_expand :: "(uchar \<Rightarrow> bool) \<Rightarrow> dot \<Rightarrow> buffer \<Rightarrow> (dot \<times> buffer) option" where
  "word_expand alnum d b = do {
     let r = as_range d;
     max_idx \<leftarrow> usub (len_chars (b_txt b)) 1;
     let start = min (cur_idx (r_start r)) max_idx;
     let end_idx = min (cur_idx (r_end r)) max_idx;
     ((start, end_idx), b) \<leftarrow>
       (if 0 < start then do {
          (cur_ch, b) \<leftarrow> buf_char start b;
          (prev_ch, b) \<leftarrow> buf_char (start - 1) b;
          let current = dot_kind alnum cur_ch;
          let prev = dot_kind alnum prev_ch;
          if prev = Whitespace \<and> current \<noteq> Whitespace then Some ((start, end_idx), b)
          else if current = Whitespace \<and> start < max_idx then
            skip_whitespace alnum (max_idx - start) max_idx start end_idx b
          else do {
            (c, b) \<leftarrow> find_backward_start alnum (FindWord False) (Cur start) b;
            Some ((cur_idx c, end_idx), b)
          }
        } else Some ((start, end_idx), b));
     (end_idx, b) \<leftarrow>
       (if end_idx < max_idx then do {
          (cur_ch, b) \<leftarrow> buf_char end_idx b;
          (next_ch, b) \<leftarrow> buf_char (end_idx + 1) b;
          if dot_kind alnum cur_ch \<noteq> Whitespace \<and> dot_kind alnum next_ch = Whitespace
          then Some (end_idx, b)
          else do {
            (c, b) \<leftarrow> find_forward_end alnum (FindWord False) (Cur end_idx) b;
            Some (cur_idx c, b)
          }
        } else Some (end_idx, b));
     Some (close_range (Cur start) (Cur end_idx) (r_start_active r), b)
   }"

subsection \<open>Text objects\<close>

definition pure_move :: "'a option \<Rightarrow> buffer \<Rightarrow> ('a \<times> buffer) option" where
  "pure_move m b = map_option (\<lambda>c. (c, b)) m"

definition to_dot :: "(cur \<times> buffer) option \<Rightarrow> (dot \<times> buffer) option" where
  "to_dot m = map_option (apfst DotCur) m"

definition as_dot ::
  "(uchar \<Rightarrow> bool) \<Rightarrow> display \<Rightarrow> text_object \<Rightarrow> buffer \<Rightarrow> (dot \<times> buffer) option" where
  "as_dot alnum d t b =
     (let c = active_cur (b_dot b)
      in case t of
        TArr arr \<Rightarrow> to_dot (pure_move (cur_arr d arr c b) b)
      | TBufferEnd \<Rightarrow> Some (DotCur (cur_buffer_end b), b)
      | TBufferStart \<Rightarrow> Some (DotCur cur_buffer_start, b)
      | TCharacter \<Rightarrow> to_dot (pure_move (cur_arr d ARight c b) b)
      | TFindChar ch \<Rightarrow> to_dot (find_forward_end alnum (FindCh ch) c b)
      | TDelimited l r \<Rightarrow> find_expand alnum (FindDelimited [l] [r] False) (b_dot b) b
      | TLineEnd \<Rightarrow> to_dot (pure_move (move_to_line_end c b) b)
      | TLineStart \<Rightarrow> to_dot (pure_move (move_to_line_start c b) b)
      | TLine \<Rightarrow> do {
          r \<leftarrow> extend_to_line_start (as_range (b_dot b)) b;
          r \<leftarrow> extend_to_line_end r b;
          Some (collapse_null_range (DotRange r), b)
        }
      | TParagraph \<Rightarrow> find_expand alnum (FindParagraph False) (b_dot b) b
      | TWord \<Rightarrow> word_expand alnum (b_dot b) b)"

definition move_start :: "(cur \<times> buffer) option \<Rightarrow> cur \<Rightarrow> ((cur \<times> cur) \<times> buffer) option" where
  "move_start m end_cur = map_option (\<lambda>(c, b). ((c, end_cur), b)) m"

definition move_end :: "cur \<Rightarrow> (cur \<times> buffer) option \<Rightarrow> ((cur \<times> cur) \<times> buffer) option" where
  "move_end start m = map_option (\<lambda>(c, b). ((start, c), b)) m"

text \<open>The cursor that is active moves, the other one stays.\<close>

definition move_active :: "dot_range \<Rightarrow> (cur \<Rightarrow> (cur \<times> buffer) option) \<Rightarrow> ((cur \<times> cur) \<times> buffer) option" where
  "move_active r f =
     (if r_start_active r then move_start (f (r_start r)) (r_end r)
      else move_end (r_start r) (f (r_end r)))"

definition t_extend_dot_forward ::
  "(uchar \<Rightarrow> bool) \<Rightarrow> display \<Rightarrow> text_object \<Rightarrow> buffer \<Rightarrow> buffer option" where
  "t_extend_dot_forward alnum d t b =
     (let r = as_range (b_dot b);
          moved = (case t of
              TArr arr \<Rightarrow> Some (move_end (r_start r) (pure_move (cur_arr d arr (r_end r) b) b))
            | TBufferEnd \<Rightarrow>
                Some (Some ((if r_start_active r then r_end r else r_start r, cur_buffer_end b), b))
            | TCharacter \<Rightarrow> Some (move_active r (\<lambda>c. pure_move (arr_w_count d ARight 1 c b) b))
            | TFindChar ch \<Rightarrow> Some (move_active r (\<lambda>c. find_forward_end alnum (FindCh ch) c b))
            | TLine \<Rightarrow> Some (move_active r (\<lambda>c. pure_move (arr_w_count d ADown 1 c b) b))
            | TLineEnd \<Rightarrow> Some (move_active r (\<lambda>c. pure_move (move_to_line_end c b) b))
            | TLineStart \<Rightarrow> Some (move_active r (\<lambda>c. pure_move (move_to_line_start c b) b))
            | TParagraph \<Rightarrow> Some (move_active r (\<lambda>c. find_forward_end alnum (FindParagraph False) c b))
            | TWord \<Rightarrow> Some (move_active r (\<lambda>c. find_forward_end alnum (FindWord False) c b))
            | TBufferStart \<Rightarrow> None
            | TDelimited _ _ \<Rightarrow> None)
      in case moved of
           None \<Rightarrow> Some b
         | Some m \<Rightarrow> do {
             ((start, end_cur), b) \<leftarrow> m;
             Some (b\<lparr>b_dot := close_range start end_cur (r_start_active r)\<rparr>)
           })"

definition t_extend_dot_backward ::
  "(uchar \<Rightarrow> bool) \<Rightarrow> display \<Rightarrow> text_object \<Rightarrow> buffer \<Rightarrow> buffer option" where
  "t_extend_dot_backward alnum d t b =
     (let r = as_range (b_dot b);
          moved = (case t of
              TArr arr \<Rightarrow> Some (move_start (pure_move (cur_arr d (arrow_flip arr) (r_start r) b) b) (r_end r))
            | TBufferStart \<Rightarrow>
                Some (Some ((cur_buffer_start, if r_start_active r then r_end r else r_start r), b))
            | TCharacter \<Rightarrow> Some (move_active r (\<lambda>c. pure_move (arr_w_count d ALeft 1 c b) b))
            | TFindChar ch \<Rightarrow> Some (move_active r (\<lambda>c. find_backward_start alnum (FindCh ch) c b))
            | TLine \<Rightarrow> Some (move_active r (\<lambda>c. pure_move (arr_w_count d AUp 1 c b) b))
            | TLineEnd \<Rightarrow> Some (move_active r (\<lambda>c. pure_move (move_to_line_end c b) b))
            | TLineStart \<Rightarrow> Some (move_active r (\<lambda>c. pure_move (move_to_line_start c b) b))
            | TParagraph \<Rightarrow> Some (move_active r (\<lambda>c. find_backward_start alnum (FindParagraph False) c b))
            | TWord \<Rightarrow> Some (move_active r (\<lambda>c. find_backward_start alnum (FindWord False) c b))
            | TBufferEnd \<Rightarrow> None
            | TDelimited _ _ \<Rightarrow> None)
      in case moved of
           None \<Rightarrow> Some b
         | Some m \<Rightarrow> do {
             ((start, end_cur), b) \<leftarrow> m;
             Some (b\<lparr>b_dot := close_range start end_cur (r_start_active r)\<rparr>)
           })"

subsection \<open>Moving the dot of a buffer\<close>

fun times :: "nat \<Rightarrow> (buffer \<Rightarrow> buffer option) \<Rightarrow> buffer \<Rightarrow> buffer option" where
  "times 0 f b = Some b"
| "times (Suc n) f b = do { b \<leftarrow> f b; times n f b }"

definition changed :: "buffer \<Rightarrow> buffer" where
  "changed b = b\<lparr>b_changed_since_last_render := True\<rparr>"

definition t_set_dot :: "(uchar \<Rightarrow> bool) \<Rightarrow> display \<Rightarrow> text_object \<Rightarrow> buffer \<Rightarrow> buffer option" where
  "t_set_dot alnum d t b = do { (dt, b) \<leftarrow> as_dot alnum d t b; Some (b\<lparr>b_dot := dt\<rparr>) }"

definition buf_set_dot ::
  "(uchar \<Rightarrow> bool) \<Rightarrow> display \<Rightarrow> text_object \<Rightarrow> nat \<Rightarrow> buffer \<Rightarrow> buffer option" where
  "buf_set_dot alnum d t n b = do { b \<leftarrow> times n (t_set_dot alnum d t) b; Some (changed (clamp_dots b)) }"

definition buf_extend_dot_forward ::
  "(uchar \<Rightarrow> bool) \<Rightarrow> display \<Rightarrow> text_object \<Rightarrow> nat \<Rightarrow> buffer \<Rightarrow> buffer option" where
  "buf_extend_dot_forward alnum d t n b = do {
     b \<leftarrow> times n (t_extend_dot_forward alnum d t) b;
     Some (changed (clamp_dots b))
   }"

definition buf_extend_dot_backward ::
  "(uchar \<Rightarrow> bool) \<Rightarrow> display \<Rightarrow> text_object \<Rightarrow> nat \<Rightarrow> buffer \<Rightarrow> buffer option" where
  "buf_extend_dot_backward alnum d t n b = do {
     b \<leftarrow> times n (t_extend_dot_backward alnum d t) b;
     Some (changed (clamp_dots b))
   }"

definition buf_find_forward :: "(uchar \<Rightarrow> bool) \<Rightarrow> ustr \<Rightarrow> buffer \<Rightarrow> buffer option" where
  "buf_find_forward alnum s b = do {
     (m, b) \<leftarrow> find_forward_wrapping alnum (FindStr s) b;
     Some (case m of Some dt \<Rightarrow> changed (b\<lparr>b_dot := dt\<rparr>) | None \<Rightarrow> b)
   }"

definition buf_clear :: "(uchar \<Rightarrow> bool) \<Rightarrow> display \<Rightarrow> buffer \<Rightarrow> buffer option" where
  "buf_clear alnum d b = do {
     b \<leftarrow> buf_set_dot alnum d TBufferStart 1 b;
     b \<leftarrow> buf_extend_dot_forward alnum d TBufferEnd 1 b;
     (_, b) \<leftarrow> handle_action b ADelete Fsys;
     Some (b\<lparr>b_xdot := dot_clamp_idx (b_xdot b) (len_chars (b_txt b))\<rparr>)
   }"

definition handle_raw_input ::
  "(uchar \<Rightarrow> bool) \<Rightarrow> display \<Rightarrow> input \<Rightarrow> buffer \<Rightarrow> (action_outcome option \<times> buffer) option" where
  "handle_raw_input alnum d k b =
     (case k of
        IReturn \<Rightarrow> do {
          indent \<leftarrow>
            (if d_match_indent d then do {
               y \<leftarrow> char_to_line (b_txt b) (cur_idx (first_cur (b_dot b)));
               line \<leftarrow> line_chars b y;
               Some (if list_all is_whitespace line then [] else takeWhile is_whitespace line)
             } else Some []);
          ((c, _), b) \<leftarrow> buf_insert_string b (b_dot b) (newline # indent) (Some Keyboard);
          Some (None, b\<lparr>b_dot := DotCur c\<rparr>)
        }
      | ITab \<Rightarrow> do {
          ((c, _), b) \<leftarrow>
            (if d_expand_tab d
             then buf_insert_string b (b_dot b) (replicate (d_tabstop d) 0x20) (Some Keyboard)
             else buf_insert_char b (b_dot b) 0x09 (Some Keyboard));
          Some (None, b\<lparr>b_dot := DotCur c\<rparr>)
        }
      | IChar ch \<Rightarrow> do {
          ((c, _), b) \<leftarrow> buf_insert_char b (b_dot b) ch (Some Keyboard);
          Some (None, b\<lparr>b_dot := DotCur c\<rparr>)
        }
      | IArrow arr \<Rightarrow> do {
          b \<leftarrow> buf_set_dot alnum d (TArr arr) 1 b;
          Some (None, changed b)
        }
      | _ \<Rightarrow> Some (None, b))"

text \<open>
  \<open>handle_action\<close> as a whole: the edits, the moves of the dot, and raw input. Coordinates of a
  language server and file names are not part of the model.
\<close>

datatype buffer_action =
    Edit action | DotSet text_object nat | DotExtendForward text_object nat
  | DotExtendBackward text_object nat | XInsertString ustr | RawInput input

definition handle_buffer_action ::
  "(uchar \<Rightarrow> bool) \<Rightarrow> display \<Rightarrow> buffer_action \<Rightarrow> source \<Rightarrow> buffer \<Rightarrow>
   (action_outcome option \<times> buffer) option" where
  "handle_buffer_action alnum d a src b =
     (case a of
        Edit a \<Rightarrow> handle_action b a src
      | DotSet t n \<Rightarrow> map_option (Pair None) (buf_set_dot alnum d t n b)
      | DotExtendForward t n \<Rightarrow> map_option (Pair None) (buf_extend_dot_forward alnum d t n b)
      | DotExtendBackward t n \<Rightarrow> map_option (Pair None) (buf_extend_dot_backward alnum d t n b)
      | XInsertString s \<Rightarrow> map_option (Pair None) (insert_xdot b s)
      | RawInput k \<Rightarrow> handle_raw_input alnum d k b)"

subsection \<open>Expanding the dot\<close>

fun last_while :: "(uchar \<Rightarrow> bool) \<Rightarrow> nat \<Rightarrow> (nat \<times> uchar) list \<Rightarrow> nat" where
  "last_while f k [] = k"
| "last_while f k ((i, ch) # it) = (if f ch then last_while f i it else k)"

definition is_file_char :: "(uchar \<Rightarrow> bool) \<Rightarrow> uchar \<Rightarrow> bool" where
  "is_file_char alnum ch \<longleftrightarrow> alnum ch \<or> ch \<in> set (lit ''._-+/:@'')"

definition is_addr_char :: "uchar \<Rightarrow> bool" where
  "is_addr_char ch \<longleftrightarrow> ch \<in> set (lit ''+-/$.#,;?'')"

definition is_url_char :: "uchar \<Rightarrow> bool" where
  "is_url_char ch \<longleftrightarrow> ch \<in> set (lit ''?&='')"

definition is_stop_char :: "uchar \<Rightarrow> bool" where
  "is_stop_char ch \<longleftrightarrow> is_whitespace ch \<or> ch \<in> set (lit ''()[]{}<>;'')"

definition HTTP :: ustr where "HTTP = lit ''http://''"
definition HTTPS :: ustr where "HTTPS = lit ''https://''"

definition slice_is :: "nat \<Rightarrow> nat \<Rightarrow> ustr \<Rightarrow> buffer \<Rightarrow> (bool \<times> buffer) option" where
  "slice_is from to s b = do {
     (sl, txt) \<leftarrow> gb_slice_chars (b_txt b) from to;
     eq \<leftarrow> sl_eq_str sl s;
     Some (eq, b\<lparr>b_txt := txt\<rparr>)
   }"

definition has_url_prefix :: "nat \<Rightarrow> nat \<Rightarrow> buffer \<Rightarrow> (bool \<times> buffer) option" where
  "has_url_prefix n_chars i b = do {
     (http, b) \<leftarrow> (if 4 < i \<and> i + 3 \<le> n_chars then slice_is (i - 4) (i + 3) HTTP b else Some (False, b));
     (https, b) \<leftarrow> (if 5 < i \<and> i + 3 \<le> n_chars then slice_is (i - 5) (i + 3) HTTPS b else Some (False, b));
     Some (http \<or> https, b)
   }"

text \<open>\<open>ch == ':' && !has_url_prefix(i)\<close>\<close>

definition is_addr_colon :: "nat \<Rightarrow> nat \<Rightarrow> uchar \<Rightarrow> buffer \<Rightarrow> (bool \<times> buffer) option" where
  "is_addr_colon n_chars i ch b =
     (if ch = uc CHR '':'' then map_option (apfst Not) (has_url_prefix n_chars i b) else Some (False, b))"

fun file_forward ::
  "(uchar \<Rightarrow> bool) \<Rightarrow> nat \<Rightarrow> nat \<Rightarrow> (nat \<times> uchar) list \<Rightarrow> buffer \<Rightarrow> ((nat \<times> nat option) \<times> buffer) option" where
  "file_forward alnum n_chars to [] b = Some ((to, None), b)"
| "file_forward alnum n_chars to ((i, ch) # it) b =
     (if \<not> is_file_char alnum ch then Some ((to, None), b)
      else do {
        (colon, b) \<leftarrow> is_addr_colon n_chars i ch b;
        if colon then Some ((to, Some i), b) else file_forward alnum n_chars i it b
      })"

fun file_backward ::
  "(uchar \<Rightarrow> bool) \<Rightarrow> nat \<Rightarrow> nat \<Rightarrow> nat option \<Rightarrow> (nat \<times> uchar) list \<Rightarrow> buffer \<Rightarrow>
   ((nat \<times> nat option) \<times> buffer) option" where
  "file_backward alnum n_chars from colon [] b = Some ((from, colon), b)"
| "file_backward alnum n_chars from colon ((i, ch) # it) b =
     (if \<not> (is_file_char alnum ch \<or> is_url_char ch \<or> is_addr_char ch) then Some ((from, colon), b)
      else do {
        (colon, b) \<leftarrow>
          (if colon = None then do {
             (is_colon, b) \<leftarrow> is_addr_colon n_chars i ch b;
             Some (if is_colon then Some i else None, b)
           } else Some (colon, b));
        file_backward alnum n_chars i colon it b
      })"

definition starts_with :: "ustr \<Rightarrow> ustr \<Rightarrow> bool" where
  "starts_with s pre \<longleftrightarrow> take (length pre) s = pre"

text \<open>
  \<open>exists f\<close> says whether the path is absolute and exists, or exists in the directory of the
  buffer.
\<close>

definition try_expand_known ::
  "(uchar \<Rightarrow> bool) \<Rightarrow> (ustr \<Rightarrow> bool) \<Rightarrow> nat \<Rightarrow> buffer \<Rightarrow> (dot option \<times> buffer) option" where
  "try_expand_known alnum exists current_index b = do {
     let n_chars = len_chars (b_txt b);
     (it, b) \<leftarrow> iter_between_chars current_index n_chars b;
     ((to, colon), b) \<leftarrow> file_forward alnum n_chars current_index it b;
     (it, b) \<leftarrow> rev_iter_between_chars current_index 0 b;
     ((from, colon), b) \<leftarrow> file_backward alnum n_chars current_index colon it b;
     (to, b) \<leftarrow>
       (case colon of
          None \<Rightarrow> Some (to, b)
        | Some ix \<Rightarrow> do {
            (it, b) \<leftarrow> iter_between_chars (ix + 1) n_chars b;
            Some (ix + length (takeWhile (\<lambda>(_, ch). \<not> is_stop_char ch) it), b)
          });
     (sl, txt) \<leftarrow> gb_slice_chars (b_txt b) from (to + 1);
     content \<leftarrow> sl_to_string sl;
     let b = b\<lparr>b_txt := txt\<rparr>;
     if starts_with content HTTP \<or> starts_with content HTTPS then do {
       (to, b) \<leftarrow>
         (if to < n_chars then do {
            (it, b) \<leftarrow> iter_between_chars (to + 1) n_chars b;
            Some (to + length (takeWhile (\<lambda>(_, ch). \<not> is_stop_char ch) it), b)
          } else Some (to, b));
       to \<leftarrow> (if content \<noteq> [] \<and> last content = uc CHR ''.'' then usub to 1 else Some to);
       Some (Some (dot_from_char_indices from to), b)
     }
     else if exists (takeWhile (\<lambda>ch. ch \<noteq> uc CHR '':'') content)
     then Some (Some (dot_from_char_indices from to), b)
     else Some (None, b)
   }"

definition expand_cur_dot :: "(uchar \<Rightarrow> bool) \<Rightarrow> (ustr \<Rightarrow> bool) \<Rightarrow> buffer \<Rightarrow> buffer option" where
  "expand_cur_dot alnum exists b =
     (case b_dot b of
        DotRange _ \<Rightarrow> Some b
      | DotCur c \<Rightarrow> do {
          let current_index = cur_idx c;
          let b = changed b;
          (known, b) \<leftarrow> try_expand_known alnum exists current_index b;
          case known of
            Some dt \<Rightarrow> Some (b\<lparr>b_dot := dt\<rparr>)
          | None \<Rightarrow> do {
              (it, b) \<leftarrow> iter_between_chars current_index (len_chars (b_txt b)) b;
              let to = last_while (\<lambda>ch. ch = 0x5F \<or> alnum ch) current_index it;
              (it, b) \<leftarrow> rev_iter_between_chars current_index 0 b;
              let from = last_while (\<lambda>ch. ch = 0x5F \<or> alnum ch) current_index it;
              Some (b\<lparr>b_dot := dot_from_char_indices from to\<rparr>)
            }
        })"

definition delimiters :: "(uchar \<times> uchar) list" where
  "delimiters =
     [(0x0A, 0x0A), (0x28, 0x29), (0x5B, 0x5D), (0x7B, 0x7D), (0x3C, 0x3E), (0x22, 0x22), (0x27, 0x27),
      (0x20, 0x20)]"

definition try_expand_delimited ::
  "(uchar \<Rightarrow> bool) \<Rightarrow> display \<Rightarrow> (ustr \<Rightarrow> bool) \<Rightarrow> buffer \<Rightarrow> buffer option" where
  "try_expand_delimited alnum d exists b =
     (case b_dot b of
        DotRange _ \<Rightarrow> Some b
      | DotCur c \<Rightarrow> do {
          let current_index = cur_idx c;
          (prev, b) \<leftarrow>
            (if current_index = 0 then Some (None, b)
             else do {
               (ch, txt) \<leftarrow> gb_get_char (b_txt b) (current_index - 1);
               Some (ch, b\<lparr>b_txt := txt\<rparr>)
             });
          (next_ch, txt) \<leftarrow> gb_get_char (b_txt b) (current_index + 1);
          let b = b\<lparr>b_txt := txt\<rparr>;
          case find (\<lambda>(l, r). prev = Some l \<or> next_ch = Some r) delimiters of
            None \<Rightarrow> expand_cur_dot alnum exists b
          | Some (l, r) \<Rightarrow> do {
              b \<leftarrow> buf_set_dot alnum d (TDelimited l r) 1 b;
              Some (changed b)
            }
        })"

end
