(* ===== verification/MotionLemmas.thy ===== *)
theory MotionLemmas
  imports Motion GapLine TextStore TextObject
begin

text \<open>
  What the moves and the searches of a buffer compute, on the text that it holds.
\<close>

text \<open>A buffer that holds a text, its dot in it.\<close>

definition buf_holds :: "buffer \<Rightarrow> ustr \<Rightarrow> bool" where
  "buf_holds b s \<longleftrightarrow> gb_holds (b_txt b) s \<and> dot_ok (length s) (b_dot b)"

subsection \<open>Lines and columns\<close>

text \<open>The line of a character: the newlines in front of it.\<close>

definition line_at :: "ustr \<Rightarrow> nat \<Rightarrow> nat" where
  "line_at s k = length (filter (\<lambda>c. c < k) (newlines s))"

lemma line_at_le [simp]: "line_at s k \<le> length (newlines s)"
  by (simp add: line_at_def)

lemma line_at_start: "i \<le> length (newlines s) \<Longrightarrow> line_at s (line_start s i) = i"
  by (simp add: line_at_def filter_newlines_take)

lemma char_to_line_holds: "gb_holds gb s \<Longrightarrow> k \<le> length s \<Longrightarrow> char_to_line gb k = Some (line_at s k)"
  by (simp add: char_to_line_def char_to_line_correct line_at_def)

lemma line_to_char_holds:
  "gb_holds gb s \<Longrightarrow> i \<le> length (newlines s) \<Longrightarrow> line_to_char gb i = Some (line_start s i)"
  by (simp add: line_to_char_def line_to_char_correct)

lemma newlines_split:
  "take (line_at s k) (newlines s) = filter (\<lambda>c. c < k) (newlines s)"
  "drop (line_at s k) (newlines s) = filter (\<lambda>c. k \<le> c) (newlines s)"
proof -
  have "sorted xs \<Longrightarrow> xs = filter (\<lambda>c. c < k) xs @ filter (\<lambda>c. k \<le> c) xs" for xs :: "nat list"
  proof (induction xs)
    case (Cons x xs)
    have "k \<le> x \<Longrightarrow> filter (\<lambda>c. c < k) xs = []" "k \<le> x \<Longrightarrow> filter (\<lambda>c. k \<le> c) xs = xs"
      using Cons.prems by (auto simp: filter_empty_conv filter_id_conv)
    then show ?case using Cons by auto
  qed simp
  then have "newlines s = filter (\<lambda>c. c < k) (newlines s) @ filter (\<lambda>c. k \<le> c) (newlines s)"
    using sorted_newlines[of s] strict_sorted_iff by blast
  then show "take (line_at s k) (newlines s) = filter (\<lambda>c. c < k) (newlines s)"
    "drop (line_at s k) (newlines s) = filter (\<lambda>c. k \<le> c) (newlines s)"
    unfolding line_at_def by (metis append_eq_conv_conj)+
qed

lemma line_start_at: "k \<le> length s \<Longrightarrow> line_start s (line_at s k) \<le> k"
proof (cases "line_at s k")
  case (Suc n)
  have "newlines s ! n = take (line_at s k) (newlines s) ! n" using Suc by simp
  also have "\<dots> \<in> set (take (line_at s k) (newlines s))"
    using Suc line_at_le[of s k] by (intro nth_mem) simp
  finally have "newlines s ! n < k" unfolding newlines_split by simp
  then show ?thesis using Suc by (simp add: line_start_def)
qed (simp add: line_start_def)

lemma line_stop_at:
  assumes "k \<le> length s"
  shows "k < line_stop s (line_at s k) \<or> line_at s k = length (newlines s) \<and> k \<le> line_stop s (line_at s k)"
proof (cases "line_at s k < length (newlines s)")
  case True
  have "newlines s ! line_at s k = drop (line_at s k) (newlines s) ! 0" using True by simp
  also have "\<dots> \<in> set (drop (line_at s k) (newlines s))" using True by (intro nth_mem) simp
  finally show ?thesis using True unfolding newlines_split by (simp add: line_stop_def)
next
  case False
  then show ?thesis using assms line_at_le[of s k] by (auto simp: line_stop_def)
qed

lemma as_yx_holds:
  assumes "gb_holds (b_txt b) s" "cur_idx c \<le> length s"
  shows "as_yx c b = Some (line_at s (cur_idx c), cur_idx c - line_start s (line_at s (cur_idx c)))"
  using assms line_start_at[OF assms(2)]
  by (simp add: as_yx_def char_to_line_holds line_to_char_holds usub_def)

lemma from_yx_holds:
  assumes h: "gb_holds (b_txt b) s" and y: "y \<le> length (newlines s)"
  shows "from_yx y x b =
    Some (Cur (line_start s y + min x (line_stop s y - line_start s y - (if y < length (newlines s) then 1 else 0))))"
proof -
  have "y < length (newlines s) \<Longrightarrow> line_start s y < line_stop s y"
    using newlines_mono[of "y - 1" y s] by (cases y) (auto simp: line_start_def line_stop_def)
  then have "y < length (newlines s) \<Longrightarrow> Suc 0 \<le> line_stop s y - line_start s y" by linarith
  then show ?thesis
    using assms by (auto simp: from_yx_def line_to_char_holds line_len_chars_correct len_lines_holds usub_def)
qed

lemma from_yx_as_yx:
  assumes "gb_holds (b_txt b) s" "cur_idx c \<le> length s"
  shows "do { (y, x) \<leftarrow> as_yx c b; from_yx y x b } = Some c"
  using assms line_start_at[OF assms(2)] line_stop_at[OF assms(2)]
  by (cases c) (auto simp: as_yx_holds from_yx_holds min_def)


text \<open>
  Searches and moves on the text of a buffer: they return, what they return lies in the text, and
  they leave everything but the cache of the gap buffer as it is.
\<close>

definition same_but_txt :: "buffer \<Rightarrow> buffer \<Rightarrow> ustr \<Rightarrow> bool" where
  "same_but_txt b b' s \<longleftrightarrow> gb_holds (b_txt b') s \<and> b' = b\<lparr>b_txt := b_txt b'\<rparr>"

lemma same_but_txtI: "gb_holds t s \<Longrightarrow> same_but_txt b (b\<lparr>b_txt := t\<rparr>) s"
  by (simp add: same_but_txt_def)

lemma same_but_txt_refl: "gb_holds (b_txt b) s \<Longrightarrow> same_but_txt b b s"
  by (simp add: same_but_txt_def)

lemma same_but_txt_trans: "same_but_txt a b s \<Longrightarrow> same_but_txt b c s \<Longrightarrow> same_but_txt a c s"
  unfolding same_but_txt_def by (metis buffer.surjective buffer.update_convs(5))

lemma same_but_txt_simps:
  assumes "same_but_txt b b' s"
  shows "gb_holds (b_txt b') s" "b_dot b' = b_dot b" "b_xdot b' = b_xdot b" "b_edit_log b' = b_edit_log b"
    "b_cached_rx b' = b_cached_rx b"
  using assms unfolding same_but_txt_def by (metis, (metis buffer.select_convs buffer.surjective buffer.update_convs(5))+)

lemma len_chars_holds: "gb_holds gb s \<Longrightarrow> len_chars gb = length s"
  by (simp add: gb_holds_len len_chars_def)

lemma buf_char_holds:
  assumes "gb_holds (b_txt b) s" "k < length s"
  shows "\<exists>b'. buf_char k b = Some (s ! k, b') \<and> same_but_txt b b' s"
  using gb_char_correct[OF assms] by (auto simp: buf_char_def intro!: same_but_txtI)

lemma iter_between_holds:
  assumes "gb_holds (b_txt b) s" "i \<le> j" "j \<le> length s"
  shows "\<exists>b'. iter_between_chars i j b = Some (enumerate i (drop i (take j s)), b') \<and> same_but_txt b b' s"
proof -
  obtain sl gb where sl: "gb_slice_chars (b_txt b) i j = Some (sl, gb)" "sl_holds sl (drop i (take j s))" "gb_holds gb s"
    using gb_slice_chars_correct[OF assms] by blast
  then show ?thesis
    using indexed_chars_holds[OF sl(2), of i False]
    by (auto simp: iter_between_chars_def bind_eq_Some_conv intro!: same_but_txtI)
qed

lemma rev_iter_between_holds:
  assumes "gb_holds (b_txt b) s" "i \<le> j" "j \<le> length s"
  shows "\<exists>b'. rev_iter_between_chars j i b = Some (rev (enumerate i (drop i (take j s))), b') \<and> same_but_txt b b' s"
proof -
  obtain sl gb where sl: "gb_slice_chars (b_txt b) i j = Some (sl, gb)" "sl_holds sl (drop i (take j s))" "gb_holds gb s"
    using gb_slice_chars_correct[OF assms] by blast
  then show ?thesis
    using indexed_chars_holds[OF sl(2), of i True]
    by (auto simp: rev_iter_between_chars_def bind_eq_Some_conv intro!: same_but_txtI)
qed

lemma line_chars_holds:
  assumes "gb_holds (b_txt b) s" "y \<le> length (newlines s)"
  shows "line_chars b y = Some (drop (line_start s y) (take (line_stop s y) s))"
  using gb_line_correct[OF assms] chars_collect_holds by (auto simp: line_chars_def)

subsection \<open>Moves\<close>

lemma x_scan_total:
  assumes "0 < d_tabstop d"
  shows "\<exists>x. x_scan d buf_rx rx cx cs = Some x \<and> x \<le> cx + length cs"
proof (induction cs arbitrary: rx cx)
  case (Cons c cs)
  have "\<exists>p. tab_pad d rx = Some p"
    using assms mod_less_divisor[OF assms, of rx] by (simp add: tab_pad_def usub_def)
  then obtain rx' where rx': "(if c = 9 then tab_pad d rx else Some rx) = Some rx'" by (metis)
  show ?case
  proof (cases "c = newline \<or> buf_rx < rx' + (case d_width d c of None \<Rightarrow> 1 | Some w \<Rightarrow> w)")
    case True
    then show ?thesis using rx' by (auto simp: Let_def)
  next
    case False
    then show ?thesis
      using rx' Cons.IH[of "rx' + (case d_width d c of None \<Rightarrow> 1 | Some w \<Rightarrow> w)" "cx + 1"] by (auto simp: Let_def)
  qed
qed simp

lemma x_from_rx_total:
  assumes "0 < d_tabstop d" "gb_holds (b_txt b) s" "y \<le> length (newlines s)"
  shows "\<exists>x. x_from_rx d y b = Some x \<and> line_start s y + x \<le> length s"
proof -
  have se: "line_start s y \<le> line_stop s y" "line_stop s y \<le> length s" by (rule line_start_le_stop[OF assms(3)])+
  show ?thesis
  proof (cases "buf_is_empty b")
    case False
    obtain x where "x_scan d (b_cached_rx b) 0 0 (drop (line_start s y) (take (line_stop s y) s)) = Some x"
      "x \<le> length (drop (line_start s y) (take (line_stop s y) s))"
      using x_scan_total[OF assms(1)] by (metis add_0)
    then show ?thesis
      using False se by (auto simp: x_from_rx_def x_from_provided_rx_def line_chars_holds[OF assms(2,3)])
  qed (use se in \<open>simp add: x_from_rx_def x_from_provided_rx_def\<close>)
qed

lemma cur_arr_total:
  assumes "0 < d_tabstop d" "gb_holds (b_txt b) s" "cur_idx c \<le> length s"
  shows "\<exists>c'. cur_arr d arr c b = Some c' \<and> cur_idx c' \<le> length s"
proof -
  let ?y = "line_at s (cur_idx c)"
  note yx = as_yx_holds[OF assms(2,3)]
  have y: "?y \<le> length (newlines s)" by simp
  show ?thesis
  proof (cases arr)
    case AUp
    have le: "?y - 1 \<le> length (newlines s)" using y by linarith
    obtain x where "x_from_rx d (?y - 1) b = Some x" "line_start s (?y - 1) + x \<le> length s"
      using x_from_rx_total[OF assms(1,2) le] by blast
    then show ?thesis
      using AUp assms(3) yx line_to_char_holds[OF assms(2) le] by (simp add: cur_arr_def)
  next
    case ADown
    show ?thesis
    proof (cases "\<not> buf_is_empty b \<and> ?y < length (newlines s)")
      case True
      then have le: "?y + 1 \<le> length (newlines s)" by simp
      obtain x where "x_from_rx d (?y + 1) b = Some x" "line_start s (?y + 1) + x \<le> length s"
        using x_from_rx_total[OF assms(1,2) le] by blast
      then show ?thesis
        using ADown True yx line_to_char_holds[OF assms(2) le] by (auto simp: cur_arr_def len_lines_holds[OF assms(2)] usub_def)
    next
      case False
      then show ?thesis using ADown yx assms(3) by (auto simp: cur_arr_def len_lines_holds[OF assms(2)] usub_def)
    qed
  qed (use assms in \<open>simp_all add: cur_arr_def len_chars_holds\<close>)
qed

lemma arr_w_count_total:
  assumes "0 < d_tabstop d" "gb_holds (b_txt b) s" "cur_idx c \<le> length s"
  shows "\<exists>c'. arr_w_count d arr n c b = Some c' \<and> cur_idx c' \<le> length s"
proof -
  have "\<exists>c'. arr_times d arr n c b = Some c'" using assms(3)
  proof (induction n arbitrary: c)
    case (Suc n)
    then show ?case using cur_arr_total[OF assms(1,2) Suc.prems, of arr] by auto
  qed simp
  then show ?thesis using assms(2) by (auto simp: arr_w_count_def cur_clamp_idx_def len_chars_holds)
qed

lemma move_to_line_total:
  assumes "gb_holds (b_txt b) s" "cur_idx c \<le> length s"
  shows "\<exists>c'. move_to_line_start c b = Some c' \<and> cur_idx c' \<le> cur_idx c"
    "\<exists>c'. move_to_line_end c b = Some c' \<and> cur_idx c \<le> cur_idx c' \<and> cur_idx c' \<le> length s"
proof -
  let ?y = "line_at s (cur_idx c)"
  have y: "?y \<le> length (newlines s)" by simp
  note facts = char_to_line_holds[OF assms] line_to_char_holds[OF assms(1) y] line_start_at[OF assms(2)]
    line_stop_at[OF assms(2)] line_start_le_stop[OF y] line_len_chars_correct[OF assms(1) y] len_lines_holds[OF assms(1)]
  show "\<exists>c'. move_to_line_start c b = Some c' \<and> cur_idx c' \<le> cur_idx c"
    using facts by (simp add: move_to_line_start_def)
  show "\<exists>c'. move_to_line_end c b = Some c' \<and> cur_idx c \<le> cur_idx c' \<and> cur_idx c' \<le> length s"
    using facts by (auto simp: move_to_line_end_def)
qed

subsection \<open>Searches\<close>

lemma find_pred_enumerate:
  "find_pred f (enumerate i w) =
     (if \<exists>c \<in> set w. f c then Some (i + length (takeWhile (\<lambda>c. \<not> f c) w), i + length (takeWhile (\<lambda>c. \<not> f c) w)) else None)"
  by (induction w arbitrary: i) auto

text \<open>A finder that returns: an index it finds is at most \<open>n\<close>.\<close>

definition found_in :: "nat \<Rightarrow> (nat \<times> nat) option option \<Rightarrow> bool" where
  "found_in n r \<longleftrightarrow> (\<exists>m. r = Some m \<and> (\<forall>a c. m = Some (a, c) \<longrightarrow> a = c \<and> a \<le> n))"

lemma find_paragraph_le:
  "list_all (\<lambda>(i, _). if bck then i < n else i \<le> n) it \<Longrightarrow> pos \<le> n \<Longrightarrow>
   fst (find_paragraph bck p pos it) \<le> n \<and> snd (find_paragraph bck p pos it) = fst (find_paragraph bck p pos it)"
  by (induction bck p pos it rule: find_paragraph.induct) (auto split: if_splits)

lemma find_word_found:
  "list_all (\<lambda>(i, _). i < n) it \<Longrightarrow> (\<not> bck \<longrightarrow> list_all (\<lambda>(i, _). 0 < i) it) \<Longrightarrow> found_in n (find_word alnum bck prev it)"
  by (induction alnum bck prev it rule: find_word.induct) (auto simp: found_in_def usub_def Let_def)

text \<open>The finders of the text objects, in a text and before a position in it.\<close>

fun text_finder :: "finder \<Rightarrow> bool" where
  "text_finder (FindCh c) = True"
| "text_finder (FindPred p) = True"
| "text_finder (FindParagraph bck) = (\<not> bck)"
| "text_finder (FindWord bck) = (\<not> bck)"
| "text_finder _ = False"

lemma enumerate_less: "list_all (\<lambda>(i, _). i < m + length w) (enumerate m w)"
  by (auto simp: list_all_iff in_set_enumerate_eq)

lemma find_word_from_found:
  assumes "list_all (\<lambda>(i, _). i < n) it" "bck \<or> (\<exists>k w. it = enumerate k w)"
  shows "found_in n (find_word_from alnum bck it)"
proof (cases it)
  case (Cons p it')
  obtain i ch where p: "p = (i, ch)" by (cases p)
  let ?k = "dot_kind alnum ch"
  have pos: "\<not> bck \<Longrightarrow> list_all (\<lambda>(i, _). 0 < i) it'"
  proof -
    assume "\<not> bck"
    then obtain k w where w: "it = enumerate k w" using assms(2) by blast
    then have "it' = enumerate (Suc k) (tl w)" using Cons by (cases w) auto
    then show ?thesis by (auto simp: list_all_iff in_set_enumerate_eq)
  qed
  have same: "\<not> word_ends ?k ?k" by (cases ?k) auto
  have it': "list_all (\<lambda>(i, _). i < n) it'" using assms(1) Cons by simp
  have "found_in n (find_word alnum bck k it')" for k using it' pos by (intro find_word_found) auto
  moreover have "found_in n (Some None)" by (simp add: found_in_def)
  ultimately have "found_in n (if ?k \<noteq> Whitespace \<and> \<not> bck
      then (case it' of [] \<Rightarrow> Some None | (_, ch) # _ \<Rightarrow> find_word alnum bck (dot_kind alnum ch) it')
      else find_word alnum bck ?k it')"
    by (cases it') (simp_all only: list.case prod.case split_paired_all if_splits simp_thms)
  moreover have "find_word alnum bck ?k it = find_word alnum bck ?k it'" using Cons p same by (simp add: Let_def)
  ultimately show ?thesis using Cons p by (simp only: find_word_from_def Let_def list.case prod.case)
qed (simp add: find_word_from_def found_in_def)

lemma try_find_forward:
  assumes "text_finder f" "i \<le> length s"
  shows "found_in (length s) (try_find alnum f (enumerate i (drop i s)))"
proof -
  have less: "list_all (\<lambda>(k, _). k < length s) (enumerate i (drop i s))"
    using enumerate_less[of i "drop i s"] assms(2) by simp
  then have le: "list_all (\<lambda>(k, _). k \<le> length s) (enumerate i (drop i s))"
    by (auto simp: list_all_iff)
  have pred: "found_in (length s) (Some (find_pred p (enumerate i (drop i s))))" for p
    using length_takeWhile_le[of "\<lambda>c. \<not> p c" "drop i s"] assms(2) by (auto simp: find_pred_enumerate found_in_def)
  have "found_in (length s) (Some (Some (find_paragraph False False 0 (enumerate i (drop i s)))))"
    using find_paragraph_le[of False "length s" "enumerate i (drop i s)" 0 False] le
    by (auto simp: found_in_def prod_eq_iff)
  then show ?thesis
    using assms(1) pred find_word_from_found[OF less, of False alnum] by (cases f) (auto simp: try_find_def)
qed

lemma try_find_backward:
  assumes "text_finder f" "j \<le> length s"
  shows "found_in j (try_find alnum (reversed f) (rev (enumerate 0 (take j s))))"
proof -
  have less: "list_all (\<lambda>(k, _). k < j) (rev (enumerate 0 (take j s)))"
    using enumerate_less[of 0 "take j s"] assms(2) by (auto simp: list_all_iff)
  have pred: "found_in j (Some (find_pred p it))" if "list_all (\<lambda>(k, _). k < j) it" for p it
    using that by (induction p it rule: find_pred.induct) (auto simp: found_in_def)
  have "found_in j (Some (Some (find_paragraph True False 0 (rev (enumerate 0 (take j s))))))"
    using find_paragraph_le[of True j "rev (enumerate 0 (take j s))" 0 False] less
    by (auto simp: found_in_def prod_eq_iff)
  then show ?thesis
    using assms(1) pred[OF less] find_word_from_found[OF less, of True alnum] by (cases f) (auto simp: try_find_def)
qed

lemma match_to_dot_found:
  assumes "found_in n (Some m)"
  shows "match_to_dot m = None \<or> (\<exists>i. match_to_dot m = Some (DotCur (Cur i)) \<and> m = Some (i, i) \<and> i \<le> n)"
  using assms by (cases m) (auto simp: found_in_def match_to_dot_def)

lemma find_forward_end_total:
  assumes "text_finder f" "gb_holds (b_txt b) s" "cur_idx c \<le> length s"
  shows "\<exists>c' b'. find_forward_end alnum f c b = Some (c', b') \<and> same_but_txt b b' s \<and> cur_idx c' \<le> length s"
proof -
  obtain b' where b': "iter_between_chars (cur_idx c) (length s) b = Some (enumerate (cur_idx c) (drop (cur_idx c) s), b')"
    "same_but_txt b b' s"
    using iter_between_holds[OF assms(2,3) order_refl] by auto
  obtain m where m: "try_find alnum f (enumerate (cur_idx c) (drop (cur_idx c) s)) = Some m" "found_in (length s) (Some m)"
    using try_find_forward[OF assms(1,3), of alnum] by (auto simp: found_in_def)
  show ?thesis
    using b' m(1) match_to_dot_found[OF m(2)] same_but_txt_simps(1)[OF b'(2)]
    by (auto simp: find_forward_end_def find_forward_def find_between_def len_chars_holds[OF assms(2)] cur_buffer_end_def
        len_chars_holds)
qed

lemma byte_to_char_ascii:
  assumes "gb_holds gb s" "ascii s" "k \<le> length s"
  shows "byte_to_char gb k = Some k"
proof -
  have "blen (take k s) = k" using ascii_take_drop[OF assms(2), of k] assms(3) by (simp add: ascii_blen)
  then show ?thesis using byte_to_char_correct[OF assms(1,3)] by simp
qed

lemma find_backward_start_total:
  assumes "text_finder f" "gb_holds (b_txt b) s" "ascii s" "cur_idx c \<le> length s"
  shows "\<exists>c' b'. find_backward_start alnum f c b = Some (c', b') \<and> same_but_txt b b' s \<and> cur_idx c' \<le> cur_idx c"
proof -
  obtain b' where b': "rev_iter_between_chars (cur_idx c) 0 b = Some (rev (enumerate 0 (take (cur_idx c) s)), b')"
    "same_but_txt b b' s"
    using rev_iter_between_holds[OF assms(2) _ assms(4), of 0] by auto
  obtain m where m: "try_find alnum (reversed f) (rev (enumerate 0 (take (cur_idx c) s))) = Some m" "found_in (cur_idx c) (Some m)"
    using try_find_backward[OF assms(1,4), of alnum] by (auto simp: found_in_def)
  show ?thesis
    using b' m(1) match_to_dot_found[OF m(2)] assms(4)
    by (auto simp: find_backward_start_def find_backward_def rev_find_between_def byte_to_char_ascii[OF assms(2,3)]
        dot_default_def)
qed

end
