(* ===== verification/AddressResolve.thy ===== *)
theory AddressResolve
  imports AddressParse MotionLemmas
begin

text \<open>
  Resolving an address through the interface \<open>Address\<close>: what an implementation promises about
  lines, what every client gets from it, and the two implementations.
\<close>

subsection \<open>The interface\<close>

definition line_end_at :: "ustr \<Rightarrow> nat \<Rightarrow> nat" where
  "line_end_at s k = (if line_at s k < length (newlines s) then line_stop s (line_at s k) else length s - 1)"

text \<open>A character as its line and column.\<close>

definition at_char :: "ustr \<Rightarrow> nat \<Rightarrow> simple_addr" where
  "at_char s k = simple_from_base (BLineAndColumn (line_at s k) (k - line_start s (line_at s k)))"

lemma dot_ordered_from_char_indices [simp]: "dot_ordered (dot_from_char_indices i j)"
  unfolding dot_from_char_indices_def by (rule dot_ordered_from_cursors)

text \<open>Addresses that name lines, characters and ends, without expressions and relative offsets.\<close>

definition named_base :: "addr_base \<Rightarrow> bool" where
  "named_base ab =
     (case ab of BRelativeLine _ \<Rightarrow> False | BRelativeChar _ \<Rightarrow> False | BRegex _ \<Rightarrow> False | BRegexBack _ \<Rightarrow> False
      | _ \<Rightarrow> True)"

lemma named_base_simps [simp]:
  "named_base BCurrent" "named_base BCurrentLine" "named_base BBol" "named_base BEol" "named_base BBof"
  "named_base BEof" "named_base (BLine i)" "named_base (BChar i)" "named_base (BLineAndColumn i j)"
  "\<not> named_base (BRelativeLine z)" "\<not> named_base (BRelativeChar z)" "\<not> named_base (BRegex rx)"
  "\<not> named_base (BRegexBack rx)"
  by (simp_all add: named_base_def)

fun named_addr :: "addr \<Rightarrow> bool" where
  "named_addr (Explicit d) \<longleftrightarrow> dot_ordered d"
| "named_addr (Simple a) \<longleftrightarrow> named_base (sa_base a) \<and> list_all named_base (sa_suffixes a)"
| "named_addr (Compound a a') \<longleftrightarrow>
     named_base (sa_base a) \<and> list_all named_base (sa_suffixes a) \<and>
     named_base (sa_base a') \<and> list_all named_base (sa_suffixes a')"

lemma opt_bind_Some:
  "opt_bind m f = Some (Some y) \<longleftrightarrow> (\<exists>x. m = Some (Some x) \<and> f x = Some (Some y))"
  by (auto simp: opt_bind_def split: option.splits)

lemma opt_bind_total: "m \<noteq> None \<Longrightarrow> (\<And>x. f x \<noteq> None) \<Longrightarrow> opt_bind m f \<noteq> None"
  by (auto simp: opt_bind_def split: option.splits)

lemma range_from_cursors_ordered [simp]: "r_start (range_from_cursors a b f) \<le> r_end (range_from_cursors a b f)"
  using dot_ordered_from_cursors[of a b f] by simp

locale address_impl =
  fixes view :: "'b \<Rightarrow> address" and holds :: "'b \<Rightarrow> ustr \<Rightarrow> bool"
  assumes len_chars: "holds b s \<Longrightarrow> ad_len_chars (view b) = length s"
    and line_to_char: "holds b s \<Longrightarrow> ad_line_to_char (view b) i =
      Some (if i \<le> length (newlines s) then Some (line_start s i) else None)"
    and char_to_line: "holds b s \<Longrightarrow> ad_char_to_line (view b) k =
      Some (if k \<le> length s then Some (line_at s k) else None)"
    and line_end: "holds b s \<Longrightarrow> s \<noteq> [] \<Longrightarrow> ad_char_to_line_end (view b) k =
      Some (if k \<le> length s then Some (line_end_at s k) else None)"
    and line_begin: "holds b s \<Longrightarrow> ad_char_to_line_start (view b) k =
      Some (if k \<le> length s then Some (line_start s (line_at s k)) else None)"
    and current: "holds b s \<Longrightarrow> dot_ordered (ad_current_dot (view b))"
begin

text \<open>
  Without expressions nothing panics on a text with a character in it, as long as the offsets
  fit into an \<open>isize\<close>; what the address selects is in order.
\<close>

lemma full_line_ok:
  assumes "holds b s" "s \<noteq> []"
  shows "\<exists>d. full_line (view b) i = Some d \<and> (\<forall>d'. d = Some d' \<longrightarrow> dot_ordered d')"
  using assms line_start_le_stop[of i s]
  by (auto simp: full_line_def opt_bind_def line_to_char line_end)

lemma full_line_eq:
  assumes "holds b s" "s \<noteq> []" "i < length (newlines s)"
  shows "full_line (view b) i = Some (Some (dot_from_char_indices (line_start s i) (line_stop s i - 1)))"
  using assms line_start_le_stop[of i s]
  by (simp add: full_line_def opt_bind_def line_to_char line_end line_end_at_def line_at_start)

lemma map_line:
  assumes "holds b s" "i < length (newlines s)"
  shows "map_addr ac alnum (view b) (Simple (simple_from_base (BLine i))) =
    Some (dot_from_char_indices (line_start s i) (line_stop s i - 1))"
proof -
  have s: "s \<noteq> []" using assms(2) by (cases s) (auto simp: newlines_def)
  have "line_start s i < line_stop s i"
    using newlines_mono[of "i - 1" i s] assms(2) by (cases i) (auto simp: line_start_def line_stop_def)
  moreover have "line_stop s i \<le> length s" using line_start_le_stop(2)[of i s] assms(2) by simp
  ultimately show ?thesis
    using full_line_eq[OF assms(1) s assms(2)] len_chars[OF assms(1)]
    by (simp add: map_addr_def map_simple_addr_def simple_from_base_def map_addr_base_def opt_bind_def Let_def
        max_iter_def dot_from_char_indices_def range_from_cursors_def cur_order cur_clamp_idx_def)
qed

lemma map_line_column:
  assumes "holds b s" "y \<le> length (newlines s)"
  shows "map_simple_addr ac alnum (view b) (simple_from_base (BLineAndColumn y x)) d =
    Some (Some (DotCur (Cur (line_start s y + x))))"
  using assms by (simp add: map_simple_addr_def simple_from_base_def map_addr_base_def opt_bind_def line_to_char)

lemma map_at:
  assumes "holds b s" "k \<le> length s"
  shows "map_simple_addr ac alnum (view b) (at_char s k) d = Some (Some (DotCur (Cur k)))"
  using map_line_column[OF assms(1) line_at_le] line_start_at[OF assms(2)] by (simp add: at_char_def)

lemma map_at_cur:
  "holds b s \<Longrightarrow> k \<le> length s \<Longrightarrow> map_addr ac alnum (view b) (Simple (at_char s k)) = Some (DotCur (Cur k))"
  by (simp add: map_addr_def map_at max_iter_def len_chars cur_clamp_idx_def)

lemma map_at_range:
  assumes "holds b s" "i \<le> j" "j \<le> length s"
  shows "map_addr ac alnum (view b) (Compound (at_char s i) (at_char s j)) =
    Some (DotRange \<lparr>r_start = Cur i, r_end = Cur j, r_start_active = False\<rparr>)"
  using assms
  by (simp add: map_addr_def map_compound_addr_def map_at opt_bind_def max_iter_def len_chars
      cur_clamp_idx_def range_from_cursors_def cur_order)

text \<open>Whatever an address selects is in order, and in the text.\<close>

lemma base_ordered:
  assumes "map_addr_base ac alnum (view b) ab d = Some (Some d')" "dot_ordered d" "holds b s"
  shows "dot_ordered d'"
  using assms(1,2)
  by (cases ab) (auto simp: map_addr_base_def opt_bind_Some full_line_def match_dot_def Let_def bind_eq_Some_conv)

lemma suffixes_ordered:
  "map_suffixes ac alnum (view b) sufs d = Some (Some d') \<Longrightarrow> dot_ordered d \<Longrightarrow> holds b s \<Longrightarrow> dot_ordered d'"
  by (induction sufs arbitrary: d) (auto simp: opt_bind_Some dest: base_ordered)

lemma simple_ordered:
  "map_simple_addr ac alnum (view b) a d = Some (Some d') \<Longrightarrow> dot_ordered d \<Longrightarrow> holds b s \<Longrightarrow> dot_ordered d'"
  by (auto simp: map_simple_addr_def opt_bind_Some dest: base_ordered suffixes_ordered)

lemma map_addr_bounds:
  assumes "map_addr ac alnum (view b) a = Some d" "holds b s" "\<And>d. a = Explicit d \<Longrightarrow> dot_ordered d"
  shows "dot_ok (length s) d"
proof -
  obtain m where m: "(case a of Explicit d \<Rightarrow> Some (Some d)
      | Simple a \<Rightarrow> map_simple_addr ac alnum (view b) a (ad_current_dot (view b))
      | Compound from to \<Rightarrow> map_compound_addr ac alnum (view b) from to) = Some m"
    "d = dot_clamp_idx (case m of None \<Rightarrow> dot_default | Some d \<Rightarrow> d) (length s)"
    using assms(1,2) by (auto simp: map_addr_def max_iter_def len_chars bind_eq_Some_conv)
  have "dot_ordered d'" if "m = Some d'" for d'
    using m(1) assms(2,3) that current
    by (auto simp: map_compound_addr_def opt_bind_Some dest: simple_ordered split: addr.splits)
  then have "dot_ordered (case m of None \<Rightarrow> dot_default | Some d \<Rightarrow> d)"
    by (auto simp: dot_default_def split: option.split)
  then show ?thesis unfolding m(2) by simp
qed

text \<open>On a text with a character in it, the addresses that only name lines, characters and ends resolve.\<close>

lemma base_total:
  assumes "named_base ab" "holds b s" "s \<noteq> []"
  shows "map_addr_base ac alnum (view b) ab d \<noteq> None"
  using assms full_line_ok[OF assms(2,3)]
  by (cases ab) (auto simp: map_addr_base_def opt_bind_def Let_def line_to_char line_end line_begin)

lemma suffixes_total:
  "list_all named_base sufs \<Longrightarrow> holds b s \<Longrightarrow> s \<noteq> [] \<Longrightarrow> map_suffixes ac alnum (view b) sufs d \<noteq> None"
proof (induction sufs arbitrary: d)
  case (Cons ab sufs)
  then show ?case using base_total[of ab b s ac alnum d] by (auto simp: opt_bind_def split: option.splits)
qed simp

lemma map_addr_total:
  assumes "named_addr a" "holds b s" "s \<noteq> []"
  shows "map_addr ac alnum (view b) a \<noteq> None"
proof -
  have simple: "map_simple_addr ac alnum (view b) sa d \<noteq> None"
    if "named_base (sa_base sa)" "list_all named_base (sa_suffixes sa)" for sa d
    unfolding map_simple_addr_def
    by (rule opt_bind_total[OF base_total[OF that(1) assms(2,3)] suffixes_total[OF that(2) assms(2,3)]])
  have "map_compound_addr ac alnum (view b) sa sa' \<noteq> None" if "named_addr (Compound sa sa')" for sa sa'
    unfolding map_compound_addr_def using that by (intro opt_bind_total simple) simp_all
  then show ?thesis
    using assms(1) simple
    by (cases a) (auto simp: map_addr_def bind_eq_None_conv simp del: not_None_eq split: option.split)
qed

end

subsection \<open>The two implementations\<close>

lemma gap_line_end:
  assumes "gb_holds gb s" "s \<noteq> []"
  shows "gap_char_to_line_end gb k = Some (if k \<le> length s then Some (line_end_at s k) else None)"
proof -
  have "Suc 0 \<le> length s" using assms(2) by (cases s) simp_all
  then show ?thesis
    using assms gb_holds_len[OF assms(1)] line_at_le[of s k]
    by (auto simp: gap_char_to_line_end_def opt_bind_def char_to_line_correct line_to_char_correct line_end_at_def
        line_start_Suc usub_def len_chars_def simp flip: line_at_def)
qed

lemma gap_line_begin:
  "gb_holds gb s \<Longrightarrow> gap_char_to_line_start gb k = Some (if k \<le> length s then Some (line_start s (line_at s k)) else None)"
  by (auto simp: gap_char_to_line_start_def opt_bind_def char_to_line_correct line_to_char_holds simp flip: line_at_def)

interpretation gap_ad: address_impl gap_address gb_holds
  by unfold_locales
    (simp_all add: gap_address_def char_to_line_correct line_to_char_correct gap_line_end gap_line_begin len_chars_def
       gb_holds_len flip: line_at_def)

lemma buffer_line_methods:
  "buffer_char_to_line_end b = gap_char_to_line_end (b_txt b)"
  "buffer_char_to_line_start b = gap_char_to_line_start (b_txt b)"
  by (simp_all add: fun_eq_iff buffer_char_to_line_end_def gap_char_to_line_end_def buffer_char_to_line_start_def
      gap_char_to_line_start_def)

interpretation buf_ad: address_impl buffer_address buf_holds
  by unfold_locales
    (auto simp add: buffer_address_def buf_holds_def char_to_line_correct line_to_char_correct gap_line_end
       gap_line_begin len_chars_def gb_holds_len buffer_line_methods dot_ok_ordered simp flip: line_at_def)

end
