(* ===== verification/AddressProperties.thy ===== *)
theory AddressProperties
  imports AddressResolve BufferEdit
begin

text \<open>
  The properties of addresses: printing, parsing and resolving a dot, the address of a line, and
  where a resolved dot lies; then the last line, which differs from the others.
\<close>

lemma dot_addr_cur:
  assumes "buf_holds b s" "k \<le> length s"
  shows "cur_string_addr (Cur k) b =
      Some (show_nat (line_at s k + 1) @ uc CHR '':'' # show_nat (k - line_start s (line_at s k) + 1))"
    "addr_from_dot (DotCur (Cur k)) b = Some (Simple (at_char s k))"
  using assms as_yx_holds[of b s "Cur k"]
  by (simp_all add: cur_string_addr_def addr_from_dot_def buf_holds_def at_char_def)

lemma at_char_base: "at_char s k = simple_from_base (BLineAndColumn (line_at s k) (k - line_start s (line_at s k)))"
  by (simp add: at_char_def)

lemma line_at_less: "k \<le> length s \<Longrightarrow> length s + 1 < n \<Longrightarrow> line_at s k + 1 < n \<and> k - line_start s (line_at s k) + 1 < n"
proof -
  assume "k \<le> length s" "length s + 1 < n"
  moreover have "length (newlines s) \<le> length s"
    unfolding newlines_def using length_filter_le[of "\<lambda>i. s ! i = newline" "[0..<length s]"] by simp
  ultimately show ?thesis using line_at_le[of s k] by linarith
qed

lemma reads_at_char:
  assumes "k \<le> length s" "length s + 1 < 2 ^ 64"
  shows "reads parse_base (show_nat (line_at s k + 1) @ uc CHR '':'' # show_nat (k - line_start s (line_at s k) + 1))
    (BLineAndColumn (line_at s k) (k - line_start s (line_at s k)))"
  using line_at_less[OF assms] by (intro reads_line_column) simp_all

lemma parse_at_cur:
  assumes "k \<le> length s" "length s + 1 < 2 ^ 64"
  shows "addr_parse (show_nat (line_at s k + 1) @ uc CHR '':'' # show_nat (k - line_start s (line_at s k) + 1)) =
    Some (Inr (Simple (at_char s k)))"
proof -
  let ?t = "show_nat (line_at s k + 1) @ uc CHR '':'' # show_nat (k - line_start s (line_at s k) + 1)"
  have "in_rest (parse_input_new ?t) = ?t @ []" by (simp add: parse_input_new_def)
  moreover have "stops []" by (simp add: stops_def)
  ultimately obtain s' where "parse_base (parse_input_new ?t) =
      Some (Inr (BLineAndColumn (line_at s k) (k - line_start s (line_at s k))), s')" "in_rest s' = []"
    by (rule readsE[OF reads_at_char[OF assms]])
  then show ?thesis unfolding at_char_base by (rule addr_parse_simple)
qed

lemma parse_at_range:
  assumes "i \<le> length s" "j \<le> length s" "length s + 1 < 2 ^ 64"
  defines "t \<equiv> \<lambda>k. show_nat (line_at s k + 1) @ uc CHR '':'' # show_nat (k - line_start s (line_at s k) + 1)"
  shows "addr_parse (t i @ uc CHR '','' # t j) = Some (Inr (Compound (at_char s i) (at_char s j)))"
proof -
  let ?in = "parse_input_new (t i @ uc CHR '','' # t j)"
  have in1: "in_rest ?in = t i @ uc CHR '','' # t j" by (simp add: parse_input_new_def)
  have st: "stops (uc CHR '','' # t j)" "stops []" by (simp_all add: stops_def is_ascii_digit_def uc_def)
  obtain s1 where s1: "parse_base ?in = Some (Inr (BLineAndColumn (line_at s i) (i - line_start s (line_at s i))), s1)"
    "in_rest s1 = uc CHR '','' # t j"
    by (rule readsE[OF reads_at_char[OF assms(1,3)] in1[unfolded t_def] st(1)[unfolded t_def]])
       (simp add: t_def)
  have in2: "in_rest (advance s1) = t j @ []" using s1(2) by simp
  obtain s2 where s2: "parse_base (advance s1) = Some (Inr (BLineAndColumn (line_at s j) (j - line_start s (line_at s j))), s2)"
    "in_rest s2 = []"
    by (rule readsE[OF reads_at_char[OF assms(2,3)] in2[unfolded t_def] st(2)])
  obtain d ds where "show_nat (line_at s j + 1) = d # ds" "is_ascii_digit d" by (rule show_nat_pos)
  then have "t j \<noteq> []" "\<not> is_whitespace (hd (t j))" by (simp_all add: t_def digit_not_whitespace)
  then show ?thesis unfolding at_char_base by (rule addr_parse_compound[OF s1 _ _ s2])
qed

fun as_addressed :: "dot \<Rightarrow> dot" where
  "as_addressed (DotCur c) = DotCur c"
| "as_addressed (DotRange r) = DotRange (r\<lparr>r_start_active := False\<rparr>)"

text \<open>
  C35: the address that is printed for a dot parses to the address of that dot, and resolving it
  gives the dot back, its last cursor active.
\<close>

theorem address_roundtrip:
  assumes "buf_holds b s" "dot_ok (length s) d" "length s + 1 < 2 ^ 64"
  shows "\<exists>t a. dot_addr d b = Some t \<and> addr_from_dot d b = Some a \<and> addr_parse t = Some (Inr a) \<and>
    map_addr ac alnum (buffer_address b) a = Some (as_addressed d)"
proof (cases d)
  case (DotCur c)
  then have k: "cur_idx c \<le> length s" using assms(2) by simp
  show ?thesis
    using dot_addr_cur[OF assms(1) k] parse_at_cur[OF k assms(3)] buf_ad.map_at_cur[OF assms(1) k] DotCur
    by (simp add: dot_addr_def)
next
  case (DotRange r)
  then have ij: "cur_idx (r_start r) \<le> cur_idx (r_end r)" "cur_idx (r_start r) \<le> length s" "cur_idx (r_end r) \<le> length s"
    using assms(2) by (auto simp: cur_order)
  have "addr_from_dot d b = Some (Compound (at_char s (cur_idx (r_start r))) (at_char s (cur_idx (r_end r))))"
    using assms(1) ij(2,3) DotRange as_yx_holds[of b s "r_start r"] as_yx_holds[of b s "r_end r"]
    by (simp add: addr_from_dot_def buf_holds_def at_char_def)
  then show ?thesis
    using dot_addr_cur(1)[OF assms(1) ij(2)] dot_addr_cur(1)[OF assms(1) ij(3)] parse_at_range[OF ij(2,3) assms(3)]
      buf_ad.map_at_range[OF assms(1) ij(1,3)] DotRange
    by (cases r) (simp add: dot_addr_def range_string_addr_def)
qed

lemma two_lines:
  obtains b where "buf_holds b (lit ''ab'' @ newline # lit ''cd'')"
proof -
  have "plain (lit ''ab'' @ newline # lit ''cd'')"
    by (simp add: plain_def lit_def uchar_ok_def)
  then obtain b where b: "new_unnamed 0 (lit ''ab'' @ newline # lit ''cd'') = Some b"
    "buf_inv b (lit ''ab'' @ newline # lit ''cd'')"
    using new_unnamed_inv by blast
  then have "b_dot b = DotCur (Cur 0)" by (auto simp: new_unnamed_def buffer_new_def dot_default_def bind_eq_Some_conv)
  then have "buf_holds b (lit ''ab'' @ newline # lit ''cd'')" using b(2) by (simp add: buf_holds_def buf_inv_def)
  then show thesis by (rule that)
qed

lemma address_roundtrip_witness:
  "\<exists>b t a. dot_addr (DotRange \<lparr>r_start = Cur 1, r_end = Cur 4, r_start_active = True\<rparr>) b = Some t \<and>
    addr_parse t = Some (Inr a) \<and>
    map_addr (\<lambda>_ _. None) (\<lambda>_. True) (buffer_address b) a =
      Some (DotRange \<lparr>r_start = Cur 1, r_end = Cur 4, r_start_active = False\<rparr>)"
proof -
  obtain b where b: "buf_holds b (lit ''ab'' @ newline # lit ''cd'')" by (rule two_lines)
  show ?thesis
    using address_roundtrip[OF b, of "DotRange \<lparr>r_start = Cur 1, r_end = Cur 4, r_start_active = True\<rparr>" "\<lambda>_ _. None" "\<lambda>_. True"]
    by (fastforce simp: lit_def cur_order)
qed





subsection \<open>The last line\<close>

text \<open>A last line without a newline loses its last character, and on an empty text no line resolves.\<close>

lemma last_line_loses_character:
  assumes "buf_holds b (lit ''ab'' @ newline # lit ''cd'')"
  shows "map_addr ac alnum (buffer_address b) (Simple (simple_from_base (BLine 1))) = Some (dot_from_char_indices 3 3)"
proof -
  let ?s = "lit ''ab'' @ newline # lit ''cd''"
  have nl: "newlines ?s = [2]" by (simp add: lit_def newlines_Cons) (simp add: newlines_def)
  have "length ?s = 5" "?s \<noteq> []" by (simp_all add: lit_def)
  moreover have "line_start ?s 1 = 3" "line_at ?s 3 = 1" by (simp_all only: line_start_def line_at_def nl) simp_all
  ultimately have "full_line (buffer_address b) 1 = Some (Some (dot_from_char_indices 3 3))"
    using buf_ad.line_to_char[OF assms] buf_ad.line_end[OF assms] nl
    by (simp add: full_line_def opt_bind_def line_end_at_def)
  then show ?thesis
    using buf_ad.len_chars[OF assms] \<open>length ?s = 5\<close>
    by (simp add: map_addr_def map_simple_addr_def simple_from_base_def map_addr_base_def opt_bind_def Let_def
        max_iter_def dot_from_char_indices_def range_from_cursors_def cur_order cur_clamp_idx_def)
qed

lemma empty_text_line_panics:
  assumes "buf_holds b []"
  shows "map_addr ac alnum (buffer_address b) (Simple (simple_from_base (BLine 0))) = None"
proof -
  have g: "gb_holds (b_txt b) []" using assms by (simp add: buf_holds_def)
  have nl: "newlines [] = []" by (simp add: newlines_def)
  have "len_chars (b_txt b) = 0" using gb_holds_len[OF g] by (simp add: len_chars_def)
  then have "full_line (buffer_address b) 0 = None"
    using line_to_char_correct[OF g] char_to_line_correct[OF g] nl
    by (simp add: full_line_def opt_bind_def buffer_address_def buffer_char_to_line_end_def line_start_def usub_def)
  then show ?thesis
    by (simp add: map_addr_def map_simple_addr_def simple_from_base_def map_addr_base_def opt_bind_def Let_def)
qed

end
