(* ===== verification/MoveProperties.thy ===== *)
theory MoveProperties
  imports MotionLemmas BufferEdit
begin



lemma active_cur_ok: "dot_ok n d \<Longrightarrow> cur_idx (active_cur d) \<le> n"
  by (cases d) (auto simp: active_cursor_def cur_order)

text \<open>A computation on a buffer with the text \<open>s\<close> that returns, and keeps all but the cache.\<close>

definition stays :: "buffer \<Rightarrow> ustr \<Rightarrow> ('a \<Rightarrow> bool) \<Rightarrow> ('a \<times> buffer) option \<Rightarrow> bool" where
  "stays b s P m \<longleftrightarrow> (\<exists>x b'. m = Some (x, b') \<and> same_but_txt b b' s \<and> P x)"

lemma staysI: "m = Some (x, b') \<Longrightarrow> same_but_txt b b' s \<Longrightarrow> P x \<Longrightarrow> stays b s P m"
  by (auto simp: stays_def)


lemma stays_map:
  "stays b s P m \<Longrightarrow> (\<And>x. P x \<Longrightarrow> Q (g x)) \<Longrightarrow> stays b s Q (map_option (\<lambda>(x, b). (g x, b)) m)"
  by (auto simp: stays_def)








subsection \<open>Text objects\<close>


















subsection \<open>Moving the dot of a buffer\<close>




lemma three_words:
  obtains b where "buf_holds b (lit ''ab cd'' @ newline # lit ''e'')"
proof -
  have "plain (lit ''ab cd'' @ newline # lit ''e'')" by (simp add: lit_def)
  then obtain b where b: "new_unnamed 0 (lit ''ab cd'' @ newline # lit ''e'') = Some b"
    "buf_inv b (lit ''ab cd'' @ newline # lit ''e'')"
    using new_unnamed_inv by blast
  have "b_dot b = DotCur (Cur 0)" using b(1) by (auto simp: new_unnamed_def buffer_new_def dot_default_def bind_eq_Some_conv)
  then have "buf_holds b (lit ''ab cd'' @ newline # lit ''e'')" using b(2) by (simp add: buf_holds_def buf_inv_def)
  then show thesis by (rule that)
qed

definition plain_display :: display where
  "plain_display = \<lparr>d_tabstop = 4, d_expand_tab = True, d_match_indent = True, d_width = (\<lambda>_. Some 1)\<rparr>"


text \<open>Where a text object that steps to one place of the text takes a cursor.\<close>

fun target :: "ustr \<Rightarrow> nat \<Rightarrow> text_object \<Rightarrow> nat option" where
  "target s k TBufferStart = Some 0"
| "target s k TBufferEnd = Some (length s)"
| "target s k TCharacter = Some (min (k + 1) (length s))"
| "target s k (TArr ALeft) = Some (k - 1)"
| "target s k (TArr ARight) = Some (min (k + 1) (length s))"
| "target s k TLineStart = Some (line_start s (line_at s k))"
| "target s k TLineEnd = Some (if line_at s k < length (newlines s) then newlines s ! line_at s k else length s)"
| "target s k (TFindChar ch) = Some (k + length (takeWhile (\<lambda>c. c \<noteq> ch) (drop k s)))"
| "target s k _ = None"

lemma move_to_line_end_eq:
  assumes "gb_holds (b_txt b) s" "cur_idx c \<le> length s"
  shows "move_to_line_end c b =
    Some (Cur (if line_at s (cur_idx c) < length (newlines s) then newlines s ! line_at s (cur_idx c) else length s))"
proof -
  let ?y = "line_at s (cur_idx c)"
  have y: "?y \<le> length (newlines s)" by simp
  then have "?y < length (newlines s) \<or> ?y = length (newlines s)" by linarith
  then show ?thesis
    using line_start_le_stop[OF y]
    by (auto simp: move_to_line_end_def char_to_line_holds[OF assms] line_to_char_holds[OF assms(1)]
        line_len_chars_correct[OF assms(1)] len_lines_holds[OF assms(1)] line_stop_def)
qed

lemma find_char_end:
  assumes "gb_holds (b_txt b) s" "cur_idx c \<le> length s"
  shows "\<exists>b'. find_forward_end alnum (FindCh ch) c b =
    Some (Cur (cur_idx c + length (takeWhile (\<lambda>x. x \<noteq> ch) (drop (cur_idx c) s))), b') \<and> same_but_txt b b' s"
proof -
  let ?w = "drop (cur_idx c) s"
  obtain b' where b': "iter_between_chars (cur_idx c) (length s) b = Some (enumerate (cur_idx c) ?w, b')" "same_but_txt b b' s"
    using iter_between_holds[OF assms order_refl] by auto
  have none: "ch \<notin> set ?w \<Longrightarrow> takeWhile (\<lambda>x. x \<noteq> ch) ?w = ?w"
    by (simp only: takeWhile_eq_all_conv) blast
  have "ch \<notin> set ?w \<Longrightarrow> cur_idx c + length (takeWhile (\<lambda>x. x \<noteq> ch) ?w) = length s"
    unfolding none using assms(2) by simp
  then show ?thesis
    using b' len_chars_holds[OF assms(1)] len_chars_holds[OF same_but_txt_simps(1)[OF b'(2)]]
    by (auto simp: find_forward_end_def find_forward_def find_between_def try_find_def find_pred_enumerate match_to_dot_def
        cur_buffer_end_def)
qed

text \<open>
  C39: a text object that steps to one place puts the dot there: to the ends of the buffer and of the
  line, one character along, or to the first occurrence of a character at or behind the active
  cursor, and to the end of the buffer where there is none.
\<close>

theorem set_dot_target:
  assumes "buf_holds b s" "target s (cur_idx (active_cur (b_dot b))) t = Some k"
  shows "\<exists>b'. buf_set_dot alnum d t 1 b = Some b' \<and> b_dot b' = DotCur (Cur k)"
proof -
  have h: "gb_holds (b_txt b) s" and c: "cur_idx (active_cur (b_dot b)) \<le> length s"
    using assms(1) active_cur_ok by (auto simp: buf_holds_def)
  let ?c = "active_cur (b_dot b)"
  have y: "line_at s (cur_idx ?c) \<le> length (newlines s)" by simp
  have k: "k \<le> length s"
  proof -
    have "cur_idx ?c + length (takeWhile P (drop (cur_idx ?c) s)) \<le> length s" for P
      using length_takeWhile_le[of P "drop (cur_idx ?c) s"] c by simp
    then show ?thesis
      using assms(2) c line_start_at[OF c] y newlines_nth(1)[of "line_at s (cur_idx ?c)" s]
      by (cases "(s, cur_idx ?c, t)" rule: target.cases) (auto split: if_splits)
  qed
  have "\<exists>b'. as_dot alnum d t b = Some (DotCur (Cur k), b') \<and> same_but_txt b b' s"
    using assms(2) move_to_line_end_eq[OF h c] find_char_end[OF h c, of alnum] same_but_txt_refl[OF h]
      char_to_line_holds[OF h c] line_to_char_holds[OF h y]
    by (cases "(s, cur_idx ?c, t)" rule: target.cases)
      (auto simp: as_dot_def to_dot_def pure_move_def cur_buffer_end_def cur_buffer_start_def len_chars_holds[OF h]
        cur_arr_def move_to_line_start_def)
  then show ?thesis
    using k same_but_txt_simps(1) len_chars_holds
    by (fastforce simp: buf_set_dot_def t_set_dot_def numeral_eq_Suc changed_def clamp_dots_def Let_def cur_clamp_idx_def)
qed

lemma set_dot_target_witness:
  "\<exists>b b'. buf_set_dot (\<lambda>_. True) plain_display (TFindChar (uc CHR ''d'')) 1 b = Some b' \<and> b_dot b' = DotCur (Cur 4)"
proof -
  obtain b where b: "buf_holds b (lit ''ab cd'' @ newline # lit ''e'')" by (rule three_words)
  have "\<exists>b. buf_holds b (lit ''ab cd'' @ newline # lit ''e'') \<and> b_dot b = DotCur (Cur 0)"
    using b by (intro exI[of _ "b\<lparr>b_dot := DotCur (Cur 0)\<rparr>"]) (simp add: buf_holds_def)
  then obtain b where b: "buf_holds b (lit ''ab cd'' @ newline # lit ''e'')" "b_dot b = DotCur (Cur 0)" by blast
  have "target (lit ''ab cd'' @ newline # lit ''e'') (cur_idx (active_cur (b_dot b))) (TFindChar (uc CHR ''d'')) = Some 4"
    unfolding b(2) by (simp add: lit_def uc_def)
  then show ?thesis using set_dot_target[OF b(1), of "TFindChar (uc CHR ''d'')" 4 "\<lambda>_. True" plain_display] by blast
qed

end
