(* ===== verification/BufferFiles.thy ===== *)
theory BufferFiles
  imports TextObject "HOL-Library.List_Lexorder"
begin

text \<open>
  Buffers and the files behind them (src/buffer/mod.rs): names and paths, making a buffer from a
  file or a directory, reloading and saving it. What the operating system answers about a path is
  a parameter of the model.
\<close>

subsection \<open>The files that the editor sees\<close>

datatype io_error = NotFound | OtherError string

text \<open>
  \<open>canonicalize\<close>, whether the metadata of a path says that it is a directory (false when there is
  none), the entries of a directory with the directory itself stripped from their paths and
  whether they are directories, and \<open>read_to_string\<close>.
\<close>

record files =
  fs_canonicalize :: "string \<Rightarrow> io_error + string"
  fs_is_dir :: "string \<Rightarrow> bool"
  fs_entries :: "string \<Rightarrow> io_error + (ustr \<times> bool) list"
  fs_read :: "string \<Rightarrow> io_error + ustr"

text \<open>
  \<open>Path::parent\<close> on a path written backwards: separators and \<open>.\<close> components at the end do not
  count, the last component is dropped, and the root has no parent.
\<close>

fun skip_separators :: "string \<Rightarrow> string" where
  "skip_separators (c # d # p) =
     (if c = CHR ''/'' then skip_separators (d # p)
      else if c = CHR ''.'' \<and> d = CHR ''/'' then skip_separators (d # p)
      else c # d # p)"
| "skip_separators [c] = (if c = CHR ''/'' then [] else [c])"
| "skip_separators [] = []"

definition path_parent :: "string \<Rightarrow> string option" where
  "path_parent p =
     (let r = skip_separators (rev p) in
      if r = [] then None
      else let r = dropWhile (\<lambda>c. c \<noteq> CHR ''/'') r;
               r' = skip_separators r
           in Some (if r' = [] \<and> r \<noteq> [] then ''/'' else rev r'))"

subsection \<open>Kinds\<close>

definition UNNAMED_BUFFER :: string where "UNNAMED_BUFFER = ''[No Name]''"
definition MAX_NAME_LEN :: nat where "MAX_NAME_LEN = 50"
definition DEFAULT_OUTPUT_BUFFER :: string where "DEFAULT_OUTPUT_BUFFER = ''+output''"

definition kind_display_name :: "buffer_kind \<Rightarrow> string" where
  "kind_display_name k =
     (case k of
        File p \<Rightarrow> p | Directory p \<Rightarrow> p | Virtual s \<Rightarrow> s | Output s \<Rightarrow> s
      | Unnamed \<Rightarrow> UNNAMED_BUFFER | MiniBuffer \<Rightarrow> '''')"

definition kind_path :: "buffer_kind \<Rightarrow> string option" where
  "kind_path k = (case k of File p \<Rightarrow> Some p | _ \<Rightarrow> None)"

definition kind_dir :: "buffer_kind \<Rightarrow> string option" where
  "kind_dir k =
     (case k of
        File p \<Rightarrow> path_parent p | Directory p \<Rightarrow> Some p | Output s \<Rightarrow> path_parent s | _ \<Rightarrow> None)"

definition output_file_key :: "buffer_kind \<Rightarrow> string \<Rightarrow> string" where
  "output_file_key k cwd =
     (case kind_dir k of Some p \<Rightarrow> p | None \<Rightarrow> cwd) @ ''/'' @ DEFAULT_OUTPUT_BUFFER"

text \<open>\<open>join\<close> with a newline.\<close>

fun join_lines :: "ustr list \<Rightarrow> ustr" where
  "join_lines [] = []"
| "join_lines [s] = s"
| "join_lines (s # t # ss) = s @ newline # join_lines (t # ss)"

definition dir_entry :: "ustr \<times> bool \<Rightarrow> ustr" where
  "dir_entry e = fst e @ (if snd e then lit ''/'' else [])"

definition kind_and_content ::
  "files \<Rightarrow> string \<Rightarrow> io_error + (buffer_kind \<times> ustr)" where
  "kind_and_content fs p =
     (if fs_is_dir fs p then
        (case fs_entries fs p of
           Inl e \<Rightarrow> Inl e
         | Inr entries \<Rightarrow>
             Inr (Directory p,
                  lit p @ newline # newline # lit ''..'' @ newline #
                  join_lines (sort (map dir_entry entries))))
      else
        (case fs_read fs p of
           Inr contents \<Rightarrow> Inr (File p, normalize_line_endings contents)
         | Inl NotFound \<Rightarrow> Inr (File p, [])
         | Inl e \<Rightarrow> Inl e))"

subsection \<open>Making buffers\<close>

definition new_from_file :: "files \<Rightarrow> nat \<Rightarrow> string \<Rightarrow> (io_error + buffer) option" where
  "new_from_file fs bid p =
     (case kind_and_content fs p of
        Inl e \<Rightarrow> Some (Inl e)
      | Inr (kind, raw) \<Rightarrow> do { txt \<leftarrow> gb_from_str raw; Some (Inr (buffer_new bid kind txt)) })"

definition new_virtual :: "nat \<Rightarrow> string \<Rightarrow> ustr \<Rightarrow> buffer option" where
  "new_virtual bid name content = do {
     let content = normalize_line_endings content;
     let content = (if content \<noteq> [] \<and> last content = newline then butlast content else content);
     txt \<leftarrow> gb_from_str content;
     Some (buffer_new bid (Virtual name) txt)
   }"

definition new_output :: "nat \<Rightarrow> string \<Rightarrow> ustr \<Rightarrow> buffer option" where
  "new_output bid name content = do {
     txt \<leftarrow> gb_from_str (normalize_line_endings content);
     Some (buffer_new bid (Output name) txt)
   }"

definition USIZE_MAX :: nat where "USIZE_MAX = 2 ^ 64 - 1"

definition new_minibuffer :: "buffer option" where
  "new_minibuffer = do {
     txt \<leftarrow> gb_from_str [];
     Some (buffer_new USIZE_MAX MiniBuffer txt)
   }"

subsection \<open>Names\<close>

text \<open>\<open>s[0..n]\<close> counts bytes and panics inside of a character.\<close>

fun str_prefix :: "nat \<Rightarrow> ustr \<Rightarrow> ustr option" where
  "str_prefix 0 s = Some []"
| "str_prefix (Suc n) [] = None"
| "str_prefix (Suc n) (c # s) =
     (if blen [c] \<le> Suc n then map_option ((#) c) (str_prefix (Suc n - blen [c]) s) else None)"

definition buf_display_name :: "buffer \<Rightarrow> ustr option" where
  "buf_display_name b =
     (let s = lit (kind_display_name (b_kind b)) in str_prefix (min MAX_NAME_LEN (blen s)) s)"

definition full_name :: "buffer \<Rightarrow> string" where
  "full_name b =
     (case b_kind b of
        File p \<Rightarrow> p | Directory p \<Rightarrow> p | Virtual s \<Rightarrow> s | Output s \<Rightarrow> s
      | Unnamed \<Rightarrow> UNNAMED_BUFFER | MiniBuffer \<Rightarrow> ''*mini-buffer*'')"

definition is_unnamed :: "buffer \<Rightarrow> bool" where
  "is_unnamed b \<longleftrightarrow> b_kind b = Unnamed"

text \<open>The line of a buffer, when there is one.\<close>

definition buf_line :: "buffer \<Rightarrow> nat \<Rightarrow> gb_slice option option" where
  "buf_line b y = do {
     n \<leftarrow> len_lines (b_txt b);
     if n \<le> y then Some None else map_option Some (gb_line (b_txt b) y)
   }"

text \<open>A new file name; the answer is the message of a path that cannot be used.\<close>

definition set_filename :: "files \<Rightarrow> string \<Rightarrow> buffer \<Rightarrow> io_error option \<times> buffer" where
  "set_filename fs p b =
     (case (case fs_canonicalize fs p of
              Inr p \<Rightarrow> Inr p | Inl NotFound \<Rightarrow> Inr p | Inl e \<Rightarrow> Inl e) of
        Inl e \<Rightarrow> (Some e, b)
      | Inr p \<Rightarrow>
          (None, changed (b\<lparr>b_kind := if fs_is_dir fs p then Directory p else File p\<rparr>)))"

subsection \<open>Reloading and saving\<close>

text \<open>The messages of the status line, and their arguments.\<close>

datatype reload_message =
    NotBacked | ReloadFailed io_error | Reloaded string nat nat

definition display_path :: "files \<Rightarrow> string \<Rightarrow> string" where
  "display_path fs p = (case fs_canonicalize fs p of Inr cp \<Rightarrow> cp | Inl _ \<Rightarrow> p)"

definition reload_from_disk :: "files \<Rightarrow> buffer \<Rightarrow> (reload_message \<times> buffer) option" where
  "reload_from_disk fs b =
     (case (case b_kind b of File p \<Rightarrow> Some p | Directory p \<Rightarrow> Some p | _ \<Rightarrow> None) of
        None \<Rightarrow> Some (NotBacked, b)
      | Some p \<Rightarrow>
          (case kind_and_content fs p of
             Inl e \<Rightarrow> Some (ReloadFailed e, b)
           | Inr (_, raw) \<Rightarrow> do {
               let n_chars = blen raw;
               txt \<leftarrow> gb_from_str raw;
               let b = b\<lparr>b_txt := txt, b_dot := dot_clamp_idx (b_dot b) n_chars,
                         b_xdot := dot_clamp_idx (b_xdot b) n_chars,
                         b_edit_log := log_clear (b_edit_log b),
                         b_dirty := False, b_changed_since_last_render := True\<rparr>;
               n_lines \<leftarrow> len_lines (b_txt b);
               Some (Reloaded (display_path fs p) n_lines (gb_len (b_txt b)), b)
             }))"

datatype save_message =
    NothingToSave | ModifiedOnDisk | CheckFailed io_error | SaveFailed io_error
  | Written string nat nat

text \<open>\<open>modified\<close> compares the time of a file with that of the last save.\<close>

definition state_changed_on_disk ::
  "(string \<Rightarrow> io_error + bool) \<Rightarrow> buffer \<Rightarrow> io_error + bool" where
  "state_changed_on_disk modified b =
     (case b_kind b of
        File p \<Rightarrow>
          (case modified p of
             Inr m \<Rightarrow> Inr m | Inl NotFound \<Rightarrow> Inr False | Inl e \<Rightarrow> Inl e)
      | _ \<Rightarrow> Inr False)"

text \<open>
  \<open>write\<close> is what the operating system answers to the write; the bytes that were to be written
  are part of the result.
\<close>

definition save_to_disk_at ::
  "files \<Rightarrow> (string \<Rightarrow> io_error + bool) \<Rightarrow> (string \<Rightarrow> u8 list \<Rightarrow> io_error + unit) \<Rightarrow>
   string \<Rightarrow> bool \<Rightarrow> buffer \<Rightarrow> (save_message \<times> u8 list option \<times> buffer) option" where
  "save_to_disk_at fs modified write p force b = do {
     nl \<leftarrow> has_trailing_newline (b_txt b);
     b \<leftarrow> (if \<not> nl
          then map_option snd (buf_insert_char b (DotCur (cur_buffer_end b)) newline None)
          else Some b);
     if \<not> b_dirty b then Some (NothingToSave, None, b)
     else
       (case (if force then Inr False else state_changed_on_disk modified b) of
          Inl e \<Rightarrow> Some (CheckFailed e, None, b)
        | Inr True \<Rightarrow> Some (ModifiedOnDisk, None, b)
        | Inr False \<Rightarrow> do {
            n_lines \<leftarrow> len_lines (b_txt b);
            (contents, txt) \<leftarrow> make_contiguous (b_txt b);
            let b = b\<lparr>b_txt := txt\<rparr>;
            Some (case write p contents of
                    Inr () \<Rightarrow> (Written (display_path fs p) n_lines (length contents),
                              Some contents, b\<lparr>b_dirty := False\<rparr>)
                  | Inl e \<Rightarrow> (SaveFailed e, Some contents, b))
          })
   }"

end
