(* ===== verification/BufferFilesProperties.thy ===== *)
theory BufferFilesProperties
  imports BufferFiles BufferEdit GapLine
begin

text \<open>
  Saving and reloading a buffer: the bytes that are written, and that they are read back as the
  text; and how reloading places the dot.
\<close>

subsection \<open>The last byte of a text\<close>






subsection \<open>Saving\<close>

lemma clean_normalize: "carriage_return \<notin> set s \<Longrightarrow> normalize_line_endings s = s"
  by (simp add: normalize_line_endings_def)





lemma reload_holds:
  assumes k: "b_kind b = File p" and fs: "\<not> fs_is_dir fs p" "fs_read fs p = Inr s"
    and s: "str_ok s" "carriage_return \<notin> set s"
  obtains m b' where "reload_from_disk fs b = Some (m, b')" "gb_holds (b_txt b') s" "\<not> b_dirty b'"
    "l_edits (b_edit_log b') = []" "b_dot b' = dot_clamp_idx (b_dot b) (blen s)"
proof -
  obtain gb where gb: "gb_from_str s = Some gb" "gb_holds gb s" using gb_from_str_holds[OF s(1)] by blast
  then show thesis
    using that k fs s(2) len_lines_holds[OF gb(2)]
    by (simp add: reload_from_disk_def kind_and_content_def clean_normalize log_clear_def Let_def)
qed

subsection \<open>Properties\<close>



subsection \<open>The dot after a reload\<close>

text \<open>Reloading clamps the dot with the number of bytes: it can be behind the end of the text.\<close>

lemma reload_dot_beyond_text:
  assumes "b_kind b = File p" "\<not> fs_is_dir fs p" "fs_read fs p = Inr [0xE9]" "b_dot b = DotCur (Cur 2)"
  shows "\<exists>m b'. reload_from_disk fs b = Some (m, b') \<and> len_chars (b_txt b') = 1 \<and> b_dot b' = DotCur (Cur 2)"
proof -
  obtain m b' where r: "reload_from_disk fs b = Some (m, b')" "gb_holds (b_txt b') [0xE9]"
    "b_dot b' = dot_clamp_idx (b_dot b) (blen [0xE9])"
    by (rule reload_holds[OF assms(1-3)]) (auto simp: uchar_ok_def)
  then show ?thesis
    using gb_holds_len[OF r(2)] assms(4)
    by (simp add: len_chars_def encode_utf8_def cur_clamp_idx_def)
qed

end
