(* ===== verification/Buffers.thy ===== *)
theory Buffers
  imports BufferFiles ZipList
begin

text \<open>
  The open buffers (src/buffer/buffers.rs): a zip list of buffers whose focus is the active one,
  the next identifier, the list of jumps, and the notifications that a language server gets. A
  function that can panic returns an option.
\<close>

subsection \<open>The jump list\<close>

definition MAX_JUMPS :: nat where "MAX_JUMPS = 100"

record jump_list =
  j_idx :: nat
  j_jumps :: "(nat \<times> cur) list"

definition jl_default :: jump_list where
  "jl_default = \<lparr>j_idx = 0, j_jumps = []\<rparr>"

definition jl_push :: "nat \<Rightarrow> cur \<Rightarrow> jump_list \<Rightarrow> jump_list" where
  "jl_push bid c l =
     (let l = l\<lparr>j_jumps := take (j_idx l) (j_jumps l)\<rparr>;
          jump = (bid, c)
      in if j_jumps l \<noteq> [] \<and> last (j_jumps l) = jump then l
         else
           let l = (if length (j_jumps l) = MAX_JUMPS then l\<lparr>j_jumps := tl (j_jumps l)\<rparr> else l);
               l = l\<lparr>j_jumps := j_jumps l @ [jump]\<rparr>
           in l\<lparr>j_idx := length (j_jumps l)\<rparr>)"

definition jl_forward :: "jump_list \<Rightarrow> (nat \<times> cur) option \<times> jump_list" where
  "jl_forward l =
     (if length (j_jumps l) \<le> j_idx l + 1 then (None, l)
      else let l = l\<lparr>j_idx := j_idx l + 1\<rparr> in (nth_opt (j_jumps l) (j_idx l), l))"

definition jl_backward ::
  "nat \<Rightarrow> cur \<Rightarrow> jump_list \<Rightarrow> ((nat \<times> cur) option \<times> jump_list) option" where
  "jl_backward bid c l =
     (if j_idx l = 0 then Some (None, l)
      else do {
        l \<leftarrow> (if j_idx l = length (j_jumps l)
             then do {
               let l = jl_push bid c l;
               idx \<leftarrow> usub (j_idx l) 1;
               Some (l\<lparr>j_idx := idx\<rparr>)
             }
             else Some l);
        idx \<leftarrow> usub (j_idx l) 1;
        let l = l\<lparr>j_idx := idx\<rparr>;
        Some (nth_opt (j_jumps l) (j_idx l), l)
      })"

definition jl_clear_for_buffer :: "nat \<Rightarrow> jump_list \<Rightarrow> jump_list" where
  "jl_clear_for_buffer bid l =
     (let jumps = filter (\<lambda>j. fst j \<noteq> bid) (j_jumps l)
      in \<lparr>j_idx = length jumps, j_jumps = jumps\<rparr>)"

subsection \<open>The state\<close>

text \<open>What the language server is told, with the identifier of the buffer.\<close>

datatype lsp_note = DocumentOpened nat | DocumentChanged nat | DocumentClosed nat

record buffers =
  bs_next_id :: nat
  bs_inner :: "buffer ziplist"
  bs_jump_list :: jump_list
  bs_lsp :: "lsp_note list"

definition buffers_new :: "buffers option" where
  "buffers_new = do {
     b \<leftarrow> new_unnamed 0 [];
     Some \<lparr>bs_next_id = 1, bs_inner = zl_new [] b [], bs_jump_list = jl_default, bs_lsp = []\<rparr>
   }"

definition bs_active :: "buffers \<Rightarrow> buffer" where
  "bs_active bs = z_focus (bs_inner bs)"

definition bs_set_active :: "buffer \<Rightarrow> buffers \<Rightarrow> buffers" where
  "bs_set_active b bs = bs\<lparr>bs_inner := (bs_inner bs)\<lparr>z_focus := b\<rparr>\<rparr>"

definition bs_len :: "buffers \<Rightarrow> nat" where
  "bs_len bs = zl_len (bs_inner bs)"

definition lsp_send :: "lsp_note \<Rightarrow> buffers \<Rightarrow> buffers" where
  "lsp_send note bs = bs\<lparr>bs_lsp := bs_lsp bs @ [note]\<rparr>"

definition notify_lsp_changes_if_dirty :: "buffers \<Rightarrow> buffers" where
  "notify_lsp_changes_if_dirty bs =
     (if b_dirty (bs_active bs) then lsp_send (DocumentChanged (b_id (bs_active bs))) bs else bs)"

definition bs_next :: "buffers \<Rightarrow> buffers" where
  "bs_next bs =
     (let bs = notify_lsp_changes_if_dirty bs in bs\<lparr>bs_inner := focus_down (bs_inner bs)\<rparr>)"

definition bs_previous :: "buffers \<Rightarrow> buffers" where
  "bs_previous bs =
     (let bs = notify_lsp_changes_if_dirty bs in bs\<lparr>bs_inner := focus_up (bs_inner bs)\<rparr>)"

definition bs_iter :: "buffers \<Rightarrow> buffer list" where
  "bs_iter bs = map snd (zl_iter (bs_inner bs))"

definition bs_push_buffer :: "buffer \<Rightarrow> buffers \<Rightarrow> buffers" where
  "bs_push_buffer b bs = bs\<lparr>bs_inner := zl_insert b (bs_inner bs)\<rparr>"

definition record_jump_position :: "buffers \<Rightarrow> buffers" where
  "record_jump_position bs =
     bs\<lparr>bs_jump_list :=
       jl_push (b_id (bs_active bs)) (active_cur (b_dot (bs_active bs))) (bs_jump_list bs)\<rparr>"

text \<open>\<open>self.inner.focus_element_by(|b| b.id == id)\<close>\<close>

definition bs_focus_by_id :: "nat \<Rightarrow> buffers \<Rightarrow> buffers" where
  "bs_focus_by_id bid bs =
     bs\<lparr>bs_inner := snd (focus_element_by (\<lambda>b. b_id b = bid) (bs_inner bs))\<rparr>"

subsection \<open>Looking up buffers\<close>

definition contains_bufid :: "nat \<Rightarrow> buffers \<Rightarrow> bool" where
  "contains_bufid bid bs \<longleftrightarrow> list_ex (\<lambda>b. b_id b = bid) (bs_iter bs)"

definition with_id :: "nat \<Rightarrow> buffers \<Rightarrow> buffer option" where
  "with_id bid bs = List.find (\<lambda>b. b_id b = bid) (bs_iter bs)"

definition has_path :: "string \<Rightarrow> buffer \<Rightarrow> bool" where
  "has_path path b = (case b_kind b of File p \<Rightarrow> p = path | Directory p \<Rightarrow> p = path | _ \<Rightarrow> False)"

definition with_path :: "string \<Rightarrow> buffers \<Rightarrow> buffer option" where
  "with_path path bs = List.find (has_path path) (bs_iter bs)"

definition is_virtual :: "string \<Rightarrow> buffer \<Rightarrow> bool" where
  "is_virtual name b = (case b_kind b of Virtual s \<Rightarrow> s = name | _ \<Rightarrow> False)"

definition dirty_buffers :: "buffers \<Rightarrow> string list" where
  "dirty_buffers bs = map full_name (filter (\<lambda>b. b_dirty b \<and> kind_is_file (b_kind b)) (bs_iter bs))"

text \<open>\<open>{:<4}\<close> pads a number to four characters.\<close>

definition pad_left_4 :: "nat \<Rightarrow> ustr" where
  "pad_left_4 n = (let s = show_nat n in s @ replicate (4 - length s) 0x20)"

definition as_buffer_list :: "buffers \<Rightarrow> ustr list" where
  "as_buffer_list bs =
     map snd (sort_key fst
       (map (\<lambda>(focused, b).
               (b_id b, pad_left_4 (b_id b) @ lit '' '' @ lit (if focused then ''*'' else '' '') @
                        lit '' '' @ lit (full_name b)))
          (zl_iter (bs_inner bs))))"

text \<open>The message of a first start, and a buffer list that only holds it or nothing.\<close>

definition WELCOME_SQUIRREL :: ustr where
  "WELCOME_SQUIRREL =
     (let rule = lit ''+'' @ replicate 75 (0x2D) @ lit ''+''; nl = [newline]; bs = [0x5C]; dq = [0x22]; sq = [0x27] in
      rule @ nl @
      lit ''| > Welcome to the ad text editor!                                          |'' @ nl @
      lit ''| This is a temporary buffer where you can make notes and execute commands. |'' @ nl @
      lit ''| You can press the '' @ sq @ lit ''-'' @ sq @ lit '' key to open a file from the current directory, or   |'' @ nl @
      lit ''| type :help to view the in-editor help documentation.                      |'' @ nl @
      lit ''|                                                                           |'' @ nl @
      lit ''| To prevent this message being shown at startup, set the '' @ sq @ lit ''show_splash'' @ sq @ lit ''     |'' @ nl @
      lit ''| property to false in your config file.                                    |'' @ nl @
      rule @ nl @
      lit ''              '' @ bs @ lit ''  ,,  __'' @ nl @
      lit ''                ('' @ dq @ bs @ lit '' ( ('' @ nl @
      lit ''                -)>'' @ bs @ lit '' )/'' @ nl @
      lit ''                ('' @ sq @ lit ''( )'' @ sq @ nl @
      lit ''                -'' @ sq @ lit ''-'' @ sq)"

definition is_empty_squirrel :: "buffers \<Rightarrow> bool option" where
  "is_empty_squirrel bs =
     (let b = bs_active bs in
      if bs_len bs = 1 \<and> is_unnamed b then
        if len_chars (b_txt b) = 0 then Some True else gb_eq_str (b_txt b) WELCOME_SQUIRREL
      else Some False)"

subsection \<open>Changing the focus\<close>

definition bs_focus_id :: "nat \<Rightarrow> buffers \<Rightarrow> nat option \<times> buffers" where
  "bs_focus_id bid bs =
     (if \<not> contains_bufid bid bs \<or> b_id (bs_active bs) = bid then (None, bs)
      else (Some bid, bs_focus_by_id bid (record_jump_position (notify_lsp_changes_if_dirty bs))))"

definition focus_id_silent :: "nat \<Rightarrow> buffers \<Rightarrow> buffers" where
  "focus_id_silent bid bs = bs_focus_by_id bid (notify_lsp_changes_if_dirty bs)"

definition bs_jump :: "nat \<Rightarrow> cur \<Rightarrow> buffers \<Rightarrow> (nat \<times> nat) \<times> buffers" where
  "bs_jump bid c bs =
     (let bs = notify_lsp_changes_if_dirty bs;
          prev_id = b_id (bs_active bs);
          bs = bs_focus_by_id bid bs;
          b = bs_active bs;
          new_id = b_id b
      in ((prev_id, new_id),
          if new_id = bid
          then bs_set_active (b\<lparr>b_dot := DotCur (cur_clamp_idx c (len_chars (b_txt b)))\<rparr>) bs
          else bs))"

definition jump_list_forward :: "buffers \<Rightarrow> (nat \<times> nat) option \<times> buffers" where
  "jump_list_forward bs =
     (case jl_forward (bs_jump_list bs) of
        (Some (bid, c), l) \<Rightarrow>
          (case bs_jump bid c (bs\<lparr>bs_jump_list := l\<rparr>) of (r, bs) \<Rightarrow> (Some r, bs))
      | (None, l) \<Rightarrow> (None, bs\<lparr>bs_jump_list := l\<rparr>))"

definition jump_list_backward :: "buffers \<Rightarrow> ((nat \<times> nat) option \<times> buffers) option" where
  "jump_list_backward bs = do {
     let b = bs_active bs;
     (j, l) \<leftarrow> jl_backward (b_id b) (active_cur (b_dot b)) (bs_jump_list bs);
     let bs = bs\<lparr>bs_jump_list := l\<rparr>;
     Some (case j of
             Some (bid, c) \<Rightarrow> (case bs_jump bid c bs of (r, bs) \<Rightarrow> (Some r, bs))
           | None \<Rightarrow> (None, bs))
   }"

subsection \<open>Opening and closing\<close>

definition canonical_or_given :: "files \<Rightarrow> string \<Rightarrow> io_error + string" where
  "canonical_or_given fs p =
     (case fs_canonicalize fs p of Inr p \<Rightarrow> Inr p | Inl NotFound \<Rightarrow> Inr p | Inl e \<Rightarrow> Inl e)"

text \<open>
  \<open>alnum\<close> and \<open>d\<close> are what \<open>set_dot\<close> reads. The result is the identifier of a new buffer, or an
  error, and the buffers.
\<close>

definition open_or_focus ::
  "(uchar \<Rightarrow> bool) \<Rightarrow> display \<Rightarrow> files \<Rightarrow> string \<Rightarrow> bool \<Rightarrow> buffers \<Rightarrow>
   ((io_error + nat option) \<times> buffers) option" where
  "open_or_focus alnum d fs p retain_empty_unnamed bs =
     (case canonical_or_given fs p of
        Inl e \<Rightarrow> Some (Inl e, bs)
      | Inr path \<Rightarrow>
        if kind_is_dir (b_kind (bs_active bs)) \<and> fs_is_dir fs path then do {
          (_, b) \<leftarrow> reload_from_disk fs ((bs_active bs)\<lparr>b_kind := Directory path\<rparr>);
          b \<leftarrow> buf_set_dot alnum d TBufferStart 1 b;
          Some (Inr None, bs_set_active b bs)
        }
        else
          (case with_path path bs of
             Some b \<Rightarrow>
               Some (Inr None,
                 bs_focus_by_id (b_id b) (record_jump_position (notify_lsp_changes_if_dirty bs)))
           | None \<Rightarrow> do {
               let bid = bs_next_id bs;
               let bs = bs\<lparr>bs_next_id := bs_next_id bs + 1\<rparr>;
               r \<leftarrow> new_from_file fs bid path;
               (case r of
                  Inl e \<Rightarrow> Some (Inl e, bs)
                | Inr b \<Rightarrow> do {
                    squirrel \<leftarrow> (if retain_empty_unnamed then Some False else is_empty_squirrel bs);
                    let bs = (if squirrel then bs_set_active b bs
                              else bs_push_buffer b (record_jump_position bs));
                    let bs = lsp_send (DocumentOpened (b_id (bs_active bs))) bs;
                    Some (Inr (Some bid), bs)
                  })
             }))"

definition ensure_file_is_open :: "files \<Rightarrow> string \<Rightarrow> buffers \<Rightarrow> buffers option" where
  "ensure_file_is_open fs p bs =
     (case fs_canonicalize fs p of
        Inl _ \<Rightarrow> Some bs
      | Inr p \<Rightarrow>
        (case with_path p bs of
           Some _ \<Rightarrow> Some bs
         | None \<Rightarrow> do {
             let bid = bs_next_id bs;
             let bs = bs\<lparr>bs_next_id := bs_next_id bs + 1\<rparr>;
             r \<leftarrow> new_from_file fs bid p;
             Some (case r of
                     Inl _ \<Rightarrow> bs
                   | Inr b \<Rightarrow>
                       (let bs = lsp_send (DocumentOpened (b_id (bs_active bs))) bs
                        in bs\<lparr>bs_inner := zl_insert_at Tail b (bs_inner bs)\<rparr>))
           }))"

definition bs_close_buffer :: "nat \<Rightarrow> buffers \<Rightarrow> buffers option" where
  "bs_close_buffer bid bs = do {
     unnamed \<leftarrow> new_unnamed (bs_next_id bs) [];
     let (removed, inner) =
           remove_where_with_default (\<lambda>b. b_id b = bid) (\<lambda>_. unnamed) (bs_inner bs);
     let bs = bs\<lparr>bs_inner := inner, bs_jump_list := jl_clear_for_buffer bid (bs_jump_list bs)\<rparr>;
     Some (case removed of
             Some b \<Rightarrow> (lsp_send (DocumentClosed (b_id b)) bs)\<lparr>bs_next_id := bs_next_id bs + 1\<rparr>
           | None \<Rightarrow> bs)
   }"

definition open_virtual :: "string \<Rightarrow> ustr \<Rightarrow> buffers \<Rightarrow> (nat \<times> buffers) option" where
  "open_virtual name content bs =
     (case List.find (is_virtual name) (bs_iter bs) of
        Some b \<Rightarrow> do {
          let bs = snd (bs_focus_id (b_id b) bs);
          txt \<leftarrow> gb_from_str content;
          let n = len_chars txt;
          let f = bs_active bs;
          let f = f\<lparr>b_txt := txt, b_dot := dot_clamp_idx (b_dot f) n,
                    b_xdot := dot_clamp_idx (b_xdot f) n\<rparr>;
          Some (b_id b, bs_set_active f bs)
        }
      | None \<Rightarrow> do {
          let bid = bs_next_id bs;
          b \<leftarrow> new_virtual bid name content;
          let bs = bs_push_buffer b (record_jump_position bs);
          Some (bid, bs\<lparr>bs_next_id := bs_next_id bs + 1\<rparr>)
        })"

text \<open>
  \<open>iter_mut().find(..)\<close>: the first buffer in the order of the list that satisfies \<open>P\<close> is changed
  where it is.
\<close>

fun list_update_first :: "('a \<Rightarrow> bool) \<Rightarrow> ('a \<Rightarrow> 'a) \<Rightarrow> 'a list \<Rightarrow> 'a list" where
  "list_update_first P f [] = []"
| "list_update_first P f (x # xs) = (if P x then f x # xs else x # list_update_first P f xs)"

definition zl_update_first :: "('a \<Rightarrow> bool) \<Rightarrow> ('a \<Rightarrow> 'a) \<Rightarrow> 'a ziplist \<Rightarrow> 'a ziplist" where
  "zl_update_first P f z =
     (if list_ex P (z_up z) then z\<lparr>z_up := rev (list_update_first P f (rev (z_up z)))\<rparr>
      else if P (z_focus z) then z\<lparr>z_focus := f (z_focus z)\<rparr>
      else z\<lparr>z_down := list_update_first P f (z_down z)\<rparr>)"

definition is_output :: "string \<Rightarrow> buffer \<Rightarrow> bool" where
  "is_output key b \<longleftrightarrow> b_kind b = Output key"

definition write_output_for_buffer ::
  "nat \<Rightarrow> ustr \<Rightarrow> string \<Rightarrow> buffers \<Rightarrow> (nat \<times> buffers) option" where
  "write_output_for_buffer bid s cwd bs =
     (let key = (case with_id bid bs of
                   Some b \<Rightarrow> output_file_key (b_kind b) cwd
                 | None \<Rightarrow> cwd @ ''/DEFAULT_OUTPUT_BUFFER'')
      in case List.find (is_output key) (bs_iter bs) of
           Some b \<Rightarrow> do {
             b' \<leftarrow> buf_append b s Fsys;
             Some (b_id b, bs\<lparr>bs_inner := zl_update_first (is_output key) (\<lambda>_. b') (bs_inner bs)\<rparr>)
           }
         | None \<Rightarrow> do {
             let bid = bs_next_id bs;
             let bs = bs\<lparr>bs_next_id := bs_next_id bs + 1\<rparr>;
             b \<leftarrow> new_output bid key s;
             let bs = record_jump_position bs;
             Some (bid, bs\<lparr>bs_inner := zl_insert b (bs_inner bs)\<rparr>)
           })"

end
