(* ===== verification/BuffersLemmas.thy ===== *)
theory BuffersLemmas
  imports Buffers ZipListProperties GapText
begin

text \<open>
  The sequence of open buffers behind the operations of src/buffer/buffers.rs, their identifiers,
  and the jump list.
\<close>

subsection \<open>Sequences of zip lists\<close>

lemma zl_new_list [zl_simps]: "zl_list (zl_new us x ds) = us @ x # ds"
  by (simp add: zl_new_def zl_list_def)

lemma zl_insert_list [zl_simps]:
  "zl_list (zl_insert x z) = rev (z_up z) @ x # z_focus z # z_down z" "z_focus (zl_insert x z) = x"
  by (simp_all add: zl_insert_def zl_insert_at_def zl_list_def)

lemma zl_insert_mset [simp]: "mset (zl_list (zl_insert x z)) = add_mset x (mset (zl_list z))"
  by (simp add: zl_insert_list) (simp add: zl_list_def)

lemma zl_insert_set [simp]: "set (zl_list (zl_insert x z)) = insert x (set (zl_list z))"
  by (metis zl_insert_mset set_mset_mset set_mset_add_mset_insert)

lemma zl_insert_tail_list [zl_simps]:
  "zl_list (zl_insert_at Tail x z) = zl_list z @ [x]" "z_focus (zl_insert_at Tail x z) = z_focus z"
  by (simp_all add: zl_insert_at_def zl_list_def)

lemma zl_insert_head_list [zl_simps]:
  "zl_list (zl_insert_at Head x z) = x # zl_list z" "z_focus (zl_insert_at Head x z) = z_focus z"
  by (simp_all add: zl_insert_at_def zl_list_def)

lemma focus_in_list [simp]: "z_focus z \<in> set (zl_list z)"
  by (simp add: zl_list_def)

lemma zl_list_not_Nil [simp]: "zl_list z \<noteq> []"
  by (simp add: zl_list_def)

lemma zl_set_focus_map:
  "f x = f (z_focus z) \<Longrightarrow> map f (zl_list (z\<lparr>z_focus := x\<rparr>)) = map f (zl_list z)"
  by (simp add: zl_list_def)

lemma focus_element_by_list [zl_simps]: "zl_list (snd (focus_element_by P z)) = zl_list z"
  using focus_element_by_eq(1)[of P z] by (metis prod.collapse)

lemma focus_element_by_finds:
  assumes "x \<in> set (zl_list z)" "P x"
  shows "fst (focus_element_by P z)" "P (z_focus (snd (focus_element_by P z)))"
proof -
  obtain h z' where f: "focus_element_by P z = (h, z')" by fastforce
  then have "h" using focus_element_by_eq(2)[OF f] assms by blast
  then show "fst (focus_element_by P z)" "P (z_focus (snd (focus_element_by P z)))"
    using focus_element_by_eq(3)[OF f] f by simp_all
qed

lemma focus_element_by_none:
  "\<forall>x \<in> set (zl_list z). \<not> P x \<Longrightarrow> focus_element_by P z = (False, z)"
proof -
  assume none: "\<forall>x \<in> set (zl_list z). \<not> P x"
  obtain h z' where f: "focus_element_by P z = (h, z')" by fastforce
  then have "\<not> h" using focus_element_by_eq(2)[OF f] none by blast
  then show ?thesis using focus_element_by_eq(4)[OF f] f by simp
qed

text \<open>What removing the elements with a property leaves, when at most one has it.\<close>

lemma filter_one: "length (filter P xs) \<le> 1 \<Longrightarrow> x \<in> set xs \<Longrightarrow> P x \<Longrightarrow> filter P xs = [x]"
  by (induction xs) (auto split: if_splits simp: filter_empty_conv)

lemma filter_key_one: "distinct (map f xs) \<Longrightarrow> length (filter (\<lambda>x. f x = k) xs) \<le> 1"
proof (induction xs)
  case (Cons x xs)
  then show ?case by (cases "f x = k") (auto simp: filter_empty_conv image_iff)
qed simp

lemma pop_where_none: "\<forall>x \<in> set xs. \<not> P x \<Longrightarrow> pop_where P xs = (None, xs)"
  by (simp add: pop_where_eq filter_id_conv filter_empty_conv)

lemma pop_where_some:
  "x \<in> set xs \<Longrightarrow> P x \<Longrightarrow> length (filter P xs) \<le> 1 \<Longrightarrow>
   pop_where P xs = (Some x, filter (\<lambda>x. \<not> P x) xs)"
  by (auto simp: pop_where_eq filter_one filter_empty_conv)

lemma remove_where_none:
  "\<forall>x \<in> set (zl_list z). \<not> P x \<Longrightarrow> remove_where_with_default P dflt z = (None, z)"
  by (simp add: remove_where_with_default_def zl_list_def pop_where_none)

lemma remove_where_some:
  assumes one: "length (filter P (zl_list z)) \<le> 1" and x: "x \<in> set (zl_list z)" "P x"
  obtains z' where "remove_where_with_default P dflt z = (Some x, z')"
    "zl_list z' = (if zl_list z = [x] then [dflt ()] else filter (\<lambda>x. \<not> P x) (zl_list z))"
    "\<not> P (z_focus z) \<Longrightarrow> z_focus z' = z_focus z"
proof -
  have n: "length (filter P (z_up z)) + length (filter P [z_focus z]) + length (filter P (z_down z)) \<le> 1"
    using one by (simp add: zl_list_def rev_filter[symmetric] split: if_splits)
  consider (up) "x \<in> set (z_up z)" | (down) "x \<in> set (z_down z)" "x \<notin> set (z_up z)"
    | (focus) "x = z_focus z" "x \<notin> set (z_up z)" "x \<notin> set (z_down z)"
    using x(1) by (auto simp: zl_list_def)
  then show thesis
  proof cases
    case up
    then have u: "filter P (z_up z) = [x]" using n x(2) by (intro filter_one) auto
    then have "filter P (z_down z) = []" "\<not> P (z_focus z)" using n by (auto split: if_splits)
    then show thesis
      using up n x(2) u
      by (intro that[of "z\<lparr>z_up := filter (\<lambda>x. \<not> P x) (z_up z)\<rparr>"])
         (auto simp: remove_where_with_default_def pop_where_some zl_list_def rev_filter filter_empty_conv
            filter_id_conv append_eq_Cons_conv)
  next
    case down
    then have d: "filter P (z_down z) = [x]" using n x(2) by (intro filter_one) auto
    then have "filter P (z_up z) = []" "\<not> P (z_focus z)" using n by (auto split: if_splits)
    then show thesis
      using down n x(2) d
      by (intro that[of "z\<lparr>z_down := filter (\<lambda>x. \<not> P x) (z_down z)\<rparr>"])
         (auto simp: remove_where_with_default_def pop_where_none pop_where_some zl_list_def
            filter_empty_conv filter_id_conv append_eq_Cons_conv)
  next
    case focus
    then have none: "\<forall>x \<in> set (z_up z). \<not> P x" "\<forall>x \<in> set (z_down z). \<not> P x"
      using n x(2) by (auto simp: filter_empty_conv)
    then have "filter (\<lambda>x. \<not> P x) (zl_list z) = rev (z_up z) @ z_down z"
      using focus x(2) by (simp add: zl_list_def filter_id_conv)
    then show thesis
      using focus none x(2) that
      by (cases "z_down z"; cases "z_up z")
         (auto simp: remove_where_with_default_def pop_where_none pop_next_def zl_list_def)
  qed
qed

lemma list_update_first_map:
  "(\<And>x. x \<in> set xs \<Longrightarrow> P x \<Longrightarrow> g (f x) = g x) \<Longrightarrow> map g (list_update_first P f xs) = map g xs"
  by (induction xs) auto

lemma zl_update_first_list:
  "zl_list (zl_update_first P f z) = list_update_first P f (zl_list z)"
proof -
  have skip: "list_update_first P f (xs @ ys) =
      (if list_ex P xs then list_update_first P f xs @ ys else xs @ list_update_first P f ys)" for xs ys
    by (induction xs) auto
  show ?thesis by (auto simp: zl_update_first_def zl_list_def skip list_ex_iff)
qed

lemma find_find_some: "List.find P xs = Some x \<Longrightarrow> x \<in> set xs \<and> P x"
  by (auto simp: find_Some_iff)

lemma list_update_first_found:
  "List.find P xs = Some x \<Longrightarrow> g y = g x \<Longrightarrow> map g (list_update_first P (\<lambda>_. y) xs) = map g xs"
  by (induction xs) (auto split: if_splits)

subsection \<open>Buffers keep their identifier\<close>

named_theorems ids "operations that keep the identifier of a buffer"

lemma ids_basic [ids]:
  "b_id (mark_dirty b) = b_id b" "b_id (with_filter src f b) = b_id b" "b_id (clamp_dots b) = b_id b"
  "b_id (changed b) = b_id b" "b_id (buffer_new i k t) = i"
  by (auto simp: mark_dirty_def with_filter_def clamp_dots_def changed_def buffer_new_def Let_def
      split: option.splits)

lemma delete_range_id [ids]: "delete_range b r src = Some (x, b') \<Longrightarrow> b_id b' = b_id b"
  by (auto simp: delete_range_def Let_def bind_eq_Some_conv ids split: prod.splits)

lemma insert_string_id [ids]: "buf_insert_string b d s src = Some (x, b') \<Longrightarrow> b_id b' = b_id b"
  by (auto simp: buf_insert_string_def Let_def bind_eq_Some_conv ids split: prod.splits dot.splits if_splits
      dest!: delete_range_id)

lemma append_id [ids]: "buf_append b s src = Some b' \<Longrightarrow> b_id b' = b_id b"
  by (auto simp: buf_append_def handle_action_def Let_def bind_eq_Some_conv ids split: prod.splits
      dest!: insert_string_id)

lemma reload_id [ids]: "reload_from_disk fs b = Some (m, b') \<Longrightarrow> b_id b' = b_id b"
  by (auto simp: reload_from_disk_def Let_def bind_eq_Some_conv split: prod.splits option.splits sum.splits
      buffer_kind.splits)

lemma set_dot_start_id [ids]:
  "buf_set_dot alnum d TBufferStart (Suc 0) b = Some b' \<Longrightarrow> b_id b' = b_id b"
  by (auto simp: buf_set_dot_def t_set_dot_def as_dot_def ids numeral_eq_Suc bind_eq_Some_conv)

lemma new_from_file_id [ids]: "new_from_file fs i p = Some (Inr b) \<Longrightarrow> b_id b = i"
  by (auto simp: new_from_file_def bind_eq_Some_conv ids split: sum.splits prod.splits)

lemma new_buffer_ids [ids]:
  "new_unnamed i s = Some b \<Longrightarrow> b_id b = i" "new_virtual i name s = Some b \<Longrightarrow> b_id b = i"
  "new_output i key s = Some b \<Longrightarrow> b_id b = i"
  by (auto simp: new_unnamed_def new_virtual_def new_output_def bind_eq_Some_conv ids Let_def)

lemma new_unnamed_empty: "\<exists>b. new_unnamed i [] = Some b \<and> gb_holds (b_txt b) [] \<and> b_kind b = Unnamed"
  using gb_from_str_holds[of "[]"]
  by (auto simp: new_unnamed_def normalize_line_endings_def buffer_new_def)

subsection \<open>The jump list\<close>

definition jl_ok :: "jump_list \<Rightarrow> bool" where
  "jl_ok l \<longleftrightarrow> j_idx l \<le> length (j_jumps l) \<and> length (j_jumps l) \<le> MAX_JUMPS"

lemma jl_default_ok [simp]: "jl_ok jl_default"
  by (simp add: jl_ok_def jl_default_def)

lemma jl_push_ok [simp]: "jl_ok l \<Longrightarrow> jl_ok (jl_push bid c l)"
  by (auto simp: jl_ok_def jl_push_def Let_def MAX_JUMPS_def min_def)

lemma jl_forward_ok [simp]: "jl_ok l \<Longrightarrow> jl_ok (snd (jl_forward l))"
  by (auto simp: jl_ok_def jl_forward_def Let_def)

lemma jl_backward_ok: "jl_ok l \<Longrightarrow> jl_backward bid c l = Some (j, l') \<Longrightarrow> jl_ok l'"
  using jl_push_ok[of l bid c]
  by (auto simp: jl_backward_def Let_def bind_eq_Some_conv usub_def jl_ok_def split: if_splits)

lemma jl_clear_ok [simp]: "jl_ok l \<Longrightarrow> jl_ok (jl_clear_for_buffer bid l)"
  using length_filter_le[of "\<lambda>j. fst j \<noteq> bid" "j_jumps l"]
  unfolding jl_ok_def jl_clear_for_buffer_def Let_def jump_list.simps by linarith

subsection \<open>The invariant\<close>

abbreviation bs_list :: "buffers \<Rightarrow> buffer list" where
  "bs_list bs \<equiv> zl_list (bs_inner bs)"

abbreviation bs_ids :: "buffers \<Rightarrow> nat list" where
  "bs_ids bs \<equiv> map b_id (bs_list bs)"

text \<open>Identifiers are distinct and were all given out, and the jump list is in its bounds.\<close>

definition bs_ok :: "buffers \<Rightarrow> bool" where
  "bs_ok bs \<longleftrightarrow> distinct (bs_ids bs) \<and> (\<forall>i \<in> set (bs_ids bs). i < bs_next_id bs) \<and>
     jl_ok (bs_jump_list bs)"

lemma bs_iter_eq [simp]: "bs_iter bs = bs_list bs"
  using flatten_eq[of "bs_inner bs"] by (simp add: bs_iter_def flatten_def)

lemma contains_bufid_iff: "contains_bufid i bs \<longleftrightarrow> i \<in> set (bs_ids bs)"
  by (auto simp: contains_bufid_def list_ex_iff)

lemma bs_active_in [simp]: "bs_active bs \<in> set (bs_list bs)"
  by (simp add: bs_active_def)

lemma active_id_in [simp]: "b_id (bs_active bs) \<in> b_id ` set (bs_list bs)"
  by simp

lemma bs_ids_simps [simp]:
  "bs_list (notify_lsp_changes_if_dirty bs) = bs_list bs"
  "bs_inner (record_jump_position bs) = bs_inner bs"
  "bs_list (bs_focus_by_id i bs) = bs_list bs"
  "bs_inner (lsp_send n bs) = bs_inner bs"
  "bs_inner (notify_lsp_changes_if_dirty bs) = bs_inner bs"
  "bs_next_id (notify_lsp_changes_if_dirty bs) = bs_next_id bs"
  "bs_next_id (record_jump_position bs) = bs_next_id bs"
  "bs_next_id (bs_focus_by_id i bs) = bs_next_id bs"
  "bs_next_id (lsp_send n bs) = bs_next_id bs"
  "bs_jump_list (notify_lsp_changes_if_dirty bs) = bs_jump_list bs"
  "bs_jump_list (bs_focus_by_id i bs) = bs_jump_list bs"
  "bs_jump_list (lsp_send n bs) = bs_jump_list bs"
  by (simp_all add: notify_lsp_changes_if_dirty_def record_jump_position_def bs_focus_by_id_def
      lsp_send_def zl_simps)

lemma bs_set_active_ids:
  "b_id b = b_id (bs_active bs) \<Longrightarrow> bs_ids (bs_set_active b bs) = bs_ids bs"
  by (simp add: bs_set_active_def bs_active_def zl_set_focus_map)

lemma bs_set_active_simps [simp]:
  "bs_active (bs_set_active b bs) = b" "bs_next_id (bs_set_active b bs) = bs_next_id bs"
  "bs_jump_list (bs_set_active b bs) = bs_jump_list bs"
  by (simp_all add: bs_set_active_def bs_active_def)

lemma record_jump_ok: "jl_ok (bs_jump_list bs) \<Longrightarrow> jl_ok (bs_jump_list (record_jump_position bs))"
  by (simp add: record_jump_position_def)

lemma focus_by_id_active:
  "i \<in> set (bs_ids bs) \<Longrightarrow> b_id (bs_active (bs_focus_by_id i bs)) = i"
  using focus_element_by_finds(2)[of _ "bs_inner bs" "\<lambda>b. b_id b = i"]
  by (auto simp: bs_focus_by_id_def bs_active_def)

lemma focus_by_id_none: "i \<notin> set (bs_ids bs) \<Longrightarrow> bs_focus_by_id i bs = bs"
proof -
  assume "i \<notin> set (bs_ids bs)"
  then have "\<forall>b \<in> set (bs_list bs). b_id b \<noteq> i" by auto
  from focus_element_by_none[OF this] show ?thesis by (simp add: bs_focus_by_id_def)
qed

end
