(* ===== verification/BuffersProperties.thy ===== *)
theory BuffersProperties
  imports BuffersLemmas
begin

text \<open>
  The open buffers over time: the invariant that every operation keeps, what closing a buffer
  leaves, and the jump list as a history.
\<close>

subsection \<open>Every operation keeps the invariant\<close>

lemma bs_ok_jumps:
  "bs_ok bs \<Longrightarrow> jl_ok (bs_jump_list bs') \<Longrightarrow> bs_ids bs' = bs_ids bs \<Longrightarrow>
   bs_next_id bs' = bs_next_id bs \<Longrightarrow> bs_ok bs'"
  by (simp add: bs_ok_def del: set_map)

lemma bs_ok_jl: "bs_ok bs \<Longrightarrow> jl_ok (bs_jump_list bs)"
  by (simp add: bs_ok_def)

lemma record_jump_bs_ok [simp]: "bs_ok bs \<Longrightarrow> bs_ok (record_jump_position bs)"
  by (frule bs_ok_jl, erule bs_ok_jumps) (simp_all add: record_jump_ok bs_ok_jl)

lemma focus_by_id_ok [simp]: "bs_ok bs \<Longrightarrow> bs_ok (bs_focus_by_id i bs)"
  by (frule bs_ok_jl, erule bs_ok_jumps) (simp_all add: bs_ok_jl)

lemma notify_ok [simp]: "bs_ok bs \<Longrightarrow> bs_ok (notify_lsp_changes_if_dirty bs)"
  by (frule bs_ok_jl, erule bs_ok_jumps) (simp_all add: bs_ok_jl)

lemma lsp_send_ok [simp]: "bs_ok (lsp_send n bs) \<longleftrightarrow> bs_ok bs"
  by (simp add: bs_ok_def)

lemma set_active_ok: "bs_ok bs \<Longrightarrow> b_id b = b_id (bs_active bs) \<Longrightarrow> bs_ok (bs_set_active b bs)"
  by (frule bs_ok_jl, erule bs_ok_jumps) (simp_all add: bs_ok_jl bs_set_active_ids)

lemma bs_next_ok: "bs_ok bs \<Longrightarrow> bs_ok (bs_next bs)"
  by (frule bs_ok_jl, erule bs_ok_jumps) (simp_all add: bs_next_def Let_def zl_simps bs_ok_jl)

lemma bs_previous_ok: "bs_ok bs \<Longrightarrow> bs_ok (bs_previous bs)"
  by (frule bs_ok_jl, erule bs_ok_jumps) (simp_all add: bs_previous_def Let_def zl_simps bs_ok_jl)

lemma bs_focus_id_ok: "bs_ok bs \<Longrightarrow> bs_ok (snd (bs_focus_id i bs))"
  by (simp add: bs_focus_id_def)

lemma focus_id_silent_ok: "bs_ok bs \<Longrightarrow> bs_ok (focus_id_silent i bs)"
  by (simp add: focus_id_silent_def)

lemma bs_jump_ok: "bs_ok bs \<Longrightarrow> bs_ok (snd (bs_jump i c bs))"
  by (auto simp: bs_jump_def Let_def intro!: set_active_ok)

lemma bs_ok_jump_list: "bs_ok bs \<Longrightarrow> jl_ok l \<Longrightarrow> bs_ok (bs\<lparr>bs_jump_list := l\<rparr>)"
  by (frule bs_ok_jl, erule bs_ok_jumps) simp_all

lemma bs_jump_list_ok:
  "bs_ok bs \<Longrightarrow> jl_ok l \<Longrightarrow> bs_ok (snd (bs_jump i c (bs\<lparr>bs_jump_list := l\<rparr>)))"
  by (rule bs_jump_ok) (rule bs_ok_jump_list)

lemma jump_list_forward_ok: "bs_ok bs \<Longrightarrow> bs_ok (snd (jump_list_forward bs))"
  using jl_forward_ok[of "bs_jump_list bs"] bs_jump_list_ok[of bs "snd (jl_forward (bs_jump_list bs))"]
  by (simp add: jump_list_forward_def bs_ok_jump_list bs_ok_jl case_prod_unfold split: option.split)

lemma jump_list_backward_ok:
  assumes "bs_ok bs" "jump_list_backward bs = Some (r, bs')"
  shows "bs_ok bs'"
proof -
  let ?b = "bs_active bs"
  obtain j l where j: "jl_backward (b_id ?b) (active_cur (b_dot ?b)) (bs_jump_list bs) = Some (j, l)"
    using assms(2) by (auto simp: jump_list_backward_def bind_eq_Some_conv Let_def)
  have "jl_ok l" by (rule jl_backward_ok[OF bs_ok_jl[OF assms(1)] j])
  then show ?thesis
    using assms j bs_jump_list_ok[of bs l]
    by (auto simp: jump_list_backward_def bs_ok_jump_list case_prod_unfold Let_def split: option.splits)
qed

text \<open>A new buffer, in front of the focus, in its place or at the end.\<close>

lemma distinct_sub: "distinct ys \<Longrightarrow> mset xs \<subseteq># mset ys \<Longrightarrow> distinct xs"
proof -
  assume ys: "distinct ys" and sub: "mset xs \<subseteq># mset ys"
  have one: "count (mset ys) a \<le> 1" for a
  proof -
    have "count (mset ys) a = (if a \<in> set ys then 1 else 0)"
      using ys unfolding distinct_count_atmost_1 by blast
    then show ?thesis by simp
  qed
  have "count (mset xs) a \<le> 1" for a
    using mset_subset_eq_count[OF sub, of a] one[of a] by (rule le_trans)
  then show "distinct xs"
    by (metis One_nat_def count_mset_0_iff distinct_count_atmost_1 le_0_eq le_SucE)
qed

lemma fresh_ok:
  assumes "bs_ok bs" "b_id b = bs_next_id bs" "bs_next_id bs' = bs_next_id bs + 1"
    and "jl_ok (bs_jump_list bs')" "mset (bs_list bs') \<subseteq># add_mset b (mset (bs_list bs))"
  shows "bs_ok bs'"
proof -
  have "mset (bs_ids bs') \<subseteq># add_mset (b_id b) (mset (bs_ids bs))"
    using image_mset_subseteq_mono[OF assms(5), of b_id] by simp
  also have "add_mset (b_id b) (mset (bs_ids bs)) = mset (b_id b # bs_ids bs)" by simp
  finally have sub: "mset (bs_ids bs') \<subseteq># mset (b_id b # bs_ids bs)" .
  have "distinct (b_id b # bs_ids bs)" using assms(1,2) by (auto simp: bs_ok_def)
  then have "distinct (bs_ids bs')" using sub by (rule distinct_sub)
  moreover have "set (bs_ids bs') \<subseteq> set (b_id b # bs_ids bs)"
    using set_mset_mono[OF sub] by simp
  ultimately show ?thesis using assms(1-4) by (fastforce simp: bs_ok_def)
qed

lemma new_from_file_next_ok: "bs_ok bs \<Longrightarrow> bs_ok (bs\<lparr>bs_next_id := bs_next_id bs + 1\<rparr>)"
  by (auto simp: bs_ok_def)

lemma open_or_focus_ok:
  assumes ok: "bs_ok bs" and open_it: "open_or_focus alnum d fs p retain bs = Some (r, bs')"
  shows "bs_ok bs'"
proof (cases "canonical_or_given fs p")
  case (Inr path)
  let ?next = "bs\<lparr>bs_next_id := bs_next_id bs + 1\<rparr>"
  show ?thesis
  proof (cases "kind_is_dir (b_kind (bs_active bs)) \<and> fs_is_dir fs path")
    case True
    then show ?thesis
      using open_it Inr set_active_ok[OF ok]
      by (auto simp: open_or_focus_def bind_eq_Some_conv dest!: set_dot_start_id reload_id)
  next
    case no_dir: False
    show ?thesis
    proof (cases "with_path path bs")
      case (Some b)
      then show ?thesis using open_it Inr no_dir ok by (auto simp: open_or_focus_def)
    next
      case None
      then obtain r' where r': "new_from_file fs (bs_next_id bs) path = Some r'"
        using open_it Inr no_dir by (auto simp: open_or_focus_def Let_def bind_eq_Some_conv)
      show ?thesis
      proof (cases r')
        case (Inl e)
        then show ?thesis
          using open_it Inr no_dir None r' new_from_file_next_ok[OF ok]
          by (auto simp: open_or_focus_def Let_def)
      next
        case new: (Inr b)
        have b: "b_id b = bs_next_id bs" using r' new by (auto intro: new_from_file_id)
        have squirrel: "bs_ok (bs_set_active b ?next)"
          by (rule fresh_ok[OF ok b])
             (auto simp: bs_ok_jl[OF ok] bs_set_active_def zl_list_def bs_active_def)
        have push: "bs_ok (bs_push_buffer b (record_jump_position ?next))"
          by (rule fresh_ok[OF ok b])
             (simp_all add: bs_push_buffer_def record_jump_position_def bs_ok_jl[OF ok])
        show ?thesis
          using open_it Inr no_dir None r' new squirrel push
          by (auto simp: open_or_focus_def Let_def bind_eq_Some_conv split: if_splits)
      qed
    qed
  qed
qed (use assms in \<open>auto simp: open_or_focus_def\<close>)

lemma ensure_file_is_open_ok:
  assumes ok: "bs_ok bs" and open_it: "ensure_file_is_open fs p bs = Some bs'"
  shows "bs_ok bs'"
proof -
  have new: "bs_ok (lsp_send n (bs\<lparr>bs_next_id := Suc (bs_next_id bs)\<rparr>)
      \<lparr>bs_inner := zl_insert_at Tail b (bs_inner bs)\<rparr>)" if "b_id b = bs_next_id bs" for b n
    by (rule fresh_ok[OF ok that]) (simp_all add: lsp_send_def zl_simps bs_ok_jl[OF ok])
  show ?thesis
  proof (cases "fs_canonicalize fs p")
    case (Inr q)
    show ?thesis
    proof (cases "with_path q bs")
      case None
      then obtain r where r: "new_from_file fs (bs_next_id bs) q = Some r"
        using open_it Inr by (auto simp: ensure_file_is_open_def Let_def bind_eq_Some_conv)
      show ?thesis
        using open_it Inr None r new[OF new_from_file_id] new_from_file_next_ok[OF ok]
        by (cases r) (auto simp: ensure_file_is_open_def Let_def)
    qed (use open_it Inr ok in \<open>auto simp: ensure_file_is_open_def\<close>)
  qed (use open_it ok in \<open>auto simp: ensure_file_is_open_def\<close>)
qed

lemma open_virtual_ok:
  assumes ok: "bs_ok bs" and open_it: "open_virtual name content bs = Some (i, bs')"
  shows "bs_ok bs'"
proof (cases "List.find (is_virtual name) (bs_iter bs)")
  case None
  then obtain b where b: "new_virtual (bs_next_id bs) name content = Some b"
    "bs' = (bs_push_buffer b (record_jump_position bs))\<lparr>bs_next_id := bs_next_id bs + 1\<rparr>"
    using open_it by (auto simp: open_virtual_def Let_def bind_eq_Some_conv bs_push_buffer_def)
  show ?thesis
    by (rule fresh_ok[OF ok new_buffer_ids(2)[OF b(1)]])
       (simp_all add: b(2) bs_push_buffer_def record_jump_position_def bs_ok_jl[OF ok])
next
  case (Some b)
  then show ?thesis
    using open_it bs_focus_id_ok[OF ok]
    by (auto simp: open_virtual_def Let_def bind_eq_Some_conv intro!: set_active_ok)
qed

lemma write_output_ok:
  assumes ok: "bs_ok bs" and wr: "write_output_for_buffer i s cwd bs = Some (j, bs')"
  shows "bs_ok bs'"
proof -
  define key where "key = (case with_id i bs of Some b \<Rightarrow> output_file_key (b_kind b) cwd
                                              | None \<Rightarrow> cwd @ ''/DEFAULT_OUTPUT_BUFFER'')"
  show ?thesis
  proof (cases "List.find (is_output key) (bs_list bs)")
    case None
    then obtain b where b: "new_output (bs_next_id bs) key s = Some b"
      "bs' = (let bs = record_jump_position (bs\<lparr>bs_next_id := bs_next_id bs + 1\<rparr>)
              in bs\<lparr>bs_inner := zl_insert b (bs_inner bs)\<rparr>)"
      using wr by (auto simp: write_output_for_buffer_def Let_def bind_eq_Some_conv key_def)
    show ?thesis
      by (rule fresh_ok[OF ok new_buffer_ids(3)[OF b(1)]])
         (simp_all add: b(2) Let_def record_jump_position_def bs_ok_jl[OF ok])
  next
    case (Some b)
    then obtain b' where b': "buf_append b s Fsys = Some b'"
      "bs' = bs\<lparr>bs_inner := zl_update_first (is_output key) (\<lambda>_. b') (bs_inner bs)\<rparr>"
      using wr by (auto simp: write_output_for_buffer_def Let_def bind_eq_Some_conv key_def)
    have "bs_ids bs' = bs_ids bs"
      using list_update_first_found[OF Some append_id[OF b'(1)]]
      by (simp add: b'(2) zl_update_first_list)
    then show ?thesis using bs_ok_jumps[OF ok] bs_ok_jl[OF ok] b'(2) by simp
  qed
qed

lemma close_buffer_cases:
  assumes ok: "bs_ok bs"
  obtains (unknown) bs' where "i \<notin> set (bs_ids bs)" "bs_close_buffer i bs = Some bs'"
      "bs_inner bs' = bs_inner bs" "bs_next_id bs' = bs_next_id bs"
      "bs_jump_list bs' = jl_clear_for_buffer i (bs_jump_list bs)"
    | (last) bs' b where "bs_ids bs = [i]" "bs_close_buffer i bs = Some bs'" "bs_list bs' = [b]"
      "new_unnamed (bs_next_id bs) [] = Some b" "bs_next_id bs' = bs_next_id bs + 1"
      "bs_jump_list bs' = jl_clear_for_buffer i (bs_jump_list bs)"
    | (others) bs' where "i \<in> set (bs_ids bs)" "bs_ids bs \<noteq> [i]" "bs_close_buffer i bs = Some bs'"
      "bs_list bs' = filter (\<lambda>b. b_id b \<noteq> i) (bs_list bs)" "bs_next_id bs' = bs_next_id bs + 1"
      "bs_jump_list bs' = jl_clear_for_buffer i (bs_jump_list bs)"
      "b_id (bs_active bs) \<noteq> i \<Longrightarrow> bs_active bs' = bs_active bs"
proof -
  obtain u where u: "new_unnamed (bs_next_id bs) [] = Some u" using new_unnamed_empty by blast
  have dist: "distinct (bs_ids bs)" using ok by (simp add: bs_ok_def)
  show thesis
  proof (cases "i \<in> set (bs_ids bs)")
    case False
    then have none: "\<forall>b \<in> set (bs_list bs). b_id b \<noteq> i" by auto
    show thesis
      by (rule unknown[of "bs\<lparr>bs_jump_list := jl_clear_for_buffer i (bs_jump_list bs)\<rparr>"])
         (use False u remove_where_none[OF none] in \<open>simp_all add: bs_close_buffer_def\<close>)
  next
    case True
    then obtain b where b: "b \<in> set (bs_list bs)" "b_id b = i" by auto
    have one: "length (filter (\<lambda>b. b_id b = i) (bs_list bs)) \<le> 1"
      using dist by (rule filter_key_one)
    obtain z where z: "remove_where_with_default (\<lambda>b. b_id b = i) (\<lambda>_. u) (bs_inner bs) = (Some b, z)"
      "zl_list z = (if bs_list bs = [b] then [u] else filter (\<lambda>b. b_id b \<noteq> i) (bs_list bs))"
      "b_id (bs_active bs) \<noteq> i \<Longrightarrow> z_focus z = bs_active bs"
      using remove_where_some[OF one b] unfolding bs_active_def by blast
    let ?bs' = "(lsp_send (DocumentClosed (b_id b))
        (bs\<lparr>bs_inner := z, bs_jump_list := jl_clear_for_buffer i (bs_jump_list bs)\<rparr>))
        \<lparr>bs_next_id := bs_next_id bs + 1\<rparr>"
    have close: "bs_close_buffer i bs = Some ?bs'"
      by (simp add: bs_close_buffer_def u z(1))
    have single: "bs_ids bs = [i] \<longleftrightarrow> bs_list bs = [b]" using b by (cases "bs_list bs") auto
    show thesis
    proof (cases "bs_ids bs = [i]")
      case True
      show thesis
        by (rule last[OF True close _ u]) (use True single z(2) in \<open>simp_all add: lsp_send_def\<close>)
    next
      case False
      show thesis
        by (rule others[OF \<open>i \<in> set (bs_ids bs)\<close> False close])
           (use False single z(2,3) in \<open>simp_all add: lsp_send_def bs_active_def\<close>)
    qed
  qed
qed

lemma close_buffer_ok:
  assumes ok: "bs_ok bs" and cl: "bs_close_buffer i bs = Some bs'"
  shows "bs_ok bs'"
  using ok
proof (cases rule: close_buffer_cases[of bs i])
  case (unknown bs'')
  then show ?thesis using ok cl by (simp add: bs_ok_def)
next
  case (last bs'' b)
  then show ?thesis using ok cl new_buffer_ids(1)[OF last(4)] by (simp add: bs_ok_def)
next
  case (others bs'')
  then show ?thesis
    using ok cl by (auto simp: bs_ok_def less_SucI intro: distinct_map_filter)
qed

subsection \<open>The states of an editor\<close>

text \<open>
  What the editor does with the open buffers, from the first one on. \<open>Edit\<close> stands for whatever
  changes the active buffer in place.
\<close>

inductive buffers_reachable ::
  "(uchar \<Rightarrow> bool) \<Rightarrow> display \<Rightarrow> files \<Rightarrow> buffers \<Rightarrow> bool" for alnum d fs where
  Start: "buffers_new = Some bs \<Longrightarrow> buffers_reachable alnum d fs bs"
| Open: "buffers_reachable alnum d fs bs \<Longrightarrow>
    open_or_focus alnum d fs p retain bs = Some (r, bs') \<Longrightarrow> buffers_reachable alnum d fs bs'"
| Ensure: "buffers_reachable alnum d fs bs \<Longrightarrow> ensure_file_is_open fs p bs = Some bs' \<Longrightarrow>
    buffers_reachable alnum d fs bs'"
| OpenVirtual: "buffers_reachable alnum d fs bs \<Longrightarrow> open_virtual name content bs = Some (i, bs') \<Longrightarrow>
    buffers_reachable alnum d fs bs'"
| WriteOutput: "buffers_reachable alnum d fs bs \<Longrightarrow>
    write_output_for_buffer i s cwd bs = Some (j, bs') \<Longrightarrow> buffers_reachable alnum d fs bs'"
| Close: "buffers_reachable alnum d fs bs \<Longrightarrow> bs_close_buffer i bs = Some bs' \<Longrightarrow>
    buffers_reachable alnum d fs bs'"
| Forward: "buffers_reachable alnum d fs bs \<Longrightarrow> buffers_reachable alnum d fs (bs_next bs)"
| Back: "buffers_reachable alnum d fs bs \<Longrightarrow> buffers_reachable alnum d fs (bs_previous bs)"
| FocusId: "buffers_reachable alnum d fs bs \<Longrightarrow>
    buffers_reachable alnum d fs (snd (bs_focus_id i bs))"
| FocusSilent: "buffers_reachable alnum d fs bs \<Longrightarrow>
    buffers_reachable alnum d fs (focus_id_silent i bs)"
| Record: "buffers_reachable alnum d fs bs \<Longrightarrow>
    buffers_reachable alnum d fs (record_jump_position bs)"
| JumpForward: "buffers_reachable alnum d fs bs \<Longrightarrow>
    buffers_reachable alnum d fs (snd (jump_list_forward bs))"
| JumpBackward: "buffers_reachable alnum d fs bs \<Longrightarrow> jump_list_backward bs = Some (r, bs') \<Longrightarrow>
    buffers_reachable alnum d fs bs'"
| Edit: "buffers_reachable alnum d fs bs \<Longrightarrow> b_id b = b_id (bs_active bs) \<Longrightarrow>
    buffers_reachable alnum d fs (bs_set_active b bs)"

lemma buffers_new_ok: "buffers_new = Some bs \<Longrightarrow> bs_ok bs \<and> bs_jump_list bs = jl_default \<and> bs_ids bs = [0]"
  by (auto simp: buffers_new_def bs_ok_def zl_simps bind_eq_Some_conv dest: new_buffer_ids)

lemma buffers_new_some: "\<exists>bs. buffers_new = Some bs"
  using new_unnamed_empty[of 0] by (auto simp: buffers_new_def)

lemma reachable_ok: "buffers_reachable alnum d fs bs \<Longrightarrow> bs_ok bs"
  by (induction rule: buffers_reachable.induct)
     (auto intro: open_or_focus_ok ensure_file_is_open_ok open_virtual_ok write_output_ok
       close_buffer_ok bs_next_ok bs_previous_ok bs_focus_id_ok focus_id_silent_ok
       jump_list_forward_ok jump_list_backward_ok set_active_ok dest: buffers_new_ok)

subsection \<open>Jumps\<close>

lemma jl_push_last:
  "jl_ok l \<Longrightarrow> j_jumps (jl_push bid c l) \<noteq> [] \<and> last (j_jumps (jl_push bid c l)) = (bid, c) \<and>
     j_idx (jl_push bid c l) = length (j_jumps (jl_push bid c l))"
  by (auto simp: jl_ok_def jl_push_def Let_def)

lemma jl_push_length:
  assumes "j_idx l = length (j_jumps l)" "j_jumps l \<noteq> []" "last (j_jumps l) \<noteq> (bid, c)"
  shows "\<exists>js. j_jumps (jl_push bid c l) = js @ [last (j_jumps l), (bid, c)]"
proof -
  obtain js j where js: "j_jumps l = js @ [j]" using assms(2) by (cases "j_jumps l" rule: rev_cases) auto
  show ?thesis
  proof (cases js)
    case Nil
    then show ?thesis using assms js by (simp add: jl_push_def MAX_JUMPS_def)
  next
    case (Cons k ks)
    then show ?thesis
      using assms js
      by (cases "length (j_jumps l) = MAX_JUMPS") (simp_all add: jl_push_def)
  qed
qed

text \<open>Going back from the newest position, and forward again.\<close>

lemma jl_back_forward:
  assumes "jl_ok l" "j_idx l = length (j_jumps l)" "j_jumps l \<noteq> []" "last (j_jumps l) \<noteq> (bid, c)"
  obtains l1 l2 where "jl_backward bid c l = Some (Some (last (j_jumps l)), l1)" "jl_ok l1"
    "jl_forward l1 = (Some (bid, c), l2)"
proof -
  obtain js where js: "j_jumps (jl_push bid c l) = js @ [last (j_jumps l), (bid, c)]"
    using jl_push_length[OF assms(2-4)] by blast
  have idx: "j_idx (jl_push bid c l) = length js + 2"
    using jl_push_last[OF assms(1), of bid c] js by simp
  define l1 where "l1 = (jl_push bid c l)\<lparr>j_idx := length js\<rparr>"
  have bk: "jl_backward bid c l = Some (Some (last (j_jumps l)), l1)"
    using assms(2,3) js by (simp add: l1_def jl_backward_def Let_def idx usub_def nth_opt_def)
  show thesis
  proof (rule that[OF bk jl_backward_ok[OF assms(1) bk]])
    show "jl_forward l1 = (Some (bid, c), l1\<lparr>j_idx := length js + 1\<rparr>)"
      by (simp add: js l1_def jl_forward_def Let_def nth_opt_def nth_append)
  qed
qed

lemma bs_active_unique:
  assumes "bs_ok bs" "b \<in> set (bs_list bs)" "b' \<in> set (bs_list bs)" "b_id b = b_id b'"
  shows "b = b'"
  using assms by (auto simp: bs_ok_def distinct_map dest: inj_onD)

lemma focus_by_id_is:
  assumes "bs_ok bs" "b \<in> set (bs_list bs)"
  shows "bs_active (bs_focus_by_id (b_id b) bs) = b"
proof (rule bs_active_unique[OF assms(1) _ assms(2)])
  show "bs_active (bs_focus_by_id (b_id b) bs) \<in> set (bs_list bs)"
    using bs_active_in[of "bs_focus_by_id (b_id b) bs"] by simp
  show "b_id (bs_active (bs_focus_by_id (b_id b) bs)) = b_id b"
    using assms(2) by (simp add: focus_by_id_active)
qed

text \<open>A jump to an open buffer: it is active, with the cursor clamped to its text.\<close>

definition at_cur :: "buffer \<Rightarrow> cur \<Rightarrow> buffer" where
  "at_cur b c = b\<lparr>b_dot := DotCur (cur_clamp_idx c (len_chars (b_txt b)))\<rparr>"

lemma at_cur_simps [simp]: "b_id (at_cur b c) = b_id b" "b_txt (at_cur b c) = b_txt b"
  by (simp_all add: at_cur_def)

lemma bs_jump_to:
  assumes "bs_ok bs" "b \<in> set (bs_list bs)" "bs_jump (b_id b) c bs = (r, bs')"
  shows "r = (b_id (bs_active bs), b_id b)" "bs_active bs' = at_cur b c"
    "bs_ids bs' = bs_ids bs" "bs_jump_list bs' = bs_jump_list bs"
    "x \<in> set (bs_list bs) \<Longrightarrow> x \<noteq> b \<Longrightarrow> x \<in> set (bs_list bs')"
proof -
  have a: "bs_active (bs_focus_by_id (b_id b) (notify_lsp_changes_if_dirty bs)) = b"
    using focus_by_id_is[of "notify_lsp_changes_if_dirty bs" b] assms(1,2) by simp
  have n: "bs_active (notify_lsp_changes_if_dirty bs) = bs_active bs" by (simp add: bs_active_def)
  have j: "r = (b_id (bs_active bs), b_id b)"
    "bs' = bs_set_active (at_cur b c) (bs_focus_by_id (b_id b) (notify_lsp_changes_if_dirty bs))"
    using assms(3) by (simp_all add: bs_jump_def Let_def a n at_cur_def)
  show "r = (b_id (bs_active bs), b_id b)" by (fact j(1))
  show "bs_active bs' = at_cur b c" "bs_jump_list bs' = bs_jump_list bs" by (simp_all add: j(2))
  show "bs_ids bs' = bs_ids bs" by (simp add: j(2) bs_set_active_ids a)
  define z where "z = bs_inner (bs_focus_by_id (b_id b) (notify_lsp_changes_if_dirty bs))"
  have "zl_list z = bs_list bs" "z_focus z = b" using a by (simp_all add: z_def bs_active_def)
  moreover have "bs_inner bs' = z\<lparr>z_focus := at_cur b c\<rparr>" by (simp add: j(2) z_def bs_set_active_def)
  ultimately have "x \<in> set (zl_list z) \<Longrightarrow> x \<noteq> b \<Longrightarrow> x \<in> set (bs_list bs')"
    by (auto simp: zl_list_def)
  then show "x \<in> set (bs_list bs) \<Longrightarrow> x \<noteq> b \<Longrightarrow> x \<in> set (bs_list bs')"
    using \<open>zl_list z = bs_list bs\<close> by simp
qed

lemma focus_then_back:
  assumes ok: "bs_ok bs" and b: "b \<in> set (bs_list bs)" "b_id b \<noteq> b_id (bs_active bs)"
  defines "home \<equiv> bs_active bs"
  obtains bs1 bs2 bs3 l where "bs_focus_id (b_id b) bs = (Some (b_id b), bs1)" "bs_active bs1 = b"
    "jump_list_backward bs1 = Some (Some (b_id b, b_id home), bs2)"
    "bs_active bs2 = at_cur home (active_cur (b_dot home))"
    "jump_list_forward bs2 = (Some (b_id home, b_id b), bs3)"
    "bs_active bs3 = at_cur b (active_cur (b_dot b))"
proof -
  define bs1 where "bs1 = bs_focus_by_id (b_id b) (record_jump_position (notify_lsp_changes_if_dirty bs))"
  have foc: "bs_focus_id (b_id b) bs = (Some (b_id b), bs1)"
    using b by (auto simp: bs_focus_id_def contains_bufid_iff bs1_def)
  have ok1: "bs_ok bs1" using ok by (simp add: bs1_def)
  have list1: "bs_list bs1 = bs_list bs" by (simp add: bs1_def)
  have a1: "bs_active bs1 = b"
    unfolding bs1_def by (rule focus_by_id_is) (use ok b in simp_all)
  have n: "bs_active (notify_lsp_changes_if_dirty bs) = home" by (simp add: bs_active_def home_def)
  have jl1: "bs_jump_list bs1 = jl_push (b_id home) (active_cur (b_dot home)) (bs_jump_list bs)"
    by (simp add: bs1_def record_jump_position_def n)
  note last1 = jl_push_last[OF bs_ok_jl[OF ok], of "b_id home" "active_cur (b_dot home)"]
  have differ: "last (j_jumps (bs_jump_list bs1)) \<noteq> (b_id b, active_cur (b_dot b))"
    using last1 b(2) jl1 by (simp add: home_def)
  obtain l1 l2 where l: "jl_backward (b_id b) (active_cur (b_dot b)) (bs_jump_list bs1) =
      Some (Some (b_id home, active_cur (b_dot home)), l1)" "jl_ok l1"
    "jl_forward l1 = (Some (b_id b, active_cur (b_dot b)), l2)"
    using jl_back_forward[OF bs_ok_jl[OF ok1] _ _ differ] last1 jl1 by (metis (no_types))
  define bs1' where "bs1' = bs1\<lparr>bs_jump_list := l1\<rparr>"
  have ok1': "bs_ok bs1'" using bs_ok_jump_list[OF ok1 l(2)] by (simp add: bs1'_def)
  have a1': "bs_active bs1' = b" using a1 by (simp add: bs1'_def bs_active_def)
  obtain r2 bs2 where j2: "bs_jump (b_id home) (active_cur (b_dot home)) bs1' = (r2, bs2)" by fastforce
  have home_in: "home \<in> set (bs_list bs1')" using list1 by (simp add: bs1'_def home_def)
  note to_home = bs_jump_to[OF ok1' home_in j2]
  have bk: "jump_list_backward bs1 = Some (Some (b_id b, b_id home), bs2)"
    using l(1) j2 to_home(1) a1 a1' by (simp add: jump_list_backward_def bs1'_def[symmetric] Let_def)
  have ok2: "bs_ok bs2" by (rule jump_list_backward_ok[OF ok1 bk])
  have jl2: "bs_jump_list bs2 = l1" using to_home(4) by (simp add: bs1'_def)
  define bs2' where "bs2' = bs2\<lparr>bs_jump_list := l2\<rparr>"
  have ok2': "bs_ok bs2'"
    using bs_ok_jump_list[OF ok2, of l2] jl_forward_ok[OF l(2)] l(3) by (simp add: bs2'_def)
  have b_in: "b \<in> set (bs_list bs2')"
    using to_home(5)[of b] b list1 by (auto simp: bs1'_def bs2'_def home_def)
  obtain r3 bs3 where j3: "bs_jump (b_id b) (active_cur (b_dot b)) bs2' = (r3, bs3)" by fastforce
  note to_b = bs_jump_to[OF ok2' b_in j3]
  have "bs_active bs2' = bs_active bs2" by (simp add: bs2'_def bs_active_def)
  then have "jump_list_forward bs2 = (Some (b_id home, b_id b), bs3)"
    using l(3) j3 to_b(1) to_home(2) by (simp add: jump_list_forward_def jl2 bs2'_def[symmetric])
  then show thesis by (rule that[OF foc a1 bk to_home(2) _ to_b(2)])
qed

subsection \<open>Properties\<close>

text \<open>
  C14: whatever the editor does with its buffers, their identifiers stay distinct and below the
  next one, a buffer is found by its identifier, and the jump list stays in its bounds.
\<close>

theorem open_buffers_invariant:
  assumes "buffers_reachable alnum d fs bs"
  shows "bs_iter bs \<noteq> [] \<and> distinct (map b_id (bs_iter bs)) \<and>
    (\<forall>b \<in> set (bs_iter bs). b_id b < bs_next_id bs \<and> with_id (b_id b) bs = Some b) \<and>
    j_idx (bs_jump_list bs) \<le> length (j_jumps (bs_jump_list bs)) \<and>
    length (j_jumps (bs_jump_list bs)) \<le> MAX_JUMPS"
proof -
  have ok: "bs_ok bs" using assms by (rule reachable_ok)
  have "with_id (b_id b) bs = Some b" if b: "b \<in> set (bs_list bs)" for b
  proof (cases "with_id (b_id b) bs")
    case None
    then show ?thesis using b by (auto simp: with_id_def find_None_iff)
  next
    case (Some b')
    then have "b' \<in> set (bs_list bs)" "b_id b' = b_id b"
      by (auto simp: with_id_def dest: find_find_some)
    then show ?thesis using Some bs_active_unique[OF ok _ b] by simp
  qed
  then show ?thesis using ok by (auto simp: bs_ok_def jl_ok_def)
qed

definition no_files :: files where
  "no_files = \<lparr>fs_canonicalize = Inr, fs_is_dir = (\<lambda>_. False), fs_entries = (\<lambda>_. Inl NotFound),
     fs_read = (\<lambda>_. Inl NotFound)\<rparr>"

definition small_display :: display where
  "small_display = \<lparr>d_tabstop = 4, d_expand_tab = False, d_match_indent = False, d_width = (\<lambda>_. None)\<rparr>"

text \<open>The first buffer and one for help.\<close>

lemma help_open:
  obtains bs h u where "buffers_reachable (\<lambda>_. False) small_display no_files bs" "bs_ok bs"
    "bs_list bs = [h, u]" "b_id h = 1" "b_id u = 0" "bs_active bs = h"
proof -
  obtain bs where bs: "buffers_new = Some bs" using buffers_new_some by blast
  obtain u where u: "bs_list bs = [u]" "b_kind u = Unnamed" "bs_next_id bs = 1" "b_id u = 0"
    using bs new_unnamed_empty[of 0] new_buffer_ids(1)[of 0 "[]"]
    by (auto simp: buffers_new_def bind_eq_Some_conv zl_simps)
  obtain gb where "gb_from_str [] = Some gb" using gb_from_str_holds[of "[]"] by auto
  then obtain h where h: "new_virtual 1 ''+help'' [] = Some h"
    by (auto simp: new_virtual_def normalize_line_endings_def)
  define bs' where
    "bs' = (bs_push_buffer h (record_jump_position bs))\<lparr>bs_next_id := bs_next_id bs + 1\<rparr>"
  have op: "open_virtual ''+help'' [] bs = Some (1, bs')"
    using u h by (simp add: open_virtual_def is_virtual_def bs'_def Let_def bs_push_buffer_def)
  have start: "buffers_reachable (\<lambda>_. False) small_display no_files bs"
    using bs by (rule buffers_reachable.Start)
  note r = buffers_reachable.OpenVirtual[OF start op]
  have up: "z_up (bs_inner bs) = []" "z_focus (bs_inner bs) = u" "z_down (bs_inner bs) = []"
    using u(1) by (auto simp: zl_list_def append_eq_Cons_conv)
  show thesis
    by (rule that[OF r reachable_ok[OF r] _ new_buffer_ids(2)[OF h] u(4)])
       (use u up in \<open>simp_all add: bs'_def bs_push_buffer_def zl_insert_list bs_active_def\<close>)
qed

lemma open_buffers_invariant_witness:
  "\<exists>bs. buffers_reachable (\<lambda>_. False) small_display no_files bs \<and> map b_id (bs_iter bs) = [1, 0] \<and>
     distinct (map b_id (bs_iter bs))"
proof -
  obtain bs h u where bs: "buffers_reachable (\<lambda>_. False) small_display no_files bs"
    "bs_list bs = [h, u]" "b_id h = 1" "b_id u = 0" by (rule help_open)
  show ?thesis by (rule exI[of _ bs]) (use bs open_buffers_invariant[OF bs(1)] in simp)
qed

text \<open>
  C18: after the focus moved to another open buffer, jumping back returns to the buffer and the
  cursor that it came from, and jumping forward to where it was; the cursor is clamped to the text.
\<close>

theorem jump_back_and_forward:
  assumes "bs_ok bs" "b \<in> set (bs_iter bs)" "b_id b \<noteq> b_id (bs_active bs)"
  shows "\<exists>bs1 bs2 bs3. bs_focus_id (b_id b) bs = (Some (b_id b), bs1) \<and> bs_active bs1 = b \<and>
    jump_list_backward bs1 = Some (Some (b_id b, b_id (bs_active bs)), bs2) \<and>
    bs_active bs2 = at_cur (bs_active bs) (active_cur (b_dot (bs_active bs))) \<and>
    jump_list_forward bs2 = (Some (b_id (bs_active bs), b_id b), bs3) \<and>
    bs_active bs3 = at_cur b (active_cur (b_dot b))"
  by (rule focus_then_back[of bs b]) (use assms in auto)

lemma jump_back_and_forward_witness:
  "\<exists>bs bs1. map b_id (bs_iter bs) = [1, 0] \<and> bs_focus_id 0 bs = (Some 0, bs1) \<and> b_id (bs_active bs1) = 0"
proof -
  obtain bs h u where bs: "bs_ok bs" "bs_list bs = [h, u]" "b_id h = 1" "b_id u = 0" "bs_active bs = h"
    by (rule help_open)
  then obtain bs1 where "bs_focus_id 0 bs = (Some 0, bs1)" "bs_active bs1 = u"
    using jump_back_and_forward[of bs u] by auto
  then show ?thesis using bs by (intro exI[of _ bs] exI[of _ bs1]) simp
qed

text \<open>
  C19: closing a buffer always returns; it leaves the other buffers as they were and in their
  order, and a fresh empty buffer instead of the last one, and no jump leads to the closed buffer.
\<close>

theorem close_buffer_leaves:
  assumes "bs_ok bs" "contains_bufid i bs"
  shows "\<exists>bs'. bs_close_buffer i bs = Some bs' \<and> \<not> contains_bufid i bs' \<and>
    (if bs_len bs = 1 then bs_len bs' = 1 \<and> b_id (bs_active bs') = bs_next_id bs \<and>
                           is_empty_squirrel bs' = Some True
     else bs_iter bs' = filter (\<lambda>b. b_id b \<noteq> i) (bs_iter bs) \<and>
          (b_id (bs_active bs) \<noteq> i \<longrightarrow> bs_active bs' = bs_active bs)) \<and>
    j_jumps (bs_jump_list bs') = filter (\<lambda>j. fst j \<noteq> i) (j_jumps (bs_jump_list bs))"
  using assms(1)
proof (cases rule: close_buffer_cases[of bs i])
  case (unknown bs')
  then show ?thesis using assms(2) by (simp add: contains_bufid_iff)
next
  case (last bs' b)
  have one: "bs_len bs = 1" "bs_len bs' = 1"
    using arg_cong[OF last(1), of length] last(3) by (simp_all add: bs_len_def zl_len_eq)
  have b: "bs_active bs' = b" using last(3) bs_active_in[of bs'] by simp
  have "i < bs_next_id bs" using assms unfolding bs_ok_def contains_bufid_iff by blast
  moreover have "is_empty_squirrel bs' = Some True"
    using one b new_unnamed_empty[of "bs_next_id bs"] last(4) gb_holds_len[of "b_txt b" "[]"]
    by (auto simp: is_empty_squirrel_def is_unnamed_def len_chars_def)
  ultimately show ?thesis
    using one last b new_buffer_ids(1)[OF last(4)]
    by (auto simp: contains_bufid_iff jl_clear_for_buffer_def Let_def)
next
  case (others bs')
  have "bs_len bs \<noteq> 1"
    using others(1,2) by (auto simp: bs_len_def zl_len_eq length_Suc_conv)
  then show ?thesis using others by (auto simp: contains_bufid_iff jl_clear_for_buffer_def Let_def)
qed

lemma close_buffer_leaves_witness:
  "\<exists>bs bs'. map b_id (bs_iter bs) = [1, 0] \<and> bs_close_buffer 1 bs = Some bs' \<and>
     map b_id (bs_iter bs') = [0]"
proof -
  obtain bs h u where bs: "bs_ok bs" "bs_list bs = [h, u]" "b_id h = 1" "b_id u = 0"
    by (rule help_open)
  have "contains_bufid 1 bs" "bs_len bs \<noteq> 1"
    using bs by (simp_all add: contains_bufid_iff bs_len_def zl_len_eq)
  then obtain bs' where "bs_close_buffer 1 bs = Some bs'" "bs_iter bs' = [u]"
    using close_buffer_leaves[OF bs(1), of 1] bs by auto
  then show ?thesis using bs by (intro exI[of _ bs] exI[of _ bs']) simp
qed

subsection \<open>What jumps do not do\<close>

text \<open>
  Jumping back when the only recorded position is the current one subtracts one from zero: the
  position is not pushed again, but the index moves back twice.
\<close>

lemma jump_back_panics:
  assumes "buffers_new = Some bs"
  shows "jump_list_backward (record_jump_position bs) = None"
  using buffers_new_ok[OF assms]
  by (simp add: jump_list_backward_def record_jump_position_def jl_default_def jl_push_def MAX_JUMPS_def
      jl_backward_def usub_def bs_active_def)

end
