(* ===== verification/Windows.thy ===== *)
theory Windows
  imports Buffers
begin

text \<open>
  Views of buffers, windows and columns (src/ui/layout.rs): their sizes, how a view scrolls, and
  how an element of a zip list grows at the cost of its neighbour.
\<close>

subsection \<open>Views\<close>

record view =
  v_bufid :: nat
  v_col_off :: nat
  v_row_off :: nat
  v_rx :: nat
  v_cur :: cur

definition view_new :: "nat \<Rightarrow> view" where
  "view_new bid = \<lparr>v_bufid = bid, v_col_off = 0, v_row_off = 0, v_rx = 0, v_cur = cur_buffer_start\<rparr>"

function digits_loop :: "nat \<Rightarrow> nat \<Rightarrow> nat" where
  "digits_loop n digits = (if n = 0 then digits else digits_loop (n div 10) (digits + 1))"
  by pat_completeness auto
termination by (relation "measure fst") auto

declare digits_loop.simps [simp del]

definition n_digits :: "nat \<Rightarrow> nat" where
  "n_digits n = (if n = 0 then 1 else digits_loop n 0)"

definition sign_col_dims :: "buffer \<Rightarrow> (nat \<times> nat) option" where
  "sign_col_dims b = do {
     n \<leftarrow> len_lines (b_txt b);
     let w_lnum = n_digits n;
     Some (w_lnum, w_lnum + 2)
   }"

fun rx_scan :: "display \<Rightarrow> nat \<Rightarrow> ustr \<Rightarrow> nat option" where
  "rx_scan d rx [] = Some rx"
| "rx_scan d rx (c # cs) = do {
     rx \<leftarrow> (if c = 9 then tab_pad d rx else Some rx);
     rx_scan d (rx + (case d_width d c of None \<Rightarrow> 1 | Some w \<Rightarrow> w)) cs
   }"

definition rx_from_x :: "display \<Rightarrow> buffer \<Rightarrow> nat \<Rightarrow> nat \<Rightarrow> nat option" where
  "rx_from_x d b y x = do {
     n \<leftarrow> len_lines (b_txt b);
     if n \<le> y then Some 0
     else do { cs \<leftarrow> line_chars b y; rx_scan d 0 (take x cs) }
   }"

definition view_ui_xy :: "view \<Rightarrow> buffer \<Rightarrow> (nat \<times> nat) option" where
  "view_ui_xy v b = do {
     (_, w_sgncol) \<leftarrow> sign_col_dims b;
     (y, _) \<leftarrow> as_yx (active_cur (b_dot b)) b;
     x \<leftarrow> usub (v_rx v) (v_col_off v);
     y \<leftarrow> usub y (v_row_off v);
     Some (x + w_sgncol, y)
   }"

text \<open>The row \<open>y\<close> of the cursor comes into view, and then its column.\<close>

definition clamp_rows :: "nat \<Rightarrow> nat \<Rightarrow> view \<Rightarrow> view option" where
  "clamp_rows y rows v = do {
     let v = (if y < v_row_off v then v\<lparr>v_row_off := y\<rparr> else v);
     if v_row_off v + rows \<le> y
     then do { off \<leftarrow> usub (y + 1) rows; Some (v\<lparr>v_row_off := off\<rparr>) }
     else Some v
   }"

definition clamp_cols :: "nat \<Rightarrow> nat \<Rightarrow> view \<Rightarrow> view option" where
  "clamp_cols w_sgncol cols v = do {
     let v = (if v_rx v < v_col_off v then v\<lparr>v_col_off := v_rx v\<rparr> else v);
     right \<leftarrow> usub (v_col_off v + cols) w_sgncol;
     if right \<le> v_rx v
     then do { off \<leftarrow> usub (v_rx v + w_sgncol + 1) cols; Some (v\<lparr>v_col_off := off\<rparr>) }
     else Some v
   }"

definition view_clamp_scroll ::
  "display \<Rightarrow> nat \<Rightarrow> nat \<Rightarrow> view \<Rightarrow> buffer \<Rightarrow> (view \<times> buffer) option" where
  "view_clamp_scroll d rows cols v b = do {
     let v = v\<lparr>v_cur := active_cur (b_dot b)\<rparr>;
     (y, x) \<leftarrow> as_yx (v_cur v) b;
     (_, w_sgncol) \<leftarrow> sign_col_dims b;
     rx \<leftarrow> rx_from_x d b y x;
     v \<leftarrow> clamp_rows y rows (v\<lparr>v_rx := rx\<rparr>);
     v \<leftarrow> clamp_cols w_sgncol cols v;
     Some (v, b\<lparr>b_cached_rx := rx\<rparr>)
   }"

definition view_force_cursor ::
  "display \<Rightarrow> nat \<Rightarrow> nat \<Rightarrow> view \<Rightarrow> buffer \<Rightarrow> (view \<times> buffer) option" where
  "view_force_cursor d rows cols v b =
     view_clamp_scroll d rows cols v (b\<lparr>b_dot := DotCur (v_cur v)\<rparr>)"

datatype view_port = VpBottom | VpCenter | VpTop

definition view_set_viewport ::
  "display \<Rightarrow> view_port \<Rightarrow> nat \<Rightarrow> nat \<Rightarrow> view \<Rightarrow> buffer \<Rightarrow> (view \<times> buffer) option" where
  "view_set_viewport d vp screen_rows screen_cols v b = do {
     (y, _) \<leftarrow> as_yx (active_cur (b_dot b)) b;
     let off = (case vp of
                  VpTop \<Rightarrow> y
                | VpCenter \<Rightarrow> y - screen_rows div 2
                | VpBottom \<Rightarrow> y - screen_rows);
     view_clamp_scroll d screen_rows screen_cols (v\<lparr>v_row_off := off\<rparr>) b
   }"

subsection \<open>Windows and columns\<close>

record window =
  w_n_rows :: nat
  w_view :: view

record column =
  c_n_cols :: nat
  c_wins :: "window ziplist"

definition window_new :: "nat \<Rightarrow> nat \<Rightarrow> window" where
  "window_new n_rows bid = \<lparr>w_n_rows = n_rows, w_view = view_new bid\<rparr>"

text \<open>The size of \<open>n\<close> blocks in a space of \<open>t\<close>, and what is left for some of them.\<close>

definition calculate_dims :: "nat \<Rightarrow> nat \<Rightarrow> (nat \<times> nat) option" where
  "calculate_dims t n =
     (if n = 0 then None
      else do {
        size \<leftarrow> usub ((t + 1) div n) 1;
        slop \<leftarrow> usub (t + 1) (n * (size + 1));
        Some (size, slop)
      })"

text \<open>\<open>for (i, (_, elem)) in self.iter_mut().enumerate()\<close>\<close>

definition zl_map_enumerate :: "(nat \<Rightarrow> 'a \<Rightarrow> 'b) \<Rightarrow> 'a ziplist \<Rightarrow> 'b ziplist" where
  "zl_map_enumerate f z =
     (let n = length (z_up z) in
      \<lparr>z_up = rev (map (\<lambda>(i, x). f i x) (enumerate 0 (rev (z_up z)))),
       z_focus = f n (z_focus z),
       z_down = map (\<lambda>(i, x). f i x) (enumerate (n + 1) (z_down z))\<rparr>)"

definition last_mut :: "('a \<Rightarrow> 'a) \<Rightarrow> 'a ziplist \<Rightarrow> 'a ziplist" where
  "last_mut f z =
     (if z_down z = [] then z\<lparr>z_focus := f (z_focus z)\<rparr>
      else z\<lparr>z_down := butlast (z_down z) @ [f (last (z_down z))]\<rparr>)"

definition column_new :: "nat \<Rightarrow> nat \<Rightarrow> nat list \<Rightarrow> column option" where
  "column_new n_rows n_cols buf_ids = do {
     (win_rows, slop) \<leftarrow> calculate_dims n_rows (length buf_ids);
     wins \<leftarrow> try_from_iter (map (window_new win_rows) buf_ids);
     Some \<lparr>c_n_cols = n_cols,
           c_wins = zl_map_enumerate
             (\<lambda>i w. if i < slop then w\<lparr>w_n_rows := w_n_rows w + 1\<rparr> else w) wins\<rparr>
   }"

definition col_balance_windows :: "nat \<Rightarrow> column \<Rightarrow> column option" where
  "col_balance_windows screen_rows c = do {
     (n_rows, slop) \<leftarrow> calculate_dims screen_rows (zl_len (c_wins c));
     Some (c\<lparr>c_wins := zl_map_enumerate
       (\<lambda>i w. let w = w\<lparr>w_n_rows := n_rows\<rparr> in
              if i < slop then w\<lparr>w_n_rows := w_n_rows w + 1\<rparr> else w) (c_wins c)\<rparr>)
   }"

subsection \<open>Growing and shrinking\<close>

definition MIN_DIM :: nat where "MIN_DIM = 5"

text \<open>
  The trait \<open>Growable\<close>: the size of an element and how to set it. \<open>clamped_sub\<close> gives the amount
  that was taken away, and the new size.
\<close>

record 'a growable =
  size_of :: "'a \<Rightarrow> nat"
  set_size :: "nat \<Rightarrow> 'a \<Rightarrow> 'a"

definition growable_column :: "column growable" where
  "growable_column = \<lparr>size_of = c_n_cols, set_size = (\<lambda>n c. c\<lparr>c_n_cols := n\<rparr>)\<rparr>"

definition growable_window :: "window growable" where
  "growable_window = \<lparr>size_of = w_n_rows, set_size = (\<lambda>n w. w\<lparr>w_n_rows := n\<rparr>)\<rparr>"

definition clamped_sub :: "nat \<Rightarrow> nat \<Rightarrow> nat \<Rightarrow> (nat \<times> nat) option" where
  "clamped_sub sz delta min_val =
     (let clamped = sz - delta in
      if min_val \<le> clamped then Some (delta, clamped)
      else do { actual \<leftarrow> usub sz min_val; Some (actual, min_val) })"

definition grow_pair :: "'a growable \<Rightarrow> int \<Rightarrow> 'a \<Rightarrow> 'a \<Rightarrow> ('a \<times> 'a) option" where
  "grow_pair g delta focus other =
     (if delta = - 32768 then None
      else if delta < 0 then do {
        (actual, n) \<leftarrow> clamped_sub (size_of g focus) (nat (- delta)) MIN_DIM;
        Some (set_size g n focus, set_size g (size_of g other + actual) other)
      }
      else do {
        (actual, n) \<leftarrow> clamped_sub (size_of g other) (nat delta) MIN_DIM;
        Some (set_size g (size_of g focus + actual) focus, set_size g n other)
      })"

text \<open>The delta is an \<open>i16\<close>; its least value cannot be negated.\<close>

definition grow_focus :: "'a growable \<Rightarrow> int \<Rightarrow> 'a ziplist \<Rightarrow> 'a ziplist option" where
  "grow_focus g delta z =
     (if zl_len z = 1 \<or> delta = 0 then Some z
      else
        (case (z_up z, z_down z) of
           ([], other # down) \<Rightarrow> do {
             (focus, other) \<leftarrow> grow_pair g delta (z_focus z) other;
             Some (z\<lparr>z_focus := focus, z_down := other # down\<rparr>)
           }
         | (other # up, _) \<Rightarrow> do {
             (focus, other) \<leftarrow> grow_pair g delta (z_focus z) other;
             Some (z\<lparr>z_focus := focus, z_up := other # up\<rparr>)
           }
         | ([], []) \<Rightarrow> None))"

definition grow_focus_against_next :: "'a growable \<Rightarrow> int \<Rightarrow> 'a ziplist \<Rightarrow> 'a ziplist option" where
  "grow_focus_against_next g delta z =
     (case z_down z of
        [] \<Rightarrow> Some z
      | other # down \<Rightarrow>
          if delta = 0 then Some z
          else do {
            (focus, other) \<leftarrow> grow_pair g delta (z_focus z) other;
            Some (z\<lparr>z_focus := focus, z_down := other # down\<rparr>)
          })"

text \<open>
  Scaling to a new total: \<open>scale\<close> is the multiplication by the ratio, in single precision and
  truncated. The total must fit.
\<close>

definition scale_sizes :: "'a growable \<Rightarrow> (nat \<Rightarrow> nat) \<Rightarrow> nat \<Rightarrow> 'a ziplist \<Rightarrow> 'a ziplist option" where
  "scale_sizes g scale new_total z = do {
     let z = zl_map (\<lambda>x. set_size g (scale (size_of g x)) x) z;
     let total = sum_list (map (size_of g) (flatten z)) + (zl_len z - 1);
     slop \<leftarrow> usub new_total total;
     Some (zl_map_enumerate (\<lambda>i x. if i < slop then set_size g (size_of g x + 1) x else x) z)
   }"

subsection \<open>Scrolling\<close>

definition apply_scroll ::
  "display \<Rightarrow> nat \<Rightarrow> bool \<Rightarrow> bool \<Rightarrow> nat \<Rightarrow> window \<Rightarrow> buffer \<Rightarrow> (window \<times> buffer) option" where
  "apply_scroll d n_cols focused up scroll_rows win b = do {
     let n_rows = w_n_rows win;
     let v = w_view win;
     let c = (if focused then active_cur (b_dot b) else v_cur v);
     (y, x) \<leftarrow> as_yx c b;
     n \<leftarrow> len_lines (b_txt b);
     y_max \<leftarrow> usub n 1;
     (c, need_clamp) \<leftarrow>
       (if up \<and> 0 < v_row_off v \<and> y = v_row_off v + n_rows - 1
        then do { c \<leftarrow> from_yx (y - scroll_rows) x b; Some (c, False) }
        else if \<not> up \<and> y = v_row_off v \<and> v_row_off v < y_max
        then do { c \<leftarrow> from_yx (min (y + scroll_rows) y_max) x b; Some (c, True) }
        else Some (c, False));
     let (v, b) =
       (if focused then
          (let b = b\<lparr>b_dot := set_active_cur (b_dot b) c\<rparr>
           in (v, if need_clamp
                  then b\<lparr>b_dot := dot_clamp_idx (b_dot b) (len_chars (b_txt b)),
                         b_xdot := dot_clamp_idx (b_xdot b) (len_chars (b_txt b))\<rparr>
                  else b))
        else (v\<lparr>v_cur := c\<rparr>, b));
     let v = v\<lparr>v_row_off := if up then v_row_off v - scroll_rows
                            else min (v_row_off v + scroll_rows) y_max\<rparr>;
     (v, b) \<leftarrow> (if focused then view_clamp_scroll d n_rows n_cols v b else Some (v, b));
     Some (win\<lparr>w_view := v\<rparr>, b)
   }"

end
