(* ===== verification/Layout.thy ===== *)
theory Layout
  imports Windows
begin

text \<open>
  The layout of the screen (src/ui/layout.rs): the open buffers, the scratch buffer, the columns of
  windows and the views of buffers that no window shows. Operations that can panic return an
  option; \<open>d\<close> holds the configuration that they read.
\<close>

subsection \<open>The scratch buffer\<close>

definition SCRATCH_ID :: nat where "SCRATCH_ID = USIZE_MAX"

record scratch_buf =
  sb_main :: buffer
  sb_transient :: "buffer option"

record scratch =
  s_b :: scratch_buf
  s_w :: window
  s_is_visible :: bool
  s_is_focused :: bool

definition scratch_buffer :: "scratch \<Rightarrow> buffer" where
  "scratch_buffer s = (case sb_transient (s_b s) of Some b \<Rightarrow> b | None \<Rightarrow> sb_main (s_b s))"

definition set_scratch_buffer :: "buffer \<Rightarrow> scratch \<Rightarrow> scratch" where
  "set_scratch_buffer b s =
     (case sb_transient (s_b s) of
        Some _ \<Rightarrow> s\<lparr>s_b := (s_b s)\<lparr>sb_transient := Some b\<rparr>\<rparr>
      | None \<Rightarrow> s\<lparr>s_b := (s_b s)\<lparr>sb_main := b\<rparr>\<rparr>)"

definition scratch_buf_clear :: "(uchar \<Rightarrow> bool) \<Rightarrow> display \<Rightarrow> scratch_buf \<Rightarrow> scratch_buf option" where
  "scratch_buf_clear alnum d sb = do { b \<leftarrow> buf_clear alnum d (sb_main sb); Some (sb\<lparr>sb_main := b\<rparr>) }"

definition scratch_new :: "nat \<Rightarrow> scratch option" where
  "scratch_new minibuffer_lines = do {
     b \<leftarrow> new_virtual SCRATCH_ID ''*scratch*'' [];
     Some \<lparr>s_b = \<lparr>sb_main = b, sb_transient = None\<rparr>, s_w = window_new minibuffer_lines SCRATCH_ID,
           s_is_visible = False, s_is_focused = False\<rparr>
   }"

definition set_transient :: "string \<Rightarrow> ustr \<Rightarrow> scratch \<Rightarrow> scratch option" where
  "set_transient name content s = do {
     b \<leftarrow> new_virtual SCRATCH_ID name content;
     Some (s\<lparr>s_b := (s_b s)\<lparr>sb_transient := Some b\<rparr>, s_is_visible := True, s_is_focused := True\<rparr>)
   }"

definition scratch_toggle :: "scratch \<Rightarrow> scratch" where
  "scratch_toggle s =
     (let s = (if s_is_visible s \<and> sb_transient (s_b s) \<noteq> None
               then s\<lparr>s_b := (s_b s)\<lparr>sb_transient := None\<rparr>\<rparr> else s);
          s = s\<lparr>s_is_visible := \<not> s_is_visible s\<rparr>
      in s\<lparr>s_is_focused := s_is_visible s\<rparr>)"

subsection \<open>The layout\<close>

record layout =
  ly_buffers :: buffers
  ly_scratch :: scratch
  ly_screen_rows :: nat
  ly_screen_cols :: nat
  ly_cols :: "column ziplist"
  ly_views :: "view list"
  ly_changed :: bool

definition layout_new :: "nat \<Rightarrow> nat \<Rightarrow> nat \<Rightarrow> layout option" where
  "layout_new minibuffer_lines screen_rows screen_cols = do {
     s \<leftarrow> scratch_new minibuffer_lines;
     bs \<leftarrow> buffers_new;
     c \<leftarrow> column_new screen_rows screen_cols [b_id (bs_active bs)];
     Some \<lparr>ly_buffers = bs, ly_scratch = s, ly_screen_rows = screen_rows,
           ly_screen_cols = screen_cols, ly_cols = zl_new [] c [], ly_views = [],
           ly_changed = False\<rparr>
   }"

definition scratch_focused :: "layout \<Rightarrow> bool" where
  "scratch_focused l \<longleftrightarrow> s_is_focused (ly_scratch l)"

definition set_scratch_focused :: "bool \<Rightarrow> layout \<Rightarrow> layout" where
  "set_scratch_focused f l = l\<lparr>ly_scratch := (ly_scratch l)\<lparr>s_is_focused := f\<rparr>\<rparr>"

text \<open>\<open>self.scratch.is_focused = false; self.changed_since_last_render = true\<close>\<close>

definition touch :: "layout \<Rightarrow> layout" where
  "touch l = (set_scratch_focused False l)\<lparr>ly_changed := True\<rparr>"

definition layout_had_change :: "layout \<Rightarrow> bool \<times> layout" where
  "layout_had_change l =
     (let had_change = ly_changed l \<or> list_ex b_changed_since_last_render (bs_iter (ly_buffers l)) \<or>
            b_changed_since_last_render (scratch_buffer (ly_scratch l));
          clear = (\<lambda>b. b\<lparr>b_changed_since_last_render := False\<rparr>)
      in (had_change,
          l\<lparr>ly_changed := False,
            ly_buffers := (ly_buffers l)\<lparr>bs_inner := zl_map clear (bs_inner (ly_buffers l))\<rparr>,
            ly_scratch := set_scratch_buffer (clear (scratch_buffer (ly_scratch l))) (ly_scratch l)\<rparr>))"

definition col_wins :: "column \<Rightarrow> window list" where
  "col_wins c = flatten (c_wins c)"

definition layout_ids :: "layout \<Rightarrow> nat list list" where
  "layout_ids l = map (\<lambda>c. map (\<lambda>w. v_bufid (w_view w)) (col_wins c)) (flatten (ly_cols l))"

definition n_open_windows :: "layout \<Rightarrow> nat" where
  "n_open_windows l = sum_list (map (\<lambda>c. zl_len (c_wins c)) (flatten (ly_cols l)))"

definition buffer_is_visible :: "nat \<Rightarrow> layout \<Rightarrow> bool" where
  "buffer_is_visible bid l \<longleftrightarrow>
     list_ex (\<lambda>c. list_ex (\<lambda>w. v_bufid (w_view w) = bid) (col_wins c)) (flatten (ly_cols l))"

definition active_buffer :: "layout \<Rightarrow> buffer" where
  "active_buffer l =
     (if scratch_focused l then scratch_buffer (ly_scratch l) else bs_active (ly_buffers l))"

definition set_active_buffer :: "buffer \<Rightarrow> layout \<Rightarrow> layout" where
  "set_active_buffer b l =
     (if scratch_focused l then l\<lparr>ly_scratch := set_scratch_buffer b (ly_scratch l)\<rparr>
      else l\<lparr>ly_buffers := bs_set_active b (ly_buffers l)\<rparr>)"

text \<open>The focused column, window and view, and how they are changed.\<close>

definition focused_col :: "layout \<Rightarrow> column" where
  "focused_col l = z_focus (ly_cols l)"

definition focused_win :: "layout \<Rightarrow> window" where
  "focused_win l = z_focus (c_wins (focused_col l))"

definition focused_view :: "layout \<Rightarrow> view" where
  "focused_view l = w_view (focused_win l)"

definition set_focused_col :: "column \<Rightarrow> layout \<Rightarrow> layout" where
  "set_focused_col c l = l\<lparr>ly_cols := (ly_cols l)\<lparr>z_focus := c\<rparr>\<rparr>"

definition set_focused_wins :: "window ziplist \<Rightarrow> layout \<Rightarrow> layout" where
  "set_focused_wins ws l = set_focused_col ((focused_col l)\<lparr>c_wins := ws\<rparr>) l"

definition set_focused_win :: "window \<Rightarrow> layout \<Rightarrow> layout" where
  "set_focused_win w l = set_focused_wins ((c_wins (focused_col l))\<lparr>z_focus := w\<rparr>) l"

definition set_focused_view :: "view \<Rightarrow> layout \<Rightarrow> layout" where
  "set_focused_view v l = set_focused_win ((focused_win l)\<lparr>w_view := v\<rparr>) l"

definition active_window_rows :: "layout \<Rightarrow> nat" where
  "active_window_rows l =
     (if scratch_focused l then w_n_rows (s_w (ly_scratch l)) else w_n_rows (focused_win l))"

subsection \<open>Sizes\<close>

definition balance_columns :: "layout \<Rightarrow> layout option" where
  "balance_columns l = do {
     let l = l\<lparr>ly_changed := True\<rparr>;
     (n_cols, slop) \<leftarrow> calculate_dims (ly_screen_cols l) (zl_len (ly_cols l));
     Some (l\<lparr>ly_cols := zl_map_enumerate
       (\<lambda>i c. let c = c\<lparr>c_n_cols := n_cols\<rparr> in
              if i < slop then c\<lparr>c_n_cols := c_n_cols c + 1\<rparr> else c) (ly_cols l)\<rparr>)
   }"

definition balance_active_column :: "layout \<Rightarrow> layout option" where
  "balance_active_column l = do {
     let l = l\<lparr>ly_changed := True\<rparr>;
     c \<leftarrow> col_balance_windows (ly_screen_rows l) (focused_col l);
     Some (set_focused_col c l)
   }"

text \<open>A step for each element of a zip list, in the order of the list; it stops at a panic.\<close>

fun list_map_opt :: "('a \<Rightarrow> 'b option) \<Rightarrow> 'a list \<Rightarrow> 'b list option" where
  "list_map_opt f [] = Some []"
| "list_map_opt f (x # xs) = do { y \<leftarrow> f x; ys \<leftarrow> list_map_opt f xs; Some (y # ys) }"

definition zl_map_opt :: "('a \<Rightarrow> 'b option) \<Rightarrow> 'a ziplist \<Rightarrow> 'b ziplist option" where
  "zl_map_opt f z = do {
     up \<leftarrow> list_map_opt f (rev (z_up z));
     focus \<leftarrow> f (z_focus z);
     down \<leftarrow> list_map_opt f (z_down z);
     Some \<lparr>z_up = rev up, z_focus = focus, z_down = down\<rparr>
   }"

definition balance_windows :: "layout \<Rightarrow> layout option" where
  "balance_windows l = do {
     let l = l\<lparr>ly_changed := True\<rparr>;
     cols \<leftarrow> zl_map_opt (col_balance_windows (ly_screen_rows l)) (ly_cols l);
     Some (l\<lparr>ly_cols := cols\<rparr>)
   }"

definition balance_all :: "layout \<Rightarrow> layout option" where
  "balance_all l = do { l \<leftarrow> balance_columns l; balance_windows l }"

definition resize_active_column :: "int \<Rightarrow> layout \<Rightarrow> layout option" where
  "resize_active_column delta l = do {
     cols \<leftarrow> grow_focus growable_column delta (ly_cols l);
     Some (l\<lparr>ly_changed := True, ly_cols := cols\<rparr>)
   }"

definition resize_active_window :: "int \<Rightarrow> layout \<Rightarrow> layout option" where
  "resize_active_window delta l = do {
     ws \<leftarrow> grow_focus growable_window delta (c_wins (focused_col l));
     Some (set_focused_wins ws (l\<lparr>ly_changed := True\<rparr>))
   }"

definition resize_active_column_against_next :: "int \<Rightarrow> layout \<Rightarrow> layout option" where
  "resize_active_column_against_next delta l = do {
     cols \<leftarrow> grow_focus_against_next growable_column delta (ly_cols l);
     Some (l\<lparr>ly_changed := True, ly_cols := cols\<rparr>)
   }"

definition resize_active_window_against_next :: "int \<Rightarrow> layout \<Rightarrow> layout option" where
  "resize_active_window_against_next delta l = do {
     ws \<leftarrow> grow_focus_against_next growable_window delta (c_wins (focused_col l));
     Some (set_focused_wins ws (l\<lparr>ly_changed := True\<rparr>))
   }"

subsection \<open>Showing buffers\<close>

text \<open>\<open>focus_element_by_mut\<close> of the zip list: the test may change the element.\<close>

fun focus_loop_mut :: "('a \<Rightarrow> bool \<times> 'a) \<Rightarrow> nat \<Rightarrow> 'a ziplist \<Rightarrow> bool \<times> 'a ziplist" where
  "focus_loop_mut f 0 z = (False, z)"
| "focus_loop_mut f (Suc n) z =
     (case f (z_focus z) of
        (hit, x) \<Rightarrow> let z = z\<lparr>z_focus := x\<rparr> in
          if hit then (True, z) else focus_loop_mut f n (focus_down z))"

definition focus_element_by_mut :: "('a \<Rightarrow> bool \<times> 'a) \<Rightarrow> 'a ziplist \<Rightarrow> bool \<times> 'a ziplist" where
  "focus_element_by_mut f z = focus_loop_mut f (zl_len z) z"

definition shows_buffer :: "nat \<Rightarrow> window \<Rightarrow> bool" where
  "shows_buffer bid w \<longleftrightarrow> v_bufid (w_view w) = bid"

definition focus_window_in :: "nat \<Rightarrow> column \<Rightarrow> bool \<times> column" where
  "focus_window_in bid c =
     (case focus_element_by_mut (\<lambda>w. (shows_buffer bid w, w)) (c_wins c) of
        (hit, ws) \<Rightarrow> (hit, c\<lparr>c_wins := ws\<rparr>))"

definition focus_first_window_with_buffer :: "nat \<Rightarrow> layout \<Rightarrow> layout" where
  "focus_first_window_with_buffer bid l =
     (let l = set_scratch_focused False l
      in l\<lparr>ly_cols := snd (focus_element_by_mut (focus_window_in bid) (ly_cols l))\<rparr>)"

text \<open>The stored view of a buffer, removed from the others, or a new one.\<close>

definition take_view :: "nat \<Rightarrow> layout \<Rightarrow> view \<times> layout" where
  "take_view bid l =
     (case List.extract (\<lambda>v. v_bufid v = bid) (ly_views l) of
        Some (vs, v, vs') \<Rightarrow> (v, l\<lparr>ly_views := vs @ vs'\<rparr>)
      | None \<Rightarrow> (view_new bid, l))"

definition show_buffer_in_active_window :: "nat \<Rightarrow> layout \<Rightarrow> layout" where
  "show_buffer_in_active_window bid l =
     (let l = touch l in
      if v_bufid (focused_view l) = bid then l
      else
        let (v, l) = take_view bid l;
            old = focused_view l;
            l = set_focused_view v l
        in if contains_bufid (v_bufid old) (ly_buffers l)
           then l\<lparr>ly_views := ly_views l @ [old]\<rparr> else l)"

definition layout_buffers_focus_id :: "nat \<Rightarrow> layout \<Rightarrow> layout" where
  "layout_buffers_focus_id bid l = l\<lparr>ly_buffers := snd (bs_focus_id bid (ly_buffers l))\<rparr>"

definition new_column :: "layout \<Rightarrow> layout option" where
  "new_column l = do {
     let l = touch l;
     let v = focused_view l;
     c \<leftarrow> column_new (ly_screen_rows l) (ly_screen_cols l) [v_bufid v];
     let c = c\<lparr>c_wins := last_mut (\<lambda>w. w\<lparr>w_view := v\<rparr>) (c_wins c)\<rparr>;
     balance_columns (l\<lparr>ly_cols := focus_tail (zl_insert_at Tail c (ly_cols l))\<rparr>)
   }"

definition new_window :: "layout \<Rightarrow> layout option" where
  "new_window l =
     (let l = touch l;
          w = \<lparr>w_n_rows = 0, w_view = focused_view l\<rparr>
      in balance_active_column
           (set_focused_wins (focus_tail (zl_insert_at Tail w (c_wins (focused_col l)))) l))"

definition show_buffer_in_new_window :: "nat \<Rightarrow> layout \<Rightarrow> layout option" where
  "show_buffer_in_new_window bid l = do {
     let l = touch l;
     let (v, l) = (if v_bufid (focused_view l) = bid then (focused_view l, l) else take_view bid l);
     l \<leftarrow>
       (if zl_len (ly_cols l) = 1 then do {
          c \<leftarrow> column_new (ly_screen_rows l) (ly_screen_cols l) [bid];
          let c = c\<lparr>c_wins := last_mut (\<lambda>w. w\<lparr>w_view := v\<rparr>) (c_wins c)\<rparr>;
          balance_columns (l\<lparr>ly_cols := focus_tail (zl_insert_at Tail c (ly_cols l))\<rparr>)
        } else
          (let l = l\<lparr>ly_cols := focus_tail (ly_cols l)\<rparr>;
               w = \<lparr>w_n_rows = 0, w_view = v\<rparr>
           in balance_active_column
                (set_focused_wins (focus_tail (zl_insert_at Tail w (c_wins (focused_col l)))) l)));
     Some (layout_buffers_focus_id bid l)
   }"

text \<open>Where a buffer is shown that was opened: in its window, in a new one or in the active one.\<close>

definition show_opened :: "nat \<Rightarrow> bool \<Rightarrow> layout \<Rightarrow> layout option" where
  "show_opened bid in_new l =
     (if buffer_is_visible bid l then Some (focus_first_window_with_buffer bid l)
      else if in_new then show_buffer_in_new_window bid l
      else Some (show_buffer_in_active_window bid l))"

subsection \<open>Opening and closing\<close>

definition layout_ensure_file_is_open :: "files \<Rightarrow> string \<Rightarrow> layout \<Rightarrow> layout option" where
  "layout_ensure_file_is_open fs p l = do {
     bs \<leftarrow> ensure_file_is_open fs p (ly_buffers l);
     Some (l\<lparr>ly_buffers := bs\<rparr>)
   }"

definition layout_open_or_focus ::
  "(uchar \<Rightarrow> bool) \<Rightarrow> display \<Rightarrow> files \<Rightarrow> string \<Rightarrow> bool \<Rightarrow> layout \<Rightarrow>
   ((io_error + nat option) \<times> layout) option" where
  "layout_open_or_focus alnum d fs p in_new l = do {
     let l = touch l;
     squirrel \<leftarrow> is_empty_squirrel (ly_buffers l);
     let in_new = (if squirrel then False else in_new);
     let retain_empty_unnamed = (in_new \<or> 1 < n_open_windows l);
     (r, bs) \<leftarrow> open_or_focus alnum d fs p retain_empty_unnamed (ly_buffers l);
     let l = l\<lparr>ly_buffers := bs\<rparr>;
     (case r of
        Inl e \<Rightarrow> Some (Inl e, l)
      | Inr opt \<Rightarrow> do {
          l \<leftarrow> show_opened (b_id (bs_active (ly_buffers l))) in_new l;
          Some (Inr opt, l)
        })
   }"

definition layout_open_virtual :: "string \<Rightarrow> ustr \<Rightarrow> bool \<Rightarrow> layout \<Rightarrow> layout option" where
  "layout_open_virtual name content in_new l = do {
     let l = touch l;
     (bid, bs) \<leftarrow> open_virtual name content (ly_buffers l);
     show_opened bid in_new (l\<lparr>ly_buffers := bs\<rparr>)
   }"

definition open_transient_scratch :: "string \<Rightarrow> ustr \<Rightarrow> layout \<Rightarrow> layout option" where
  "open_transient_scratch name content l = do {
     s \<leftarrow> set_transient name content (ly_scratch l);
     Some (l\<lparr>ly_changed := True, ly_scratch := s\<rparr>)
   }"

definition toggle_scratch :: "layout \<Rightarrow> layout" where
  "toggle_scratch l = l\<lparr>ly_scratch := scratch_toggle (ly_scratch l), ly_changed := True\<rparr>"

text \<open>
  The windows of a closed buffer go, and the columns that only show it. The stored view is looked
  up by the identifier of the closed buffer, after its views have been dropped.
\<close>

definition close_windows :: "nat \<Rightarrow> nat \<Rightarrow> column \<Rightarrow> column option" where
  "close_windows bid screen_rows c = do {
     let wins_before = zl_len (c_wins c);
     ws \<leftarrow> zl_filter_unchecked (\<lambda>w. \<not> shows_buffer bid w) (c_wins c);
     let c = c\<lparr>c_wins := ws\<rparr>;
     if zl_len ws < wins_before then col_balance_windows screen_rows c else Some c
   }"

definition layout_close_buffer :: "nat \<Rightarrow> layout \<Rightarrow> (bool \<times> layout) option" where
  "layout_close_buffer bid l =
     (let l = touch l in
      if bid = b_id (scratch_buffer (ly_scratch l)) then
        Some (False, l\<lparr>ly_scratch := (ly_scratch l)\<lparr>s_is_visible := False\<rparr>\<rparr>)
      else if bs_len (ly_buffers l) = 1 then
        Some (b_id (bs_active (ly_buffers l)) = bid, l)
      else do {
        let l = l\<lparr>ly_views := filter (\<lambda>v. v_bufid v \<noteq> bid) (ly_views l)\<rparr>;
        bs \<leftarrow> bs_close_buffer bid (ly_buffers l);
        let l = l\<lparr>ly_buffers := bs\<rparr>;
        let focused_id = b_id (bs_active bs);
        let (existing_view, l) =
          (case List.extract (\<lambda>v. v_bufid v = bid) (ly_views l) of
             Some (vs, v, vs') \<Rightarrow> (Some v, l\<lparr>ly_views := vs @ vs'\<rparr>)
           | None \<Rightarrow> (None, l));
        if list_all (\<lambda>c. list_all (shows_buffer bid) (col_wins c)) (flatten (ly_cols l)) then do {
          c \<leftarrow> column_new (ly_screen_rows l) (ly_screen_cols l) [focused_id];
          let l = l\<lparr>ly_cols := zl_new [] c []\<rparr>;
          Some (False, case existing_view of Some v \<Rightarrow> set_focused_view v l | None \<Rightarrow> l)
        }
        else do {
          let cols_before = zl_len (ly_cols l);
          cols \<leftarrow> zl_filter_unchecked
            (\<lambda>c. list_ex (\<lambda>w. \<not> shows_buffer bid w) (col_wins c)) (ly_cols l);
          let l = l\<lparr>ly_cols := cols\<rparr>;
          l \<leftarrow> (if zl_len (ly_cols l) < cols_before then balance_columns l else Some l);
          cols \<leftarrow> zl_map_opt (close_windows bid (ly_screen_rows l)) (ly_cols l);
          Some (False, l\<lparr>ly_cols := cols\<rparr>)
        }
      })"

text \<open>The answer of the two is that there is nothing left to close and the editor exits.\<close>

definition close_active_window :: "layout \<Rightarrow> (bool \<times> layout) option" where
  "close_active_window l =
     (let l = l\<lparr>ly_changed := True\<rparr> in
      if scratch_focused l then Some (False, l\<lparr>ly_scratch := scratch_toggle (ly_scratch l)\<rparr>)
      else if zl_len (ly_cols l) = 1 \<and> zl_len (c_wins (focused_col l)) = 1 then Some (True, l)
      else do {
        l \<leftarrow>
          (if zl_len (c_wins (focused_col l)) = 1 then do {
             (_, cols) \<leftarrow> remove_focused_unchecked (ly_cols l);
             balance_columns (l\<lparr>ly_cols := cols\<rparr>)
           } else do {
             (_, ws) \<leftarrow> remove_focused_unchecked (c_wins (focused_col l));
             balance_active_column (set_focused_wins ws l)
           });
        Some (False, layout_buffers_focus_id (v_bufid (focused_view l)) l)
      })"

definition close_active_column :: "layout \<Rightarrow> (bool \<times> layout) option" where
  "close_active_column l =
     (let l = l\<lparr>ly_changed := True\<rparr> in
      if scratch_focused l then Some (False, l\<lparr>ly_scratch := scratch_toggle (ly_scratch l)\<rparr>)
      else if zl_len (ly_cols l) = 1 then Some (True, l)
      else do {
        (_, cols) \<leftarrow> remove_focused_unchecked (ly_cols l);
        l \<leftarrow> balance_columns (l\<lparr>ly_cols := cols\<rparr>);
        Some (False, layout_buffers_focus_id (v_bufid (focused_view l)) l)
      })"

definition layout_write_output :: "nat \<Rightarrow> ustr \<Rightarrow> string \<Rightarrow> layout \<Rightarrow> layout option" where
  "layout_write_output bid s cwd l = do {
     (bid, bs) \<leftarrow> write_output_for_buffer bid s cwd (ly_buffers l);
     let l = l\<lparr>ly_buffers := bs\<rparr>;
     if \<not> buffer_is_visible bid l then show_buffer_in_new_window bid l else Some l
   }"

end
