(* ===== verification/LayoutMoves.thy ===== *)
theory LayoutMoves
  imports Layout
begin

text \<open>
  Moving in the layout (src/ui/layout.rs): focusing buffers, columns and windows, dragging
  windows, jumps, scrolling, and what the coordinates of a mouse click name.
\<close>

subsection \<open>Keeping the cursor in view\<close>

text \<open>An operation on the active view and buffer, with the size of its window.\<close>

definition with_active_view ::
  "(nat \<Rightarrow> nat \<Rightarrow> view \<Rightarrow> buffer \<Rightarrow> (view \<times> buffer) option) \<Rightarrow> layout \<Rightarrow> layout option" where
  "with_active_view f l = do {
     let l = l\<lparr>ly_changed := True\<rparr>;
     let s = ly_scratch l;
     if scratch_focused l then do {
       (v, b) \<leftarrow> f (w_n_rows (s_w s)) (ly_screen_cols l) (w_view (s_w s)) (scratch_buffer s);
       Some (l\<lparr>ly_scratch := (set_scratch_buffer b s)\<lparr>s_w := (s_w s)\<lparr>w_view := v\<rparr>\<rparr>\<rparr>)
     } else do {
       (v, b) \<leftarrow> f (w_n_rows (focused_win l)) (c_n_cols (focused_col l)) (focused_view l)
                  (bs_active (ly_buffers l));
       Some (set_focused_view v (l\<lparr>ly_buffers := bs_set_active b (ly_buffers l)\<rparr>))
     }
   }"

definition force_cursor_to_be_in_view :: "display \<Rightarrow> layout \<Rightarrow> layout option" where
  "force_cursor_to_be_in_view d l = with_active_view (view_force_cursor d) l"

definition layout_set_viewport :: "display \<Rightarrow> view_port \<Rightarrow> layout \<Rightarrow> layout option" where
  "layout_set_viewport d vp l = with_active_view (view_set_viewport d vp) l"

text \<open>A window that is not focused keeps its row offset in the lines of its buffer.\<close>

definition clamp_row_off :: "buffers \<Rightarrow> window \<Rightarrow> window option" where
  "clamp_row_off bs w = do {
     b \<leftarrow> with_id (v_bufid (w_view w)) bs;
     n \<leftarrow> len_lines (b_txt b);
     y_max \<leftarrow> usub n 1;
     Some (w\<lparr>w_view := (w_view w)\<lparr>v_row_off := min (v_row_off (w_view w)) y_max\<rparr>\<rparr>)
   }"

definition clamp_col :: "buffers \<Rightarrow> column \<Rightarrow> column option" where
  "clamp_col bs c = do { ws \<leftarrow> zl_map_opt (clamp_row_off bs) (c_wins c); Some (c\<lparr>c_wins := ws\<rparr>) }"

definition clamp_focused_col :: "buffers \<Rightarrow> column \<Rightarrow> column option" where
  "clamp_focused_col bs c = do {
     up \<leftarrow> list_map_opt (clamp_row_off bs) (rev (z_up (c_wins c)));
     down \<leftarrow> list_map_opt (clamp_row_off bs) (z_down (c_wins c));
     Some (c\<lparr>c_wins := (c_wins c)\<lparr>z_up := rev up, z_down := down\<rparr>\<rparr>)
   }"

text \<open>The scratch buffer when it is visible, the active view, and all others.\<close>

definition clamp_scratch :: "display \<Rightarrow> layout \<Rightarrow> layout option" where
  "clamp_scratch d l =
     (let s = ly_scratch l in
      if s_is_visible s then do {
        (v, b) \<leftarrow> view_clamp_scroll d (w_n_rows (s_w s)) (ly_screen_cols l) (w_view (s_w s))
                   (scratch_buffer s);
        Some (l\<lparr>ly_scratch := (set_scratch_buffer b s)\<lparr>s_w := (s_w s)\<lparr>w_view := v\<rparr>\<rparr>\<rparr>)
      } else Some l)"

definition clamp_active :: "display \<Rightarrow> layout \<Rightarrow> layout option" where
  "clamp_active d l = do {
     (v, b) \<leftarrow> view_clamp_scroll d (w_n_rows (focused_win l)) (c_n_cols (focused_col l))
                (focused_view l) (bs_active (ly_buffers l));
     Some (set_focused_view v (l\<lparr>ly_buffers := bs_set_active b (ly_buffers l)\<rparr>))
   }"

definition clamp_others :: "layout \<Rightarrow> layout option" where
  "clamp_others l = do {
     let bs = ly_buffers l;
     up \<leftarrow> list_map_opt (clamp_col bs) (rev (z_up (ly_cols l)));
     c \<leftarrow> clamp_focused_col bs (focused_col l);
     down \<leftarrow> list_map_opt (clamp_col bs) (z_down (ly_cols l));
     Some (l\<lparr>ly_cols := \<lparr>z_up = rev up, z_focus = c, z_down = down\<rparr>\<rparr>)
   }"

definition clamp_scroll :: "display \<Rightarrow> layout \<Rightarrow> layout option" where
  "clamp_scroll d l = do {
     l \<leftarrow> clamp_scratch d l;
     l \<leftarrow> clamp_active d l;
     clamp_others l
   }"

definition update_screen_size ::
  "display \<Rightarrow> (nat \<Rightarrow> nat) \<Rightarrow> (nat \<Rightarrow> nat) \<Rightarrow> nat \<Rightarrow> nat \<Rightarrow> layout \<Rightarrow> layout option" where
  "update_screen_size d scale_cols scale_rows rows cols l = do {
     let l = l\<lparr>ly_changed := True, ly_screen_rows := rows, ly_screen_cols := cols\<rparr>;
     cs \<leftarrow> scale_sizes growable_column scale_cols cols (ly_cols l);
     cs \<leftarrow> zl_map_opt (\<lambda>c. do {
             ws \<leftarrow> scale_sizes growable_window scale_rows rows (c_wins c);
             Some (c\<lparr>c_wins := ws\<rparr>)
           }) cs;
     clamp_scroll d (l\<lparr>ly_cols := cs\<rparr>)
   }"

subsection \<open>Focus\<close>

definition layout_focus_id :: "nat \<Rightarrow> bool \<Rightarrow> layout \<Rightarrow> layout" where
  "layout_focus_id bid force_active l =
     (if bid = b_id (scratch_buffer (ly_scratch l)) then
        l\<lparr>ly_scratch := (ly_scratch l)\<lparr>s_is_focused := True, s_is_visible := True\<rparr>\<rparr>
      else
        let l = touch l;
            (r, bs) = bs_focus_id bid (ly_buffers l);
            l = l\<lparr>ly_buffers := bs\<rparr>
        in case r of
             None \<Rightarrow> l
           | Some bid \<Rightarrow>
               if \<not> force_active \<and> buffer_is_visible bid l
               then focus_first_window_with_buffer bid l
               else show_buffer_in_active_window bid l)"

definition layout_focus_id_silent :: "nat \<Rightarrow> layout \<Rightarrow> layout" where
  "layout_focus_id_silent bid l = l\<lparr>ly_buffers := focus_id_silent bid (ly_buffers l)\<rparr>"

definition focus_column_for_resize :: "nat \<Rightarrow> layout \<Rightarrow> layout option" where
  "focus_column_for_resize col_idx l = do {
     rust_assert (col_idx < zl_len (ly_cols l));
     let l = touch l;
     let l = l\<lparr>ly_cols := (focus_down ^^ col_idx) (focus_head (ly_cols l))\<rparr>;
     Some (layout_focus_id_silent (v_bufid (focused_view l)) l)
   }"

definition focus_window_for_resize :: "nat \<Rightarrow> layout \<Rightarrow> layout option" where
  "focus_window_for_resize win_idx l = do {
     rust_assert (win_idx < zl_len (c_wins (focused_col l)));
     let l = touch l;
     let l = set_focused_wins ((focus_down ^^ win_idx) (focus_head (c_wins (focused_col l)))) l;
     Some (layout_focus_id_silent (v_bufid (focused_view l)) l)
   }"

definition focus_column_and_window_for_resize :: "nat \<Rightarrow> nat \<Rightarrow> layout \<Rightarrow> layout option" where
  "focus_column_and_window_for_resize col_idx win_idx l = do {
     l \<leftarrow> focus_column_for_resize col_idx l;
     focus_window_for_resize win_idx l
   }"

text \<open>The next and the previous buffer of the list, in the active window.\<close>

definition focus_next_buffer :: "layout \<Rightarrow> nat \<times> layout" where
  "focus_next_buffer l =
     (let l = touch l;
          l = l\<lparr>ly_buffers := bs_next (ly_buffers l)\<rparr>;
          bid = b_id (active_buffer l)
      in (bid, show_buffer_in_active_window bid l))"

definition focus_previous_buffer :: "layout \<Rightarrow> nat \<times> layout" where
  "focus_previous_buffer l =
     (let l = touch l;
          l = l\<lparr>ly_buffers := bs_previous (ly_buffers l)\<rparr>;
          bid = b_id (active_buffer l)
      in (bid, show_buffer_in_active_window bid l))"

definition layout_record_jump_position :: "layout \<Rightarrow> layout" where
  "layout_record_jump_position l = l\<lparr>ly_buffers := record_jump_position (ly_buffers l)\<rparr>"

text \<open>What the two jumps share: the buffer of the jump is shown, with its cursor in the centre.\<close>

definition show_jump ::
  "display \<Rightarrow> (nat \<times> nat) option \<Rightarrow> layout \<Rightarrow> (nat option \<times> layout) option" where
  "show_jump d maybe_ids l =
     (case maybe_ids of
        None \<Rightarrow> Some (None, l)
      | Some (prev_id, new_id) \<Rightarrow> do {
          let l = show_buffer_in_active_window (b_id (bs_active (ly_buffers l))) l;
          l \<leftarrow> layout_set_viewport d VpCenter l;
          Some (if new_id \<noteq> prev_id then Some new_id else None, l)
        })"

definition jump_forward :: "display \<Rightarrow> layout \<Rightarrow> (nat option \<times> layout) option" where
  "jump_forward d l =
     (case jump_list_forward (ly_buffers l) of
        (maybe_ids, bs) \<Rightarrow> show_jump d maybe_ids (l\<lparr>ly_buffers := bs\<rparr>))"

definition jump_backward :: "display \<Rightarrow> layout \<Rightarrow> (nat option \<times> layout) option" where
  "jump_backward d l = do {
     (maybe_ids, bs) \<leftarrow> jump_list_backward (ly_buffers l);
     show_jump d maybe_ids (l\<lparr>ly_buffers := bs\<rparr>)
   }"

text \<open>The moves between columns and windows, which wrap around.\<close>

definition refocus :: "display \<Rightarrow> layout \<Rightarrow> layout option" where
  "refocus d l = force_cursor_to_be_in_view d (layout_buffers_focus_id (v_bufid (focused_view l)) l)"

definition next_column :: "display \<Rightarrow> layout \<Rightarrow> layout option" where
  "next_column d l =
     (let l = touch l in refocus d (l\<lparr>ly_cols := focus_down (ly_cols l)\<rparr>))"

definition prev_column :: "display \<Rightarrow> layout \<Rightarrow> layout option" where
  "prev_column d l =
     (let l = touch l in refocus d (l\<lparr>ly_cols := focus_up (ly_cols l)\<rparr>))"

definition next_window_in_column :: "display \<Rightarrow> layout \<Rightarrow> layout option" where
  "next_window_in_column d l =
     (let l = touch l in refocus d (set_focused_wins (focus_down (c_wins (focused_col l))) l))"

definition prev_window_in_column :: "display \<Rightarrow> layout \<Rightarrow> layout option" where
  "prev_window_in_column d l =
     (let l = touch l in refocus d (set_focused_wins (focus_up (c_wins (focused_col l))) l))"

subsection \<open>Dragging windows\<close>

definition drag_up :: "layout \<Rightarrow> layout" where
  "drag_up l = (let l = touch l in set_focused_wins (swap_up (c_wins (focused_col l))) l)"

definition drag_down :: "layout \<Rightarrow> layout" where
  "drag_down l = (let l = touch l in set_focused_wins (swap_down (c_wins (focused_col l))) l)"

text \<open>The focused window leaves its column, which must have another one, and the rest is balanced.\<close>

definition pop_window :: "layout \<Rightarrow> (window \<times> layout) option" where
  "pop_window l = do {
     (w, ws) \<leftarrow> remove_focused_unchecked (c_wins (focused_col l));
     l \<leftarrow> balance_active_column (set_focused_wins ws l);
     Some (w, l)
   }"

definition insert_window :: "window \<Rightarrow> layout \<Rightarrow> layout option" where
  "insert_window w l =
     balance_active_column (set_focused_wins (zl_insert w (c_wins (focused_col l))) l)"

definition drag_left :: "layout \<Rightarrow> layout option" where
  "drag_left l =
     (let l = touch l in
      if z_up (ly_cols l) = [] \<or> zl_len (ly_cols l) = 1 then
        if zl_len (c_wins (focused_col l)) = 1 then Some l
        else do {
          (w, l) \<leftarrow> pop_window l;
          c \<leftarrow> column_new (ly_screen_rows l) (ly_screen_cols l) [v_bufid (w_view w)];
          let c = c\<lparr>c_wins := (c_wins c)\<lparr>z_focus := w\<rparr>\<rparr>;
          balance_columns (l\<lparr>ly_cols := focus_up (zl_insert_at Head c (ly_cols l))\<rparr>)
        }
      else if zl_len (c_wins (focused_col l)) = 1 then do {
        let on_left = (z_up (ly_cols l) = []);
        (c, cols) \<leftarrow> remove_focused_unchecked (ly_cols l);
        let w = z_focus (c_wins c);
        l \<leftarrow> balance_columns (l\<lparr>ly_cols := cols\<rparr>);
        l \<leftarrow> balance_active_column l;
        let l = (if \<not> on_left then l\<lparr>ly_cols := focus_up (ly_cols l)\<rparr> else l);
        insert_window w l
      }
      else do {
        (w, l) \<leftarrow> pop_window l;
        insert_window w (l\<lparr>ly_cols := focus_up (ly_cols l)\<rparr>)
      })"

definition drag_right :: "layout \<Rightarrow> layout option" where
  "drag_right l =
     (let l = touch l in
      if zl_len (ly_cols l) = 1 \<or> z_down (ly_cols l) = [] then
        if zl_len (c_wins (focused_col l)) = 1 then Some l
        else do {
          (w, l) \<leftarrow> pop_window l;
          c \<leftarrow> column_new (ly_screen_rows l) (ly_screen_cols l) [0];
          let c = c\<lparr>c_wins := (c_wins c)\<lparr>z_focus := w\<rparr>\<rparr>;
          balance_columns (l\<lparr>ly_cols := focus_down (zl_insert_at Tail c (ly_cols l))\<rparr>)
        }
      else if zl_len (c_wins (focused_col l)) = 1 then do {
        (c, cols) \<leftarrow> remove_focused_unchecked (ly_cols l);
        l \<leftarrow> insert_window (z_focus (c_wins c)) (l\<lparr>ly_cols := cols\<rparr>);
        balance_columns l
      }
      else do {
        (w, l) \<leftarrow> pop_window l;
        insert_window w (l\<lparr>ly_cols := focus_down (ly_cols l)\<rparr>)
      })"

subsection \<open>Coordinates\<close>

definition xy_offsets :: "layout \<Rightarrow> (nat \<times> nat) option" where
  "xy_offsets l =
     (if scratch_focused l then do {
        y \<leftarrow> usub (ly_screen_rows l) (w_n_rows (s_w (ly_scratch l)));
        Some (0, y + 1)
      } else
        let cols_before = z_up (ly_cols l);
            wins_above = z_up (c_wins (focused_col l))
        in Some (sum_list (map c_n_cols cols_before) + length cols_before,
                 sum_list (map w_n_rows wins_above) + length wins_above))"

definition ui_xy :: "layout \<Rightarrow> (nat \<times> nat) option" where
  "ui_xy l = do {
     (x_offset, y_offset) \<leftarrow> xy_offsets l;
     (x, y) \<leftarrow> (if scratch_focused l
               then view_ui_xy (w_view (s_w (ly_scratch l))) (scratch_buffer (ly_scratch l))
               else view_ui_xy (focused_view l) (active_buffer l));
     Some (x + x_offset, y + y_offset)
   }"

definition row_is_scratch :: "nat \<Rightarrow> layout \<Rightarrow> bool option" where
  "row_is_scratch y l =
     (if \<not> s_is_visible (ly_scratch l) then Some False
      else do {
        top \<leftarrow> usub (ly_screen_rows l) (w_n_rows (s_w (ly_scratch l)));
        Some (top + 1 < y)
      })"

datatype border = Vertical nat | Horizontal nat nat

fun border_in_wins :: "nat \<Rightarrow> nat \<Rightarrow> nat \<Rightarrow> nat \<Rightarrow> nat \<Rightarrow> window list \<Rightarrow> border option" where
  "border_in_wins y col_idx n_wins win_idx y_offset [] = None"
| "border_in_wins y col_idx n_wins win_idx y_offset (w # ws) =
     (let border_y = y_offset + w_n_rows w + 1 in
      if y = border_y \<and> win_idx < n_wins - 1 then Some (Horizontal col_idx win_idx)
      else if border_y < y then border_in_wins y col_idx n_wins (win_idx + 1) border_y ws
      else None)"

fun border_in_cols :: "nat \<Rightarrow> nat \<Rightarrow> nat \<Rightarrow> nat \<Rightarrow> nat \<Rightarrow> column list \<Rightarrow> border option" where
  "border_in_cols x y n_cols col_idx x_offset [] = None"
| "border_in_cols x y n_cols col_idx x_offset (c # cs) =
     (let border_x = x_offset + c_n_cols c + 1 in
      if x = border_x \<and> col_idx < n_cols - 1 then Some (Vertical col_idx)
      else if border_x < x then border_in_cols x y n_cols (col_idx + 1) border_x cs
      else border_in_wins y col_idx (zl_len (c_wins c)) 0 0 (col_wins c))"

definition border_at_coords :: "nat \<Rightarrow> nat \<Rightarrow> layout \<Rightarrow> border option option" where
  "border_at_coords x y l = do {
     in_scratch \<leftarrow> row_is_scratch y l;
     Some (if in_scratch then None
           else border_in_cols x y (zl_len (ly_cols l)) 0 0 (flatten (ly_cols l)))
   }"

text \<open>
  The window of a point: \<open>Inl\<close> is the row offset below the windows, with which the search goes on.
\<close>

fun win_at :: "nat \<Rightarrow> nat \<Rightarrow> window list \<Rightarrow> nat + window" where
  "win_at y y_offset [] = Inl y_offset"
| "win_at y y_offset (w # ws) =
     (if y_offset + w_n_rows w < y then win_at y (y_offset + (w_n_rows w + 1)) ws else Inr w)"

fun win_at_cols :: "nat \<Rightarrow> nat \<Rightarrow> nat \<Rightarrow> nat \<Rightarrow> column list \<Rightarrow> window option" where
  "win_at_cols x y x_offset y_offset [] = None"
| "win_at_cols x y x_offset y_offset (c # cs) =
     (if x_offset + c_n_cols c < x then win_at_cols x y (x_offset + (c_n_cols c + 1)) y_offset cs
      else (case win_at y y_offset (col_wins c) of
              Inr w \<Rightarrow> Some w
            | Inl y_offset \<Rightarrow> win_at_cols x y x_offset y_offset cs))"

definition buffer_for_screen_coords :: "nat \<Rightarrow> nat \<Rightarrow> layout \<Rightarrow> nat option" where
  "buffer_for_screen_coords x y l = do {
     in_scratch \<leftarrow> row_is_scratch y l;
     Some (if in_scratch then SCRATCH_ID
           else (case win_at_cols x y 0 0 (flatten (ly_cols l)) of
                   Some w \<Rightarrow> v_bufid (w_view w)
                 | None \<Rightarrow> b_id (active_buffer l)))
   }"

text \<open>The same search, which moves the focus as it goes.\<close>

fun focus_win_at :: "nat \<Rightarrow> nat \<Rightarrow> nat \<Rightarrow> window ziplist \<Rightarrow> (nat + nat) \<times> window ziplist" where
  "focus_win_at y 0 y_offset ws = (Inl y_offset, ws)"
| "focus_win_at y (Suc n) y_offset ws =
     (if y_offset + w_n_rows (z_focus ws) < y
      then focus_win_at y n (y_offset + (w_n_rows (z_focus ws) + 1)) (focus_down ws)
      else (Inr (v_bufid (w_view (z_focus ws))), ws))"

fun focus_col_at ::
  "nat \<Rightarrow> nat \<Rightarrow> nat \<Rightarrow> nat \<Rightarrow> nat \<Rightarrow> column ziplist \<Rightarrow> nat option \<times> column ziplist" where
  "focus_col_at x y 0 x_offset y_offset cs = (None, cs)"
| "focus_col_at x y (Suc n) x_offset y_offset cs =
     (let c = z_focus cs in
      if x_offset + c_n_cols c < x
      then focus_col_at x y n (x_offset + (c_n_cols c + 1)) y_offset (focus_down cs)
      else
        (case focus_win_at y (zl_len (c_wins c)) y_offset (focus_head (c_wins c)) of
           (r, ws) \<Rightarrow>
             let cs = cs\<lparr>z_focus := c\<lparr>c_wins := ws\<rparr>\<rparr>
             in case r of
                  Inr bid \<Rightarrow> (Some bid, cs)
                | Inl y_offset \<Rightarrow> focus_col_at x y n x_offset y_offset cs))"

definition focus_buffer_for_screen_coords :: "nat \<Rightarrow> nat \<Rightarrow> layout \<Rightarrow> (nat \<times> layout) option" where
  "focus_buffer_for_screen_coords x y l = do {
     let l = l\<lparr>ly_changed := True\<rparr>;
     in_scratch \<leftarrow> row_is_scratch y l;
     if in_scratch then Some (SCRATCH_ID, set_scratch_focused True l)
     else
       (let l = set_scratch_focused False l in
        case focus_col_at x y (zl_len (ly_cols l)) 0 0 (focus_head (ly_cols l)) of
          (Some bid, cols) \<Rightarrow> Some (bid, layout_buffers_focus_id bid (l\<lparr>ly_cols := cols\<rparr>))
        | (None, cols) \<Rightarrow>
            (let l = l\<lparr>ly_cols := cols\<rparr> in Some (b_id (active_buffer l), l)))
   }"

definition cur_from_screen_coords :: "display \<Rightarrow> nat \<Rightarrow> nat \<Rightarrow> layout \<Rightarrow> (cur \<times> layout) option" where
  "cur_from_screen_coords d x y l = do {
     (x_offset, y_offset) \<leftarrow> xy_offsets l;
     let b = active_buffer l;
     let w = (if scratch_focused l then s_w (ly_scratch l) else focused_win l);
     let row_off = v_row_off (w_view w);
     (_, w_sgncol) \<leftarrow> sign_col_dims b;
     let rx = x - 1 - x_offset - w_sgncol;
     n \<leftarrow> len_lines (b_txt b);
     let y = min (y - y_offset + row_off) n - 1;
     let w = w\<lparr>w_view := (w_view w)\<lparr>v_rx := rx\<rparr>\<rparr>;
     let b = b\<lparr>b_cached_rx := rx\<rparr>;
     let l = (if scratch_focused l then l\<lparr>ly_scratch := (ly_scratch l)\<lparr>s_w := w\<rparr>\<rparr>
              else set_focused_win w l);
     let l = set_active_buffer b l;
     x \<leftarrow> x_from_provided_rx d y rx b;
     c \<leftarrow> from_yx y x b;
     Some (cur_clamp_idx c (len_chars (b_txt b)), l)
   }"

definition try_active_cur_from_screen_coords ::
  "display \<Rightarrow> nat \<Rightarrow> nat \<Rightarrow> layout \<Rightarrow> (cur option \<times> layout) option" where
  "try_active_cur_from_screen_coords d x y l = do {
     bid \<leftarrow> buffer_for_screen_coords x y l;
     if bid = b_id (active_buffer l)
     then do { (c, l) \<leftarrow> cur_from_screen_coords d x y l; Some (Some c, l) }
     else Some (None, l)
   }"

definition focus_cur_from_screen_coords ::
  "display \<Rightarrow> nat \<Rightarrow> nat \<Rightarrow> layout \<Rightarrow> ((nat \<times> cur) \<times> layout) option" where
  "focus_cur_from_screen_coords d x y l = do {
     (bid, l) \<leftarrow> focus_buffer_for_screen_coords x y l;
     (c, l) \<leftarrow> cur_from_screen_coords d x y l;
     Some ((bid, c), l)
   }"

definition set_dot_from_screen_coords ::
  "display \<Rightarrow> nat \<Rightarrow> nat \<Rightarrow> layout \<Rightarrow> (bool \<times> layout) option" where
  "set_dot_from_screen_coords d x y l = do {
     let l = l\<lparr>ly_changed := True\<rparr>;
     let current_bufid = b_id (active_buffer l);
     (bid, l) \<leftarrow> focus_buffer_for_screen_coords x y l;
     (c, l) \<leftarrow> cur_from_screen_coords d x y l;
     let l = set_active_buffer ((active_buffer l)\<lparr>b_dot := DotCur c\<rparr>) l;
     Some (bid = current_bufid, l)
   }"

subsection \<open>Scrolling the view under the mouse\<close>

text \<open>The buffer with an identifier is changed where it is; there must be one.\<close>

definition bs_update_id ::
  "nat \<Rightarrow> (buffer \<Rightarrow> ('a \<times> buffer) option) \<Rightarrow> buffers \<Rightarrow> ('a \<times> buffers) option" where
  "bs_update_id bid f bs = do {
     b \<leftarrow> with_id bid bs;
     (r, b') \<leftarrow> f b;
     Some (r, bs\<lparr>bs_inner := zl_update_first (\<lambda>b. b_id b = bid) (\<lambda>_. b') (bs_inner bs)\<rparr>)
   }"

text \<open>
  \<open>iter_mut\<close> over columns and windows with the focus of each: the first window that contains the
  point is scrolled and the loops end. \<open>Inl\<close> is the row offset with which the search goes on.
\<close>

fun scroll_wins ::
  "(bool \<Rightarrow> window \<Rightarrow> buffers \<Rightarrow> (window \<times> buffers) option) \<Rightarrow> nat \<Rightarrow> nat \<Rightarrow>
   (bool \<times> window) list \<Rightarrow> buffers \<Rightarrow> (nat + (window list \<times> buffers)) option" where
  "scroll_wins f y y_offset [] bs = Some (Inl y_offset)"
| "scroll_wins f y y_offset ((focused, w) # ws) bs =
     (if y_offset + w_n_rows w < y then do {
        r \<leftarrow> scroll_wins f y (y_offset + (w_n_rows w + 1)) ws bs;
        Some (case r of Inl off \<Rightarrow> Inl off | Inr (ws, bs) \<Rightarrow> Inr (w # ws, bs))
      }
      else do { (w, bs) \<leftarrow> f focused w bs; Some (Inr (w # map snd ws, bs)) })"

text \<open>The elements of a zip list replaced by as many others.\<close>

definition zl_replace :: "'a ziplist \<Rightarrow> 'b list \<Rightarrow> 'b ziplist" where
  "zl_replace z xs =
     (let n = length (z_up z)
      in \<lparr>z_up = rev (take n xs), z_focus = xs ! n, z_down = drop (n + 1) xs\<rparr>)"

fun scroll_cols ::
  "(nat \<Rightarrow> bool \<Rightarrow> window \<Rightarrow> buffers \<Rightarrow> (window \<times> buffers) option) \<Rightarrow> nat \<Rightarrow> nat \<Rightarrow> nat \<Rightarrow> nat \<Rightarrow>
   (bool \<times> column) list \<Rightarrow> buffers \<Rightarrow> (nat + (column list \<times> buffers)) option" where
  "scroll_cols f x y x_offset y_offset [] bs = Some (Inl y_offset)"
| "scroll_cols f x y x_offset y_offset ((focused, c) # cs) bs =
     (let go_on = (\<lambda>x_offset y_offset. do {
            r \<leftarrow> scroll_cols f x y x_offset y_offset cs bs;
            Some (case r of Inl off \<Rightarrow> Inl off | Inr (cs, bs) \<Rightarrow> Inr (c # cs, bs))
          })
      in if x_offset + c_n_cols c < x then go_on (x_offset + (c_n_cols c + 1)) y_offset
         else do {
           r \<leftarrow> scroll_wins (\<lambda>focused_win. f (c_n_cols c) (focused \<and> focused_win)) y y_offset
                 (zl_iter (c_wins c)) bs;
           (case r of
              Inl y_offset \<Rightarrow> go_on x_offset y_offset
            | Inr (ws, bs) \<Rightarrow>
                Some (Inr (c\<lparr>c_wins := zl_replace (c_wins c) ws\<rparr> # map snd cs, bs)))
         })"

definition scroll_win ::
  "display \<Rightarrow> bool \<Rightarrow> nat \<Rightarrow> nat \<Rightarrow> bool \<Rightarrow> window \<Rightarrow> buffers \<Rightarrow> (window \<times> buffers) option" where
  "scroll_win d up scroll_rows n_cols focused w bs =
     bs_update_id (v_bufid (w_view w)) (apply_scroll d n_cols focused up scroll_rows w) bs"

definition scroll_view :: "display \<Rightarrow> nat \<Rightarrow> nat \<Rightarrow> bool \<Rightarrow> nat \<Rightarrow> layout \<Rightarrow> layout option" where
  "scroll_view d x y up scroll_rows l = do {
     let l = l\<lparr>ly_changed := True\<rparr>;
     in_scratch \<leftarrow> row_is_scratch y l;
     if in_scratch then do {
       let s = ly_scratch l;
       (w, b) \<leftarrow> apply_scroll d (ly_screen_cols l) (s_is_focused s) up scroll_rows (s_w s)
                  (scratch_buffer s);
       Some (l\<lparr>ly_scratch := (set_scratch_buffer b s)\<lparr>s_w := w\<rparr>\<rparr>)
     }
     else do {
       r \<leftarrow> scroll_cols (scroll_win d up scroll_rows) x y 0 0 (zl_iter (ly_cols l)) (ly_buffers l);
       (case r of
          Inr (cs, bs) \<Rightarrow> Some (l\<lparr>ly_cols := zl_replace (ly_cols l) cs, ly_buffers := bs\<rparr>)
        | Inl _ \<Rightarrow> do {
            (w, bs) \<leftarrow> scroll_win d up scroll_rows (c_n_cols (focused_col l)) True (focused_win l)
                        (ly_buffers l);
            Some (set_focused_win w (l\<lparr>ly_buffers := bs\<rparr>))
          })
     }
   }"

subsection \<open>Input filters\<close>

text \<open>The paired filter sends on the same channel; what each of the two sends is kept apart here.\<close>

definition paired_tag_filter :: "input_filter \<Rightarrow> input_filter" where
  "paired_tag_filter f = \<lparr>f_tx = [], f_is_scratch = True\<rparr>"

definition set_main_filter :: "input_filter option \<Rightarrow> layout \<Rightarrow> layout" where
  "set_main_filter f l =
     (let s = ly_scratch l
      in l\<lparr>ly_scratch := s\<lparr>s_b := (s_b s)\<lparr>sb_main := (sb_main (s_b s))\<lparr>b_input_filter := f\<rparr>\<rparr>\<rparr>\<rparr>)"

definition set_filter_of :: "nat \<Rightarrow> input_filter option \<Rightarrow> layout \<Rightarrow> layout" where
  "set_filter_of bid f l =
     (let bs = ly_buffers l
      in l\<lparr>ly_buffers := bs\<lparr>bs_inner := zl_update_first (\<lambda>b. b_id b = bid)
             (\<lambda>b. b\<lparr>b_input_filter := f\<rparr>) (bs_inner bs)\<rparr>\<rparr>)"

definition try_set_input_filter :: "nat \<Rightarrow> input_filter \<Rightarrow> layout \<Rightarrow> bool \<times> layout" where
  "try_set_input_filter bid f l =
     (case with_id bid (ly_buffers l) of
        None \<Rightarrow> (False, l)
      | Some b \<Rightarrow>
          if b_input_filter b \<noteq> None then (False, l)
          else (True, set_main_filter (Some (paired_tag_filter f)) (set_filter_of bid (Some f) l)))"

definition clear_input_filter :: "nat \<Rightarrow> layout \<Rightarrow> layout" where
  "clear_input_filter bid l =
     set_main_filter None (if with_id bid (ly_buffers l) \<noteq> None then set_filter_of bid None l else l)"

end
