(* ===== verification/LayoutLemmas.thy ===== *)
theory LayoutLemmas
  imports LayoutMoves BuffersProperties
begin

text \<open>
  The layout as a list of columns, each a list of windows: the buffers that are shown, the widths
  of the columns, and what the operations of src/ui/layout.rs do to them.
\<close>

subsection \<open>Zip lists element by element\<close>

lemma zl_map_enumerate_list:
  "zl_list (zl_map_enumerate f z) = map (\<lambda>(i, x). f i x) (enumerate 0 (zl_list z))"
  by (simp add: zl_map_enumerate_def zl_list_def Let_def enumerate_append_eq)

lemma zl_map_enumerate_map:
  "(\<And>i x. g (f i x) = h x) \<Longrightarrow> map g (zl_list (zl_map_enumerate f z)) = map h (zl_list z)"
proof -
  assume g: "\<And>i x. g (f i x) = h x"
  have "map (\<lambda>x. h (snd x)) (enumerate n xs) = map h xs" for n xs by (induction xs arbitrary: n) auto
  then show ?thesis by (simp add: zl_map_enumerate_list case_prod_unfold comp_def g)
qed

lemma zl_map_enumerate_len [simp]: "zl_len (zl_map_enumerate f z) = zl_len z"
  by (simp add: zl_len_eq zl_map_enumerate_list)

lemma zl_map_enumerate_focus: "z_focus (zl_map_enumerate f z) = f (length (z_up z)) (z_focus z)"
  by (simp add: zl_map_enumerate_def Let_def)

lemma list_map_opt_map:
  "list_map_opt f xs = Some ys \<Longrightarrow> (\<And>x y. x \<in> set xs \<Longrightarrow> f x = Some y \<Longrightarrow> g y = h x) \<Longrightarrow> map g ys = map h xs"
  by (induction xs arbitrary: ys) (auto simp: bind_eq_Some_conv)

lemma list_map_opt_set:
  "list_map_opt f xs = Some ys \<Longrightarrow> y \<in> set ys \<Longrightarrow> \<exists>x \<in> set xs. f x = Some y"
  by (induction xs arbitrary: ys) (auto simp: bind_eq_Some_conv)

lemma zl_map_opt_list:
  "zl_map_opt f z = Some z' \<Longrightarrow> list_map_opt f (zl_list z) = Some (zl_list z') \<and> f (z_focus z) = Some (z_focus z')"
proof -
  have app: "list_map_opt f (xs @ ys) =
      do { us \<leftarrow> list_map_opt f xs; vs \<leftarrow> list_map_opt f ys; Some (us @ vs) }" for xs ys
    by (induction xs) (auto split: bind_splits)
  show "zl_map_opt f z = Some z' \<Longrightarrow> ?thesis"
    by (auto simp: zl_map_opt_def zl_list_def app bind_eq_Some_conv)
qed

lemma zl_filter_unchecked_list:
  "zl_filter_unchecked P z = Some z' \<Longrightarrow> zl_list z' = filter P (zl_list z)"
  by (auto simp: zl_filter_unchecked_def remove_focused_unchecked_def pop_next_def pop_front_def Let_def
      zl_list_def simp flip: rev_filter split: if_splits list.splits option.splits prod.splits)

lemma zl_filter_unchecked_some: "\<exists>x \<in> set (zl_list z). P x \<Longrightarrow> \<exists>z'. zl_filter_unchecked P z = Some z'"
  by (auto simp: zl_filter_unchecked_def remove_focused_unchecked_def pop_next_def pop_front_def Let_def
      zl_list_def filter_empty_conv split: if_splits list.splits)

lemma remove_focused_unchecked_list:
  "remove_focused_unchecked z = Some (x, z') \<Longrightarrow>
     x = z_focus z \<and> mset (zl_list z) = add_mset x (mset (zl_list z')) \<and> zl_len z = zl_len z' + 1"
  by (auto simp: remove_focused_unchecked_def pop_next_def pop_front_def zl_list_def zl_len_def
      split: list.splits option.splits prod.splits)

lemma remove_focused_unchecked_some: "zl_len z \<noteq> 1 \<Longrightarrow> \<exists>z'. remove_focused_unchecked z = Some (z_focus z, z')"
  by (auto simp: remove_focused_unchecked_def pop_next_def pop_front_def zl_len_def split: list.splits)

lemma last_mut_list:
  "(\<And>x. g (f x) = g x) \<Longrightarrow> map g (zl_list (last_mut f z)) = map g (zl_list z)"
  by (cases "z_down z" rule: rev_cases) (auto simp: last_mut_def zl_list_def)

lemma last_mut_single: "zl_list z = [x] \<Longrightarrow> zl_list (last_mut f z) = [f x]"
  by (auto simp: last_mut_def zl_list_def append_eq_Cons_conv)

lemma swap_mset [simp]: "mset (zl_list (swap_up z)) = mset (zl_list z)" "mset (zl_list (swap_down z)) = mset (zl_list z)"
proof -
  have m: "mset (zl_list w) = add_mset (z_focus w) (mset (zl_others w))" for w :: "'a ziplist"
    by (simp add: zl_list_def zl_others_def)
  show "mset (zl_list (swap_up z)) = mset (zl_list z)" "mset (zl_list (swap_down z)) = mset (zl_list z)"
    unfolding m by (simp_all add: swap_others)
qed

lemma swap_set [simp]: "set (zl_list (swap_up z)) = set (zl_list z)" "set (zl_list (swap_down z)) = set (zl_list z)"
  by (metis set_mset_mset swap_mset)+

subsection \<open>Sizes\<close>

lemma calculate_dims_eq:
  "calculate_dims t n = (if n = 0 \<or> t + 1 < n then None else Some ((t + 1) div n - 1, (t + 1) mod n))"
proof (cases "n = 0 \<or> t + 1 < n")
  case True
  then show ?thesis by (auto simp: calculate_dims_def usub_def)
next
  case False
  then have d: "1 \<le> (t + 1) div n" by (simp add: div_greater_zero_iff Suc_le_eq)
  then have "n * ((t + 1) div n - 1 + 1) = n * ((t + 1) div n)" by simp
  moreover have "n * ((t + 1) div n) \<le> t + 1" "t + 1 - n * ((t + 1) div n) = (t + 1) mod n"
    by (simp_all add: minus_mult_div_eq_mod)
  ultimately show ?thesis using False d by (simp add: calculate_dims_def usub_def)
qed

lemma calculate_dims_sum:
  "calculate_dims t n = Some (sz, slop) \<Longrightarrow> n * sz + n + slop = t + 1 \<and> slop < n"
proof -
  assume c: "calculate_dims t n = Some (sz, slop)"
  then have n: "0 < n" "n \<le> t + 1" by (auto simp: calculate_dims_eq split: if_splits)
  then have "1 \<le> (t + 1) div n" by (simp add: div_greater_zero_iff Suc_le_eq)
  then have "n * sz + n = n * ((t + 1) div n)"
    using c n by (auto simp: calculate_dims_eq diff_mult_distrib2)
  then show ?thesis using c n by (auto simp: calculate_dims_eq)
qed

lemma sum_slop:
  "sum_list (map (\<lambda>(i, x). if i < k then Suc n else n) (enumerate j xs)) =
     n * length xs + (min k (j + length xs) - min k j)"
  by (induction xs arbitrary: j) auto

text \<open>The blocks of a balanced list and the separators between them fill the space.\<close>

definition fills :: "('a \<Rightarrow> nat) \<Rightarrow> nat \<Rightarrow> 'a ziplist \<Rightarrow> bool" where
  "fills g t z \<longleftrightarrow> sum_list (map g (zl_list z)) + zl_len z = t + 1"

lemma balanced_fills:
  assumes "calculate_dims t (zl_len z) = Some (sz, slop)"
    and "\<And>i x. g (f i x) = (if i < slop then Suc sz else sz)"
  shows "fills g t (zl_map_enumerate f z)"
proof -
  have "map g (zl_list (zl_map_enumerate f z)) =
      map (\<lambda>(i, x). if i < slop then Suc sz else sz) (enumerate 0 (zl_list z))"
    by (auto simp: zl_map_enumerate_list assms(2))
  then show ?thesis
    using calculate_dims_sum[OF assms(1)] sum_slop[of slop sz 0 "zl_list z"]
    by (simp add: fills_def mult.commute flip: zl_len_eq)
qed

subsection \<open>What a layout shows\<close>

abbreviation win_id :: "window \<Rightarrow> nat" where
  "win_id w \<equiv> v_bufid (w_view w)"

definition wins_show :: "window ziplist \<Rightarrow> nat set" where
  "wins_show ws = win_id ` set (zl_list ws)"

definition shown :: "layout \<Rightarrow> nat set" where
  "shown l = (\<Union>c \<in> set (zl_list (ly_cols l)). wins_show (c_wins c))"

definition known :: "layout \<Rightarrow> nat set" where
  "known l = set (bs_ids (ly_buffers l))"

text \<open>The windows show open buffers, and the columns fill the width of the screen.\<close>

definition layout_ok :: "layout \<Rightarrow> bool" where
  "layout_ok l \<longleftrightarrow> bs_ok (ly_buffers l) \<and> shown l \<subseteq> known l \<and>
     fills c_n_cols (ly_screen_cols l) (ly_cols l)"

lemma col_wins_eq [simp]: "col_wins c = zl_list (c_wins c)"
  by (simp add: col_wins_def zl_simps)

lemma focused_shown [simp]: "v_bufid (focused_view l) \<in> shown l"
  by (auto simp: shown_def wins_show_def focused_view_def focused_win_def focused_col_def
      intro!: bexI[of _ "z_focus (ly_cols l)"])

lemma shown_set_focused_wins:
  "shown (set_focused_wins ws l) \<subseteq> wins_show ws \<union> shown l"
  by (auto simp: shown_def set_focused_wins_def set_focused_col_def zl_list_def)

lemma shown_focused_wins: "wins_show (c_wins (focused_col l)) \<subseteq> shown l"
  unfolding shown_def focused_col_def by (rule SUP_upper) simp

lemma set_focused_simps [simp]:
  "ly_buffers (set_focused_wins ws l) = ly_buffers l" "ly_screen_cols (set_focused_wins ws l) = ly_screen_cols l"
  "ly_screen_rows (set_focused_wins ws l) = ly_screen_rows l" "ly_views (set_focused_wins ws l) = ly_views l"
  "zl_len (ly_cols (set_focused_wins ws l)) = zl_len (ly_cols l)"
  "c_wins (focused_col (set_focused_wins ws l)) = ws"
  "ly_scratch (set_focused_wins ws l) = ly_scratch l"
  by (simp_all add: set_focused_wins_def set_focused_col_def zl_len_def focused_col_def)

lemma fills_set_focused_wins [simp]:
  "fills c_n_cols t (ly_cols (set_focused_wins ws l)) \<longleftrightarrow> fills c_n_cols t (ly_cols l)"
  by (simp add: fills_def set_focused_wins_def set_focused_col_def focused_col_def zl_set_focus_map zl_len_def)

lemma set_focused_view_simps [simp]:
  "ly_buffers (set_focused_view v l) = ly_buffers l" "ly_screen_cols (set_focused_view v l) = ly_screen_cols l"
  "ly_views (set_focused_view v l) = ly_views l" "focused_view (set_focused_view v l) = v"
  "fills c_n_cols t (ly_cols (set_focused_view v l)) \<longleftrightarrow> fills c_n_cols t (ly_cols l)"
  by (simp_all add: set_focused_view_def set_focused_win_def focused_view_def focused_win_def)

lemma shown_set_focused_view: "shown (set_focused_view v l) \<subseteq> insert (v_bufid v) (shown l)"
proof -
  have "wins_show ((c_wins (focused_col l))\<lparr>z_focus := (focused_win l)\<lparr>w_view := v\<rparr>\<rparr>)
      \<subseteq> insert (v_bufid v) (wins_show (c_wins (focused_col l)))"
    by (auto simp: wins_show_def zl_list_def)
  then show ?thesis
    using shown_set_focused_wins shown_focused_wins
    unfolding set_focused_view_def set_focused_win_def by fastforce
qed

lemma touch_simps [simp]:
  "ly_buffers (touch l) = ly_buffers l" "ly_cols (touch l) = ly_cols l" "ly_views (touch l) = ly_views l"
  "ly_screen_cols (touch l) = ly_screen_cols l" "ly_screen_rows (touch l) = ly_screen_rows l"
  "scratch_focused (touch l) = False" "shown (touch l) = shown l" "known (touch l) = known l"
  "focused_view (touch l) = focused_view l" "focused_col (touch l) = focused_col l"
  by (simp_all add: touch_def set_scratch_focused_def scratch_focused_def shown_def known_def
      focused_view_def focused_win_def focused_col_def)

lemma shown_cong: "ly_cols l' = ly_cols l \<Longrightarrow> shown l' = shown l"
  by (simp add: shown_def)

lemma known_cong: "ly_buffers l' = ly_buffers l \<Longrightarrow> known l' = known l"
  by (simp add: known_def)

lemma layout_ok_touch [simp]: "layout_ok (touch l) \<longleftrightarrow> layout_ok l"
  by (simp add: layout_ok_def)

lemma layout_okI:
  "bs_ok (ly_buffers l') \<Longrightarrow> shown l' \<subseteq> known l' \<Longrightarrow> fills c_n_cols (ly_screen_cols l') (ly_cols l') \<Longrightarrow>
   layout_ok l'"
  by (simp add: layout_ok_def)

end
