(* ===== verification/LayoutInvariant.thy ===== *)
theory LayoutInvariant
  imports LayoutLemmas
begin

text \<open>
  What the operations of src/ui/layout.rs keep: windows show open buffers, columns fill the
  screen, and the focused window shows the active buffer.
\<close>

subsection \<open>Balancing and adding windows\<close>

lemma wins_show_alt: "wins_show ws = set (map win_id (zl_list ws))"
  by (simp add: wins_show_def)

lemma shown_alt: "shown l = (\<Union>ws \<in> set (map c_wins (zl_list (ly_cols l))). wins_show ws)"
  by (simp add: shown_def)

lemma balance_columns_eq:
  assumes "balance_columns l = Some l'"
  shows "ly_buffers l' = ly_buffers l" "ly_views l' = ly_views l" "shown l' = shown l"
    "fills c_n_cols (ly_screen_cols l') (ly_cols l')" "focused_view l' = focused_view l"
    "ly_scratch l' = ly_scratch l" "c_wins (focused_col l') = c_wins (focused_col l)"
proof -
  obtain sz slop where d: "calculate_dims (ly_screen_cols l) (zl_len (ly_cols l)) = Some (sz, slop)"
    using assms by (auto simp: balance_columns_def bind_eq_Some_conv)
  define f where "f = (\<lambda>i c. let c = c\<lparr>c_n_cols := sz\<rparr> in
              if i < slop then c\<lparr>c_n_cols := c_n_cols c + 1\<rparr> else (c :: column))"
  have l': "l' = l\<lparr>ly_changed := True, ly_cols := zl_map_enumerate f (ly_cols l)\<rparr>"
    using assms d by (simp add: balance_columns_def f_def)
  have cols: "ly_cols l' = zl_map_enumerate f (ly_cols l)" "ly_screen_cols l' = ly_screen_cols l"
    by (simp_all add: l')
  have wins: "c_wins (f i c) = c_wins c" for i c by (simp add: f_def Let_def)
  show "ly_buffers l' = ly_buffers l" "ly_views l' = ly_views l" "ly_scratch l' = ly_scratch l"
    by (simp_all add: l')
  show "shown l' = shown l"
    unfolding shown_alt cols by (simp only: zl_map_enumerate_map[of c_wins f c_wins, OF wins])
  show "fills c_n_cols (ly_screen_cols l') (ly_cols l')"
    unfolding cols by (rule balanced_fills[OF d]) (simp add: f_def)
  show "focused_view l' = focused_view l" "c_wins (focused_col l') = c_wins (focused_col l)"
    by (simp_all add: l' focused_view_def focused_win_def focused_col_def zl_map_enumerate_focus wins)
qed

lemma col_balance_windows_eq:
  assumes "col_balance_windows rows c = Some c'"
  shows "c_n_cols c' = c_n_cols c" "wins_show (c_wins c') = wins_show (c_wins c)"
    "w_view (z_focus (c_wins c')) = w_view (z_focus (c_wins c))" "fills w_n_rows rows (c_wins c')"
    "zl_len (c_wins c') = zl_len (c_wins c)"
proof -
  obtain sz slop where d: "calculate_dims rows (zl_len (c_wins c)) = Some (sz, slop)"
    using assms by (auto simp: col_balance_windows_def bind_eq_Some_conv)
  define f where "f = (\<lambda>i w. let w = w\<lparr>w_n_rows := sz\<rparr> in
              if i < slop then w\<lparr>w_n_rows := w_n_rows w + 1\<rparr> else (w :: window))"
  have c': "c' = c\<lparr>c_wins := zl_map_enumerate f (c_wins c)\<rparr>"
    using assms d by (simp add: col_balance_windows_def f_def)
  have ws: "c_wins c' = zl_map_enumerate f (c_wins c)" by (simp add: c')
  have view: "w_view (f i w) = w_view w" for i w by (simp add: f_def Let_def)
  have "map win_id (zl_list (zl_map_enumerate f (c_wins c))) = map win_id (zl_list (c_wins c))"
    by (rule zl_map_enumerate_map) (simp add: view)
  then show "wins_show (c_wins c') = wins_show (c_wins c)"
    by (simp only: wins_show_alt ws)
  show "fills w_n_rows rows (c_wins c')"
    unfolding ws by (rule balanced_fills[OF d]) (simp add: f_def)
  show "c_n_cols c' = c_n_cols c" "zl_len (c_wins c') = zl_len (c_wins c)"
    "w_view (z_focus (c_wins c')) = w_view (z_focus (c_wins c))"
    by (simp_all add: c' zl_map_enumerate_focus view)
qed

lemma balance_active_column_eq:
  assumes "balance_active_column l = Some l'"
  shows "ly_buffers l' = ly_buffers l" "ly_views l' = ly_views l" "shown l' = shown l"
    "ly_screen_cols l' = ly_screen_cols l" "fills c_n_cols t (ly_cols l') \<longleftrightarrow> fills c_n_cols t (ly_cols l)"
    "focused_view l' = focused_view l" "ly_scratch l' = ly_scratch l"
    "fills w_n_rows (ly_screen_rows l) (c_wins (focused_col l'))"
proof -
  obtain c where c: "col_balance_windows (ly_screen_rows l) (focused_col l) = Some c"
    "l' = set_focused_col c (l\<lparr>ly_changed := True\<rparr>)"
    using assms by (auto simp: balance_active_column_def bind_eq_Some_conv focused_col_def)
  note eq = col_balance_windows_eq[OF c(1)]
  show "ly_buffers l' = ly_buffers l" "ly_views l' = ly_views l" "ly_screen_cols l' = ly_screen_cols l"
    "ly_scratch l' = ly_scratch l" "focused_view l' = focused_view l"
    "fills w_n_rows (ly_screen_rows l) (c_wins (focused_col l'))"
    using eq(3,4) by (simp_all add: c(2) set_focused_col_def focused_view_def focused_win_def focused_col_def)
  show "shown l' = shown l"
    using eq(2) by (simp add: c(2) shown_def set_focused_col_def zl_list_def focused_col_def)
  show "fills c_n_cols t (ly_cols l') \<longleftrightarrow> fills c_n_cols t (ly_cols l)"
    using eq(1) by (simp add: c(2) fills_def set_focused_col_def zl_list_def zl_len_def focused_col_def)
qed

lemma column_new_single:
  assumes "column_new rows cols [bid] = Some c"
  obtains w where "zl_list (c_wins c) = [w]" "z_focus (c_wins c) = w" "win_id w = bid" "c_n_cols c = cols"
    "w_n_rows w = rows"
proof -
  obtain sz slop where d: "calculate_dims rows 1 = Some (sz, slop)"
    using assms by (auto simp: column_new_def bind_eq_Some_conv)
  then show thesis
    using assms that by (auto simp add: column_new_def try_from_iter_def zl_map_enumerate_def zl_list_def
        window_new_def view_new_def calculate_dims_eq split: if_splits)
qed

lemma column_new_single_some: "\<exists>c. column_new rows cols [bid] = Some c"
  by (simp add: column_new_def calculate_dims_eq try_from_iter_def)

subsection \<open>Operations keep the invariant\<close>

lemma focus_same_cols:
  "layout_ok l \<Longrightarrow> zl_list cs = zl_list (ly_cols l) \<Longrightarrow> layout_ok (l\<lparr>ly_cols := cs\<rparr>)"
  by (simp add: layout_ok_def shown_def known_def fills_def zl_len_eq)

lemma layout_ok_buffers:
  "layout_ok l \<Longrightarrow> bs_ok bs \<Longrightarrow> shown l \<subseteq> set (bs_ids bs) \<Longrightarrow> layout_ok (l\<lparr>ly_buffers := bs\<rparr>)"
  by (simp add: layout_ok_def shown_def known_def)

lemma layout_ok_same_ids:
  "layout_ok l \<Longrightarrow> bs_ok bs \<Longrightarrow> bs_ids bs = bs_ids (ly_buffers l) \<Longrightarrow> layout_ok (l\<lparr>ly_buffers := bs\<rparr>)"
  by (rule layout_ok_buffers) (simp_all add: layout_ok_def known_def del: set_map)

lemma bs_focus_id_ids [simp]: "bs_list (snd (bs_focus_id i bs)) = bs_list bs"
  by (simp add: bs_focus_id_def)

lemma layout_ok_bs: "layout_ok l \<Longrightarrow> bs_ok (ly_buffers l)"
  by (simp add: layout_ok_def)

lemma layout_focus_id_ok: "layout_ok l \<Longrightarrow> layout_ok (layout_buffers_focus_id i l)"
  unfolding layout_buffers_focus_id_def
  by (rule layout_ok_same_ids) (simp_all add: bs_focus_id_ok layout_ok_bs)

lemma set_view_ok: "layout_ok l \<Longrightarrow> v_bufid v \<in> known l \<Longrightarrow> layout_ok (set_focused_view v l)"
  using shown_set_focused_view[of v l] by (auto simp: layout_ok_def known_def)

lemma set_wins_ok:
  "layout_ok l \<Longrightarrow> wins_show ws \<subseteq> known l \<Longrightarrow> layout_ok (set_focused_wins ws l)"
  using shown_set_focused_wins[of ws l] by (auto simp: layout_ok_def known_def)

lemma same_wins_ok:
  "layout_ok l \<Longrightarrow> set (zl_list ws) \<subseteq> set (zl_list (c_wins (focused_col l))) \<Longrightarrow>
   layout_ok (set_focused_wins ws l)"
  using shown_focused_wins[of l]
  by (intro set_wins_ok) (auto simp: layout_ok_def wins_show_def)

lemma take_view_simps:
  assumes "take_view bid l = (v, l')"
  shows "v_bufid v = bid" "ly_buffers l' = ly_buffers l" "ly_cols l' = ly_cols l"
    "ly_screen_cols l' = ly_screen_cols l" "ly_screen_rows l' = ly_screen_rows l"
    "focused_view l' = focused_view l" "ly_scratch l' = ly_scratch l"
  using assms
  by (auto simp: take_view_def view_new_def focused_view_def focused_win_def focused_col_def
      extract_Some_iff split: option.splits)

lemma layout_ok_cong:
  "layout_ok l \<Longrightarrow> ly_buffers l' = ly_buffers l \<Longrightarrow> ly_cols l' = ly_cols l \<Longrightarrow>
   ly_screen_cols l' = ly_screen_cols l \<Longrightarrow> layout_ok l'"
  by (simp add: layout_ok_def shown_def known_def)

lemma layout_ok_views: "layout_ok (l\<lparr>ly_views := vs\<rparr>) \<longleftrightarrow> layout_ok l"
  by (simp add: layout_ok_def shown_def known_def)

lemma take_view_ok: "layout_ok l \<Longrightarrow> layout_ok (snd (take_view bid l))"
  by (auto simp: take_view_def layout_ok_views split: option.splits)

lemma show_active_simps [simp]:
  "v_bufid (focused_view (show_buffer_in_active_window bid l)) = bid"
  "ly_buffers (show_buffer_in_active_window bid l) = ly_buffers l"
  "scratch_focused (show_buffer_in_active_window bid l) = False"
proof -
  obtain v l1 where v: "take_view bid (touch l) = (v, l1)" by fastforce
  note t = take_view_simps[OF v]
  show "v_bufid (focused_view (show_buffer_in_active_window bid l)) = bid"
    using v t by (simp add: show_buffer_in_active_window_def Let_def)
      (simp add: focused_view_def focused_win_def focused_col_def set_focused_view_def
        set_focused_win_def set_focused_wins_def set_focused_col_def)
  show "ly_buffers (show_buffer_in_active_window bid l) = ly_buffers l"
    using v t by (simp add: show_buffer_in_active_window_def Let_def)
  have "scratch_focused l1 = False" using t(7) by (simp add: scratch_focused_def touch_def set_scratch_focused_def)
  then show "scratch_focused (show_buffer_in_active_window bid l) = False"
    using v by (simp add: show_buffer_in_active_window_def Let_def)
      (simp add: scratch_focused_def set_focused_view_def set_focused_win_def set_focused_wins_def set_focused_col_def)
qed

lemma show_active_ok:
  assumes "layout_ok l" "bid \<in> known l"
  shows "layout_ok (show_buffer_in_active_window bid l)"
proof -
  obtain v l1 where v: "take_view bid (touch l) = (v, l1)" by fastforce
  note t = take_view_simps[OF v]
  have "layout_ok l1" using take_view_ok[of "touch l" bid] assms(1) v by simp
  then have "layout_ok (set_focused_view v l1)"
    by (rule set_view_ok) (use assms(2) t in \<open>simp add: known_def\<close>)
  then show "layout_ok (show_buffer_in_active_window bid l)"
    using assms v by (simp add: show_buffer_in_active_window_def layout_ok_views Let_def)
qed

text \<open>A new column at the end, and a new window at the end of a column.\<close>

lemma add_column_ok:
  assumes l: "layout_ok l" and c: "wins_show (c_wins c) \<subseteq> known l"
    and cs: "set (zl_list cs) \<subseteq> insert c (set (zl_list (ly_cols l)))"
    and bal: "balance_columns (l\<lparr>ly_cols := cs\<rparr>) = Some l'"
  shows "layout_ok l'" "known l' = known l"
proof -
  note eq = balance_columns_eq[OF bal]
  have "shown (l\<lparr>ly_cols := cs\<rparr>) \<subseteq> wins_show (c_wins c) \<union> shown l"
    using cs by (auto simp: shown_def)
  then show "layout_ok l'" "known l' = known l"
    using l c eq(1,3,4) by (auto simp: layout_ok_def known_def)
qed

lemma add_window_ok:
  assumes l: "layout_ok l" and ws: "wins_show ws \<subseteq> known l"
    and bal: "balance_active_column (set_focused_wins ws l) = Some l'"
  shows "layout_ok l'" "known l' = known l"
proof -
  have "layout_ok (set_focused_wins ws l)" using set_wins_ok[OF l ws] .
  then show "layout_ok l'" "known l' = known l"
    using balance_active_column_eq[OF bal] by (simp_all add: layout_ok_def known_def)
qed

lemma fresh_column_shows:
  "column_new rows cols [bid] = Some c \<Longrightarrow>
   wins_show (last_mut (\<lambda>w. w\<lparr>w_view := v\<rparr>) (c_wins c)) = {v_bufid v}"
  by (erule column_new_single) (simp add: wins_show_def last_mut_single)

lemma focus_tail_focus: "z_focus (focus_tail z) = last (zl_list z)"
  by (cases "z_down z" rule: rev_cases) (auto simp: focus_tail_def zl_list_def)

lemma insert_tail_shows:
  "wins_show (focus_tail (zl_insert_at Tail w ws)) = insert (win_id w) (wins_show ws)"
  by (simp add: wins_show_def zl_simps)

lemma known_focused: "layout_ok l \<Longrightarrow> v_bufid (focused_view l) \<in> known l"
  using focused_shown[of l] by (auto simp: layout_ok_def)

lemma focused_wins_known: "layout_ok l \<Longrightarrow> wins_show (c_wins (focused_col l)) \<subseteq> known l"
  using shown_focused_wins[of l] by (auto simp: layout_ok_def)

text \<open>A column of one window that shows \<open>v\<close>, at the end of the columns of \<open>l\<close>.\<close>

lemma append_column_ok:
  assumes "layout_ok l" "v_bufid v \<in> known l" "column_new rows cols [i] = Some c"
    and "balance_columns (l\<lparr>ly_cols := focus_tail (zl_insert_at Tail
           (c\<lparr>c_wins := last_mut (\<lambda>w. w\<lparr>w_view := v\<rparr>) (c_wins c)\<rparr>) (ly_cols l))\<rparr>) = Some l'"
  shows "layout_ok l'" "known l' = known l" "focused_view l' = v"
proof -
  let ?c = "c\<lparr>c_wins := last_mut (\<lambda>w. w\<lparr>w_view := v\<rparr>) (c_wins c)\<rparr>"
  have shows_v: "wins_show (c_wins ?c) \<subseteq> known l"
    using assms(2,3) by (simp add: fresh_column_shows)
  show "layout_ok l'" "known l' = known l"
    by (rule add_column_ok[OF assms(1) shows_v _ assms(4)], simp add: zl_simps subset_insertI)+
  obtain w where "zl_list (c_wins c) = [w]" using assms(3) by (rule column_new_single)
  then have "z_focus (c_wins ?c) = w\<lparr>w_view := v\<rparr>"
    by (auto simp: last_mut_def zl_list_def append_eq_Cons_conv)
  then show "focused_view l' = v"
    using balance_columns_eq(5)[OF assms(4)]
    by (simp add: focused_view_def focused_win_def focused_col_def focus_tail_focus zl_simps)
qed

lemma new_column_ok: "layout_ok l \<Longrightarrow> new_column l = Some l' \<Longrightarrow> layout_ok l'"
  by (auto simp: new_column_def Let_def bind_eq_Some_conv known_focused
      intro: append_column_ok(1)[of "touch l" "focused_view l"])

text \<open>A window that shows \<open>v\<close>, at the end of the focused column.\<close>

lemma append_window_ok:
  assumes "layout_ok l" "v_bufid v \<in> known l"
    and "balance_active_column (set_focused_wins
           (focus_tail (zl_insert_at Tail \<lparr>w_n_rows = 0, w_view = v\<rparr> (c_wins (focused_col l)))) l) = Some l'"
  shows "layout_ok l'" "known l' = known l" "focused_view l' = v"
proof -
  have "wins_show (focus_tail (zl_insert_at Tail \<lparr>w_n_rows = 0, w_view = v\<rparr> (c_wins (focused_col l)))) \<subseteq> known l"
    using focused_wins_known[OF assms(1)] assms(2) by (simp add: insert_tail_shows)
  then show "layout_ok l'" "known l' = known l"
    using add_window_ok[OF assms(1) _ assms(3)] by simp_all
  show "focused_view l' = v"
    using balance_active_column_eq(6)[OF assms(3)]
    by (simp add: focused_view_def focused_win_def focus_tail_focus zl_simps)
qed

lemma new_window_ok: "layout_ok l \<Longrightarrow> new_window l = Some l' \<Longrightarrow> layout_ok l'"
  unfolding new_window_def Let_def
  by (rule append_window_ok(1)[of "touch l" "focused_view l"]) (simp_all add: known_focused)

lemma show_new_ok:
  assumes "layout_ok l" "bid \<in> known l" "show_buffer_in_new_window bid l = Some l'"
  shows "layout_ok l'" "v_bufid (focused_view l') = bid" "b_id (bs_active (ly_buffers l')) = bid"
proof -
  obtain v l1 where v: "(if v_bufid (focused_view (touch l)) = bid then (focused_view (touch l), touch l)
      else take_view bid (touch l)) = (v, l1)" by fastforce
  have show_eq: "show_buffer_in_new_window bid l =
      do {
        l2 \<leftarrow> (if zl_len (ly_cols l1) = 1 then do {
             c \<leftarrow> column_new (ly_screen_rows l1) (ly_screen_cols l1) [bid];
             balance_columns (l1\<lparr>ly_cols := focus_tail (zl_insert_at Tail
               (c\<lparr>c_wins := last_mut (\<lambda>w. w\<lparr>w_view := v\<rparr>) (c_wins c)\<rparr>) (ly_cols l1))\<rparr>)
           } else
             (let lt = l1\<lparr>ly_cols := focus_tail (ly_cols l1)\<rparr>
              in balance_active_column (set_focused_wins
                   (focus_tail (zl_insert_at Tail \<lparr>w_n_rows = 0, w_view = v\<rparr>
                     (c_wins (focused_col lt)))) lt)));
        Some (layout_buffers_focus_id bid l2)
      }"
    by (simp only: show_buffer_in_new_window_def Let_def v prod.case)
  have l1: "layout_ok l1" "v_bufid v = bid" "known l1 = known l"
    using assms(1) v take_view_simps[of bid "touch l" v l1] take_view_ok[of "touch l" bid]
    by (auto simp: known_def split: if_splits)
  have tail: "layout_ok (l1\<lparr>ly_cols := focus_tail (ly_cols l1)\<rparr>)"
    by (rule focus_same_cols[OF l1(1)]) (simp add: zl_simps)
  obtain l2 where l2: "layout_ok l2" "known l2 = known l" "focused_view l2 = v"
    "l' = layout_buffers_focus_id bid l2"
  proof (cases "zl_len (ly_cols l1) = 1")
    case True
    have v_known: "v_bufid v \<in> known l1" using l1(2,3) assms(2) by simp
    obtain c l2 where c: "column_new (ly_screen_rows l1) (ly_screen_cols l1) [bid] = Some c"
      "balance_columns (l1\<lparr>ly_cols := focus_tail (zl_insert_at Tail
               (c\<lparr>c_wins := last_mut (\<lambda>w. w\<lparr>w_view := v\<rparr>) (c_wins c)\<rparr>) (ly_cols l1))\<rparr>) = Some l2"
      "l' = layout_buffers_focus_id bid l2"
      using assms(3) True by (auto simp: show_eq bind_eq_Some_conv)
    show thesis using append_column_ok[OF l1(1) v_known c(1,2)] l1(3) c(3) by (intro that) simp_all
  next
    case False
    then show thesis
      using assms(3) that append_window_ok[OF tail, of v] l1(2,3) assms(2)
      by (auto simp: show_eq Let_def bind_eq_Some_conv known_def)
  qed
  show "layout_ok l'" "v_bufid (focused_view l') = bid"
    using l2 l1(2) layout_focus_id_ok[OF l2(1)]
    by (simp_all add: layout_buffers_focus_id_def focused_view_def focused_win_def focused_col_def)
  show "b_id (bs_active (ly_buffers l')) = bid"
    using l2(2,4) assms(2) focus_by_id_active[of bid]
    by (auto simp: layout_buffers_focus_id_def bs_focus_id_def contains_bufid_iff known_def)
qed

subsection \<open>Focusing the window of a buffer\<close>

lemma focus_loop_mut_eq:
  assumes "\<And>x. \<not> fst (f x) \<Longrightarrow> snd (f x) = x"
  shows "focus_loop_mut f n z =
    (case focus_loop (\<lambda>x. fst (f x)) n z of
       (hit, z') \<Rightarrow> (hit, if hit then z'\<lparr>z_focus := snd (f (z_focus z'))\<rparr> else z'))"
proof (induction n arbitrary: z)
  case (Suc n)
  show ?case using Suc assms[of "z_focus z"] by (auto simp: case_prod_unfold Let_def)
qed simp

lemma focus_element_by_mut_eq:
  assumes "\<And>x. \<not> fst (f x) \<Longrightarrow> snd (f x) = x"
  shows "focus_element_by_mut f z =
    (case focus_element_by (\<lambda>x. fst (f x)) z of
       (hit, z') \<Rightarrow> (hit, if hit then z'\<lparr>z_focus := snd (f (z_focus z'))\<rparr> else z'))"
  by (simp add: focus_element_by_mut_def focus_element_by_def focus_loop_mut_eq[OF assms])

lemma focus_window_in_eq:
  "focus_window_in bid c =
     (bid \<in> wins_show (c_wins c), c\<lparr>c_wins := snd (focus_element_by (shows_buffer bid) (c_wins c))\<rparr>)"
  "bid \<notin> wins_show (c_wins c) \<Longrightarrow> snd (focus_window_in bid c) = c"
proof -
  obtain hit ws where f: "focus_element_by (shows_buffer bid) (c_wins c) = (hit, ws)" by fastforce
  have hit: "hit \<longleftrightarrow> bid \<in> wins_show (c_wins c)"
    using focus_element_by_eq(2)[OF f] by (auto simp: wins_show_def shows_buffer_def)
  show eq: "focus_window_in bid c =
     (bid \<in> wins_show (c_wins c), c\<lparr>c_wins := snd (focus_element_by (shows_buffer bid) (c_wins c))\<rparr>)"
    using f hit by (auto simp: focus_window_in_def focus_element_by_mut_eq)
  show "bid \<notin> wins_show (c_wins c) \<Longrightarrow> snd (focus_window_in bid c) = c"
    using focus_element_by_eq(4)[OF f] hit f eq by simp
qed

lemma focus_first_ok:
  assumes "layout_ok l"
  shows "layout_ok (focus_first_window_with_buffer bid l)"
    "bid \<in> shown l \<Longrightarrow> v_bufid (focused_view (focus_first_window_with_buffer bid l)) = bid"
    "ly_buffers (focus_first_window_with_buffer bid l) = ly_buffers l"
    "scratch_focused (focus_first_window_with_buffer bid l) = False"
proof -
  define P where "P = (\<lambda>c :: column. bid \<in> wins_show (c_wins c))"
  obtain hit z where f: "focus_element_by P (ly_cols l) = (hit, z)" by fastforce
  note found = focus_element_by_eq[OF f]
  define c' where "c' = snd (focus_window_in bid (z_focus z))"
  have c': "c_n_cols c' = c_n_cols (z_focus z)" "wins_show (c_wins c') = wins_show (c_wins (z_focus z))"
    by (simp_all add: c'_def focus_window_in_eq(1) wins_show_def zl_simps)
  have cols: "ly_cols (focus_first_window_with_buffer bid l) = (if hit then z\<lparr>z_focus := c'\<rparr> else z)"
  proof -
    have "(\<lambda>c. fst (focus_window_in bid c)) = P" by (simp add: P_def fun_eq_iff focus_window_in_eq(1))
    then show ?thesis
      using f focus_element_by_mut_eq[of "focus_window_in bid" "ly_cols l"] focus_window_in_eq
      by (simp add: focus_first_window_with_buffer_def Let_def set_scratch_focused_def c'_def)
  qed
  have "map (\<lambda>c. (c_n_cols c, wins_show (c_wins c))) (zl_list (ly_cols (focus_first_window_with_buffer bid l))) =
      map (\<lambda>c. (c_n_cols c, wins_show (c_wins c))) (zl_list (ly_cols l))"
    using zl_set_focus_map[of "\<lambda>c. (c_n_cols c, wins_show (c_wins c))" c' z] c' found(1)
    by (simp add: cols)
  from arg_cong[OF this, of "map fst"] arg_cong[OF this, of "map snd"]
  have same: "map c_n_cols (zl_list (ly_cols (focus_first_window_with_buffer bid l))) =
      map c_n_cols (zl_list (ly_cols l))"
    "map (\<lambda>c. wins_show (c_wins c)) (zl_list (ly_cols (focus_first_window_with_buffer bid l))) =
      map (\<lambda>c. wins_show (c_wins c)) (zl_list (ly_cols l))"
    by (simp_all add: comp_def)
  have len: "zl_len (ly_cols (focus_first_window_with_buffer bid l)) = zl_len (ly_cols l)"
    using arg_cong[OF same(1), of length] by (simp only: zl_len_eq length_map)
  have rest: "ly_buffers (focus_first_window_with_buffer bid l) = ly_buffers l"
    "ly_screen_cols (focus_first_window_with_buffer bid l) = ly_screen_cols l"
    by (simp_all add: focus_first_window_with_buffer_def set_scratch_focused_def)
  have "shown (focus_first_window_with_buffer bid l) = shown l"
    using arg_cong[OF same(2), of set] by (simp add: shown_def flip: set_map)
  then show "layout_ok (focus_first_window_with_buffer bid l)"
    using assms rest same(1) len by (simp add: layout_ok_def known_def fills_def)
  show "ly_buffers (focus_first_window_with_buffer bid l) = ly_buffers l" by (fact rest(1))
  show "scratch_focused (focus_first_window_with_buffer bid l) = False"
    by (simp add: focus_first_window_with_buffer_def set_scratch_focused_def scratch_focused_def Let_def)
  assume "bid \<in> shown l"
  then have hit: "hit" "P (z_focus z)" using found(2,3) by (auto simp: shown_def P_def)
  then obtain w where w: "w \<in> set (zl_list (c_wins (z_focus z)))" "shows_buffer bid w"
    by (auto simp: P_def wins_show_def shows_buffer_def)
  then show "v_bufid (focused_view (focus_first_window_with_buffer bid l)) = bid"
    using focus_element_by_finds(2)[of w _ "shows_buffer bid", OF w] hit(1)
    by (simp add: focused_view_def focused_win_def focused_col_def cols c'_def focus_window_in_eq(1)
        shows_buffer_def)
qed

lemma buffer_is_visible_iff [simp]: "buffer_is_visible bid l \<longleftrightarrow> bid \<in> shown l"
  by (auto simp: buffer_is_visible_def list_ex_iff shown_def wins_show_def zl_simps)

text \<open>The focused window shows the active buffer.\<close>

definition synced :: "layout \<Rightarrow> bool" where
  "synced l \<longleftrightarrow> v_bufid (focused_view l) = b_id (bs_active (ly_buffers l))"

lemma show_opened_ok:
  assumes "layout_ok l" "bid \<in> known l" "show_opened bid in_new l = Some l'"
    and "bid = b_id (bs_active (ly_buffers l))"
  shows "layout_ok l'" "synced l'"
  using assms focus_first_ok[OF assms(1), of bid] show_active_ok[OF assms(1,2)]
    show_new_ok[OF assms(1,2)]
  by (auto simp: show_opened_def synced_def split: if_splits)

subsection \<open>Opening and closing buffers\<close>

lemma active_known: "b_id (bs_active (ly_buffers l)) \<in> known l"
  by (simp add: known_def)

text \<open>
  Opening a file keeps the identifiers of the open buffers, except that the empty first buffer
  makes way for the new one when nothing else can show it.
\<close>

lemma open_or_focus_ids:
  assumes ok: "bs_ok bs" and open_it: "open_or_focus alnum d fs p retain bs = Some (r, bs')"
    and keep: "retain \<or> is_empty_squirrel bs = Some False \<or> r = Inl e"
  shows "set (bs_ids bs) \<subseteq> set (bs_ids bs')"
proof (cases "canonical_or_given fs p")
  case (Inr path)
  show ?thesis
  proof (cases "kind_is_dir (b_kind (bs_active bs)) \<and> fs_is_dir fs path")
    case True
    then obtain b where b: "bs' = bs_set_active b bs" "b_id b = b_id (bs_active bs)"
      using open_it Inr by (auto simp: open_or_focus_def bind_eq_Some_conv dest!: set_dot_start_id reload_id)
    show ?thesis unfolding b(1) bs_set_active_ids[OF b(2)] by simp
  next
    case no_dir: False
    show ?thesis
    proof (cases "with_path path bs")
      case (Some b)
      then show ?thesis using open_it Inr no_dir by (auto simp: open_or_focus_def)
    next
      case None
      have sq: "is_empty_squirrel (bs\<lparr>bs_next_id := n\<rparr>) = is_empty_squirrel bs" for n
        by (simp add: is_empty_squirrel_def bs_active_def bs_len_def)
      obtain r' where r': "new_from_file fs (bs_next_id bs) path = Some r'"
        using open_it Inr no_dir None by (auto simp: open_or_focus_def Let_def bind_eq_Some_conv)
      show ?thesis
        using open_it Inr no_dir None r' keep
        by (cases r') (auto simp: open_or_focus_def Let_def bind_eq_Some_conv sq bs_push_buffer_def
            split: if_splits)
    qed
  qed
qed (use open_it in \<open>auto simp: open_or_focus_def\<close>)

lemma sum_list_one: "(\<And>x. x \<in> set xs \<Longrightarrow> 1 \<le> f x) \<Longrightarrow> sum_list (map f xs) \<le> 1 \<Longrightarrow> xs \<noteq> [] \<Longrightarrow>
    \<exists>x. xs = [x] \<and> f x = (1 :: nat)"
proof (cases xs)
  case (Cons x ys)
  assume f: "\<And>x. x \<in> set xs \<Longrightarrow> 1 \<le> f x" and s: "sum_list (map f xs) \<le> 1"
  have "ys = []"
  proof (rule ccontr)
    assume "ys \<noteq> []"
    then obtain y zs where "ys = y # zs" by (cases ys) auto
    then show False using f[of x] f[of y] s Cons by simp
  qed
  then show ?thesis using Cons f[of x] s by simp
qed simp

lemma one_window:
  assumes "n_open_windows l \<le> 1"
  obtains c w where "zl_list (ly_cols l) = [c]" "zl_list (c_wins c) = [w]" "focused_col l = c"
    "focused_win l = w"
proof -
  obtain c where c: "zl_list (ly_cols l) = [c]" "zl_len (c_wins c) = 1"
    using sum_list_one[of "zl_list (ly_cols l)" "\<lambda>c. zl_len (c_wins c)"] assms
    by (auto simp: n_open_windows_def zl_simps zl_len_def)
  then obtain w where w: "zl_list (c_wins c) = [w]" by (auto simp: zl_len_eq length_Suc_conv)
  have "focused_col l = c" using c focus_in_list[of "ly_cols l"] by (simp add: focused_col_def)
  moreover then have "focused_win l = w"
    using w focus_in_list[of "c_wins c"] by (simp add: focused_win_def)
  ultimately show thesis using that c(1) w by blast
qed

text \<open>The only window gets a buffer, whatever it showed before.\<close>

lemma show_single_ok:
  assumes one: "n_open_windows l \<le> 1" and ok: "bs_ok (ly_buffers l)"
    "fills c_n_cols (ly_screen_cols l) (ly_cols l)" and bid: "bid \<in> known l"
  shows "layout_ok (show_buffer_in_active_window bid l)"
proof -
  obtain c w where cw: "zl_list (ly_cols l) = [c]" "zl_list (c_wins c) = [w]" "focused_col l = c"
    "focused_win l = w" using one by (rule one_window)
  show ?thesis
  proof (cases "win_id w = bid")
    case True
    then have "layout_ok l" using cw ok bid by (simp add: layout_ok_def shown_def wins_show_def)
    then show ?thesis by (rule show_active_ok[OF _ bid])
  next
    case False
    obtain v l1 where v: "take_view bid (touch l) = (v, l1)" by fastforce
    note t = take_view_simps[OF v]
    have up: "z_up (ly_cols l) = []" "z_down (ly_cols l) = []" "z_up (c_wins c) = []" "z_down (c_wins c) = []"
      using cw by (auto simp: zl_list_def append_eq_Cons_conv)
    have "shown (set_focused_view v l1) = {bid}"
      using t(1,3) cw up
      by (simp add: shown_def set_focused_view_def set_focused_win_def set_focused_wins_def
          set_focused_col_def focused_col_def zl_list_def wins_show_def)
    then have "layout_ok (set_focused_view v l1)"
      using ok bid t(2,3,4) by (simp add: layout_ok_def known_def)
    moreover have "v_bufid (focused_view l) \<noteq> bid" using False cw(4) by (simp add: focused_view_def)
    ultimately show ?thesis
      using v by (simp add: show_buffer_in_active_window_def Let_def layout_ok_views)
  qed
qed

lemma layout_open_ok:
  assumes l: "layout_ok l" and op: "layout_open_or_focus alnum d fs p in_new l = Some (r, l')"
  shows "layout_ok l'" "r = Inr i \<Longrightarrow> synced l'"
proof -
  obtain sq where sq: "is_empty_squirrel (ly_buffers l) = Some sq"
    using op by (auto simp: layout_open_or_focus_def Let_def bind_eq_Some_conv)
  define nw where "nw = (if sq then False else in_new)"
  define retain where "retain = (nw \<or> 1 < n_open_windows (touch l))"
  obtain r0 bs where bs0: "open_or_focus alnum d fs p retain (ly_buffers l) = Some (r0, bs)"
    using op sq by (auto simp: layout_open_or_focus_def Let_def bind_eq_Some_conv retain_def nw_def)
  define l1 where "l1 = (touch l)\<lparr>ly_buffers := bs\<rparr>"
  have ok: "bs_ok bs" by (rule open_or_focus_ok[OF layout_ok_bs[OF l] bs0])
  have res0: "(case r0 of Inl e \<Rightarrow> Some (Inl e, l1)
      | Inr opt \<Rightarrow> do {
          l \<leftarrow> show_opened (b_id (bs_active (ly_buffers l1))) nw l1; Some (Inr opt, l) }) = Some (r, l')"
    using op sq bs0 unfolding l1_def retain_def nw_def by (simp add: layout_open_or_focus_def Let_def)
  then have r: "r0 = r" by (cases r0) (auto simp: bind_eq_Some_conv)
  note bs = bs0[unfolded r] and res = res0[unfolded r]
  have act: "b_id (bs_active (ly_buffers l1)) = b_id (bs_active bs)" "known l1 = set (bs_ids bs)"
    by (simp_all add: l1_def known_def)
  have "layout_ok l' \<and> (r = Inr i \<longrightarrow> synced l')"
  proof (cases "set (bs_ids (ly_buffers l)) \<subseteq> set (bs_ids bs)")
    case True
    then have l1: "layout_ok l1"
      unfolding l1_def by (intro layout_ok_buffers[of "touch l"]) (use l ok in \<open>auto simp: layout_ok_def known_def\<close>)
    show ?thesis
    proof (cases r)
      case (Inl e)
      then show ?thesis using res l1 by simp
    next
      case (Inr opt)
      then have "show_opened (b_id (bs_active (ly_buffers l1))) nw l1 = Some l'"
        using res by (simp add: bind_eq_Some_conv)
      from show_opened_ok[OF l1 active_known this refl] show ?thesis by blast
    qed
  next
    case False
    then have swap: "sq" "\<not> retain"
      using open_or_focus_ids[OF layout_ok_bs[OF l] bs] sq by auto
    have one: "n_open_windows l1 \<le> 1" using swap(2) by (auto simp: retain_def l1_def n_open_windows_def)
    then obtain c w where cw: "zl_list (ly_cols l1) = [c]" "zl_list (c_wins c) = [w]" "focused_col l1 = c"
      "focused_win l1 = w" by (rule one_window)
    have l1: "bs_ok (ly_buffers l1)" "fills c_n_cols (ly_screen_cols l1) (ly_cols l1)"
      using ok l by (simp_all add: l1_def layout_ok_def)
    show ?thesis
    proof (cases r)
      case (Inl e)
      then have "set (bs_ids (ly_buffers l)) \<subseteq> set (bs_ids bs)"
        using open_or_focus_ids[OF layout_ok_bs[OF l] bs] by blast
      then show ?thesis using False by blast
    next
      case (Inr opt)
      show ?thesis
      proof (cases "b_id (bs_active bs) \<in> shown l1")
        case True
        then have "layout_ok l1" using cw l1 active_known[of l1] act by (simp add: layout_ok_def shown_def wins_show_def)
        moreover have "show_opened (b_id (bs_active (ly_buffers l1))) nw l1 = Some l'"
          using res Inr by (simp add: bind_eq_Some_conv)
        ultimately show ?thesis using show_opened_ok[OF _ active_known _ refl] by blast
      next
        case False
        then have l': "l' = show_buffer_in_active_window (b_id (bs_active bs)) l1"
          using res Inr swap(1) unfolding nw_def show_opened_def by (simp add: act)
        have "layout_ok l'"
          unfolding l' by (rule show_single_ok[OF one l1]) (use active_known[of l1] act in simp)
        then show ?thesis by (simp add: l' synced_def act)
      qed
    qed
  qed
  then show "layout_ok l'" "r = Inr i \<Longrightarrow> synced l'" by blast+
qed

lemma ids_subset_ok:
  "layout_ok l \<Longrightarrow> bs_ok bs \<Longrightarrow> set (bs_ids (ly_buffers l)) \<subseteq> set (bs_ids bs) \<Longrightarrow>
   layout_ok (l\<lparr>ly_buffers := bs\<rparr>)"
  by (rule layout_ok_buffers) (auto simp: layout_ok_def known_def)

lemma layout_open_virtual_ok:
  assumes l: "layout_ok l" and op: "layout_open_virtual name content in_new l = Some l'"
  shows "layout_ok l'" "synced l'"
proof -
  obtain bid bs where bs: "open_virtual name content (ly_buffers l) = Some (bid, bs)"
    "show_opened bid in_new ((touch l)\<lparr>ly_buffers := bs\<rparr>) = Some l'"
    using op by (auto simp: layout_open_virtual_def Let_def bind_eq_Some_conv)
  have ok: "bs_ok bs" by (rule open_virtual_ok[OF layout_ok_bs[OF l] bs(1)])
  have ids: "set (bs_ids (ly_buffers l)) \<subseteq> set (bs_ids bs) \<and> b_id (bs_active bs) = bid"
  proof (cases "List.find (is_virtual name) (bs_iter (ly_buffers l))")
    case None
    then obtain b where b: "new_virtual (bs_next_id (ly_buffers l)) name content = Some b"
      "bid = bs_next_id (ly_buffers l)"
      "bs = (bs_push_buffer b (record_jump_position (ly_buffers l)))\<lparr>bs_next_id := Suc (bs_next_id (ly_buffers l))\<rparr>"
      using bs(1) by (auto simp: open_virtual_def Let_def bind_eq_Some_conv bs_push_buffer_def)
    then show ?thesis
      using new_buffer_ids(2)[OF b(1)] by (simp add: bs_push_buffer_def bs_active_def zl_insert_list(2) subset_insertI)
  next
    case (Some b)
    let ?f = "snd (bs_focus_id (b_id b) (ly_buffers l))"
    have act: "b_id (bs_active ?f) = b_id b"
      using find_find_some[OF Some] focus_by_id_active[of "b_id b"]
      by (auto simp: bs_focus_id_def contains_bufid_iff)
    obtain f where f: "bs = bs_set_active f ?f" "b_id f = b_id (bs_active ?f)" "bid = b_id b"
      using bs(1) Some by (auto simp: open_virtual_def Let_def bind_eq_Some_conv)
    then show ?thesis using bs_set_active_ids[OF f(2)] act by simp
  qed
  have l1: "layout_ok ((touch l)\<lparr>ly_buffers := bs\<rparr>)"
    by (rule ids_subset_ok[OF _ ok]) (use l ids in simp_all)
  have bid: "bid = b_id (bs_active (ly_buffers ((touch l)\<lparr>ly_buffers := bs\<rparr>)))" using ids by simp
  then have "bid \<in> known ((touch l)\<lparr>ly_buffers := bs\<rparr>)" using active_known by blast
  from show_opened_ok[OF l1 this bs(2) bid] show "layout_ok l'" "synced l'" by blast+
qed

lemma layout_ensure_ok:
  assumes l: "layout_ok l" and op: "layout_ensure_file_is_open fs p l = Some l'"
  shows "layout_ok l'"
proof -
  obtain bs where bs: "ensure_file_is_open fs p (ly_buffers l) = Some bs" "l' = l\<lparr>ly_buffers := bs\<rparr>"
    using op by (auto simp: layout_ensure_file_is_open_def bind_eq_Some_conv)
  have "set (bs_ids (ly_buffers l)) \<subseteq> set (bs_ids bs)"
  proof (cases "fs_canonicalize fs p")
    case (Inr q)
    show ?thesis
    proof (cases "with_path q (ly_buffers l)")
      case None
      then obtain r where r: "new_from_file fs (bs_next_id (ly_buffers l)) q = Some r"
        using bs(1) Inr by (auto simp: ensure_file_is_open_def Let_def bind_eq_Some_conv)
      show ?thesis
        using bs(1) Inr None r by (cases r) (auto simp: ensure_file_is_open_def Let_def zl_simps)
    qed (use bs(1) Inr in \<open>auto simp: ensure_file_is_open_def\<close>)
  qed (use bs(1) in \<open>auto simp: ensure_file_is_open_def\<close>)
  then show ?thesis
    unfolding bs(2) by (rule ids_subset_ok[OF l ensure_file_is_open_ok[OF layout_ok_bs[OF l] bs(1)]])
qed

lemma layout_write_output_ok:
  assumes l: "layout_ok l" and op: "layout_write_output i s cwd l = Some l'"
  shows "layout_ok l'"
proof -
  obtain bid bs where bs: "write_output_for_buffer i s cwd (ly_buffers l) = Some (bid, bs)"
    "(if \<not> buffer_is_visible bid (l\<lparr>ly_buffers := bs\<rparr>)
      then show_buffer_in_new_window bid (l\<lparr>ly_buffers := bs\<rparr>) else Some (l\<lparr>ly_buffers := bs\<rparr>)) = Some l'"
    using op by (auto simp: layout_write_output_def Let_def bind_eq_Some_conv)
  define key where "key = (case with_id i (ly_buffers l) of Some b \<Rightarrow> output_file_key (b_kind b) cwd
                                              | None \<Rightarrow> cwd @ ''/DEFAULT_OUTPUT_BUFFER'')"
  have ids: "set (bs_ids (ly_buffers l)) \<subseteq> set (bs_ids bs) \<and> bid \<in> set (bs_ids bs)"
  proof (cases "List.find (is_output key) (bs_list (ly_buffers l))")
    case None
    then show ?thesis
      using bs(1) by (auto simp: write_output_for_buffer_def Let_def bind_eq_Some_conv key_def
          dest: new_buffer_ids(3))
  next
    case (Some b)
    then obtain b' where b': "buf_append b s Fsys = Some b'" "bid = b_id b"
      "bs = (ly_buffers l)\<lparr>bs_inner := zl_update_first (is_output key) (\<lambda>_. b') (bs_inner (ly_buffers l))\<rparr>"
      using bs(1) by (auto simp: write_output_for_buffer_def Let_def bind_eq_Some_conv key_def)
    have "bs_ids bs = bs_ids (ly_buffers l)"
      using list_update_first_found[OF Some append_id[OF b'(1)]] by (simp add: b'(3) zl_update_first_list)
    then show ?thesis using find_find_some[OF Some] b'(2) by simp
  qed
  have l1: "layout_ok (l\<lparr>ly_buffers := bs\<rparr>)"
    by (rule ids_subset_ok[OF l write_output_ok[OF layout_ok_bs[OF l] bs(1)]]) (use ids in simp)
  have "bid \<in> known (l\<lparr>ly_buffers := bs\<rparr>)" using ids by (simp add: known_def)
  then show ?thesis using bs(2) l1 show_new_ok(1)[OF l1] by (auto split: if_splits)
qed

subsection \<open>Closing\<close>

lemma list_map_opt_len: "list_map_opt f xs = Some ys \<Longrightarrow> length ys = length xs"
  by (induction xs arbitrary: ys) (auto simp: bind_eq_Some_conv)

lemma filter_shows: "zl_list z' = filter (\<lambda>w. \<not> shows_buffer bid w) (zl_list z) \<Longrightarrow>
    wins_show z' = wins_show z - {bid}"
  by (auto simp: wins_show_def shows_buffer_def)

lemma close_windows_eq:
  assumes "close_windows bid rows c = Some c'"
  shows "c_n_cols c' = c_n_cols c" "wins_show (c_wins c') = wins_show (c_wins c) - {bid}"
proof -
  obtain ws where ws: "zl_filter_unchecked (\<lambda>w. \<not> shows_buffer bid w) (c_wins c) = Some ws"
    "(if zl_len ws < zl_len (c_wins c) then col_balance_windows rows (c\<lparr>c_wins := ws\<rparr>)
      else Some (c\<lparr>c_wins := ws\<rparr>)) = Some c'"
    using assms by (auto simp: close_windows_def Let_def bind_eq_Some_conv)
  have "c_n_cols c' = c_n_cols c \<and> wins_show (c_wins c') = wins_show ws"
  proof (cases "zl_len ws < zl_len (c_wins c)")
    case True
    then have "col_balance_windows rows (c\<lparr>c_wins := ws\<rparr>) = Some c'" using ws(2) by simp
    from col_balance_windows_eq(1,2)[OF this] show ?thesis by simp
  next
    case False
    then show ?thesis using ws(2) by auto
  qed
  then show "c_n_cols c' = c_n_cols c" "wins_show (c_wins c') = wins_show (c_wins c) - {bid}"
    using filter_shows[OF zl_filter_unchecked_list[OF ws(1)]] by simp_all
qed

lemma column_new_ok:
  assumes "bs_ok (ly_buffers l)" "bid \<in> known l"
    and "column_new (ly_screen_rows l) (ly_screen_cols l) [bid] = Some c"
  shows "layout_ok (l\<lparr>ly_cols := zl_new [] c []\<rparr>)"
  by (rule column_new_single[OF assms(3)])
     (use assms in \<open>simp add: layout_ok_def shown_def known_def zl_new_list wins_show_def fills_def
        zl_len_eq\<close>)

lemma extract_Some_in: "List.extract P xs = Some (us, x, vs) \<Longrightarrow> x \<in> set xs \<and> P x"
  by (auto simp: extract_Some_iff)

lemma close_buffer_some: "\<exists>bs'. bs_close_buffer i bs = Some bs'"
  using new_unnamed_empty[of "bs_next_id bs"] by (auto simp: bs_close_buffer_def Let_def split: prod.splits)

lemma layout_close_ok:
  assumes l: "layout_ok l" and op: "layout_close_buffer bid l = Some (r, l')"
  shows "layout_ok l'"
proof (cases "bid = b_id (scratch_buffer (ly_scratch (touch l))) \<or> bs_len (ly_buffers l) = 1")
  case True
  then have "ly_buffers l' = ly_buffers l \<and> ly_cols l' = ly_cols l \<and> ly_screen_cols l' = ly_screen_cols l"
    using op by (auto simp: layout_close_buffer_def Let_def split: if_splits)
  then show ?thesis using l by (auto intro: layout_ok_cong)
next
  case False
  define l1 where "l1 = (touch l)\<lparr>ly_views := filter (\<lambda>v. v_bufid v \<noteq> bid) (ly_views l)\<rparr>"
  obtain bs where bs: "bs_close_buffer bid (ly_buffers l) = Some bs"
    using close_buffer_some by blast
  define l2 where "l2 = l1\<lparr>ly_buffers := bs\<rparr>"
  have none: "List.extract (\<lambda>v. v_bufid v = bid) (ly_views l2) = None"
    by (simp add: l2_def l1_def extract_None_iff)
  have ok: "bs_ok bs" by (rule close_buffer_ok[OF layout_ok_bs[OF l] bs])
  have ids: "set (bs_ids (ly_buffers l)) - {bid} \<subseteq> set (bs_ids bs)"
    using layout_ok_bs[OF l]
  proof (cases rule: close_buffer_cases[of _ bid])
    case (unknown bs') then show ?thesis using bs by auto
  next
    case (last bs' b) then show ?thesis using bs arg_cong[OF last(1), of set] by auto
  next
    case (others bs') then show ?thesis using bs by auto
  qed
  have cl: "layout_close_buffer bid l =
      (if list_all (\<lambda>c. list_all (shows_buffer bid) (col_wins c)) (flatten (ly_cols l2)) then do {
          c \<leftarrow> column_new (ly_screen_rows l2) (ly_screen_cols l2) [b_id (bs_active bs)];
          Some (False, l2\<lparr>ly_cols := zl_new [] c []\<rparr>)
        }
        else do {
          cols \<leftarrow> zl_filter_unchecked
            (\<lambda>c. list_ex (\<lambda>w. \<not> shows_buffer bid w) (col_wins c)) (ly_cols l2);
          l3 \<leftarrow> (if zl_len cols < zl_len (ly_cols l2) then balance_columns (l2\<lparr>ly_cols := cols\<rparr>)
                else Some (l2\<lparr>ly_cols := cols\<rparr>));
          cols \<leftarrow> zl_map_opt (close_windows bid (ly_screen_rows l3)) (ly_cols l3);
          Some (False, l3\<lparr>ly_cols := cols\<rparr>)
        })"
    using False none unfolding l2_def l1_def by (simp add: layout_close_buffer_def Let_def bs)
  have l2: "shown l2 = shown l" "known l2 = set (bs_ids bs)" "ly_buffers l2 = bs"
    "fills c_n_cols (ly_screen_cols l2) (ly_cols l2)"
    using l by (simp_all add: l2_def l1_def layout_ok_def shown_def known_def)
  have "shown l \<subseteq> set (bs_ids (ly_buffers l))" using l by (simp add: layout_ok_def known_def)
  then have sub: "shown l2 \<subseteq> insert bid (known l2)" "fills c_n_cols (ly_screen_cols l2) (ly_cols l2)"
    using ids l2 by blast+
  show ?thesis
  proof (cases "list_all (\<lambda>c. list_all (shows_buffer bid) (col_wins c)) (flatten (ly_cols l2))")
    case True
    then obtain c where c: "column_new (ly_screen_rows l2) (ly_screen_cols l2) [b_id (bs_active bs)] = Some c"
      "l' = l2\<lparr>ly_cols := zl_new [] c []\<rparr>"
      using op cl by (auto simp: bind_eq_Some_conv)
    have "b_id (bs_active bs) \<in> known l2" using active_known[of l2] l2(3) by simp
    then show ?thesis using column_new_ok[OF _ _ c(1)] ok l2(3) c(2) by simp
  next
    case False
    then obtain cols l3 cols' where st:
      "zl_filter_unchecked (\<lambda>c. list_ex (\<lambda>w. \<not> shows_buffer bid w) (col_wins c)) (ly_cols l2) = Some cols"
      "(if zl_len cols < zl_len (ly_cols l2) then balance_columns (l2\<lparr>ly_cols := cols\<rparr>)
                else Some (l2\<lparr>ly_cols := cols\<rparr>)) = Some l3"
      "zl_map_opt (close_windows bid (ly_screen_rows l3)) (ly_cols l3) = Some cols'"
      "l' = l3\<lparr>ly_cols := cols'\<rparr>"
      using op cl by (auto simp: bind_eq_Some_conv)
    note lst = zl_filter_unchecked_list[OF st(1)]
    have l3: "shown l3 \<subseteq> insert bid (known l3)" "ly_buffers l3 = bs"
      "fills c_n_cols (ly_screen_cols l3) (ly_cols l3)"
    proof -
      have "shown (l2\<lparr>ly_cols := cols\<rparr>) \<subseteq> shown l2" using lst by (auto simp: shown_def)
      moreover have "zl_len cols = zl_len (ly_cols l2) \<Longrightarrow> zl_list cols = zl_list (ly_cols l2)"
        using lst by (simp add: zl_len_eq) (metis filter_True filter_id_conv length_filter_less less_irrefl)
      moreover have "zl_len cols \<le> zl_len (ly_cols l2)" using lst by (simp add: zl_len_eq)
      ultimately show "shown l3 \<subseteq> insert bid (known l3)" "ly_buffers l3 = bs"
        "fills c_n_cols (ly_screen_cols l3) (ly_cols l3)"
        using st(2) sub balance_columns_eq[of "l2\<lparr>ly_cols := cols\<rparr>" l3]
        by (auto simp: known_def l2_def fills_def split: if_splits)
    qed
    note opt = zl_map_opt_list[OF st(3), THEN conjunct1]
    have "map c_n_cols (zl_list cols') = map c_n_cols (zl_list (ly_cols l3))"
      using list_map_opt_map[OF opt, of c_n_cols c_n_cols] close_windows_eq(1) by blast
    then have fill: "fills c_n_cols (ly_screen_cols l') (ly_cols l')"
      using l3(3) list_map_opt_len[OF opt] by (simp add: st(4) fills_def zl_len_eq)
    have "shown l' \<subseteq> shown l3 - {bid}"
    proof
      fix i assume "i \<in> shown l'"
      then obtain c' where "c' \<in> set (zl_list cols')" "i \<in> wins_show (c_wins c')"
        by (auto simp: shown_def st(4))
      then obtain c where "c \<in> set (zl_list (ly_cols l3))" "close_windows bid (ly_screen_rows l3) c = Some c'"
        using list_map_opt_set[OF opt] by blast
      then show "i \<in> shown l3 - {bid}"
        using close_windows_eq(2) \<open>i \<in> wins_show (c_wins c')\<close> by (fastforce simp: shown_def)
    qed
    then show ?thesis
      using l3 fill ok by (auto simp: layout_ok_def st(4) known_def)
  qed
qed

end
