(* ===== verification/LayoutReach.thy ===== *)
theory LayoutReach
  imports LayoutInvariant
begin

text \<open>
  The rest of the operations of src/ui/layout.rs and the layouts that an editor reaches.
\<close>

subsection \<open>Windows, columns and their sizes\<close>

lemma remove_column_ok:
  assumes l: "layout_ok l" and rm: "remove_focused_unchecked (ly_cols l) = Some (c, cs)"
    and bal: "balance_columns (l\<lparr>ly_cols := cs\<rparr>) = Some l'"
  shows "layout_ok l'" "known l' = known l" "wins_show (c_wins c) \<subseteq> known l"
proof -
  have m: "set (zl_list cs) \<subseteq> set (zl_list (ly_cols l))" "c = focused_col l"
    using remove_focused_unchecked_list[OF rm] mset_eq_setD[of "zl_list (ly_cols l)" "c # zl_list cs"]
    by (auto simp: focused_col_def)
  have "shown (l\<lparr>ly_cols := cs\<rparr>) \<subseteq> shown l" using m by (auto simp: shown_def)
  then show "layout_ok l'" "known l' = known l"
    using l balance_columns_eq(1,3,4)[OF bal] by (auto simp: layout_ok_def known_def)
  show "wins_show (c_wins c) \<subseteq> known l" using focused_wins_known[OF l] m by simp
qed

lemma remove_window_ok:
  assumes l: "layout_ok l" and rm: "remove_focused_unchecked (c_wins (focused_col l)) = Some (w, ws)"
    and bal: "balance_active_column (set_focused_wins ws l) = Some l'"
  shows "layout_ok l'" "known l' = known l" "win_id w \<in> known l"
proof -
  have m: "set (zl_list ws) \<subseteq> set (zl_list (c_wins (focused_col l)))" "w = focused_win l"
    using remove_focused_unchecked_list[OF rm]
      mset_eq_setD[of "zl_list (c_wins (focused_col l))" "w # zl_list ws"]
    by (auto simp: focused_win_def)
  have "wins_show ws \<subseteq> known l" using focused_wins_known[OF l] m by (auto simp: wins_show_def)
  from add_window_ok[OF l this bal] show "layout_ok l'" "known l' = known l" by auto
  show "win_id w \<in> known l" using known_focused[OF l] m(2) by (simp add: focused_view_def)
qed

lemma focus_id_synced:
  assumes "layout_ok l"
  shows "synced (layout_buffers_focus_id (v_bufid (focused_view l)) l)"
proof -
  have "v_bufid (focused_view l) \<in> set (bs_ids (ly_buffers l))"
    using known_focused[OF assms] by (simp add: known_def)
  then show ?thesis
    using focus_by_id_active[of "v_bufid (focused_view l)"]
    by (simp add: synced_def layout_buffers_focus_id_def bs_focus_id_def contains_bufid_iff
        focused_view_def focused_win_def focused_col_def)
qed

lemma close_window_ok:
  assumes l: "layout_ok l" and op: "close_active_window l = Some (r, l')"
  shows "layout_ok l'" "\<not> scratch_focused l \<Longrightarrow> \<not> r \<Longrightarrow> synced l'"
proof -
  define l0 where "l0 = l\<lparr>ly_changed := True\<rparr>"
  have l0: "layout_ok l0" using l by (auto simp: l0_def intro: layout_ok_cong)
  consider (scratch) "scratch_focused l" "l' = l0\<lparr>ly_scratch := scratch_toggle (ly_scratch l0)\<rparr>"
    | (exit) "r" "l' = l0"
    | (col) c cs l1 where "remove_focused_unchecked (ly_cols l0) = Some (c, cs)"
        "balance_columns (l0\<lparr>ly_cols := cs\<rparr>) = Some l1"
        "l' = layout_buffers_focus_id (v_bufid (focused_view l1)) l1"
    | (win) w ws l1 where "remove_focused_unchecked (c_wins (focused_col l0)) = Some (w, ws)"
        "balance_active_column (set_focused_wins ws l0) = Some l1"
        "l' = layout_buffers_focus_id (v_bufid (focused_view l1)) l1"
    using op unfolding close_active_window_def Let_def l0_def[symmetric]
    by (auto simp: bind_eq_Some_conv l0_def scratch_focused_def split: if_splits)
  then have "layout_ok l' \<and> (\<not> scratch_focused l \<longrightarrow> \<not> r \<longrightarrow> synced l')"
  proof cases
    case scratch
    then show ?thesis using l0 by (auto intro: layout_ok_cong)
  next
    case exit
    then show ?thesis using l0 by auto
  next
    case col
    from remove_column_ok(1)[OF l0 col(1,2)]
    show ?thesis
      unfolding col(3) by (auto intro: layout_focus_id_ok focus_id_synced)
  next
    case win
    from remove_window_ok(1)[OF l0 win(1,2)]
    show ?thesis
      unfolding win(3) by (auto intro: layout_focus_id_ok focus_id_synced)
  qed
  then show "layout_ok l'" "\<not> scratch_focused l \<Longrightarrow> \<not> r \<Longrightarrow> synced l'" by blast+
qed

lemma close_column_ok:
  assumes l: "layout_ok l" and op: "close_active_column l = Some (r, l')"
  shows "layout_ok l'" "\<not> scratch_focused l \<Longrightarrow> \<not> r \<Longrightarrow> synced l'"
proof -
  define l0 where "l0 = l\<lparr>ly_changed := True\<rparr>"
  have l0: "layout_ok l0" using l by (auto simp: l0_def intro: layout_ok_cong)
  consider (scratch) "scratch_focused l" "l' = l0\<lparr>ly_scratch := scratch_toggle (ly_scratch l0)\<rparr>"
    | (exit) "r" "l' = l0"
    | (col) c cs l1 where "remove_focused_unchecked (ly_cols l0) = Some (c, cs)"
        "balance_columns (l0\<lparr>ly_cols := cs\<rparr>) = Some l1"
        "l' = layout_buffers_focus_id (v_bufid (focused_view l1)) l1"
    using op unfolding close_active_column_def Let_def l0_def[symmetric]
    by (auto simp: bind_eq_Some_conv l0_def scratch_focused_def split: if_splits)
  then have "layout_ok l' \<and> (\<not> scratch_focused l \<longrightarrow> \<not> r \<longrightarrow> synced l')"
  proof cases
    case scratch
    then show ?thesis using l0 by (auto intro: layout_ok_cong)
  next
    case exit
    then show ?thesis using l0 by auto
  next
    case col
    from remove_column_ok(1)[OF l0 col(1,2)]
    show ?thesis
      unfolding col(3) by (auto intro: layout_focus_id_ok focus_id_synced)
  qed
  then show "layout_ok l'" "\<not> scratch_focused l \<Longrightarrow> \<not> r \<Longrightarrow> synced l'" by blast+
qed

lemma balance_columns_ok: "layout_ok l \<Longrightarrow> balance_columns l = Some l' \<Longrightarrow> layout_ok l'"
  using balance_columns_eq[of l l'] by (simp add: layout_ok_def known_def)

lemma balance_active_ok: "layout_ok l \<Longrightarrow> balance_active_column l = Some l' \<Longrightarrow> layout_ok l'"
  using balance_active_column_eq[of l l'] by (simp add: layout_ok_def known_def)

text \<open>Columns changed one by one, with their widths and what they show.\<close>

lemma cols_map_ok:
  assumes l: "layout_ok l" and m: "zl_map_opt f (ly_cols l) = Some cs"
    and f: "\<And>c c'. f c = Some c' \<Longrightarrow> c_n_cols c' = c_n_cols c \<and> wins_show (c_wins c') = wins_show (c_wins c)"
  shows "layout_ok (l\<lparr>ly_cols := cs\<rparr>)"
proof -
  note opt = zl_map_opt_list[OF m, THEN conjunct1]
  have w: "map c_n_cols (zl_list cs) = map c_n_cols (zl_list (ly_cols l))"
    using list_map_opt_map[OF opt, of c_n_cols c_n_cols] f by blast
  have "map (\<lambda>c. wins_show (c_wins c)) (zl_list cs) = map (\<lambda>c. wins_show (c_wins c)) (zl_list (ly_cols l))"
    using list_map_opt_map[OF opt, of "\<lambda>c. wins_show (c_wins c)" "\<lambda>c. wins_show (c_wins c)"] f by blast
  from arg_cong[OF this, of set] have "shown (l\<lparr>ly_cols := cs\<rparr>) = shown l"
    by (simp add: shown_def flip: set_map)
  then show ?thesis
    using l w list_map_opt_len[OF opt] by (simp add: layout_ok_def known_def fills_def zl_len_eq)
qed

lemma balance_windows_ok: "layout_ok l \<Longrightarrow> balance_windows l = Some l' \<Longrightarrow> layout_ok l'"
proof -
  assume l: "layout_ok l" and b: "balance_windows l = Some l'"
  obtain cs where cs: "zl_map_opt (col_balance_windows (ly_screen_rows l)) (ly_cols l) = Some cs"
    "l' = l\<lparr>ly_changed := True, ly_cols := cs\<rparr>"
    using b by (auto simp: balance_windows_def bind_eq_Some_conv)
  have "layout_ok (l\<lparr>ly_cols := cs\<rparr>)"
    by (rule cols_map_ok[OF l cs(1)]) (auto dest: col_balance_windows_eq(1,2))
  then show ?thesis unfolding cs(2) by (rule layout_ok_cong) simp_all
qed

lemma balance_all_ok: "layout_ok l \<Longrightarrow> balance_all l = Some l' \<Longrightarrow> layout_ok l'"
  by (auto simp: balance_all_def bind_eq_Some_conv intro: balance_windows_ok balance_columns_ok)

subsection \<open>Resizing\<close>

text \<open>What an element is: its size is what it was set to.\<close>

definition growable_laws :: "'a growable \<Rightarrow> bool" where
  "growable_laws g \<longleftrightarrow> (\<forall>n x. size_of g (set_size g n x) = n)"

lemma growable_instances [simp]: "growable_laws growable_column" "growable_laws growable_window"
  by (simp_all add: growable_laws_def growable_column_def growable_window_def)

lemma clamped_sub_total: "clamped_sub sz delta m = Some (actual, n) \<Longrightarrow> 1 \<le> m \<Longrightarrow> actual + n = sz"
  by (auto simp: clamped_sub_def Let_def usub_def split: if_splits)

lemma grow_pair_sum:
  assumes "grow_pair g delta x y = Some (x', y')" "growable_laws g"
  shows "size_of g x' + size_of g y' = size_of g x + size_of g y"
  using assms
  by (auto simp: grow_pair_def bind_eq_Some_conv growable_laws_def MIN_DIM_def split: if_splits
      dest!: clamped_sub_total)

lemma grow_pair_keeps:
  assumes "grow_pair g delta x y = Some (x', y')" "\<And>n x. h (set_size g n x) = h x"
  shows "h x' = h x" "h y' = h y"
  using assms by (auto simp: grow_pair_def bind_eq_Some_conv split: if_splits)

lemma grow_eq:
  assumes g: "growable_laws g" "\<And>n x. h (set_size g n x) = h x"
  shows "grow_focus g delta z = Some z' \<Longrightarrow> map h (zl_list z') = map h (zl_list z) \<and>
      sum_list (map (size_of g) (zl_list z')) = sum_list (map (size_of g) (zl_list z))"
    "grow_focus_against_next g delta z = Some z' \<Longrightarrow> map h (zl_list z') = map h (zl_list z) \<and>
      sum_list (map (size_of g) (zl_list z')) = sum_list (map (size_of g) (zl_list z))"
  by (auto simp: grow_focus_def grow_focus_against_next_def zl_list_def bind_eq_Some_conv
      grow_pair_keeps[OF _ g(2)] split: if_splits list.splits dest: grow_pair_sum[OF _ g(1)])

lemma growable_keeps [simp]:
  "c_wins (set_size growable_column n c) = c_wins c" "w_view (set_size growable_window n w) = w_view w"
  "size_of growable_column = c_n_cols" "size_of growable_window = w_n_rows"
  by (simp_all add: growable_column_def growable_window_def)

lemma resized_columns_ok:
  assumes l: "layout_ok l" and m: "map c_wins (zl_list cs) = map c_wins (zl_list (ly_cols l))"
    "sum_list (map c_n_cols (zl_list cs)) = sum_list (map c_n_cols (zl_list (ly_cols l)))"
  shows "layout_ok (l\<lparr>ly_changed := b, ly_cols := cs\<rparr>)"
proof -
  have "shown (l\<lparr>ly_changed := b, ly_cols := cs\<rparr>) = shown l" using m(1) by (simp add: shown_alt del: set_map)
  moreover have "zl_len cs = zl_len (ly_cols l)"
    using arg_cong[OF m(1), of length] by (simp only: zl_len_eq length_map)
  ultimately show ?thesis using l m(2) by (simp add: layout_ok_def known_def fills_def)
qed

lemma resize_columns_ok:
  "layout_ok l \<Longrightarrow> resize_active_column delta l = Some l' \<Longrightarrow> layout_ok l'"
  "layout_ok l \<Longrightarrow> resize_active_column_against_next delta l = Some l' \<Longrightarrow> layout_ok l'"
  using grow_eq[of growable_column c_wins delta "ly_cols l"]
  by (auto simp: resize_active_column_def resize_active_column_against_next_def bind_eq_Some_conv
      intro!: resized_columns_ok)

lemma same_views_ok:
  assumes "layout_ok l" "map w_view (zl_list ws) = map w_view (zl_list (c_wins (focused_col l)))"
  shows "layout_ok (set_focused_wins ws l)"
proof (rule set_wins_ok[OF assms(1)])
  have "wins_show ws = v_bufid ` set (map w_view (zl_list ws))" by (simp add: wins_show_def image_image)
  also have "\<dots> = wins_show (c_wins (focused_col l))" by (simp add: assms(2) wins_show_def image_image)
  finally show "wins_show ws \<subseteq> known l" using focused_wins_known[OF assms(1)] by simp
qed

lemma layout_ok_changed [simp]: "layout_ok (l\<lparr>ly_changed := b\<rparr>) \<longleftrightarrow> layout_ok l"
  by (auto simp: layout_ok_def shown_def known_def)

lemma focused_col_changed [simp]: "focused_col (l\<lparr>ly_changed := b\<rparr>) = focused_col l"
  by (simp add: focused_col_def)

lemma resize_windows_ok:
  "layout_ok l \<Longrightarrow> resize_active_window delta l = Some l' \<Longrightarrow> layout_ok l'"
  "layout_ok l \<Longrightarrow> resize_active_window_against_next delta l = Some l' \<Longrightarrow> layout_ok l'"
  using grow_eq[of growable_window w_view delta "c_wins (focused_col l)"]
  by (auto simp: resize_active_window_def resize_active_window_against_next_def bind_eq_Some_conv
      intro!: same_views_ok)

subsection \<open>Dragging\<close>

lemma pop_window_ok:
  assumes "layout_ok l" "pop_window l = Some (w, l')"
  shows "layout_ok l'" "known l' = known l" "win_id w \<in> known l"
proof -
  obtain ws where rm: "remove_focused_unchecked (c_wins (focused_col l)) = Some (w, ws)"
    and bal: "balance_active_column (set_focused_wins ws l) = Some l'"
    using assms(2) by (auto simp: pop_window_def bind_eq_Some_conv)
  from remove_window_ok[OF assms(1) rm bal]
  show "layout_ok l'" "known l' = known l" "win_id w \<in> known l" .
qed

lemma insert_window_ok:
  assumes "layout_ok l" "win_id w \<in> known l" "insert_window w l = Some l'"
  shows "layout_ok l'"
proof (rule add_window_ok(1)[OF assms(1) _ assms(3)[unfolded insert_window_def]])
  show "wins_show (zl_insert w (c_wins (focused_col l))) \<subseteq> known l"
    using focused_wins_known[OF assms(1)] assms(2) by (simp add: wins_show_def)
qed

lemma known_cols [simp]: "known (l\<lparr>ly_cols := cs\<rparr>) = known l"
  by (simp add: known_def)

lemma move_cols_ok: "layout_ok l \<Longrightarrow> layout_ok (l\<lparr>ly_cols := focus_up (ly_cols l)\<rparr>)"
  "layout_ok l \<Longrightarrow> layout_ok (l\<lparr>ly_cols := focus_down (ly_cols l)\<rparr>)"
  by (rule focus_same_cols; simp add: zl_simps)+

text \<open>The window in a column of its own, at either end.\<close>

lemma own_column_ok:
  assumes l: "layout_ok l" "win_id w \<in> known l" and c: "column_new rows cols [i] = Some c"
    and cs: "set (zl_list cs) = insert (c\<lparr>c_wins := (c_wins c)\<lparr>z_focus := w\<rparr>\<rparr>) (set (zl_list (ly_cols l)))"
    and bal: "balance_columns (l\<lparr>ly_cols := cs\<rparr>) = Some l'"
  shows "layout_ok l'"
proof (rule add_column_ok(1)[OF l(1) _ _ bal])
  show "wins_show (c_wins (c\<lparr>c_wins := (c_wins c)\<lparr>z_focus := w\<rparr>\<rparr>)) \<subseteq> known l"
    by (rule column_new_single[OF c]) (use l(2) in \<open>auto simp: wins_show_def zl_list_def append_eq_Cons_conv\<close>)
  show "set (zl_list cs) \<subseteq> insert (c\<lparr>c_wins := (c_wins c)\<lparr>z_focus := w\<rparr>\<rparr>) (set (zl_list (ly_cols l)))"
    using cs by simp
qed

lemma drag_left_ok:
  assumes "layout_ok l" "drag_left l = Some l'"
  shows "layout_ok l'"
proof -
  have l: "layout_ok (touch l)" using assms(1) by simp
  consider "l' = touch l"
    | (own) w l1 c where "pop_window (touch l) = Some (w, l1)"
        "column_new (ly_screen_rows l1) (ly_screen_cols l1) [win_id w] = Some c"
        "balance_columns (l1\<lparr>ly_cols := focus_up (zl_insert_at Head
           (c\<lparr>c_wins := (c_wins c)\<lparr>z_focus := w\<rparr>\<rparr>) (ly_cols l1))\<rparr>) = Some l'"
    | (column) c cs l1 l2 where "remove_focused_unchecked (ly_cols (touch l)) = Some (c, cs)"
        "balance_columns ((touch l)\<lparr>ly_cols := cs\<rparr>) = Some l1" "balance_active_column l1 = Some l2"
        "insert_window (z_focus (c_wins c)) (l2\<lparr>ly_cols := focus_up (ly_cols l2)\<rparr>) = Some l'"
    | (window) w l1 where "pop_window (touch l) = Some (w, l1)"
        "insert_window w (l1\<lparr>ly_cols := focus_up (ly_cols l1)\<rparr>) = Some l'"
    using assms(2) unfolding drag_left_def Let_def by (auto simp: bind_eq_Some_conv split: if_splits)
  then show ?thesis
  proof cases
    case own
    note p = pop_window_ok[OF l own(1)]
    show ?thesis
      by (rule own_column_ok[OF p(1) _ own(2) _ own(3)]) (use p in \<open>simp_all add: zl_simps\<close>)
  next
    case column
    note r = remove_column_ok[OF l column(1,2)]
    have l2: "layout_ok l2" "known l2 = known l"
      using balance_active_ok[OF r(1) column(3)] balance_active_column_eq(1)[OF column(3)] r(2)
      by (simp_all add: known_def)
    have "win_id (z_focus (c_wins c)) \<in> known l" using r(3) by (auto simp: wins_show_def)
    then show ?thesis using insert_window_ok[OF _ _ column(4)] move_cols_ok(1)[OF l2(1)] l2(2) by simp
  next
    case window
    note p = pop_window_ok[OF l window(1)]
    show ?thesis by (rule insert_window_ok[OF _ _ window(2)]) (use p move_cols_ok in simp_all)
  qed (use l in simp)
qed

lemma drag_right_ok:
  assumes "layout_ok l" "drag_right l = Some l'"
  shows "layout_ok l'"
proof -
  have l: "layout_ok (touch l)" using assms(1) by simp
  consider "l' = touch l"
    | (own) w l1 c where "pop_window (touch l) = Some (w, l1)"
        "column_new (ly_screen_rows l1) (ly_screen_cols l1) [0] = Some c"
        "balance_columns (l1\<lparr>ly_cols := focus_down (zl_insert_at Tail
           (c\<lparr>c_wins := (c_wins c)\<lparr>z_focus := w\<rparr>\<rparr>) (ly_cols l1))\<rparr>) = Some l'"
    | (column) c cs l1 where "remove_focused_unchecked (ly_cols (touch l)) = Some (c, cs)"
        "insert_window (z_focus (c_wins c)) ((touch l)\<lparr>ly_cols := cs\<rparr>) = Some l1"
        "balance_columns l1 = Some l'"
    | (window) w l1 where "pop_window (touch l) = Some (w, l1)"
        "insert_window w (l1\<lparr>ly_cols := focus_down (ly_cols l1)\<rparr>) = Some l'"
    using assms(2) unfolding drag_right_def Let_def by (auto simp: bind_eq_Some_conv split: if_splits)
  then show ?thesis
  proof cases
    case own
    note p = pop_window_ok[OF l own(1)]
    show ?thesis
      by (rule own_column_ok[OF p(1) _ own(2) _ own(3)]) (use p in \<open>simp_all add: zl_simps\<close>)
  next
    case column
    have m: "set (zl_list cs) \<subseteq> set (zl_list (ly_cols l))" "c = focused_col l"
      using remove_focused_unchecked_list[OF column(1)] mset_eq_setD[of "zl_list (ly_cols l)" "c # zl_list cs"]
      by (auto simp: focused_col_def)
    define l0 where "l0 = (touch l)\<lparr>ly_cols := cs\<rparr>"
    define ws where "ws = zl_insert (z_focus (c_wins c)) (c_wins (focused_col l0))"
    have ins: "balance_active_column (set_focused_wins ws l0) = Some l1"
      using column(2) by (simp add: insert_window_def ws_def l0_def)
    note eq = balance_active_column_eq[OF ins]
    have "shown l0 \<subseteq> shown l" using m(1) by (auto simp: l0_def shown_def)
    moreover have "wins_show ws \<subseteq> shown l"
      using shown_focused_wins[of l] shown_focused_wins[of l0] m(2) calculation
      by (auto simp: ws_def wins_show_def)
    ultimately have "shown l1 \<subseteq> shown l" using shown_set_focused_wins[of ws l0] eq(3) by blast
    then show ?thesis
      using balance_columns_eq[OF column(3)] eq(1) l
      by (auto simp: layout_ok_def known_def l0_def)
  next
    case window
    note p = pop_window_ok[OF l window(1)]
    show ?thesis by (rule insert_window_ok[OF _ _ window(2)]) (use p move_cols_ok in simp_all)
  qed (use l in simp)
qed

lemma drag_up_down_ok: "layout_ok l \<Longrightarrow> layout_ok (drag_up l)" "layout_ok l \<Longrightarrow> layout_ok (drag_down l)"
  unfolding drag_up_def drag_down_def Let_def by (rule same_wins_ok; simp)+

subsection \<open>Scrolling\<close>

definition view_keeps :: "(view \<Rightarrow> buffer \<Rightarrow> (view \<times> buffer) option) \<Rightarrow> bool" where
  "view_keeps f \<longleftrightarrow> (\<forall>v b v' b'. f v b = Some (v', b') \<longrightarrow> v_bufid v' = v_bufid v \<and> b_id b' = b_id b)"

lemma view_keepsD: "view_keeps f \<Longrightarrow> f v b = Some (v', b') \<Longrightarrow> v_bufid v' = v_bufid v \<and> b_id b' = b_id b"
  unfolding view_keeps_def by blast

lemma clamp_rows_cols_id:
  "clamp_rows y rows v = Some v' \<Longrightarrow> v_bufid v' = v_bufid v"
  "clamp_cols w cols v = Some v' \<Longrightarrow> v_bufid v' = v_bufid v"
  by (auto simp: clamp_rows_def clamp_cols_def bind_eq_Some_conv Let_def split: if_splits)

lemma clamp_scroll_keeps [simp]: "view_keeps (view_clamp_scroll d rows cols)"
  by (auto simp: view_keeps_def view_clamp_scroll_def bind_eq_Some_conv Let_def
      dest!: clamp_rows_cols_id split: prod.splits)

lemma force_cursor_keeps [simp]: "view_keeps (view_force_cursor d rows cols)"
  using clamp_scroll_keeps[of d rows cols] by (fastforce simp: view_keeps_def view_force_cursor_def)

lemma set_viewport_keeps [simp]: "view_keeps (view_set_viewport d vp rows cols)"
  using clamp_scroll_keeps[of d rows cols]
  by (fastforce simp: view_keeps_def view_set_viewport_def Let_def bind_eq_Some_conv split: prod.splits)

lemma set_active_view_ok:
  assumes l: "layout_ok l" and v: "v_bufid v = v_bufid (focused_view l)"
    and b: "b_id b = b_id (bs_active (ly_buffers l))"
  shows "layout_ok (set_focused_view v (l\<lparr>ly_buffers := bs_set_active b (ly_buffers l)\<rparr>))"
    "synced l \<Longrightarrow> synced (set_focused_view v (l\<lparr>ly_buffers := bs_set_active b (ly_buffers l)\<rparr>))"
proof -
  have l1: "layout_ok (l\<lparr>ly_buffers := bs_set_active b (ly_buffers l)\<rparr>)"
    using l b by (intro layout_ok_same_ids) (simp_all add: set_active_ok layout_ok_bs bs_set_active_ids)
  have "v_bufid v \<in> known (l\<lparr>ly_buffers := bs_set_active b (ly_buffers l)\<rparr>)"
    using known_focused[OF l] v bs_set_active_ids[OF b] unfolding known_def by simp
  then show "layout_ok (set_focused_view v (l\<lparr>ly_buffers := bs_set_active b (ly_buffers l)\<rparr>))"
    by (rule set_view_ok[OF l1])
  show "synced l \<Longrightarrow> synced (set_focused_view v (l\<lparr>ly_buffers := bs_set_active b (ly_buffers l)\<rparr>))"
    using v b by (simp add: synced_def)
qed

lemma focused_changed [simp]: "focused_view (l\<lparr>ly_changed := b\<rparr>) = focused_view l"
  "synced (l\<lparr>ly_changed := b\<rparr>) \<longleftrightarrow> synced l" "scratch_focused (l\<lparr>ly_changed := b\<rparr>) = scratch_focused l"
  by (simp_all add: focused_view_def focused_win_def synced_def scratch_focused_def)

lemma with_active_view_ok:
  assumes l: "layout_ok l" and f: "\<And>rows cols. view_keeps (f rows cols)" and op: "with_active_view f l = Some l'"
  shows "layout_ok l'" "synced l \<Longrightarrow> synced l'"
proof -
  define l0 where "l0 = l\<lparr>ly_changed := True\<rparr>"
  have l0: "layout_ok l0" "synced l0 \<longleftrightarrow> synced l" using l by (simp_all add: l0_def)
  have "layout_ok l' \<and> (synced l \<longrightarrow> synced l')"
  proof (cases "scratch_focused l0")
    case True
    then have "ly_buffers l' = ly_buffers l0 \<and> ly_cols l' = ly_cols l0 \<and> ly_screen_cols l' = ly_screen_cols l0"
      using op unfolding with_active_view_def l0_def[symmetric] Let_def by (auto simp: bind_eq_Some_conv)
    then show ?thesis
      using l0 by (auto intro: layout_ok_cong simp: synced_def focused_view_def focused_win_def focused_col_def)
  next
    case False
    then obtain rows cols v b where vb: "f rows cols (focused_view l0) (bs_active (ly_buffers l0)) = Some (v, b)"
      "l' = set_focused_view v (l0\<lparr>ly_buffers := bs_set_active b (ly_buffers l0)\<rparr>)"
      using op unfolding with_active_view_def l0_def[symmetric] Let_def by (auto simp: bind_eq_Some_conv)
    show ?thesis
      unfolding vb(2) using view_keepsD[OF f vb(1)] set_active_view_ok[OF l0(1)] l0(2) by blast
  qed
  then show "layout_ok l'" "synced l \<Longrightarrow> synced l'" by blast+
qed

lemma refocus_ok:
  assumes "layout_ok l" "refocus d l = Some l'"
  shows "layout_ok l'" "synced l'"
proof -
  have f: "layout_ok (layout_buffers_focus_id (v_bufid (focused_view l)) l)" by (rule layout_focus_id_ok[OF assms(1)])
  have op: "with_active_view (view_force_cursor d)
      (layout_buffers_focus_id (v_bufid (focused_view l)) l) = Some l'"
    using assms(2) by (simp add: refocus_def force_cursor_to_be_in_view_def)
  show "layout_ok l'" by (rule with_active_view_ok(1)[OF f _ op]) simp
  show "synced l'" by (rule with_active_view_ok(2)[OF f _ op focus_id_synced[OF assms(1)]]) simp
qed

lemma move_focus_ok:
  assumes "layout_ok l"
  shows "next_column d l = Some l' \<Longrightarrow> layout_ok l' \<and> synced l'"
    "prev_column d l = Some l' \<Longrightarrow> layout_ok l' \<and> synced l'"
    "next_window_in_column d l = Some l' \<Longrightarrow> layout_ok l' \<and> synced l'"
    "prev_window_in_column d l = Some l' \<Longrightarrow> layout_ok l' \<and> synced l'"
proof -
  have l: "layout_ok (touch l)" using assms by simp
  have c: "layout_ok ((touch l)\<lparr>ly_cols := focus_down (ly_cols (touch l))\<rparr>)"
    "layout_ok ((touch l)\<lparr>ly_cols := focus_up (ly_cols (touch l))\<rparr>)"
    using move_cols_ok[OF l] by blast+
  have w: "layout_ok (set_focused_wins (focus_down (c_wins (focused_col (touch l)))) (touch l))"
    "layout_ok (set_focused_wins (focus_up (c_wins (focused_col (touch l)))) (touch l))"
    by (rule same_wins_ok[OF l]; simp add: zl_simps)+
  show "next_column d l = Some l' \<Longrightarrow> layout_ok l' \<and> synced l'"
    "prev_column d l = Some l' \<Longrightarrow> layout_ok l' \<and> synced l'"
    "next_window_in_column d l = Some l' \<Longrightarrow> layout_ok l' \<and> synced l'"
    "prev_window_in_column d l = Some l' \<Longrightarrow> layout_ok l' \<and> synced l'"
    unfolding next_column_def prev_column_def next_window_in_column_def prev_window_in_column_def Let_def
    using refocus_ok[OF c(1)] refocus_ok[OF c(2)] refocus_ok[OF w(1)] refocus_ok[OF w(2)] by blast+
qed

lemma clamp_row_off_id: "clamp_row_off bs w = Some w' \<Longrightarrow> win_id w' = win_id w"
  by (auto simp: clamp_row_off_def bind_eq_Some_conv)

lemma clamp_row_off_ids: "list_map_opt (clamp_row_off bs) xs = Some ys \<Longrightarrow> map win_id ys = map win_id xs"
  by (erule list_map_opt_map) (erule clamp_row_off_id)

lemma clamp_col_eq:
  assumes "clamp_col bs c = Some c'"
  shows "c_n_cols c' = c_n_cols c \<and> wins_show (c_wins c') = wins_show (c_wins c)"
proof -
  obtain ws where ws: "zl_map_opt (clamp_row_off bs) (c_wins c) = Some ws" "c' = c\<lparr>c_wins := ws\<rparr>"
    using assms by (auto simp: clamp_col_def bind_eq_Some_conv)
  have "set (map win_id (zl_list ws)) = set (map win_id (zl_list (c_wins c)))"
    by (rule arg_cong[OF clamp_row_off_ids[OF conjunct1[OF zl_map_opt_list[OF ws(1)]]]])
  then have "wins_show ws = wins_show (c_wins c)" unfolding wins_show_alt .
  then show ?thesis by (simp add: ws(2))
qed

lemma clamp_focused_col_eq:
  assumes "clamp_focused_col bs c = Some c'"
  shows "c_n_cols c' = c_n_cols c \<and> wins_show (c_wins c') = wins_show (c_wins c)"
proof -
  obtain up down where ud: "list_map_opt (clamp_row_off bs) (rev (z_up (c_wins c))) = Some up"
    "list_map_opt (clamp_row_off bs) (z_down (c_wins c)) = Some down"
    "c' = c\<lparr>c_wins := (c_wins c)\<lparr>z_up := rev up, z_down := down\<rparr>\<rparr>"
    using assms by (auto simp: clamp_focused_col_def bind_eq_Some_conv)
  have c': "zl_list (c_wins c') = up @ z_focus (c_wins c) # down" by (simp add: ud(3) zl_list_def)
  have "map win_id (zl_list (c_wins c')) = map win_id (zl_list (c_wins c))"
    unfolding c' unfolding zl_list_def map_append list.map
    by (simp only: clamp_row_off_ids[OF ud(1)] clamp_row_off_ids[OF ud(2)])
  then have "set (map win_id (zl_list (c_wins c'))) = set (map win_id (zl_list (c_wins c)))" by (rule arg_cong)
  then have "wins_show (c_wins c') = wins_show (c_wins c)" unfolding wins_show_alt .
  then show ?thesis by (simp add: ud(3))
qed

lemma clamp_others_ok:
  assumes l: "layout_ok l" and op: "clamp_others l = Some l'"
  shows "layout_ok l'"
proof -
  obtain up c down where st: "list_map_opt (clamp_col (ly_buffers l)) (rev (z_up (ly_cols l))) = Some up"
    "clamp_focused_col (ly_buffers l) (focused_col l) = Some c"
    "list_map_opt (clamp_col (ly_buffers l)) (z_down (ly_cols l)) = Some down"
    "l' = l\<lparr>ly_cols := \<lparr>z_up = rev up, z_focus = c, z_down = down\<rparr>\<rparr>"
    using op unfolding clamp_others_def Let_def by (auto simp: bind_eq_Some_conv)
  define key :: "column \<Rightarrow> nat \<times> nat set" where "key = (\<lambda>c. (c_n_cols c, wins_show (c_wins c)))"
  have ks: "list_map_opt (clamp_col bs) xs = Some ys \<Longrightarrow> map key ys = map key xs" for bs xs ys
    by (rule list_map_opt_map) (auto simp: key_def dest: clamp_col_eq)
  have "map key (zl_list (ly_cols l')) = map key (zl_list (ly_cols l))"
    using ks[OF st(1)] ks[OF st(3)] clamp_focused_col_eq[OF st(2)]
    by (simp add: st(4) zl_list_def key_def focused_col_def)
  from arg_cong[OF this, of "map fst"] arg_cong[OF this, of "\<lambda>xs. set (map snd xs)"]
    arg_cong[OF this, of length]
  have "map c_n_cols (zl_list (ly_cols l')) = map c_n_cols (zl_list (ly_cols l))"
    "shown l' = shown l" "zl_len (ly_cols l') = zl_len (ly_cols l)"
    by (simp_all add: key_def comp_def shown_def image_image zl_len_eq)
  then show ?thesis using l by (simp add: layout_ok_def known_def fills_def st(4))
qed

lemma clamp_scroll_ok:
  assumes l: "layout_ok l" and op: "clamp_scroll d l = Some l'"
  shows "layout_ok l'"
proof -
  obtain l1 l2 where st: "clamp_scratch d l = Some l1" "clamp_active d l1 = Some l2" "clamp_others l2 = Some l'"
    using op by (auto simp: clamp_scroll_def bind_eq_Some_conv)
  have l1: "layout_ok l1"
    using st(1) by (intro layout_ok_cong[OF l])
      (auto simp: clamp_scratch_def Let_def bind_eq_Some_conv split: if_splits)
  obtain v b where vb: "view_clamp_scroll d (w_n_rows (focused_win l1)) (c_n_cols (focused_col l1))
      (focused_view l1) (bs_active (ly_buffers l1)) = Some (v, b)"
    "l2 = set_focused_view v (l1\<lparr>ly_buffers := bs_set_active b (ly_buffers l1)\<rparr>)"
    using st(2) by (auto simp: clamp_active_def bind_eq_Some_conv)
  have "layout_ok l2"
    unfolding vb(2) using view_keepsD[OF clamp_scroll_keeps vb(1)] set_active_view_ok(1)[OF l1] by blast
  then show ?thesis using clamp_others_ok st(3) by blast
qed

end
