(* ===== verification/LayoutFocus.thy ===== *)
theory LayoutFocus
  imports LayoutReach
begin

text \<open>
  The layout invariant under the operations that move the focus (src/ui/layout.rs): buffers, jumps,
  the mouse, and the filters of events.
\<close>

subsection \<open>Buffers\<close>

lemma synced_cong: "ly_buffers l' = ly_buffers l \<Longrightarrow> ly_cols l' = ly_cols l \<Longrightarrow> synced l' \<longleftrightarrow> synced l"
  by (simp add: synced_def focused_view_def focused_win_def focused_col_def)

lemma layout_ok_ids: "layout_ok l \<Longrightarrow> bs_ok bs \<Longrightarrow> bs_list bs = bs_list (ly_buffers l) \<Longrightarrow>
    layout_ok (l\<lparr>ly_buffers := bs\<rparr>)"
  by (rule layout_ok_same_ids) auto

lemma bs_focus_id_result:
  "bs_focus_id i bs = (Some j, bs') \<Longrightarrow> bs_ok bs \<Longrightarrow> j = i \<and> j \<in> set (bs_ids bs) \<and> b_id (bs_active bs') = i"
proof -
  assume f: "bs_focus_id i bs = (Some j, bs')" and ok: "bs_ok bs"
  then have i: "j = i" "contains_bufid i bs" "bs' = bs_focus_by_id i (record_jump_position (notify_lsp_changes_if_dirty bs))"
    by (auto simp: bs_focus_id_def split: if_splits)
  let ?bs = "record_jump_position (notify_lsp_changes_if_dirty bs)"
  obtain b where b: "b \<in> set (bs_list ?bs)" "b_id b = i" using i(2) by (auto simp: contains_bufid_iff)
  have "bs_active (bs_focus_by_id (b_id b) ?bs) = b"
    by (rule focus_by_id_is) (use ok b in auto)
  then show ?thesis using i b by (auto simp: contains_bufid_iff)
qed

lemma bs_focus_id_keeps: "bs_focus_id i bs = (r, bs') \<Longrightarrow> bs_list bs' = bs_list bs"
  using bs_focus_id_ids[of i bs] by (simp del: bs_focus_id_ids)

lemma focus_id_layout_ok:
  assumes l: "layout_ok l"
  shows "layout_ok (layout_focus_id i force l)"
proof (cases "i = b_id (scratch_buffer (ly_scratch l))")
  case True
  then show ?thesis by (auto simp: layout_focus_id_def intro: layout_ok_cong[OF l])
next
  case False
  obtain r bs where r: "bs_focus_id i (ly_buffers (touch l)) = (r, bs)" by fastforce
  have bs: "bs_list bs = bs_list (ly_buffers l)" "bs_ok bs"
    using bs_focus_id_keeps[of i "ly_buffers l"] bs_focus_id_ok[OF layout_ok_bs[OF l], of i] r by simp_all
  let ?l = "(touch l)\<lparr>ly_buffers := bs\<rparr>"
  have ok: "layout_ok ?l" by (rule layout_ok_ids) (use l bs in auto)
  show ?thesis
  proof (cases r)
    case None
    then show ?thesis using False r ok by (simp add: layout_focus_id_def Let_def)
  next
    case (Some j)
    then have "j \<in> known ?l"
      using bs_focus_id_result[of i "ly_buffers l" j bs] r bs layout_ok_bs[OF l] by (auto simp: known_def)
    then show ?thesis
      using False r Some focus_first_ok(1)[OF ok] show_active_ok[OF ok]
      by (simp add: layout_focus_id_def Let_def)
  qed
qed

lemma focus_id_layout_synced:
  assumes l: "layout_ok l" "synced l" and i: "i \<noteq> b_id (scratch_buffer (ly_scratch l))"
  shows "synced (layout_focus_id i force l)"
proof -
  obtain r bs where r: "bs_focus_id i (ly_buffers (touch l)) = (r, bs)" by fastforce
  let ?l = "(touch l)\<lparr>ly_buffers := bs\<rparr>"
  have bs: "bs_list bs = bs_list (ly_buffers l)" "bs_ok bs"
    using bs_focus_id_keeps[of i "ly_buffers l"] bs_focus_id_ok[OF layout_ok_bs[OF l(1)], of i] r by simp_all
  have ok: "layout_ok ?l" by (rule layout_ok_ids) (use l bs in auto)
  show ?thesis
  proof (cases r)
    case None
    then have "bs = ly_buffers l" using r by (auto simp: bs_focus_id_def split: if_splits)
    then have "synced ?l \<longleftrightarrow> synced l" by (intro synced_cong) simp_all
    then show ?thesis using None i r l by (simp add: layout_focus_id_def Let_def)
  next
    case (Some j)
    have j: "j = i" "b_id (bs_active bs) = i"
      using bs_focus_id_result[of i "ly_buffers l" j bs] r Some layout_ok_bs[OF l(1)] by simp_all
    show ?thesis
      using i r Some j focus_first_ok(2,3)[OF ok, of i]
      by (simp add: layout_focus_id_def Let_def synced_def)
  qed
qed

lemma focus_silent_ok: "layout_ok l \<Longrightarrow> layout_ok (layout_focus_id_silent i l)"
  unfolding layout_focus_id_silent_def
  by (rule layout_ok_same_ids) (auto simp: focus_id_silent_def focus_id_silent_ok layout_ok_bs)

lemma funpow_focus_down_set [simp]: "set (zl_list ((focus_down ^^ n) z)) = set (zl_list z)"
  by (induction n) (simp_all add: zl_simps)

lemma funpow_focus_down_list: "zl_list ((focus_down ^^ n) z) = zl_list z"
  by (induction n) (simp_all add: zl_simps)

lemma focus_for_resize_ok:
  "layout_ok l \<Longrightarrow> focus_column_for_resize i l = Some l' \<Longrightarrow> layout_ok l'"
  "layout_ok l \<Longrightarrow> focus_window_for_resize i l = Some l' \<Longrightarrow> layout_ok l'"
proof -
  assume l: "layout_ok l"
  show "layout_ok l'" if "focus_column_for_resize i l = Some l'"
    using that focus_same_cols[of "touch l" "(focus_down ^^ i) (focus_head (ly_cols l))"] l
    by (auto simp: focus_column_for_resize_def Let_def bind_eq_Some_conv funpow_focus_down_list zl_simps intro!: focus_silent_ok)
  show "layout_ok l'" if "focus_window_for_resize i l = Some l'"
    using that same_wins_ok[of "touch l" "(focus_down ^^ i) (focus_head (c_wins (focused_col l)))"] l
    by (auto simp: focus_window_for_resize_def Let_def bind_eq_Some_conv zl_simps intro!: focus_silent_ok)
qed

lemma focus_both_ok:
  "layout_ok l \<Longrightarrow> focus_column_and_window_for_resize i j l = Some l' \<Longrightarrow> layout_ok l'"
  by (auto simp: focus_column_and_window_for_resize_def bind_eq_Some_conv dest: focus_for_resize_ok)

lemma focus_buffer_step_ok:
  assumes "layout_ok l"
  shows "layout_ok (snd (focus_next_buffer l))" "synced (snd (focus_next_buffer l))"
    "layout_ok (snd (focus_previous_buffer l))" "synced (snd (focus_previous_buffer l))"
proof -
  have l: "layout_ok ((touch l)\<lparr>ly_buffers := bs_next (ly_buffers l)\<rparr>)"
    "layout_ok ((touch l)\<lparr>ly_buffers := bs_previous (ly_buffers l)\<rparr>)"
    by (rule layout_ok_same_ids; use assms in \<open>simp add: bs_next_ok bs_previous_ok layout_ok_bs\<close>;
        simp add: bs_next_def bs_previous_def Let_def zl_simps)+
  have a: "\<not> scratch_focused ((touch l)\<lparr>ly_buffers := bs\<rparr>)" for bs by (simp add: scratch_focused_def touch_def set_scratch_focused_def)
  show "layout_ok (snd (focus_next_buffer l))" "layout_ok (snd (focus_previous_buffer l))"
    "synced (snd (focus_next_buffer l))" "synced (snd (focus_previous_buffer l))"
    using show_active_ok[OF l(1) active_known] show_active_ok[OF l(2) active_known] a
    by (simp_all add: focus_next_buffer_def focus_previous_buffer_def Let_def active_buffer_def synced_def)
qed

subsection \<open>Jumps\<close>

lemma jump_list_ids:
  "bs_ids (snd (jump_list_forward bs)) = bs_ids bs"
  "jump_list_backward bs = Some (r, bs') \<Longrightarrow> bs_ids bs' = bs_ids bs"
proof -
  have j: "bs_ids (snd (bs_jump i c bs)) = bs_ids bs" for i c bs
    by (simp add: bs_jump_def Let_def bs_set_active_ids)
  show "bs_ids (snd (jump_list_forward bs)) = bs_ids bs"
    using j[of _ _ "bs\<lparr>bs_jump_list := _\<rparr>"]
    by (simp add: jump_list_forward_def case_prod_unfold split: option.split)
  show "bs_ids bs' = bs_ids bs" if "jump_list_backward bs = Some (r, bs')"
    using that j[of _ _ "bs\<lparr>bs_jump_list := _\<rparr>"]
    by (auto simp: jump_list_backward_def Let_def bind_eq_Some_conv case_prod_unfold
        split: option.splits prod.splits)
qed

lemma show_jump_ok:
  assumes l: "layout_ok l" and op: "show_jump d r l = Some (x, l')"
  shows "layout_ok l'" "r \<noteq> None \<Longrightarrow> synced l'"
proof -
  have "layout_ok l' \<and> (r \<noteq> None \<longrightarrow> synced l')"
  proof (cases r)
    case None
    then show ?thesis using assms by (simp add: show_jump_def)
  next
    case (Some ids)
    let ?l = "show_buffer_in_active_window (b_id (bs_active (ly_buffers l))) l"
    have ok: "layout_ok ?l" "synced ?l" using show_active_ok[OF l active_known] by (simp_all add: synced_def)
    have "layout_set_viewport d VpCenter ?l = Some l'"
      using op Some by (auto simp: show_jump_def bind_eq_Some_conv split: prod.splits)
    then show ?thesis
      using with_active_view_ok[OF ok(1), of "view_set_viewport d VpCenter"] ok(2)
      by (simp add: layout_set_viewport_def)
  qed
  then show "layout_ok l'" "r \<noteq> None \<Longrightarrow> synced l'" by blast+
qed

lemma jumps_ok:
  "layout_ok l \<Longrightarrow> jump_forward d l = Some (x, l') \<Longrightarrow> layout_ok l'"
  "layout_ok l \<Longrightarrow> jump_backward d l = Some (x, l') \<Longrightarrow> layout_ok l'"
proof -
  assume l: "layout_ok l"
  show "layout_ok l'" if op: "jump_forward d l = Some (x, l')"
  proof -
    obtain r bs where r: "jump_list_forward (ly_buffers l) = (r, bs)" by fastforce
    have "layout_ok (l\<lparr>ly_buffers := bs\<rparr>)"
      using layout_ok_same_ids[OF l] jump_list_forward_ok[OF layout_ok_bs[OF l]] jump_list_ids(1)[of "ly_buffers l"] r by simp
    then show ?thesis using show_jump_ok(1) op r by (simp add: jump_forward_def)
  qed
  show "layout_ok l'" if op: "jump_backward d l = Some (x, l')"
  proof -
    obtain r bs where r: "jump_list_backward (ly_buffers l) = Some (r, bs)"
      "show_jump d r (l\<lparr>ly_buffers := bs\<rparr>) = Some (x, l')"
      using op by (auto simp: jump_backward_def bind_eq_Some_conv)
    have "layout_ok (l\<lparr>ly_buffers := bs\<rparr>)"
      using layout_ok_same_ids[OF l] jump_list_backward_ok[OF layout_ok_bs[OF l] r(1)] jump_list_ids(2)[OF r(1)] by simp
    then show ?thesis using show_jump_ok(1) r(2) by blast
  qed
qed

lemma record_jump_layout_ok: "layout_ok l \<Longrightarrow> layout_ok (layout_record_jump_position l)"
  by (simp add: layout_record_jump_position_def layout_ok_same_ids layout_ok_bs)

subsection \<open>The mouse\<close>

text \<open>From the head, the search that moves the focus visits the elements in order.\<close>

lemma at_head:
  "z_up (focus_head z) = []" "z_focus (focus_head z) # z_down (focus_head z) = zl_list z"
  "zl_len z = Suc (length (z_down (focus_head z)))"
proof -
  have l: "zl_list (focus_head z) = zl_list z" "zl_pos (focus_head z) = 0" by (simp_all add: zl_simps)
  then show up: "z_up (focus_head z) = []" by (simp add: zl_pos_def)
  show fd: "z_focus (focus_head z) # z_down (focus_head z) = zl_list z"
    using l(1) up unfolding zl_list_def by simp
  show "zl_len z = Suc (length (z_down (focus_head z)))"
    by (simp add: zl_len_eq flip: fd)
qed

lemma focus_down_Cons: "z_down z = x # xs \<Longrightarrow> z_focus (focus_down z) = x \<and> z_down (focus_down z) = xs"
  by (simp add: focus_down_def swap_focus_def pop_front_def split: option.split prod.split)

lemma focus_win_at_keeps:
  "focus_win_at y n yo ws = (r, ws') \<Longrightarrow>
     zl_list ws' = zl_list ws \<and> (r = Inr i \<longrightarrow> win_id (z_focus ws') = i)"
  by (induction y n yo ws rule: focus_win_at.induct) (auto simp: zl_simps split: if_splits)

lemma focus_win_at_hit:
  "win_at y yo (z_focus ws # z_down ws) = Inr w \<Longrightarrow>
     fst (focus_win_at y (Suc (length (z_down ws))) yo ws) = Inr (win_id w)"
proof (induction "z_down ws" arbitrary: ws yo)
  case Nil
  then show ?case by (auto split: if_splits)
next
  case (Cons v down)
  note fd = focus_down_Cons[OF Cons(2)[symmetric]]
  then show ?case
    using Cons(1)[of "focus_down ws" "yo + (w_n_rows (z_focus ws) + 1)"] Cons(3) Cons(2)[symmetric]
    by (auto split: if_splits)
qed

definition col_key :: "column \<Rightarrow> nat \<times> nat set" where
  "col_key c = (c_n_cols c, wins_show (c_wins c))"

lemma same_keys_ok:
  assumes "layout_ok l" "mset (map col_key (zl_list cs)) = mset (map col_key (zl_list (ly_cols l)))"
  shows "layout_ok (l\<lparr>ly_cols := cs\<rparr>)"
proof -
  have fst: "mset (map c_n_cols (zl_list cs)) = mset (map c_n_cols (zl_list (ly_cols l)))"
    using arg_cong[OF assms(2), of "image_mset fst"] by (simp add: image_mset.compositionality comp_def col_key_def flip: mset_map)
  have "set (map (wins_show \<circ> c_wins) (zl_list cs)) = set (map (wins_show \<circ> c_wins) (zl_list (ly_cols l)))"
    using arg_cong[OF assms(2), of "\<lambda>m. set_mset (image_mset snd m)"]
    by (simp add: image_mset.compositionality comp_def col_key_def image_image flip: mset_map)
  then have "shown (l\<lparr>ly_cols := cs\<rparr>) = shown l" by (simp add: shown_def comp_def)
  moreover have "zl_len cs = zl_len (ly_cols l)" using arg_cong[OF fst, of size] by (simp add: zl_len_eq)
  moreover have "sum_list (map c_n_cols (zl_list cs)) = sum_list (map c_n_cols (zl_list (ly_cols l)))"
    using fst by (metis sum_mset_sum_list)
  ultimately show ?thesis using assms(1) by (simp add: layout_ok_def known_def fills_def)
qed

lemma same_key: "zl_list ws = zl_list (c_wins c) \<Longrightarrow> col_key (c\<lparr>c_wins := ws\<rparr>) = col_key c"
  by (simp add: col_key_def wins_show_def)

lemma focus_col_at_keeps:
  "focus_col_at x y n xo yo cs = (r, cs') \<Longrightarrow>
     map col_key (zl_list cs') = map col_key (zl_list cs) \<and>
     (r = Some i \<longrightarrow> win_id (z_focus (c_wins (z_focus cs'))) = i)"
proof (induction n arbitrary: xo yo cs)
  case 0
  then show ?case by auto
next
  case (Suc n)
  let ?c = "z_focus cs"
  show ?case
  proof (cases "xo + c_n_cols ?c < x")
    case True
    then have "focus_col_at x y n (xo + (c_n_cols ?c + 1)) yo (focus_down cs) = (r, cs')"
      using Suc(2) by simp
    from Suc(1)[OF this] show ?thesis by (simp add: zl_simps)
  next
    case False
    obtain q ws where ws: "focus_win_at y (zl_len (c_wins ?c)) yo (focus_head (c_wins ?c)) = (q, ws)"
      by fastforce
    have keep: "zl_list ws = zl_list (c_wins ?c)" "q = Inr j \<longrightarrow> win_id (z_focus ws) = j" for j
      using focus_win_at_keeps[OF ws, of j] by (simp_all add: zl_simps)
    let ?cs = "cs\<lparr>z_focus := ?c\<lparr>c_wins := ws\<rparr>\<rparr>"
    have k: "map col_key (zl_list ?cs) = map col_key (zl_list cs)"
      by (simp add: zl_list_def same_key[OF keep(1)])
    show ?thesis
    proof (cases q)
      case (Inl yo')
      then have "focus_col_at x y n xo yo' ?cs = (r, cs')" using Suc(2) False ws by simp
      from Suc(1)[OF this] show ?thesis using k by simp
    next
      case (Inr j)
      then have "r = Some j" "cs' = ?cs" using Suc(2) False ws by simp_all
      then show ?thesis using k keep(2)[of j] Inr by simp
    qed
  qed
qed

lemma focus_col_at_hit:
  assumes "\<And>c. c \<in> set (z_focus cs # z_down cs) \<Longrightarrow> \<exists>w. win_at y yo (zl_list (c_wins c)) = Inr w"
    and "win_at_cols x y xo yo (z_focus cs # z_down cs) = Some w"
  shows "fst (focus_col_at x y (Suc (length (z_down cs))) xo yo cs) = Some (win_id w)"
  using assms
proof (induction "z_down cs" arbitrary: cs xo)
  case Nil
  obtain v where v: "win_at y yo (zl_list (c_wins (z_focus cs))) = Inr v" using Nil(2)[of "z_focus cs"] by auto
  have "fst (focus_win_at y (zl_len (c_wins (z_focus cs))) yo (focus_head (c_wins (z_focus cs)))) = Inr (win_id v)"
    unfolding at_head(3) by (rule focus_win_at_hit) (use v in \<open>simp only: at_head(2)\<close>)
  then show ?case using Nil v by (auto simp: case_prod_unfold Let_def split: if_splits)
next
  case (Cons d down)
  note fd = focus_down_Cons[OF Cons(2)[symmetric]]
  obtain v where v: "win_at y yo (zl_list (c_wins (z_focus cs))) = Inr v" using Cons(3)[of "z_focus cs"] by auto
  have f: "fst (focus_win_at y (zl_len (c_wins (z_focus cs))) yo (focus_head (c_wins (z_focus cs)))) = Inr (win_id v)"
    unfolding at_head(3) by (rule focus_win_at_hit) (use v in \<open>simp only: at_head(2)\<close>)
  show ?case
  proof (cases "xo + c_n_cols (z_focus cs) < x")
    case True
    have "fst (focus_col_at x y (Suc (length (z_down (focus_down cs)))) (xo + (c_n_cols (z_focus cs) + 1)) yo
        (focus_down cs)) = Some (win_id w)"
      by (rule Cons(1)) (use fd Cons(2)[symmetric] Cons(3,4) True in \<open>auto\<close>)
    then show ?thesis using True fd Cons(2)[symmetric] by (simp add: Let_def)
  next
    case False
    then show ?thesis using f v Cons(4) by (auto simp: case_prod_unfold Let_def)
  qed
qed

text \<open>A point inside the blocks is in one of them.\<close>

lemma win_at_found:
  "yo \<le> y \<Longrightarrow> y < yo + sum_list (map w_n_rows ws) + length ws \<Longrightarrow> \<exists>w \<in> set ws. win_at y yo ws = Inr w"
  by (induction ws arbitrary: yo) auto

lemma win_at_cols_found:
  assumes "\<And>c. c \<in> set cs \<Longrightarrow> \<exists>w \<in> set (zl_list (c_wins c)). win_at y yo (zl_list (c_wins c)) = Inr w"
    and "xo \<le> x" "x < xo + sum_list (map c_n_cols cs) + length cs"
  shows "\<exists>w. win_at_cols x y xo yo cs = Some w"
  using assms
proof (induction cs arbitrary: xo)
  case (Cons c cs)
  show ?case
  proof (cases "xo + c_n_cols c < x")
    case True
    then show ?thesis using Cons(1)[of "xo + (c_n_cols c + 1)"] Cons(2-4) by simp
  next
    case False
    then show ?thesis using Cons(2)[of c] by auto
  qed
qed simp

lemma focus_coords_ok:
  assumes l: "layout_ok l" and op: "focus_buffer_for_screen_coords x y l = Some (i, l')"
  shows "layout_ok l'"
proof -
  define l0 where "l0 = l\<lparr>ly_changed := True\<rparr>"
  obtain sc where sc: "row_is_scratch y l0 = Some sc"
    using op by (auto simp: focus_buffer_for_screen_coords_def Let_def bind_eq_Some_conv l0_def)
  have s: "layout_ok (set_scratch_focused b l0)" for b
    by (rule layout_ok_cong[OF l]) (simp_all add: set_scratch_focused_def l0_def)
  let ?l = "set_scratch_focused False l0"
  obtain r cs where cs: "focus_col_at x y (zl_len (ly_cols ?l)) 0 0 (focus_head (ly_cols ?l)) = (r, cs)"
    by fastforce
  have "map col_key (zl_list cs) = map col_key (zl_list (ly_cols ?l))"
    using focus_col_at_keeps[OF cs] by (simp add: zl_simps)
  then have ok: "layout_ok (?l\<lparr>ly_cols := cs\<rparr>)" by (intro same_keys_ok[OF s]) simp
  show ?thesis
    using op s[of True] ok sc cs layout_focus_id_ok[OF ok]
    by (auto simp: focus_buffer_for_screen_coords_def Let_def l0_def[symmetric] split: if_splits option.splits)
qed

lemma set_active_buffer_ok:
  assumes "layout_ok l" "b_id b = b_id (active_buffer l)"
  shows "layout_ok (set_active_buffer b l)" "synced l \<Longrightarrow> synced (set_active_buffer b l)"
    "scratch_focused (set_active_buffer b l) = scratch_focused l"
    "b_id (active_buffer (set_active_buffer b l)) = b_id (active_buffer l)"
proof -
  have same: "synced (l\<lparr>ly_buffers := bs_set_active b (ly_buffers l)\<rparr>)"
    if "synced l" "b_id b = b_id (bs_active (ly_buffers l))"
    using that by (simp add: synced_def focused_view_def focused_win_def focused_col_def)
  show "layout_ok (set_active_buffer b l)"
    using assms by (auto simp: set_active_buffer_def active_buffer_def set_active_ok layout_ok_bs bs_set_active_ids
        intro: layout_ok_cong layout_ok_same_ids)
  show "synced l \<Longrightarrow> synced (set_active_buffer b l)"
    using assms(2) same by (auto simp: set_active_buffer_def active_buffer_def synced_cong[of "l\<lparr>ly_scratch := _\<rparr>" l])
  show "scratch_focused (set_active_buffer b l) = scratch_focused l"
    "b_id (active_buffer (set_active_buffer b l)) = b_id (active_buffer l)"
    using assms(2)
    by (simp_all add: set_active_buffer_def active_buffer_def scratch_focused_def scratch_buffer_def
        set_scratch_buffer_def split: option.split)
qed

lemma scratch_changed [simp]:
  "layout_ok (l\<lparr>ly_scratch := s\<rparr>) \<longleftrightarrow> layout_ok l" "synced (l\<lparr>ly_scratch := s\<rparr>) \<longleftrightarrow> synced l"
  by (auto simp: synced_cong[of "l\<lparr>ly_scratch := s\<rparr>" l] intro: layout_ok_cong)

lemma cur_from_coords_ok:
  assumes l: "layout_ok l" and op: "cur_from_screen_coords d x y l = Some (c, l')"
  shows "layout_ok l'" "synced l \<Longrightarrow> synced l'" "scratch_focused l' = scratch_focused l"
    "b_id (active_buffer l') = b_id (active_buffer l)"
proof -
  define w where "w = (if scratch_focused l then s_w (ly_scratch l) else focused_win l)"
  obtain rx where l': "l' = set_active_buffer ((active_buffer l)\<lparr>b_cached_rx := rx\<rparr>)
      (if scratch_focused l then l\<lparr>ly_scratch := (ly_scratch l)\<lparr>s_w := w\<lparr>w_view := (w_view w)\<lparr>v_rx := rx\<rparr>\<rparr>\<rparr>\<rparr>
       else set_focused_win (w\<lparr>w_view := (w_view w)\<lparr>v_rx := rx\<rparr>\<rparr>) l)" (is "_ = set_active_buffer ?b ?l")
    using op unfolding cur_from_screen_coords_def Let_def w_def[symmetric]
    by (auto simp: bind_eq_Some_conv simp del: diff_diff_left One_nat_def split: prod.splits)
  have v: "set_focused_win (w\<lparr>w_view := (w_view w)\<lparr>v_rx := rx\<rparr>\<rparr>) l = set_focused_view ((focused_view l)\<lparr>v_rx := rx\<rparr>) l"
    if "\<not> scratch_focused l"
    using that by (simp add: set_focused_view_def w_def focused_view_def)
  have lv: "layout_ok (set_focused_view ((focused_view l)\<lparr>v_rx := rx\<rparr>) l)"
    by (rule set_view_ok[OF l]) (simp add: known_focused[OF l])
  have sv: "synced (set_focused_view ((focused_view l)\<lparr>v_rx := rx\<rparr>) l) \<longleftrightarrow> synced l" by (simp add: synced_def)
  have ok: "layout_ok ?l" "synced l \<Longrightarrow> synced ?l"
    using l lv v sv by auto
  have sf: "scratch_focused ?l = scratch_focused l" "b_id (active_buffer ?l) = b_id (active_buffer l)"
    by (auto simp: v scratch_focused_def set_focused_view_def set_focused_win_def active_buffer_def
        scratch_buffer_def split: option.split)
  have b: "b_id ?b = b_id (active_buffer ?l)" using sf(2) by simp
  show "layout_ok l'" "synced l \<Longrightarrow> synced l'" "scratch_focused l' = scratch_focused l"
    "b_id (active_buffer l') = b_id (active_buffer l)"
    using set_active_buffer_ok[OF ok(1) b] ok(2) sf unfolding l' by simp_all
qed

lemma set_dot_coords_ok:
  assumes l: "layout_ok l" and op: "set_dot_from_screen_coords d x y l = Some (r, l')"
  shows "layout_ok l'"
proof -
  obtain i l1 c l2 where st: "focus_buffer_for_screen_coords x y (l\<lparr>ly_changed := True\<rparr>) = Some (i, l1)"
    "cur_from_screen_coords d x y l1 = Some (c, l2)"
    "l' = set_active_buffer ((active_buffer l2)\<lparr>b_dot := DotCur c\<rparr>) l2"
    using op by (auto simp: set_dot_from_screen_coords_def Let_def bind_eq_Some_conv)
  have "layout_ok l1" using focus_coords_ok[OF _ st(1)] l by simp
  then show ?thesis using cur_from_coords_ok(1)[OF _ st(2)] set_active_buffer_ok(1) st(3) by simp
qed

subsection \<open>Scrolling\<close>

lemma apply_scroll_ids:
  assumes "apply_scroll d n f up k w b = Some (w', b')"
  shows "win_id w' = win_id w" "b_id b' = b_id b" "w_n_rows w' = w_n_rows w"
proof -
  have c: "view_clamp_scroll d a e v b = Some (v', b') \<Longrightarrow> v_bufid v' = v_bufid v \<and> b_id b' = b_id b" for a e v b v' b'
    using view_keepsD[OF clamp_scroll_keeps] .
  show "win_id w' = win_id w" "b_id b' = b_id b" "w_n_rows w' = w_n_rows w"
    using assms unfolding apply_scroll_def Let_def
    by (auto simp: bind_eq_Some_conv dest!: c split: if_splits)
qed

lemma bs_update_id_ids:
  assumes "bs_update_id i f bs = Some (r, bs')" "\<And>b r b'. f b = Some (r, b') \<Longrightarrow> b_id b' = b_id b"
  shows "bs_ids bs' = bs_ids bs" "bs_next_id bs' = bs_next_id bs" "bs_jump_list bs' = bs_jump_list bs"
    "b_id (bs_active bs') = b_id (bs_active bs)"
proof -
  obtain b b' where b: "with_id i bs = Some b" "f b = Some (r, b')"
    "bs' = bs\<lparr>bs_inner := zl_update_first (\<lambda>b. b_id b = i) (\<lambda>_. b') (bs_inner bs)\<rparr>"
    using assms(1) by (auto simp: bs_update_id_def bind_eq_Some_conv)
  have "b_id b = i" using b(1) by (auto simp: with_id_def dest: find_find_some)
  then have i: "b_id b' = i" using assms(2)[OF b(2)] by simp
  have l: "map b_id (list_update_first (\<lambda>b. b_id b = i) (\<lambda>_. b') xs) = map b_id xs" for xs
    by (rule list_update_first_map) (simp add: i)
  show "bs_ids bs' = bs_ids bs" "bs_next_id bs' = bs_next_id bs" "bs_jump_list bs' = bs_jump_list bs"
    "b_id (bs_active bs') = b_id (bs_active bs)"
    using l[of "zl_list (bs_inner bs)"] by (auto simp: b(3) zl_update_first_list)
      (auto simp: zl_update_first_def bs_active_def i)
qed

lemma scroll_win_ids:
  assumes "scroll_win d up k n f w bs = Some (w', bs')"
  shows "win_id w' = win_id w" "bs_ids bs' = bs_ids bs"
    "bs_next_id bs' = bs_next_id bs" "bs_jump_list bs' = bs_jump_list bs"
    "b_id (bs_active bs') = b_id (bs_active bs)"
proof -
  have op: "bs_update_id (win_id w) (apply_scroll d n f up k w) bs = Some (w', bs')"
    using assms by (simp add: scroll_win_def)
  have a: "b_id b' = b_id b" if "apply_scroll d n f up k w b = Some (r, b')" for b r b'
    using that by (rule apply_scroll_ids(2))
  note ids = bs_update_id_ids[OF op, OF a]
  show "bs_ids bs' = bs_ids bs" "bs_next_id bs' = bs_next_id bs" "bs_jump_list bs' = bs_jump_list bs"
    "b_id (bs_active bs') = b_id (bs_active bs)" by (rule ids; assumption)+
  obtain b b' where "apply_scroll d n f up k w b = Some (w', b')"
    using op by (auto simp: bs_update_id_def bind_eq_Some_conv)
  then show "win_id w' = win_id w" by (rule apply_scroll_ids(1))
qed

definition same_buffers :: "buffers \<Rightarrow> buffers \<Rightarrow> bool" where
  "same_buffers bs bs' \<longleftrightarrow> bs_ids bs' = bs_ids bs \<and> bs_next_id bs' = bs_next_id bs \<and>
     bs_jump_list bs' = bs_jump_list bs \<and> b_id (bs_active bs') = b_id (bs_active bs)"

definition keeps_ids :: "(window \<Rightarrow> buffers \<Rightarrow> (window \<times> buffers) option) \<Rightarrow> bool" where
  "keeps_ids f \<longleftrightarrow> (\<forall>w bs w' bs'. f w bs = Some (w', bs') \<longrightarrow> win_id w' = win_id w \<and> same_buffers bs bs')"

lemma scroll_win_keeps [simp]: "keeps_ids (scroll_win d up k n f)"
  by (auto simp: keeps_ids_def same_buffers_def scroll_win_ids(2-) dest: scroll_win_ids(1))

lemma keeps_idsD: "keeps_ids f \<Longrightarrow> f w bs = Some (w', bs') \<Longrightarrow> win_id w' = win_id w \<and> same_buffers bs bs'"
  by (simp add: keeps_ids_def)

lemma scroll_wins_ids:
  assumes f: "\<And>b. keeps_ids (f b)" and op: "scroll_wins f y yo ws bs = Some (Inr (ws', bs'))"
  shows "map win_id ws' = map win_id (map snd ws) \<and> same_buffers bs bs'"
  using op
proof (induction ws arbitrary: yo ws')
  case (Cons x ws)
  obtain b w where x: "x = (b, w)" by fastforce
  show ?case
  proof (cases "yo + w_n_rows w < y")
    case True
    then obtain r where r: "scroll_wins f y (yo + (w_n_rows w + 1)) ws bs = Some r"
      "(case r of Inl off \<Rightarrow> Inl off | Inr (ws, bs) \<Rightarrow> Inr (w # ws, bs)) = Inr (ws', bs')"
      using Cons(2) x by (auto simp: bind_eq_Some_conv)
    then obtain us where "r = Inr (us, bs')" "ws' = w # us" by (cases r) auto
    then show ?thesis using Cons(1) r(1) x by simp
  next
    case False
    then obtain w' where "f b w bs = Some (w', bs')" "ws' = w' # map snd ws"
      using Cons(2) x by (auto simp: bind_eq_Some_conv)
    then show ?thesis using keeps_idsD[OF f] x by auto
  qed
qed simp

lemma zl_replace_list: "length xs = zl_len z \<Longrightarrow> zl_list (zl_replace z xs) = xs"
  by (simp add: zl_replace_def zl_list_def zl_len_def Let_def id_take_nth_drop[symmetric])

lemma scroll_cols_ids:
  assumes f: "\<And>n b. keeps_ids (f n b)" and op: "scroll_cols f x y xo yo cs bs = Some (Inr (cs', bs'))"
  shows "map col_key cs' = map col_key (map snd cs) \<and> same_buffers bs bs'"
  using op
proof (induction cs arbitrary: xo yo cs')
  case (Cons e cs)
  obtain b c where e: "e = (b, c)" by fastforce
  define go_on where "go_on = (\<lambda>xo yo. do {
      r \<leftarrow> scroll_cols f x y xo yo cs bs;
      Some (case r of Inl off \<Rightarrow> Inl off | Inr (cs, bs) \<Rightarrow> Inr (c # cs, bs)) })"
  have go: "map col_key cs' = map col_key (map snd (e # cs)) \<and> same_buffers bs bs'"
    if g: "go_on xo yo = Some (Inr (cs', bs'))" for xo yo
  proof -
    obtain r where r: "scroll_cols f x y xo yo cs bs = Some r"
      "(case r of Inl off \<Rightarrow> Inl off | Inr (cs, bs) \<Rightarrow> Inr (c # cs, bs)) = Inr (cs', bs')"
      using g by (auto simp: go_on_def bind_eq_Some_conv)
    then obtain us where "r = Inr (us, bs')" "cs' = c # us" by (cases r) auto
    then show ?thesis using Cons(1) r(1) e by simp
  qed
  show ?case
  proof (cases "xo + c_n_cols c < x")
    case True
    then show ?thesis using Cons(2) e by (intro go[of "xo + (c_n_cols c + 1)" yo]) (simp add: go_on_def)
  next
    case False
    obtain r where r: "scroll_wins (\<lambda>fw. f (c_n_cols c) (b \<and> fw)) y yo (zl_iter (c_wins c)) bs = Some r"
      using Cons(2) e False by (auto simp: bind_eq_Some_conv)
    show ?thesis
    proof (cases r)
      case (Inl yo')
      then show ?thesis using Cons(2) e False r by (intro go[of xo yo']) (simp add: go_on_def)
    next
      case (Inr p)
      then obtain ws where p: "r = Inr (ws, bs')" "cs' = c\<lparr>c_wins := zl_replace (c_wins c) ws\<rparr> # map snd cs"
        using Cons(2) e False r by (cases p) auto
      have w: "map win_id ws = map win_id (flatten (c_wins c))" "same_buffers bs bs'"
        using scroll_wins_ids[of "\<lambda>fw. f (c_n_cols c) (b \<and> fw)" y yo "zl_iter (c_wins c)" bs ws bs', OF f] r p(1)
        by (simp_all add: flatten_def)
      have "length ws = zl_len (c_wins c)" using arg_cong[OF w(1), of length] by (simp add: zl_simps zl_len_eq)
      then have "zl_list (zl_replace (c_wins c) ws) = ws" by (rule zl_replace_list)
      then have "wins_show (zl_replace (c_wins c) ws) = wins_show (c_wins c)"
        unfolding wins_show_alt using w(1) by (simp only: zl_simps)
      then show ?thesis using p(2) w(2) e by (simp add: col_key_def)
    qed
  qed
qed simp

lemma bs_ok_same: "bs_ok bs \<Longrightarrow> same_buffers bs bs' \<Longrightarrow> bs_ok bs'"
  by (rule bs_ok_jumps) (auto simp: same_buffers_def bs_ok_jl)

lemma scroll_view_ok:
  assumes l: "layout_ok l" and op: "scroll_view d x y up k l = Some l'"
  shows "layout_ok l'"
proof -
  define l0 where "l0 = l\<lparr>ly_changed := True\<rparr>"
  have l0: "layout_ok l0" using l by (simp add: l0_def)
  obtain sc where sc: "row_is_scratch y l0 = Some sc"
    using op by (auto simp: scroll_view_def Let_def bind_eq_Some_conv l0_def)
  show ?thesis
  proof (cases sc)
    case True
    then obtain s where "l' = l0\<lparr>ly_scratch := s\<rparr>"
      using op sc unfolding scroll_view_def l0_def[symmetric] Let_def
      by (auto simp: bind_eq_Some_conv split: prod.splits)
    then show ?thesis using l0 by simp
  next
    case False
    let ?f = "scroll_win d up k"
    obtain r where r: "scroll_cols ?f x y 0 0 (zl_iter (ly_cols l0)) (ly_buffers l0) = Some r"
      using op sc False unfolding scroll_view_def l0_def[symmetric] Let_def by (auto simp: bind_eq_Some_conv)
    show ?thesis
    proof (cases r)
      case (Inr p)
      obtain cs bs where p: "p = (cs, bs)" by fastforce
      have l': "l' = l0\<lparr>ly_cols := zl_replace (ly_cols l0) cs, ly_buffers := bs\<rparr>"
        using op sc False r Inr p unfolding scroll_view_def l0_def[symmetric] Let_def by simp
      have ids: "map col_key cs = map col_key (flatten (ly_cols l0))" "same_buffers (ly_buffers l0) bs"
        using scroll_cols_ids[OF scroll_win_keeps] r Inr p by (simp_all add: flatten_def)
      have "length cs = zl_len (ly_cols l0)" using arg_cong[OF ids(1), of length] by (simp add: zl_simps zl_len_eq)
      then have "map col_key (zl_list (zl_replace (ly_cols l0) cs)) = map col_key (zl_list (ly_cols l0))"
        using ids(1) by (simp add: zl_replace_list zl_simps)
      then have "layout_ok (l0\<lparr>ly_cols := zl_replace (ly_cols l0) cs\<rparr>)" by (intro same_keys_ok[OF l0]) simp
      from layout_ok_same_ids[OF this bs_ok_same[OF layout_ok_bs[OF l0] ids(2)]] show ?thesis
        using ids(2) by (simp add: l' same_buffers_def)
    next
      case (Inl yo)
      then obtain w bs where w: "scroll_win d up k (c_n_cols (focused_col l0)) True (focused_win l0) (ly_buffers l0) = Some (w, bs)"
        "l' = set_focused_win w (l0\<lparr>ly_buffers := bs\<rparr>)"
        using op sc False r unfolding scroll_view_def l0_def[symmetric] Let_def by (auto simp: bind_eq_Some_conv)
      have k: "win_id w = win_id (focused_win l0)" "same_buffers (ly_buffers l0) bs"
        using keeps_idsD[OF scroll_win_keeps w(1)] by blast+
      let ?l = "l0\<lparr>ly_buffers := bs\<rparr>"
      have ok: "layout_ok ?l"
        by (rule layout_ok_same_ids[OF l0 bs_ok_same[OF layout_ok_bs[OF l0] k(2)]]) (use k(2) in \<open>simp add: same_buffers_def\<close>)
      have foc: "focused_col ?l = focused_col l0" "focused_win ?l = focused_win l0" by (simp_all add: focused_col_def focused_win_def)
      have "wins_show ((c_wins (focused_col l0))\<lparr>z_focus := w\<rparr>) \<subseteq> wins_show (c_wins (focused_col l0))"
        using k(1) by (auto simp: wins_show_def zl_list_def focused_win_def)
      then have "layout_ok (set_focused_wins ((c_wins (focused_col ?l))\<lparr>z_focus := w\<rparr>) ?l)"
        using focused_wins_known[OF ok] unfolding foc by (intro set_wins_ok[OF ok]) auto
      then show ?thesis by (simp add: w(2) set_focused_win_def)
    qed
  qed
qed

subsection \<open>Filters and changes\<close>

lemma set_filter_ok: "layout_ok l \<Longrightarrow> layout_ok (set_filter_of i f l)"
proof -
  assume l: "layout_ok l"
  have ids: "bs_ids ((ly_buffers l)\<lparr>bs_inner := zl_update_first P (\<lambda>b. b\<lparr>b_input_filter := f\<rparr>) (bs_inner (ly_buffers l))\<rparr>)
      = bs_ids (ly_buffers l)" for P
    by (simp add: zl_update_first_list list_update_first_map)
  show ?thesis unfolding set_filter_of_def Let_def
    by (rule layout_ok_same_ids[OF l _ ids], rule bs_ok_jumps[OF layout_ok_bs[OF l] _ ids])
      (simp_all add: bs_ok_jl layout_ok_bs[OF l])
qed

lemma input_filter_ok:
  "layout_ok l \<Longrightarrow> layout_ok (snd (try_set_input_filter i f l))"
  "layout_ok l \<Longrightarrow> layout_ok (clear_input_filter i l)"
  by (auto simp: try_set_input_filter_def clear_input_filter_def set_main_filter_def Let_def set_filter_ok
      split: option.split)

lemma had_change_ok: "layout_ok l \<Longrightarrow> layout_ok (snd (layout_had_change l))"
proof -
  assume l: "layout_ok l"
  have ids: "bs_ids ((ly_buffers l)\<lparr>bs_inner := zl_map (\<lambda>b. b\<lparr>b_changed_since_last_render := False\<rparr>) (bs_inner (ly_buffers l))\<rparr>)
      = bs_ids (ly_buffers l)"
    by (simp add: zl_map_def zl_list_def comp_def rev_map)
  have "layout_ok (l\<lparr>ly_buffers := (ly_buffers l)\<lparr>bs_inner :=
      zl_map (\<lambda>b. b\<lparr>b_changed_since_last_render := False\<rparr>) (bs_inner (ly_buffers l))\<rparr>\<rparr>)"
    by (rule layout_ok_same_ids[OF l _ ids], rule bs_ok_jumps[OF layout_ok_bs[OF l] _ ids])
      (simp_all add: bs_ok_jl layout_ok_bs[OF l])
  then show ?thesis
    by (rule layout_ok_cong) (simp_all add: layout_had_change_def Let_def)
qed

end
