(* ===== verification/LayoutProperties.thy ===== *)
theory LayoutProperties
  imports LayoutFocus
begin

text \<open>
  What the window layout (src/ui/layout.rs) keeps: the states that its operations reach, which
  windows are shown, where the focus is and what a mouse click selects.
\<close>

subsection \<open>Reachable layouts\<close>

text \<open>
  One call of the editor. The screen keeps its size: after a resize the columns can leave part of
  the width free. An edit replaces the active buffer by one with the same identifier.
\<close>

inductive layout_step :: "(uchar \<Rightarrow> bool) \<Rightarrow> display \<Rightarrow> files \<Rightarrow> layout \<Rightarrow> layout \<Rightarrow> bool" for alnum d fs where
  Open: "layout_open_or_focus alnum d fs p in_new l = Some (r, l') \<Longrightarrow> layout_step alnum d fs l l'"
| OpenVirtual: "layout_open_virtual name content in_new l = Some l' \<Longrightarrow> layout_step alnum d fs l l'"
| Ensure: "layout_ensure_file_is_open fs p l = Some l' \<Longrightarrow> layout_step alnum d fs l l'"
| WriteOutput: "layout_write_output i s cwd l = Some l' \<Longrightarrow> layout_step alnum d fs l l'"
| CloseBuffer: "layout_close_buffer i l = Some (r, l') \<Longrightarrow> layout_step alnum d fs l l'"
| CloseWindow: "close_active_window l = Some (r, l') \<Longrightarrow> layout_step alnum d fs l l'"
| CloseColumn: "close_active_column l = Some (r, l') \<Longrightarrow> layout_step alnum d fs l l'"
| NewWindow: "new_window l = Some l' \<Longrightarrow> layout_step alnum d fs l l'"
| NewColumn: "new_column l = Some l' \<Longrightarrow> layout_step alnum d fs l l'"
| Balance: "balance_all l = Some l' \<Longrightarrow> layout_step alnum d fs l l'"
| ResizeColumn: "resize_active_column n l = Some l' \<Longrightarrow> layout_step alnum d fs l l'"
| ResizeColumnNext: "resize_active_column_against_next n l = Some l' \<Longrightarrow> layout_step alnum d fs l l'"
| ResizeWindow: "resize_active_window n l = Some l' \<Longrightarrow> layout_step alnum d fs l l'"
| ResizeWindowNext: "resize_active_window_against_next n l = Some l' \<Longrightarrow> layout_step alnum d fs l l'"
| DragUp: "layout_step alnum d fs l (drag_up l)"
| DragDown: "layout_step alnum d fs l (drag_down l)"
| DragLeft: "drag_left l = Some l' \<Longrightarrow> layout_step alnum d fs l l'"
| DragRight: "drag_right l = Some l' \<Longrightarrow> layout_step alnum d fs l l'"
| NextColumn: "next_column d l = Some l' \<Longrightarrow> layout_step alnum d fs l l'"
| PrevColumn: "prev_column d l = Some l' \<Longrightarrow> layout_step alnum d fs l l'"
| NextWindow: "next_window_in_column d l = Some l' \<Longrightarrow> layout_step alnum d fs l l'"
| PrevWindow: "prev_window_in_column d l = Some l' \<Longrightarrow> layout_step alnum d fs l l'"
| NextBuffer: "layout_step alnum d fs l (snd (focus_next_buffer l))"
| PrevBuffer: "layout_step alnum d fs l (snd (focus_previous_buffer l))"
| FocusId: "layout_step alnum d fs l (layout_focus_id i force l)"
| FocusSilent: "layout_step alnum d fs l (layout_focus_id_silent i l)"
| FocusForResize: "focus_column_and_window_for_resize i j l = Some l' \<Longrightarrow> layout_step alnum d fs l l'"
| FocusColumn: "focus_column_for_resize i l = Some l' \<Longrightarrow> layout_step alnum d fs l l'"
| RecordJump: "layout_step alnum d fs l (layout_record_jump_position l)"
| JumpForward: "jump_forward d l = Some (r, l') \<Longrightarrow> layout_step alnum d fs l l'"
| JumpBackward: "jump_backward d l = Some (r, l') \<Longrightarrow> layout_step alnum d fs l l'"
| Viewport: "layout_set_viewport d vp l = Some l' \<Longrightarrow> layout_step alnum d fs l l'"
| ClampScroll: "clamp_scroll d l = Some l' \<Longrightarrow> layout_step alnum d fs l l'"
| ScrollView: "scroll_view d x y up n l = Some l' \<Longrightarrow> layout_step alnum d fs l l'"
| Click: "set_dot_from_screen_coords d x y l = Some (same, l') \<Longrightarrow> layout_step alnum d fs l l'"
| FocusClick: "focus_buffer_for_screen_coords x y l = Some (i, l') \<Longrightarrow> layout_step alnum d fs l l'"
| SetFilter: "layout_step alnum d fs l (snd (try_set_input_filter i f l))"
| ClearFilter: "layout_step alnum d fs l (clear_input_filter i l)"
| ToggleScratch: "layout_step alnum d fs l (toggle_scratch l)"
| OpenScratch: "open_transient_scratch name content l = Some l' \<Longrightarrow> layout_step alnum d fs l l'"
| Rendered: "layout_step alnum d fs l (snd (layout_had_change l))"
| Edit: "b_id b = b_id (active_buffer l) \<Longrightarrow> layout_step alnum d fs l (set_active_buffer b l)"

inductive layout_reachable :: "(uchar \<Rightarrow> bool) \<Rightarrow> display \<Rightarrow> files \<Rightarrow> layout \<Rightarrow> bool" for alnum d fs where
  Start: "layout_new minibuffer_lines rows cols = Some l \<Longrightarrow> layout_reachable alnum d fs l"
| Step: "layout_reachable alnum d fs l \<Longrightarrow> layout_step alnum d fs l l' \<Longrightarrow> layout_reachable alnum d fs l'"

lemma layout_changed_scratch [simp]:
  "layout_ok (l\<lparr>ly_scratch := s, ly_changed := b\<rparr>) \<longleftrightarrow> layout_ok l"
  "layout_ok (l\<lparr>ly_changed := b, ly_scratch := s\<rparr>) \<longleftrightarrow> layout_ok l"
  by (auto intro: layout_ok_cong)

lemma layout_step_ok: "layout_step alnum d fs l l' \<Longrightarrow> layout_ok l \<Longrightarrow> layout_ok l'"
proof (induction rule: layout_step.induct)
  case (Open p in_new l r l')
  then show ?case using layout_open_ok(1) by blast
next
  case (OpenScratch name content l l')
  then show ?case by (auto simp: open_transient_scratch_def bind_eq_Some_conv)
next
  case (ToggleScratch l)
  then show ?case by (simp add: toggle_scratch_def)
next
  case (Viewport vp l l')
  then show ?case using with_active_view_ok(1)[OF _ set_viewport_keeps] by (simp add: layout_set_viewport_def)
next
  case (Edit b l)
  then show ?case using set_active_buffer_ok(1) by blast
qed (auto intro: layout_open_virtual_ok layout_ensure_ok layout_write_output_ok layout_close_ok close_window_ok
    close_column_ok new_window_ok new_column_ok balance_all_ok resize_columns_ok resize_windows_ok
    drag_up_down_ok drag_left_ok drag_right_ok focus_buffer_step_ok focus_id_layout_ok focus_silent_ok
    focus_both_ok focus_for_resize_ok record_jump_layout_ok jumps_ok clamp_scroll_ok scroll_view_ok
    set_dot_coords_ok focus_coords_ok input_filter_ok had_change_ok dest: move_focus_ok)

lemma layout_new_shape:
  assumes "layout_new n rows cols = Some l"
  obtains c w where "ly_cols l = zl_new [] c []" "zl_list (c_wins c) = [w]" "z_focus (c_wins c) = w"
    "win_id w = b_id (bs_active (ly_buffers l))" "c_n_cols c = cols" "w_n_rows w = rows"
    "ly_screen_cols l = cols" "ly_screen_rows l = rows" "bs_ok (ly_buffers l)"
    "\<not> s_is_visible (ly_scratch l)" "\<not> scratch_focused l"
proof -
  obtain s bs c where st: "scratch_new n = Some s" "buffers_new = Some bs"
    "column_new rows cols [b_id (bs_active bs)] = Some c"
    "l = \<lparr>ly_buffers = bs, ly_scratch = s, ly_screen_rows = rows, ly_screen_cols = cols,
       ly_cols = zl_new [] c [], ly_views = [], ly_changed = False\<rparr>"
    using assms by (auto simp: layout_new_def bind_eq_Some_conv)
  have "\<not> s_is_visible s \<and> \<not> s_is_focused s" using st(1) by (auto simp: scratch_new_def bind_eq_Some_conv)
  then show thesis
    using that st(3,4) buffers_new_ok[OF st(2)] by (auto simp: scratch_focused_def elim!: column_new_single)
qed

lemma zl_new_focus: "z_focus (zl_new [] x []) = x"
  by (simp add: zl_new_def)

lemma layout_new_ok: "layout_new n rows cols = Some l \<Longrightarrow> layout_ok l \<and> synced l"
  by (erule layout_new_shape)
    (auto simp: layout_ok_def shown_def wins_show_def known_def zl_new_list fills_def zl_len_eq synced_def
      focused_view_def focused_win_def focused_col_def zl_new_focus)

lemma layout_new_some: "\<exists>l. layout_new n rows cols = Some l"
proof -
  obtain gb where "gb_from_str [] = Some gb" using gb_from_str_holds[of "[]"] by auto
  then have "\<exists>s. scratch_new n = Some s"
    by (auto simp: scratch_new_def new_virtual_def normalize_line_endings_def)
  then obtain s where s: "scratch_new n = Some s" by blast
  obtain bs where bs: "buffers_new = Some bs" using buffers_new_some by blast
  obtain c where c: "column_new rows cols [b_id (bs_active bs)] = Some c" using column_new_single_some by blast
  show ?thesis unfolding layout_new_def s bind.bind_lunit bs c by blast
qed

lemma layout_reachable_ok: "layout_reachable alnum d fs l \<Longrightarrow> layout_ok l"
  by (induction rule: layout_reachable.induct) (auto dest: layout_new_ok intro: layout_step_ok)

subsection \<open>The windows\<close>




subsection \<open>The focus\<close>

lemma clamp_scratch_same:
  "clamp_scratch d l = Some l' \<Longrightarrow> ly_buffers l' = ly_buffers l \<and> ly_cols l' = ly_cols l \<and>
     ly_screen_cols l' = ly_screen_cols l"
  by (auto simp: clamp_scratch_def Let_def bind_eq_Some_conv split: if_splits)

lemma clamp_others_focus:
  "clamp_others l = Some l' \<Longrightarrow> ly_buffers l' = ly_buffers l \<and> focused_view l' = focused_view l"
  by (auto simp: clamp_others_def clamp_focused_col_def Let_def bind_eq_Some_conv focused_view_def
      focused_win_def focused_col_def)

lemma clamp_scroll_synced:
  assumes "layout_ok l" "synced l" "clamp_scroll d l = Some l'"
  shows "synced l'"
proof -
  obtain l1 l2 where st: "clamp_scratch d l = Some l1" "clamp_active d l1 = Some l2" "clamp_others l2 = Some l'"
    using assms(3) by (auto simp: clamp_scroll_def bind_eq_Some_conv)
  note same = clamp_scratch_same[OF st(1)]
  have l1: "layout_ok l1" "synced l1"
    using layout_ok_cong[OF assms(1)] assms(2) same synced_cong[of l1 l] by simp_all
  obtain v b where vb: "view_clamp_scroll d (w_n_rows (focused_win l1)) (c_n_cols (focused_col l1))
      (focused_view l1) (bs_active (ly_buffers l1)) = Some (v, b)"
    "l2 = set_focused_view v (l1\<lparr>ly_buffers := bs_set_active b (ly_buffers l1)\<rparr>)"
    using st(2) by (auto simp: clamp_active_def bind_eq_Some_conv)
  have "synced l2"
    unfolding vb(2) using view_keepsD[OF clamp_scroll_keeps vb(1)] set_active_view_ok(2)[OF l1(1)] l1(2) by blast
  then show ?thesis using clamp_others_focus[OF st(3)] by (simp add: synced_def)
qed

lemma click_lands:
  assumes l: "layout_ok l" and full: "\<forall>c \<in> set (zl_list (ly_cols l)). fills w_n_rows (ly_screen_rows l) (c_wins c)"
    and xy: "x \<le> ly_screen_cols l" "y \<le> ly_screen_rows l" "row_is_scratch y l = Some False"
  shows "\<exists>i l'. buffer_for_screen_coords x y l = Some i \<and>
    focus_buffer_for_screen_coords x y l = Some (i, l') \<and> \<not> scratch_focused l' \<and>
    v_bufid (focused_view l') = i \<and> b_id (active_buffer l') = i"
proof -
  have hit: "\<exists>w \<in> set (zl_list (c_wins c)). win_at y 0 (zl_list (c_wins c)) = Inr w"
    if "c \<in> set (zl_list (ly_cols l))" for c
    by (rule win_at_found) (use full xy(2) that in \<open>auto simp: fills_def zl_len_eq\<close>)
  have "x < 0 + sum_list (map c_n_cols (zl_list (ly_cols l))) + length (zl_list (ly_cols l))"
    using l xy(1) by (simp add: layout_ok_def fills_def zl_len_eq)
  from win_at_cols_found[OF hit _ this] obtain w where w: "win_at_cols x y 0 0 (zl_list (ly_cols l)) = Some w"
    by auto
  define l1 where "l1 = set_scratch_focused False (l\<lparr>ly_changed := True\<rparr>)"
  have l1: "ly_cols l1 = ly_cols l" "ly_buffers l1 = ly_buffers l" "layout_ok l1" "\<not> scratch_focused l1"
    using l by (simp_all add: l1_def set_scratch_focused_def scratch_focused_def)
  obtain r cs where cs: "focus_col_at x y (zl_len (ly_cols l)) 0 0 (focus_head (ly_cols l)) = (r, cs)" by fastforce
  have "fst (focus_col_at x y (Suc (length (z_down (focus_head (ly_cols l))))) 0 0 (focus_head (ly_cols l))) = Some (win_id w)"
    by (rule focus_col_at_hit) (use hit w in \<open>auto simp only: at_head(2)\<close>)
  then have r: "r = Some (win_id w)" using cs by (simp add: at_head(3))
  have k: "map col_key (zl_list cs) = map col_key (zl_list (ly_cols l))"
    "win_id (z_focus (c_wins (z_focus cs))) = win_id w"
    using focus_col_at_keeps[OF cs, of "win_id w"] r by (simp_all add: zl_simps)
  define l2 where "l2 = l1\<lparr>ly_cols := cs\<rparr>"
  have l2: "layout_ok l2" unfolding l2_def by (rule same_keys_ok[OF l1(3)]) (simp add: k l1)
  have fv: "v_bufid (focused_view l2) = win_id w"
    using k(2) by (simp add: l2_def focused_view_def focused_win_def focused_col_def)
  define l' where "l' = layout_buffers_focus_id (win_id w) l2"
  have s: "synced l'" using focus_id_synced[OF l2] fv by (simp add: l'_def)
  have f: "v_bufid (focused_view l') = win_id w" "\<not> scratch_focused l'"
    using fv l1(4) by (simp_all add: l'_def layout_buffers_focus_id_def focused_view_def focused_win_def focused_col_def
        scratch_focused_def l2_def)
  have "row_is_scratch y (l\<lparr>ly_changed := True\<rparr>) = row_is_scratch y l" by (simp add: row_is_scratch_def)
  then have sc: "row_is_scratch y (l\<lparr>ly_changed := True\<rparr>) = Some False" using xy(3) by simp
  have "focus_buffer_for_screen_coords x y l = Some (win_id w, l')"
    using sc cs r l1 by (simp add: focus_buffer_for_screen_coords_def Let_def l1_def[symmetric] l'_def l2_def)
  moreover have "buffer_for_screen_coords x y l = Some (win_id w)"
    using xy(3) w by (simp add: buffer_for_screen_coords_def zl_simps)
  moreover have "b_id (active_buffer l') = win_id w" using s f by (simp add: synced_def active_buffer_def)
  ultimately show ?thesis using f by blast
qed

text \<open>
  C16: after a file is opened, after the focused window or column is closed, and after a move to
  another window, column or buffer, the focused window shows the active buffer; clamping the
  scroll offsets afterwards, as every iteration of the editor does, keeps it so.
\<close>

theorem focus_shows_active:
  assumes l: "layout_reachable alnum d fs l" and scratch: "\<not> scratch_focused l"
    and op: "layout_open_or_focus alnum d fs p in_new l = Some (Inr r, l') \<or>
      close_active_window l = Some (False, l') \<or> close_active_column l = Some (False, l') \<or>
      next_column d l = Some l' \<or> prev_column d l = Some l' \<or>
      next_window_in_column d l = Some l' \<or> prev_window_in_column d l = Some l' \<or>
      snd (focus_next_buffer l) = l' \<or> snd (focus_previous_buffer l) = l'"
  shows "v_bufid (focused_view l') = b_id (bs_active (ly_buffers l')) \<and>
    (clamp_scroll d l' = Some l'' \<longrightarrow> v_bufid (focused_view l'') = b_id (bs_active (ly_buffers l'')))"
proof -
  have ok: "layout_ok l" using l by (rule layout_reachable_ok)
  have close: "synced l' \<and> layout_ok l'"
    if "close_active_window l = Some (False, l') \<or> close_active_column l = Some (False, l')"
    using that close_window_ok[OF ok, of False l'] close_column_ok[OF ok, of False l'] scratch by auto
  have s: "synced l' \<and> layout_ok l'"
    using op by (elim disjE)
      (use close layout_open_ok[OF ok] move_focus_ok[OF ok, of d l'] focus_buffer_step_ok[OF ok] in \<open>auto\<close>)
  then show ?thesis using clamp_scroll_synced by (auto simp: synced_def)
qed

lemma focus_shows_active_witness:
  "\<exists>l l'. layout_new 5 40 100 = Some l \<and> snd (focus_next_buffer l) = l' \<and>
     v_bufid (focused_view l') = b_id (bs_active (ly_buffers l'))"
proof -
  obtain l where l: "layout_new 5 40 100 = Some l" using layout_new_some by blast
  then have "\<not> scratch_focused l" by (rule layout_new_shape)
  then show ?thesis
    using focus_shows_active[OF layout_reachable.Start[OF l],
        where l' = "snd (focus_next_buffer l)" and alnum = "\<lambda>_. False" and d = small_display and fs = no_files] l by simp
qed

text \<open>
  C17: a click inside the windows, whose columns are filled with windows, gives the focus to the
  window under it: the search that moves the focus returns the buffer that the search without
  effects names, and afterwards the focused window shows that buffer, which is the active one.
\<close>

theorem click_focuses_window:
  assumes l: "layout_reachable alnum d fs l"
    and full: "\<forall>c \<in> set (flatten (ly_cols l)).
      sum_list (map w_n_rows (flatten (c_wins c))) + zl_len (c_wins c) = ly_screen_rows l + 1"
    and xy: "x \<le> ly_screen_cols l" "y \<le> ly_screen_rows l" "row_is_scratch y l = Some False"
  shows "\<exists>i l'. buffer_for_screen_coords x y l = Some i \<and>
    focus_buffer_for_screen_coords x y l = Some (i, l') \<and> \<not> scratch_focused l' \<and>
    v_bufid (focused_view l') = i \<and> b_id (active_buffer l') = i"
  by (rule click_lands[OF layout_reachable_ok[OF l] _ xy]) (use full in \<open>simp add: fills_def zl_simps\<close>)

lemma click_focuses_window_witness:
  "\<exists>l i l'. layout_new 5 40 100 = Some l \<and> focus_buffer_for_screen_coords 7 3 l = Some (i, l') \<and>
     v_bufid (focused_view l') = i"
proof -
  obtain l where l: "layout_new 5 40 100 = Some l" using layout_new_some by blast
  then obtain c w where n: "ly_cols l = zl_new [] c []" "zl_list (c_wins c) = [w]" "w_n_rows w = 40"
    "ly_screen_cols l = 100" "ly_screen_rows l = 40" "\<not> s_is_visible (ly_scratch l)"
    by (rule layout_new_shape)
  then show ?thesis
    using click_focuses_window[OF layout_reachable.Start[OF l], of 7 3] l
    by (auto simp: zl_simps zl_new_list zl_len_eq row_is_scratch_def)
qed

subsection \<open>Dragging past a column\<close>

text \<open>
  The only window of the last of three columns goes to the first column, not to the one beside it:
  the test for the leftmost column is made before the column is removed, when it always fails.
\<close>

lemma balance_columns_up: "balance_columns l = Some l' \<Longrightarrow> length (z_up (ly_cols l')) = length (z_up (ly_cols l))"
  by (auto simp: balance_columns_def zl_map_enumerate_def Let_def bind_eq_Some_conv)

lemma balance_active_up: "balance_active_column l = Some l' \<Longrightarrow> length (z_up (ly_cols l')) = length (z_up (ly_cols l))"
  by (auto simp: balance_active_column_def set_focused_col_def bind_eq_Some_conv)

lemma drag_left_skips_column:
  assumes "z_up (ly_cols l) = [b, a]" "z_down (ly_cols l) = []" "zl_len (c_wins (focused_col l)) = 1"
    and "drag_left l = Some l'"
  shows "z_up (ly_cols l') = []"
proof -
  have rm: "remove_focused_unchecked (ly_cols l) = Some (z_focus (ly_cols l), \<lparr>z_up = [a], z_focus = b, z_down = []\<rparr>)"
    using assms(1,2) by (simp add: remove_focused_unchecked_def pop_next_def pop_front_def)
  obtain l1 l2 where st: "balance_columns ((touch l)\<lparr>ly_cols := \<lparr>z_up = [a], z_focus = b, z_down = []\<rparr>\<rparr>) = Some l1"
    "balance_active_column l1 = Some l2"
    "insert_window (z_focus (c_wins (z_focus (ly_cols l)))) (l2\<lparr>ly_cols := focus_up (ly_cols l2)\<rparr>) = Some l'"
    using assms rm by (auto simp: drag_left_def Let_def zl_len_def bind_eq_Some_conv)
  have "length (z_up (ly_cols l2)) = 1"
    using balance_columns_up[OF st(1)] balance_active_up[OF st(2)] by simp
  then have "z_up (focus_up (ly_cols l2)) = []"
    by (auto simp: length_Suc_conv focus_up_def swap_focus_def pop_front_def split: option.split prod.split)
  then show ?thesis
    using balance_active_up[OF st(3)[unfolded insert_window_def]]
    by (simp add: set_focused_wins_def set_focused_col_def)
qed

end
