(* ===== verification/Exec.thy ===== *)
theory Exec
  imports Address BufferFiles "HOL-Library.AList"
begin

text \<open>
  Running structural regular expressions over a text (src/exec/mod.rs): the edits that a program
  makes, and how it applies them. Parsing and matching expressions and templates is the work of
  the package structex, whose functions are the parameter \<open>structex\<close>; shell commands are run by
  the parameter \<open>run\<close>, and the output is the text written so far.
\<close>

subsection \<open>Texts that can be edited\<close>

record 'e editor =
  ed_address :: "'e \<Rightarrow> address"
  ed_len_bytes :: "'e \<Rightarrow> nat"
  ed_insert :: "'e \<Rightarrow> nat \<Rightarrow> ustr \<Rightarrow> 'e option"
  ed_remove :: "'e \<Rightarrow> nat \<Rightarrow> nat \<Rightarrow> 'e option"
  ed_begin :: "'e \<Rightarrow> 'e"
  ed_end :: "'e \<Rightarrow> 'e"

definition gap_editor :: "gap_buffer editor" where
  "gap_editor =
     \<lparr>ed_address = gap_address, ed_len_bytes = gb_len, ed_insert = gb_insert_str,
      ed_remove = gb_remove_range, ed_begin = (\<lambda>gb. gb), ed_end = (\<lambda>gb. gb)\<rparr>"

definition buffer_edit_insert :: "buffer \<Rightarrow> nat \<Rightarrow> ustr \<Rightarrow> buffer option" where
  "buffer_edit_insert b idx s =
     map_option snd (handle_action (b\<lparr>b_dot := DotCur (Cur idx)\<rparr>) (AInsertString s) Fsys)"

definition buffer_edit_remove :: "buffer \<Rightarrow> nat \<Rightarrow> nat \<Rightarrow> buffer option" where
  "buffer_edit_remove b from to =
     (if from = to then Some b
      else map_option snd
        (handle_action (b\<lparr>b_dot := collapse_null_range (dot_from_char_indices from (to - 1))\<rparr>) ADelete Fsys))"

definition buffer_editor :: "buffer editor" where
  "buffer_editor =
     \<lparr>ed_address = buffer_address, ed_len_bytes = (\<lambda>b. gb_len (b_txt b)), ed_insert = buffer_edit_insert,
      ed_remove = buffer_edit_remove,
      ed_begin = (\<lambda>b. b\<lparr>b_edit_log := log_new_transaction (b_edit_log b)\<rparr>),
      ed_end = (\<lambda>b. b\<lparr>b_edit_log := log_new_transaction (b_edit_log b)\<rparr>)\<rparr>"

subsection \<open>Edits\<close>

datatype edit_action =
    EInsert nat ustr
  | ERemove nat nat
  | EReplace nat nat ustr

text \<open>\<open>ed.byte_to_char(..).unwrap()\<close>\<close>

definition ed_byte_to_char :: "'e editor \<Rightarrow> 'e \<Rightarrow> nat \<Rightarrow> nat option" where
  "ed_byte_to_char ed e i = Option.bind (hs_byte_to_char (ad_haystack (ed_address ed e)) i) (\<lambda>c. c)"

definition inserted_dot :: "'e editor \<Rightarrow> 'e \<Rightarrow> nat \<Rightarrow> ustr \<Rightarrow> dot option" where
  "inserted_dot ed e from s = do {
     from \<leftarrow> ed_byte_to_char ed e from;
     to \<leftarrow> usub (from + length s) 1;
     Some (dot_from_char_indices from to)
   }"

definition edit_as_dot :: "'e editor \<Rightarrow> edit_action \<Rightarrow> 'e \<Rightarrow> dot option" where
  "edit_as_dot ed a e =
     (case a of
        EInsert from s \<Rightarrow> inserted_dot ed e from s
      | EReplace from _ s \<Rightarrow> inserted_dot ed e from s
      | ERemove from _ \<Rightarrow> do {
          from \<leftarrow> ed_byte_to_char ed e from;
          Some (dot_from_char_indices from from)
        })"

definition apply_insert :: "'e editor \<Rightarrow> nat \<Rightarrow> ustr \<Rightarrow> 'e \<Rightarrow> (int \<times> 'e) option" where
  "apply_insert ed from s e = do {
     from \<leftarrow> ed_byte_to_char ed e from;
     e \<leftarrow> ed_insert ed e from s;
     Some (int (length s), e)
   }"

definition apply_remove :: "'e editor \<Rightarrow> nat \<Rightarrow> nat \<Rightarrow> 'e \<Rightarrow> (int \<times> 'e) option" where
  "apply_remove ed from to e = do {
     from \<leftarrow> ed_byte_to_char ed e from;
     to \<leftarrow> ed_byte_to_char ed e to;
     e \<leftarrow> ed_remove ed e from to;
     n \<leftarrow> usub to from;
     Some (- int n, e)
   }"

definition edit_apply :: "'e editor \<Rightarrow> edit_action \<Rightarrow> 'e \<Rightarrow> (int \<times> 'e) option" where
  "edit_apply ed a e =
     (case a of
        EInsert from s \<Rightarrow> apply_insert ed from s e
      | ERemove from to \<Rightarrow> apply_remove ed from to e
      | EReplace from to s \<Rightarrow> do {
          (_, e) \<leftarrow> apply_remove ed from to e;
          (n_chars, e) \<leftarrow> apply_insert ed from s e;
          n \<leftarrow> usub to from;
          Some (n_chars - int n, e)
        })"

text \<open>The edits in reverse, with the sum of what they add.\<close>

fun apply_rev :: "'e editor \<Rightarrow> edit_action list \<Rightarrow> int \<Rightarrow> 'e \<Rightarrow> (int \<times> 'e) option" where
  "apply_rev ed [] delta e = Some (delta, e)"
| "apply_rev ed (a # as) delta e = do {
     (n, e) \<leftarrow> edit_apply ed a e;
     apply_rev ed as (delta + n) e
   }"

subsection \<open>Programs\<close>

text \<open>
  What a program uses of structex: an expression, its actions with their identifiers and
  arguments, the captures that it finds between two byte offsets, each with its action, and the
  templates, which look up variables.
\<close>

record 'c tagged =
  tc_tag :: uchar
  tc_id :: nat
  tc_from :: nat
  tc_to :: nat
  tc_caps :: 'c

datatype structex_error = EmptyExpression | OtherSyntax string

record ('se, 'c, 't) structex =
  sx_build :: "ustr \<Rightarrow> structex_error + 'se"
  sx_actions :: "'se \<Rightarrow> (nat \<times> ustr option) list"
  sx_captures :: "'se \<Rightarrow> nat \<Rightarrow> nat \<Rightarrow> haystack \<Rightarrow> 'c tagged list"
  sx_slice :: "'c \<Rightarrow> ustr"
  tp_parse :: "ustr \<Rightarrow> string + 't"
  tp_render :: "'t \<Rightarrow> 'c \<Rightarrow> (ustr \<Rightarrow> ustr option option) \<Rightarrow> (string + ustr) option"

datatype exec_error =
    ExInvalidRegex regex_error
  | ExInvalidStructex structex_error
  | ExInvalidTemplate string
  | ExInvalidSuffix
  | ExIo io_error
  | ExRender string
  | ExUnclosedDelimiter string uchar
  | ExUnexpectedCharacter uchar
  | ExUnexpectedEof
  | ExZeroIndexedLineOrColumn

record ('se, 't) program =
  pr_initial_addr :: "addr option"
  pr_se :: "'se option"
  pr_templates :: "(nat \<times> 't) list"

text \<open>The variables of a template: the row and the column of the match are looked up when used.\<close>

definition row_col :: "address \<Rightarrow> nat \<Rightarrow> (ustr \<times> ustr) option" where
  "row_col h byte_from = do {
     char_from \<leftarrow> Option.bind (hs_byte_to_char (ad_haystack h) byte_from) (\<lambda>c. c);
     row \<leftarrow> Option.bind (ad_char_to_line h char_from) (\<lambda>r. r);
     start \<leftarrow> Option.bind (ad_line_to_char h row) (\<lambda>c. c);
     col \<leftarrow> usub char_from start;
     Some (show_nat row, show_nat col)
   }"

definition render_var :: "address \<Rightarrow> ustr \<Rightarrow> nat \<Rightarrow> ustr \<Rightarrow> ustr option option" where
  "render_var h fname byte_from var =
     (if var = lit ''FILENAME'' then Some (Some fname)
      else if var = lit ''ROW'' then map_option (Some \<circ> fst) (row_col h byte_from)
      else if var = lit ''COL'' then map_option (Some \<circ> snd) (row_col h byte_from)
      else Some None)"

subsection \<open>Parsing a program\<close>

definition trim :: "ustr \<Rightarrow> ustr" where
  "trim s = rev (dropWhile is_whitespace (rev (dropWhile is_whitespace s)))"

definition exec_error_of :: "addr_error \<Rightarrow> exec_error option" where
  "exec_error_of k =
     (case k of
        NotAnAddress \<Rightarrow> None
      | InvalidRegex e \<Rightarrow> Some (ExInvalidRegex e)
      | InvalidSuffix \<Rightarrow> Some ExInvalidSuffix
      | UnclosedDelimiter \<Rightarrow> Some (ExUnclosedDelimiter ''dot expr regex'' (uc CHR ''/''))
      | UnexpectedCharacter c \<Rightarrow> Some (ExUnexpectedCharacter c)
      | UnexpectedEof \<Rightarrow> Some ExUnexpectedEof
      | ZeroIndexedLineOrColumn \<Rightarrow> Some ExZeroIndexedLineOrColumn)"

fun parse_templates ::
  "(ustr \<Rightarrow> string + 't) \<Rightarrow> (nat \<times> ustr option) list \<Rightarrow> (nat \<times> 't) list \<Rightarrow> exec_error + (nat \<times> 't) list" where
  "parse_templates parse [] ts = Inr ts"
| "parse_templates parse ((i, arg) # as) ts =
     (case arg of
        None \<Rightarrow> parse_templates parse as ts
      | Some arg \<Rightarrow>
          (case parse arg of
             Inl e \<Rightarrow> Inl (ExInvalidTemplate e)
           | Inr t \<Rightarrow> parse_templates parse as (AList.update i t ts)))"

definition program_parse ::
  "('se, 'c, 't) structex \<Rightarrow> ustr \<Rightarrow> (exec_error + ('se, 't) program) option" where
  "program_parse sx s = do {
     let s = trim s;
     (r, input) \<leftarrow> addr_parse_from (parse_input_new s);
     case (case r of
             Inr a \<Rightarrow> Inr (Some a, in_rest input)
           | Inl e \<Rightarrow>
               (case exec_error_of (pe_kind e) of None \<Rightarrow> Inr (None, s) | Some e \<Rightarrow> Inl e)) of
       Inl e \<Rightarrow> Some (Inl e)
     | Inr (initial_addr, remaining) \<Rightarrow>
         Some (case sx_build sx remaining of
                 Inl EmptyExpression \<Rightarrow>
                   Inr \<lparr>pr_initial_addr = initial_addr, pr_se = None, pr_templates = []\<rparr>
               | Inl e \<Rightarrow> Inl (ExInvalidStructex e)
               | Inr se \<Rightarrow>
                   (case parse_templates (tp_parse sx) (sx_actions sx se) [] of
                      Inl e \<Rightarrow> Inl e
                    | Inr ts \<Rightarrow>
                        Inr \<lparr>pr_initial_addr = initial_addr, pr_se = Some se, pr_templates = ts\<rparr>))
   }"

subsection \<open>Executing a program\<close>

text \<open>What the loop over the captures carries: the edits, the runner and the output so far.\<close>

record 'r gathered =
  g_actions :: "edit_action list"
  g_runner :: 'r
  g_out :: ustr

type_synonym 'r runner = "'r \<Rightarrow> ustr \<Rightarrow> ustr option \<Rightarrow> (io_error + ustr) \<times> 'r"

definition run_shell ::
  "'r runner \<Rightarrow> ustr \<Rightarrow> ustr option \<Rightarrow> (ustr \<Rightarrow> 'r gathered \<Rightarrow> 'r gathered) \<Rightarrow> 'r gathered \<Rightarrow>
   (exec_error + unit) \<times> 'r gathered" where
  "run_shell run cmd input k g =
     (case run (g_runner g) cmd input of
        (Inl e, r) \<Rightarrow> (Inl (ExIo e), g\<lparr>g_runner := r\<rparr>)
      | (Inr s, r) \<Rightarrow> (Inr (), k s (g\<lparr>g_runner := r\<rparr>)))"

definition push_edit :: "edit_action \<Rightarrow> 'r gathered \<Rightarrow> 'r gathered" where
  "push_edit a g = g\<lparr>g_actions := g_actions g @ [a]\<rparr>"

definition write_out :: "ustr \<Rightarrow> 'r gathered \<Rightarrow> 'r gathered" where
  "write_out s g = g\<lparr>g_out := g_out g @ s\<rparr>"

text \<open>
  One match. \<open>d\<close> needs no template; for the other tags the template of the action is rendered
  first, and an unknown tag is unreachable.
\<close>

definition gather_match ::
  "('se, 'c, 't) structex \<Rightarrow> 'r runner \<Rightarrow> (nat \<times> 't) list \<Rightarrow> address \<Rightarrow> ustr \<Rightarrow> 'c tagged \<Rightarrow>
   'r gathered \<Rightarrow> ((exec_error + unit) \<times> 'r gathered) option" where
  "gather_match sx run ts h fname c g =
     (if tc_tag c = uc CHR ''d'' then Some (Inr (), push_edit (ERemove (tc_from c) (tc_to c)) g)
      else if tc_tag c \<notin> set (lit ''p$>cia<|'') then None
      else do {
        t \<leftarrow> map_of ts (tc_id c);
        r \<leftarrow> tp_render sx t (tc_caps c) (render_var h fname (tc_from c));
        case r of
          Inl e \<Rightarrow> Some (Inl (ExRender e), g)
        | Inr s \<Rightarrow>
            Some (let input = Some (sx_slice sx (tc_caps c));
                      replace = (\<lambda>s. push_edit (EReplace (tc_from c) (tc_to c) s))
                  in if tc_tag c = uc CHR ''p'' then (Inr (), write_out s g)
                     else if tc_tag c = uc CHR ''$'' then run_shell run s None write_out g
                     else if tc_tag c = uc CHR ''>'' then run_shell run s input write_out g
                     else if tc_tag c = uc CHR ''c'' then (Inr (), replace s g)
                     else if tc_tag c = uc CHR ''i'' then (Inr (), push_edit (EInsert (tc_from c) s) g)
                     else if tc_tag c = uc CHR ''a'' then (Inr (), push_edit (EInsert (tc_to c) s) g)
                     else if tc_tag c = uc CHR ''<'' then run_shell run s None replace g
                     else run_shell run s input replace g)
      })"

fun gather_loop ::
  "('se, 'c, 't) structex \<Rightarrow> 'r runner \<Rightarrow> (nat \<times> 't) list \<Rightarrow> address \<Rightarrow> ustr \<Rightarrow> 'c tagged list \<Rightarrow>
   'r gathered \<Rightarrow> ((exec_error + unit) \<times> 'r gathered) option" where
  "gather_loop sx run ts h fname [] g = Some (Inr (), g)"
| "gather_loop sx run ts h fname (c # cs) g = do {
     (r, g) \<leftarrow> gather_match sx run ts h fname c g;
     case r of Inl e \<Rightarrow> Some (Inl e, g) | Inr () \<Rightarrow> gather_loop sx run ts h fname cs g
   }"

text \<open>\<open>(x as isize + delta) as usize\<close>, clamped: a negative sum wraps to a huge index.\<close>

definition shift_clamped :: "nat \<Rightarrow> int \<Rightarrow> nat \<Rightarrow> nat" where
  "shift_clamped ix_max delta x =
     (let y = int x + delta in if y < 0 then ix_max else min (nat y) ix_max)"

text \<open>The last edit gives the dot that is returned, shifted by what the others add.\<close>

definition apply_edits_rev ::
  "'e editor \<Rightarrow> edit_action list \<Rightarrow> dot \<Rightarrow> 'e \<Rightarrow> (dot \<times> 'e) option" where
  "apply_edits_rev ed acts d e = do {
     let e = ed_begin ed e;
     (d, e) \<leftarrow>
       (if acts = [] then Some (d, e)
        else do {
          d \<leftarrow> edit_as_dot ed (last acts) e;
          (_, e) \<leftarrow> edit_apply ed (last acts) e;
          Some (d, e)
        });
     (delta, e) \<leftarrow> apply_rev ed (rev (butlast acts)) 0 e;
     let e = ed_end ed e;
     let ix_max = ad_len_chars (ed_address ed e);
     let (from, to) = as_char_indices d;
     Some (dot_from_char_indices (shift_clamped ix_max delta from) (shift_clamped ix_max delta to), e)
   }"

text \<open>The matches in the initial dot, and what they ask for.\<close>

definition program_gather ::
  "('se, 'c, 't) structex \<Rightarrow> 'r runner \<Rightarrow> 'e editor \<Rightarrow> ('se, 't) program \<Rightarrow> 'se \<Rightarrow> dot \<Rightarrow> ustr \<Rightarrow> 'r \<Rightarrow> ustr \<Rightarrow> 'e \<Rightarrow>
   ((exec_error + unit) \<times> 'r gathered) option" where
  "program_gather sx run ed p se d fname r out e = do {
     let h = ed_address ed e;
     let (char_from, char_to) = as_char_indices d;
     byte_from \<leftarrow> Option.bind (hs_char_to_byte (ad_haystack h) char_from) (\<lambda>b. b);
     byte_to \<leftarrow> map_option (\<lambda>b. case b of Some b \<Rightarrow> b | None \<Rightarrow> ed_len_bytes ed e)
                  (hs_char_to_byte (ad_haystack h) (char_to + 1));
     gather_loop sx run (pr_templates p) h fname
       (sx_captures sx se byte_from byte_to (ad_haystack h))
       \<lparr>g_actions = [], g_runner = r, g_out = out\<rparr>
   }"

definition initial_dot ::
  "literal_search \<Rightarrow> (uchar \<Rightarrow> bool) \<Rightarrow> ('se, 't) program \<Rightarrow> address \<Rightarrow> dot option" where
  "initial_dot ac alnum p h =
     (case pr_initial_addr p of
        Some a \<Rightarrow> map_addr ac alnum h a
      | None \<Rightarrow> Some (ad_current_dot h))"

definition program_execute ::
  "literal_search \<Rightarrow> (uchar \<Rightarrow> bool) \<Rightarrow> ('se, 'c, 't) structex \<Rightarrow> 'r runner \<Rightarrow> 'e editor \<Rightarrow>
   ('se, 't) program \<Rightarrow> ustr \<Rightarrow> 'r \<Rightarrow> ustr \<Rightarrow> 'e \<Rightarrow> ((exec_error + dot) \<times> 'r \<times> ustr \<times> 'e) option" where
  "program_execute ac alnum sx run ed p fname r out e = do {
     d \<leftarrow> initial_dot ac alnum p (ed_address ed e);
     case pr_se p of
       None \<Rightarrow> Some (Inr d, r, out, e)
     | Some se \<Rightarrow> do {
         (res, g) \<leftarrow> program_gather sx run ed p se d fname r out e;
         case res of
           Inl err \<Rightarrow> Some (Inl err, g_runner g, g_out g, e)
         | Inr () \<Rightarrow> do {
             (d, e) \<leftarrow> apply_edits_rev ed (g_actions g) d e;
             Some (Inr d, g_runner g, g_out g, e)
           }
       }
   }"

end
