(* ===== verification/ExecProperties.thy ===== *)
theory ExecProperties
  imports Exec BufferEdit GapLine
begin

text \<open>
  What executing a program does to the text (src/exec/mod.rs): its edits, which are collected from
  the matches of the unchanged text, replace their ranges all at once although they are applied
  one after another, from the last to the first.
\<close>

subsection \<open>Changes of a text\<close>

text \<open>A change is a range of characters and the text that takes its place.\<close>

type_synonym change = "nat \<times> nat \<times> ustr"

fun in_order :: "nat \<Rightarrow> ustr \<Rightarrow> change list \<Rightarrow> bool" where
  "in_order k s [] \<longleftrightarrow> k \<le> length s"
| "in_order k s ((i, j, t) # cs) \<longleftrightarrow> k \<le> i \<and> i \<le> j \<and> in_order j s cs"

fun replaced :: "nat \<Rightarrow> ustr \<Rightarrow> change list \<Rightarrow> ustr" where
  "replaced k s [] = drop k s"
| "replaced k s ((i, j, t) # cs) = drop k (take i s) @ t @ replaced j s cs"

text \<open>The edit that makes a change has byte offsets into the text that was searched.\<close>

definition insertable :: "ustr \<Rightarrow> bool" where
  "insertable t \<longleftrightarrow> str_ok t \<and> normalize_line_endings t = t"

definition edit_of :: "ustr \<Rightarrow> change \<Rightarrow> edit_action \<Rightarrow> bool" where
  "edit_of s c a \<longleftrightarrow> (case c of (i, j, t) \<Rightarrow> insertable t \<and>
     (a = EReplace (blen (take i s)) (blen (take j s)) t \<or>
      (a = EInsert (blen (take i s)) t \<and> i = j) \<or>
      (a = ERemove (blen (take i s)) (blen (take j s)) \<and> t = [])))"

text \<open>The dot is that of the last edit, which must select something when it is at the very start.\<close>

definition selects :: "change \<Rightarrow> edit_action \<Rightarrow> bool" where
  "selects c a \<longleftrightarrow> (case c of (i, j, t) \<Rightarrow> t \<noteq> [] \<or> 0 < i \<or> (\<exists>from to. a = ERemove from to))"

lemma in_order_le: "in_order k s cs \<Longrightarrow> k \<le> length s"
  by (induction cs arbitrary: k) force+

subsection \<open>Editors\<close>

text \<open>What an editor promises about its text.\<close>

locale edit_impl =
  fixes ed :: "'e editor" and holds :: "'e \<Rightarrow> ustr \<Rightarrow> bool"
  assumes byte_to_char: "holds e s \<Longrightarrow> k \<le> length s \<Longrightarrow> ed_byte_to_char ed e (blen (take k s)) = Some k"
    and insert: "holds e s \<Longrightarrow> k \<le> length s \<Longrightarrow> insertable t \<Longrightarrow>
      \<exists>e'. ed_insert ed e k t = Some e' \<and> holds e' (take k s @ t @ drop k s)"
    and remove: "holds e s \<Longrightarrow> i \<le> j \<Longrightarrow> j \<le> length s \<Longrightarrow>
      \<exists>e'. ed_remove ed e i j = Some e' \<and> holds e' (take i s @ drop j s)"
    and transaction: "holds e s \<Longrightarrow> holds (ed_begin ed e) s \<and> holds (ed_end ed e) s"
    and len: "holds e s \<Longrightarrow> ad_len_chars (ed_address ed e) = length s"
begin

lemma insert_at:
  assumes "holds e s" "k \<le> length s" "insertable t"
  shows "\<exists>e'. apply_insert ed (blen (take k s)) t e = Some (int (length t), e') \<and>
    holds e' (take k s @ t @ drop k s)"
  using insert[OF assms] byte_to_char[OF assms(1,2)] by (auto simp: apply_insert_def)

lemma remove_at:
  assumes "holds e s" "i \<le> j" "j \<le> length s"
  shows "\<exists>e'. apply_remove ed (blen (take i s)) (blen (take j s)) e = Some (- int (j - i), e') \<and>
    holds e' (take i s @ drop j s)"
  using remove[OF assms] byte_to_char[OF assms(1), of i] byte_to_char[OF assms(1), of j] assms
  by (auto simp: apply_remove_def usub_def)

text \<open>One edit, in a text that is unchanged up to the end of its range.\<close>

lemma edit_at:
  assumes h: "holds e s'" and s: "take j s' = take j s" "i \<le> j" "j \<le> length s'" "j \<le> length s"
    and a: "edit_of s (i, j, t) a"
  shows "\<exists>n e'. edit_apply ed a e = Some (n, e') \<and> holds e' (take i s @ t @ drop j s')"
proof -
  have i: "take i s' = take i s"
    using arg_cong[OF s(1), of "take i"] s(2) by (simp add: take_take min_absorb1)
  have b: "blen (take i s) \<le> blen (take j s)" using s(2) by (simp add: blen_take_mono)
  obtain e1 where rm: "apply_remove ed (blen (take i s)) (blen (take j s)) e = Some (- int (j - i), e1)"
    "holds e1 (take i s @ drop j s')"
    using remove_at[OF h s(2,3)] i s(1) by auto
  have t: "insertable t" using a by (simp add: edit_of_def)
  have "take i (take i s @ drop j s') = take i s" using s by simp
  then obtain e2 where ins: "apply_insert ed (blen (take i s)) t e1 = Some (int (length t), e2)"
    "holds e2 (take i s @ t @ drop j s')"
    using insert_at[OF rm(2) _ t, of i] s(2-4) by (fastforce simp: min_absorb1)
  obtain e3 where ins0: "apply_insert ed (blen (take i s)) t e = Some (int (length t), e3)"
    "holds e3 (take i s @ t @ drop i s')"
    using insert_at[OF h _ t, of i] s i by auto
  show ?thesis
    using a rm ins ins0 b by (auto simp: edit_of_def edit_apply_def usub_def)
qed

lemma apply_rev_append:
  "apply_rev ed (as @ bs) d e = Option.bind (apply_rev ed as d e) (\<lambda>(d, e). apply_rev ed bs d e)"
  by (induction as arbitrary: d e) (auto split: bind_splits)

lemma apply_rev_delta: "apply_rev ed as d e = Some (n, e') \<Longrightarrow> \<exists>n'. apply_rev ed as d' e = Some (n', e')"
  by (induction as arbitrary: d d' e) (auto simp: bind_eq_Some_conv)

lemma edits_replaced:
  assumes "holds e s" "in_order k s cs" "list_all2 (edit_of s) cs acts"
  shows "\<exists>d' e'. apply_rev ed (rev acts) d e = Some (d', e') \<and> holds e' (take k s @ replaced k s cs)"
  using assms(2,3)
proof (induction cs arbitrary: k acts)
  case Nil
  then show ?case using assms(1) by simp
next
  case (Cons c cs)
  obtain i j t where c: "c = (i, j, t)" by (cases c)
  obtain a as where a: "acts = a # as" "edit_of s (i, j, t) a" "list_all2 (edit_of s) cs as"
    using Cons(3) c by (auto simp: list_all2_Cons1)
  have o: "k \<le> i" "i \<le> j" "in_order j s cs" using Cons(2) c by simp_all
  then have j: "j \<le> length s" using in_order_le by blast
  obtain d1 e1 where 1: "apply_rev ed (rev as) d e = Some (d1, e1)" "holds e1 (take j s @ replaced j s cs)"
    using Cons(1)[OF o(3) a(3)] by blast
  obtain n e2 where 2: "edit_apply ed a e1 = Some (n, e2)"
    "holds e2 (take i s @ t @ drop j (take j s @ replaced j s cs))"
    using edit_at[OF 1(2), of j s i t a] a(2) j o(2) by auto
  have "take i s = take k s @ drop k (take i s)"
    using append_take_drop_id[of k "take i s"] o(1) by (simp add: take_take min_absorb1)
  then have sp: "take k s @ drop k (take i s) @ u = take i s @ u" for u by (metis append_assoc)
  show ?case
    using 1(1) 2 j by (simp add: a(1) c apply_rev_append sp)
qed

lemma dot_of_edit:
  assumes "holds e s" "edit_of s c a" "selects c a" "fst c \<le> length s"
  shows "\<exists>d. edit_as_dot ed a e = Some d"
proof -
  obtain i j t where c: "c = (i, j, t)" by (cases c)
  have "ed_byte_to_char ed e (blen (take i s)) = Some i" using byte_to_char[OF assms(1)] assms(4) c by simp
  then show ?thesis
    using assms(2,3) c by (auto simp: edit_of_def selects_def edit_as_dot_def inserted_dot_def usub_def Suc_le_eq)
qed

lemma in_order_last: "in_order k s (cs @ [c]) \<Longrightarrow> fst c \<le> length s"
  by (induction cs arbitrary: k; cases c) (auto dest: in_order_le)

lemma apply_edits_replaced:
  assumes h: "holds e s" and o: "in_order 0 s cs" and m: "list_all2 (edit_of s) cs acts"
    and sel: "acts \<noteq> [] \<Longrightarrow> selects (last cs) (last acts)"
  shows "\<exists>d' e'. apply_edits_rev ed acts d e = Some (d', e') \<and> holds e' (replaced 0 s cs)"
proof -
  have b: "holds (ed_begin ed e) s" using transaction[OF h] by blast
  obtain n e1 where r: "apply_rev ed (rev acts) 0 (ed_begin ed e) = Some (n, e1)" "holds e1 (replaced 0 s cs)"
    using edits_replaced[OF b o m, of 0] by auto
  have fin: "holds (ed_end ed e1) (replaced 0 s cs)" using transaction[OF r(2)] by blast
  show ?thesis
  proof (cases acts rule: rev_cases)
    case Nil
    then show ?thesis using r fin by (auto simp: apply_edits_rev_def Let_def case_prod_unfold)
  next
    case (snoc as a)
    then obtain cs' c where cs: "cs = cs' @ [c]" "edit_of s c a"
      using m by (auto simp: list_all2_append2 list_all2_Cons2)
    obtain d' where d': "edit_as_dot ed a (ed_begin ed e) = Some d'"
      using dot_of_edit[OF b cs(2)] sel snoc cs(1) in_order_last o by fastforce
    obtain k e2 where k: "edit_apply ed a (ed_begin ed e) = Some (k, e2)" "apply_rev ed (rev as) k e2 = Some (n, e1)"
      using r(1) snoc by (auto simp: bind_eq_Some_conv)
    obtain n' where "apply_rev ed (rev as) 0 e2 = Some (n', e1)"
      using apply_rev_delta[OF k(2), of 0] by blast
    then show ?thesis using snoc d' k(1) fin by (auto simp: apply_edits_rev_def Let_def case_prod_unfold)
  qed
qed

end

subsection \<open>Gap buffers and buffers\<close>



lemma gap_byte_to_char:
  "gb_holds gb s \<Longrightarrow> k \<le> length s \<Longrightarrow> hs_byte_to_char (gap_haystack gb) (blen (take k s)) = Some (Some k)"
  using blen_take_mono[of k "length s" s] by (simp add: gap_haystack_def byte_to_char_correct gb_holds_len)

interpretation gap_edit: edit_impl gap_editor gb_holds
proof unfold_locales
  show "\<exists>e'. ed_insert gap_editor e k t = Some e' \<and> gb_holds e' (take k s @ t @ drop k s)"
    if "gb_holds e s" "k \<le> length s" "insertable t" for e k s t
    using gb_insert_str_holds[OF that(1,2)] that(3) by (simp add: gap_editor_def insertable_def)
  show "\<exists>e'. ed_remove gap_editor e i j = Some e' \<and> gb_holds e' (take i s @ drop j s)"
    if "gb_holds e s" "i \<le> j" "j \<le> length s" for e i j s
    using gb_remove_range_holds[OF that] by (simp add: gap_editor_def)
qed (simp_all add: gap_editor_def ed_byte_to_char_def gap_address_def gap_byte_to_char len_chars_def gb_holds_len)

lemma clamp_dots_txt [simp]: "b_txt (clamp_dots b) = b_txt b"
  by (simp add: clamp_dots_def Let_def)




subsection \<open>Properties\<close>




end
