(* ===== verification/Spec2Isabelle.thy ===== *)
theory Spec2Isabelle
  imports GapProperties BufferProperties ZipListProperties TrieProperties
    NinepProperties NinepServerProperties RegexProperties
    AddressProperties MoveProperties
    BufferFilesProperties BuffersProperties LayoutProperties ExecProperties
begin

text \<open>
  A verification development of the text editor \<open>ad\<close>.

  The editor keeps each open file in a gap buffer, edits it through a selection (the dot) with an
  edit log for undo and redo, keeps buffers and windows in zip lists and key bindings in tries,
  searches with its own regular expression engine, and serves its state to other programs as a
  9P filesystem. The theories follow these parts.

  Conventions. A function of the code that can panic (an index out of range, an underflow, an
  unwrap of nothing) returns an option here and \<open>None\<close> is the panic; a \<open>Result\<close> of the code is a
  sum inside it, with the error on the left. Functions that change \<open>self\<close> return the changed
  record. A character is a 32 bit word, text is a list of characters (\<open>ustr\<close>), and bytes are
  8 bit words; \<open>utf8\<close> encodes text and \<open>blen\<close> is the length of the encoding. Sizes and indices
  (\<open>usize\<close>) are natural numbers with checked subtraction (\<open>usub\<close>) unless the code can overflow
  them from outside, and the integers of the 9P protocol are words of their width.

  Shared theories.
  \<^item> Prelude: options as panics, checked arithmetic, slices of lists.
  \<^item> Utf8: encoding and decoding, literals; the decoders of src/buffer/internal.rs.
  \<^item> TextStore, TextLines: interfaces (locales) of a store of text and of its lines, and what
    their clients can prove; interpreted by the gap buffer in GapText and GapLine.

  Gap buffer: src/buffer/internal.rs.
  \<^item> GapBuffer: the record (data, gap, line index, character index cache) and its operations.
  \<^item> GapRel: the relation between a buffer and the text in front of and behind its gap.
  \<^item> GapIndex, GapEdit, GapRead, GapView, GapText, GapLine: moving the gap, index
    conversions, edits, reads, slices and iterators, and the interpretations.
  \<^item> GapProperties: C1 to C8, and three behaviours that differ from the documentation.

  Buffer, dot and edit log: src/buffer/mod.rs, src/buffer/edit.rs, src/dot/.
  \<^item> Dot: cursors, ranges and the dot. EditLog: the log. Events: the input events that an edit
    sends. Buffer: edits, undo, redo, dot and xdot of a buffer over its gap buffer.
  \<^item> UndoLog, BufferEdit: inverses of edits, and that every action keeps the buffer consistent.
  \<^item> BufferProperties: C9 and C10.

  Zip list: src/ziplist.rs. ZipList, ZipListProperties: C11.

  Trie: src/trie.rs. Trie, BTree (the ordered maps of the standard library), TrieForest,
  TrieBuild, TriePairs, TrieProperties: C12 and C13.

  9P: crates/ninep/src/.
  \<^item> NinepProtocol: the readers and writers of the wire format. NinepFs: metadata and directory
    entries. NinepMessages: the messages. NinepServer: the handlers of a connection and its loop.
  \<^item> NinepCodec, NinepMessageCodec, NinepSession: a locale for a type with its wire format,
    interpreted for every field, and the invariant of a session.
  \<^item> NinepProperties, NinepServerProperties: C21 to C28. The served filesystem is a parameter.

  Regular expressions: src/regex/.
  \<^item> RegexAst: characters, classes, the parser and the transformations of trees (ast.rs, mod.rs).
    RegexCompile: the compiler and its optimiser (compile.rs). RegexVm: the thread machine
    (vm.rs, matches.rs). RegexHaystack: what can be searched, the searches and the iterator
    (haystack.rs, vm.rs, matches.rs).
  \<^item> RegexLang: what an expression matches and what a program accepts. RegexProgram: compiled
    programs accept what their expression matches, and inlining jumps keeps that.
  \<^item> RegexPike, RegexRun: the machine refines one whose threads own their submatches.
    RegexSearch, RegexLeftmost, RegexFind: a run of that one finds the leftmost match.
    RegexCompiled: compiled programs have the shape that this needs.
  \<^item> RegexApi: the locales \<open>haystack_impl\<close> and \<open>haystack_rest\<close> with the searches and
    the iterator as their client, interpreted for strings and gap buffers.
  \<^item> RegexParse: what the parser makes, and that its fuel is enough.
  \<^item> RegexProperties: C29 to C34, and behaviours that differ from the documentation.

  Moves, searches and text objects: src/dot/, src/key.rs, src/buffer/mod.rs.
  \<^item> Keys: key presses and mouse events, decoded from what a terminal sends. Motion: the moves of a
    cursor, its printed address, and the searches for simple targets. TextObject: the text objects,
    how a buffer sets and extends its dot by them, expands it, and takes raw input.
  \<^item> MotionLemmas: lines and columns, moves and searches on the text of a buffer.
  \<^item> MoveProperties: C38 and C39.

  Open buffers and files: src/buffer/buffers.rs, src/buffer/mod.rs.
  \<^item> BufferFiles: kinds and names of buffers, making a buffer from a file or a directory, reloading
    and saving; the answers of the operating system are the parameters \<open>files\<close>, \<open>modified\<close> (against
    the last save) and \<open>write\<close>. BufferFilesProperties: C20.
  \<^item> Buffers: the zip list of open buffers, the jump list, opening, focusing and closing.
  \<^item> BuffersLemmas, BuffersProperties: the states that the operations reach; C14, C18, C19.

  Window layout: src/ui/layout.rs.
  \<^item> Windows: views, windows, columns and their sizes. Layout: the layout, showing, opening and
    closing. LayoutMoves: focus, jumps, dragging, coordinates, scrolling, resizing.
  \<^item> LayoutLemmas, LayoutInvariant, LayoutReach, LayoutFocus: the invariant \<open>layout_ok\<close> (windows show
    open buffers, columns fill the width) and that each operation keeps it, group by group, and
    after which ones the focused window shows the active buffer (\<open>synced\<close>).
  \<^item> LayoutProperties: the step relation and C15 to C17. A resize of the screen is outside of the
    step relation, since the columns need not fill the width after it; the multiplication of a
    size by a ratio (single precision, truncated) is its parameter \<open>scale\<close>.

  Addresses: src/parse.rs, src/exec/addr.rs.
  \<^item> Address: the input of the parsers, the parser of addresses and their resolution through the
    methods of \<open>Address\<close>. AddressParse: what the parser reads.
  \<^item> AddressResolve: the locale \<open>address_impl\<close>, what an implementation promises about lines, with the
    resolution of addresses as its client; interpreted for gap buffers and buffers.
  \<^item> AddressProperties: C35 to C37, and the last line, which behaves differently.

  Sam commands: src/exec/mod.rs, src/exec/runner.rs.
  \<^item> Exec: the programs, their edits and how these are applied. The structural expressions and
    their templates are another package, so their matches and texts are parameters, as is the
    shell; the writer of the output does not fail.
  \<^item> ExecProperties: the locale \<open>edit_impl\<close> of a text that can be edited, interpreted for gap
    buffers and buffers, and C40.

  Fuel. The iterators over a slice have fuel for its bytes, the parser for two steps for each
  character of the pattern, \<open>add_thread\<close> for each instruction once (a thread is added at most once
  to an instruction in a round), and a served stream for each of its messages; the theorems state
  that the fuel that the code's model passes gives a result. The loop that inlines jumps has no
  fuel: it is a partial function, and C32 shows that it returns.

  Not modelled. Drawing and raw terminal input and output; threads, channels and sockets (a
  connection is the sequence of its messages, the channel of input events the list of what was
  sent); files and processes of the operating system; tree-sitter, the language server protocol
  and configuration files, which are other packages; the leading literal search of the regular
  expressions, another package too, is a parameter and the search properties are about haystacks
  and expressions without it. The Unicode table of alphanumeric characters is a parameter as
  well.
\<close>

end
